(* ===== verification/Prelude.thy ===== *)
theory Prelude
  imports Complex_Main "HOL-Library.Multiset" "HOL-Library.AList" "HOL-Library.Char_ord" "HOL-Library.List_Lexorder"
begin

text \<open>
  What the component theories share: results with errors as values, the JavaScript
  containers the sources use (insertion-ordered sets and maps, \<open>find\<close>, \<open>findIndex\<close>,
  \<open>at(-1)\<close>), decimal rendering, and the string operations of the ECMAScript standard
  library on the strings of this development.

  A JavaScript string is a sequence of UTF-16 code units. Here a string is a HOL
  \<open>string\<close>, whose characters are the code units U+0000 to U+00FF; on those, length,
  comparison by code unit, lower-casing, trimming and the Unicode classes \<open>\p{L}\<close> and
  \<open>\p{N}\<close> are given exactly. Comparison is the lexicographic order by code unit.
\<close>

section \<open>Fact collections\<close>

named_theorems js_simps \<open>equations of the JavaScript library operations\<close>
named_theorems store_simps \<open>equations of the storage operations\<close>
named_theorems inv_rules \<open>preservation rules of component invariants\<close>

section \<open>Results: errors as values\<close>

definition res_bind :: "'e + 'a \<Rightarrow> ('a \<Rightarrow> 'e + 'b) \<Rightarrow> 'e + 'b" where
  "res_bind m f = (case m of Inl e \<Rightarrow> Inl e | Inr x \<Rightarrow> f x)"

lemma res_bind_Inl [simp]: "res_bind (Inl e) f = Inl e"
  by (simp add: res_bind_def)

lemma res_bind_Inr [simp]: "res_bind (Inr x) f = f x"
  by (simp add: res_bind_def)

lemma res_bind_eq_Inr: "res_bind m f = Inr y \<longleftrightarrow> (\<exists>x. m = Inr x \<and> f x = Inr y)"
  by (cases m) auto

lemma res_bind_eq_Inl:
  "res_bind m f = Inl e \<longleftrightarrow> m = Inl e \<or> (\<exists>x. m = Inr x \<and> f x = Inl e)"
  by (cases m) auto

lemma res_bindE:
  assumes "res_bind m f = Inr y"
  obtains x where "m = Inr x" and "f x = Inr y"
  using assms by (auto simp: res_bind_eq_Inr)

text \<open>A loop that runs a fallible body over a list and stops at the first error.\<close>

fun res_fold :: "('a \<Rightarrow> 's \<Rightarrow> 'e + 's) \<Rightarrow> 'a list \<Rightarrow> 's \<Rightarrow> 'e + 's" where
  "res_fold f [] s = Inr s"
| "res_fold f (x # xs) s = res_bind (f x s) (res_fold f xs)"

lemma res_fold_append:
  "res_fold f (xs @ ys) s = res_bind (res_fold f xs s) (res_fold f ys)"
  by (induction xs arbitrary: s) (auto simp: res_bind_def split: sum.splits)

lemma res_fold_invariant:
  assumes step: "\<And>x s s'. x \<in> set xs \<Longrightarrow> P s \<Longrightarrow> f x s = Inr s' \<Longrightarrow> P s'"
    and "P s" and "res_fold f xs s = Inr s'"
  shows "P s'"
  using assms
proof (induction xs arbitrary: s)
  case Nil
  then show ?case by simp
next
  case (Cons x xs)
  from Cons.prems(3) obtain t where t: "f x s = Inr t" "res_fold f xs t = Inr s'"
    by (auto elim: res_bindE)
  with Cons.prems(1)[of x s t] Cons.prems(2) have "P t" by simp
  show ?case
  proof (rule Cons.IH [OF _ \<open>P t\<close> t(2)])
    fix y u u'
    assume "y \<in> set xs" "P u" "f y u = Inr u'"
    then show "P u'" using Cons.prems(1)[of y u u'] by simp
  qed
qed

section \<open>JavaScript containers\<close>

text \<open>\<open>new Set(xs)\<close>: the distinct elements in the order of their first occurrence.\<close>

definition set_add :: "'a \<Rightarrow> 'a list \<Rightarrow> 'a list" where
  "set_add x s = (if x \<in> set s then s else s @ [x])"

definition js_set :: "'a list \<Rightarrow> 'a list" where
  "js_set xs = fold set_add xs []"

lemma set_set_add [simp]: "set (set_add x s) = insert x (set s)"
  by (auto simp: set_add_def)

lemma distinct_set_add [simp]: "distinct (set_add x s) = distinct s"
  by (auto simp: set_add_def)

lemma set_fold_set_add: "set (fold set_add xs s) = set xs \<union> set s"
  by (induction xs arbitrary: s) auto

lemma distinct_fold_set_add: "distinct s \<Longrightarrow> distinct (fold set_add xs s)"
  by (induction xs arbitrary: s) auto

lemma set_js_set [simp, js_simps]: "set (js_set xs) = set xs"
  by (simp add: js_set_def set_fold_set_add)

lemma distinct_js_set [simp, js_simps]: "distinct (js_set xs)"
  by (simp add: js_set_def distinct_fold_set_add)

lemma fold_set_add_distinct:
  "distinct (s @ xs) \<Longrightarrow> fold set_add xs s = s @ xs"
  by (induction xs arbitrary: s) (auto simp: set_add_def)

lemma js_set_distinct: "distinct xs \<Longrightarrow> js_set xs = xs"
  by (simp add: js_set_def fold_set_add_distinct)

lemma length_js_set: "length (js_set xs) = card (set xs)"
  by (metis distinct_card distinct_js_set set_js_set)

text \<open>
  \<open>new Map(pairs)\<close>: a later pair replaces the value of an earlier one at its place.
  \<open>AList.update\<close> is \<open>Map.prototype.set\<close>.
\<close>

definition js_map :: "('k \<times> 'v) list \<Rightarrow> ('k \<times> 'v) list" where
  "js_map kvs = fold (\<lambda>(k, v). AList.update k v) kvs []"

lemma map_of_fold_update:
  "map_of (fold (\<lambda>(k, v). AList.update k v) kvs m) = map_of m ++ map_of (rev kvs)"
proof (induction kvs arbitrary: m)
  case Nil
  then show ?case by simp
next
  case (Cons kv kvs)
  obtain k v where kv: "kv = (k, v)" by force
  have "map_of (AList.update k v m) = (map_of m)(k \<mapsto> v)"
    by (rule ext) (simp add: update_conv)
  then show ?case
    by (auto simp: kv Cons.IH map_add_def fun_eq_iff split: option.splits)
qed

lemma map_of_js_map [js_simps]: "map_of (js_map kvs) = map_of (rev kvs)"
  by (simp add: js_map_def map_of_fold_update)

lemma distinct_fold_update:
  "distinct (map fst m) \<Longrightarrow> distinct (map fst (fold (\<lambda>(k, v). AList.update k v) kvs m))"
  by (induction kvs arbitrary: m) (auto simp: distinct_update)

lemma map_of_rev_distinct:
  "distinct (map fst kvs) \<Longrightarrow> map_of (rev kvs) = map_of kvs"
  by (rule map_of_inject_set [THEN iffD2]) (auto simp: rev_map [symmetric])

text \<open>\<open>xs.findIndex(p)\<close>, with \<open>None\<close> for -1, and \<open>xs.at(-1)\<close>.\<close>

fun find_index :: "('a \<Rightarrow> bool) \<Rightarrow> 'a list \<Rightarrow> nat option" where
  "find_index p [] = None"
| "find_index p (x # xs) = (if p x then Some 0 else map_option Suc (find_index p xs))"

lemma find_index_None: "find_index p xs = None \<longleftrightarrow> (\<forall>x \<in> set xs. \<not> p x)"
  by (induction xs) auto

lemma find_index_Some:
  "find_index p xs = Some i \<longleftrightarrow>
     i < length xs \<and> p (xs ! i) \<and> (\<forall>j < i. \<not> p (xs ! j))"
proof (induction xs arbitrary: i)
  case Nil
  then show ?case by simp
next
  case (Cons x xs)
  show ?case
    by (cases i) (auto simp: Cons.IH less_Suc_eq_0_disj nth_Cons' split: if_splits)
qed

definition at_last :: "'a list \<Rightarrow> 'a option" where
  "at_last xs = (if xs = [] then None else Some (last xs))"

lemma find_Some_set: "List.find p xs = Some x \<Longrightarrow> x \<in> set xs \<and> p x"
  by (auto simp: find_Some_iff)

lemma find_None_set: "List.find p xs = None \<longleftrightarrow> (\<forall>x \<in> set xs. \<not> p x)"
  by (auto simp: find_None_iff)

lemma find_filter_hd:
  "List.find p xs = (case filter p xs of [] \<Rightarrow> None | y # _ \<Rightarrow> Some y)"
  by (induction xs) auto

section \<open>Sorting by a key\<close>

text \<open>
  \<open>sort\<close> with a comparator on a key is stable, as \<open>sort_key\<close> is; with distinct keys the
  result does not depend on the order of the input.
\<close>

lemma sort_key_perm_unique:
  assumes "mset xs = mset ys" and "distinct (map f xs)"
  shows "sort_key f xs = sort_key f ys"
  by (rule sort_key_inj_key_eq) (use assms in \<open>auto simp: distinct_map\<close>)

section \<open>Rendering\<close>

text \<open>\<open>String(n)\<close> of a natural number.\<close>

fun show_nat :: "nat \<Rightarrow> string" where
  "show_nat n = (if n < 10 then [char_of (48 + n)] else show_nat (n div 10) @ [char_of (48 + n mod 10)])"

declare show_nat.simps [simp del]

text \<open>\<open>parts.join(sep)\<close>.\<close>

fun join :: "string \<Rightarrow> string list \<Rightarrow> string" where
  "join sep [] = []"
| "join sep [x] = x"
| "join sep (x # y # zs) = x @ sep @ join sep (y # zs)"

lemma concat_map_empty_iff: "concat (map f xs) = [] \<longleftrightarrow> (\<forall>x \<in> set xs. f x = [])"
  by auto

section \<open>Characters of the ECMAScript standard library\<close>

abbreviation code_unit :: "char \<Rightarrow> nat" where
  "code_unit c \<equiv> of_char c"

definition is_digit_char :: "char \<Rightarrow> bool" where
  "is_digit_char c \<longleftrightarrow> 48 \<le> code_unit c \<and> code_unit c \<le> 57"

definition is_lower_char :: "char \<Rightarrow> bool" where
  "is_lower_char c \<longleftrightarrow> 97 \<le> code_unit c \<and> code_unit c \<le> 122"

text \<open>The classes \<open>\p{L}\<close> and \<open>\p{N}\<close> on U+0000 to U+00FF.\<close>

definition is_letter_char :: "char \<Rightarrow> bool" where
  "is_letter_char c \<longleftrightarrow>
     (let n = code_unit c in
       65 \<le> n \<and> n \<le> 90 \<or> 97 \<le> n \<and> n \<le> 122 \<or> n \<in> {170, 181, 186} \<or>
       192 \<le> n \<and> n \<le> 214 \<or> 216 \<le> n \<and> n \<le> 246 \<or> 248 \<le> n)"

definition is_number_char :: "char \<Rightarrow> bool" where
  "is_number_char c \<longleftrightarrow> is_digit_char c \<or> code_unit c \<in> {178, 179, 185, 188, 189, 190}"

text \<open>\<open>toLowerCase\<close>: on these code units a map that keeps the length.\<close>

definition lower_char :: "char \<Rightarrow> char" where
  "lower_char c =
     (let n = code_unit c in
       if 65 \<le> n \<and> n \<le> 90 \<or> 192 \<le> n \<and> n \<le> 222 \<and> n \<noteq> 215
       then char_of (n + 32) else c)"

definition to_lower :: "string \<Rightarrow> string" where
  "to_lower s = map lower_char s"

text \<open>\<open>trim\<close> drops white space and line terminators at both ends.\<close>

definition is_space_char :: "char \<Rightarrow> bool" where
  "is_space_char c \<longleftrightarrow> (let n = code_unit c in 9 \<le> n \<and> n \<le> 13 \<or> n = 32 \<or> n = 160)"

definition trim :: "string \<Rightarrow> string" where
  "trim s = rev (dropWhile is_space_char (rev (dropWhile is_space_char s)))"

lemma trim_Nil_iff: "trim s = [] \<longleftrightarrow> (\<forall>c \<in> set s. is_space_char c)"
proof -
  have "dropWhile is_space_char s = [] \<or> \<not> is_space_char (hd (dropWhile is_space_char s))"
    by (metis hd_dropWhile)
  then show ?thesis
    unfolding trim_def rev_is_Nil_conv dropWhile_eq_Nil_conv set_rev
    by (metis dropWhile_eq_Nil_conv empty_iff list.set(1) list.set_sel(1) set_dropWhileD)
qed

text \<open>\<open>haystack.includes(needle)\<close> on strings: a contiguous occurrence.\<close>

fun str_includes :: "string \<Rightarrow> string \<Rightarrow> bool" where
  "str_includes [] needle = (needle = [])"
| "str_includes (c # cs) needle =
     (take (length needle) (c # cs) = needle \<or> str_includes cs needle)"

lemma str_includes_iff: "str_includes h n \<longleftrightarrow> (\<exists>a b. h = a @ n @ b)"
proof (induction h)
  case Nil
  then show ?case by simp
next
  case (Cons c cs)
  show ?case
  proof
    assume "str_includes (c # cs) n"
    then consider "take (length n) (c # cs) = n" | "str_includes cs n" by auto
    then show "\<exists>a b. c # cs = a @ n @ b"
    proof cases
      case 1
      then have "c # cs = [] @ n @ drop (length n) (c # cs)"
        by (metis append_Nil append_take_drop_id)
      then show ?thesis by blast
    next
      case 2
      then obtain a b where "cs = a @ n @ b" using Cons.IH by blast
      then have "c # cs = (c # a) @ n @ b" by simp
      then show ?thesis by blast
    qed
  next
    assume "\<exists>a b. c # cs = a @ n @ b"
    then obtain a b where ab: "c # cs = a @ n @ b" by blast
    show "str_includes (c # cs) n"
    proof (cases a)
      case Nil
      then have "take (length n) (c # cs) = n" by (simp add: ab)
      then show ?thesis by simp
    next
      case (Cons d ds)
      then show ?thesis using ab Cons.IH by auto
    qed
  qed
qed

end
