(* ===== verification/Admission_Lane.thy ===== *)
theory Admission_Lane
  imports Prelude "HOL-Library.Sublist"
begin

text \<open>
  The bounded execution lanes of the daemon: apps/contextctl-daemon/src/runtime/admission.ts.
  A submission is a number, so is an AbortSignal. The state is the lane itself (its queue, its count of running work, whether it
  accepts) beside what its closures hold: the settled flag of every entry, the abort listeners
  attached, the running tasks and the answers their callers got. Every operation of the class
  is a function on that state; a step is one turn of the event loop, a submission, an abort, the
  end of a task or the stop of the lane, and the theory ends with the invariant of the steps.
  A task that throws before its first await is the step of its start followed by the step of its end.
\<close>

section \<open>Data\<close>

datatype lane_name = Lane_resolve | Lane_registry_consume | Lane_selection_assets | Lane_ingestion | Lane_ingestion_embedding

record lane_capacity =
  lc_concurrency :: nat
  lc_queueDepth :: nat

text \<open>The reason of an abort is None when the caller aborted with null.\<close>

datatype lane_error =
    LaneOverloadedError lane_name nat nat
  | LaneCancelledError lane_name "string option"
  | LaneClosedError lane_name

record lane_depth =
  ld_lane :: lane_name
  ld_active :: nat
  ld_queued :: nat
  ld_concurrency :: nat
  ld_queueDepth :: nat

record queued_entry =
  qe_run :: nat
  qe_signal :: "nat option"

record admission_lane =
  ln_name :: lane_name
  ln_capacity :: lane_capacity
  ln_queue :: "queued_entry list"
  ln_active :: nat
  ln_accepting :: bool

text \<open>A caller gets what the task settled with, or the refusal of the lane.\<close>

datatype 'v lane_answer = Task_settled 'v | Lane_refused lane_error

datatype stop_reason = Caller_reason string | Lane_reason lane_error

record 'v lane_world =
  lw_lane :: admission_lane
  lw_aborted :: "nat \<Rightarrow> string option option"
  lw_settled :: "nat list"
  lw_waiting :: "(nat \<times> nat) list"
  lw_running :: "(nat \<times> nat option) list"
  lw_callers :: "(nat \<times> nat) list"
  lw_stopped :: "(nat \<times> stop_reason) list"
  lw_started :: "nat list"
  lw_submitted :: "nat list"
  lw_answers :: "(nat \<times> 'v lane_answer) list"

section \<open>Operations of the lane\<close>

definition new_lane :: "lane_name \<Rightarrow> lane_capacity \<Rightarrow> 'v lane_world" where
  "new_lane name cap =
     \<lparr>lw_lane = \<lparr>ln_name = name, ln_capacity = cap, ln_queue = [], ln_active = 0, ln_accepting = True\<rparr>,
      lw_aborted = Map.empty, lw_settled = [], lw_waiting = [], lw_running = [], lw_callers = [],
      lw_stopped = [], lw_started = [], lw_submitted = [], lw_answers = []\<rparr>"

definition lane_depth_of :: "admission_lane \<Rightarrow> lane_depth" where
  "lane_depth_of l = \<lparr>ld_lane = ln_name l, ld_active = ln_active l, ld_queued = length (ln_queue l),
     ld_concurrency = lc_concurrency (ln_capacity l), ld_queueDepth = lc_queueDepth (ln_capacity l)\<rparr>"

definition lane_idle :: "admission_lane \<Rightarrow> bool" where
  "lane_idle l \<longleftrightarrow> ln_active l = 0 \<and> ln_queue l = []"

definition answered :: "nat \<Rightarrow> 'v lane_answer \<Rightarrow> 'v lane_world \<Rightarrow> 'v lane_world" where
  "answered t a w = w\<lparr>lw_answers := lw_answers w @ [(t, a)]\<rparr>"

definition detached :: "nat \<Rightarrow> 'v lane_world \<Rightarrow> 'v lane_world" where
  "detached t w = w\<lparr>lw_waiting := filter (\<lambda>(s, u). u \<noteq> t) (lw_waiting w)\<rparr>"

text \<open>The settled flag is set, the listener detached; the entry is answered by what follows.\<close>

definition settle_entry :: "nat \<Rightarrow> 'v lane_world \<Rightarrow> 'v lane_world" where
  "settle_entry t w = detached t (w\<lparr>lw_settled := t # lw_settled w\<rparr>)"

definition reject_closed :: "queued_entry \<Rightarrow> 'v lane_world \<Rightarrow> 'v lane_world" where
  "reject_closed e w =
     (if qe_run e \<in> set (lw_settled w) then w
      else answered (qe_run e) (Lane_refused (LaneClosedError (ln_name (lw_lane w)))) (settle_entry (qe_run e) w))"

definition stopAccepting :: "'v lane_world \<Rightarrow> 'v lane_world" where
  "stopAccepting w =
     fold reject_closed (ln_queue (lw_lane w))
       (w\<lparr>lw_lane := (lw_lane w)\<lparr>ln_accepting := False, ln_queue := []\<rparr>\<rparr>)"

fun signal_aborted :: "'v lane_world \<Rightarrow> nat option \<Rightarrow> bool" where
  "signal_aborted w None = False"
| "signal_aborted w (Some s) = (lw_aborted w s \<noteq> None)"

fun signal_reason :: "'v lane_world \<Rightarrow> nat option \<Rightarrow> string option" where
  "signal_reason w None = None"
| "signal_reason w (Some s) = (case lw_aborted w s of None \<Rightarrow> None | Some r \<Rightarrow> r)"

definition removeQueued :: "nat \<Rightarrow> 'v lane_world \<Rightarrow> 'v lane_world" where
  "removeQueued t w = w\<lparr>lw_lane := (lw_lane w)\<lparr>ln_queue := filter (\<lambda>e. qe_run e \<noteq> t) (ln_queue (lw_lane w))\<rparr>\<rparr>"

definition onAbort :: "nat option \<Rightarrow> nat \<Rightarrow> 'v lane_world \<Rightarrow> 'v lane_world" where
  "onAbort s t w =
     (if t \<in> set (lw_settled w) then w
      else answered t (Lane_refused (LaneCancelledError (ln_name (lw_lane w)) (signal_reason w s)))
        (removeQueued t (settle_entry t w)))"

definition onCallerAbort :: "nat option \<Rightarrow> nat \<Rightarrow> 'v lane_world \<Rightarrow> 'v lane_world" where
  "onCallerAbort s t w =
     w\<lparr>lw_stopped := lw_stopped w @ [(t, case signal_reason w s of
         Some r \<Rightarrow> Caller_reason r
       | None \<Rightarrow> Lane_reason (LaneCancelledError (ln_name (lw_lane w)) None))]\<rparr>"

text \<open>What happens before the task runs, and what the finally block does once it has settled.\<close>

definition lane_start :: "nat \<Rightarrow> nat option \<Rightarrow> 'v lane_world \<Rightarrow> 'v lane_world" where
  "lane_start t s w =
     (let w1 = w\<lparr>lw_lane := (lw_lane w)\<lparr>ln_active := ln_active (lw_lane w) + 1\<rparr>,
                 lw_running := lw_running w @ [(t, s)], lw_started := lw_started w @ [t]\<rparr> in
      case s of
        None \<Rightarrow> w1
      | Some c \<Rightarrow> if signal_aborted w1 s then onCallerAbort s t w1
                  else w1\<lparr>lw_callers := lw_callers w1 @ [(c, t)]\<rparr>)"

function drainOne :: "'v lane_world \<Rightarrow> 'v lane_world" where
  "drainOne w =
     (if \<not> ln_accepting (lw_lane w) then w
      else if lc_concurrency (ln_capacity (lw_lane w)) \<le> ln_active (lw_lane w) then w
      else case ln_queue (lw_lane w) of
        [] \<Rightarrow> w
      | e # rest \<Rightarrow>
          (let w1 = w\<lparr>lw_lane := (lw_lane w)\<lparr>ln_queue := rest\<rparr>\<rparr> in
           if qe_run e \<in> set (lw_settled w1) then drainOne w1
           else lane_start (qe_run e) (qe_signal e) (settle_entry (qe_run e) w1)))"
  by pat_completeness auto
termination
  by (relation "measure (\<lambda>w. length (ln_queue (lw_lane w)))") auto

declare drainOne.simps [simp del]

definition finish :: "nat \<Rightarrow> 'v \<Rightarrow> 'v lane_world \<Rightarrow> 'v lane_world" where
  "finish t v w =
     answered t (Task_settled v)
       (drainOne (w\<lparr>lw_callers := filter (\<lambda>(s, u). u \<noteq> t) (lw_callers w),
                    lw_running := filter (\<lambda>(u, s). u \<noteq> t) (lw_running w),
                    lw_lane := (lw_lane w)\<lparr>ln_active := ln_active (lw_lane w) - 1\<rparr>\<rparr>))"

text \<open>
  A submission. The signal is read at the top and once more after the listener is attached,
  before the entry becomes visible in the queue.
\<close>

definition enqueue :: "nat \<Rightarrow> nat option \<Rightarrow> 'v lane_world \<Rightarrow> 'v lane_world" where
  "enqueue t s w =
     (let w1 = (case s of None \<Rightarrow> w | Some c \<Rightarrow> w\<lparr>lw_waiting := lw_waiting w @ [(c, t)]\<rparr>) in
      if signal_aborted w1 s then onAbort s t w1
      else w1\<lparr>lw_lane := (lw_lane w1)\<lparr>ln_queue := ln_queue (lw_lane w1) @ [\<lparr>qe_run = t, qe_signal = s\<rparr>]\<rparr>\<rparr>)"

definition lane_run :: "nat \<Rightarrow> nat option \<Rightarrow> 'v lane_world \<Rightarrow> 'v lane_world" where
  "lane_run t s w0 =
     (let w = w0\<lparr>lw_submitted := lw_submitted w0 @ [t]\<rparr>; l = lw_lane w in
      if \<not> ln_accepting l then answered t (Lane_refused (LaneClosedError (ln_name l))) w
      else if signal_aborted w s
      then answered t (Lane_refused (LaneCancelledError (ln_name l) (signal_reason w s))) w
      else if ln_active l < lc_concurrency (ln_capacity l) then lane_start t s w
      else if lc_queueDepth (ln_capacity l) \<le> length (ln_queue l)
      then answered t (Lane_refused (LaneOverloadedError (ln_name l) (ln_active l) (length (ln_queue l)))) w
      else enqueue t s w)"

text \<open>An AbortSignal fires once: the listeners attached to it run in the order of their attachment, and go.\<close>

definition abort_signal :: "nat \<Rightarrow> string option \<Rightarrow> 'v lane_world \<Rightarrow> 'v lane_world" where
  "abort_signal c r w =
     (let queued = map snd (filter (\<lambda>(s, u). s = c) (lw_waiting w));
          running = map snd (filter (\<lambda>(s, u). s = c) (lw_callers w));
          w1 = w\<lparr>lw_aborted := (lw_aborted w)(c \<mapsto> r), lw_callers := filter (\<lambda>(s, u). s \<noteq> c) (lw_callers w)\<rparr> in
      fold (onCallerAbort (Some c)) running (fold (onAbort (Some c)) queued w1))"

section \<open>Steps\<close>

datatype 'v lane_event = Submit nat "nat option" | Abort nat "string option" | Settles nat 'v | Stop

inductive lane_step :: "'v lane_world \<Rightarrow> 'v lane_event \<Rightarrow> 'v lane_world \<Rightarrow> bool" where
  submit: "t \<notin> set (lw_submitted w) \<Longrightarrow> lane_step w (Submit t s) (lane_run t s w)"
| abort: "lw_aborted w c = None \<Longrightarrow> lane_step w (Abort c r) (abort_signal c r w)"
| settles: "t \<in> fst ` set (lw_running w) \<Longrightarrow> lane_step w (Settles t v) (finish t v w)"
| stop: "lane_step w Stop (stopAccepting w)"

inductive lane_steps :: "'v lane_world \<Rightarrow> 'v lane_event list \<Rightarrow> 'v lane_world \<Rightarrow> bool" where
  none: "lane_steps w [] w"
| more: "lane_step w e w1 \<Longrightarrow> lane_steps w1 es w2 \<Longrightarrow> lane_steps w (e # es) w2"

inductive_simps lane_step_simps [simp]:
  "lane_step w (Submit t s) w'" "lane_step w (Abort c r) w'" "lane_step w (Settles t v) w'" "lane_step w Stop w'"
inductive_simps lane_steps_simps [simp]: "lane_steps w [] w'" "lane_steps w (e # es) w'"

end
