(* ===== verification/Admission_Laws.thy ===== *)
theory Admission_Laws
  imports Admission_Lane "HOL-Library.Multiset"
begin

text \<open>
  The invariant of the lanes of Admission_Lane and its preservation by every step: the counts
  stay within the capacity and no slot is free while work waits, every submission is in exactly one of
  the running tasks, the queue and the answers, the listeners attached are those of the waiting entries and of
  the running tasks, and tasks start in the order of their submission.
\<close>

section \<open>The invariant\<close>

definition queued_ids :: "'v lane_world \<Rightarrow> nat list" where
  "queued_ids w = map qe_run (ln_queue (lw_lane w))"

definition lane_bounds :: "'v lane_world \<Rightarrow> bool" where
  "lane_bounds w \<longleftrightarrow> (let l = lw_lane w in
     ln_active l = length (lw_running w) \<and> ln_active l \<le> lc_concurrency (ln_capacity l) \<and>
     length (ln_queue l) \<le> lc_queueDepth (ln_capacity l) \<and>
     (ln_accepting l \<and> ln_queue l \<noteq> [] \<longrightarrow> ln_active l = lc_concurrency (ln_capacity l)) \<and>
     (\<not> ln_accepting l \<longrightarrow> ln_queue l = []))"

definition lane_accounts :: "'v lane_world \<Rightarrow> bool" where
  "lane_accounts w \<longleftrightarrow> distinct (lw_submitted w) \<and>
     mset (lw_submitted w) = mset (map fst (lw_running w)) + mset (queued_ids w) + mset (map fst (lw_answers w)) \<and>
     set (lw_settled w) \<inter> set (queued_ids w) = {} \<and> set (lw_settled w) \<subseteq> set (lw_submitted w)"

definition lane_signals :: "'v lane_world \<Rightarrow> bool" where
  "lane_signals w \<longleftrightarrow>
     (\<forall>e \<in> set (ln_queue (lw_lane w)). \<forall>c. qe_signal e = Some c \<longrightarrow> lw_aborted w c = None) \<and>
     distinct (map snd (lw_waiting w)) \<and>
     set (lw_waiting w) = {(c, t). \<lparr>qe_run = t, qe_signal = Some c\<rparr> \<in> set (ln_queue (lw_lane w))} \<and>
     (\<forall>t c. (t, Some c) \<in> set (lw_running w) \<and> lw_aborted w c = None \<longrightarrow> (c, t) \<in> set (lw_callers w)) \<and>
     (\<forall>t c. (t, Some c) \<in> set (lw_running w) \<and> lw_aborted w c \<noteq> None \<longrightarrow> (\<exists>r. (t, r) \<in> set (lw_stopped w)))"

definition lane_order :: "'v lane_world \<Rightarrow> bool" where
  "lane_order w \<longleftrightarrow> subseq (lw_started w @ queued_ids w) (lw_submitted w)"

definition lane_inv :: "'v lane_world \<Rightarrow> bool" where
  "lane_inv w \<longleftrightarrow> lane_bounds w \<and> lane_accounts w \<and> lane_signals w \<and> lane_order w"

lemmas lane_parts = lane_inv_def lane_bounds_def lane_accounts_def lane_signals_def lane_order_def queued_ids_def Let_def

lemma lane_inv_new: "lane_inv (new_lane name cap)"
  by (simp add: lane_parts new_lane_def)

text \<open>What the invariant says of the identifiers in use.\<close>

lemma lane_ids:
  assumes "lane_accounts w"
  shows "distinct (map fst (lw_running w))" "distinct (queued_ids w)" "distinct (map fst (lw_answers w))"
    "set (queued_ids w) \<subseteq> set (lw_submitted w)" "fst ` set (lw_running w) \<subseteq> set (lw_submitted w)"
    "fst ` set (lw_running w) \<inter> set (queued_ids w) = {}"
    "fst ` set (lw_answers w) \<subseteq> set (lw_submitted w)"
    "fst ` set (lw_answers w) \<inter> (fst ` set (lw_running w) \<union> set (queued_ids w)) = {}"
proof -
  have m: "mset (lw_submitted w) = mset (map fst (lw_running w) @ queued_ids w @ map fst (lw_answers w))"
    using assms by (simp add: lane_accounts_def)
  have d: "distinct (map fst (lw_running w) @ queued_ids w @ map fst (lw_answers w))"
    using assms mset_eq_imp_distinct_iff [OF m] by (simp add: lane_accounts_def)
  then show "distinct (map fst (lw_running w))" "distinct (queued_ids w)" "distinct (map fst (lw_answers w))"
    "fst ` set (lw_running w) \<inter> set (queued_ids w) = {}"
    "fst ` set (lw_answers w) \<inter> (fst ` set (lw_running w) \<union> set (queued_ids w)) = {}" by auto
  have "set (lw_submitted w) = set (map fst (lw_running w) @ queued_ids w @ map fst (lw_answers w))"
    using m by (rule mset_eq_setD)
  then show "set (queued_ids w) \<subseteq> set (lw_submitted w)" "fst ` set (lw_running w) \<subseteq> set (lw_submitted w)"
    "fst ` set (lw_answers w) \<subseteq> set (lw_submitted w)" by auto
qed

section \<open>The loops in closed form\<close>

lemma fold_reject_closed:
  assumes "distinct (map qe_run es)" and "qe_run ` set es \<inter> set (lw_settled w) = {}"
  shows "fold reject_closed es w =
    w\<lparr>lw_settled := rev (map qe_run es) @ lw_settled w,
      lw_waiting := filter (\<lambda>(s, u). u \<notin> qe_run ` set es) (lw_waiting w),
      lw_answers := lw_answers w @ map (\<lambda>e. (qe_run e, Lane_refused (LaneClosedError (ln_name (lw_lane w))))) es\<rparr>"
  using assms
proof (induction es arbitrary: w)
  case Nil
  have "filter (\<lambda>(s, u). True) (lw_waiting w) = lw_waiting w" by (simp add: case_prod_beta)
  then show ?case by simp
next
  case (Cons e es)
  have f: "filter (\<lambda>(s, u). u \<notin> qe_run ` set es) (filter (\<lambda>(s, u). u \<noteq> qe_run e) ws) =
      filter (\<lambda>(s, u). u \<notin> qe_run ` set (e # es)) ws" for ws :: "(nat \<times> nat) list"
    by (induction ws) auto
  have "reject_closed e w = w\<lparr>lw_settled := qe_run e # lw_settled w,
      lw_waiting := filter (\<lambda>(s, u). u \<noteq> qe_run e) (lw_waiting w),
      lw_answers := lw_answers w @ [(qe_run e, Lane_refused (LaneClosedError (ln_name (lw_lane w))))]\<rparr>"
    using Cons.prems by (simp add: reject_closed_def answered_def settle_entry_def detached_def)
  moreover have "qe_run ` set es \<inter> set (qe_run e # lw_settled w) = {}" using Cons.prems by auto
  ultimately show ?case using Cons.prems Cons.IH f by simp
qed

lemma fold_onAbort:
  assumes "distinct ts" and "set ts \<inter> set (lw_settled w) = {}"
  shows "fold (onAbort s) ts w =
    w\<lparr>lw_lane := (lw_lane w)\<lparr>ln_queue := filter (\<lambda>e. qe_run e \<notin> set ts) (ln_queue (lw_lane w))\<rparr>,
      lw_settled := rev ts @ lw_settled w,
      lw_waiting := filter (\<lambda>(s, u). u \<notin> set ts) (lw_waiting w),
      lw_answers := lw_answers w @
        map (\<lambda>t. (t, Lane_refused (LaneCancelledError (ln_name (lw_lane w)) (signal_reason w s)))) ts\<rparr>"
  using assms
proof (induction ts arbitrary: w)
  case Nil
  have "filter (\<lambda>(s, u). True) (lw_waiting w) = lw_waiting w" by (simp add: case_prod_beta)
  then show ?case by simp
next
  case (Cons t ts)
  have f: "filter (\<lambda>(s, u). u \<notin> set ts) (filter (\<lambda>(s, u). u \<noteq> t) ws) = filter (\<lambda>(s, u). u \<notin> set (t # ts)) ws"
    for ws :: "(nat \<times> nat) list" by (induction ws) auto
  have g: "filter (\<lambda>e. qe_run e \<notin> set ts) (filter (\<lambda>e. qe_run e \<noteq> t) es) = filter (\<lambda>e. qe_run e \<notin> set (t # ts)) es"
    for es :: "queued_entry list" by (induction es) auto
  have r: "signal_reason (w\<lparr>lw_lane := l, lw_settled := x, lw_waiting := y, lw_answers := z\<rparr>) s = signal_reason w s"
    for l x y z by (cases s) simp_all
  have "onAbort s t w = w\<lparr>lw_lane := (lw_lane w)\<lparr>ln_queue := filter (\<lambda>e. qe_run e \<noteq> t) (ln_queue (lw_lane w))\<rparr>,
      lw_settled := t # lw_settled w, lw_waiting := filter (\<lambda>(s, u). u \<noteq> t) (lw_waiting w),
      lw_answers := lw_answers w @ [(t, Lane_refused (LaneCancelledError (ln_name (lw_lane w)) (signal_reason w s)))]\<rparr>"
    using Cons.prems by (simp add: onAbort_def removeQueued_def answered_def settle_entry_def detached_def)
  moreover have "set ts \<inter> set (t # lw_settled w) = {}" using Cons.prems by auto
  ultimately show ?case using Cons.prems Cons.IH f g r by simp
qed

definition stop_mark :: "nat option \<Rightarrow> 'v lane_world \<Rightarrow> stop_reason" where
  "stop_mark s w = (case signal_reason w s of
     Some r \<Rightarrow> Caller_reason r | None \<Rightarrow> Lane_reason (LaneCancelledError (ln_name (lw_lane w)) None))"

lemma fold_onCallerAbort:
  "fold (onCallerAbort s) ts w = w\<lparr>lw_stopped := lw_stopped w @ map (\<lambda>t. (t, stop_mark s w)) ts\<rparr>"
proof (induction ts arbitrary: w)
  case (Cons t ts)
  have "stop_mark s (w\<lparr>lw_stopped := x\<rparr>) = stop_mark s w" for x by (cases s) (simp_all add: stop_mark_def split: option.split)
  then show ?case using Cons by (simp add: onCallerAbort_def stop_mark_def [symmetric])
qed simp

lemma drainOne_open:
  assumes "set (lw_settled w) \<inter> set (queued_ids w) = {}"
  shows "drainOne w =
    (if ln_accepting (lw_lane w) \<and> ln_active (lw_lane w) < lc_concurrency (ln_capacity (lw_lane w)) then
       case ln_queue (lw_lane w) of [] \<Rightarrow> w
       | e # rest \<Rightarrow> lane_start (qe_run e) (qe_signal e) (settle_entry (qe_run e) (w\<lparr>lw_lane := (lw_lane w)\<lparr>ln_queue := rest\<rparr>\<rparr>))
     else w)"
  using assms by (subst drainOne.simps) (auto simp: queued_ids_def Let_def split: list.split)

section \<open>Preservation\<close>

text \<open>A submission whose signal is not aborted starts: its slot is counted, its listener attached.\<close>

lemma start_eq:
  assumes "\<not> signal_aborted w s"
  shows "lane_start t s w = w\<lparr>lw_lane := (lw_lane w)\<lparr>ln_active := Suc (ln_active (lw_lane w))\<rparr>,
    lw_running := lw_running w @ [(t, s)],
    lw_callers := lw_callers w @ (case s of None \<Rightarrow> [] | Some c \<Rightarrow> [(c, t)]),
    lw_started := lw_started w @ [t]\<rparr>"
  using assms by (cases s) (simp_all add: lane_start_def)

lemma enqueue_eq:
  assumes "\<not> signal_aborted w s"
  shows "enqueue t s w = w\<lparr>lw_lane := (lw_lane w)\<lparr>ln_queue := ln_queue (lw_lane w) @ [\<lparr>qe_run = t, qe_signal = s\<rparr>]\<rparr>,
    lw_waiting := lw_waiting w @ (case s of None \<Rightarrow> [] | Some c \<Rightarrow> [(c, t)])\<rparr>"
  using assms by (cases s) (simp_all add: enqueue_def Let_def)

lemma signal_aborted_frame [simp]:
  "signal_aborted (w\<lparr>lw_lane := a, lw_waiting := b\<rparr>) s = signal_aborted w s"
  "signal_aborted (w\<lparr>lw_submitted := d\<rparr>) s = signal_aborted w s"
  "signal_aborted (w\<lparr>lw_submitted := d, lw_answers := e\<rparr>) s = signal_aborted w s"
  by (cases s; simp)+

lemma refuse_inv:
  assumes "lane_inv w" and "t \<notin> set (lw_submitted w)"
  shows "lane_inv (answered t a (w\<lparr>lw_submitted := lw_submitted w @ [t]\<rparr>))"
  using assms by (simp add: lane_parts answered_def list_emb_prefix subset_insertI2 cong: conj_cong)

lemma start_inv:
  assumes inv: "lane_inv w" and new: "t \<notin> set (lw_submitted w)" and "\<not> signal_aborted w s"
    and "ln_accepting (lw_lane w)" and free: "ln_active (lw_lane w) < lc_concurrency (ln_capacity (lw_lane w))"
  shows "lane_inv (lane_start t s (w\<lparr>lw_submitted := lw_submitted w @ [t]\<rparr>))"
proof -
  have q: "ln_queue (lw_lane w) = []" using assms by (auto simp: lane_parts)
  have "signal_aborted w s \<longleftrightarrow> False" using assms by simp
  then show ?thesis using inv new free q assms(4)
    by (cases s; auto simp: start_eq lane_parts list_emb_append_mono; blast)
qed

lemma enqueue_inv:
  assumes "lane_inv w" and "t \<notin> set (lw_submitted w)" and "\<not> signal_aborted w s" and "ln_accepting (lw_lane w)"
    and "lc_concurrency (ln_capacity (lw_lane w)) \<le> ln_active (lw_lane w)"
    and "length (ln_queue (lw_lane w)) < lc_queueDepth (ln_capacity (lw_lane w))"
  shows "lane_inv (enqueue t s (w\<lparr>lw_submitted := lw_submitted w @ [t]\<rparr>))"
proof -
  have "t \<notin> set (queued_ids w)" "t \<notin> set (lw_settled w)"
    using assms lane_ids(4) [of w] by (auto simp: lane_inv_def lane_accounts_def)
  moreover have "subseq ((lw_started w @ queued_ids w) @ [t]) (lw_submitted w @ [t])"
    using assms(1) by (intro list_emb_append_mono) (simp_all add: lane_inv_def lane_order_def)
  ultimately show ?thesis using assms
    by (cases s) (auto simp: enqueue_eq lane_parts image_iff)
qed

lemma run_inv:
  assumes "lane_inv w" and "t \<notin> set (lw_submitted w)"
  shows "lane_inv (lane_run t s w)"
  using assms refuse_inv [OF assms] start_inv [OF assms] enqueue_inv [OF assms]
  by (auto simp: lane_run_def Let_def not_less not_le)

text \<open>Aborts take the queued entries of the signal out, and mark the running tasks of it.\<close>

lemma queue_entry_of_id:
  assumes "lane_inv w" and "e \<in> set (ln_queue (lw_lane w))" and "e' \<in> set (ln_queue (lw_lane w))"
    and "qe_run e = qe_run e'"
  shows "e = e'"
  using assms lane_ids(2) [of w] by (auto simp: lane_inv_def queued_ids_def distinct_map inj_on_def)

lemma waiting_of_signal:
  assumes "lane_inv w"
  shows "set (map snd (filter (\<lambda>(s, u). s = c) (lw_waiting w))) =
      qe_run ` {e \<in> set (ln_queue (lw_lane w)). qe_signal e = Some c}"
    and "distinct (map snd (filter (\<lambda>(s, u). s = c) (lw_waiting w)))"
proof -
  have w: "set (lw_waiting w) = {(c, t). \<lparr>qe_run = t, qe_signal = Some c\<rparr> \<in> set (ln_queue (lw_lane w))}"
    and d: "distinct (map snd (lw_waiting w))"
    using assms by (simp_all add: lane_inv_def lane_signals_def)
  show "set (map snd (filter (\<lambda>(s, u). s = c) (lw_waiting w))) =
      qe_run ` {e \<in> set (ln_queue (lw_lane w)). qe_signal e = Some c}"
  proof (intro equalityI subsetI)
    fix t assume "t \<in> set (map snd (filter (\<lambda>(s, u). s = c) (lw_waiting w)))"
    then have "\<lparr>qe_run = t, qe_signal = Some c\<rparr> \<in> set (ln_queue (lw_lane w))" using w by auto
    then show "t \<in> qe_run ` {e \<in> set (ln_queue (lw_lane w)). qe_signal e = Some c}" by force
  next
    fix t assume "t \<in> qe_run ` {e \<in> set (ln_queue (lw_lane w)). qe_signal e = Some c}"
    then obtain e where e: "e \<in> set (ln_queue (lw_lane w))" "qe_signal e = Some c" "t = qe_run e" by auto
    have "e = \<lparr>qe_run = t, qe_signal = Some c\<rparr>" using e(2,3) by (cases e) simp
    with e(1) have "\<lparr>qe_run = t, qe_signal = Some c\<rparr> \<in> set (ln_queue (lw_lane w))" by simp
    then have "(c, t) \<in> set (lw_waiting w)" using w by simp
    then show "t \<in> set (map snd (filter (\<lambda>(s, u). s = c) (lw_waiting w)))" by force
  qed
  show "distinct (map snd (filter (\<lambda>(s, u). s = c) (lw_waiting w)))"
    using d by (rule distinct_map_filter)
qed

lemma abort_eq:
  assumes inv: "lane_inv w" and "lw_aborted w c = None"
  defines "gone \<equiv> map snd (filter (\<lambda>(s, u). s = c) (lw_waiting w))"
    and "hit \<equiv> map snd (filter (\<lambda>(s, u). s = c) (lw_callers w))"
  shows "\<exists>m. abort_signal c r w = w\<lparr>lw_lane := (lw_lane w)\<lparr>ln_queue := filter (\<lambda>e. qe_signal e \<noteq> Some c) (ln_queue (lw_lane w))\<rparr>,
      lw_aborted := (lw_aborted w)(c \<mapsto> r), lw_settled := rev gone @ lw_settled w,
      lw_waiting := filter (\<lambda>(s, u). u \<notin> set gone) (lw_waiting w),
      lw_callers := filter (\<lambda>(s, u). s \<noteq> c) (lw_callers w),
      lw_stopped := lw_stopped w @ map (\<lambda>t. (t, m)) hit,
      lw_answers := lw_answers w @ map (\<lambda>t. (t, Lane_refused (LaneCancelledError (ln_name (lw_lane w)) r))) gone\<rparr>"
proof -
  let ?w1 = "w\<lparr>lw_aborted := (lw_aborted w)(c \<mapsto> r), lw_callers := filter (\<lambda>(s, u). s \<noteq> c) (lw_callers w)\<rparr>"
  have gone: "set gone = qe_run ` {e \<in> set (ln_queue (lw_lane w)). qe_signal e = Some c}" "distinct gone"
    unfolding gone_def using waiting_of_signal [OF inv] by simp_all
  have "set gone \<inter> set (lw_settled ?w1) = {}"
    using inv gone(1) by (auto simp: lane_inv_def lane_accounts_def queued_ids_def)
  note a = fold_onAbort [OF gone(2) this, of "Some c"]
  have q: "filter (\<lambda>e. qe_run e \<notin> set gone) (ln_queue (lw_lane w)) =
      filter (\<lambda>e. qe_signal e \<noteq> Some c) (ln_queue (lw_lane w))"
    using queue_entry_of_id [OF inv] by (intro filter_cong) (auto simp: gone(1))
  have "abort_signal c r w = fold (onCallerAbort (Some c)) hit (fold (onAbort (Some c)) gone ?w1)"
    by (simp add: abort_signal_def gone_def hit_def)
  then show ?thesis using q
    by (intro exI [of _ "stop_mark (Some c) (fold (onAbort (Some c)) gone ?w1)"]) (simp add: a fold_onCallerAbort)
qed

lemma subseq_drop:
  assumes "subseq (xs @ ys) zs"
  shows "subseq (xs @ filter P ys) zs"
  using subseq_order.trans [OF _ assms] by (simp add: list_emb_append_mono subseq_filter_left)

lemma mset_split: "mset (filter P xs) + mset (filter (\<lambda>x. \<not> P x) xs) = mset xs"
  by (metis mset_filter multiset_partition)

lemma abort_inv:
  assumes inv: "lane_inv w" and fresh: "lw_aborted w c = None"
  shows "lane_inv (abort_signal c r w)"
proof -
  define gone where "gone = map snd (filter (\<lambda>(s, u). s = c) (lw_waiting w))"
  let ?Q = "ln_queue (lw_lane w)"
  let ?K = "filter (\<lambda>e. qe_signal e \<noteq> Some c) ?Q"
  obtain m where eq: "abort_signal c r w = w\<lparr>lw_lane := (lw_lane w)\<lparr>ln_queue := ?K\<rparr>,
      lw_aborted := (lw_aborted w)(c \<mapsto> r), lw_settled := rev gone @ lw_settled w,
      lw_waiting := filter (\<lambda>(s, u). u \<notin> set gone) (lw_waiting w),
      lw_callers := filter (\<lambda>(s, u). s \<noteq> c) (lw_callers w),
      lw_stopped := lw_stopped w @ map (\<lambda>t. (t, m)) (map snd (filter (\<lambda>(s, u). s = c) (lw_callers w))),
      lw_answers := lw_answers w @ map (\<lambda>t. (t, Lane_refused (LaneCancelledError (ln_name (lw_lane w)) r))) gone\<rparr>"
    using abort_eq [OF inv fresh] unfolding gone_def by blast
  have gone: "set gone = qe_run ` {e \<in> set ?Q. qe_signal e = Some c}" "distinct gone"
    unfolding gone_def using waiting_of_signal [OF inv] by simp_all
  have qd: "distinct (map qe_run ?Q)" using inv lane_ids(2) [of w] by (simp add: lane_inv_def queued_ids_def)
  have "mset gone = mset (map qe_run (filter (\<lambda>e. \<not> qe_signal e \<noteq> Some c) ?Q))"
    using gone qd by (intro set_eq_iff_mset_eq_distinct [THEN iffD1]) (auto simp: distinct_map_filter)
  then have split: "mset (map qe_run ?Q) = mset (map qe_run ?K) + mset gone"
    using mset_split [of "\<lambda>e. qe_signal e \<noteq> Some c" ?Q] by (metis image_mset_union mset_map)
  have bounds: "lane_bounds (abort_signal c r w)"
    using inv length_filter_le [of "\<lambda>e. qe_signal e \<noteq> Some c" ?Q]
    by (auto simp: eq lane_inv_def lane_bounds_def Let_def intro: order.trans [OF length_filter_le])
  have ids: "set gone \<subseteq> set (lw_submitted w)" "set gone \<inter> qe_run ` set ?K = {}"
    using inv gone(1) lane_ids(4) [of w] queue_entry_of_id [OF inv]
    by (auto simp: lane_inv_def queued_ids_def)
  have "lane_accounts (abort_signal c r w)"
    using inv split ids by (auto simp: eq lane_inv_def lane_accounts_def queued_ids_def comp_def)
  moreover have "lane_order (abort_signal c r w)"
  proof -
    have "map qe_run ?K = filter (\<lambda>t. t \<notin> set gone) (map qe_run ?Q)"
    proof -
      have "?K = filter (\<lambda>e. qe_run e \<notin> set gone) ?Q"
        using queue_entry_of_id [OF inv] by (intro filter_cong) (auto simp: gone(1))
      then show ?thesis by (simp add: filter_map comp_def)
    qed
    then show ?thesis using inv subseq_drop [of "lw_started w" "map qe_run ?Q"]
      by (simp add: eq lane_inv_def lane_order_def queued_ids_def)
  qed
  moreover have "lane_signals (abort_signal c r w)"
  proof -
    have "(d, t) \<in> set (filter (\<lambda>(s, u). u \<notin> set gone) (lw_waiting w)) \<longleftrightarrow>
        \<lparr>qe_run = t, qe_signal = Some d\<rparr> \<in> set ?K" for d t
    proof -
      have "e \<in> set ?Q \<Longrightarrow> qe_run e \<in> set gone \<longleftrightarrow> qe_signal e = Some c" for e
        using queue_entry_of_id [OF inv] by (auto simp: gone(1))
      from this [of "\<lparr>qe_run = t, qe_signal = Some d\<rparr>"] show ?thesis
        using inv by (auto simp: lane_inv_def lane_signals_def)
    qed
    then have W: "set (filter (\<lambda>(s, u). u \<notin> set gone) (lw_waiting w)) = {(d, t). \<lparr>qe_run = t, qe_signal = Some d\<rparr> \<in> set ?K}"
      by auto
    have D: "distinct (map snd (filter (\<lambda>(s, u). u \<notin> set gone) (lw_waiting w)))"
      using inv by (simp add: lane_inv_def lane_signals_def distinct_map_filter)
    have heard: "(c, t) \<in> set (lw_callers w)" if "(t, Some c) \<in> set (lw_running w)" for t
      using inv fresh that by (simp add: lane_inv_def lane_signals_def)
    have "\<exists>r. (t, r) \<in> set (lw_stopped w @ map (\<lambda>t. (t, m)) (map snd (filter (\<lambda>(s, u). s = c) (lw_callers w))))"
      if "(t, Some d) \<in> set (lw_running w)" "((lw_aborted w)(c \<mapsto> r)) d \<noteq> None" for t d
    proof (cases "d = c")
      case True
      then show ?thesis using heard that by force
    next
      case False
      then have "\<exists>r. (t, r) \<in> set (lw_stopped w)"
        using inv that unfolding lane_inv_def lane_signals_def by (metis fun_upd_other)
      then show ?thesis by auto
    qed
    then have S: "\<forall>t d. (t, Some d) \<in> set (lw_running w) \<and> ((lw_aborted w)(c \<mapsto> r)) d \<noteq> None \<longrightarrow>
        (\<exists>r. (t, r) \<in> set (lw_stopped w @ map (\<lambda>t. (t, m)) (map snd (filter (\<lambda>(s, u). s = c) (lw_callers w)))))" by blast
    have C: "\<forall>t d. (t, Some d) \<in> set (lw_running w) \<and> ((lw_aborted w)(c \<mapsto> r)) d = None \<longrightarrow>
        (d, t) \<in> set (filter (\<lambda>(s, u). s \<noteq> c) (lw_callers w))"
      using inv by (auto simp: lane_inv_def lane_signals_def)
    have Q: "\<forall>e \<in> set ?K. \<forall>d. qe_signal e = Some d \<longrightarrow> ((lw_aborted w)(c \<mapsto> r)) d = None"
      using inv by (auto simp: lane_inv_def lane_signals_def)
    show ?thesis unfolding eq lane_signals_def
      by (intro conjI) (use W D S C Q in simp_all)
  qed
  ultimately show ?thesis using bounds by (simp add: lane_inv_def)
qed

text \<open>Stopping answers everything that waits; what runs is left alone.\<close>

lemma stop_eq:
  assumes inv: "lane_inv w"
  shows "stopAccepting w = w\<lparr>lw_lane := (lw_lane w)\<lparr>ln_accepting := False, ln_queue := []\<rparr>,
      lw_settled := rev (queued_ids w) @ lw_settled w, lw_waiting := [],
      lw_answers := lw_answers w @ map (\<lambda>t. (t, Lane_refused (LaneClosedError (ln_name (lw_lane w))))) (queued_ids w)\<rparr>"
proof -
  let ?Q = "ln_queue (lw_lane w)"
  have "distinct (map qe_run ?Q)" "qe_run ` set ?Q \<inter> set (lw_settled w) = {}"
    using inv lane_ids(2) [of w] by (auto simp: lane_inv_def lane_accounts_def queued_ids_def)
  moreover have "filter (\<lambda>(s, u). u \<notin> qe_run ` set ?Q) (lw_waiting w) = []"
  proof -
    have "u \<in> qe_run ` set ?Q" if "(c, u) \<in> set (lw_waiting w)" for c u
      using inv that rev_image_eqI [of "\<lparr>qe_run = u, qe_signal = Some c\<rparr>" "set ?Q" u qe_run]
      by (simp add: lane_inv_def lane_signals_def)
    then show ?thesis by (auto simp: filter_empty_conv)
  qed
  ultimately show ?thesis
    by (simp add: stopAccepting_def fold_reject_closed queued_ids_def comp_def)
qed

lemma stop_inv:
  assumes inv: "lane_inv w"
  shows "lane_inv (stopAccepting w)"
proof -
  have ids: "set (queued_ids w) \<subseteq> set (lw_submitted w)" using inv lane_ids(4) [of w] by (simp add: lane_inv_def)
  have "lane_bounds (stopAccepting w)" "lane_signals (stopAccepting w)"
    using inv unfolding stop_eq [OF inv] lane_inv_def by (simp_all add: lane_bounds_def lane_signals_def Let_def)
  moreover have "lane_accounts (stopAccepting w)"
    using inv ids unfolding stop_eq [OF inv] lane_inv_def
    by (simp add: lane_accounts_def queued_ids_def comp_def)
  moreover have "lane_order (stopAccepting w)"
    using inv subseq_drop [of "lw_started w" "queued_ids w" "lw_submitted w" "\<lambda>_. False"]
    unfolding stop_eq [OF inv] lane_inv_def by (simp add: lane_order_def queued_ids_def)
  ultimately show ?thesis by (simp add: lane_inv_def)
qed

text \<open>The end of a task gives its slot to the oldest entry that waits.\<close>

definition ended :: "nat \<Rightarrow> 'v \<Rightarrow> 'v lane_world \<Rightarrow> 'v lane_world" where
  "ended t v w = w\<lparr>lw_lane := (lw_lane w)\<lparr>ln_active := ln_active (lw_lane w) - 1\<rparr>,
     lw_running := filter (\<lambda>(u, s). u \<noteq> t) (lw_running w), lw_callers := filter (\<lambda>(s, u). u \<noteq> t) (lw_callers w),
     lw_answers := lw_answers w @ [(t, Task_settled v)]\<rparr>"

lemma finish_eq:
  assumes inv: "lane_inv w" and run: "t \<in> fst ` set (lw_running w)"
  shows "finish t v w =
    (case ln_queue (lw_lane w) of [] \<Rightarrow> ended t v w
     | e # rest \<Rightarrow> (ended t v w)\<lparr>lw_lane := (lw_lane w)\<lparr>ln_queue := rest\<rparr>,
         lw_settled := qe_run e # lw_settled w, lw_waiting := filter (\<lambda>(s, u). u \<noteq> qe_run e) (lw_waiting w),
         lw_running := filter (\<lambda>(u, s). u \<noteq> t) (lw_running w) @ [(qe_run e, qe_signal e)],
         lw_callers := filter (\<lambda>(s, u). u \<noteq> t) (lw_callers w) @
           (case qe_signal e of None \<Rightarrow> [] | Some c \<Rightarrow> [(c, qe_run e)]),
         lw_started := lw_started w @ [qe_run e]\<rparr>)"
proof -
  let ?w = "w\<lparr>lw_callers := filter (\<lambda>(s, u). u \<noteq> t) (lw_callers w),
    lw_running := filter (\<lambda>(u, s). u \<noteq> t) (lw_running w),
    lw_lane := (lw_lane w)\<lparr>ln_active := ln_active (lw_lane w) - 1\<rparr>\<rparr>"
  have act: "0 < ln_active (lw_lane w)" "ln_active (lw_lane w) \<le> lc_concurrency (ln_capacity (lw_lane w))"
    using inv run by (auto simp: lane_inv_def lane_bounds_def Let_def intro: length_pos_if_in_set)
  have "set (lw_settled ?w) \<inter> set (queued_ids ?w) = {}"
    using inv by (simp add: lane_inv_def lane_accounts_def queued_ids_def)
  note d = drainOne_open [OF this]
  show ?thesis
  proof (cases "ln_queue (lw_lane w)")
    case Nil
    then have "drainOne ?w = ?w" unfolding d by simp
    then show ?thesis using Nil by (simp add: finish_def answered_def ended_def)
  next
    case (Cons e rest)
    then have acc: "ln_accepting (lw_lane w)" using inv by (auto simp: lane_inv_def lane_bounds_def Let_def)
    let ?w2 = "settle_entry (qe_run e) (?w\<lparr>lw_lane := (lw_lane ?w)\<lparr>ln_queue := rest\<rparr>\<rparr>)"
    have "\<not> signal_aborted ?w2 (qe_signal e)"
      using inv Cons by (cases "qe_signal e") (simp_all add: lane_inv_def lane_signals_def settle_entry_def detached_def)
    note s = start_eq [OF this, of "qe_run e"]
    have "drainOne ?w = lane_start (qe_run e) (qe_signal e) ?w2" unfolding d using acc act Cons by simp
    then show ?thesis using Cons act
      unfolding finish_def s by (simp add: answered_def ended_def settle_entry_def detached_def)
  qed
qed

lemma running_without:
  assumes "distinct (map fst rs)" and "t \<in> fst ` set rs"
  shows "mset (map fst rs) = mset (t # map fst (filter (\<lambda>(u, s). u \<noteq> t) rs))"
  using assms
proof (induction rs)
  case (Cons r rs)
  show ?case
  proof (cases "fst r = t")
    case True
    then have "\<forall>x \<in> set rs. fst x \<noteq> t" using Cons.prems by (auto simp: image_iff)
    then have "filter (\<lambda>(u, s). u \<noteq> t) rs = rs" by (auto simp: filter_id_conv)
    then show ?thesis using True by (cases r) simp
  qed (use Cons in \<open>auto simp: case_prod_beta\<close>)
qed simp

lemma finish_inv:
  assumes inv: "lane_inv w" and run: "t \<in> fst ` set (lw_running w)"
  shows "lane_inv (finish t v w)"
proof -
  let ?R = "filter (\<lambda>(u, s). u \<noteq> t) (lw_running w)" and ?C = "filter (\<lambda>(s, u). u \<noteq> t) (lw_callers w)"
  have acc: "lane_accounts w" using inv by (simp add: lane_inv_def)
  have m: "mset (map fst (lw_running w)) = mset (t # map fst ?R)"
    using running_without [OF lane_ids(1) [OF acc] run] .
  then have len: "length (lw_running w) = Suc (length ?R)" using mset_eq_length [OF m] by simp
  show ?thesis
  proof (cases "ln_queue (lw_lane w)")
    case Nil
    have "lane_bounds (ended t v w)" "lane_order (ended t v w)"
      using inv len Nil by (auto simp: lane_inv_def lane_bounds_def lane_order_def ended_def queued_ids_def Let_def)
    moreover have "lane_accounts (ended t v w)"
      using acc m Nil by (simp add: lane_accounts_def ended_def queued_ids_def)
    moreover have "lane_signals (ended t v w)"
      using inv Nil by (auto simp: lane_inv_def lane_signals_def ended_def; blast)
    ultimately show ?thesis by (simp add: finish_eq [OF inv run] Nil lane_inv_def)
  next
    case (Cons e rest)
    let ?w = "finish t v w"
    note eq = finish_eq [OF inv run, of v, unfolded Cons list.case ended_def]
    have e: "qe_run e \<notin> fst ` set (lw_running w)" "qe_run e \<in> set (lw_submitted w)" "qe_run e \<noteq> t"
        "qe_run e \<notin> qe_run ` set rest" "distinct (map qe_run rest)"
      using lane_ids(2,4,6) [OF acc] run Cons by (auto simp: queued_ids_def)
    have "lane_bounds ?w"
      using inv len Cons by (auto simp: eq lane_inv_def lane_bounds_def Let_def)
    moreover have "lane_accounts ?w"
      using acc m Cons e by (auto simp: eq lane_accounts_def queued_ids_def)
    moreover have "lane_order ?w"
      using inv Cons by (simp add: eq lane_inv_def lane_order_def queued_ids_def)
    moreover have "lane_signals ?w"
    proof -
      have Q: "\<forall>x \<in> set rest. \<forall>c. qe_signal x = Some c \<longrightarrow> lw_aborted w c = None"
        and fresh: "qe_signal e = Some c \<Longrightarrow> lw_aborted w c = None" for c
        using inv Cons by (auto simp: lane_inv_def lane_signals_def)
      have D: "distinct (map snd (filter (\<lambda>(s, u). u \<noteq> qe_run e) (lw_waiting w)))"
        using inv by (simp add: lane_inv_def lane_signals_def distinct_map_filter)
      have "set (lw_waiting w) = {(c, u). \<lparr>qe_run = u, qe_signal = Some c\<rparr> \<in> set (e # rest)}"
        using inv Cons by (simp add: lane_inv_def lane_signals_def)
      then have W: "set (filter (\<lambda>(s, u). u \<noteq> qe_run e) (lw_waiting w)) =
          {(c, u). \<lparr>qe_run = u, qe_signal = Some c\<rparr> \<in> set rest}"
        using e(4) by (auto simp: image_iff)
      have C: "\<forall>u d. (u, Some d) \<in> set (?R @ [(qe_run e, qe_signal e)]) \<and> lw_aborted w d = None \<longrightarrow>
          (d, u) \<in> set (?C @ (case qe_signal e of None \<Rightarrow> [] | Some c \<Rightarrow> [(c, qe_run e)]))"
        using inv by (auto simp: lane_inv_def lane_signals_def split: option.split)
      have S: "\<forall>u d. (u, Some d) \<in> set (?R @ [(qe_run e, qe_signal e)]) \<and> lw_aborted w d \<noteq> None \<longrightarrow>
          (\<exists>r. (u, r) \<in> set (lw_stopped w))"
        using inv fresh by (auto simp: lane_inv_def lane_signals_def; blast)
      show ?thesis unfolding eq lane_signals_def
        by (intro conjI) (use Q D W C S in simp_all)
    qed
    ultimately show ?thesis by (simp add: lane_inv_def)
  qed
qed

section \<open>Reachable states\<close>

lemma lane_step_inv: "lane_step w e w' \<Longrightarrow> lane_inv w \<Longrightarrow> lane_inv w'"
  by (induction rule: lane_step.induct) (auto intro: run_inv abort_inv finish_inv stop_inv)

lemma lane_steps_inv: "lane_steps w es w' \<Longrightarrow> lane_inv w \<Longrightarrow> lane_inv w'"
  by (induction rule: lane_steps.induct) (auto intro: lane_step_inv)

lemma lane_reachable_inv: "lane_steps (new_lane name cap) es w \<Longrightarrow> lane_inv w"
  by (erule lane_steps_inv) (rule lane_inv_new)

section \<open>Draining\<close>

definition pending :: "'v lane_world \<Rightarrow> nat" where
  "pending w = ln_active (lw_lane w) + length (ln_queue (lw_lane w))"

lemma finish_capacity:
  assumes "lane_inv w" and "t \<in> fst ` set (lw_running w)"
  shows "ln_capacity (lw_lane (finish t v w)) = ln_capacity (lw_lane w)"
  by (simp add: finish_eq [OF assms] ended_def split: list.split)

lemma finish_pending:
  assumes "lane_inv w" and "t \<in> fst ` set (lw_running w)"
  shows "Suc (pending (finish t v w)) = pending w"
proof -
  have "0 < ln_active (lw_lane w)"
    using assms by (auto simp: lane_inv_def lane_bounds_def Let_def intro: length_pos_if_in_set)
  then show ?thesis by (auto simp: finish_eq [OF assms] ended_def pending_def split: list.split)
qed

lemma pending_runs:
  assumes "lane_inv w" and "0 < lc_concurrency (ln_capacity (lw_lane w))" and "0 < pending w"
  shows "lw_running w \<noteq> []"
  using assms by (cases "ln_queue (lw_lane w)") (auto simp: lane_inv_def lane_bounds_def pending_def Let_def)

lemma idle_pending: "lane_idle (lw_lane w) \<longleftrightarrow> pending w = 0"
  by (auto simp: lane_idle_def pending_def)

lemma drain_length:
  assumes "lane_steps w (map (\<lambda>t. Settles t v) ts) w'" and "lane_inv w"
  shows "pending w' + length ts = pending w"
  using assms
proof (induction ts arbitrary: w)
  case (Cons t ts)
  then have "t \<in> fst ` set (lw_running w)" "lane_steps (finish t v w) (map (\<lambda>t. Settles t v) ts) w'" by auto
  then show ?case using Cons.IH [of "finish t v w"] Cons.prems(2) finish_pending [of w t v] finish_inv [of w t v] by simp
qed simp

text \<open>What waits or runs gets the answer of its own task, if the lane is let run out.\<close>

lemma drain_exists:
  assumes "lane_inv w" and "0 < lc_concurrency (ln_capacity (lw_lane w))"
  shows "\<exists>ts w'. lane_steps w (map (\<lambda>t. Settles t v) ts) w' \<and> pending w' = 0 \<and>
    lw_answers w' = lw_answers w @ map (\<lambda>t. (t, Task_settled v)) ts"
  using assms
proof (induction "pending w" arbitrary: w)
  case 0
  then have "lane_steps w (map (\<lambda>t. Settles t v) []) w \<and> pending w = 0 \<and>
      lw_answers w = lw_answers w @ map (\<lambda>t. (t, Task_settled v)) []" by simp
  then show ?case by blast
next
  case (Suc n)
  then obtain t s where "(t, s) \<in> set (lw_running w)"
    using pending_runs [of w] by (cases "lw_running w") auto
  then have t: "t \<in> fst ` set (lw_running w)" by force
  have "n = pending (finish t v w)" using finish_pending [OF Suc.prems(1) t, of v] Suc.hyps(2) by simp
  then obtain ts w' where ts: "lane_steps (finish t v w) (map (\<lambda>t. Settles t v) ts) w'" "pending w' = 0"
      "lw_answers w' = lw_answers (finish t v w) @ map (\<lambda>t. (t, Task_settled v)) ts"
    using Suc.hyps(1) [of "finish t v w"] finish_inv [OF Suc.prems(1) t] finish_capacity [OF Suc.prems(1) t] Suc.prems(2)
    by auto
  have "lw_answers (finish t v w) = lw_answers w @ [(t, Task_settled v)]"
    by (simp add: finish_eq [OF Suc.prems(1) t] ended_def split: list.split)
  then have "lane_steps w (map (\<lambda>t. Settles t v) (t # ts)) w' \<and> pending w' = 0 \<and>
      lw_answers w' = lw_answers w @ map (\<lambda>t. (t, Task_settled v)) (t # ts)"
    using ts t by simp
  then show ?case by blast
qed

lemma drained_all:
  assumes "lane_inv w" and "lane_steps w (map (\<lambda>t. Settles t v) ts) w'" and "pending w' = 0"
    and "lw_answers w' = lw_answers w @ map (\<lambda>t. (t, Task_settled v)) ts"
  shows "set ts = fst ` set (lw_running w) \<union> set (queued_ids w)"
proof -
  have inv: "lane_inv w'" using assms(1,2) by (rule lane_steps_inv [rotated])
  have same: "lane_steps u (map (\<lambda>t. Settles t v) ts) u' \<Longrightarrow> lane_inv u \<Longrightarrow> lw_submitted u' = lw_submitted u" for u u'
  proof (induction ts arbitrary: u)
    case (Cons t ts)
    then show ?case using finish_inv [of u t v]
      by (auto simp: finish_eq [of u t v] ended_def split: list.splits)
  qed simp
  have "lw_running w' = []" "queued_ids w' = []"
    using inv assms(3) by (auto simp: lane_inv_def lane_bounds_def pending_def queued_ids_def Let_def)
  then have "mset (map fst (lw_answers w')) = mset (map fst (lw_running w)) + mset (queued_ids w) + mset (map fst (lw_answers w))"
    using inv assms(1) same [OF assms(2,1)] by (simp add: lane_inv_def lane_accounts_def)
  then have "mset ts = mset (map fst (lw_running w)) + mset (queued_ids w)"
    using assms(4) by (simp add: comp_def)
  then show ?thesis by (metis mset_append mset_eq_setD set_append set_map)
qed

end
