(* ===== verification/Contracts.thy ===== *)
theory Contracts
  imports Prelude
begin

text \<open>
  The versioned types of \<open>packages/contracts\<close> that Ingestion hands to Registry, the
  canonical JSON they are compared and digested by, the cross-field validation of a
  Publication (the \<open>superRefine\<close> bodies; the field grammars are declarative \<open>zod\<close>
  schemas of a third-party package and are not modelled), and the delta between two
  Publications with its independent verification.

  A JavaScript number inside a published fact is carried as the text ECMAScript renders
  it to, since the sources only render and compare it.
\<close>

section \<open>Canonical JSON\<close>

datatype json =
    JNull
  | JBool bool
  | JNum string
  | JStr string
  | JArr "json list"
  | JObj "(string \<times> json option) list"

definition hex_digit :: "nat \<Rightarrow> char" where
  "hex_digit n = (if n < 10 then char_of (48 + n) else char_of (87 + n))"

text \<open>\<open>JSON.stringify\<close> of one code unit inside a string literal.\<close>

definition json_escape_char :: "char \<Rightarrow> string" where
  "json_escape_char c =
     (let n = code_unit c in
       if n = 34 then [CHR 0x5C, CHR 0x22]
       else if n = 92 then [CHR 0x5C, CHR 0x5C]
       else if n = 8 then [CHR 0x5C, CHR ''b'']
       else if n = 9 then [CHR 0x5C, CHR ''t'']
       else if n = 10 then [CHR 0x5C, CHR ''n'']
       else if n = 12 then [CHR 0x5C, CHR ''f'']
       else if n = 13 then [CHR 0x5C, CHR ''r'']
       else if n < 32 then [CHR 0x5C, CHR ''u'', CHR ''0'', CHR ''0'', hex_digit (n div 16), hex_digit (n mod 16)]
       else [c])"

definition json_quote :: "string \<Rightarrow> string" where
  "json_quote s = CHR 0x22 # concat (map json_escape_char s) @ [CHR 0x22]"

fun canonicalContractJson :: "json \<Rightarrow> string"
  and canonical_members :: "(string \<times> json option) list \<Rightarrow> (string \<times> string) list" where
  "canonicalContractJson JNull = ''null''"
| "canonicalContractJson (JBool b) = (if b then ''true'' else ''false'')"
| "canonicalContractJson (JNum n) = n"
| "canonicalContractJson (JStr s) = json_quote s"
| "canonicalContractJson (JArr xs) =
     ''['' @ join '','' (map canonicalContractJson xs) @ '']''"
| "canonicalContractJson (JObj kvs) =
     ''{'' @ join '','' (map (\<lambda>(k, s). json_quote k @ '':'' @ s) (sort_key fst (canonical_members kvs))) @ ''}''"
| "canonical_members [] = []"
| "canonical_members ((k, None) # kvs) = canonical_members kvs"
| "canonical_members ((k, Some v) # kvs) = (k, canonicalContractJson v) # canonical_members kvs"

text \<open>The UTF-8 length: a code unit from U+0080 on takes two bytes.\<close>

definition utf8_length :: "string \<Rightarrow> nat" where
  "utf8_length s = sum_list (map (\<lambda>c. if code_unit c < 128 then 1 else 2) s)"

definition canonicalContractByteLength :: "json \<Rightarrow> nat" where
  "canonicalContractByteLength v = utf8_length (canonicalContractJson v)"

lemma canonical_members_map:
  "canonical_members kvs =
     map (\<lambda>(k, v). (k, canonicalContractJson (the v))) (filter (\<lambda>(k, v). v \<noteq> None) kvs)"
proof (induction kvs)
  case Nil
  then show ?case by simp
next
  case (Cons kv kvs)
  obtain k v where "kv = (k, v)" by force
  with Cons show ?case by (cases v) auto
qed

text \<open>The text does not depend on the order in which an object's members were written.\<close>

lemma canonicalContractJson_member_order:
  assumes "mset kvs = mset kvs'" and "distinct (map fst kvs)"
  shows "canonicalContractJson (JObj kvs) = canonicalContractJson (JObj kvs')"
proof -
  have "mset (canonical_members kvs) = mset (canonical_members kvs')"
    using assms(1) by (simp add: canonical_members_map mset_filter)
  moreover have "distinct (map fst (canonical_members kvs))"
    using assms(2) by (simp add: canonical_members_map distinct_map_filter comp_def case_prod_beta)
  ultimately show ?thesis
    by (simp add: sort_key_perm_unique)
qed

text \<open>A bound on the rendered length that only looks at the structure of the value.\<close>

fun json_bound :: "json \<Rightarrow> nat" where
  "json_bound JNull = 4"
| "json_bound (JBool b) = 5"
| "json_bound (JNum n) = length n"
| "json_bound (JStr t) = 2 + 6 * length t"
| "json_bound (JArr xs) = 2 + sum_list (map (\<lambda>x. Suc (json_bound x)) xs)"
| "json_bound (JObj kvs) = 2 + sum_list (map (\<lambda>(k, v). 4 + 6 * length k + (case v of None \<Rightarrow> 0 | Some x \<Rightarrow> json_bound x)) kvs)"

lemma length_join: "length (join sep xs) \<le> sum_list (map (\<lambda>x. length sep + length x) xs)"
proof (induction sep xs rule: join.induct)
  case (3 sep x y ys)
  then show ?case by (simp add: add.assoc)
qed auto

lemma length_json_quote: "length (json_quote t) \<le> 2 + 6 * length t"
proof -
  have "length (json_escape_char c) \<le> 6" for c
    by (simp add: json_escape_char_def Let_def)
  then have "length (concat (map json_escape_char t)) \<le> 6 * length t"
    by (induction t) (auto intro: add_mono)
  then show ?thesis by (simp add: json_quote_def)
qed

lemma sum_list_sort_key: "sum_list (map f (sort_key g xs)) = sum_list (map (f :: 'a \<Rightarrow> nat) xs)"
  by (metis mset_map mset_sort sum_mset_sum_list)

lemma canonicalContractJson_bound:
  "length (canonicalContractJson j) \<le> json_bound j"
  "sum_list (map (\<lambda>(k, t). 4 + 6 * length k + length t) (canonical_members kvs)) \<le>
     sum_list (map (\<lambda>(k, v). 4 + 6 * length k + (case v of None \<Rightarrow> 0 | Some x \<Rightarrow> json_bound x)) kvs)"
proof (induction j and kvs rule: canonicalContractJson_canonical_members.induct)
  case (5 xs)
  have "sum_list (map (length \<circ> canonicalContractJson) xs) + length xs \<le> sum_list (map (\<lambda>x. Suc (json_bound x)) xs)"
    using 5 by (induction xs) force+
  moreover have "length (join '','' (map canonicalContractJson xs)) \<le> sum_list (map (length \<circ> canonicalContractJson) xs) + length xs"
    using length_join [of "'',''" "map canonicalContractJson xs"] by (simp add: comp_def sum_list_Suc)
  ultimately show ?case by simp
next
  case (6 kvs)
  let ?ms = "canonical_members kvs"
  have "length (join '','' (map (\<lambda>(k, s). json_quote k @ '':'' @ s) (sort_key fst ?ms))) \<le>
      sum_list (map (\<lambda>(k, s). 2 + length (json_quote k) + length s) (sort_key fst ?ms))"
    using length_join [of "'',''" "map (\<lambda>(k, s). json_quote k @ '':'' @ s) (sort_key fst ?ms)"]
    by (simp add: comp_def case_prod_unfold)
  also have "\<dots> \<le> sum_list (map (\<lambda>(k, s). 4 + 6 * length k + length s) ?ms)"
    unfolding sum_list_sort_key by (intro sum_list_mono) (use length_json_quote in \<open>fastforce simp: case_prod_beta\<close>)
  finally show ?case using 6 by simp
next
  case (9 k v kvs)
  then show ?case by simp
qed (use length_json_quote in auto)

lemma canonicalContractByteLength_bound: "canonicalContractByteLength j \<le> 2 * json_bound j"
proof -
  have "utf8_length t \<le> 2 * length t" for t
    by (induction t) (auto simp: utf8_length_def)
  from this [of "canonicalContractJson j"] canonicalContractJson_bound(1) [of j] show ?thesis
    by (simp add: canonicalContractByteLength_def)
qed

section \<open>Sorted unique arrays\<close>

text \<open>
  \<open>validateSortedUnique\<close> adds an issue exactly when the array differs from the sorted
  set of its elements; the model returns whether it does.
\<close>

definition validateSortedUnique :: "string list \<Rightarrow> bool" where
  "validateSortedUnique values =
     (let canonical = sort (js_set values) in
       length canonical \<noteq> length values \<or>
       list_ex (\<lambda>(a, b). a \<noteq> b) (zip canonical values))"

lemma list_ex_zip_neq:
  "length xs = length ys \<Longrightarrow> list_ex (\<lambda>(a, b). a \<noteq> b) (zip xs ys) \<longleftrightarrow> xs \<noteq> ys"
  by (induction xs ys rule: list_induct2) auto

lemma validateSortedUnique_iff:
  "validateSortedUnique values \<longleftrightarrow> \<not> (sorted values \<and> distinct values)"
proof -
  have "validateSortedUnique values \<longleftrightarrow> sort (js_set values) \<noteq> values"
    unfolding validateSortedUnique_def Let_def
    by (metis list_ex_zip_neq)
  also have "\<dots> \<longleftrightarrow> \<not> (sorted values \<and> distinct values)"
    by (metis distinct_js_set distinct_sort js_set_distinct sort_key_id_if_sorted sorted_sort
        sorted_sort_id)
  finally show ?thesis .
qed

section \<open>Published scopes, coordinates, facts, units and changes\<close>

datatype param_location = PathParameter | QueryParameter

record http_parameter_ref =
  hp_location :: param_location
  hp_name :: string
  hp_required :: bool

record document_index_ref =
  di_documentIndexId :: string
  di_sourceId :: string
  di_documentId :: string
  di_indexVersion :: string

record scope_ref =
  scopeId :: string
  scopeVersion :: string

datatype document_selector = WholeDocument | SemanticUnits "string list"

datatype published_scope =
    PublishedDocumentScope scope_ref document_index_ref document_selector
  | PublishedSqlScope scope_ref string string string "string list"
  | PublishedHttpScope scope_ref string string string "string option" "http_parameter_ref list"

fun ps_reference :: "published_scope \<Rightarrow> scope_ref" where
  "ps_reference (PublishedDocumentScope r _ _) = r"
| "ps_reference (PublishedSqlScope r _ _ _ _) = r"
| "ps_reference (PublishedHttpScope r _ _ _ _ _) = r"

datatype source_coordinate =
    DocumentCoordinate (co_sourceId: string) string string
  | SqlTableCoordinate (co_sourceId: string) string string "string list"
  | HttpOperationCoordinate (co_sourceId: string) string string "string option" "http_parameter_ref list"

datatype fact_name =
    Document_title | Document_media_type | Section_path | Section_label | Unit_kind
  | Structure_block_kinds | Structure_block_count | Keywords_derived
  | Sql_schema | Sql_table | Sql_columns | Sql_column_types | Sql_primary_key
  | Sql_related_tables | Sql_approximate_row_count
  | Http_operation_id | Http_summary | Http_request_schema_digest
  | Http_response_schema_digest | Http_auth_schemes

fun fact_name_text :: "fact_name \<Rightarrow> string" where
  "fact_name_text Document_title = ''document.title''"
| "fact_name_text Document_media_type = ''document.media_type''"
| "fact_name_text Section_path = ''section.path''"
| "fact_name_text Section_label = ''section.label''"
| "fact_name_text Unit_kind = ''unit.kind''"
| "fact_name_text Structure_block_kinds = ''structure.block_kinds''"
| "fact_name_text Structure_block_count = ''structure.block_count''"
| "fact_name_text Keywords_derived = ''keywords.derived''"
| "fact_name_text Sql_schema = ''sql.schema''"
| "fact_name_text Sql_table = ''sql.table''"
| "fact_name_text Sql_columns = ''sql.columns''"
| "fact_name_text Sql_column_types = ''sql.column_types''"
| "fact_name_text Sql_primary_key = ''sql.primary_key''"
| "fact_name_text Sql_related_tables = ''sql.related_tables''"
| "fact_name_text Sql_approximate_row_count = ''sql.approximate_row_count''"
| "fact_name_text Http_operation_id = ''http.operation_id''"
| "fact_name_text Http_summary = ''http.summary''"
| "fact_name_text Http_request_schema_digest = ''http.request_schema_digest''"
| "fact_name_text Http_response_schema_digest = ''http.response_schema_digest''"
| "fact_name_text Http_auth_schemes = ''http.auth_schemes''"

datatype fact_scalar = FactString string | FactNumber string | FactBool bool

datatype fact_value = FactScalar fact_scalar | FactList "fact_scalar list"

record published_fact =
  fact_name :: fact_name
  fact_value :: fact_value

datatype unit_kind = DocumentUnit | SectionUnit | SegmentUnit | TableUnit | OperationUnit

record provenance =
  pr_observationId :: string
  pr_producerId :: string
  pr_producerVersion :: string
  pr_policyVersions :: "(string \<times> string) list"

record knowledge_unit =
  ku_id :: string
  ku_kind :: unit_kind
  ku_coordinate :: source_coordinate
  ku_facts :: "published_fact list"
  ku_scopes :: "published_scope list"
  ku_provenance :: provenance
  ku_contentDigest :: string

datatype changed_field = Facts | Kind | Provenance | PublishedScopes | SourceCoordinate

fun changed_field_text :: "changed_field \<Rightarrow> string" where
  "changed_field_text Facts = ''facts''"
| "changed_field_text Kind = ''kind''"
| "changed_field_text Provenance = ''provenance''"
| "changed_field_text PublishedScopes = ''published.scopes''"
| "changed_field_text SourceCoordinate = ''source.coordinate''"

datatype published_change =
    Added (ch_unitId: string) string
  | Updated (ch_unitId: string) string string "changed_field list"
  | Removed (ch_unitId: string) string

record publication =
  pub_publicationId :: string
  pub_sourceId :: string
  pub_observationId :: string
  pub_previousPublicationId :: "string option"
  pub_producedAt :: string
  pub_knowledgeUnits :: "knowledge_unit list"
  pub_changes :: "published_change list"


section \<open>The JSON view of the published types\<close>

fun param_location_text :: "param_location \<Rightarrow> string" where
  "param_location_text PathParameter = ''path''"
| "param_location_text QueryParameter = ''query''"

fun unit_kind_text :: "unit_kind \<Rightarrow> string" where
  "unit_kind_text DocumentUnit = ''document''"
| "unit_kind_text SectionUnit = ''section''"
| "unit_kind_text SegmentUnit = ''segment''"
| "unit_kind_text TableUnit = ''table''"
| "unit_kind_text OperationUnit = ''operation''"

definition json_texts :: "string list \<Rightarrow> json" where
  "json_texts xs = JArr (map JStr xs)"

definition json_of_parameter :: "http_parameter_ref \<Rightarrow> json" where
  "json_of_parameter p = JObj
     [(''location'', Some (JStr (param_location_text (hp_location p)))),
      (''name'', Some (JStr (hp_name p))), (''required'', Some (JBool (hp_required p)))]"

definition json_of_parameters :: "http_parameter_ref list \<Rightarrow> json" where
  "json_of_parameters ps = JArr (map json_of_parameter ps)"

definition json_of_document_index :: "document_index_ref \<Rightarrow> json" where
  "json_of_document_index d = JObj
     [(''documentIndexId'', Some (JStr (di_documentIndexId d))),
      (''sourceId'', Some (JStr (di_sourceId d))),
      (''documentId'', Some (JStr (di_documentId d))),
      (''indexVersion'', Some (JStr (di_indexVersion d)))]"

fun json_of_selector :: "document_selector \<Rightarrow> json" where
  "json_of_selector WholeDocument = JObj [(''kind'', Some (JStr ''document''))]"
| "json_of_selector (SemanticUnits ids) = JObj
     [(''kind'', Some (JStr ''semantic_units'')), (''semanticUnitIds'', Some (json_texts ids))]"

fun json_of_published_scope :: "published_scope \<Rightarrow> json" where
  "json_of_published_scope (PublishedDocumentScope r d sel) = JObj
     [(''scopeId'', Some (JStr (scopeId r))), (''scopeVersion'', Some (JStr (scopeVersion r))),
      (''kind'', Some (JStr ''managed_document'')),
      (''documentIndex'', Some (json_of_document_index d)),
      (''selector'', Some (json_of_selector sel))]"
| "json_of_published_scope (PublishedSqlScope r connector schema table columns) = JObj
     [(''scopeId'', Some (JStr (scopeId r))), (''scopeVersion'', Some (JStr (scopeVersion r))),
      (''kind'', Some (JStr ''sql_source'')), (''connector'', Some (JStr connector)),
      (''schema'', Some (JStr schema)), (''table'', Some (JStr table)),
      (''columns'', Some (json_texts columns))]"
| "json_of_published_scope (PublishedHttpScope r connector meth path operationId parameters) = JObj
     [(''scopeId'', Some (JStr (scopeId r))), (''scopeVersion'', Some (JStr (scopeVersion r))),
      (''kind'', Some (JStr ''http_source'')), (''connector'', Some (JStr connector)),
      (''method'', Some (JStr meth)), (''path'', Some (JStr path)),
      (''operationId'', map_option JStr operationId),
      (''parameters'', Some (json_of_parameters parameters))]"

fun json_of_coordinate :: "source_coordinate \<Rightarrow> json" where
  "json_of_coordinate (DocumentCoordinate src doc unit) = JObj
     [(''kind'', Some (JStr ''document'')), (''sourceId'', Some (JStr src)),
      (''documentId'', Some (JStr doc)), (''semanticUnitId'', Some (JStr unit))]"
| "json_of_coordinate (SqlTableCoordinate src schema table columns) = JObj
     [(''kind'', Some (JStr ''sql_table'')), (''sourceId'', Some (JStr src)),
      (''schema'', Some (JStr schema)), (''table'', Some (JStr table)),
      (''columns'', Some (json_texts columns))]"
| "json_of_coordinate (HttpOperationCoordinate src meth path operationId parameters) = JObj
     [(''kind'', Some (JStr ''http_operation'')), (''sourceId'', Some (JStr src)),
      (''method'', Some (JStr meth)), (''path'', Some (JStr path)),
      (''operationId'', map_option JStr operationId),
      (''parameters'', Some (json_of_parameters parameters))]"

fun json_of_scalar :: "fact_scalar \<Rightarrow> json" where
  "json_of_scalar (FactString s) = JStr s"
| "json_of_scalar (FactNumber n) = JNum n"
| "json_of_scalar (FactBool b) = JBool b"

fun json_of_value :: "fact_value \<Rightarrow> json" where
  "json_of_value (FactScalar x) = json_of_scalar x"
| "json_of_value (FactList xs) = JArr (map json_of_scalar xs)"

definition json_of_fact :: "published_fact \<Rightarrow> json" where
  "json_of_fact f = JObj
     [(''name'', Some (JStr (fact_name_text (fact_name f)))),
      (''value'', Some (json_of_value (fact_value f)))]"

definition json_of_facts :: "published_fact list \<Rightarrow> json" where
  "json_of_facts fs = JArr (map json_of_fact fs)"

definition json_of_provenance :: "provenance \<Rightarrow> json" where
  "json_of_provenance p = JObj
     [(''observationId'', Some (JStr (pr_observationId p))),
      (''producer'', Some (JObj
         [(''id'', Some (JStr (pr_producerId p))), (''version'', Some (JStr (pr_producerVersion p)))])),
      (''policyVersions'', Some (JObj (map (\<lambda>(k, v). (k, Some (JStr v))) (pr_policyVersions p))))]"

definition json_of_published_scopes :: "published_scope list \<Rightarrow> json" where
  "json_of_published_scopes xs = JArr (map json_of_published_scope xs)"

text \<open>The members of a unit without its \<open>contentDigest\<close>, and the whole unit.\<close>

definition unit_content_members :: "knowledge_unit \<Rightarrow> (string \<times> json option) list" where
  "unit_content_members u =
     [(''id'', Some (JStr (ku_id u))), (''kind'', Some (JStr (unit_kind_text (ku_kind u)))),
      (''sourceCoordinate'', Some (json_of_coordinate (ku_coordinate u))),
      (''facts'', Some (json_of_facts (ku_facts u))),
      (''publishedScopes'', Some (json_of_published_scopes (ku_scopes u))),
      (''provenance'', Some (json_of_provenance (ku_provenance u)))]"

definition json_of_unit :: "knowledge_unit \<Rightarrow> json" where
  "json_of_unit u =
     JObj (unit_content_members u @ [(''contentDigest'', Some (JStr (ku_contentDigest u)))])"

fun json_of_change :: "published_change \<Rightarrow> json" where
  "json_of_change (Added k d) = JObj
     [(''kind'', Some (JStr ''added'')), (''knowledgeUnitId'', Some (JStr k)),
      (''currentContentDigest'', Some (JStr d))]"
| "json_of_change (Updated k p d cf) = JObj
     [(''kind'', Some (JStr ''updated'')), (''knowledgeUnitId'', Some (JStr k)),
      (''previousContentDigest'', Some (JStr p)), (''currentContentDigest'', Some (JStr d)),
      (''changedFields'', Some (json_texts (map changed_field_text cf)))]"
| "json_of_change (Removed k p) = JObj
     [(''kind'', Some (JStr ''removed'')), (''knowledgeUnitId'', Some (JStr k)),
      (''previousContentDigest'', Some (JStr p))]"

definition json_of_changes :: "published_change list \<Rightarrow> json" where
  "json_of_changes cs = JArr (map json_of_change cs)"

definition json_of_publication :: "publication \<Rightarrow> json" where
  "json_of_publication p = JObj
     [(''schemaVersion'', Some (JNum ''2'')),
      (''publicationId'', Some (JStr (pub_publicationId p))),
      (''sourceId'', Some (JStr (pub_sourceId p))),
      (''observationId'', Some (JStr (pub_observationId p))),
      (''previousPublicationId'', map_option JStr (pub_previousPublicationId p)),
      (''producedAt'', Some (JStr (pub_producedAt p))),
      (''knowledgeUnits'', Some (JArr (map json_of_unit (pub_knowledgeUnits p)))),
      (''changes'', Some (json_of_changes (pub_changes p)))]"

section \<open>Unit digests and the delta between two Publications\<close>

text \<open>\<open>sha256\<close> is the hexadecimal digest of Node's \<open>crypto\<close> module.\<close>

definition computePublishedKnowledgeUnitDigest :: "(string \<Rightarrow> string) \<Rightarrow> knowledge_unit \<Rightarrow> string" where
  "computePublishedKnowledgeUnitDigest sha256 u =
     ''sha256:'' @ sha256 (canonicalContractJson (JObj (unit_content_members u)))"

text \<open>The five compared fields, each with its two values in canonical JSON.\<close>

definition unit_field_pairs :: "knowledge_unit \<Rightarrow> knowledge_unit \<Rightarrow> (changed_field \<times> json \<times> json) list" where
  "unit_field_pairs previous current =
     [(Facts, json_of_facts (ku_facts previous), json_of_facts (ku_facts current)),
      (Kind, JStr (unit_kind_text (ku_kind previous)), JStr (unit_kind_text (ku_kind current))),
      (Provenance, json_of_provenance (ku_provenance previous), json_of_provenance (ku_provenance current)),
      (PublishedScopes, json_of_published_scopes (ku_scopes previous), json_of_published_scopes (ku_scopes current)),
      (SourceCoordinate, json_of_coordinate (ku_coordinate previous), json_of_coordinate (ku_coordinate current))]"

definition changedKnowledgeUnitFields :: "knowledge_unit \<Rightarrow> knowledge_unit \<Rightarrow> changed_field list" where
  "changedKnowledgeUnitFields previous current =
     sort_key changed_field_text
       (map fst
         (filter (\<lambda>(_, left, right). canonicalContractJson left \<noteq> canonicalContractJson right)
           (unit_field_pairs previous current)))"

definition units_by_id :: "knowledge_unit list \<Rightarrow> (string \<times> knowledge_unit) list" where
  "units_by_id us = js_map (map (\<lambda>u. (ku_id u, u)) us)"

fun addedOrUpdated :: "(string \<times> knowledge_unit) list \<Rightarrow> knowledge_unit \<Rightarrow> published_change list" where
  "addedOrUpdated previousById unit =
     (case map_of previousById (ku_id unit) of
        None \<Rightarrow> [Added (ku_id unit) (ku_contentDigest unit)]
      | Some prior \<Rightarrow>
          (let changedFields = changedKnowledgeUnitFields prior unit in
           if changedFields \<noteq> []
           then [Updated (ku_id unit) (ku_contentDigest prior) (ku_contentDigest unit) changedFields]
           else []))"

definition computePublicationChanges :: "publication option \<Rightarrow> knowledge_unit list \<Rightarrow> published_change list" where
  "computePublicationChanges previous current =
     (case previous of
        None \<Rightarrow> map (\<lambda>unit. Added (ku_id unit) (ku_contentDigest unit)) current
      | Some p \<Rightarrow>
          (let previousById = units_by_id (pub_knowledgeUnits p);
               currentIds = js_set (map ku_id current);
               changes = concat (map (addedOrUpdated previousById) current);
               removed = map (\<lambda>unit. Removed (ku_id unit) (ku_contentDigest unit))
                           (filter (\<lambda>unit. ku_id unit \<notin> set currentIds) (pub_knowledgeUnits p))
           in sort_key ch_unitId (changes @ removed)))"


section \<open>Verification of a declared delta\<close>

datatype path_key = PKey string | PIndex nat

type_synonym contract_issue = "path_key list \<times> string"

datatype contract_error = ContractValidationError string "contract_issue list"

definition transition_messages :: "publication option \<Rightarrow> publication \<Rightarrow> string list" where
  "transition_messages previous current =
     (case previous of
        None \<Rightarrow>
          (if pub_previousPublicationId current \<noteq> None
           then [''initial publication must not declare a predecessor''] else [])
      | Some p \<Rightarrow>
          (if pub_previousPublicationId current \<noteq> Some (pub_publicationId p)
           then [''publication predecessor does not match the source head''] else []) @
          (if pub_sourceId current \<noteq> pub_sourceId p
           then [''publication predecessor belongs to another source''] else [])) @
     (if canonicalContractJson (json_of_changes (computePublicationChanges previous (pub_knowledgeUnits current)))
         \<noteq> canonicalContractJson (json_of_changes (pub_changes current))
      then [''publication changes do not match the exact predecessor delta''] else []) @
     (case previous of
        None \<Rightarrow> []
      | Some p \<Rightarrow>
          (let previousById = units_by_id (pub_knowledgeUnits p);
               changedIds = js_set (map ch_unitId (pub_changes current))
           in concat (map (\<lambda>unit.
                case map_of previousById (ku_id unit) of
                  None \<Rightarrow> []
                | Some prior \<Rightarrow>
                    (if ku_id unit \<notin> set changedIds \<and>
                        canonicalContractJson (json_of_unit prior) \<noteq> canonicalContractJson (json_of_unit unit)
                     then [''unchanged knowledge unit '' @ ku_id unit @ '' must be byte-identical'']
                     else []))
              (pub_knowledgeUnits current))))"

definition assertIngestionPublicationTransition ::
    "publication option \<Rightarrow> publication \<Rightarrow> contract_error + unit" where
  "assertIngestionPublicationTransition previous current =
     (let messages = transition_messages previous current in
      if messages \<noteq> []
      then Inl (ContractValidationError ''IngestionPublicationTransition''
                  (map (\<lambda>m. ([PKey ''changes''], m)) messages))
      else Inr ())"

section \<open>Cross-field validation of a Publication\<close>

definition MAX_PUBLICATION_BYTES :: nat where "MAX_PUBLICATION_BYTES = 16 * 1024 * 1024"
definition MAX_PUBLICATION_FACT_BYTES :: nat where "MAX_PUBLICATION_FACT_BYTES = 16 * 1024"
definition MAX_PUBLISHED_SCOPE_BYTES :: nat where "MAX_PUBLISHED_SCOPE_BYTES = 16 * 1024"
definition MAX_SCOPE_SET_SIZE :: nat where "MAX_SCOPE_SET_SIZE = 256"
definition MAX_SQL_COORDINATE_COLUMNS :: nat where "MAX_SQL_COORDINATE_COLUMNS = 4096"

definition issue_when :: "bool \<Rightarrow> path_key list \<Rightarrow> string \<Rightarrow> contract_issue list" where
  "issue_when cond path msg = (if cond then [(path, msg)] else [])"

lemma issue_when_Nil_iff [simp]: "issue_when cond path msg = [] \<longleftrightarrow> \<not> cond"
  by (simp add: issue_when_def)

definition sortedUniqueIssue :: "string list \<Rightarrow> string \<Rightarrow> contract_issue list" where
  "sortedUniqueIssue values label =
     issue_when (validateSortedUnique values) [] (label @ '' must be unique and lexically sorted'')"

definition validateCoordinateKind :: "knowledge_unit \<Rightarrow> nat \<Rightarrow> contract_issue list" where
  "validateCoordinateKind unit index =
     (let valid = (case ku_coordinate unit of
          DocumentCoordinate _ _ _ \<Rightarrow> ku_kind unit \<in> {DocumentUnit, SectionUnit, SegmentUnit}
        | SqlTableCoordinate _ _ _ _ \<Rightarrow> ku_kind unit = TableUnit
        | HttpOperationCoordinate _ _ _ _ _ \<Rightarrow> ku_kind unit = OperationUnit)
      in issue_when (\<not> valid)
           [PKey ''knowledgeUnits'', PIndex index, PKey ''sourceCoordinate'', PKey ''kind'']
           ''knowledge unit kind and source coordinate are incompatible'')"

fun validateScopeCoordinate ::
    "string \<Rightarrow> source_coordinate \<Rightarrow> published_scope \<Rightarrow> path_key list \<Rightarrow> (string \<times> string) list \<Rightarrow> contract_issue list" where
  "validateScopeCoordinate sourceId (DocumentCoordinate _ documentId semanticUnitId)
      (PublishedDocumentScope _ index selector) path documentUnits =
     issue_when (di_sourceId index \<noteq> sourceId \<or> di_documentId index \<noteq> documentId) path
       ''document scope must use the unit source and document'' @
     (case selector of
        WholeDocument \<Rightarrow> []
      | SemanticUnits ids \<Rightarrow>
          issue_when (semanticUnitId \<notin> set ids) (path @ [PKey ''selector''])
            ''semantic scope must include the unit coordinate'' @
          issue_when (list_ex (\<lambda>i. map_of documentUnits i \<noteq> Some documentId) ids) (path @ [PKey ''selector''])
            ''semantic scope may reference only units from the same document'')"
| "validateScopeCoordinate sourceId (SqlTableCoordinate _ schema table columns)
      (PublishedSqlScope _ _ schema' table' columns') path documentUnits =
     issue_when (schema' \<noteq> schema \<or> table' \<noteq> table \<or> list_ex (\<lambda>c. c \<notin> set columns) columns') path
       ''SQL scope must be a subset of the exact coordinate''"
| "validateScopeCoordinate sourceId (HttpOperationCoordinate _ meth pathText operationId parameters)
      (PublishedHttpScope _ _ meth' pathText' operationId' parameters') path documentUnits =
     issue_when (meth' \<noteq> meth \<or> pathText' \<noteq> pathText \<or> operationId' \<noteq> operationId \<or>
       canonicalContractJson (json_of_parameters parameters') \<noteq> canonicalContractJson (json_of_parameters parameters)) path
       ''HTTP scope must match the exact operation coordinate''"
| "validateScopeCoordinate sourceId _ _ path documentUnits =
     [(path @ [PKey ''kind''], ''scope kind and source coordinate are incompatible'')]"

text \<open>The first pass over the units; it also fills \<open>documentUnits\<close>.\<close>

definition unitPath :: "nat \<Rightarrow> string list \<Rightarrow> path_key list" where
  "unitPath i ks = [PKey ''knowledgeUnits'', PIndex i] @ map PKey ks"

definition validateUnitIdentity ::
    "publication \<Rightarrow> (string \<times> published_change) list \<Rightarrow> nat \<Rightarrow> knowledge_unit \<Rightarrow>
     (string \<times> string) list \<Rightarrow> contract_issue list \<times> (string \<times> string) list" where
  "validateUnitIdentity p changes i unit documentUnits =
     (let own = issue_when (co_sourceId (ku_coordinate unit) \<noteq> pub_sourceId p)
                  (unitPath i [''sourceCoordinate'', ''sourceId''])
                  ''knowledge unit must belong to the publication source'';
          fresh = (pub_previousPublicationId p = None \<or>
                   (case map_of changes (ku_id unit) of
                      Some (Added _ _) \<Rightarrow> True | Some (Updated _ _ _ _) \<Rightarrow> True | _ \<Rightarrow> False));
          observed = issue_when (fresh \<and> pr_observationId (ku_provenance unit) \<noteq> pub_observationId p)
                  (unitPath i [''provenance'', ''observationId''])
                  ''new or changed knowledge must use the current observation'';
          semanticPath = unitPath i [''sourceCoordinate'', ''semanticUnitId'']
      in (case ku_coordinate unit of
            DocumentCoordinate _ documentId semanticUnitId \<Rightarrow>
              (own @ observed @
               issue_when (ku_id unit \<noteq> semanticUnitId) semanticPath
                 ''document unit identity must match its semantic coordinate'' @
               issue_when (map_of documentUnits semanticUnitId \<noteq> None) semanticPath
                 ''semantic unit coordinate must be unique'' @
               validateCoordinateKind unit i,
               AList.update semanticUnitId documentId documentUnits)
          | _ \<Rightarrow> (own @ observed @ validateCoordinateKind unit i, documentUnits)))"

fun validateUnitIdentities ::
    "publication \<Rightarrow> (string \<times> published_change) list \<Rightarrow> nat \<Rightarrow> knowledge_unit list \<Rightarrow>
     (string \<times> string) list \<Rightarrow> contract_issue list \<times> (string \<times> string) list" where
  "validateUnitIdentities p changes i [] documentUnits = ([], documentUnits)"
| "validateUnitIdentities p changes i (u # us) documentUnits =
     (let (issues, documentUnits') = validateUnitIdentity p changes i u documentUnits;
          (rest, documentUnits'') = validateUnitIdentities p changes (Suc i) us documentUnits'
      in (issues @ rest, documentUnits''))"

text \<open>The second pass: every scope against its unit, and one definition per scope revision.\<close>

definition scope_key :: "scope_ref \<Rightarrow> string" where
  "scope_key r = scopeId r @ [CHR 0x00] @ scopeVersion r"

fun validateUnitScopes ::
    "publication \<Rightarrow> (string \<times> string) list \<Rightarrow> nat \<Rightarrow> source_coordinate \<Rightarrow> nat \<Rightarrow> published_scope list \<Rightarrow>
     (string \<times> string) list \<Rightarrow> contract_issue list \<times> (string \<times> string) list" where
  "validateUnitScopes p documentUnits i coordinate j [] scopeDefinitions = ([], scopeDefinitions)"
| "validateUnitScopes p documentUnits i coordinate j (scope # scopes) scopeDefinitions =
     (let path = [PKey ''knowledgeUnits'', PIndex i, PKey ''publishedScopes'', PIndex j];
          reference = scope_key (ps_reference scope);
          definition' = canonicalContractJson (json_of_published_scope scope);
          prior = map_of scopeDefinitions reference;
          issues = validateScopeCoordinate (pub_sourceId p) coordinate scope path documentUnits @
                   issue_when (prior \<noteq> None \<and> prior \<noteq> Some definition') path
                     ''the same scope revision must have one immutable definition'';
          (rest, scopeDefinitions') =
            validateUnitScopes p documentUnits i coordinate (Suc j) scopes
              (AList.update reference definition' scopeDefinitions)
      in (issues @ rest, scopeDefinitions'))"

fun validateScopes ::
    "publication \<Rightarrow> (string \<times> string) list \<Rightarrow> nat \<Rightarrow> knowledge_unit list \<Rightarrow> (string \<times> string) list \<Rightarrow>
     contract_issue list" where
  "validateScopes p documentUnits i [] scopeDefinitions = []"
| "validateScopes p documentUnits i (u # us) scopeDefinitions =
     (let (issues, scopeDefinitions') =
            validateUnitScopes p documentUnits i (ku_coordinate u) 0 (ku_scopes u) scopeDefinitions
      in issues @ validateScopes p documentUnits (Suc i) us scopeDefinitions')"

definition validateDeclaredChange ::
    "publication \<Rightarrow> (string \<times> knowledge_unit) list \<Rightarrow> nat \<Rightarrow> published_change \<Rightarrow> contract_issue list" where
  "validateDeclaredChange p units i change =
     (let current = map_of units (ch_unitId change);
          isAdded = (case change of Added _ _ \<Rightarrow> True | _ \<Rightarrow> False);
          isRemoved = (case change of Removed _ _ \<Rightarrow> True | _ \<Rightarrow> False);
          currentDigest = (case change of Added _ d \<Rightarrow> Some d | Updated _ _ d _ \<Rightarrow> Some d | Removed _ _ \<Rightarrow> None)
      in issue_when (pub_previousPublicationId p = None \<and> \<not> isAdded)
           [PKey ''changes'', PIndex i, PKey ''kind''] ''initial publication may contain only added changes'' @
         issue_when (isRemoved \<and> current \<noteq> None)
           [PKey ''changes'', PIndex i] ''removed knowledge must not appear in current units'' @
         issue_when (\<not> isRemoved \<and> current = None)
           [PKey ''changes'', PIndex i] ''added or updated knowledge must appear in current units'' @
         issue_when (\<not> isRemoved \<and> map_option ku_contentDigest current \<noteq> currentDigest)
           [PKey ''changes'', PIndex i, PKey ''currentContentDigest''] ''change digest must match current knowledge'')"

definition enumerated :: "'a list \<Rightarrow> (nat \<times> 'a) list" where
  "enumerated xs = zip [0..<length xs] xs"

definition validateDeclaredChanges ::
    "publication \<Rightarrow> (string \<times> knowledge_unit) list \<Rightarrow> contract_issue list" where
  "validateDeclaredChanges p units =
     (let added = js_set (map ch_unitId (filter (\<lambda>c. case c of Added _ _ \<Rightarrow> True | _ \<Rightarrow> False) (pub_changes p)))
      in concat (map (\<lambda>(i, c). validateDeclaredChange p units i c) (enumerated (pub_changes p))) @
         (if pub_previousPublicationId p = None
          then concat (map (\<lambda>(_, unit). issue_when (ku_id unit \<notin> set added) [PKey ''changes'']
                 (''initial knowledge unit '' @ ku_id unit @ '' requires an added change'')) units)
          else []))"

definition validatePublication :: "publication \<Rightarrow> contract_issue list" where
  "validatePublication p =
     (let units = units_by_id (pub_knowledgeUnits p);
          changes = js_map (map (\<lambda>c. (ch_unitId c, c)) (pub_changes p));
          (identity, documentUnits) = validateUnitIdentities p changes 0 (pub_knowledgeUnits p) []
      in issue_when (MAX_PUBLICATION_BYTES < canonicalContractByteLength (json_of_publication p)) []
           ''publication exceeds the 16 MiB canonical limit'' @
         issue_when (pub_previousPublicationId p = Some (pub_publicationId p)) [PKey ''previousPublicationId'']
           ''publication cannot reference itself'' @
         sortedUniqueIssue (map ku_id (pub_knowledgeUnits p)) ''knowledge units'' @
         sortedUniqueIssue (map ch_unitId (pub_changes p)) ''publication changes'' @
         identity @
         validateScopes p documentUnits 0 (pub_knowledgeUnits p) [] @
         validateDeclaredChanges p units)"


section \<open>Validation of the facts of a unit\<close>

definition DOCUMENT_FACTS :: "fact_name list" where
  "DOCUMENT_FACTS = [Document_title, Document_media_type, Section_path, Section_label, Unit_kind,
     Structure_block_kinds, Structure_block_count, Keywords_derived]"

definition TABLE_FACTS :: "fact_name list" where
  "TABLE_FACTS = [Sql_schema, Sql_table, Sql_columns, Sql_column_types, Sql_primary_key,
     Sql_related_tables, Sql_approximate_row_count]"

definition OPERATION_FACTS :: "fact_name list" where
  "OPERATION_FACTS = [Http_operation_id, Http_summary, Http_request_schema_digest,
     Http_response_schema_digest, Http_auth_schemes]"

definition allowedFacts :: "unit_kind \<Rightarrow> fact_name list" where
  "allowedFacts kind =
     (if kind = TableUnit then TABLE_FACTS
      else if kind = OperationUnit then OPERATION_FACTS else DOCUMENT_FACTS)"

fun scalar_string :: "fact_scalar \<Rightarrow> string option" where
  "scalar_string (FactString s) = Some s"
| "scalar_string _ = None"

text \<open>The strings of an array value whose items are all strings.\<close>

fun string_items :: "fact_value \<Rightarrow> string list option" where
  "string_items (FactScalar _) = None"
| "string_items (FactList xs) =
     (if list_all (\<lambda>x. scalar_string x \<noteq> None) xs then Some (map (the \<circ> scalar_string) xs) else None)"

fun string_value :: "fact_value \<Rightarrow> string option" where
  "string_value (FactScalar x) = scalar_string x"
| "string_value (FactList _) = None"

definition decimal_value :: "string \<Rightarrow> nat" where
  "decimal_value s = foldl (\<lambda>n c. 10 * n + (code_unit c - 48)) 0 s"

text \<open>
  \<open>Number.isSafeInteger(value) && value >= 0\<close>: such a number renders as plain digits.
\<close>

fun isCountValue :: "fact_value \<Rightarrow> bool" where
  "isCountValue (FactScalar (FactNumber s)) =
     (s \<noteq> [] \<and> list_all is_digit_char s \<and> decimal_value s \<le> 9007199254740991)"
| "isCountValue _ = False"

text \<open>
  \<open>sortedStringArray\<close>: the sorted set of the items agrees with the items at each of its
  own positions.
\<close>

definition sortedStringArray :: "fact_value \<Rightarrow> bool" where
  "sortedStringArray value =
     (case string_items value of
        None \<Rightarrow> False
      | Some items \<Rightarrow> list_all (\<lambda>(a, b). a = b) (zip (sort (js_set items)) items))"

definition is_hex_lower_char :: "char \<Rightarrow> bool" where
  "is_hex_lower_char c \<longleftrightarrow> is_digit_char c \<or> 97 \<le> code_unit c \<and> code_unit c \<le> 102"

definition isSha256Text :: "string \<Rightarrow> bool" where
  "isSha256Text s \<longleftrightarrow>
     take 7 s = ''sha256:'' \<and> length (drop 7 s) = 64 \<and> list_all is_hex_lower_char (drop 7 s)"

definition factValue :: "fact_name \<Rightarrow> published_fact list \<Rightarrow> fact_value option" where
  "factValue name facts = map_option fact_value (List.find (\<lambda>f. fact_name f = name) facts)"

fun validateFactValueCoordinate ::
    "source_coordinate \<Rightarrow> published_fact list \<Rightarrow> published_fact \<Rightarrow> path_key list \<Rightarrow> contract_issue list" where
  "validateFactValueCoordinate (SqlTableCoordinate _ schema table columns) facts pf path =
     (let name = fact_name pf; value = fact_value pf in
      issue_when (name = Sql_schema \<and> string_value value \<noteq> Some schema) path
        ''SQL schema fact must match the coordinate'' @
      issue_when (name = Sql_table \<and> string_value value \<noteq> Some table) path
        ''SQL table fact must match the coordinate'' @
      issue_when (name = Sql_columns \<and>
          canonicalContractJson (json_of_value value) \<noteq> canonicalContractJson (json_texts columns)) path
        ''SQL column facts must match the coordinate'' @
      issue_when (name = Sql_column_types \<and>
          (case (string_items value, factValue Sql_columns facts) of
             (Some types, Some (FactList cols)) \<Rightarrow> length types \<noteq> length cols
           | _ \<Rightarrow> True)) path
        ''SQL column types must align with SQL columns'' @
      issue_when (name = Sql_primary_key \<and>
          (case string_items value of
             Some keys \<Rightarrow> list_ex (\<lambda>k. k \<notin> set columns) keys \<or> length (js_set keys) \<noteq> length keys
           | None \<Rightarrow> True)) path
        ''SQL primary key must contain unique coordinate columns'')"
| "validateFactValueCoordinate (HttpOperationCoordinate _ _ _ operationId _) facts pf path =
     issue_when (fact_name pf = Http_operation_id \<and>
         (case string_value (fact_value pf) of None \<Rightarrow> True | Some s \<Rightarrow> Some s \<noteq> operationId)) path
       ''HTTP operation ID fact must match the coordinate''"
| "validateFactValueCoordinate _ facts pf path = []"

definition validateFactValue :: "knowledge_unit \<Rightarrow> published_fact \<Rightarrow> nat \<Rightarrow> contract_issue list" where
  "validateFactValue unit pf index =
     (let name = fact_name pf; value = fact_value pf;
          path = [PKey ''facts'', PIndex index, PKey ''value'']
      in issue_when (name \<in> set [Document_title, Section_label, Http_operation_id, Http_summary, Sql_schema, Sql_table] \<and>
           (case string_value value of None \<Rightarrow> True | Some s \<Rightarrow> s = [])) path
           ''fact requires a non-empty string'' @
         issue_when (name = Document_media_type \<and>
           (case string_value value of None \<Rightarrow> True
            | Some s \<Rightarrow> s \<notin> set [''text/markdown'', ''text/plain'', ''application/pdf''])) path
           ''document media type is unsupported'' @
         issue_when (name = Unit_kind \<and>
           (case string_value value of None \<Rightarrow> True
            | Some s \<Rightarrow> s \<noteq> unit_kind_text (ku_kind unit) \<or> s \<notin> set [''document'', ''section'', ''segment''])) path
           ''unit.kind fact must match the document unit kind'' @
         issue_when (name \<in> set [Structure_block_count, Sql_approximate_row_count] \<and> \<not> isCountValue value) path
           ''count fact requires a non-negative safe integer'' @
         issue_when (name \<in> set [Structure_block_kinds, Keywords_derived, Sql_columns, Sql_related_tables, Http_auth_schemes] \<and>
           \<not> sortedStringArray value) path
           ''fact requires a sorted unique string array'' @
         issue_when (name = Section_path \<and>
           (case string_items value of None \<Rightarrow> True | Some items \<Rightarrow> [] \<in> set items)) path
           ''section path requires an ordered non-empty string array'' @
         issue_when (name \<in> set [Http_request_schema_digest, Http_response_schema_digest] \<and>
           (case string_value value of None \<Rightarrow> True | Some s \<Rightarrow> \<not> isSha256Text s)) path
           ''schema fact requires a SHA-256 digest'' @
         validateFactValueCoordinate (ku_coordinate unit) (ku_facts unit) pf path)"

definition validateFacts :: "knowledge_unit \<Rightarrow> contract_issue list" where
  "validateFacts unit =
     sortedUniqueIssue (map (fact_name_text \<circ> fact_name) (ku_facts unit)) ''publication fact names'' @
     issue_when (MAX_PUBLICATION_FACT_BYTES < canonicalContractByteLength (json_of_facts (ku_facts unit)))
       [PKey ''facts''] ''publication facts exceed the 16 KiB canonical limit'' @
     concat (map (\<lambda>(i, pf).
       issue_when (fact_name pf \<notin> set (allowedFacts (ku_kind unit)))
         [PKey ''facts'', PIndex i, PKey ''name'']
         (''fact '' @ fact_name_text (fact_name pf) @ '' is not allowed for '' @ unit_kind_text (ku_kind unit)) @
       validateFactValue unit pf i) (enumerated (ku_facts unit)))"

definition validateUniquePublishedScopeRefs :: "published_scope list \<Rightarrow> contract_issue list" where
  "validateUniquePublishedScopeRefs scopes =
     sortedUniqueIssue (map (scope_key \<circ> ps_reference) scopes) ''published scope revisions''"

definition validateKnowledgeUnit :: "(string \<Rightarrow> string) \<Rightarrow> knowledge_unit \<Rightarrow> contract_issue list" where
  "validateKnowledgeUnit sha256 unit =
     validateFacts unit @ validateUniquePublishedScopeRefs (ku_scopes unit) @
     issue_when (ku_contentDigest unit \<noteq> computePublishedKnowledgeUnitDigest sha256 unit)
       [PKey ''contentDigest''] ''content digest must match publication-unit-v2''"

section \<open>Column groups of SQL scope producers\<close>

text \<open>The characters \<open>UnsafeCoordinateCharacters\<close> excludes, among the code units here.\<close>

definition is_unsafe_coordinate_char :: "char \<Rightarrow> bool" where
  "is_unsafe_coordinate_char c \<longleftrightarrow> code_unit c \<le> 31 \<or> 127 \<le> code_unit c \<and> code_unit c \<le> 159"

definition coordinateText :: "nat \<Rightarrow> string \<Rightarrow> bool" where
  "coordinateText bound value \<longleftrightarrow>
     1 \<le> length value \<and> length value \<le> bound \<and> list_all (\<lambda>c. \<not> is_unsafe_coordinate_char c) value"

text \<open>The loop \<open>for (offset = 0; offset < sorted.length; offset += size)\<close> over slices.\<close>

function chunks_of :: "nat \<Rightarrow> 'a list \<Rightarrow> 'a list list" where
  "chunks_of n xs = (if xs = [] \<or> n = 0 then [] else take n xs # chunks_of n (drop n xs))"
  by pat_completeness auto
termination
  by (relation "measure (\<lambda>(n, xs). length xs)") auto

declare chunks_of.simps [simp del]

datatype type_error = TypeError string

definition groupPublishedSqlColumns :: "string list \<Rightarrow> type_error + string list list" where
  "groupPublishedSqlColumns columns =
     (if columns = [] \<or> MAX_SQL_COORDINATE_COLUMNS < length columns
      then Inl (TypeError ''SQL coordinate column count is outside the supported range'')
      else (let sorted_columns = sort columns in
        if length (js_set sorted_columns) \<noteq> length sorted_columns \<or>
           list_ex (\<lambda>c. \<not> coordinateText 256 c) sorted_columns
        then Inl (TypeError ''SQL coordinate columns must be unique safe names'')
        else Inr (chunks_of MAX_SCOPE_SET_SIZE sorted_columns)))"

end
