(* ===== verification/Retrieval_Scope.thy ===== *)
theory Retrieval_Scope
  imports Contracts
begin

text \<open>
  \<open>packages/registry-lifecycle/src/domain/retrieval-scope.ts\<close>: the search range a Card
  points at, owned by Registry, and its translation from a published scope.
\<close>

datatype retrieval_scope =
    ManagedDocumentScope scope_ref document_index_ref document_selector
  | SqlSourceScope scope_ref string string string "string list"
  | HttpSourceScope scope_ref string string string "string option" "http_parameter_ref list"

fun rs_reference :: "retrieval_scope \<Rightarrow> scope_ref" where
  "rs_reference (ManagedDocumentScope r _ _) = r"
| "rs_reference (SqlSourceScope r _ _ _ _) = r"
| "rs_reference (HttpSourceScope r _ _ _ _ _) = r"

fun scope_kind_text :: "retrieval_scope \<Rightarrow> string" where
  "scope_kind_text (ManagedDocumentScope _ _ _) = ''managed_document''"
| "scope_kind_text (SqlSourceScope _ _ _ _ _) = ''sql_source''"
| "scope_kind_text (HttpSourceScope _ _ _ _ _ _) = ''http_source''"

fun coordinate_kind_text :: "source_coordinate \<Rightarrow> string" where
  "coordinate_kind_text (DocumentCoordinate _ _ _) = ''document''"
| "coordinate_kind_text (SqlTableCoordinate _ _ _ _) = ''sql_table''"
| "coordinate_kind_text (HttpOperationCoordinate _ _ _ _ _) = ''http_operation''"

fun translatePublishedScope :: "published_scope \<Rightarrow> retrieval_scope" where
  "translatePublishedScope (PublishedDocumentScope r d selector) =
     ManagedDocumentScope
       \<lparr>scopeId = scopeId r, scopeVersion = scopeVersion r\<rparr>
       \<lparr>di_documentIndexId = di_documentIndexId d, di_sourceId = di_sourceId d,
        di_documentId = di_documentId d, di_indexVersion = di_indexVersion d\<rparr>
       (case selector of WholeDocument \<Rightarrow> WholeDocument | SemanticUnits ids \<Rightarrow> SemanticUnits ids)"
| "translatePublishedScope (PublishedSqlScope r connector schema table columns) =
     SqlSourceScope \<lparr>scopeId = scopeId r, scopeVersion = scopeVersion r\<rparr> connector schema table columns"
| "translatePublishedScope (PublishedHttpScope r connector meth path operationId parameters) =
     HttpSourceScope \<lparr>scopeId = scopeId r, scopeVersion = scopeVersion r\<rparr> connector meth path operationId parameters"

text \<open>Nothing a query depends on is lost: the translation keeps the reference and is injective.\<close>

lemma translate_reference [simp]: "rs_reference (translatePublishedScope s) = ps_reference s"
  by (cases s) auto

lemma translatePublishedScope_inj: "inj translatePublishedScope"
proof (rule injI)
  fix a b
  assume "translatePublishedScope a = translatePublishedScope b"
  then show "a = b"
    by (cases a; cases b) (auto split: document_selector.splits)
qed

fun json_of_retrieval_scope :: "retrieval_scope \<Rightarrow> json" where
  "json_of_retrieval_scope (ManagedDocumentScope r d sel) = JObj
     [(''kind'', Some (JStr ''managed_document'')),
      (''reference'', Some (JObj [(''scopeId'', Some (JStr (scopeId r))), (''scopeVersion'', Some (JStr (scopeVersion r)))])),
      (''documentIndex'', Some (json_of_document_index d)),
      (''selection'', Some (json_of_selector sel))]"
| "json_of_retrieval_scope (SqlSourceScope r connector schema table columns) = JObj
     [(''kind'', Some (JStr ''sql_source'')),
      (''reference'', Some (JObj [(''scopeId'', Some (JStr (scopeId r))), (''scopeVersion'', Some (JStr (scopeVersion r)))])),
      (''connector'', Some (JStr connector)), (''schema'', Some (JStr schema)),
      (''table'', Some (JStr table)), (''columns'', Some (json_texts columns))]"
| "json_of_retrieval_scope (HttpSourceScope r connector meth path operationId parameters) = JObj
     [(''kind'', Some (JStr ''http_source'')),
      (''reference'', Some (JObj [(''scopeId'', Some (JStr (scopeId r))), (''scopeVersion'', Some (JStr (scopeVersion r)))])),
      (''connector'', Some (JStr connector)), (''method'', Some (JStr meth)),
      (''path'', Some (JStr path)), (''operationId'', map_option JStr operationId),
      (''parameters'', Some (json_of_parameters parameters))]"

end
