(* ===== verification/Card_Version.thy ===== *)
theory Card_Version
  imports Retrieval_Scope
begin

text \<open>
  The Card and its append-only version history: \<open>domain/card-version.ts\<close>,
  \<open>context-card.ts\<close>, \<open>card-meaning.ts\<close>, \<open>lineage.ts\<close>, \<open>lifecycle-event.ts\<close>,
  \<open>card-review-state.ts\<close>, \<open>card-catalog.ts\<close>, \<open>errors.ts\<close> and the report types of
  \<open>fact-grounding.ts\<close> and \<open>card-impact.ts\<close> that versions and events carry.
\<close>

section \<open>Errors\<close>

datatype registry_error =
    CardVersionInvariantError string
  | ScopeReachabilityInvariantError string
  | PublicationNotFoundError string
  | CardNotFoundError string
  | RegistryFailure string
  | SqliteConstraintError string

section \<open>Meaning, grounding report and lineage\<close>

record card_meaning =
  cm_description :: string
  cm_representativeQuestions :: "string list"
  cm_aliases :: "string list"
  cm_keywords :: "string list"

datatype meaning_generator = Deterministic | Model

record meaning_origin =
  mo_generator :: meaning_generator
  mo_model :: "string option"
  mo_fallbackFromModel :: "string option"

datatype severity = Fatal | Review

record grounding_finding =
  gf_rule :: string
  gf_message :: string
  gf_severity :: severity

record fact_coverage =
  fc_covered :: "fact_name list"
  fc_uncovered :: "fact_name list"

datatype grounding_verdict = VerdictValidated | VerdictRejected | VerdictNeedsReview

record grounding_report =
  gr_verdict :: grounding_verdict
  gr_findings :: "grounding_finding list"
  gr_factCoverage :: fact_coverage
  gr_origin :: meaning_origin

record card_lineage =
  ln_publicationId :: string
  ln_observationId :: string
  ln_knowledgeUnitId :: string

section \<open>Versions and their history\<close>

datatype validation_state = Draft | Validated | Rejected

fun validation_state_text :: "validation_state \<Rightarrow> string" where
  "validation_state_text Draft = ''draft''"
| "validation_state_text Validated = ''validated''"
| "validation_state_text Rejected = ''rejected''"

datatype meaning_field = Description | RepresentativeQuestions | Aliases | Keywords

record meaning_change =
  mc_previousVersionId :: string
  mc_changedFields :: "meaning_field list"
  mc_coverageLost :: "fact_name list"
  mc_coverageGained :: "fact_name list"

record card_version =
  cv_id :: string
  cv_cardId :: string
  cv_lineage :: card_lineage
  cv_scopes :: "retrieval_scope list"
  cv_validationState :: validation_state
  cv_createdAt :: string
  cv_meaning :: "card_meaning option"
  cv_grounding :: "grounding_report option"
  cv_changeFromPrevious :: "meaning_change option"

record version_history =
  vh_cardId :: string
  vh_versions :: "card_version list"
  vh_currentVersionId :: "string option"

definition createCardVersionHistory :: "string \<Rightarrow> version_history" where
  "createCardVersionHistory cardId =
     \<lparr>vh_cardId = cardId, vh_versions = [], vh_currentVersionId = None\<rparr>"

definition appendCardVersion :: "version_history \<Rightarrow> card_version \<Rightarrow> registry_error + version_history" where
  "appendCardVersion history version =
     (if cv_cardId version \<noteq> vh_cardId history
      then Inl (CardVersionInvariantError
             (''card version '' @ cv_id version @ '' does not belong to card '' @ vh_cardId history))
      else if list_ex (\<lambda>existing. cv_id existing = cv_id version) (vh_versions history)
      then Inl (CardVersionInvariantError
             (''card version '' @ cv_id version @ '' already exists and cannot be replaced''))
      else Inr (history\<lparr>vh_versions := vh_versions history @ [version]\<rparr>))"

definition promoteCardVersion :: "version_history \<Rightarrow> string \<Rightarrow> registry_error + version_history" where
  "promoteCardVersion history versionId =
     (case List.find (\<lambda>version. cv_id version = versionId) (vh_versions history) of
        None \<Rightarrow> Inl (CardVersionInvariantError
             (''card version '' @ versionId @ '' is not part of card '' @ vh_cardId history @ '' history''))
      | Some target \<Rightarrow>
          (if cv_validationState target \<noteq> Validated
           then Inl (CardVersionInvariantError
             (''card version '' @ versionId @ '' has validation state '' @
              validation_state_text (cv_validationState target) @ '' and cannot become current''))
           else Inr (history\<lparr>vh_currentVersionId := Some (cv_id target)\<rparr>)))"

definition withdrawCurrentVersion :: "version_history \<Rightarrow> version_history" where
  "withdrawCurrentVersion history = history\<lparr>vh_currentVersionId := None\<rparr>"

definition precedesCurrentCardVersion :: "version_history \<Rightarrow> string \<Rightarrow> bool" where
  "precedesCurrentCardVersion history versionId =
     (case vh_currentVersionId history of
        None \<Rightarrow> False
      | Some currentId \<Rightarrow>
          (case (find_index (\<lambda>v. cv_id v = versionId) (vh_versions history),
                 find_index (\<lambda>v. cv_id v = currentId) (vh_versions history)) of
             (Some target, Some current) \<Rightarrow> target < current
           | _ \<Rightarrow> False))"

text \<open>
  \<open>JSON.stringify\<close> of a string or of an array of strings is injective, so comparing two
  renderings of a meaning field is comparing its two values.
\<close>

definition meaning_field_differs :: "card_meaning \<Rightarrow> card_meaning \<Rightarrow> meaning_field \<Rightarrow> bool" where
  "meaning_field_differs previous next_meaning field =
     (case field of
        Description \<Rightarrow> cm_description previous \<noteq> cm_description next_meaning
      | RepresentativeQuestions \<Rightarrow>
          cm_representativeQuestions previous \<noteq> cm_representativeQuestions next_meaning
      | Aliases \<Rightarrow> cm_aliases previous \<noteq> cm_aliases next_meaning
      | Keywords \<Rightarrow> cm_keywords previous \<noteq> cm_keywords next_meaning)"

definition covered_names :: "card_version \<Rightarrow> fact_name list" where
  "covered_names version =
     (case cv_grounding version of
        None \<Rightarrow> [] | Some report \<Rightarrow> js_set (fc_covered (gr_factCoverage report)))"

definition compareCardVersionMeaning :: "card_version \<Rightarrow> card_version \<Rightarrow> meaning_change option" where
  "compareCardVersionMeaning previous next_version =
     (case (cv_meaning previous, cv_meaning next_version) of
        (Some a, Some b) \<Rightarrow>
          (let coveredBefore = covered_names previous; coveredAfter = covered_names next_version in
           Some \<lparr>mc_previousVersionId = cv_id previous,
                 mc_changedFields = filter (meaning_field_differs a b)
                   [Description, RepresentativeQuestions, Aliases, Keywords],
                 mc_coverageLost = filter (\<lambda>name. name \<notin> set coveredAfter) coveredBefore,
                 mc_coverageGained = filter (\<lambda>name. name \<notin> set coveredBefore) coveredAfter\<rparr>)
      | _ \<Rightarrow> None)"

text \<open>With no current pointer the lookup compares every id with \<open>undefined\<close> and finds nothing.\<close>

definition getCurrentCardVersion :: "version_history \<Rightarrow> card_version option" where
  "getCurrentCardVersion history =
     List.find (\<lambda>version. Some (cv_id version) = vh_currentVersionId history) (vh_versions history)"

section \<open>Cards\<close>

record card_policy =
  cp_sensitive :: bool
  cp_allowedUsage :: "string list"

record context_card =
  cc_id :: string
  cc_meaning :: card_meaning
  cc_policy :: card_policy
  cc_versions :: version_history

definition createContextCard :: "string \<Rightarrow> card_meaning \<Rightarrow> card_policy \<Rightarrow> context_card" where
  "createContextCard cardId meaning policy =
     \<lparr>cc_id = cardId, cc_meaning = meaning, cc_policy = policy,
      cc_versions = createCardVersionHistory cardId\<rparr>"

definition withCardVersions :: "context_card \<Rightarrow> version_history \<Rightarrow> context_card" where
  "withCardVersions crd versions = crd\<lparr>cc_versions := versions\<rparr>"

definition isCardApproved :: "context_card \<Rightarrow> bool" where
  "isCardApproved crd = (vh_currentVersionId (cc_versions crd) \<noteq> None)"

definition withCardMeaning :: "context_card \<Rightarrow> card_meaning \<Rightarrow> context_card" where
  "withCardMeaning crd meaning = crd\<lparr>cc_meaning := meaning\<rparr>"

section \<open>Lifecycle events\<close>

datatype impact_decision = NoImpact | ReviewImpact | BlockImpact | DisableImpact

record impact_reason =
  ir_rule :: string
  ir_message :: string

datatype event_body =
    CardVersionAdded string string
  | CardVersionPromoted string "string option" string "string option"
  | CardVersionRefused string string "string option"
  | CardWithdrawn "string option" string "string option"
  | CardImpactAssessed string impact_decision "impact_reason list"

record lifecycle_event =
  le_id :: string
  le_cardId :: string
  le_occurredAt :: string
  le_body :: event_body

definition recordLifecycleEvent :: "lifecycle_event list \<Rightarrow> lifecycle_event \<Rightarrow> lifecycle_event list" where
  "recordLifecycleEvent events event = events @ [event]"

definition lifecycleEventsForCard :: "lifecycle_event list \<Rightarrow> string \<Rightarrow> lifecycle_event list" where
  "lifecycleEventsForCard events cardId = filter (\<lambda>event. le_cardId event = cardId) events"

section \<open>The review queue\<close>

text \<open>
  The loop of \<open>pendingReviewCardVersionIds\<close> over the events: which versions are decided,
  and the greatest index of a promoted version (\<open>-1\<close> before any).
\<close>

definition review_step ::
    "version_history \<Rightarrow> (string \<times> nat) list \<Rightarrow> lifecycle_event \<Rightarrow> string list \<times> int \<Rightarrow> string list \<times> int" where
  "review_step history versionIndex event = (\<lambda>(decided, latestPromotedIndex).
     if le_cardId event \<noteq> vh_cardId history then (decided, latestPromotedIndex)
     else (case le_body event of
         CardVersionPromoted versionId _ _ _ \<Rightarrow>
           (set_add versionId decided,
            max latestPromotedIndex
              (case map_of versionIndex versionId of None \<Rightarrow> -1 | Some i \<Rightarrow> int i))
       | CardVersionRefused versionId _ _ \<Rightarrow> (set_add versionId decided, latestPromotedIndex)
       | _ \<Rightarrow> (decided, latestPromotedIndex)))"

definition index_or_minus_one :: "nat option \<Rightarrow> int" where
  "index_or_minus_one i = (case i of None \<Rightarrow> -1 | Some n \<Rightarrow> int n)"

definition pendingReviewCardVersionIds :: "version_history \<Rightarrow> lifecycle_event list \<Rightarrow> string list" where
  "pendingReviewCardVersionIds history events =
     (let versionIndex = js_map (map (\<lambda>(i, v). (cv_id v, i)) (enumerated (vh_versions history)));
          (decided, latestPromotedIndex) = fold (review_step history versionIndex) events ([], -1);
          currentIndex = index_or_minus_one
            (find_index (\<lambda>v. Some (cv_id v) = vh_currentVersionId history) (vh_versions history));
          reviewedThrough = max currentIndex latestPromotedIndex
      in map (cv_id \<circ> snd)
           (filter (\<lambda>(i, v). cv_validationState v = Validated \<and> cv_id v \<notin> set decided \<and>
                Some (cv_id v) \<noteq> vh_currentVersionId history \<and> reviewedThrough < int i)
             (enumerated (vh_versions history))))"

section \<open>The approved catalog\<close>

record catalog_entry =
  ce_cardId :: string
  ce_versionId :: string
  ce_meaning :: card_meaning
  ce_policy :: card_policy
  ce_scopes :: "retrieval_scope list"

definition toCardCatalogEntry :: "context_card \<Rightarrow> catalog_entry option" where
  "toCardCatalogEntry crd =
     (case getCurrentCardVersion (cc_versions crd) of
        None \<Rightarrow> None
      | Some current \<Rightarrow> Some
          \<lparr>ce_cardId = cc_id crd, ce_versionId = cv_id current, ce_meaning = cc_meaning crd,
           ce_policy = cc_policy crd, ce_scopes = cv_scopes current\<rparr>)"

definition json_of_entry :: "catalog_entry \<Rightarrow> json" where
  "json_of_entry e = JObj
     [(''cardId'', Some (JStr (ce_cardId e))), (''versionId'', Some (JStr (ce_versionId e))),
      (''meaning'', Some (JObj
         [(''description'', Some (JStr (cm_description (ce_meaning e)))),
          (''representativeQuestions'', Some (json_texts (cm_representativeQuestions (ce_meaning e)))),
          (''aliases'', Some (json_texts (cm_aliases (ce_meaning e)))),
          (''keywords'', Some (json_texts (cm_keywords (ce_meaning e))))])),
      (''policy'', Some (JObj
         [(''sensitive'', Some (JBool (cp_sensitive (ce_policy e)))),
          (''allowedUsage'', Some (json_texts (cp_allowedUsage (ce_policy e))))])),
      (''scopes'', Some (JArr (map json_of_retrieval_scope (ce_scopes e))))]"

definition json_of_entries :: "catalog_entry list \<Rightarrow> json" where
  "json_of_entries es = JArr (map json_of_entry es)"

definition computeCatalogSnapshotVersion :: "(string \<Rightarrow> string) \<Rightarrow> catalog_entry list \<Rightarrow> string" where
  "computeCatalogSnapshotVersion sha256 cards =
     ''sha256:'' @ sha256 (canonicalContractJson (json_of_entries (sort_key ce_cardId cards)))"

record catalog_snapshot =
  cs_catalogSnapshotVersion :: string
  cs_cards :: "catalog_entry list"

definition toApprovedCardCatalogSnapshot :: "(string \<Rightarrow> string) \<Rightarrow> catalog_entry list \<Rightarrow> catalog_snapshot" where
  "toApprovedCardCatalogSnapshot sha256 cards =
     \<lparr>cs_catalogSnapshotVersion = computeCatalogSnapshotVersion sha256 cards, cs_cards = cards\<rparr>"

record snapshot_limits =
  sl_cards :: nat
  sl_canonicalBytes :: nat
  sl_token :: nat

definition SNAPSHOT_LIMITS :: snapshot_limits where
  "SNAPSHOT_LIMITS = \<lparr>sl_cards = 10000, sl_canonicalBytes = 64 * 1024 * 1024, sl_token = 256\<rparr>"

definition fatal_finding :: "string \<Rightarrow> string \<Rightarrow> grounding_finding" where
  "fatal_finding rule message = \<lparr>gf_rule = rule, gf_message = message, gf_severity = Fatal\<rparr>"

text \<open>
  The message of an over-long token abbreviates it to 32 code units and an ellipsis
  (U+2026, written here as three dots).
\<close>

definition checkCatalogSnapshotLimits :: "catalog_entry list \<Rightarrow> grounding_finding list" where
  "checkCatalogSnapshotLimits cards =
     (if sl_cards SNAPSHOT_LIMITS < length cards
      then [fatal_finding ''catalog.cardCount''
              (''catalog would hold '' @ show_nat (length cards) @ '' cards, over the '' @
               show_nat (sl_cards SNAPSHOT_LIMITS) @ '' allowed by approved-card-read-v1'')]
      else []) @
     (let bytes = canonicalContractByteLength (json_of_entries cards) in
      if sl_canonicalBytes SNAPSHOT_LIMITS < bytes
      then [fatal_finding ''catalog.canonicalBytes''
              (''catalog canonical JSON would be '' @ show_nat bytes @ '' bytes, over the '' @
               show_nat (sl_canonicalBytes SNAPSHOT_LIMITS) @ '' allowed by approved-card-read-v1'')]
      else []) @
     concat (map (\<lambda>crd. concat (map (\<lambda>token.
         if sl_token SNAPSHOT_LIMITS < length token
         then [fatal_finding ''catalog.token''
                 (take 32 token @ ''... is '' @ show_nat (length token) @ '' code units, over the '' @
                  show_nat (sl_token SNAPSHOT_LIMITS) @ '' allowed by approved-card-read-v1'')]
         else [])
       [ce_cardId crd, ce_versionId crd])) cards)"


section \<open>The shape of a history, and what each operation does to it\<close>

definition history_wf :: "version_history \<Rightarrow> bool" where
  "history_wf h \<longleftrightarrow>
     (\<forall>v \<in> set (vh_versions h). cv_cardId v = vh_cardId h) \<and>
     distinct (map cv_id (vh_versions h)) \<and>
     (\<forall>i. vh_currentVersionId h = Some i \<longrightarrow>
        (\<exists>v \<in> set (vh_versions h). cv_id v = i \<and> cv_validationState v = Validated))"

lemma history_wf_create [simp]: "history_wf (createCardVersionHistory cardId)"
  by (simp add: history_wf_def createCardVersionHistory_def)

lemma appendCardVersion_eq_Inr:
  "appendCardVersion h v = Inr h' \<longleftrightarrow>
     cv_cardId v = vh_cardId h \<and> cv_id v \<notin> cv_id ` set (vh_versions h) \<and>
     h' = h\<lparr>vh_versions := vh_versions h @ [v]\<rparr>"
  unfolding appendCardVersion_def list_ex_iff image_iff by force

lemma promoteCardVersion_eq_Inr:
  "promoteCardVersion h i = Inr h' \<longleftrightarrow>
     (\<exists>v. List.find (\<lambda>v. cv_id v = i) (vh_versions h) = Some v \<and> cv_validationState v = Validated) \<and>
     h' = h\<lparr>vh_currentVersionId := Some i\<rparr>"
  by (auto simp: promoteCardVersion_def split: option.splits if_splits dest: find_Some_set)

lemma history_wf_append [inv_rules]:
  "history_wf h \<Longrightarrow> appendCardVersion h v = Inr h' \<Longrightarrow> history_wf h'"
  by (auto simp: history_wf_def appendCardVersion_eq_Inr)

lemma history_wf_promote [inv_rules]:
  "history_wf h \<Longrightarrow> promoteCardVersion h i = Inr h' \<Longrightarrow> history_wf h'"
  by (auto simp: history_wf_def promoteCardVersion_eq_Inr dest: find_Some_set)

lemma history_wf_withdraw [inv_rules]: "history_wf h \<Longrightarrow> history_wf (withdrawCurrentVersion h)"
  by (auto simp: history_wf_def withdrawCurrentVersion_def)

lemma find_version_distinct:
  "distinct (map cv_id vs) \<Longrightarrow> v \<in> set vs \<Longrightarrow> List.find (\<lambda>w. cv_id w = cv_id v) vs = Some v"
proof (induction vs)
  case Nil
  then show ?case by simp
next
  case (Cons w vs)
  then show ?case by (auto simp: image_iff)
qed

lemma getCurrentCardVersion_eq_Some:
  assumes "history_wf h"
  shows "getCurrentCardVersion h = Some v \<longleftrightarrow>
           v \<in> set (vh_versions h) \<and> vh_currentVersionId h = Some (cv_id v)"
proof
  assume "getCurrentCardVersion h = Some v"
  then show "v \<in> set (vh_versions h) \<and> vh_currentVersionId h = Some (cv_id v)"
    unfolding getCurrentCardVersion_def by (auto dest: find_Some_set)
next
  assume v: "v \<in> set (vh_versions h) \<and> vh_currentVersionId h = Some (cv_id v)"
  have "distinct (map cv_id (vh_versions h))" using assms by (simp add: history_wf_def)
  then show "getCurrentCardVersion h = Some v"
    using v find_version_distinct [of "vh_versions h" v]
    by (simp add: getCurrentCardVersion_def eq_commute)
qed

text \<open>A current pointer always resolves, to a validated version of the same Card.\<close>

lemma current_resolves:
  assumes "history_wf h" and "vh_currentVersionId h = Some i"
  shows "\<exists>v. getCurrentCardVersion h = Some v \<and> cv_id v = i \<and> cv_validationState v = Validated \<and>
             cv_cardId v = vh_cardId h"
  using assms getCurrentCardVersion_eq_Some [OF assms(1)] unfolding history_wf_def by metis

lemma getCurrent_None [simp]: "vh_currentVersionId h = None \<Longrightarrow> getCurrentCardVersion h = None"
  by (simp add: getCurrentCardVersion_def find_None_set)

lemma getCurrent_withdraw [simp]: "getCurrentCardVersion (withdrawCurrentVersion h) = None"
  by (simp add: withdrawCurrentVersion_def)

section \<open>The review queue, characterised\<close>

definition promoted_in :: "version_history \<Rightarrow> lifecycle_event list \<Rightarrow> string \<Rightarrow> bool" where
  "promoted_in h events i \<longleftrightarrow>
     (\<exists>e \<in> set events. le_cardId e = vh_cardId h \<and> (\<exists>p d n. le_body e = CardVersionPromoted i p d n))"

definition refused_in :: "version_history \<Rightarrow> lifecycle_event list \<Rightarrow> string \<Rightarrow> bool" where
  "refused_in h events i \<longleftrightarrow>
     (\<exists>e \<in> set events. le_cardId e = vh_cardId h \<and> (\<exists>d n. le_body e = CardVersionRefused i d n))"

lemma promoted_in_Cons [simp]:
  "promoted_in h (e # es) i \<longleftrightarrow>
     (le_cardId e = vh_cardId h \<and> (\<exists>p d n. le_body e = CardVersionPromoted i p d n)) \<or> promoted_in h es i"
  by (auto simp: promoted_in_def)

lemma refused_in_Cons [simp]:
  "refused_in h (e # es) i \<longleftrightarrow>
     (le_cardId e = vh_cardId h \<and> (\<exists>d n. le_body e = CardVersionRefused i d n)) \<or> refused_in h es i"
  by (auto simp: refused_in_def)

lemma decided_Nil [simp]: "\<not> promoted_in h [] i" "\<not> refused_in h [] i"
  by (auto simp: promoted_in_def refused_in_def)

lemma review_fold:
  assumes "fold (review_step h idx) events (d, l) = (d', l')"
  shows "set d' = set d \<union> {i. promoted_in h events i \<or> refused_in h events i} \<and>
    (\<forall>k. l' < k \<longleftrightarrow> l < k \<and> (\<forall>i. promoted_in h events i \<longrightarrow>
           (case map_of idx i of None \<Rightarrow> -1 | Some n \<Rightarrow> int n) < k))"
  using assms
proof (induction events arbitrary: d l)
  case Nil
  then show ?case by simp
next
  case (Cons e es)
  obtain d1 l1 where s: "review_step h idx e (d, l) = (d1, l1)" by force
  then have tail: "fold (review_step h idx) es (d1, l1) = (d', l')"
    using Cons.prems by simp
  have "set d1 = set d \<union> {i. promoted_in h [e] i \<or> refused_in h [e] i} \<and>
    (\<forall>k. l1 < k \<longleftrightarrow> l < k \<and> (\<forall>i. promoted_in h [e] i \<longrightarrow>
           (case map_of idx i of None \<Rightarrow> -1 | Some n \<Rightarrow> int n) < k))"
    using s by (auto simp: review_step_def split: if_splits event_body.splits)
  then show ?case using Cons.IH [OF tail] by auto
qed

lemma enumerated_nth: "(i, x) \<in> set (enumerated xs) \<longleftrightarrow> i < length xs \<and> xs ! i = x"
  by (auto simp: enumerated_def in_set_zip intro!: exI [of _ i])

lemma map_snd_enumerated [simp]: "map snd (enumerated xs) = xs"
  by (simp add: enumerated_def)

lemma versionIndex_lookup:
  assumes "distinct (map cv_id vs)"
  shows "map_of (js_map (map (\<lambda>(i, v). (cv_id v, i)) (enumerated vs))) k = Some n \<longleftrightarrow>
           n < length vs \<and> cv_id (vs ! n) = k"
proof -
  let ?kvs = "map (\<lambda>(i, v). (cv_id v, i)) (enumerated vs)"
  have "map fst ?kvs = map cv_id (map snd (enumerated vs))"
    by (simp add: case_prod_beta comp_def del: map_snd_enumerated)
  then have fst: "map fst ?kvs = map cv_id vs" by simp
  have "map_of (js_map ?kvs) k = map_of ?kvs k"
    using assms fst by (simp add: map_of_js_map map_of_rev_distinct)
  also have "\<dots> = Some n \<longleftrightarrow> (k, n) \<in> set ?kvs"
    using assms fst by (simp add: map_of_eq_Some_iff)
  also have "\<dots> \<longleftrightarrow> (\<exists>v. (n, v) \<in> set (enumerated vs) \<and> cv_id v = k)"
    by force
  also have "\<dots> \<longleftrightarrow> n < length vs \<and> cv_id (vs ! n) = k"
    by (auto simp: enumerated_nth)
  finally show ?thesis .
qed


lemma latest_promoted_less:
  assumes "distinct (map cv_id vs)"
  shows "(\<forall>i. P i \<longrightarrow>
      (case map_of (js_map (map (\<lambda>(i, v). (cv_id v, i)) (enumerated vs))) i of
         None \<Rightarrow> -1 | Some m \<Rightarrow> int m) < int n) \<longleftrightarrow>
    (\<forall>m < length vs. P (cv_id (vs ! m)) \<longrightarrow> m < n)"
  (is "?lhs \<longleftrightarrow> ?rhs")
proof
  assume l: ?lhs
  show ?rhs
  proof (intro allI impI)
    fix m assume "m < length vs" "P (cv_id (vs ! m))"
    then show "m < n" using l [rule_format, of "cv_id (vs ! m)"]
      versionIndex_lookup [OF assms, of "cv_id (vs ! m)" m] by simp
  qed
next
  assume r: ?rhs
  show ?lhs
  proof (intro allI impI)
    fix i assume "P i"
    then show "(case map_of (js_map (map (\<lambda>(i, v). (cv_id v, i)) (enumerated vs))) i of
         None \<Rightarrow> -1 | Some m \<Rightarrow> int m) < int n"
      using r versionIndex_lookup [OF assms, of i] by (auto split: option.split)
  qed
qed

lemma all_before_iff:
  fixes n :: nat
  assumes "n < L" and "\<not> P n"
  shows "(\<forall>m < L. P m \<longrightarrow> m < n) \<longleftrightarrow> (\<forall>m < L. n < m \<longrightarrow> \<not> P m)"
  using assms by (metis linorder_neqE_nat not_less_iff_gr_or_eq)

lemma current_index_less:
  assumes "distinct (map cv_id vs)"
  shows "index_or_minus_one (find_index (\<lambda>v. Some (cv_id v) = cur) vs) < int n \<longleftrightarrow>
      (\<forall>m < length vs. cur = Some (cv_id (vs ! m)) \<longrightarrow> m < n)"
proof (cases "find_index (\<lambda>v. Some (cv_id v) = cur) vs")
  case None
  have "\<forall>m < length vs. cur \<noteq> Some (cv_id (vs ! m))"
    using None unfolding find_index_None by (auto dest: nth_mem)
  then show ?thesis using None by (simp add: index_or_minus_one_def)
next
  case (Some k)
  then have k: "k < length vs" "cur = Some (cv_id (vs ! k))"
    unfolding find_index_Some by auto
  have eq: "m = k" if "m < length vs" "cur = Some (cv_id (vs ! m))" for m
    using nth_eq_iff_index_eq [OF assms, of m k] that k by simp
  have "(\<forall>m < length vs. cur = Some (cv_id (vs ! m)) \<longrightarrow> m < n) \<longleftrightarrow> k < n"
    using k eq by blast
  then show ?thesis using Some by (simp add: index_or_minus_one_def)
qed

lemma pending_mem:
  assumes "fold (review_step h (js_map (map (\<lambda>(i, v). (cv_id v, i)) (enumerated (vh_versions h))))) events ([], -1) = (d, l)"
  shows "i \<in> set (pendingReviewCardVersionIds h events) \<longleftrightarrow>
     (\<exists>n < length (vh_versions h).
        cv_id (vh_versions h ! n) = i \<and> cv_validationState (vh_versions h ! n) = Validated \<and>
        i \<notin> set d \<and> Some i \<noteq> vh_currentVersionId h \<and>
        index_or_minus_one (find_index (\<lambda>v. Some (cv_id v) = vh_currentVersionId h) (vh_versions h)) < int n \<and>
        l < int n)"
  unfolding pendingReviewCardVersionIds_def Let_def assms case_prod_conv
  by (auto simp: enumerated_nth image_iff Bex_def)

lemma pending_characterised:
  assumes "history_wf h"
  shows "i \<in> set (pendingReviewCardVersionIds h events) \<longleftrightarrow>
     (\<exists>n < length (vh_versions h).
        cv_id (vh_versions h ! n) = i \<and> cv_validationState (vh_versions h ! n) = Validated \<and>
        \<not> promoted_in h events i \<and> \<not> refused_in h events i \<and> vh_currentVersionId h \<noteq> Some i \<and>
        (\<forall>m < length (vh_versions h). n < m \<longrightarrow>
           \<not> promoted_in h events (cv_id (vh_versions h ! m)) \<and>
           vh_currentVersionId h \<noteq> Some (cv_id (vh_versions h ! m))))"
proof -
  let ?vs = "vh_versions h"
  let ?idx = "js_map (map (\<lambda>(i, v). (cv_id v, i)) (enumerated ?vs))"
  have dist: "distinct (map cv_id ?vs)" using assms by (simp add: history_wf_def)
  obtain d l where f: "fold (review_step h ?idx) events ([], -1) = (d, l)" by force
  have d: "j \<in> set d \<longleftrightarrow> promoted_in h events j \<or> refused_in h events j" for j
    using review_fold [OF f] by simp
  have l: "l < int n \<longleftrightarrow> (\<forall>m < length ?vs. promoted_in h events (cv_id (?vs ! m)) \<longrightarrow> m < n)" for n
    using review_fold [OF f] latest_promoted_less [OF dist, of "promoted_in h events" n] by simp
  have swap: "(\<forall>m < length ?vs. vh_currentVersionId h = Some (cv_id (?vs ! m)) \<longrightarrow> m < n) \<and>
      (\<forall>m < length ?vs. promoted_in h events (cv_id (?vs ! m)) \<longrightarrow> m < n) \<longleftrightarrow>
      (\<forall>m < length ?vs. n < m \<longrightarrow> \<not> promoted_in h events (cv_id (?vs ! m)) \<and>
         vh_currentVersionId h \<noteq> Some (cv_id (?vs ! m)))"
    if "n < length ?vs" "cv_id (?vs ! n) = i" "\<not> promoted_in h events i"
       "vh_currentVersionId h \<noteq> Some i" for n
    using that all_before_iff [of n "length ?vs" "\<lambda>m. vh_currentVersionId h = Some (cv_id (?vs ! m))"]
      all_before_iff [of n "length ?vs" "\<lambda>m. promoted_in h events (cv_id (?vs ! m))"] by auto
  show ?thesis
    unfolding pending_mem [OF f] d l current_index_less [OF dist]
    by (rule ex_cong1) (use swap in \<open>auto simp del: not_Some_eq\<close>)
qed

text \<open>
  The review queue holds exactly the validated versions of the Card that nobody promoted
  or refused, that are not serving, and that no promoted or serving version follows in
  append order (or equals).
\<close>

theorem pendingReviewCardVersionIds_spec:
  assumes "history_wf h"
  shows "i \<in> set (pendingReviewCardVersionIds h events) \<longleftrightarrow>
     (\<exists>n < length (vh_versions h).
        cv_id (vh_versions h ! n) = i \<and> cv_validationState (vh_versions h ! n) = Validated \<and>
        \<not> promoted_in h events i \<and> \<not> refused_in h events i \<and> vh_currentVersionId h \<noteq> Some i \<and>
        (\<forall>m < length (vh_versions h). n < m \<longrightarrow>
           \<not> promoted_in h events (cv_id (vh_versions h ! m)) \<and>
           vh_currentVersionId h \<noteq> Some (cv_id (vh_versions h ! m))))"
  by (rule pending_characterised [OF assms])

text \<open>Witness: of three validated versions, the first promoted, the second refused, the third waits.\<close>

definition sample_version :: "string \<Rightarrow> string \<Rightarrow> validation_state \<Rightarrow> card_version" where
  "sample_version i cardId state =
     \<lparr>cv_id = i, cv_cardId = cardId,
      cv_lineage = \<lparr>ln_publicationId = ''p1'', ln_observationId = ''o1'', ln_knowledgeUnitId = cardId\<rparr>,
      cv_scopes = [], cv_validationState = state, cv_createdAt = ''t0'', cv_meaning = None,
      cv_grounding = None, cv_changeFromPrevious = None\<rparr>"

definition sample_history :: version_history where
  "sample_history =
     \<lparr>vh_cardId = ''c'',
      vh_versions = [sample_version ''v1'' ''c'' Validated, sample_version ''v2'' ''c'' Validated,
                     sample_version ''v3'' ''c'' Validated],
      vh_currentVersionId = Some ''v1''\<rparr>"

definition sample_events :: "lifecycle_event list" where
  "sample_events =
     [\<lparr>le_id = ''e1'', le_cardId = ''c'', le_occurredAt = ''t1'',
       le_body = CardVersionPromoted ''v1'' None ''op'' None\<rparr>,
      \<lparr>le_id = ''e2'', le_cardId = ''c'', le_occurredAt = ''t2'',
       le_body = CardVersionRefused ''v2'' ''op'' None\<rparr>]"

lemma sample_history_wf: "history_wf sample_history"
  by (simp add: history_wf_def sample_history_def sample_version_def)

theorem pendingReviewCardVersionIds_spec_witness:
  "pendingReviewCardVersionIds sample_history sample_events = [''v3''] \<and>
   (\<exists>n < 3. cv_id (vh_versions sample_history ! n) = ''v3'')"
proof -
  have p: "pendingReviewCardVersionIds sample_history sample_events = [''v3'']"
    by code_simp
  have "length (vh_versions sample_history) = 3" by (simp add: sample_history_def)
  then show ?thesis
    using p pendingReviewCardVersionIds_spec [OF sample_history_wf, of "''v3''" sample_events] by auto
qed

end
