(* ===== verification/Canonical_Json.thy ===== *)
theory Canonical_Json
  imports Contracts
begin

text \<open>
  The canonical JSON text of a value determines the value, up to the order of members and to
  members that are absent. With a hash that does not collide, two equal digests are therefore
  digests of equal contents: what \<open>computePublishedKnowledgeUnitDigest\<close> and the keys of
  \<open>selection-delivery\<close> (\<open>canonical-digest.ts\<close>, the same serialization) rely on.
\<close>

section \<open>Strings\<close>

definition hex_value :: "char \<Rightarrow> nat" where
  "hex_value c = (let n = code_unit c in if n < 58 then n - 48 else n - 87)"

definition unescape :: "string \<Rightarrow> (char \<times> string) option" where
  "unescape t = (case t of
     [] \<Rightarrow> None
   | x # xs \<Rightarrow>
       if x \<noteq> CHR 0x5C then Some (x, xs)
       else (case xs of
           [] \<Rightarrow> None
         | y # rest \<Rightarrow>
             if y = CHR ''u'' then
               Some (char_of (16 * hex_value (rest ! 2) + hex_value (rest ! 3)), drop 4 rest)
             else if y = CHR ''b'' then Some (CHR 0x08, rest)
             else if y = CHR ''t'' then Some (CHR 0x09, rest)
             else if y = CHR ''n'' then Some (CHR 0x0A, rest)
             else if y = CHR ''f'' then Some (CHR 0x0C, rest)
             else if y = CHR ''r'' then Some (CHR 0x0D, rest)
             else Some (y, rest)))"

lemma hex_value_digit: "n < 16 \<Longrightarrow> hex_value (hex_digit n) = n"
  by (simp add: hex_value_def hex_digit_def Let_def)

lemma char_of_code: "code_unit c = n \<Longrightarrow> c = char_of n"
  by auto

lemma unescape_escape: "unescape (json_escape_char c @ t) = Some (c, t)"
proof -
  define n where "n = code_unit c"
  have c: "c = char_of n" by (simp add: n_def char_of_code)
  consider "n = 34" | "n = 92" | "n = 8" | "n = 9" | "n = 10" | "n = 12" | "n = 13"
    | "n < 32" "n \<notin> {8, 9, 10, 12, 13}" | "32 \<le> n" "n \<noteq> 34" "n \<noteq> 92"
    by fastforce
  then show ?thesis
  proof cases
    case 8
    have "16 * (n div 16) + n mod 16 = n" by simp
    with 8 show ?thesis
      by (simp add: json_escape_char_def unescape_def Let_def n_def [symmetric] hex_value_digit c [symmetric])
  next
    case 9
    then have "c \<noteq> CHR 0x5C" by (auto simp: n_def)
    with 9 show ?thesis by (simp add: json_escape_char_def unescape_def Let_def n_def [symmetric])
  qed (simp_all add: json_escape_char_def unescape_def Let_def n_def [symmetric] c, simp_all add: char_of_def bit_simps)
qed

lemma escape_inj: "json_escape_char c @ t = json_escape_char d @ u \<Longrightarrow> c = d \<and> t = u"
  by (metis unescape_escape option.inject prod.inject)

lemma escape_head: "\<exists>x xs. json_escape_char c = x # xs \<and> x \<noteq> CHR 0x22"
  by (cases "code_unit c = 34") (auto simp: json_escape_char_def Let_def)

lemma escaped_inj:
  "concat (map json_escape_char s) @ CHR 0x22 # t = concat (map json_escape_char s') @ CHR 0x22 # t' \<Longrightarrow>
     s = s' \<and> t = t'"
proof (induction s arbitrary: s')
  case Nil
  then show ?case using escape_head by (cases s') (auto, metis append_Cons list.inject)
next
  case (Cons c s)
  show ?case
  proof (cases s')
    case Nil
    then show ?thesis using Cons.prems escape_head [of c] by auto
  next
    case (Cons c' r')
    then have "json_escape_char c @ concat (map json_escape_char s) @ CHR 0x22 # t =
        json_escape_char c' @ concat (map json_escape_char r') @ CHR 0x22 # t'"
      using Cons.prems by simp
    then show ?thesis using escape_inj Cons.IH Cons by blast
  qed
qed

lemma json_quote_inj: "json_quote s @ t = json_quote s' @ t' \<Longrightarrow> s = s' \<and> t = t'"
  by (rule escaped_inj) (simp add: json_quote_def)

section \<open>Values\<close>

text \<open>Numbers are the texts that ECMAScript renders finite numbers to.\<close>

definition json_number_char :: "char \<Rightarrow> bool" where
  "json_number_char c \<longleftrightarrow> is_digit_char c \<or> c \<in> {CHR ''-'', CHR ''+'', CHR ''.'', CHR ''e''}"

definition present :: "(string \<times> json option) list \<Rightarrow> (string \<times> json) list" where
  "present kvs = List.map_filter (\<lambda>(k, v). map_option (Pair k) v) kvs"

lemma present_simps [simp]:
  "present [] = []" "present ((k, None) # kvs) = present kvs" "present ((k, Some v) # kvs) = (k, v) # present kvs"
  by (simp_all add: present_def map_filter_def)

lemma present_mem: "(k, v) \<in> set (present kvs) \<longleftrightarrow> (k, Some v) \<in> set kvs"
proof (induction kvs)
  case Nil
  then show ?case by simp
next
  case (Cons m kvs)
  then show ?case by (cases m; cases "snd m") auto
qed

lemma size_present: "(k, v) \<in> set (present kvs) \<Longrightarrow> size v < size (JObj kvs)"
proof (induction kvs)
  case Nil
  then show ?case by simp
next
  case (Cons m kvs)
  then show ?case by (cases m; cases "snd m") auto
qed

fun number_json :: "json \<Rightarrow> bool" where
  "number_json (JNum n) \<longleftrightarrow> n \<noteq> [] \<and> list_all json_number_char n"
| "number_json (JArr xs) \<longleftrightarrow> list_all number_json xs"
| "number_json (JObj kvs) \<longleftrightarrow> list_all (\<lambda>(k, v). case v of None \<Rightarrow> True | Some x \<Rightarrow> number_json x) kvs"
| "number_json j \<longleftrightarrow> True"

text \<open>The value behind a text: absent members dropped, the others in the order of their keys.\<close>

fun json_content :: "json \<Rightarrow> json"
  and member_contents :: "(string \<times> json option) list \<Rightarrow> (string \<times> json) list" where
  "json_content (JArr xs) = JArr (map json_content xs)"
| "json_content (JObj kvs) = JObj (map (\<lambda>(k, v). (k, Some v)) (sort_key fst (member_contents kvs)))"
| "json_content JNull = JNull"
| "json_content (JBool b) = JBool b"
| "json_content (JNum n) = JNum n"
| "json_content (JStr t) = JStr t"
| "member_contents [] = []"
| "member_contents ((k, None) # kvs) = member_contents kvs"
| "member_contents ((k, Some v) # kvs) = (k, json_content v) # member_contents kvs"

lemma member_contents_present: "member_contents kvs = map (\<lambda>(k, v). (k, json_content v)) (present kvs)"
proof (induction kvs)
  case Nil
  then show ?case by simp
next
  case (Cons m kvs)
  then show ?case by (cases m; cases "snd m") auto
qed

lemma canonical_members_present: "canonical_members kvs = map (\<lambda>(k, v). (k, canonicalContractJson v)) (present kvs)"
proof (induction kvs)
  case Nil
  then show ?case by simp
next
  case (Cons m kvs)
  then show ?case by (cases m; cases "snd m") auto
qed

lemma sort_key_fst_map: "sort_key fst (map (\<lambda>(k, v). (k, f v)) xs) = map (\<lambda>(k, v). (k, f v)) (sort_key fst xs)"
proof -
  have *: "insort_key fst (k, f v) (map (\<lambda>(k, v). (k, f v)) ys) = map (\<lambda>(k, v). (k, f v)) (insort_key fst (k, v) ys)" for k v ys
    by (induction ys) auto
  show ?thesis by (induction xs) (auto simp: sort_key_def *)
qed

lemma canonical_object:
  "canonicalContractJson (JObj kvs) =
     ''{'' @ join '','' (map (\<lambda>(k, v). json_quote k @ '':'' @ canonicalContractJson v) (sort_key fst (present kvs))) @ ''}''"
  by (simp add: canonical_members_present sort_key_fst_map) (simp add: comp_def case_prod_unfold)

lemma content_object:
  "json_content (JObj kvs) = JObj (map (\<lambda>(k, v). (k, Some (json_content v))) (sort_key fst (present kvs)))"
  by (simp add: member_contents_present sort_key_fst_map) (simp add: comp_def case_prod_unfold)

section \<open>The text determines the content\<close>

abbreviation stop :: "string \<Rightarrow> bool" where
  "stop r \<equiv> r = [] \<or> hd r \<in> {CHR '','', CHR '']'', CHR ''}''}"

lemma stop_not_number: "stop r \<Longrightarrow> takeWhile json_number_char r = []"
  by (cases r) (auto simp: json_number_char_def is_digit_char_def)

lemma number_take: "list_all json_number_char n \<Longrightarrow> stop r \<Longrightarrow> takeWhile json_number_char (n @ r) = n"
  using stop_not_number [of r] by (simp add: list_all_iff)

lemma number_prefix:
  assumes "n @ r = n' @ r'" and "list_all json_number_char n" and "list_all json_number_char n'"
    and "stop r" and "stop r'"
  shows "n = n' \<and> r = r'"
proof -
  have "n = n'" using number_take [OF assms(2,4)] number_take [OF assms(3,5)] assms(1) by metis
  then show ?thesis using assms(1) by blast
qed

text \<open>The first character of a text tells the kind of the value.\<close>

lemma canonical_hd:
  assumes "number_json j"
  shows "canonicalContractJson j \<noteq> [] \<and>
    (case j of JNull \<Rightarrow> hd (canonicalContractJson j) = CHR ''n''
     | JBool b \<Rightarrow> hd (canonicalContractJson j) = (if b then CHR ''t'' else CHR ''f'')
     | JNum n \<Rightarrow> json_number_char (hd (canonicalContractJson j))
     | JStr t \<Rightarrow> hd (canonicalContractJson j) = CHR 0x22
     | JArr xs \<Rightarrow> hd (canonicalContractJson j) = CHR ''[''
     | JObj kvs \<Rightarrow> hd (canonicalContractJson j) = CHR ''{'')"
proof (cases j)
  case (JNum n)
  then show ?thesis using assms by (cases n) auto
qed (simp_all add: json_quote_def)

lemma not_number_char:
  "\<not> json_number_char (CHR ''n'')" "\<not> json_number_char (CHR ''t'')" "\<not> json_number_char (CHR ''f'')"
  "\<not> json_number_char (CHR 0x22)" "\<not> json_number_char (CHR ''['')" "\<not> json_number_char (CHR ''{'')"
  "\<not> json_number_char (CHR '']'')" "\<not> json_number_char (CHR ''}'')"
  by (simp_all add: json_number_char_def is_digit_char_def)

lemma same_kind:
  assumes "number_json j" and "number_json j'" and "hd (canonicalContractJson j) = hd (canonicalContractJson j')"
  shows "(case j of JNull \<Rightarrow> j' = JNull | JBool b \<Rightarrow> j' = JBool b | JNum n \<Rightarrow> \<exists>m. j' = JNum m
     | JStr t \<Rightarrow> \<exists>u. j' = JStr u | JArr xs \<Rightarrow> \<exists>ys. j' = JArr ys | JObj kvs \<Rightarrow> \<exists>ls. j' = JObj ls)"
  using canonical_hd [OF assms(1)] canonical_hd [OF assms(2)] assms(3) not_number_char
  by (cases j; cases j'; simp only: json.case) (auto split: if_splits)

text \<open>A sequence of texts joined by commas, each readable in front of a stop.\<close>

lemma joined_inj:
  assumes read: "\<And>x y t u. x \<in> set xs \<Longrightarrow> stop t \<Longrightarrow> stop u \<Longrightarrow> y \<in> set ys \<Longrightarrow> f x @ t = f y @ u \<Longrightarrow> g x = g y \<and> t = u"
    and close: "c \<in> {CHR '']'', CHR ''}''}"
    and head: "\<And>x. x \<in> set xs \<union> set ys \<Longrightarrow> f x \<noteq> [] \<and> hd (f x) \<noteq> c"
    and eq: "join '','' (map f xs) @ c # r = join '','' (map f ys) @ c # r'"
  shows "map g xs = map g ys \<and> r = r'"
  using read head eq
proof (induction xs arbitrary: ys)
  case Nil
  show ?case
  proof (cases ys)
    case Nil
    then show ?thesis using Nil.prems by simp
  next
    case (Cons y ys')
    have "f y \<noteq> [] \<and> hd (f y) \<noteq> c" using Nil.prems(2) [of y] Cons by simp
    moreover have "hd (join '','' (map f ys) @ c # r') = hd (f y)"
      using calculation Cons by (cases ys') (auto simp: hd_append)
    ultimately show ?thesis using Nil.prems(3) by (metis append_Nil join.simps(1) list.map(1) list.sel(1))
  qed
next
  case (Cons x xs)
  have x: "f x \<noteq> [] \<and> hd (f x) \<noteq> c" using Cons.prems(2) [of x] by simp
  show ?case
  proof (cases ys)
    case Nil
    have "hd (join '','' (map f (x # xs)) @ c # r) = hd (f x)"
      using x by (cases xs) (auto simp: hd_append)
    then show ?thesis using Cons.prems(3) x Nil by (metis append_Nil join.simps(1) list.map(1) list.sel(1))
  next
    case ys: (Cons y ys')
    define t where "t = (case xs of [] \<Rightarrow> c # r | _ \<Rightarrow> '','' @ join '','' (map f xs) @ c # r)"
    define u where "u = (case ys' of [] \<Rightarrow> c # r' | _ \<Rightarrow> '','' @ join '','' (map f ys') @ c # r')"
    have eq: "f x @ t = f y @ u"
      using Cons.prems(3) unfolding ys t_def u_def by (cases xs; cases ys') simp_all
    have "stop t" "stop u" using close by (auto simp: t_def u_def split: list.splits)
    then have xy: "g x = g y" "t = u" using Cons.prems(1) [of x t u y] eq ys by auto
    have c: "c \<noteq> CHR '',''" using close by auto
    show ?thesis
    proof (cases "xs = [] \<or> ys' = []")
      case True
      then have "xs = [] \<and> ys' = []" using xy(2) c by (auto simp: t_def u_def split: list.splits)
      then show ?thesis using xy ys by (simp add: t_def u_def)
    next
      case False
      then have "join '','' (map f xs) @ c # r = join '','' (map f ys') @ c # r'"
        using xy(2) by (auto simp: t_def u_def split: list.splits)
      then have "map g xs = map g ys' \<and> r = r'"
        using Cons.IH [of ys'] Cons.prems(1,2) ys by (metis (no_types, lifting) Un_iff list.set_intros(2))
      then show ?thesis using xy ys by simp
    qed
  qed
qed

lemma canonical_hd_close: "number_json j \<Longrightarrow> c \<in> {CHR '']'', CHR ''}''} \<Longrightarrow>
    canonicalContractJson j \<noteq> [] \<and> hd (canonicalContractJson j) \<noteq> c"
  using canonical_hd [of j] not_number_char by (cases j) (auto split: if_splits)

lemma present_number: "number_json (JObj kvs) \<Longrightarrow> (k, v) \<in> set (present kvs) \<Longrightarrow> number_json v"
  by (auto simp: present_mem list_all_iff dest!: bspec)

lemma canonical_prefix:
  assumes "number_json j" and "number_json j'" and "stop r" and "stop r'"
    and "canonicalContractJson j @ r = canonicalContractJson j' @ r'"
  shows "json_content j = json_content j' \<and> r = r'"
  using assms
proof (induction j arbitrary: j' r r' rule: measure_induct_rule [of size])
  case (less j)
  have "hd (canonicalContractJson j) = hd (canonicalContractJson j')"
    using less.prems(5) canonical_hd [OF less.prems(1)] canonical_hd [OF less.prems(2)] by (metis hd_append2)
  note kind = same_kind [OF less.prems(1,2) this]
  show ?case
  proof (cases j)
    case (JNum n)
    then obtain m where m: "j' = JNum m" using kind by auto
    then show ?thesis using number_prefix [of n r m r'] less.prems JNum by simp
  next
    case (JStr t)
    then obtain u where u: "j' = JStr u" using kind by auto
    then show ?thesis using json_quote_inj [of t r u r'] less.prems(5) JStr by simp
  next
    case (JArr xs)
    then obtain ys where ys: "j' = JArr ys" using kind by auto
    have "map json_content xs = map json_content ys \<and> r = r'"
    proof (rule joined_inj [where f = canonicalContractJson and c = "CHR '']''"])
      fix x y t u assume x: "x \<in> set xs" "stop t" "stop u" "y \<in> set ys"
        and eq: "canonicalContractJson x @ t = canonicalContractJson y @ u"
      have "size x < size j" using x(1) JArr by (simp add: size_list_estimation' less_Suc_eq_le)
      moreover have "number_json x" "number_json y"
        using x less.prems(1,2) JArr ys by (auto simp: list_all_iff)
      ultimately show "json_content x = json_content y \<and> t = u" using less.IH x(2,3) eq by blast
    next
      fix x assume "x \<in> set xs \<union> set ys"
      then have "number_json x" using less.prems(1,2) JArr ys by (auto simp: list_all_iff)
      then show "canonicalContractJson x \<noteq> [] \<and> hd (canonicalContractJson x) \<noteq> CHR '']''"
        using canonical_hd_close by blast
    next
      show "join '','' (map canonicalContractJson xs) @ CHR '']'' # r =
          join '','' (map canonicalContractJson ys) @ CHR '']'' # r'"
        using less.prems(5) JArr ys by simp
    qed simp
    then show ?thesis using JArr ys by simp
  next
    case (JObj kvs)
    then obtain ls where ls: "j' = JObj ls" using kind by auto
    let ?f = "\<lambda>(k, v). json_quote k @ '':'' @ canonicalContractJson v"
    let ?g = "\<lambda>(k, v). (k, Some (json_content v))"
    have "map ?g (sort_key fst (present kvs)) = map ?g (sort_key fst (present ls)) \<and> r = r'"
    proof (rule joined_inj [where f = ?f and c = "CHR ''}''"])
      fix x y t u assume x: "x \<in> set (sort_key fst (present kvs))" "stop t" "stop u" "y \<in> set (sort_key fst (present ls))"
        and eq: "?f x @ t = ?f y @ u"
      obtain k v l w where xy: "x = (k, v)" "y = (l, w)" by force
      have "k = l" and eq': "'':'' @ canonicalContractJson v @ t = '':'' @ canonicalContractJson w @ u"
        using json_quote_inj [of k "'':'' @ canonicalContractJson v @ t" l "'':'' @ canonicalContractJson w @ u"] eq xy by auto
      moreover have "size v < size j" using size_present [of k v kvs] x(1) xy JObj by simp
      moreover have "number_json v" "number_json w"
        using present_number [of kvs k v] present_number [of ls l w] x xy less.prems(1,2) JObj ls by auto
      ultimately show "?g x = ?g y \<and> t = u" using less.IH [of v w t u] x(2,3) xy by simp
    next
      fix x assume "x \<in> set (sort_key fst (present kvs)) \<union> set (sort_key fst (present ls))"
      then show "?f x \<noteq> [] \<and> hd (?f x) \<noteq> CHR ''}''" by (cases x) (simp add: json_quote_def)
    next
      show "join '','' (map ?f (sort_key fst (present kvs))) @ CHR ''}'' # r =
          join '','' (map ?f (sort_key fst (present ls))) @ CHR ''}'' # r'"
        using less.prems(5) unfolding JObj ls canonical_object by simp
    qed simp
    then show ?thesis unfolding JObj ls content_object by simp
  qed (use kind less.prems(5) in auto)
qed

lemma canonicalContractJson_content:
  assumes "number_json j" and "number_json j'"
  shows "canonicalContractJson j = canonicalContractJson j' \<Longrightarrow> json_content j = json_content j'"
  using canonical_prefix [OF assms, of "[]" "[]"] by simp

text \<open>And the content determines the text.\<close>

lemma present_map_Some: "present (map (\<lambda>(k, v). (k, Some v)) xs) = xs"
  by (induction xs) auto

lemma canonical_of_content: "canonicalContractJson (json_content j) = canonicalContractJson j"
proof (induction j rule: measure_induct_rule [of size])
  case (less j)
  show ?case
  proof (cases j)
    case (JArr xs)
    have "canonicalContractJson (json_content x) = canonicalContractJson x" if "x \<in> set xs" for x
      using less [of x] that JArr by (simp add: size_list_estimation' less_Suc_eq_le)
    then have "map (canonicalContractJson \<circ> json_content) xs = map canonicalContractJson xs" by simp
    then show ?thesis unfolding JArr by (simp only: canonicalContractJson.simps json_content.simps map_map)
  next
    case (JObj kvs)
    let ?ms = "sort_key fst (present kvs)"
    have members: "canonicalContractJson (json_content v) = canonicalContractJson v" if "(k, v) \<in> set ?ms" for k v
      using less [of v] size_present [of k v kvs] that JObj by simp
    have "sorted (map fst (map (\<lambda>(k, v). (k, json_content v)) ?ms))"
      by (simp add: case_prod_unfold comp_def)
    then have same: "sort_key fst (map (\<lambda>(k, v). (k, json_content v)) ?ms) = map (\<lambda>(k, v). (k, json_content v)) ?ms"
      by (rule sort_key_id_if_sorted)
    have "canonicalContractJson (json_content j) = canonicalContractJson (JObj (map (\<lambda>(k, v). (k, Some v)) (map (\<lambda>(k, v). (k, json_content v)) ?ms)))"
      unfolding JObj content_object map_map by (simp add: comp_def case_prod_unfold)
    also have "\<dots> = ''{'' @ join '','' (map (\<lambda>(k, v). json_quote k @ '':'' @ canonicalContractJson v) (map (\<lambda>(k, v). (k, json_content v)) ?ms)) @ ''}''"
      unfolding canonical_object present_map_Some same ..
    also have "map (\<lambda>(k, v). json_quote k @ '':'' @ canonicalContractJson v) (map (\<lambda>(k, v). (k, json_content v)) ?ms) =
        map (\<lambda>(k, v). json_quote k @ '':'' @ canonicalContractJson v) ?ms"
      using members by auto
    also have "''{'' @ join '','' \<dots> @ ''}'' = canonicalContractJson j" unfolding JObj canonical_object ..
    finally show ?thesis .
  qed simp_all
qed

lemma canonical_iff_content:
  assumes "number_json j" and "number_json j'"
  shows "canonicalContractJson j = canonicalContractJson j' \<longleftrightarrow> json_content j = json_content j'"
  using canonicalContractJson_content [OF assms] canonical_of_content by metis

section \<open>Objects member by member\<close>

lemma map_of_mset_eq:
  assumes "mset xs = mset ys" and "distinct (map fst xs)"
  shows "map_of xs = map_of ys"
proof -
  have "distinct (map fst ys)" using assms by (metis mset_eq_imp_distinct_iff mset_map)
  moreover have "set xs = set ys" using assms(1) by (metis set_mset_mset)
  ultimately show ?thesis using assms(2) map_of_inject_set by blast
qed

lemma map_of_content:
  assumes "distinct (map fst (present kvs))"
  shows "map_of (sort_key fst (member_contents kvs)) k = map_option json_content (map_of (present kvs) k)"
proof -
  have "distinct (map fst (member_contents kvs))"
    using assms by (simp add: member_contents_present case_prod_unfold comp_def)
  then have "map_of (sort_key fst (member_contents kvs)) = map_of (member_contents kvs)"
    by (metis map_of_mset_eq mset_sort)
  then show ?thesis by (simp add: member_contents_present map_of_map)
qed

lemma object_members:
  assumes "json_content (JObj kvs) = json_content (JObj ls)"
    and "distinct (map fst (present kvs))" and "distinct (map fst (present ls))"
  shows "map_option json_content (map_of (present kvs) k) = map_option json_content (map_of (present ls) k)"
proof -
  have "sort_key fst (member_contents kvs) = sort_key fst (member_contents ls)"
    using arg_cong [OF assms(1), of "\<lambda>j. case j of JObj ms \<Rightarrow> present ms"] by (simp add: present_map_Some)
  then show ?thesis using map_of_content [OF assms(2)] map_of_content [OF assms(3)] by metis
qed

end
