(* ===== verification/Selection_Types.thy ===== *)
theory Selection_Types
  imports Card_Version Canonical_Json "HOL-Library.Product_Lexorder"
begin

text \<open>
  What the theories on \<open>packages/selection-delivery\<close> share: its errors, numbers that may
  not be finite, and the approved Card it selects over.

  The read model of the package (\<open>domain/card-catalog.ts\<close>) has, field by field, the shape
  of Registry's catalog entry and of Registry's retrieval scope; TypeScript types are
  structural, so the same HOL types stand for both.
\<close>

datatype selection_error =
    SelectionThresholdsInvariantError string
  | SelectionCandidateInvariantError string
  | SelectionPlanInvariantError string
  | SelectionScopeInvariantError string
  | PolicyContextInvariantError string
  | SelectionModeInvariantError string
  | CardCatalogInvariantError string
  | ContextBudgetInvariantError string
  | ManagedResolutionInvariantError string
  | CardSelectionProfileInvariantError string
  | CardCandidateIndexInvariantError string
  | CardSelectionInputLimitError string
  | CanonicalDigestInvariantError string
  | SelectionTypeError string

text \<open>
  A JavaScript number: scores are compared and rendered, never added up here. \<open>Finite\<close> holds
  the exact value of the double; \<open>render\<close> parameters stand for \<open>String(score)\<close>.
\<close>

datatype js_number = Finite rat | NotANumber | PlusInfinity | MinusInfinity

definition is_finite :: "js_number \<Rightarrow> bool" where
  "is_finite x = (case x of Finite _ \<Rightarrow> True | _ \<Rightarrow> False)"

fun js_less_eq :: "js_number \<Rightarrow> js_number \<Rightarrow> bool" where
  "js_less_eq NotANumber y = False"
| "js_less_eq x NotANumber = False"
| "js_less_eq MinusInfinity y = True"
| "js_less_eq x PlusInfinity = True"
| "js_less_eq (Finite p) (Finite q) = (p \<le> q)"
| "js_less_eq x y = False"

type_synonym approved_card = catalog_entry
type_synonym approved_scope = retrieval_scope

record card_ref =
  cf_cardId :: string
  cf_versionId :: string

definition ref_of_card :: "approved_card \<Rightarrow> card_ref" where
  "ref_of_card c = \<lparr>cf_cardId = ce_cardId c, cf_versionId = ce_versionId c\<rparr>"

text \<open>\<open>canonical-digest.ts\<close>: RFC 8785 over the values of this package, which are JSON without numbers
  that are not finite; the serialization is the one of the contracts.\<close>

definition canonicalJson :: "json \<Rightarrow> string" where
  "canonicalJson v = canonicalContractJson v"

definition canonicalDigest :: "(string \<Rightarrow> string) \<Rightarrow> json \<Rightarrow> string" where
  "canonicalDigest sha256 v = ''sha256:'' @ sha256 (canonicalJson v)"

definition utf8ByteLength :: "string \<Rightarrow> nat" where
  "utf8ByteLength t = utf8_length t"

end
