(* ===== verification/Js_Numbers.thy ===== *)
theory Js_Numbers
  imports Selection_Types
begin

text \<open>
  Numbers of JavaScript as far as the scores and vectors of the selection need them: finite values are exact
  rationals, so the rounding of doubles is not modelled; the values that are not finite behave as IEEE 754 says.
\<close>

section \<open>Comparison\<close>

fun js_eq :: "js_number \<Rightarrow> js_number \<Rightarrow> bool" where
  "js_eq NotANumber y = False"
| "js_eq x y = (x = y)"

definition js_less :: "js_number \<Rightarrow> js_number \<Rightarrow> bool" where
  "js_less x y \<longleftrightarrow> js_less_eq x y \<and> \<not> js_eq x y"

definition js_max :: "js_number \<Rightarrow> js_number \<Rightarrow> js_number" where
  "js_max x y = (if x = NotANumber \<or> y = NotANumber then NotANumber else if js_less_eq x y then y else x)"

definition js_min :: "js_number \<Rightarrow> js_number \<Rightarrow> js_number" where
  "js_min x y = (if x = NotANumber \<or> y = NotANumber then NotANumber else if js_less_eq x y then x else y)"

fun js_minus :: "js_number \<Rightarrow> js_number \<Rightarrow> js_number" where
  "js_minus (Finite p) (Finite q) = Finite (p - q)"
| "js_minus NotANumber y = NotANumber"
| "js_minus x NotANumber = NotANumber"
| "js_minus PlusInfinity PlusInfinity = NotANumber"
| "js_minus MinusInfinity MinusInfinity = NotANumber"
| "js_minus PlusInfinity y = PlusInfinity"
| "js_minus MinusInfinity y = MinusInfinity"
| "js_minus x PlusInfinity = MinusInfinity"
| "js_minus x MinusInfinity = PlusInfinity"

lemma js_less_finite [simp]: "js_less (Finite p) (Finite q) \<longleftrightarrow> p < q"
  by (auto simp: js_less_def)

lemma js_max_finite [simp]: "js_max (Finite p) (Finite q) = Finite (max p q)"
  by (simp add: js_max_def max_def)

lemma js_min_finite [simp]: "js_min (Finite p) (Finite q) = Finite (min p q)"
  by (simp add: js_min_def min_def)

section \<open>Sums and products\<close>

fun js_plus :: "js_number \<Rightarrow> js_number \<Rightarrow> js_number" where
  "js_plus (Finite p) (Finite q) = Finite (p + q)"
| "js_plus NotANumber y = NotANumber"
| "js_plus x NotANumber = NotANumber"
| "js_plus PlusInfinity MinusInfinity = NotANumber"
| "js_plus MinusInfinity PlusInfinity = NotANumber"
| "js_plus PlusInfinity y = PlusInfinity"
| "js_plus MinusInfinity y = MinusInfinity"
| "js_plus x PlusInfinity = PlusInfinity"
| "js_plus x MinusInfinity = MinusInfinity"

text \<open>A product with an infinity takes its sign from both factors, and is not a number when one factor is zero.\<close>

definition js_sign :: "js_number \<Rightarrow> rat" where
  "js_sign x = (case x of Finite p \<Rightarrow> sgn p | PlusInfinity \<Rightarrow> 1 | MinusInfinity \<Rightarrow> -1 | NotANumber \<Rightarrow> 0)"

definition js_times :: "js_number \<Rightarrow> js_number \<Rightarrow> js_number" where
  "js_times x y =
     (case (x, y) of
        (Finite p, Finite q) \<Rightarrow> Finite (p * q)
      | _ \<Rightarrow> (let s = js_sign x * js_sign y in
          if x = NotANumber \<or> y = NotANumber \<or> s = 0 then NotANumber
          else if 0 < s then PlusInfinity else MinusInfinity))"

lemma js_times_finite [simp]: "js_times (Finite p) (Finite q) = Finite (p * q)"
  by (simp add: js_times_def)

section \<open>Numbers as integers\<close>

definition isSafeInteger :: "js_number \<Rightarrow> bool" where
  "isSafeInteger x = (case x of Finite q \<Rightarrow> q = of_int \<lfloor>q\<rfloor> \<and> \<bar>q\<bar> \<le> 2 ^ 53 - 1 | _ \<Rightarrow> False)"

definition safe_at_least :: "int \<Rightarrow> js_number \<Rightarrow> bool" where
  "safe_at_least low x \<longleftrightarrow> isSafeInteger x \<and> \<not> (case x of Finite q \<Rightarrow> q < of_int low | _ \<Rightarrow> False)"

definition nat_of_number :: "js_number \<Rightarrow> nat" where
  "nat_of_number x = (case x of Finite q \<Rightarrow> nat \<lfloor>q\<rfloor> | _ \<Rightarrow> 0)"

definition whole :: "nat \<Rightarrow> js_number" where
  "whole n = Finite (of_nat n)"

lemma safe_at_leastE:
  assumes "safe_at_least low x" and "0 \<le> low"
  obtains n where "x = whole n" "low \<le> int n" "n < 2 ^ 53"
proof -
  obtain q where q: "x = Finite q" "q = of_int \<lfloor>q\<rfloor>" "\<bar>q\<bar> \<le> 2 ^ 53 - 1" "of_int low \<le> q"
    using assms by (auto simp: safe_at_least_def isSafeInteger_def split: js_number.splits)
  have low: "low \<le> \<lfloor>q\<rfloor>" using q(4) by (simp add: le_floor_iff)
  have n: "int (nat \<lfloor>q\<rfloor>) = \<lfloor>q\<rfloor>" by (rule nat_0_le) (use low assms(2) in linarith)
  have "(of_int \<lfloor>q\<rfloor> :: rat) < of_int (2 ^ 53)" using q(2,3) by simp
  then have "\<lfloor>q\<rfloor> < 2 ^ 53" by (simp only: of_int_less_iff)
  then have "int (nat \<lfloor>q\<rfloor>) < int (2 ^ 53)" unfolding n by (simp only: of_nat_power of_nat_numeral)
  then have "nat \<lfloor>q\<rfloor> < 2 ^ 53" by (simp only: of_nat_less_iff)
  moreover have "x = whole (nat \<lfloor>q\<rfloor>)" using q(1,2) n by (metis of_int_of_nat_eq whole_def)
  ultimately show thesis using that low n by metis
qed

lemma nat_of_whole [simp]: "nat_of_number (whole n) = n"
  by (simp add: nat_of_number_def whole_def)

end
