(* ===== verification/Context_Assembly.thy ===== *)
theory Context_Assembly
  imports Js_Numbers
begin

text \<open>
  \<open>domain/context-assembly.ts\<close>: from the occurrences of chunks that the reads returned to the evidence of one answer.
  Reads that contradict each other are set aside, ranks are fused, repeats dropped, and the order is cut to a budget.
  Scores are exact rationals; the doubles of the source round them.
\<close>

definition CONTEXT_ASSEMBLY_POLICY_VERSION :: string where "CONTEXT_ASSEMBLY_POLICY_VERSION = ''context-assembly-v2''"
definition CONTEXT_FUSION_POLICY_VERSION :: string where "CONTEXT_FUSION_POLICY_VERSION = ''rrf-v1''"
definition RRF_RANK_CONSTANT :: rat where "RRF_RANK_CONSTANT = 60"

record context_candidate =
  cx_itemKey :: string
  cx_targetKey :: string
  cx_scopeRef :: scope_ref
  cx_rank :: js_number
  cx_chunkId :: string
  cx_chunkRevisionId :: string
  cx_semanticUnitId :: string
  cx_documentId :: string
  cx_contentDigest :: string
  cx_text :: string

text \<open>A chunk of the answer is the surviving occurrence with its fused score.\<close>

record context_chunk =
  hk_occurrence :: context_candidate
  hk_score :: rat

record context_budget =
  cb_maxTotalCharacters :: js_number
  cb_maxChunks :: js_number

definition DEFAULT_CONTEXT_BUDGET :: context_budget where
  "DEFAULT_CONTEXT_BUDGET = \<lparr>cb_maxTotalCharacters = Finite 8000, cb_maxChunks = Finite 12\<rparr>"

datatype omission_reason = DuplicateChunkRevision | DuplicateContent | BudgetExhausted

record context_omission =
  mo_chunkId :: string
  mo_chunkRevisionId :: string
  mo_reason :: omission_reason

record omitted_chunk =
  od_chunk :: context_candidate
  od_reason :: omission_reason

record assembled_context =
  ab_chunks :: "context_chunk list"
  ab_omitted :: "omitted_chunk list"
  ab_failedTargetKeys :: "string list"

definition toContextOmission :: "omitted_chunk \<Rightarrow> context_omission" where
  "toContextOmission x = \<lparr>mo_chunkId = cx_chunkId (od_chunk x), mo_chunkRevisionId = cx_chunkRevisionId (od_chunk x), mo_reason = od_reason x\<rparr>"

section \<open>Groups\<close>

definition add_to_group :: "('a \<Rightarrow> string) \<Rightarrow> 'a \<Rightarrow> (string \<times> 'a list) list \<Rightarrow> (string \<times> 'a list) list" where
  "add_to_group keyOf x grouped =
     (case map_of grouped (keyOf x) of
        None \<Rightarrow> AList.update (keyOf x) [x] grouped
      | Some bucket \<Rightarrow> AList.update (keyOf x) (bucket @ [x]) grouped)"

definition groupBy :: "'a list \<Rightarrow> ('a \<Rightarrow> string) \<Rightarrow> (string \<times> 'a list) list" where
  "groupBy xs keyOf = fold (add_to_group keyOf) xs []"

section \<open>Contradictions\<close>

definition describesSameRevision :: "context_candidate \<Rightarrow> context_candidate \<Rightarrow> bool" where
  "describesSameRevision l r \<longleftrightarrow> cx_chunkId l = cx_chunkId r \<and> cx_documentId l = cx_documentId r \<and>
     cx_semanticUnitId l = cx_semanticUnitId r \<and> cx_text l = cx_text r \<and> cx_contentDigest l = cx_contentDigest r"

definition judge_group ::
    "(context_candidate \<Rightarrow> context_candidate \<Rightarrow> bool) \<Rightarrow> string \<times> context_candidate list \<Rightarrow> string list \<Rightarrow> string list" where
  "judge_group agrees entry conflicting =
     (let group = snd entry in
      if list_all (\<lambda>occurrence. agrees occurrence (hd group)) group then conflicting
      else fold (\<lambda>occurrence. set_add (cx_targetKey occurrence)) group conflicting)"

definition findConflictingTargets :: "context_candidate list \<Rightarrow> string list" where
  "findConflictingTargets candidates =
     fold (judge_group (\<lambda>l r. cx_text l = cx_text r)) (groupBy candidates cx_contentDigest)
       (fold (judge_group describesSameRevision) (groupBy candidates cx_chunkRevisionId) [])"

section \<open>Fusion\<close>

definition reciprocalRank :: "(js_number \<Rightarrow> string) \<Rightarrow> js_number \<Rightarrow> selection_error + rat" where
  "reciprocalRank render rank =
     (if \<not> safe_at_least 1 rank
      then Inl (ManagedResolutionInvariantError (''rank '' @ render rank @
             '' is not a 1-based position; a read that reports one is not assembled''))
      else Inr (1 / (RRF_RANK_CONSTANT + (case rank of Finite q \<Rightarrow> q | _ \<Rightarrow> 0))))"

fun sum_reciprocals :: "(js_number \<Rightarrow> string) \<Rightarrow> rat \<Rightarrow> context_candidate list \<Rightarrow> selection_error + rat" where
  "sum_reciprocals render acc [] = Inr acc"
| "sum_reciprocals render acc (x # xs) =
     res_bind (reciprocalRank render (cx_rank x)) (\<lambda>r. sum_reciprocals render (acc + r) xs)"

text \<open>
  The comparator of occurrences orders by rank, target and item. It only matters for ranks that are positions: a group with
  any other rank is refused below, whatever its order.
\<close>

definition occurrence_key :: "context_candidate \<Rightarrow> rat \<times> string \<times> string" where
  "occurrence_key x = (case cx_rank x of Finite q \<Rightarrow> q | _ \<Rightarrow> 0, cx_targetKey x, cx_itemKey x)"

definition fuse_group ::
    "(js_number \<Rightarrow> string) \<Rightarrow> string \<times> context_candidate list \<Rightarrow> context_chunk list \<times> omitted_chunk list \<Rightarrow>
     selection_error + context_chunk list \<times> omitted_chunk list" where
  "fuse_group render entry acc =
     (case sort_key occurrence_key (snd entry) of
        [] \<Rightarrow> Inr acc
      | best # losers \<Rightarrow>
          (let omitted = snd acc @ map (\<lambda>loser. \<lparr>od_chunk = loser, od_reason = DuplicateChunkRevision\<rparr>) losers in
           res_bind (sum_reciprocals render 0 (snd entry)) (\<lambda>score.
             Inr (fst acc @ [\<lparr>hk_occurrence = best, hk_score = score\<rparr>], omitted))))"

definition fuseByChunkRevision ::
    "(js_number \<Rightarrow> string) \<Rightarrow> context_candidate list \<Rightarrow> selection_error + context_chunk list \<times> omitted_chunk list" where
  "fuseByChunkRevision render candidates = res_fold (fuse_group render) (groupBy candidates cx_chunkRevisionId) ([], [])"

definition chunk_key :: "context_chunk \<Rightarrow> rat \<times> string" where
  "chunk_key c = (- hk_score c, cx_chunkRevisionId (hk_occurrence c))"

section \<open>Repeats and the budget\<close>

fun dropRepeatedContent ::
    "string list \<Rightarrow> context_chunk list \<Rightarrow> context_chunk list \<Rightarrow> omitted_chunk list \<Rightarrow> context_chunk list \<times> omitted_chunk list" where
  "dropRepeatedContent seenDigests [] distinctChunks omitted = (distinctChunks, omitted)"
| "dropRepeatedContent seenDigests (c # cs) distinctChunks omitted =
     (if cx_contentDigest (hk_occurrence c) \<in> set seenDigests
      then dropRepeatedContent seenDigests cs distinctChunks (omitted @ [\<lparr>od_chunk = hk_occurrence c, od_reason = DuplicateContent\<rparr>])
      else dropRepeatedContent (set_add (cx_contentDigest (hk_occurrence c)) seenDigests) cs (distinctChunks @ [c]) omitted)"

fun applyBudget ::
    "context_budget \<Rightarrow> context_chunk list \<Rightarrow> context_chunk list \<Rightarrow> nat \<Rightarrow> bool \<Rightarrow> omitted_chunk list \<Rightarrow>
     context_chunk list \<times> omitted_chunk list" where
  "applyBudget budget [] admitted usedCharacters exhausted omitted = (admitted, omitted)"
| "applyBudget budget (c # cs) admitted usedCharacters exhausted omitted =
     (if exhausted
      then applyBudget budget cs admitted usedCharacters exhausted (omitted @ [\<lparr>od_chunk = hk_occurrence c, od_reason = BudgetExhausted\<rparr>])
      else (let nextCharacters = usedCharacters + length (cx_text (hk_occurrence c)) in
        if js_less (cb_maxTotalCharacters budget) (whole nextCharacters)
        then applyBudget budget cs admitted usedCharacters True (omitted @ [\<lparr>od_chunk = hk_occurrence c, od_reason = BudgetExhausted\<rparr>])
        else if js_less (cb_maxChunks budget) (whole (length admitted + 1))
        then applyBudget budget cs admitted usedCharacters True (omitted @ [\<lparr>od_chunk = hk_occurrence c, od_reason = BudgetExhausted\<rparr>])
        else applyBudget budget cs (admitted @ [c]) nextCharacters False omitted))"

definition is_integer :: "js_number \<Rightarrow> bool" where
  "is_integer x = (case x of Finite q \<Rightarrow> q = of_int \<lfloor>q\<rfloor> | _ \<Rightarrow> False)"

definition budget_text :: "(js_number \<Rightarrow> string) \<Rightarrow> context_budget \<Rightarrow> string" where
  "budget_text render b = '', received maxTotalCharacters '' @ render (cb_maxTotalCharacters b) @ '' and maxChunks '' @ render (cb_maxChunks b)"

definition assertUsableBudget :: "(js_number \<Rightarrow> string) \<Rightarrow> context_budget \<Rightarrow> selection_error + unit" where
  "assertUsableBudget render b =
     (if \<not> is_finite (cb_maxTotalCharacters b) \<or> \<not> is_finite (cb_maxChunks b)
      then Inl (ContextBudgetInvariantError (''budget limits must be finite'' @ budget_text render b))
      else if js_less_eq (cb_maxTotalCharacters b) (Finite 0) \<or> js_less_eq (cb_maxChunks b) (Finite 0)
      then Inl (ContextBudgetInvariantError (''budget limits must be greater than zero'' @ budget_text render b))
      else if \<not> is_integer (cb_maxTotalCharacters b) \<or> \<not> is_integer (cb_maxChunks b)
      then Inl (ContextBudgetInvariantError (''budget limits must be integers'' @ budget_text render b))
      else Inr ())"

section \<open>The quarantine loop\<close>

lemma groupBy_step:
  "map_of (add_to_group k x m) v = (if v = k x then Some ((case map_of m v of None \<Rightarrow> [] | Some b \<Rightarrow> b) @ [x]) else map_of m v)"
  by (simp add: add_to_group_def update_conv' split: option.split)

lemma map_of_groupBy:
  "map_of (groupBy xs k) v = (if v \<in> k ` set xs then Some (filter (\<lambda>x. k x = v) xs) else None)"
proof -
  have "map_of (fold (add_to_group k) xs m) v =
      (if v \<in> k ` set xs then Some ((case map_of m v of None \<Rightarrow> [] | Some b \<Rightarrow> b) @ filter (\<lambda>x. k x = v) xs) else map_of m v)" for m
  proof (induction xs arbitrary: m)
    case (Cons x xs)
    have "filter (\<lambda>x. k x = v) xs = []" if "v \<notin> k ` set xs" using that by (auto simp: filter_empty_conv)
    then show ?case using Cons.IH [of "add_to_group k x m"] by (auto simp: groupBy_step split: option.splits)
  qed simp
  then show ?thesis by (simp add: groupBy_def)
qed

lemma groupBy_keys: "map fst (groupBy xs k) = js_set (map k xs)"
proof -
  have step: "map fst (add_to_group k x m) = set_add (k x) (map fst m)" for x m
    by (auto simp: add_to_group_def update_keys set_add_def map_of_eq_None_iff image_iff split: option.split)
  have "map fst (fold (add_to_group k) xs m) = fold set_add (map k xs) (map fst m)" for m
    by (induction xs arbitrary: m) (simp_all add: step)
  then show ?thesis by (simp add: groupBy_def js_set_def)
qed

lemma groupBy_eq: "groupBy xs k = map (\<lambda>v. (v, filter (\<lambda>x. k x = v) xs)) (js_set (map k xs))"
proof -
  have d: "distinct (map fst (groupBy xs k))" unfolding groupBy_keys by simp
  have "snd e = filter (\<lambda>x. k x = fst e) xs" if "e \<in> set (groupBy xs k)" for e
  proof -
    have "map_of (groupBy xs k) (fst e) = Some (snd e)" using d that by (simp add: map_of_eq_Some_iff)
    then show ?thesis by (simp add: map_of_groupBy split: if_splits)
  qed
  then have "groupBy xs k = map (\<lambda>v. (v, filter (\<lambda>x. k x = v) xs)) (map fst (groupBy xs k))"
    by (intro nth_equalityI) (simp_all add: prod_eq_iff)
  then show ?thesis unfolding groupBy_keys .
qed

definition group_conflicts ::
    "(context_candidate \<Rightarrow> context_candidate \<Rightarrow> bool) \<Rightarrow> (context_candidate \<Rightarrow> string) \<Rightarrow> context_candidate list \<Rightarrow> string set" where
  "group_conflicts agrees k xs = {cx_targetKey x |x. x \<in> set xs \<and> (\<exists>y \<in> set xs. k y = k x \<and> \<not> agrees y (hd (filter (\<lambda>z. k z = k x) xs)))}"

lemma set_judge_group:
  "set (judge_group agrees e acc) = set acc \<union>
     (if list_all (\<lambda>x. agrees x (hd (snd e))) (snd e) then {} else cx_targetKey ` set (snd e))"
proof -
  have "set (fold (\<lambda>x. set_add (cx_targetKey x)) xs acc) = set acc \<union> cx_targetKey ` set xs" for xs :: "context_candidate list" and acc
    by (induction xs arbitrary: acc) auto
  then show ?thesis by (simp add: judge_group_def Let_def)
qed

lemma set_judge_groups:
  "set (fold (judge_group agrees) (groupBy xs k) acc) = set acc \<union> group_conflicts agrees k xs"
proof -
  have "set (fold (judge_group agrees) es acc) =
      set acc \<union> (\<Union>e \<in> set es. if list_all (\<lambda>x. agrees x (hd (snd e))) (snd e) then {} else cx_targetKey ` set (snd e))" for es acc
    by (induction es arbitrary: acc) (auto simp: set_judge_group)
  moreover have "(\<Union>e \<in> set (groupBy xs k). if list_all (\<lambda>x. agrees x (hd (snd e))) (snd e) then {} else cx_targetKey ` set (snd e)) =
      group_conflicts agrees k xs"
  proof -
    let ?F = "\<lambda>v. filter (\<lambda>x. k x = v) xs"
    let ?bad = "\<lambda>v. \<exists>y \<in> set xs. k y = v \<and> \<not> agrees y (hd (?F v))"
    have "(\<Union>e \<in> set (groupBy xs k). if list_all (\<lambda>x. agrees x (hd (snd e))) (snd e) then {} else cx_targetKey ` set (snd e)) =
        (\<Union>x \<in> set xs. if list_all (\<lambda>y. agrees y (hd (?F (k x)))) (?F (k x)) then {} else cx_targetKey ` set (?F (k x)))"
      by (simp only: groupBy_eq set_map set_js_set image_image snd_conv)
    also have "\<dots> = (\<Union>x \<in> set xs. if ?bad (k x) then cx_targetKey ` {y \<in> set xs. k y = k x} else {})"
      by (rule SUP_cong [OF refl]) (auto simp: list_all_iff)
    also have "\<dots> = {cx_targetKey x |x. x \<in> set xs \<and> ?bad (k x)}"
    proof (intro set_eqI iffI)
      fix t assume "t \<in> (\<Union>x \<in> set xs. if ?bad (k x) then cx_targetKey ` {y \<in> set xs. k y = k x} else {})"
      then obtain x where x: "x \<in> set xs" "t \<in> (if ?bad (k x) then cx_targetKey ` {y \<in> set xs. k y = k x} else {})" by (rule UN_E)
      then have b: "?bad (k x)" by (meson empty_iff)
      then obtain y where "y \<in> set xs" "k y = k x" "t = cx_targetKey y" using x(2) by auto
      moreover from this b have "?bad (k y)" by (simp only:)
      ultimately show "t \<in> {cx_targetKey x |x. x \<in> set xs \<and> ?bad (k x)}" by blast
    next
      fix t assume "t \<in> {cx_targetKey x |x. x \<in> set xs \<and> ?bad (k x)}"
      then obtain x where x: "x \<in> set xs" "t = cx_targetKey x" "?bad (k x)" by blast
      show "t \<in> (\<Union>x \<in> set xs. if ?bad (k x) then cx_targetKey ` {y \<in> set xs. k y = k x} else {})"
        by (rule UN_I [OF x(1)]) (simp only: if_P [OF x(3)] x(1,2), blast intro: x(1))
    qed
    finally show ?thesis unfolding group_conflicts_def by simp
  qed
  ultimately show ?thesis by simp
qed

lemma set_findConflictingTargets:
  "set (findConflictingTargets xs) =
     group_conflicts describesSameRevision cx_chunkRevisionId xs \<union> group_conflicts (\<lambda>l r. cx_text l = cx_text r) cx_contentDigest xs"
  unfolding findConflictingTargets_def set_judge_groups by simp

lemma conflicting_sub: "set (findConflictingTargets xs) \<subseteq> cx_targetKey ` set xs"
  unfolding set_findConflictingTargets group_conflicts_def by auto

function quarantine_loop :: "string list \<Rightarrow> context_candidate list \<Rightarrow> context_candidate list \<times> string list" where
  "quarantine_loop failed remaining =
     (let conflicting = findConflictingTargets remaining in
      if conflicting = [] then (remaining, failed)
      else (let failed' = fold set_add conflicting failed in
        quarantine_loop failed' (filter (\<lambda>c. cx_targetKey c \<notin> set failed') remaining)))"
  by pat_completeness auto

termination
proof (relation "measure (\<lambda>(failed, remaining). length remaining)")
  show "wf (measure (\<lambda>(failed :: string list, remaining :: context_candidate list). length remaining))" by simp
next
  fix failed :: "string list" and remaining conflicting failed'
  assume c: "conflicting = findConflictingTargets remaining" "conflicting \<noteq> []" and f: "failed' = fold set_add conflicting failed"
  obtain t where t: "t \<in> set conflicting" using list.set_sel(1) [OF c(2)] by blast
  then obtain x where x: "x \<in> set remaining" "cx_targetKey x = t" using conflicting_sub c(1) by blast
  have "\<not> (cx_targetKey x \<notin> set failed')" using t x(2) f by (simp add: set_fold_set_add)
  then have "length (filter (\<lambda>c. cx_targetKey c \<notin> set failed') remaining) < length remaining"
    using x(1) by (intro length_filter_less)
  then show "((failed', filter (\<lambda>c. cx_targetKey c \<notin> set failed') remaining), (failed, remaining)) \<in>
      measure (\<lambda>(failed, remaining). length remaining)" by simp
qed

declare quarantine_loop.simps [simp del]

definition quarantineConflicts :: "context_candidate list \<Rightarrow> context_candidate list \<times> string list" where
  "quarantineConflicts candidates = (let (sound, failed) = quarantine_loop [] candidates in (sound, sort failed))"

section \<open>Assembly\<close>

definition assembleDocumentContext ::
    "(js_number \<Rightarrow> string) \<Rightarrow> context_candidate list \<Rightarrow> context_budget \<Rightarrow> selection_error + assembled_context" where
  "assembleDocumentContext render candidates budget =
     res_bind (assertUsableBudget render budget) (\<lambda>_.
       let (sound, failedTargetKeys) = quarantineConflicts candidates in
       res_bind (fuseByChunkRevision render sound) (\<lambda>(chunks, omitted).
         let fused = sort_key chunk_key chunks;
             (distinctChunks, omitted') = dropRepeatedContent [] fused [] omitted;
             (admitted, omitted'') = applyBudget budget distinctChunks [] 0 False omitted'
         in Inr \<lparr>ab_chunks = admitted, ab_omitted = omitted'', ab_failedTargetKeys = failedTargetKeys\<rparr>))"

end
