(* ===== verification/Policy_Context.thy ===== *)
theory Policy_Context
  imports Selection_Types
begin

text \<open>
  What a deployment permits a query to reach: packages/selection-delivery/src/domain/policy-context.ts. The
  policy of a Card is checked at the boundary as a value of unknown shape, so the check is stated over
  JSON; the two fields of a context are any texts until they are checked.
\<close>

record policy_context =
  po_usage :: string
  po_sensitiveAccess :: string

definition DEFAULT_POLICY_CONTEXT :: policy_context where
  "DEFAULT_POLICY_CONTEXT = \<lparr>po_usage = ''retrieval'', po_sensitiveAccess = ''deny''\<rparr>"

datatype exclusion_reason = Usage_not_allowed | Sensitive_denied

record policy_exclusion =
  px_cardId :: string
  px_versionId :: string
  px_reason :: exclusion_reason

record policy_application =
  pa_context :: policy_context
  pa_eligible :: "approved_card list"
  pa_excluded :: "policy_exclusion list"

section \<open>Checks\<close>

definition assertValidPolicyContext :: "policy_context \<Rightarrow> selection_error + unit" where
  "assertValidPolicyContext c =
     (if po_usage c \<noteq> ''retrieval''
      then Inl (PolicyContextInvariantError (''policy usage must be \"retrieval\", received '' @ json_quote (po_usage c)))
      else if po_sensitiveAccess c \<noteq> ''deny'' \<and> po_sensitiveAccess c \<noteq> ''allow''
      then Inl (PolicyContextInvariantError
             (''policy sensitiveAccess must be \"deny\" or \"allow\", received '' @ json_quote (po_sensitiveAccess c)))
      else Inr ())"

fun json_member :: "string \<Rightarrow> json \<Rightarrow> json option" where
  "json_member k (JObj fs) = (case map_of (rev fs) k of None \<Rightarrow> None | Some v \<Rightarrow> v)"
| "json_member k _ = None"

text \<open>A Set tells arrays and objects apart by identity and everything else by value.\<close>

fun compared_by_value :: "json \<Rightarrow> bool" where
  "compared_by_value (JArr _) = False"
| "compared_by_value (JObj _) = False"
| "compared_by_value _ = True"

fun blank_or_no_string :: "json \<Rightarrow> bool" where
  "blank_or_no_string (JStr u) = (trim u = [])"
| "blank_or_no_string _ = True"

definition usage_problems :: "string \<Rightarrow> json list \<Rightarrow> string list" where
  "usage_problems label usages =
     (if usages = [] then [label @ '': allowedUsage is empty''] else []) @
     (if list_ex blank_or_no_string usages then [label @ '': allowedUsage holds a non-string or blank entry''] else []) @
     (if \<not> distinct (filter compared_by_value usages) then [label @ '': allowedUsage holds a duplicate''] else [])"

definition policy_problems :: "string \<Rightarrow> json \<Rightarrow> string list" where
  "policy_problems label policy =
     (case policy of
        JNull \<Rightarrow> [label @ '': policy is not an object'']
      | JBool _ \<Rightarrow> [label @ '': policy is not an object'']
      | JNum _ \<Rightarrow> [label @ '': policy is not an object'']
      | JStr _ \<Rightarrow> [label @ '': policy is not an object'']
      | _ \<Rightarrow>
          (case json_member ''sensitive'' policy of
             Some (JBool _) \<Rightarrow> [] | _ \<Rightarrow> [label @ '': sensitive is not a boolean'']) @
          (case json_member ''allowedUsage'' policy of
             Some (JArr usages) \<Rightarrow> usage_problems label usages
           | _ \<Rightarrow> [label @ '': allowedUsage is not an array'']))"

definition policy_value :: "card_policy \<Rightarrow> json" where
  "policy_value p = JObj [(''sensitive'', Some (JBool (cp_sensitive p))),
     (''allowedUsage'', Some (JArr (map JStr (cp_allowedUsage p))))]"

definition card_problems :: "approved_card \<Rightarrow> string list" where
  "card_problems c = policy_problems (ce_cardId c @ ''/'' @ ce_versionId c) (policy_value (ce_policy c))"

definition validateCatalogPolicies :: "approved_card list \<Rightarrow> selection_error + unit" where
  "validateCatalogPolicies cards =
     (let problems = concat (map card_problems cards) in
      if 0 < length problems
      then Inl (CardCatalogInvariantError (''approved catalog carries '' @ show_nat (length problems) @
        '' unreadable Card polic'' @ (if length problems = 1 then ''y'' else ''ies'') @ '': '' @ join ''; '' problems))
      else Inr ())"

section \<open>Application\<close>

definition exclusionReason :: "approved_card \<Rightarrow> policy_context \<Rightarrow> exclusion_reason option" where
  "exclusionReason c context =
     (if po_usage context \<notin> set (cp_allowedUsage (ce_policy c)) then Some Usage_not_allowed
      else if cp_sensitive (ce_policy c) \<and> po_sensitiveAccess context \<noteq> ''allow'' then Some Sensitive_denied
      else None)"

definition partition_card ::
    "policy_context \<Rightarrow> approved_card \<Rightarrow> approved_card list \<times> policy_exclusion list \<Rightarrow> approved_card list \<times> policy_exclusion list" where
  "partition_card context c acc =
     (case exclusionReason c context of
        None \<Rightarrow> (fst acc @ [c], snd acc)
      | Some r \<Rightarrow> (fst acc, snd acc @ [\<lparr>px_cardId = ce_cardId c, px_versionId = ce_versionId c, px_reason = r\<rparr>]))"

text \<open>The cache over catalog generations returns what was computed for the same list of Cards, and the list does not change.\<close>

definition applyPolicyContext :: "approved_card list \<Rightarrow> policy_context \<Rightarrow> selection_error + policy_application" where
  "applyPolicyContext cards context =
     res_bind (assertValidPolicyContext context) (\<lambda>_.
     res_bind (validateCatalogPolicies cards) (\<lambda>_.
       let acc = fold (partition_card context) cards ([], []) in
       Inr \<lparr>pa_context = context, pa_eligible = fst acc, pa_excluded = snd acc\<rparr>))"

section \<open>Laws\<close>

definition readable :: "card_policy \<Rightarrow> bool" where
  "readable p \<longleftrightarrow> cp_allowedUsage p \<noteq> [] \<and> distinct (cp_allowedUsage p) \<and> (\<forall>u \<in> set (cp_allowedUsage p). trim u \<noteq> [])"

lemma card_problems_none: "card_problems c = [] \<longleftrightarrow> readable (ce_policy c)"
proof -
  have f: "filter compared_by_value (map JStr us) = map JStr us" for us by (induction us) simp_all
  have d: "distinct (map JStr us) \<longleftrightarrow> distinct us" for us by (simp add: distinct_map inj_on_def)
  show ?thesis
    by (auto simp: card_problems_def policy_problems_def policy_value_def usage_problems_def readable_def f d list_ex_iff)
qed

lemma validateCatalogPolicies_ok: "validateCatalogPolicies cards = Inr u \<longleftrightarrow> (\<forall>c \<in> set cards. readable (ce_policy c))"
  by (auto simp: validateCatalogPolicies_def Let_def card_problems_none)

lemma partition_fold:
  "fold (partition_card context) cards acc =
     (fst acc @ filter (\<lambda>c. exclusionReason c context = None) cards,
      snd acc @ map (\<lambda>c. \<lparr>px_cardId = ce_cardId c, px_versionId = ce_versionId c, px_reason = the (exclusionReason c context)\<rparr>)
        (filter (\<lambda>c. exclusionReason c context \<noteq> None) cards))"
  by (induction cards arbitrary: acc) (auto simp: partition_card_def split: option.split)

lemma applyPolicyContext_ok:
  "applyPolicyContext cards context = Inr a \<longleftrightarrow>
     assertValidPolicyContext context = Inr () \<and> (\<forall>c \<in> set cards. readable (ce_policy c)) \<and>
     a = \<lparr>pa_context = context, pa_eligible = filter (\<lambda>c. exclusionReason c context = None) cards,
          pa_excluded = map (\<lambda>c. \<lparr>px_cardId = ce_cardId c, px_versionId = ce_versionId c,
            px_reason = the (exclusionReason c context)\<rparr>) (filter (\<lambda>c. exclusionReason c context \<noteq> None) cards)\<rparr>"
  by (auto simp: applyPolicyContext_def res_bind_eq_Inr validateCatalogPolicies_ok partition_fold Let_def)

text \<open>What the policy lets through: retrieval is allowed, and nothing sensitive unless the deployment allows it.\<close>

lemma eligible_iff:
  assumes "applyPolicyContext cards context = Inr a"
  shows "c \<in> set (pa_eligible a) \<longleftrightarrow> c \<in> set cards \<and> ''retrieval'' \<in> set (cp_allowedUsage (ce_policy c)) \<and>
    (cp_sensitive (ce_policy c) \<longrightarrow> po_sensitiveAccess context = ''allow'')"
  using assms by (auto simp: applyPolicyContext_ok exclusionReason_def assertValidPolicyContext_def split: if_splits)

end
