(* ===== verification/Bounded_Ranking.thy ===== *)
theory Bounded_Ranking
  imports Js_Numbers
begin

text \<open>
  The bounded insertion two modules of the selection share: a list of at most \<open>limit\<close> entries, best first,
  into which an entry is spliced at the place a binary search finds. \<open>compare\<close> is the comparator of the
  module. A comparator that orders by a key makes the list the prefix of the stable sort by that key.
\<close>

function search_low :: "('a \<Rightarrow> 'a \<Rightarrow> js_number) \<Rightarrow> 'a \<Rightarrow> 'a list \<Rightarrow> nat \<Rightarrow> nat \<Rightarrow> nat" where
  "search_low cmp c xs low high =
     (if low < high
      then (let middle = (low + high) div 2 in
            if js_less (cmp c (xs ! middle)) (Finite 0)
            then search_low cmp c xs low middle
            else search_low cmp c xs (middle + 1) high)
      else low)"
  by pat_completeness auto
termination by (relation "measure (\<lambda>(_, _, _, low, high). high - low)") auto

declare search_low.simps [simp del]

definition top_step :: "('a \<Rightarrow> 'a \<Rightarrow> js_number) \<Rightarrow> nat \<Rightarrow> 'a \<Rightarrow> 'a list \<Rightarrow> 'a list" where
  "top_step cmp limit c strongest =
     (if length strongest = limit \<and> js_less_eq (Finite 0) (cmp c (last strongest)) then strongest
      else (let low = search_low cmp c strongest 0 (length strongest);
                spliced = take low strongest @ c # drop low strongest
            in if limit < length spliced then butlast spliced else spliced))"

section \<open>Splicing\<close>

definition insert_at :: "nat \<Rightarrow> 'a \<Rightarrow> 'a list \<Rightarrow> 'a list" where
  "insert_at p x xs = take p xs @ x # drop p xs"

lemma sort_snoc:
  assumes "p \<le> length xs" and s: "s = sort_key key xs"
    and low: "\<forall>i < p. key (s ! i) \<le> key x" and high: "\<forall>i. p \<le> i \<and> i < length s \<longrightarrow> key x < (key (s ! i) :: 'k :: linorder)"
  shows "sort_key key (xs @ [x]) = insert_at p x s"
proof (rule properties_for_sort_key)
  have len: "length s = length xs" by (simp add: s)
  have split: "mset s = mset (take p s) + mset (drop p s)" by (metis append_take_drop_id mset_append)
  show "mset (insert_at p x s) = mset (xs @ [x])"
    using split by (simp add: insert_at_def s)
  have t: "y \<in> set (take p s) \<Longrightarrow> key y \<le> key x" for y
    using low assms(1) len by (auto simp: in_set_conv_nth)
  have d: "y \<in> set (drop p s) \<Longrightarrow> key x < key y" for y
    using high assms(1) len by (auto simp: in_set_conv_nth)
  show "filter (\<lambda>y. key k = key y) (insert_at p x s) = filter (\<lambda>y. key k = key y) (xs @ [x])" for k
  proof -
    have stable: "filter (\<lambda>y. key k = key y) s = filter (\<lambda>y. key k = key y) xs"
      unfolding s using sort_key_stable [of key "key k" xs] by (simp add: eq_commute)
    have "filter (\<lambda>y. key k = key y) s =
        filter (\<lambda>y. key k = key y) (take p s) @ filter (\<lambda>y. key k = key y) (drop p s)"
      by (metis append_take_drop_id filter_append)
    moreover have "key k = key x \<Longrightarrow> filter (\<lambda>y. key k = key y) (drop p s) = []"
      using d by (fastforce simp: filter_empty_conv)
    ultimately show ?thesis using stable by (auto simp: insert_at_def)
  qed
  have "sorted (map key s)" by (simp add: s)
  then have "sorted (map key (take p s))" "sorted (map key (drop p s))"
    by (simp_all add: sorted_wrt_take sorted_wrt_drop flip: take_map drop_map)
  moreover have "key y \<le> key z" if "y \<in> set (take p s)" "z \<in> set (drop p s)" for y z
    using t [OF that(1)] d [OF that(2)] by simp
  ultimately show "sorted (map key (insert_at p x s))"
    using t less_imp_le [OF d] by (auto simp: insert_at_def sorted_append)
qed

lemma take_insert:
  assumes "q \<le> length (take limit s)"
  shows "take limit (insert_at q x s) =
    (if limit < length (insert_at q x (take limit s)) then butlast (insert_at q x (take limit s))
     else insert_at q x (take limit s))"
proof -
  let ?t = "take limit s"
  have q: "q \<le> length s" "q \<le> limit" using assms by simp_all
  have whole: "insert_at q x s = take q ?t @ x # (drop q ?t @ drop limit s)"
  proof -
    have "take q ?t = take q s" using q(2) by (simp add: min_absorb1)
    moreover have "drop q s = drop q ?t @ drop limit s"
      using q by (metis append_take_drop_id assms drop_append diff_is_0_eq drop0)
    ultimately show ?thesis by (simp add: insert_at_def)
  qed
  have len: "length (insert_at q x ?t) = length ?t + 1" using assms by (simp add: insert_at_def)
  show ?thesis
  proof (cases "limit \<le> length s")
    case True
    then have "length (insert_at q x ?t) = limit + 1" using len by simp
    moreover have "take limit (insert_at q x s) = take limit (insert_at q x ?t)"
    proof -
      have "insert_at q x s = insert_at q x ?t @ drop limit s" unfolding whole by (simp add: insert_at_def)
      then show ?thesis using \<open>length (insert_at q x ?t) = limit + 1\<close> by simp
    qed
    ultimately show ?thesis by (simp add: butlast_conv_take)
  next
    case False
    then have "?t = s" by simp
    then show ?thesis using len False by simp
  qed
qed

lemma last_take_nth: "0 < n \<Longrightarrow> n \<le> length xs \<Longrightarrow> last (take n xs) = xs ! (n - 1)"
  by (subst last_conv_nth) auto

section \<open>The binary search\<close>

lemma search_low_spec:
  assumes "sorted (map key xs)" and "low \<le> high" and "high \<le> length xs"
    and "\<And>d. d \<in> set xs \<Longrightarrow> js_less (cmp c d) (Finite 0) \<longleftrightarrow> (key c :: 'k :: linorder) < key d"
    and "\<forall>i < low. key (xs ! i) \<le> key c" and "\<forall>i. high \<le> i \<and> i < length xs \<longrightarrow> key c < key (xs ! i)"
  shows "search_low cmp c xs low high \<le> length xs \<and> (\<forall>i < search_low cmp c xs low high. key (xs ! i) \<le> key c) \<and>
    (\<forall>i. search_low cmp c xs low high \<le> i \<and> i < length xs \<longrightarrow> key c < key (xs ! i))"
  using assms
proof (induction cmp c xs low high rule: search_low.induct)
  case (1 cmp c xs low high)
  show ?case
  proof (cases "low < high")
    case False
    then have "search_low cmp c xs low high = low" "low = high" using "1.prems"(2) by (simp_all add: search_low.simps)
    then show ?thesis using "1.prems" by auto
  next
    case True
    let ?m = "(low + high) div 2"
    have m: "low \<le> ?m" "?m < high" "?m < length xs" using True "1.prems"(3) by auto
    have cmp: "js_less (cmp c (xs ! ?m)) (Finite 0) \<longleftrightarrow> key c < key (xs ! ?m)"
      using "1.prems"(4) m(3) by simp
    have mono: "key (xs ! i) \<le> key (xs ! j)" if "i \<le> j" "j < length xs" for i j
      using sorted_nth_mono [OF "1.prems"(1), of i j] that by simp
    show ?thesis
    proof (cases "js_less (cmp c (xs ! ?m)) (Finite 0)")
      case less: True
      have "\<forall>i. ?m \<le> i \<and> i < length xs \<longrightarrow> key c < key (xs ! i)" using less cmp mono by (meson less_le_trans)
      moreover have "search_low cmp c xs low high = search_low cmp c xs low ?m"
        using True less by (simp add: search_low.simps [of cmp c xs low high])
      ultimately show ?thesis
        using "1.IH"(1) [OF True refl less "1.prems"(1) m(1) less_imp_le [OF m(3)] "1.prems"(4,5)] by simp
    next
      case ge: False
      have "key (xs ! i) \<le> key c" if "i < ?m + 1" for i
      proof -
        have "key (xs ! i) \<le> key (xs ! ?m)" using mono [of i ?m] that m(3) by simp
        also have "\<dots> \<le> key c" using ge cmp by simp
        finally show ?thesis .
      qed
      then have low: "\<forall>i < ?m + 1. key (xs ! i) \<le> key c" by blast
      have "?m + 1 \<le> high" using m(2) by simp
      moreover have "search_low cmp c xs low high = search_low cmp c xs (?m + 1) high"
        using True ge by (simp add: search_low.simps [of cmp c xs low high])
      ultimately show ?thesis
        using "1.IH"(2) [OF True refl ge "1.prems"(1) _ "1.prems"(3,4) low "1.prems"(6)] by simp
    qed
  qed
qed

section \<open>Comparators of a key\<close>

locale keyed_comparison =
  fixes cmp :: "'a \<Rightarrow> 'a \<Rightarrow> js_number" and comparable :: "'a \<Rightarrow> bool" and key :: "'a \<Rightarrow> 'k :: linorder"
  assumes compare_less: "comparable c \<Longrightarrow> comparable d \<Longrightarrow> js_less (cmp c d) (Finite 0) \<longleftrightarrow> key c < key d"
    and compare_ge: "comparable c \<Longrightarrow> comparable d \<Longrightarrow> js_less_eq (Finite 0) (cmp c d) \<longleftrightarrow> key d \<le> key c"
begin

lemma top_step_spec:
  assumes fin: "\<forall>d \<in> set (xs @ [c]). comparable d" and limit: "0 < limit"
  shows "top_step cmp limit c (take limit (sort_key key xs)) = take limit (sort_key key (xs @ [c]))"
proof -
  let ?s = "sort_key key xs"
  let ?t = "take limit ?s"
  have sorted: "sorted (map key ?s)" by simp
  then have sorted_t: "sorted (map key ?t)" by (simp add: sorted_wrt_take flip: take_map)
  have mono: "key (?s ! i) \<le> key (?s ! j)" if "i \<le> j" "j < length ?s" for i j
    using sorted_nth_mono [OF sorted, of i j] that by simp
  have f: "comparable d" if "d \<in> set ?s" for d using fin that by simp
  have fc: "comparable c" using fin by simp
  show ?thesis
  proof (cases "length ?t = limit \<and> js_less_eq (Finite 0) (cmp c (last ?t))")
    case True
    then have len: "limit \<le> length ?s" by (simp add: min_def split: if_splits)
    note last = last_take_nth [OF limit this]
    have "?s ! (limit - 1) \<in> set ?s" by (rule nth_mem) (use len limit in simp)
    then have key: "key (?s ! (limit - 1)) \<le> key c"
      using True f compare_ge [OF fc] unfolding last by blast
    obtain p where p: "p \<le> length ?s" "\<forall>i < p. key (?s ! i) \<le> key c"
      "\<forall>i. p \<le> i \<and> i < length ?s \<longrightarrow> key c < key (?s ! i)"
    proof -
      have "search_low cmp c ?s 0 (length ?s) \<le> length ?s \<and> (\<forall>i < search_low cmp c ?s 0 (length ?s). key (?s ! i) \<le> key c) \<and>
          (\<forall>i. search_low cmp c ?s 0 (length ?s) \<le> i \<and> i < length ?s \<longrightarrow> key c < key (?s ! i))"
        by (rule search_low_spec [OF sorted]) (auto simp: compare_less fc f)
      then show ?thesis using that by blast
    qed
    have "limit \<le> p"
    proof (rule ccontr)
      assume "\<not> limit \<le> p"
      then have "p \<le> limit - 1" "limit - 1 < length ?s" using limit len by auto
      then show False using p(3) key by (meson leD)
    qed
    moreover have "sort_key key (xs @ [c]) = insert_at p c ?s"
      by (rule sort_snoc [OF _ refl p(2,3)]) (use p(1) in simp)
    ultimately have "take limit (sort_key key (xs @ [c])) = ?t"
      using p(1) by (simp add: insert_at_def min_absorb1)
    then show ?thesis using True by (simp add: top_step_def)
  next
    case False
    let ?q = "search_low cmp c ?t 0 (length ?t)"
    have mem: "d \<in> set ?t \<Longrightarrow> d \<in> set ?s" for d by (rule in_set_takeD)
    have q: "?q \<le> length ?t \<and> (\<forall>i < ?q. key (?t ! i) \<le> key c) \<and>
        (\<forall>i. ?q \<le> i \<and> i < length ?t \<longrightarrow> key c < key (?t ! i))"
      by (rule search_low_spec [OF sorted_t]) (auto simp: compare_less fc f dest: mem)
    have nth: "i < length ?t \<Longrightarrow> ?t ! i = ?s ! i" for i by simp
    have low: "\<forall>i < ?q. key (?s ! i) \<le> key c"
    proof (intro allI impI)
      fix i assume i: "i < ?q"
      then have "key (?t ! i) \<le> key c" using q by blast
      then show "key (?s ! i) \<le> key c" 
        unfolding nth [OF less_le_trans [OF i conjunct1 [OF q]]] .
    qed
    have high: "key c < key (?s ! i)" if i: "?q \<le> i" "i < length ?s" for i
    proof (cases "i < limit")
      case True
      then show ?thesis using q i by simp
    next
      case out: False
      then have len: "length ?t = limit" and le: "limit \<le> length ?s" using i(2) by simp_all
      note last = last_take_nth [OF limit le]
      have "?s ! (limit - 1) \<in> set ?s" by (rule nth_mem) (use out i(2) in simp)
      then have "key c < key (?s ! (limit - 1))"
        using False len f compare_ge [OF fc] unfolding last by (metis not_less)
      also have "\<dots> \<le> key (?s ! i)" using mono [of "limit - 1" i] out i(2) by simp
      finally show ?thesis .
    qed
    have "sort_key key (xs @ [c]) = insert_at ?q c ?s"
    proof (rule sort_snoc [OF _ refl low])
      show "?q \<le> length xs" using q by simp
    qed (use high in blast)
    moreover have "top_step cmp limit c ?t =
        (if limit < length (insert_at ?q c ?t) then butlast (insert_at ?q c ?t) else insert_at ?q c ?t)"
      using False by (auto simp: top_step_def Let_def insert_at_def)
    ultimately show ?thesis using take_insert [of ?q limit ?s c] q by simp
  qed
qed

lemma bounded_prefix:
  assumes "\<forall>d \<in> set xs. comparable d" and "0 < limit"
  shows "fold (top_step cmp limit) xs [] = take limit (sort_key key xs)"
  using assms(1)
proof (induction xs rule: rev_induct)
  case (snoc c xs)
  then have "fold (top_step cmp limit) xs [] = take limit (sort_key key xs)" by simp
  then show ?case using top_step_spec [OF snoc.prems assms(2)] by simp
qed simp

end

end
