(* ===== verification/Hybrid_Ranking.thy ===== *)
theory Hybrid_Ranking
  imports Bounded_Ranking
begin

text \<open>
  \<open>domain/hybrid-ranking.ts\<close>: how a lexical and a semantic signal combine to one score per Card.

  The arithmetic of scores is exact here; the rounding of doubles is not modelled. Values that
  are not finite are, since the code treats them.
\<close>

section \<open>Candidates\<close>

datatype signal_field = KeywordSignal | AliasSignal | QuestionSignal | DescriptionSignal | Bm25Signal | ScopeSignal

record score_signal =
  sg_field :: signal_field
  sg_matched :: string
  sg_contribution :: js_number

record candidate_score =
  qs_cardId :: string
  qs_versionId :: string
  qs_score :: js_number
  qs_signals :: "score_signal list"

record hybrid_candidate = candidate_score +
  hc_lexicalScore :: js_number
  hc_semanticSimilarity :: "js_number option"
  hc_semanticScore :: js_number

record card_similarity =
  sy_cardId :: string
  sy_cardVersionId :: string
  sy_similarity :: js_number

datatype selection_mode = Hybrid | LexicalDegraded

fun selection_mode_text :: "selection_mode \<Rightarrow> string" where
  "selection_mode_text Hybrid = ''hybrid''"
| "selection_mode_text LexicalDegraded = ''lexical_degraded''"

definition HYBRID_SCORING_POLICY_VERSION :: string where
  "HYBRID_SCORING_POLICY_VERSION = ''selection-hybrid-v4''"

definition scoringPolicyVersionFor :: "selection_mode \<Rightarrow> string" where
  "scoringPolicyVersionFor mode = (if mode = Hybrid then HYBRID_SCORING_POLICY_VERSION else ''selection-lexical-v4'')"

definition assertSelectionScoringPairing :: "selection_mode \<Rightarrow> string \<Rightarrow> selection_error + unit" where
  "assertSelectionScoringPairing mode scoring =
     (let expected = scoringPolicyVersionFor mode in
      if scoring \<noteq> expected
      then Inl (SelectionModeInvariantError (''selection mode '' @ selection_mode_text mode @ '' requires scoring '' @
             expected @ '', received '' @ scoring))
      else Inr ())"

section \<open>The policy\<close>

definition SEMANTIC_SIMILARITY_FLOOR :: js_number where
  "SEMANTIC_SIMILARITY_FLOOR = Finite (85 / 100)"
definition SEMANTIC_SECONDARY_SCORE_CEILING :: js_number where
  "SEMANTIC_SECONDARY_SCORE_CEILING = Finite (34 / 100)"
definition SEMANTIC_CONFIDENT_SIMILARITY_FLOOR :: js_number where
  "SEMANTIC_CONFIDENT_SIMILARITY_FLOOR = Finite (8 / 10)"
definition SEMANTIC_CONFIDENT_MARGIN :: js_number where
  "SEMANTIC_CONFIDENT_MARGIN = Finite (3 / 100)"
definition SEMANTIC_CONFIDENT_SCORE :: js_number where
  "SEMANTIC_CONFIDENT_SCORE = Finite (85 / 100)"
definition SEMANTIC_ABSOLUTE_ADMIT_FLOOR :: js_number where
  "SEMANTIC_ABSOLUTE_ADMIT_FLOOR = Finite (9 / 10)"
definition SEMANTIC_LEXICAL_SUPPORT_FLOOR :: js_number where
  "SEMANTIC_LEXICAL_SUPPORT_FLOOR = Finite (8 / 10)"
definition DIRECT_EVIDENCE_OVERRIDE_FLOOR :: js_number where
  "DIRECT_EVIDENCE_OVERRIDE_FLOOR = Finite (91 / 100)"
definition LEXICAL_SEMANTIC_AGREEMENT_FLOOR :: js_number where
  "LEXICAL_SEMANTIC_AGREEMENT_FLOOR = Finite (82 / 100)"
definition LEXICAL_SEMANTIC_AGREEMENT_MARGIN :: js_number where
  "LEXICAL_SEMANTIC_AGREEMENT_MARGIN = Finite (2 / 100)"

lemmas policy_values = SEMANTIC_SIMILARITY_FLOOR_def SEMANTIC_SECONDARY_SCORE_CEILING_def
  SEMANTIC_CONFIDENT_SIMILARITY_FLOOR_def SEMANTIC_CONFIDENT_MARGIN_def SEMANTIC_CONFIDENT_SCORE_def
  SEMANTIC_ABSOLUTE_ADMIT_FLOOR_def SEMANTIC_LEXICAL_SUPPORT_FLOOR_def DIRECT_EVIDENCE_OVERRIDE_FLOOR_def
  LEXICAL_SEMANTIC_AGREEMENT_FLOOR_def LEXICAL_SEMANTIC_AGREEMENT_MARGIN_def

definition clampToUnitInterval :: "js_number \<Rightarrow> js_number" where
  "clampToUnitInterval value = (if \<not> is_finite value then Finite 0 else js_min (js_max value (Finite 0)) (Finite 1))"

definition semanticScoreFor :: "js_number \<Rightarrow> js_number" where
  "semanticScoreFor similarity =
     (if \<not> is_finite similarity \<or> js_less_eq similarity SEMANTIC_SIMILARITY_FLOOR then Finite 0
      else js_min (js_max similarity (Finite 0)) (Finite 1))"

definition combineHybridScore :: "js_number \<Rightarrow> js_number \<Rightarrow> js_number" where
  "combineHybridScore lexicalScore semanticScore =
     clampToUnitInterval (js_max (clampToUnitInterval lexicalScore) (clampToUnitInterval semanticScore))"

section \<open>The strongest lexical candidates\<close>

definition compareLexical :: "candidate_score \<Rightarrow> candidate_score \<Rightarrow> js_number" where
  "compareLexical left right =
     (if \<not> js_eq (qs_score left) (qs_score right) then js_minus (qs_score right) (qs_score left)
      else if qs_versionId left < qs_versionId right then Finite (-1)
      else if qs_versionId right < qs_versionId left then Finite 1 else Finite 0)"

definition topLexical :: "candidate_score list \<Rightarrow> nat \<Rightarrow> candidate_score list" where
  "topLexical candidates limit = (if limit \<le> 0 then [] else fold (top_step compareLexical limit) candidates [])"

section \<open>Ranking\<close>

record hybrid_input =
  hy_lexical :: "candidate_score list"
  hy_semantic :: "card_similarity list"
  hy_lexicalTopK :: nat

record prepared_ranking =
  pr_similarityByVersionId :: "(string \<times> js_number) list"
  pr_leadingSemanticVersionId :: "string option"
  pr_leadingSemanticSimilarity :: "js_number option"
  pr_runnerUpSemanticSimilarity :: "js_number option"
  pr_strongestLexicalScore :: js_number
  pr_leadingLexicalVersionId :: "string option"
  pr_union :: "string list"

definition nth_option :: "'a list \<Rightarrow> nat \<Rightarrow> 'a option" where
  "nth_option xs i = (if i < length xs then Some (xs ! i) else None)"

definition prepareHybridRanking :: "hybrid_input \<Rightarrow> prepared_ranking" where
  "prepareHybridRanking input =
     (let similarityByVersionId = js_map (map (\<lambda>e. (sy_cardVersionId e, sy_similarity e)) (hy_semantic input));
          strongest = foldl (\<lambda>m c. js_max m (qs_score c)) (Finite 0) (hy_lexical input);
          leaders = filter (\<lambda>c. js_eq (qs_score c) strongest) (hy_lexical input)
      in \<lparr>pr_similarityByVersionId = similarityByVersionId,
          pr_leadingSemanticVersionId = map_option sy_cardVersionId (nth_option (hy_semantic input) 0),
          pr_leadingSemanticSimilarity = map_option sy_similarity (nth_option (hy_semantic input) 0),
          pr_runnerUpSemanticSimilarity = map_option sy_similarity (nth_option (hy_semantic input) 1),
          pr_strongestLexicalScore = strongest,
          pr_leadingLexicalVersionId =
            (if js_less (Finite 0) strongest \<and> length leaders = 1 then Some (qs_versionId (leaders ! 0)) else None),
          pr_union = fold set_add (map qs_versionId (topLexical (hy_lexical input) (hy_lexicalTopK input)))
            (js_set (map fst similarityByVersionId))\<rparr>)"

definition semanticSimilarityForCandidate :: "candidate_score \<Rightarrow> prepared_ranking \<Rightarrow> js_number option" where
  "semanticSimilarityForCandidate c context =
     (if qs_versionId c \<in> set (pr_union context) then map_of (pr_similarityByVersionId context) (qs_versionId c) else None)"

definition confidentLeadingSemanticScore ::
    "js_number \<Rightarrow> js_number \<Rightarrow> js_number \<Rightarrow> js_number option \<Rightarrow> js_number \<Rightarrow> js_number" where
  "confidentLeadingSemanticScore lexicalScore rawScore similarity runnerUp strongestLexicalScore =
     (let margin = js_minus similarity (case runnerUp of None \<Rightarrow> Finite 0 | Some r \<Rightarrow> r);
          strongerDirectEvidenceExists =
            js_less_eq DIRECT_EVIDENCE_OVERRIDE_FLOOR strongestLexicalScore \<and> js_less lexicalScore strongestLexicalScore
      in if (js_less_eq SEMANTIC_CONFIDENT_SIMILARITY_FLOOR similarity \<and> js_less_eq SEMANTIC_CONFIDENT_MARGIN margin)
           \<or> js_less_eq SEMANTIC_ABSOLUTE_ADMIT_FLOOR similarity
           \<or> (js_less SEMANTIC_SIMILARITY_FLOOR similarity \<and> js_less_eq SEMANTIC_LEXICAL_SUPPORT_FLOOR lexicalScore \<and>
              \<not> strongerDirectEvidenceExists)
         then js_max rawScore SEMANTIC_CONFIDENT_SCORE
         else js_min rawScore SEMANTIC_SECONDARY_SCORE_CEILING)"

definition agreed_lead :: "candidate_score \<Rightarrow> prepared_ranking \<Rightarrow> js_number option \<Rightarrow> bool" where
  "agreed_lead c context similarity \<longleftrightarrow>
     Some (qs_versionId c) = pr_leadingLexicalVersionId context \<and>
     js_less_eq SEMANTIC_LEXICAL_SUPPORT_FLOOR (qs_score c) \<and> js_less (qs_score c) SEMANTIC_CONFIDENT_SCORE \<and>
     (case (similarity, pr_leadingSemanticSimilarity context) of
        (Some s, Some lead) \<Rightarrow> js_less_eq LEXICAL_SEMANTIC_AGREEMENT_FLOOR s \<and>
          js_less_eq (js_minus lead s) LEXICAL_SEMANTIC_AGREEMENT_MARGIN
      | _ \<Rightarrow> False)"

definition semanticScoreForCandidate :: "candidate_score \<Rightarrow> prepared_ranking \<Rightarrow> js_number option \<Rightarrow> js_number" where
  "semanticScoreForCandidate c context similarity =
     (let rawSemanticScore = (case similarity of None \<Rightarrow> Finite 0 | Some s \<Rightarrow> semanticScoreFor s) in
      if agreed_lead c context similarity then js_max rawSemanticScore SEMANTIC_CONFIDENT_SCORE
      else (case (Some (qs_versionId c) = pr_leadingSemanticVersionId context, pr_leadingSemanticSimilarity context) of
          (True, Some lead) \<Rightarrow> confidentLeadingSemanticScore (qs_score c) rawSemanticScore lead
            (pr_runnerUpSemanticSimilarity context) (pr_strongestLexicalScore context)
        | _ \<Rightarrow> js_min rawSemanticScore SEMANTIC_SECONDARY_SCORE_CEILING))"

definition hybrid_candidate_of :: "prepared_ranking \<Rightarrow> candidate_score \<Rightarrow> hybrid_candidate" where
  "hybrid_candidate_of context c =
     (let similarity = semanticSimilarityForCandidate c context;
          semantic = semanticScoreForCandidate c context similarity
      in \<lparr>qs_cardId = qs_cardId c, qs_versionId = qs_versionId c, qs_score = combineHybridScore (qs_score c) semantic,
          qs_signals = qs_signals c, hc_lexicalScore = qs_score c, hc_semanticSimilarity = similarity,
          hc_semanticScore = semantic\<rparr>)"

definition rankHybridCandidates :: "hybrid_input \<Rightarrow> hybrid_candidate list" where
  "rankHybridCandidates input =
     (let context = prepareHybridRanking input in map (hybrid_candidate_of context) (hy_lexical input))"

definition rankHybridCandidateScores :: "hybrid_input \<Rightarrow> candidate_score list" where
  "rankHybridCandidateScores input =
     (let context = prepareHybridRanking input in
      map (\<lambda>c. let similarity = semanticSimilarityForCandidate c context;
                   semantic = semanticScoreForCandidate c context similarity;
                   score = combineHybridScore (qs_score c) semantic
               in if js_eq score (qs_score c) then c else c\<lparr>qs_score := score\<rparr>) (hy_lexical input))"

end
