(* ===== verification/Query_Scoring.thy ===== *)
theory Query_Scoring
  imports Hybrid_Ranking
begin

text \<open>
  \<open>domain/query-scoring.ts\<close>: the lexical score of every approved Card against a query.

  Arithmetic is exact on rationals, the rounding of doubles is not modelled; \<open>Math.log\<close> and
  \<open>Math.log1p\<close> are parameters, and so is \<open>normalize("NFKC")\<close>. A HOL character
  stops at U+00FF, so the Hangul class and the Korean word lists of the source are the parameters
  of a lexicon, and everything the code does with them is written out.
\<close>

section \<open>The lexicon\<close>

record lexicon =
  lx_nfkc :: "string \<Rightarrow> string"
  lx_hangul :: "char \<Rightarrow> bool"
  lx_koreanStopWords :: "string list"
  lx_passiveSuffixes :: "string list"
  lx_particles :: "string list"
  lx_koreanIntents :: "string \<Rightarrow> string list"
  lx_log :: "rat \<Rightarrow> rat"
  lx_log1p :: "rat \<Rightarrow> rat"

definition STOP_WORDS :: "lexicon \<Rightarrow> string list" where
  "STOP_WORDS lx = [''a'', ''an'', ''and'', ''are'', ''for'', ''how'', ''is'', ''of'', ''or'', ''the'', ''to'',
     ''what'', ''when'', ''where'', ''which'', ''with''] @ lx_koreanStopWords lx"

definition SOURCE_INTENT_TOKENS :: "lexicon \<Rightarrow> (string \<times> string list) list" where
  "SOURCE_INTENT_TOKENS lx =
     [(''managed_document'', [''document'', ''guide'', ''policy''] @ lx_koreanIntents lx ''managed_document''),
      (''sql_source'', [''data'', ''log'', ''record'', ''records'', ''table''] @ lx_koreanIntents lx ''sql_source''),
      (''http_source'', [''api'', ''endpoint'', ''live''] @ lx_koreanIntents lx ''http_source'')]"

fun collapse_space :: "bool \<Rightarrow> string \<Rightarrow> string" where
  "collapse_space inside [] = []"
| "collapse_space inside (c # cs) =
     (if is_space_char c then (if inside then collapse_space True cs else CHR '' '' # collapse_space True cs)
      else c # collapse_space False cs)"

definition normalizeLexicalText :: "lexicon \<Rightarrow> string \<Rightarrow> string" where
  "normalizeLexicalText lx t = trim (collapse_space False (to_lower (lx_nfkc lx t)))"

definition ends_with :: "string \<Rightarrow> string \<Rightarrow> bool" where
  "ends_with value suffix \<longleftrightarrow> length suffix \<le> length value \<and> drop (length value - length suffix) value = suffix"

definition starts_with :: "string \<Rightarrow> string \<Rightarrow> bool" where
  "starts_with value prefix \<longleftrightarrow> take (length prefix) value = prefix"

fun strip_suffix :: "string list \<Rightarrow> string \<Rightarrow> string option" where
  "strip_suffix [] value = None"
| "strip_suffix (s # ss) value =
     (if ends_with value s \<and> length s + 1 < length value then Some (take (length value - length s) value)
      else strip_suffix ss value)"

definition normalizeKoreanSuffix :: "lexicon \<Rightarrow> string \<Rightarrow> string" where
  "normalizeKoreanSuffix lx value =
     (if \<not> list_ex (lx_hangul lx) value \<or> length value < 3 then value
      else (case strip_suffix (lx_passiveSuffixes lx) value of
          Some stem \<Rightarrow> stem
        | None \<Rightarrow> (case strip_suffix (lx_particles lx) value of Some stem \<Rightarrow> stem | None \<Rightarrow> value)))"

definition is_word_char :: "char \<Rightarrow> bool" where
  "is_word_char c \<longleftrightarrow> is_letter_char c \<or> is_number_char c"

fun word_runs :: "string \<Rightarrow> string \<Rightarrow> string list" where
  "word_runs word [] = (if word = [] then [] else [word])"
| "word_runs word (c # cs) =
     (if is_word_char c then word_runs (word @ [c]) cs
      else if word = [] then word_runs [] cs else word # word_runs [] cs)"

definition tokenizeLexicalText :: "lexicon \<Rightarrow> string \<Rightarrow> string list" where
  "tokenizeLexicalText lx t =
     filter (\<lambda>token. 0 < length token \<and> token \<notin> set (STOP_WORDS lx)) (map (normalizeKoreanSuffix lx) (word_runs [] t))"

definition uniqueInOrder :: "string list \<Rightarrow> string list" where
  "uniqueInOrder values = (if length values < 2 then values else js_set values)"

section \<open>N-grams\<close>

definition ngrams_of_size :: "nat \<Rightarrow> string \<Rightarrow> string list" where
  "ngrams_of_size n packed = map (\<lambda>index. take n (drop index packed)) [0..<length packed + 1 - n]"

definition characterNgrams :: "string \<Rightarrow> string list" where
  "characterNgrams t = (let packed = filter (\<lambda>c. \<not> is_space_char c) t in
     js_set (ngrams_of_size 2 packed @ ngrams_of_size 3 packed))"

type_synonym dictionary = "(string \<times> nat) list"

fun dictionary_ids :: "string list \<Rightarrow> dictionary \<Rightarrow> nat list \<times> dictionary" where
  "dictionary_ids [] d = ([], d)"
| "dictionary_ids (g # gs) d =
     (case map_of d g of
        Some i \<Rightarrow> (let (ids, d') = dictionary_ids gs d in (i # ids, d'))
      | None \<Rightarrow> (let (ids, d') = dictionary_ids gs (d @ [(g, length d)]) in (length d # ids, d')))"

definition catalogNgramIds :: "string \<Rightarrow> dictionary \<Rightarrow> nat list \<times> dictionary" where
  "catalogNgramIds t d = (let (ids, d') = dictionary_ids (characterNgrams t) d in (sort ids, d'))"

record query_ngrams =
  qn_knownIds :: "nat list"
  qn_size :: nat

definition queryNgrams :: "string \<Rightarrow> dictionary \<Rightarrow> query_ngrams" where
  "queryNgrams t d = (let ngrams = characterNgrams t in
     \<lparr>qn_knownIds = sort (List.map_filter (map_of d) ngrams), qn_size = length ngrams\<rparr>)"

fun shared_ids :: "nat list \<Rightarrow> nat list \<Rightarrow> nat" where
  "shared_ids (l # ls) (r # rs) =
     (if l = r then 1 + shared_ids ls rs
      else if l < r then shared_ids ls (r # rs) else shared_ids (l # ls) rs)"
| "shared_ids ls rs = 0"

definition ngramDice :: "query_ngrams \<Rightarrow> nat list \<Rightarrow> rat" where
  "ngramDice left right =
     (if qn_size left = 0 \<or> right = [] then 0
      else of_nat (2 * shared_ids (qn_knownIds left) right) / of_nat (qn_size left + length right))"

section \<open>The catalog index\<close>

fun FIELD_WEIGHTS :: "signal_field \<Rightarrow> rat" where
  "FIELD_WEIGHTS KeywordSignal = 3"
| "FIELD_WEIGHTS AliasSignal = 5 / 2"
| "FIELD_WEIGHTS QuestionSignal = 3 / 2"
| "FIELD_WEIGHTS DescriptionSignal = 3 / 4"
| "FIELD_WEIGHTS ScopeSignal = 2"
| "FIELD_WEIGHTS Bm25Signal = 0"

record weighted_field =
  wf_field :: signal_field
  wf_text :: string
  wf_weight :: rat
  wf_tokens :: "string list"
  wf_ngramIds :: "nat list"

record indexed_card =
  ix_card :: approved_card
  ix_fields :: "weighted_field list"
  ix_termFrequency :: "(string \<times> rat) list"
  ix_declaredVocabularySize :: nat
  ix_humanAliasCount :: nat
  ix_broadGenerated :: bool
  ix_weightedLength :: rat
  ix_noScore :: candidate_score
  ix_weakIndirect :: "candidate_score option"

record catalog_index =
  ci_cards :: "indexed_card list"
  ci_ngramIds :: dictionary

fun scopeSearchValues :: "approved_scope \<Rightarrow> string list" where
  "scopeSearchValues (ManagedDocumentScope r index selection) =
     [scopeId r, scopeVersion r, di_documentId index, di_documentIndexId index] @
     (case selection of SemanticUnits ids \<Rightarrow> ids | WholeDocument \<Rightarrow> [''document''])"
| "scopeSearchValues (SqlSourceScope r connector schema table columns) =
     [scopeId r, scopeVersion r, connector, schema, table] @ columns"
| "scopeSearchValues (HttpSourceScope r connector meth path operationId parameters) =
     [scopeId r, scopeVersion r, connector, meth, path, (case operationId of None \<Rightarrow> [] | Some i \<Rightarrow> i)] @
     concat (map (\<lambda>p. [param_location_text (hp_location p), hp_name p]) parameters)"

fun appendFields ::
    "lexicon \<Rightarrow> signal_field \<Rightarrow> string list \<Rightarrow> weighted_field list \<times> dictionary \<Rightarrow> weighted_field list \<times> dictionary" where
  "appendFields lx f [] (target, d) = (target, d)"
| "appendFields lx f (t # ts) (target, d) =
     (let normalized = normalizeLexicalText lx t;
          tokens = tokenizeLexicalText lx normalized
      in if 0 < length tokens
         then (let (ids, d') = catalogNgramIds normalized d in
               appendFields lx f ts
                 (target @ [\<lparr>wf_field = f, wf_text = t, wf_weight = FIELD_WEIGHTS f, wf_tokens = tokens,
                             wf_ngramIds = ids\<rparr>], d'))
         else appendFields lx f ts (target, d))"

definition lower_ascii :: "string \<Rightarrow> string" where
  "lower_ascii s = map (\<lambda>c. if 65 \<le> code_unit c \<and> code_unit c \<le> 90 then char_of (code_unit c + 32) else c) s"

definition isOpaqueDeclaredIdentifier :: "string \<Rightarrow> bool" where
  "isOpaqueDeclaredIdentifier value = (let v = lower_ascii value in
     list_ex (\<lambda>p. starts_with v (p @ ''_'') \<and> 20 \<le> length (drop (length p + 1) v) \<and>
         list_all (\<lambda>c. is_lower_char c \<or> is_digit_char c \<or> c \<in> set ''_-'') (drop (length p + 1) v))
       [''doc'', ''unit'', ''src'', ''scope'', ''didx''])"

definition add_frequency :: "rat \<Rightarrow> string \<Rightarrow> (string \<times> rat) list \<Rightarrow> (string \<times> rat) list" where
  "add_frequency weight token m = AList.update token ((case map_of m token of None \<Rightarrow> 0 | Some n \<Rightarrow> n) + weight) m"

definition term_frequency :: "weighted_field list \<Rightarrow> (string \<times> rat) list" where
  "term_frequency fs = fold (\<lambda>f m. fold (add_frequency (wf_weight f)) (wf_tokens f) m) fs []"

definition card_fields :: "lexicon \<Rightarrow> approved_card \<Rightarrow> dictionary \<Rightarrow> weighted_field list \<times> dictionary" where
  "card_fields lx c d =
     (let m = ce_meaning c in
      appendFields lx ScopeSignal (concat (map scopeSearchValues (ce_scopes c)))
        (appendFields lx DescriptionSignal [cm_description m]
          (appendFields lx QuestionSignal (cm_representativeQuestions m)
            (appendFields lx AliasSignal (cm_aliases m)
              (appendFields lx KeywordSignal (cm_keywords m) ([], d))))))"

definition indexCard :: "lexicon \<Rightarrow> approved_card \<Rightarrow> dictionary \<Rightarrow> indexed_card \<times> dictionary" where
  "indexCard lx c d =
     (let (fs, d') = card_fields lx c d;
          humanAliases = filter (\<lambda>v. \<not> isOpaqueDeclaredIdentifier v) (cm_aliases (ce_meaning c));
          humanKeywords = filter (\<lambda>v. \<not> isOpaqueDeclaredIdentifier v) (cm_keywords (ce_meaning c));
          humanDeclaredTokens = js_set (concat (map (\<lambda>t. tokenizeLexicalText lx (normalizeLexicalText lx t))
            (humanKeywords @ humanAliases)))
      in (\<lparr>ix_card = c, ix_fields = fs, ix_termFrequency = term_frequency fs,
           ix_declaredVocabularySize = length humanDeclaredTokens, ix_humanAliasCount = length humanAliases,
           ix_broadGenerated = (24 < length humanDeclaredTokens \<and> 2 \<le> length humanAliases),
           ix_weightedLength = foldl (\<lambda>n f. n + of_nat (length (wf_tokens f)) * wf_weight f) 0 fs,
           ix_noScore = \<lparr>qs_cardId = ce_cardId c, qs_versionId = ce_versionId c, qs_score = Finite 0, qs_signals = []\<rparr>,
           ix_weakIndirect = None\<rparr>, d'))"

fun index_cards :: "lexicon \<Rightarrow> approved_card list \<Rightarrow> dictionary \<Rightarrow> indexed_card list \<times> dictionary" where
  "index_cards lx [] d = ([], d)"
| "index_cards lx (c # cs) d =
     (let (ix, d1) = indexCard lx c d; (ixs, d2) = index_cards lx cs d1 in (ix # ixs, d2))"

definition buildCatalogIndex :: "lexicon \<Rightarrow> approved_card list \<Rightarrow> catalog_index" where
  "buildCatalogIndex lx cards =
     (let (ixs, d) = index_cards lx cards [] in \<lparr>ci_cards = ixs, ci_ngramIds = d\<rparr>)"

section \<open>Query analysis\<close>

definition inferSourceIntents :: "lexicon \<Rightarrow> string list \<Rightarrow> string list" where
  "inferSourceIntents lx tokens =
     map fst (filter (\<lambda>(kind, markers). list_ex (\<lambda>t. t \<in> set markers) tokens) (SOURCE_INTENT_TOKENS lx))"

record query_analysis =
  qa_tokens :: "string list"
  qa_uniqueTokens :: "string list"
  qa_ngrams :: query_ngrams
  qa_sourceIntents :: "string list"

definition analyse_query :: "lexicon \<Rightarrow> string \<Rightarrow> dictionary \<Rightarrow> query_analysis" where
  "analyse_query lx queryText d =
     (let query = normalizeLexicalText lx queryText;
          tokens = tokenizeLexicalText lx query
      in \<lparr>qa_tokens = tokens, qa_uniqueTokens = uniqueInOrder tokens, qa_ngrams = queryNgrams query d,
          qa_sourceIntents = inferSourceIntents lx tokens\<rparr>)"

definition stem_of :: "lexicon \<Rightarrow> string \<Rightarrow> string \<Rightarrow> bool" where
  "stem_of lx queryToken declaredToken \<longleftrightarrow>
     list_ex (lx_hangul lx) declaredToken \<and> 2 \<le> length declaredToken \<and> starts_with queryToken declaredToken"

definition queryContainsDeclaredToken :: "lexicon \<Rightarrow> string list \<Rightarrow> string \<Rightarrow> bool" where
  "queryContainsDeclaredToken lx queryTokens declaredToken =
     list_ex (\<lambda>queryToken. queryToken = declaredToken \<or> stem_of lx queryToken declaredToken) queryTokens"

definition indexedCardContainsQueryToken :: "lexicon \<Rightarrow> indexed_card \<Rightarrow> string \<Rightarrow> bool" where
  "indexedCardContainsQueryToken lx ix queryToken =
     (if map_of (ix_termFrequency ix) queryToken \<noteq> None then True
      else if \<not> list_ex (lx_hangul lx) queryToken then False
      else list_ex (stem_of lx queryToken) (map fst (ix_termFrequency ix)))"

definition indexedCardContainsAnyQueryToken :: "lexicon \<Rightarrow> indexed_card \<Rightarrow> string list \<Rightarrow> bool" where
  "indexedCardContainsAnyQueryToken lx ix queryTokens = list_ex (indexedCardContainsQueryToken lx ix) queryTokens"

definition is_declared :: "weighted_field \<Rightarrow> bool" where
  "is_declared f \<longleftrightarrow> wf_field f = KeywordSignal \<or> wf_field f = AliasSignal"

definition matchedDeclaredFieldCount :: "lexicon \<Rightarrow> query_analysis \<Rightarrow> weighted_field list \<Rightarrow> nat" where
  "matchedDeclaredFieldCount lx q fs =
     length (js_set (concat (map wf_tokens (filter (\<lambda>f. is_declared f \<and> \<not> isOpaqueDeclaredIdentifier (wf_text f) \<and>
       list_all (queryContainsDeclaredToken lx (qa_tokens q)) (wf_tokens f)) fs))))"

record leader_state =
  ls_maximum :: nat
  ls_leader :: "string option"
  ls_tied :: bool

definition competition_step :: "lexicon \<Rightarrow> query_analysis \<Rightarrow> indexed_card \<Rightarrow> leader_state \<Rightarrow> leader_state" where
  "competition_step lx q ix st =
     (if \<not> ix_broadGenerated ix then st
      else (let count = matchedDeclaredFieldCount lx q (ix_fields ix) in
        if ls_maximum st < count
        then \<lparr>ls_maximum = count, ls_leader = Some (ce_versionId (ix_card ix)), ls_tied = False\<rparr>
        else if count = ls_maximum st \<and> 0 < count then st\<lparr>ls_tied := True\<rparr> else st))"

definition directEvidenceCompetition :: "lexicon \<Rightarrow> query_analysis \<Rightarrow> indexed_card list \<Rightarrow> string option" where
  "directEvidenceCompetition lx q cards =
     (let st = fold (competition_step lx q) cards \<lparr>ls_maximum = 0, ls_leader = None, ls_tied = False\<rparr> in
      if 3 \<le> ls_maximum st \<and> \<not> ls_tied st then ls_leader st else None)"

section \<open>Statistics\<close>

record query_statistics =
  st_scoringCardCount :: nat
  st_documentFrequency :: "(string \<times> nat) list"
  st_declaredTermFrequency :: "(string \<times> nat) list"
  st_aliasTermFrequency :: "(string \<times> nat) list"
  st_totalLength :: rat

definition count_up :: "string \<Rightarrow> (string \<times> nat) list \<Rightarrow> (string \<times> nat) list" where
  "count_up token m = AList.update token ((case map_of m token of None \<Rightarrow> 0 | Some n \<Rightarrow> n) + 1) m"

definition declared_seen :: "lexicon \<Rightarrow> string list \<Rightarrow> weighted_field list \<Rightarrow> string list" where
  "declared_seen lx queryTokens fs =
     js_set (filter (queryContainsDeclaredToken lx queryTokens) (concat (map wf_tokens (filter is_declared fs))))"

definition statistics_step :: "lexicon \<Rightarrow> string list \<Rightarrow> indexed_card \<Rightarrow> query_statistics \<Rightarrow> query_statistics" where
  "statistics_step lx queryTokens ix st =
     (if \<not> indexedCardContainsAnyQueryToken lx ix queryTokens then st
      else \<lparr>st_scoringCardCount = st_scoringCardCount st + 1,
            st_documentFrequency = fold (\<lambda>token m. if map_of (ix_termFrequency ix) token \<noteq> None then count_up token m else m)
              queryTokens (st_documentFrequency st),
            st_declaredTermFrequency = fold count_up (declared_seen lx queryTokens (ix_fields ix)) (st_declaredTermFrequency st),
            st_aliasTermFrequency = fold count_up
              (declared_seen lx queryTokens (filter (\<lambda>f. wf_field f = AliasSignal) (ix_fields ix))) (st_aliasTermFrequency st),
            st_totalLength = st_totalLength st + ix_weightedLength ix\<rparr>)"

definition queryRelevantStatistics :: "lexicon \<Rightarrow> string list \<Rightarrow> indexed_card list \<Rightarrow> query_statistics" where
  "queryRelevantStatistics lx queryTokens cards =
     fold (statistics_step lx queryTokens) cards
       \<lparr>st_scoringCardCount = 0, st_documentFrequency = [], st_declaredTermFrequency = [], st_aliasTermFrequency = [],
        st_totalLength = 0\<rparr>"

definition averageWeightedLength :: "query_statistics \<Rightarrow> rat" where
  "averageWeightedLength st =
     (if st_scoringCardCount st = 0 then 0 else st_totalLength st / of_nat (st_scoringCardCount st))"

section \<open>Scores\<close>

definition clampScore :: "rat \<Rightarrow> rat" where
  "clampScore value = min (max value 0) 1"

definition max_of :: "rat list \<Rightarrow> rat" where
  "max_of xs = (case xs of [] \<Rightarrow> 0 | x # ys \<Rightarrow> foldl max x ys)"

definition declaredSpecificity :: "lexicon \<Rightarrow> nat \<Rightarrow> nat \<Rightarrow> rat" where
  "declaredSpecificity lx cardCount frequency =
     (if cardCount \<le> 1 then 1
      else lx_log1p lx (of_nat cardCount / of_nat (max frequency 1)) / lx_log1p lx (of_nat cardCount))"

definition bm25_term :: "lexicon \<Rightarrow> indexed_card \<Rightarrow> query_statistics \<Rightarrow> string \<Rightarrow> rat" where
  "bm25_term lx ix st token =
     (let frequency = (case map_of (ix_termFrequency ix) token of None \<Rightarrow> 0 | Some f \<Rightarrow> f) in
      if frequency = 0 then 0
      else (let documentFrequency = of_nat (case map_of (st_documentFrequency st) token of None \<Rightarrow> 0 | Some n \<Rightarrow> n);
                idf = lx_log lx (1 + (of_nat (st_scoringCardCount st) - documentFrequency + 1 / 2) / (documentFrequency + 1 / 2));
                denominator = frequency + 6 / 5 * (1 - 3 / 4 + 3 / 4 * (ix_weightedLength ix / averageWeightedLength st))
            in idf * ((frequency * (6 / 5 + 1)) / denominator)))"

definition bm25Score :: "lexicon \<Rightarrow> string list \<Rightarrow> indexed_card \<Rightarrow> query_statistics \<Rightarrow> rat" where
  "bm25Score lx uniqueQueryTokens ix st =
     (if st_scoringCardCount st = 0 \<or> averageWeightedLength st = 0 then 0
      else foldl (\<lambda>score token. score + bm25_term lx ix st token) 0 uniqueQueryTokens)"

definition normalizeBm25 :: "rat \<Rightarrow> rat" where
  "normalizeBm25 value = (if value \<le> 0 then 0 else value / (value + 2))"

definition field_ngram :: "query_ngrams \<Rightarrow> weighted_field \<Rightarrow> rat" where
  "field_ngram ngrams f = ngramDice ngrams (wf_ngramIds f) * min (wf_weight f / FIELD_WEIGHTS KeywordSignal) 1"

definition bestNgramContribution :: "query_ngrams \<Rightarrow> weighted_field list \<Rightarrow> rat" where
  "bestNgramContribution ngrams fs = foldl (\<lambda>best f. if best < field_ngram ngrams f then field_ngram ngrams f else best) 0 fs"

definition bestNgramScore :: "query_ngrams \<Rightarrow> weighted_field list \<Rightarrow> signal_field \<times> string \<times> rat" where
  "bestNgramScore ngrams fs =
     foldl (\<lambda>(bf, bt, bc) f. if bc < field_ngram ngrams f then (wf_field f, wf_text f, field_ngram ngrams f) else (bf, bt, bc))
       (DescriptionSignal, [], 0) fs"

record matched_entry =
  me_field :: signal_field
  me_text :: string
  me_tokens :: "string list"
  me_specificity :: rat

type_synonym match_state = "matched_entry list \<times> string list"

definition scope_token_step ::
    "lexicon \<Rightarrow> query_analysis \<Rightarrow> query_statistics \<Rightarrow> string \<Rightarrow> match_state \<Rightarrow> match_state" where
  "scope_token_step lx q st token ms =
     (let (matched, seen) = ms; declarationKey = ''scope:'' @ token in
      if token \<notin> set (qa_uniqueTokens q) then (matched, seen)
      else if declarationKey \<in> set seen then (matched, seen)
      else (matched @ [\<lparr>me_field = ScopeSignal, me_text = token, me_tokens = [token],
                me_specificity = declaredSpecificity lx (st_scoringCardCount st)
                  (case map_of (st_documentFrequency st) token of None \<Rightarrow> st_scoringCardCount st | Some n \<Rightarrow> n)\<rparr>],
            set_add declarationKey seen))"

definition field_text_key :: "signal_field \<Rightarrow> string" where
  "field_text_key f = (case f of KeywordSignal \<Rightarrow> ''keyword'' | AliasSignal \<Rightarrow> ''alias'' | _ \<Rightarrow> [])"

definition match_field ::
    "lexicon \<Rightarrow> query_analysis \<Rightarrow> query_statistics \<Rightarrow> weighted_field \<Rightarrow> match_state \<Rightarrow> match_state" where
  "match_field lx q st f ms =
     (let (matched, seen) = ms in
      if wf_field f = ScopeSignal
      then if wf_tokens f = qa_tokens q
        then (let declarationKey = ''scope-coordinate:'' @ join '' '' (wf_tokens f) in
          if declarationKey \<in> set seen then (matched, seen)
          else (matched @ [\<lparr>me_field = ScopeSignal, me_text = wf_text f, me_tokens = wf_tokens f, me_specificity = 1\<rparr>],
                set_add declarationKey seen))
        else fold (scope_token_step lx q st) (js_set (wf_tokens f)) (matched, seen)
      else if \<not> is_declared f then (matched, seen)
      else if \<not> list_all (queryContainsDeclaredToken lx (qa_tokens q)) (wf_tokens f) then (matched, seen)
      else (let declarationKey = field_text_key (wf_field f) @ '':'' @ join '' '' (wf_tokens f) in
        if declarationKey \<in> set seen then (matched, seen)
        else (matched @ [\<lparr>me_field = wf_field f, me_text = wf_text f, me_tokens = wf_tokens f,
                me_specificity = max_of (map (\<lambda>token. declaredSpecificity lx (st_scoringCardCount st)
                  (case map_of (if wf_field f = AliasSignal then st_aliasTermFrequency st else st_declaredTermFrequency st) token of
                     None \<Rightarrow> st_scoringCardCount st | Some n \<Rightarrow> n)) (wf_tokens f))\<rparr>],
              set_add declarationKey seen)))"

definition matched_entries ::
    "lexicon \<Rightarrow> query_analysis \<Rightarrow> indexed_card \<Rightarrow> query_statistics \<Rightarrow> matched_entry list" where
  "matched_entries lx q ix st = fst (fold (match_field lx q st) (ix_fields ix) ([], []))"

fun run_reaches :: "nat \<Rightarrow> string list \<Rightarrow> string list \<Rightarrow> bool" where
  "run_reaches 0 qs fs = True"
| "run_reaches (Suc n) (x # qs) (y # fs) = (x = y \<and> run_reaches n qs fs)"
| "run_reaches (Suc n) _ _ = False"

definition hasContiguousTokenMatch :: "string list \<Rightarrow> string list \<Rightarrow> nat \<Rightarrow> bool" where
  "hasContiguousTokenMatch queryTokens fieldTokens minimumLength =
     (if length queryTokens < minimumLength \<or> length fieldTokens < minimumLength then False
      else list_ex (\<lambda>queryStart. list_ex (\<lambda>fieldStart.
             run_reaches minimumLength (drop queryStart queryTokens) (drop fieldStart fieldTokens))
           [0..<length fieldTokens - minimumLength + 1]) [0..<length queryTokens - minimumLength + 1])"

definition isLeadingAliasToken :: "string \<Rightarrow> weighted_field list \<Rightarrow> bool" where
  "isLeadingAliasToken token fs =
     list_ex (\<lambda>f. wf_field f = AliasSignal \<and> 2 \<le> length (wf_tokens f) \<and> wf_tokens f ! 0 = token) fs"

text \<open>What the contribution of the matched declarations is judged on.\<close>

record direct_evidence =
  de_strongest :: rat
  de_count :: nat
  de_weakSingleTerm :: bool
  de_commonTermsWithoutContext :: bool
  de_wellCorroborated :: bool
  de_sourceIntentConflict :: bool
  de_floor :: rat

definition direct_evidence_of ::
    "lexicon \<Rightarrow> query_analysis \<Rightarrow> indexed_card \<Rightarrow> query_statistics \<Rightarrow> rat \<Rightarrow> string option \<Rightarrow> matched_entry list \<Rightarrow> direct_evidence" where
  "direct_evidence_of lx q ix st normalizedBm25 leader matched =
     (let strongest = max_of (map me_specificity matched);
          contextualOverlap = length (filter (indexedCardContainsQueryToken lx ix) (qa_uniqueTokens q));
          strongContextPhrase = list_ex (\<lambda>f. hasContiguousTokenMatch (qa_tokens q) (wf_tokens f) 3) (ix_fields ix);
          onlyTerm = (if length matched = 1 then me_tokens (matched ! 0) else []);
          firstTerm = (case onlyTerm of [] \<Rightarrow> [] | t # _ \<Rightarrow> t);
          leading = (leader = Some (ce_versionId (ix_card ix)));
          exactMultiTokenAlias = list_ex (\<lambda>e. me_field e = AliasSignal \<and> 2 \<le> length (me_tokens e)) matched;
          concise = (ix_declaredVocabularySize ix \<le> 24 \<and> 2 \<le> ix_humanAliasCount ix);
          supportedCommonPhrase = (2 \<le> length matched \<and>
            (3 / 5 \<le> normalizedBm25 \<or> (concise \<and> 2 \<le> contextualOverlap \<and> 27 / 50 \<le> normalizedBm25) \<or>
             (concise \<and> 3 \<le> length matched \<and> 3 \<le> contextualOverlap)));
          distinctiveAliasWithContext =
            (list_ex (\<lambda>e. me_field e = AliasSignal \<and> 9 / 10 \<le> me_specificity e) matched \<and>
             supportedCommonPhrase \<and> 3 \<le> contextualOverlap)
      in \<lparr>de_strongest = strongest, de_count = length matched,
          de_weakSingleTerm = (length onlyTerm = 1 \<and> length firstTerm \<le> 2 \<and> contextualOverlap < 3 \<and>
            \<not> strongContextPhrase \<and> \<not> isLeadingAliasToken firstTerm (ix_fields ix)),
          de_commonTermsWithoutContext = (strongest < 17 / 20 \<and> contextualOverlap < 3 \<and> \<not> strongContextPhrase \<and>
            \<not> exactMultiTokenAlias \<and> \<not> supportedCommonPhrase),
          de_wellCorroborated = (leading \<or> exactMultiTokenAlias \<or> (concise \<and> 9 / 10 \<le> strongest) \<or>
            (concise \<and> supportedCommonPhrase) \<or> distinctiveAliasWithContext \<or> strongContextPhrase \<or>
            (st_scoringCardCount st = 1 \<and> 9 / 10 \<le> strongest) \<or> 43 / 50 \<le> normalizedBm25 \<or>
            (9 / 10 \<le> strongest \<and> 21 / 25 \<le> normalizedBm25)),
          de_sourceIntentConflict = (0 < length (qa_sourceIntents q) \<and>
            \<not> list_ex (\<lambda>s. scope_kind_text s \<in> set (qa_sourceIntents q)) (ce_scopes (ix_card ix))),
          de_floor = (if strongContextPhrase \<or> leading then 91 / 100 else 0)\<rparr>)"

definition direct_contribution :: "direct_evidence \<Rightarrow> rat" where
  "direct_contribution d =
     (let rawContribution = 21 / 50 + 2 / 5 * de_strongest d + 9 / 50 * min (of_nat (de_count d) / 2) 1 in
      clampScore (if de_weakSingleTerm d \<or> de_commonTermsWithoutContext d \<or> \<not> de_wellCorroborated d \<or>
             (de_sourceIntentConflict d \<and> de_strongest d < 17 / 20)
           then min rawContribution (84 / 100) else max rawContribution (de_floor d)))"

definition collectDirectSignals ::
    "lexicon \<Rightarrow> query_analysis \<Rightarrow> indexed_card \<Rightarrow> query_statistics \<Rightarrow> rat \<Rightarrow> string option \<Rightarrow> score_signal list" where
  "collectDirectSignals lx q ix st normalizedBm25 leader =
     (let matched = matched_entries lx q ix st in
      if matched = [] then []
      else (let contribution = direct_contribution (direct_evidence_of lx q ix st normalizedBm25 leader matched) in
        map (\<lambda>e. \<lparr>sg_field = me_field e, sg_matched = me_text e, sg_contribution = Finite contribution\<rparr>) matched))"

definition weakIndirectCandidate :: "indexed_card \<Rightarrow> rat \<Rightarrow> candidate_score \<times> indexed_card" where
  "weakIndirectCandidate ix score =
     (case ix_weakIndirect ix of
        Some c \<Rightarrow> if qs_score c = Finite score then (c, ix)
          else (let d = \<lparr>qs_cardId = ce_cardId (ix_card ix), qs_versionId = ce_versionId (ix_card ix),
                         qs_score = Finite score, qs_signals = []\<rparr> in (d, ix\<lparr>ix_weakIndirect := Some d\<rparr>))
      | None \<Rightarrow> (let d = \<lparr>qs_cardId = ce_cardId (ix_card ix), qs_versionId = ce_versionId (ix_card ix),
                         qs_score = Finite score, qs_signals = []\<rparr> in (d, ix\<lparr>ix_weakIndirect := Some d\<rparr>)))"

definition direct_score :: "score_signal list \<Rightarrow> rat" where
  "direct_score signals = foldl (\<lambda>m s. case sg_contribution s of Finite c \<Rightarrow> max m c | _ \<Rightarrow> m) 0 signals"

definition scoreCard ::
    "lexicon \<Rightarrow> query_analysis \<Rightarrow> query_statistics \<Rightarrow> string option \<Rightarrow> indexed_card \<Rightarrow> candidate_score \<times> indexed_card" where
  "scoreCard lx q st leader ix =
     (if length (qa_tokens q) = 0 then (ix_noScore ix, ix)
      else (let bm25 = bm25Score lx (qa_uniqueTokens q) ix st;
                normalizedBm25 = normalizeBm25 bm25;
                directSignals = collectDirectSignals lx q ix st normalizedBm25 leader;
                direct = direct_score directSignals;
                indirect = min (34 / 100) (3 / 4 * normalizedBm25 + 1 / 4 * bestNgramContribution (qa_ngrams q) (ix_fields ix))
            in if direct = 0 \<and> indirect = 0 then (ix_noScore ix, ix)
               else if direct = 0 \<and> bm25 = 0 \<and> indirect < 5 / 100 then weakIndirectCandidate ix indirect
               else (let (nf, nt, nc) = bestNgramScore (qa_ngrams q) (ix_fields ix);
                         signals = directSignals @
                           (if 0 < bm25 then [\<lparr>sg_field = Bm25Signal, sg_matched = ''catalog'',
                              sg_contribution = Finite normalizedBm25\<rparr>] else [])
                     in (\<lparr>qs_cardId = ce_cardId (ix_card ix), qs_versionId = ce_versionId (ix_card ix),
                          qs_score = Finite (clampScore (max direct indirect)),
                          qs_signals = signals @
                            (if 0 < nc \<and> \<not> list_ex (\<lambda>s. sg_field s = nf \<and> sg_matched s = nt) signals
                             then [\<lparr>sg_field = nf, sg_matched = nt, sg_contribution = Finite nc\<rparr>] else [])\<rparr>, ix))))"

text \<open>
  One scoring run over some of the indexed Cards. The run may fill the weak record of a
  Card it scores; the index after the run is not needed, since the record only avoids
  building an equal value again.
\<close>

definition scoreIndexedCardsAgainstQuery ::
    "lexicon \<Rightarrow> string \<Rightarrow> catalog_index \<Rightarrow> indexed_card list \<Rightarrow> candidate_score list" where
  "scoreIndexedCardsAgainstQuery lx queryText catalog cards =
     (let q = analyse_query lx queryText (ci_ngramIds catalog);
          st = queryRelevantStatistics lx (qa_uniqueTokens q) (ci_cards catalog);
          leader = directEvidenceCompetition lx q (ci_cards catalog)
      in map (\<lambda>ix. fst (scoreCard lx q st leader ix)) cards)"

definition scoreCardsAgainstQuery :: "lexicon \<Rightarrow> string \<Rightarrow> approved_card list \<Rightarrow> candidate_score list" where
  "scoreCardsAgainstQuery lx queryText cards =
     (let catalog = buildCatalogIndex lx cards in scoreIndexedCardsAgainstQuery lx queryText catalog (ci_cards catalog))"

fun known_cards :: "(string \<times> indexed_card) list \<Rightarrow> approved_card list \<Rightarrow> selection_error + indexed_card list" where
  "known_cards found [] = Inr []"
| "known_cards found (c # cs) =
     (case map_of found (ce_versionId c) of
        Some known \<Rightarrow>
          if ce_cardId (ix_card known) = ce_cardId c
          then res_bind (known_cards found cs) (\<lambda>ks. Inr (known # ks))
          else Inl (SelectionCandidateInvariantError (''card version '' @ ce_versionId c @
                 '' is not part of the eligible scoring snapshot''))
      | None \<Rightarrow> Inl (SelectionCandidateInvariantError (''card version '' @ ce_versionId c @
                 '' is not part of the eligible scoring snapshot'')))"

definition indexedCandidateCards :: "catalog_index \<Rightarrow> approved_card list \<Rightarrow> selection_error + indexed_card list" where
  "indexedCandidateCards catalog candidateCards =
     (let requested = js_map (map (\<lambda>c. (ce_versionId c, c)) candidateCards) in
      if length requested \<noteq> length candidateCards
      then Inl (SelectionCandidateInvariantError ''candidate subset repeats a Card Version'')
      else (let found = js_map (map (\<lambda>ix. (ce_versionId (ix_card ix), ix))
              (filter (\<lambda>ix. map_of requested (ce_versionId (ix_card ix)) \<noteq> None) (ci_cards catalog)))
            in known_cards found candidateCards))"

definition scoreCardSubsetAgainstQuery ::
    "lexicon \<Rightarrow> string \<Rightarrow> approved_card list \<Rightarrow> approved_card list \<Rightarrow> selection_error + candidate_score list" where
  "scoreCardSubsetAgainstQuery lx queryText catalogCards candidateCards =
     (let catalog = buildCatalogIndex lx catalogCards in
      res_bind (indexedCandidateCards catalog candidateCards) (\<lambda>indexed.
        Inr (scoreIndexedCardsAgainstQuery lx queryText catalog indexed)))"

end
