(* ===== verification/Query_Facet.thy ===== *)
theory Query_Facet
  imports Query_Scoring
begin

text \<open>
  \<open>domain/query-facet.ts\<close>: the boundaries a user wrote into a query. The Korean coordinators and
  source markers of the source are the parameters \<open>facet_words\<close>, like the Korean words of the lexicon.
\<close>

record facet_words =
  fw_coordinators :: "string list"
  fw_markers :: "string \<Rightarrow> string list"

definition EXPLICIT_COORDINATORS :: "facet_words \<Rightarrow> string list" where
  "EXPLICIT_COORDINATORS fw = [''and'', ''also'', ''plus''] @ fw_coordinators fw"

definition EXPLICIT_SOURCE_MARKERS :: "facet_words \<Rightarrow> (string \<times> string list) list" where
  "EXPLICIT_SOURCE_MARKERS fw =
     [(''managed_document'', [''document'', ''documents'', ''doc'', ''docs''] @ fw_markers fw ''managed_document''),
      (''sql_source'', [''db'', ''database'', ''sql'', ''table'', ''tables''] @ fw_markers fw ''sql_source''),
      (''http_source'', [''api'', ''endpoint'', ''endpoints''] @ fw_markers fw ''http_source'')]"

definition QUERY_FACET_POLICY_VERSION :: string where
  "QUERY_FACET_POLICY_VERSION = ''query-facet-v1''"

definition QUERY_FACET_LIMIT :: nat where
  "QUERY_FACET_LIMIT = 4"

datatype extraction = WholeQuery | ExplicitBoundary

fun extraction_text :: "extraction \<Rightarrow> string" where
  "extraction_text WholeQuery = ''whole_query''"
| "extraction_text ExplicitBoundary = ''explicit_boundary''"

record query_facet =
  qf_facetId :: string
  qf_normalizedText :: string
  qf_contentTokens :: "string list"
  qf_explicitSourceKinds :: "string list"
  qf_extraction :: extraction

record facet_result =
  fr_policyVersion :: string
  fr_facets :: "query_facet list"
  fr_ambiguous :: bool

section \<open>Splitting\<close>

definition is_quote :: "char \<Rightarrow> bool" where
  "is_quote c \<longleftrightarrow> c \<in> {CHR ''\"'', CHR 0x27, CHR 0x60}"

definition next_quote :: "char \<Rightarrow> char option \<Rightarrow> char option" where
  "next_quote c quote = (if quote = Some c then None else case quote of Some q \<Rightarrow> Some q | None \<Rightarrow> Some c)"

record split_state =
  ss_parts :: "string list"
  ss_current :: string
  ss_quote :: "char option"
  ss_escaped :: bool

definition flush :: "split_state \<Rightarrow> split_state" where
  "flush st = st\<lparr>ss_parts := (if trim (ss_current st) \<noteq> [] then ss_parts st @ [ss_current st] else ss_parts st),
     ss_current := []\<rparr>"

definition split_char :: "char \<Rightarrow> split_state \<Rightarrow> split_state" where
  "split_char c st =
     (if ss_escaped st then st\<lparr>ss_current := ss_current st @ [c], ss_escaped := False\<rparr>
      else if c = CHR 0x5C \<and> ss_quote st \<noteq> None then st\<lparr>ss_current := ss_current st @ [c], ss_escaped := True\<rparr>
      else if is_quote c then st\<lparr>ss_quote := next_quote c (ss_quote st), ss_current := ss_current st @ [c]\<rparr>
      else if ss_quote st = None \<and> c \<in> {CHR '';'', CHR '','', CHR ''?'', CHR ''!'', CHR 0x0A, CHR 0x0D} then flush st
      else st\<lparr>ss_current := ss_current st @ [c]\<rparr>)"

definition splitOutsideProtectedText :: "lexicon \<Rightarrow> string \<Rightarrow> string list \<times> bool" where
  "splitOutsideProtectedText lx query =
     (let st = flush (fold split_char (to_lower (lx_nfkc lx query))
            \<lparr>ss_parts = [], ss_current = [], ss_quote = None, ss_escaped = False\<rparr>)
      in (ss_parts st, ss_quote st \<noteq> None \<or> ss_escaped st))"

fun quoteAfter :: "string \<Rightarrow> char option \<Rightarrow> bool \<Rightarrow> char option" where
  "quoteAfter [] quote escaped = quote"
| "quoteAfter (c # cs) quote escaped =
     (if escaped then quoteAfter cs quote False
      else if c = CHR 0x5C \<and> quote \<noteq> None then quoteAfter cs quote True
      else if is_quote c then quoteAfter cs (next_quote c quote) False
      else quoteAfter cs quote False)"

text \<open>\<open>text.split(/\s+/u)\<close>\<close>

fun split_space :: "string \<Rightarrow> bool \<Rightarrow> string \<Rightarrow> string list" where
  "split_space word inside [] = [word]"
| "split_space word inside (c # cs) =
     (if is_space_char c then (if inside then split_space word True cs else word # split_space [] True cs)
      else split_space (word @ [c]) False cs)"

record word_state =
  ws_parts :: "string list"
  ws_current :: "string list"
  ws_quote :: "char option"

definition split_word :: "facet_words \<Rightarrow> string \<Rightarrow> word_state \<Rightarrow> word_state" where
  "split_word fw word st =
     (if ws_quote st = None \<and> word \<in> set (EXPLICIT_COORDINATORS fw)
      then st\<lparr>ws_parts := (if 0 < length (ws_current st) then ws_parts st @ [join '' '' (ws_current st)] else ws_parts st),
              ws_current := []\<rparr>
      else st\<lparr>ws_current := ws_current st @ [word], ws_quote := quoteAfter word (ws_quote st) False\<rparr>)"

definition splitExplicitCoordinators :: "facet_words \<Rightarrow> string \<Rightarrow> string list" where
  "splitExplicitCoordinators fw t =
     (let st = fold (split_word fw) (split_space [] False (trim t)) \<lparr>ws_parts = [], ws_current = [], ws_quote = None\<rparr>;
          parts = (if 0 < length (ws_current st) then ws_parts st @ [join '' '' (ws_current st)] else ws_parts st)
      in if 1 < length parts then parts else [t])"

section \<open>Facets\<close>

definition inferExplicitSourceIntents :: "facet_words \<Rightarrow> string list \<Rightarrow> string list" where
  "inferExplicitSourceIntents fw tokens =
     map fst (filter (\<lambda>(kind, markers). list_ex (\<lambda>t. t \<in> set markers) tokens) (EXPLICIT_SOURCE_MARKERS fw))"

definition facet_of ::
    "(string \<Rightarrow> string) \<Rightarrow> lexicon \<Rightarrow> facet_words \<Rightarrow> extraction \<Rightarrow> string \<Rightarrow> query_facet" where
  "facet_of sha256 lx fw e normalizedText =
     (let contentTokens = js_set (tokenizeLexicalText lx normalizedText);
          kinds = sort (inferExplicitSourceIntents fw contentTokens)
      in \<lparr>qf_facetId = canonicalDigest sha256 (JObj [(''normalizedText'', Some (JStr normalizedText)),
            (''contentTokens'', Some (json_texts contentTokens)), (''explicitSourceKinds'', Some (json_texts kinds)),
            (''extraction'', Some (JStr (extraction_text e)))]),
          qf_normalizedText = normalizedText, qf_contentTokens = contentTokens, qf_explicitSourceKinds = kinds,
          qf_extraction = e\<rparr>)"

definition resultFor ::
    "(string \<Rightarrow> string) \<Rightarrow> lexicon \<Rightarrow> facet_words \<Rightarrow> string list \<Rightarrow> bool \<Rightarrow> extraction \<Rightarrow> facet_result" where
  "resultFor sha256 lx fw parts ambiguous e =
     \<lparr>fr_policyVersion = QUERY_FACET_POLICY_VERSION, fr_facets = map (facet_of sha256 lx fw e) parts, fr_ambiguous = ambiguous\<rparr>"

definition extractQueryFacets :: "(string \<Rightarrow> string) \<Rightarrow> lexicon \<Rightarrow> facet_words \<Rightarrow> string \<Rightarrow> facet_result" where
  "extractQueryFacets sha256 lx fw query =
     (let whole = normalizeLexicalText lx query; (parts, ambiguous) = splitOutsideProtectedText lx query in
      if ambiguous then resultFor sha256 lx fw [whole] True WholeQuery
      else (let separated = filter (\<lambda>part. 0 < length (tokenizeLexicalText lx part))
                  (map (normalizeLexicalText lx) (concat (map (splitExplicitCoordinators fw) parts)))
        in if length separated = 0 then resultFor sha256 lx fw [whole] False WholeQuery
           else if QUERY_FACET_LIMIT < length separated then resultFor sha256 lx fw [whole] True WholeQuery
           else (let distinct_parts = js_set separated in
             if length distinct_parts \<le> 1 then resultFor sha256 lx fw [whole] False WholeQuery
             else resultFor sha256 lx fw distinct_parts False ExplicitBoundary)))"

section \<open>Laws\<close>

lemma facet_text [simp]: "qf_normalizedText (facet_of sha256 lx fw e t) = t"
  and facet_extraction [simp]: "qf_extraction (facet_of sha256 lx fw e t) = e"
  by (simp_all add: facet_of_def Let_def)

lemma js_set_length_le: "length (js_set xs) \<le> length xs"
proof -
  have "length (fold set_add xs acc) \<le> length acc + length xs" for acc
  proof (induction xs arbitrary: acc)
    case (Cons x xs)
    have "length (set_add x acc) \<le> length acc + 1" by (simp add: set_add_def)
    then show ?case using Cons [of "set_add x acc"] by simp
  qed simp
  from this [of "[]"] show ?thesis by (simp add: js_set_def)
qed

text \<open>The shape of every decomposition: what the planner relies on.\<close>

lemma extractQueryFacets_shape:
  assumes r_def: "r = extractQueryFacets sha256 lx fw query"
  shows "1 \<le> length (fr_facets r) \<and> length (fr_facets r) \<le> QUERY_FACET_LIMIT \<and>
    distinct (map qf_normalizedText (fr_facets r)) \<and>
    (fr_ambiguous r \<longrightarrow> map qf_normalizedText (fr_facets r) = [normalizeLexicalText lx query]) \<and>
    (length (fr_facets r) = 1 \<or> (\<forall>f \<in> set (fr_facets r). qf_contentTokens f \<noteq> []))"
proof -
  obtain parts ambiguous where s: "splitOutsideProtectedText lx query = (parts, ambiguous)" by fastforce
  let ?sep = "filter (\<lambda>part. 0 < length (tokenizeLexicalText lx part))
      (map (normalizeLexicalText lx) (concat (map (splitExplicitCoordinators fw) parts)))"
  have whole: "1 \<le> length (fr_facets (resultFor sha256 lx fw [w] a e)) \<and>
      length (fr_facets (resultFor sha256 lx fw [w] a e)) \<le> QUERY_FACET_LIMIT \<and>
      distinct (map qf_normalizedText (fr_facets (resultFor sha256 lx fw [w] a e))) \<and>
      map qf_normalizedText (fr_facets (resultFor sha256 lx fw [w] a e)) = [w]" for w a e
    by (simp add: resultFor_def QUERY_FACET_LIMIT_def)
  consider (whole) a where "r = resultFor sha256 lx fw [normalizeLexicalText lx query] a WholeQuery"
    | (split) "r = resultFor sha256 lx fw (js_set ?sep) False ExplicitBoundary" "length ?sep \<le> QUERY_FACET_LIMIT" "1 < length (js_set ?sep)"
    unfolding r_def extractQueryFacets_def s Let_def prod.case not_le [symmetric] by metis
  then show ?thesis
  proof cases
    case whole
    then show ?thesis by (simp add: resultFor_def QUERY_FACET_LIMIT_def)
  next
    case split
    have "length (js_set ?sep) \<le> QUERY_FACET_LIMIT" using js_set_length_le [of ?sep] split(2) by simp
    moreover have "map (qf_normalizedText \<circ> facet_of sha256 lx fw ExplicitBoundary) xs = xs" for xs
      by (induction xs) simp_all
    moreover have "qf_contentTokens (facet_of sha256 lx fw ExplicitBoundary p) \<noteq> []" if "p \<in> set (js_set ?sep)" for p
    proof -
      have "tokenizeLexicalText lx p \<noteq> []" using that by simp
      then have "js_set (tokenizeLexicalText lx p) \<noteq> []" by (metis set_empty set_js_set)
      then show ?thesis by (simp add: facet_of_def Let_def)
    qed
    ultimately show ?thesis using split(3) by (auto simp: split(1) resultFor_def)
  qed
qed

end
