(* ===== verification/Selection_Plan.thy ===== *)
theory Selection_Plan
  imports Selection_Types
begin

text \<open>
  \<open>domain/retrieval-guide.ts\<close> and the planning half of \<open>domain/selection-plan.ts\<close>: the guide
  a scope authorises, the keys of items and reads, the merge of the scopes of the admitted
  Cards, and the ceilings on a plan. \<open>sha256\<close> is the hexadecimal digest of Node's \<open>crypto\<close>.
\<close>

section \<open>Guides\<close>

datatype retrieval_guide =
    ManagedDocumentGuide scope_ref document_index_ref document_selector nat
  | SqlRetrievalGuide scope_ref string string string "string list"
  | HttpRetrievalGuide scope_ref string string string "string option" "http_parameter_ref list"

fun guide_scopeRef :: "retrieval_guide \<Rightarrow> scope_ref" where
  "guide_scopeRef (ManagedDocumentGuide r _ _ _) = r"
| "guide_scopeRef (SqlRetrievalGuide r _ _ _ _) = r"
| "guide_scopeRef (HttpRetrievalGuide r _ _ _ _ _) = r"

definition copyScopeRef :: "scope_ref \<Rightarrow> scope_ref" where
  "copyScopeRef r = \<lparr>scopeId = scopeId r, scopeVersion = scopeVersion r\<rparr>"

fun copySelection :: "document_selector \<Rightarrow> document_selector" where
  "copySelection (SemanticUnits ids) = SemanticUnits ids"
| "copySelection WholeDocument = WholeDocument"

fun buildRetrievalGuide :: "approved_scope \<Rightarrow> nat \<Rightarrow> retrieval_guide" where
  "buildRetrievalGuide (ManagedDocumentScope r index selection) limit =
     ManagedDocumentGuide (copyScopeRef r)
       \<lparr>di_documentIndexId = di_documentIndexId index, di_sourceId = di_sourceId index,
        di_documentId = di_documentId index, di_indexVersion = di_indexVersion index\<rparr>
       (copySelection selection) limit"
| "buildRetrievalGuide (SqlSourceScope r connector schema table columns) limit =
     SqlRetrievalGuide (copyScopeRef r) connector schema table columns"
| "buildRetrievalGuide (HttpSourceScope r connector meth path operationId parameters) limit =
     HttpRetrievalGuide (copyScopeRef r) connector meth path operationId parameters"

definition json_of_scope_ref :: "scope_ref \<Rightarrow> json" where
  "json_of_scope_ref r =
     JObj [(''scopeId'', Some (JStr (scopeId r))), (''scopeVersion'', Some (JStr (scopeVersion r)))]"

fun json_of_guide :: "retrieval_guide \<Rightarrow> json" where
  "json_of_guide (ManagedDocumentGuide r index selector limit) = JObj
     [(''kind'', Some (JStr ''managed_document'')), (''scopeRef'', Some (json_of_scope_ref r)),
      (''documentIndexId'', Some (JStr (di_documentIndexId index))),
      (''sourceId'', Some (JStr (di_sourceId index))),
      (''documentId'', Some (JStr (di_documentId index))),
      (''indexVersion'', Some (JStr (di_indexVersion index))),
      (''selector'', Some (json_of_selector selector)), (''limit'', Some (JNum (show_nat limit)))]"
| "json_of_guide (SqlRetrievalGuide r connector schema table columns) = JObj
     [(''kind'', Some (JStr ''sql'')), (''scopeRef'', Some (json_of_scope_ref r)),
      (''connector'', Some (JStr connector)), (''schema'', Some (JStr schema)),
      (''table'', Some (JStr table)), (''columns'', Some (json_texts columns)),
      (''allowedOperations'', Some (json_texts [''select'']))]"
| "json_of_guide (HttpRetrievalGuide r connector meth path operationId parameters) = JObj
     [(''kind'', Some (JStr ''http'')), (''scopeRef'', Some (json_of_scope_ref r)),
      (''connector'', Some (JStr connector)), (''method'', Some (JStr meth)),
      (''path'', Some (JStr path)), (''operationId'', map_option JStr operationId),
      (''parameters'', Some (json_of_parameters parameters))]"

definition retrievalGuideKey :: "(string \<Rightarrow> string) \<Rightarrow> retrieval_guide \<Rightarrow> string" where
  "retrievalGuideKey sha256 g = canonicalDigest sha256 (json_of_guide g)"

definition managedTargetKey :: "(string \<Rightarrow> string) \<Rightarrow> scope_ref \<Rightarrow> nat \<Rightarrow> string" where
  "managedTargetKey sha256 r limit = canonicalDigest sha256 (JObj
     [(''scopeId'', Some (JStr (scopeId r))), (''scopeVersion'', Some (JStr (scopeVersion r))),
      (''limit'', Some (JNum (show_nat limit)))])"

section \<open>Plans\<close>

datatype execution = Managed string | Delegated

record planned_item =
  pl_itemKey :: string
  pl_selectedBy :: "card_ref list"
  pl_guide :: retrieval_guide
  pl_execution :: execution

record managed_target =
  mt_targetKey :: string
  mt_scopeRef :: scope_ref
  mt_limit :: nat

record mutable_item =
  mi_itemKey :: string
  mi_selectedBy :: "card_ref list"
  mi_guide :: retrieval_guide

record read_plan =
  rd_items :: "planned_item list"
  rd_managedTargets :: "managed_target list"

definition isManagedPlannedItem :: "planned_item \<Rightarrow> bool" where
  "isManagedPlannedItem item = (case pl_execution item of Managed _ \<Rightarrow> True | Delegated \<Rightarrow> False)"

definition freezeItem :: "(string \<Rightarrow> string) \<Rightarrow> mutable_item \<Rightarrow> selection_error + planned_item" where
  "freezeItem sha256 item =
     (case mi_selectedBy item of
        [] \<Rightarrow> Inl (SelectionTypeError (''planned item '' @ mi_itemKey item @ '' has no selecting Card''))
      | first # rest \<Rightarrow> Inr
          \<lparr>pl_itemKey = mi_itemKey item, pl_selectedBy = first # rest, pl_guide = mi_guide item,
           pl_execution = (case mi_guide item of
              ManagedDocumentGuide r _ _ limit \<Rightarrow> Managed (managedTargetKey sha256 r limit)
            | _ \<Rightarrow> Delegated)\<rparr>)"

fun freeze_all :: "(string \<Rightarrow> string) \<Rightarrow> mutable_item list \<Rightarrow> selection_error + planned_item list" where
  "freeze_all sha256 [] = Inr []"
| "freeze_all sha256 (x # xs) =
     res_bind (freezeItem sha256 x) (\<lambda>y. res_bind (freeze_all sha256 xs) (\<lambda>ys. Inr (y # ys)))"

record plan_state =
  ps_byItemKey :: "(string \<times> mutable_item) list"
  ps_itemKeyByScopeRef :: "(string \<times> string) list"
  ps_targets :: "(string \<times> managed_target) list"

definition empty_plan_state :: plan_state where
  "empty_plan_state = \<lparr>ps_byItemKey = [], ps_itemKeyByScopeRef = [], ps_targets = []\<rparr>"

definition add_target :: "(string \<Rightarrow> string) \<Rightarrow> retrieval_guide \<Rightarrow> (string \<times> managed_target) list \<Rightarrow> (string \<times> managed_target) list" where
  "add_target sha256 g targets =
     (case g of
        ManagedDocumentGuide r _ _ limit \<Rightarrow>
          (let targetKey = managedTargetKey sha256 r limit in
           if map_of targets targetKey \<noteq> None then targets
           else AList.update targetKey \<lparr>mt_targetKey = targetKey, mt_scopeRef = r, mt_limit = limit\<rparr> targets)
      | _ \<Rightarrow> targets)"

text \<open>The body of the inner loop: one scope of one admitted Card.\<close>

definition plan_scope :: "(string \<Rightarrow> string) \<Rightarrow> nat \<Rightarrow> approved_card \<Rightarrow> approved_scope \<Rightarrow> plan_state \<Rightarrow> selection_error + plan_state" where
  "plan_scope sha256 limit c scope st =
     (let guide = buildRetrievalGuide scope limit;
          itemKey = retrievalGuideKey sha256 guide;
          existing = map_of (ps_byItemKey st) itemKey;
          scopeKey = scope_key (guide_scopeRef guide);
          knownItemKey = map_of (ps_itemKeyByScopeRef st) scopeKey
      in if knownItemKey \<noteq> None \<and> knownItemKey \<noteq> Some itemKey
         then Inl (SelectionScopeInvariantError (''scope '' @ scopeId (guide_scopeRef guide) @ ''@'' @
           scopeVersion (guide_scopeRef guide) @
           '' appears with two different definitions in one catalog snapshot (card '' @ ce_cardId c @
           '' version '' @ ce_versionId c @ '' disagrees with an earlier card)''))
         else (let st1 = st\<lparr>ps_itemKeyByScopeRef := AList.update scopeKey itemKey (ps_itemKeyByScopeRef st)\<rparr>
          in case existing of
            Some item \<Rightarrow>
              if list_ex (\<lambda>r. r = ref_of_card c) (mi_selectedBy item) then Inr st1
              else Inr (st1\<lparr>ps_byItemKey := AList.update itemKey
                     (item\<lparr>mi_selectedBy := mi_selectedBy item @ [ref_of_card c]\<rparr>) (ps_byItemKey st1)\<rparr>)
          | None \<Rightarrow> Inr (st1\<lparr>ps_byItemKey := AList.update itemKey
                 \<lparr>mi_itemKey = itemKey, mi_selectedBy = [ref_of_card c], mi_guide = guide\<rparr> (ps_byItemKey st1),
                 ps_targets := add_target sha256 guide (ps_targets st1)\<rparr>)))"

definition plan_card :: "(string \<Rightarrow> string) \<Rightarrow> nat \<Rightarrow> approved_card \<Rightarrow> plan_state \<Rightarrow> selection_error + plan_state" where
  "plan_card sha256 limit c st = res_fold (plan_scope sha256 limit c) (ce_scopes c) st"

definition item_order :: "planned_item \<Rightarrow> string \<times> string \<times> string" where
  "item_order item = (scopeId (guide_scopeRef (pl_guide item)), scopeVersion (guide_scopeRef (pl_guide item)), pl_itemKey item)"

definition planSelectedScopes :: "(string \<Rightarrow> string) \<Rightarrow> approved_card list \<Rightarrow> nat \<Rightarrow> selection_error + read_plan" where
  "planSelectedScopes sha256 admitted limit =
     res_bind (res_fold (plan_card sha256 limit) admitted empty_plan_state) (\<lambda>st.
     res_bind (freeze_all sha256 (map snd (ps_byItemKey st))) (\<lambda>items.
       Inr \<lparr>rd_items = sort_key item_order items,
            rd_managedTargets = sort_key mt_targetKey (map snd (ps_targets st))\<rparr>))"

section \<open>Ceilings\<close>

datatype planning_limit = AdmittedCards | Items | ManagedTargets | ChunksPerTarget | SelectedByTotal | GuideBytes

fun SELECTION_PLANNING_LIMITS :: "planning_limit \<Rightarrow> nat" where
  "SELECTION_PLANNING_LIMITS AdmittedCards = 32"
| "SELECTION_PLANNING_LIMITS Items = 128"
| "SELECTION_PLANNING_LIMITS ManagedTargets = 64"
| "SELECTION_PLANNING_LIMITS ChunksPerTarget = 8"
| "SELECTION_PLANNING_LIMITS SelectedByTotal = 256"
| "SELECTION_PLANNING_LIMITS GuideBytes = 64 * 1024"

record limit_violation =
  lv_limit :: planning_limit
  lv_allowed :: nat
  lv_actual :: nat

definition guide_bytes :: "planned_item \<Rightarrow> nat" where
  "guide_bytes item = utf8ByteLength (canonicalJson (json_of_guide (pl_guide item)))"

definition measured :: "nat \<Rightarrow> read_plan \<Rightarrow> (planning_limit \<times> nat) list" where
  "measured admittedCount plan =
     [(AdmittedCards, admittedCount), (Items, length (rd_items plan)),
      (ManagedTargets, length (rd_managedTargets plan)),
      (ChunksPerTarget, foldl (\<lambda>widest t. max widest (mt_limit t)) 0 (rd_managedTargets plan)),
      (SelectedByTotal, sum_list (map (length \<circ> pl_selectedBy) (rd_items plan))),
      (GuideBytes, sum_list (map guide_bytes (rd_items plan)))]"

definition planningLimitViolations :: "nat \<Rightarrow> read_plan \<Rightarrow> limit_violation list" where
  "planningLimitViolations admittedCount plan =
     map (\<lambda>(l, actual). \<lparr>lv_limit = l, lv_allowed = SELECTION_PLANNING_LIMITS l, lv_actual = actual\<rparr>)
       (filter (\<lambda>(l, actual). SELECTION_PLANNING_LIMITS l < actual) (measured admittedCount plan))"

end
