(* ===== verification/Plan_Cost.thy ===== *)
theory Plan_Cost
  imports Selection_Plan
begin

text \<open>
  \<open>domain/minimum-set-plan-cost.ts\<close>: the cost of a read plan, the savings of removing one
  Card computed from one prepared plan, and the orders on costs.
\<close>

record plan_cost =
  pc_managedTargetCount :: int
  pc_managedChunkLimitTotal :: int
  pc_delegatedItemCount :: int
  pc_guideBytes :: int
  pc_selectedByTotal :: int
  pc_cardCount :: int

definition measurePreparedPlanCost :: "nat \<Rightarrow> read_plan \<Rightarrow> plan_cost" where
  "measurePreparedPlanCost cardCount plan =
     \<lparr>pc_managedTargetCount = int (length (rd_managedTargets plan)),
      pc_managedChunkLimitTotal = sum_list (map (\<lambda>t. int (mt_limit t)) (rd_managedTargets plan)),
      pc_delegatedItemCount = int (length (filter (\<lambda>i. \<not> isManagedPlannedItem i) (rd_items plan))),
      pc_guideBytes = sum_list (map (\<lambda>i. int (guide_bytes i)) (rd_items plan)),
      pc_selectedByTotal = sum_list (map (\<lambda>i. int (length (pl_selectedBy i))) (rd_items plan)),
      pc_cardCount = int cardCount\<rparr>"

definition measurePlanCost :: "(string \<Rightarrow> string) \<Rightarrow> approved_card list \<Rightarrow> nat \<Rightarrow> selection_error + plan_cost" where
  "measurePlanCost sha256 cards limit =
     res_bind (planSelectedScopes sha256 cards limit) (\<lambda>plan. Inr (measurePreparedPlanCost (length cards) plan))"

definition emptyRemovalSavings :: plan_cost where
  "emptyRemovalSavings = \<lparr>pc_managedTargetCount = 0, pc_managedChunkLimitTotal = 0, pc_delegatedItemCount = 0,
     pc_guideBytes = 0, pc_selectedByTotal = 0, pc_cardCount = 0\<rparr>"

text \<open>The savings under construction, and the reads already counted for each Card.\<close>

record savings_state =
  sv_savings :: "(string \<times> plan_cost) list"
  sv_removedTargets :: "(string \<times> string list) list"

definition bump :: "string \<Rightarrow> (plan_cost \<Rightarrow> plan_cost) \<Rightarrow> (string \<times> plan_cost) list \<Rightarrow> (string \<times> plan_cost) list" where
  "bump versionId f m = (case map_of m versionId of None \<Rightarrow> m | Some c \<Rightarrow> AList.update versionId (f c) m)"

definition count_reference :: "card_ref \<Rightarrow> (string \<times> plan_cost) list \<Rightarrow> (string \<times> plan_cost) list" where
  "count_reference r = bump (cf_versionId r) (\<lambda>c. c\<lparr>pc_selectedByTotal := pc_selectedByTotal c + 1\<rparr>)"

definition item_target :: "planned_item \<Rightarrow> string option" where
  "item_target item = (case pl_execution item of Managed k \<Rightarrow> Some k | Delegated \<Rightarrow> None)"

definition managedItemCountByTargetKey :: "planned_item list \<Rightarrow> (string \<times> nat) list" where
  "managedItemCountByTargetKey items =
     fold (\<lambda>item counts. case item_target item of
         None \<Rightarrow> counts
       | Some k \<Rightarrow> AList.update k ((case map_of counts k of None \<Rightarrow> 0 | Some n \<Rightarrow> n) + 1) counts) items []"

definition count_sole_managed ::
    "(string \<times> managed_target) list \<Rightarrow> (string \<times> nat) list \<Rightarrow> string \<Rightarrow> string \<Rightarrow> savings_state \<Rightarrow> savings_state" where
  "count_sole_managed targetByKey countByKey only targetKey st =
     (let targetKeys = (case map_of (sv_removedTargets st) only of None \<Rightarrow> [] | Some ks \<Rightarrow> ks);
          st1 = st\<lparr>sv_removedTargets := AList.update only targetKeys (sv_removedTargets st)\<rparr>
      in if targetKey \<in> set targetKeys then st1
         else if map_of countByKey targetKey \<noteq> Some 1 then st1
         else (case map_of targetByKey targetKey of
             None \<Rightarrow> st1
           | Some target \<Rightarrow>
               st1\<lparr>sv_removedTargets := AList.update only (set_add targetKey targetKeys) (sv_removedTargets st1),
                   sv_savings := bump only (\<lambda>c. c\<lparr>pc_managedTargetCount := pc_managedTargetCount c + 1,
                     pc_managedChunkLimitTotal := pc_managedChunkLimitTotal c + int (mt_limit target)\<rparr>) (sv_savings st1)\<rparr>))"

definition count_item ::
    "(string \<times> managed_target) list \<Rightarrow> (string \<times> nat) list \<Rightarrow> planned_item \<Rightarrow> savings_state \<Rightarrow> savings_state" where
  "count_item targetByKey countByKey item st =
     (let st1 = st\<lparr>sv_savings := fold count_reference (pl_selectedBy item) (sv_savings st)\<rparr> in
      case pl_selectedBy item of
        [r] \<Rightarrow>
          (let only = cf_versionId r in
           if map_of (sv_savings st1) only = None then st1
           else (let st2 = st1\<lparr>sv_savings := bump only
                    (\<lambda>c. c\<lparr>pc_guideBytes := pc_guideBytes c + int (guide_bytes item)\<rparr>) (sv_savings st1)\<rparr>
             in case item_target item of
                 None \<Rightarrow> st2\<lparr>sv_savings := bump only
                   (\<lambda>c. c\<lparr>pc_delegatedItemCount := pc_delegatedItemCount c + 1\<rparr>) (sv_savings st2)\<rparr>
               | Some targetKey \<Rightarrow> count_sole_managed targetByKey countByKey only targetKey st2))
      | _ \<Rightarrow> st1)"

definition measureCardRemovalSavings ::
    "(string \<Rightarrow> string) \<Rightarrow> approved_card list \<Rightarrow> nat \<Rightarrow> selection_error + (string \<times> plan_cost) list" where
  "measureCardRemovalSavings sha256 cards limit =
     res_bind (planSelectedScopes sha256 cards limit) (\<lambda>plan.
       let start = js_map (map (\<lambda>c. (ce_versionId c, emptyRemovalSavings)) cards);
           targetByKey = js_map (map (\<lambda>t. (mt_targetKey t, t)) (rd_managedTargets plan));
           countByKey = managedItemCountByTargetKey (rd_items plan);
           st = fold (count_item targetByKey countByKey) (rd_items plan)
                  \<lparr>sv_savings = start, sv_removedTargets = []\<rparr>
       in Inr (map (\<lambda>(k, c). (k, c\<lparr>pc_cardCount := 1\<rparr>)) (sv_savings st)))"

section \<open>Orders on costs\<close>

fun compareByKeys :: "plan_cost \<Rightarrow> plan_cost \<Rightarrow> (plan_cost \<Rightarrow> int) list \<Rightarrow> int" where
  "compareByKeys left right [] = 0"
| "compareByKeys left right (key # ks) =
     (let difference = key left - key right in
      if difference \<noteq> 0 then difference else compareByKeys left right ks)"

definition EXECUTION_COST_KEYS :: "(plan_cost \<Rightarrow> int) list" where
  "EXECUTION_COST_KEYS = [pc_managedTargetCount, pc_managedChunkLimitTotal, pc_delegatedItemCount, pc_guideBytes]"

definition PLAN_COST_KEYS :: "(plan_cost \<Rightarrow> int) list" where
  "PLAN_COST_KEYS = [pc_managedTargetCount, pc_managedChunkLimitTotal, pc_delegatedItemCount, pc_guideBytes,
     pc_selectedByTotal, pc_cardCount]"

definition comparePlanCost :: "plan_cost \<Rightarrow> plan_cost \<Rightarrow> int" where
  "comparePlanCost left right = compareByKeys left right PLAN_COST_KEYS"

definition compareExecutionCost :: "plan_cost \<Rightarrow> plan_cost \<Rightarrow> int" where
  "compareExecutionCost left right = compareByKeys left right EXECUTION_COST_KEYS"

definition compareExecutionSavings :: "plan_cost \<Rightarrow> plan_cost \<Rightarrow> int" where
  "compareExecutionSavings left right = compareByKeys right left EXECUTION_COST_KEYS"

definition subtractPlanCost :: "plan_cost \<Rightarrow> plan_cost \<Rightarrow> plan_cost" where
  "subtractPlanCost before_cost after_cost =
     \<lparr>pc_managedTargetCount = pc_managedTargetCount before_cost - pc_managedTargetCount after_cost,
      pc_managedChunkLimitTotal = pc_managedChunkLimitTotal before_cost - pc_managedChunkLimitTotal after_cost,
      pc_delegatedItemCount = pc_delegatedItemCount before_cost - pc_delegatedItemCount after_cost,
      pc_guideBytes = pc_guideBytes before_cost - pc_guideBytes after_cost,
      pc_selectedByTotal = pc_selectedByTotal before_cost - pc_selectedByTotal after_cost,
      pc_cardCount = pc_cardCount before_cost - pc_cardCount after_cost\<rparr>"

end
