(* ===== verification/Selection_Verdict.thy ===== *)
theory Selection_Verdict
  imports Selection_Types
begin

text \<open>
  \<open>domain/selection-verdict.ts\<close>: ranking of scored candidates, the verdict of the threshold
  band, and the projection of the set planner's decision on the verdicts. \<open>render\<close> stands for
  the text JavaScript renders a number to.
\<close>

section \<open>Candidates and outcomes\<close>

record scored_candidate =
  sn_cardId :: string
  sn_versionId :: string
  sn_score :: js_number

record selection_thresholds =
  th_admit :: js_number
  th_reject :: js_number

record selection_finding =
  sf_rule :: string
  sf_message :: string

datatype selection_verdict = Admit | Defer | Reject

record selection_outcome =
  oc_verdict :: selection_verdict
  oc_cardId :: string
  oc_versionId :: string
  oc_score :: js_number
  oc_findings :: "selection_finding list"

record ranking_provenance =
  rp_policyVersion :: string
  rp_thresholds :: selection_thresholds
  rp_tieBreak :: string
  rp_consideredCount :: nat
  rp_ranked :: "scored_candidate list"

record selection_result =
  rs_outcomes :: "selection_outcome list"
  rs_provenance :: ranking_provenance

definition SELECTION_RANKING_POLICY_VERSION :: string where
  "SELECTION_RANKING_POLICY_VERSION = ''selection-ranking-v2''"

definition DEFAULT_SELECTION_THRESHOLDS :: selection_thresholds where
  "DEFAULT_SELECTION_THRESHOLDS = \<lparr>th_admit = Finite (85 / 100), th_reject = Finite (35 / 100)\<rparr>"

definition FINDING_CACHE_MIN_CANDIDATES :: nat where
  "FINDING_CACHE_MIN_CANDIDATES = 128"

section \<open>Validation\<close>

definition assertUsableThresholds :: "(js_number \<Rightarrow> string) \<Rightarrow> selection_thresholds \<Rightarrow> selection_error + unit" where
  "assertUsableThresholds render t =
     (if \<not> is_finite (th_admit t) \<or> \<not> is_finite (th_reject t)
      then Inl (SelectionThresholdsInvariantError (''thresholds must be finite, received admit '' @
             render (th_admit t) @ '' and reject '' @ render (th_reject t)))
      else if js_less_eq (th_admit t) (th_reject t)
      then Inl (SelectionThresholdsInvariantError (''admit threshold '' @ render (th_admit t) @
             '' must be greater than reject threshold '' @ render (th_reject t)))
      else Inr ())"

fun unique_version_ids :: "string list \<Rightarrow> scored_candidate list \<Rightarrow> selection_error + unit" where
  "unique_version_ids seen [] = Inr ()"
| "unique_version_ids seen (c # cs) =
     (if sn_versionId c \<in> set seen
      then Inl (SelectionCandidateInvariantError (''card version '' @ sn_versionId c @
             '' appears more than once in one selection''))
      else unique_version_ids (set_add (sn_versionId c) seen) cs)"

definition assertUniqueVersionIds :: "scored_candidate list \<Rightarrow> selection_error + unit" where
  "assertUniqueVersionIds candidates = unique_version_ids [] candidates"

section \<open>Ranking\<close>

text \<open>
  The comparator: finite scores first, higher scores before lower ones, then the version id.
  It is the lexicographic order of these three keys.
\<close>

definition rank_key :: "scored_candidate \<Rightarrow> bool \<times> rat \<times> string" where
  "rank_key c = (case sn_score c of
     Finite q \<Rightarrow> (False, - q, sn_versionId c)
   | _ \<Rightarrow> (True, 0, sn_versionId c))"

definition rank_candidates :: "scored_candidate list \<Rightarrow> scored_candidate list" where
  "rank_candidates candidates = sort_key rank_key candidates"

section \<open>Verdicts\<close>

definition reject_message :: "(js_number \<Rightarrow> string) \<Rightarrow> js_number \<Rightarrow> js_number \<Rightarrow> string" where
  "reject_message render score threshold =
     ''score '' @ render score @ '' is at or below the reject threshold '' @ render threshold"

definition defer_message :: "(js_number \<Rightarrow> string) \<Rightarrow> js_number \<Rightarrow> selection_thresholds \<Rightarrow> string" where
  "defer_message render score t =
     ''score '' @ render score @ '' is below the admit threshold '' @ render (th_admit t) @
     '' and above the reject threshold '' @ render (th_reject t)"

definition outcome_of :: "scored_candidate \<Rightarrow> selection_verdict \<Rightarrow> selection_finding list \<Rightarrow> selection_outcome" where
  "outcome_of c v findings = \<lparr>oc_verdict = v, oc_cardId = sn_cardId c, oc_versionId = sn_versionId c,
     oc_score = sn_score c, oc_findings = findings\<rparr>"

definition not_finite_outcome :: "(js_number \<Rightarrow> string) \<Rightarrow> scored_candidate \<Rightarrow> selection_outcome" where
  "not_finite_outcome render c = outcome_of c Reject
     [\<lparr>sf_rule = ''score.not.finite'',
       sf_message = ''score '' @ render (sn_score c) @ '' is not a finite number and cannot be ranked''\<rparr>]"

definition judgeOrdinaryCandidate ::
    "(js_number \<Rightarrow> string) \<Rightarrow> selection_thresholds \<Rightarrow> scored_candidate \<Rightarrow> selection_outcome" where
  "judgeOrdinaryCandidate render t c =
     (if \<not> is_finite (sn_score c) then not_finite_outcome render c
      else if js_less_eq (th_admit t) (sn_score c) then outcome_of c Admit []
      else if js_less_eq (sn_score c) (th_reject t)
      then outcome_of c Reject [\<lparr>sf_rule = ''score.at.or.below.reject'',
             sf_message = reject_message render (sn_score c) (th_reject t)\<rparr>]
      else outcome_of c Defer [\<lparr>sf_rule = ''score.below.admit'',
             sf_message = defer_message render (sn_score c) t\<rparr>])"

text \<open>From 128 candidates on, findings are shared per verdict and score.\<close>

record finding_cache =
  fc_reject :: "(js_number \<times> selection_finding list) list"
  fc_defer :: "(js_number \<times> selection_finding list) list"

definition rejectionFindings ::
    "(js_number \<Rightarrow> string) \<Rightarrow> js_number \<Rightarrow> js_number \<Rightarrow> finding_cache \<Rightarrow> selection_finding list \<times> finding_cache" where
  "rejectionFindings render score threshold cache =
     (case map_of (fc_reject cache) score of
        Some existing \<Rightarrow> (existing, cache)
      | None \<Rightarrow>
          (let findings = [\<lparr>sf_rule = ''score.at.or.below.reject'',
                 sf_message = reject_message render score threshold\<rparr>]
           in (findings, cache\<lparr>fc_reject := AList.update score findings (fc_reject cache)\<rparr>)))"

definition deferFindings ::
    "(js_number \<Rightarrow> string) \<Rightarrow> js_number \<Rightarrow> selection_thresholds \<Rightarrow> finding_cache \<Rightarrow> selection_finding list \<times> finding_cache" where
  "deferFindings render score t cache =
     (case map_of (fc_defer cache) score of
        Some existing \<Rightarrow> (existing, cache)
      | None \<Rightarrow>
          (let findings = [\<lparr>sf_rule = ''score.below.admit'', sf_message = defer_message render score t\<rparr>]
           in (findings, cache\<lparr>fc_defer := AList.update score findings (fc_defer cache)\<rparr>)))"

definition judgeCompactCandidate ::
    "(js_number \<Rightarrow> string) \<Rightarrow> selection_thresholds \<Rightarrow> scored_candidate \<Rightarrow> finding_cache \<Rightarrow> selection_outcome \<times> finding_cache" where
  "judgeCompactCandidate render t c cache =
     (if \<not> is_finite (sn_score c) then (not_finite_outcome render c, cache)
      else if js_less_eq (th_admit t) (sn_score c) then (outcome_of c Admit [], cache)
      else if js_less_eq (sn_score c) (th_reject t)
      then (let (findings, cache') = rejectionFindings render (sn_score c) (th_reject t) cache
            in (outcome_of c Reject findings, cache'))
      else (let (findings, cache') = deferFindings render (sn_score c) t cache
            in (outcome_of c Defer findings, cache')))"

fun judge_compact :: "(js_number \<Rightarrow> string) \<Rightarrow> selection_thresholds \<Rightarrow> scored_candidate list \<Rightarrow> finding_cache \<Rightarrow> selection_outcome list" where
  "judge_compact render t [] cache = []"
| "judge_compact render t (c # cs) cache =
     (let (outcome, cache') = judgeCompactCandidate render t c cache
      in outcome # judge_compact render t cs cache')"

definition judgeCandidates ::
    "(js_number \<Rightarrow> string) \<Rightarrow> scored_candidate list \<Rightarrow> selection_thresholds \<Rightarrow> selection_error + selection_result" where
  "judgeCandidates render candidates t =
     res_bind (assertUsableThresholds render t) (\<lambda>_.
     res_bind (assertUniqueVersionIds candidates) (\<lambda>_.
       let ranked = rank_candidates candidates;
           outcomes = (if length candidates < FINDING_CACHE_MIN_CANDIDATES
             then map (judgeOrdinaryCandidate render t) ranked
             else judge_compact render t ranked \<lparr>fc_reject = [], fc_defer = []\<rparr>)
       in Inr \<lparr>rs_outcomes = outcomes,
               rs_provenance = \<lparr>rp_policyVersion = SELECTION_RANKING_POLICY_VERSION, rp_thresholds = t,
                 rp_tieBreak = ''cardVersionId'', rp_consideredCount = length candidates, rp_ranked = ranked\<rparr>\<rparr>))"

section \<open>The set planner's decision\<close>

definition COVERED_BY_SELECTED_SET_FINDINGS :: "selection_finding list" where
  "COVERED_BY_SELECTED_SET_FINDINGS =
     [\<lparr>sf_rule = ''plan.covered_by_selected_set'',
       sf_message = ''the candidate was strongly relevant but added no unique query support at a lower execution cost''\<rparr>]"

definition admitted_ids :: "selection_result \<Rightarrow> string list" where
  "admitted_ids r = map oc_versionId (filter (\<lambda>x. oc_verdict x = Admit) (rs_outcomes r))"

definition project_outcome :: "string list \<Rightarrow> selection_outcome \<Rightarrow> selection_outcome" where
  "project_outcome selected x =
     (if oc_verdict x = Admit \<and> oc_versionId x \<notin> set selected
      then x\<lparr>oc_verdict := Defer, oc_findings := COVERED_BY_SELECTED_SET_FINDINGS\<rparr> else x)"

definition applySetPlanningDecision ::
    "selection_result \<Rightarrow> string list \<Rightarrow> selection_error + selection_result" where
  "applySetPlanningDecision selection selected =
     (let independentlyAdmitted = js_set (admitted_ids selection) in
      case List.find (\<lambda>i. i \<notin> set independentlyAdmitted) selected of
        Some i \<Rightarrow> Inl (SelectionCandidateInvariantError (''card version '' @ i @
          '' was selected by the set planner without clearing the admit band''))
      | None \<Rightarrow>
          if 0 < length independentlyAdmitted \<and> length selected = 0
          then Inl (SelectionCandidateInvariantError ''set planning cannot remove every independently admitted card'')
          else Inr (selection\<lparr>rs_outcomes := map (project_outcome selected) (rs_outcomes selection)\<rparr>))"

section \<open>Laws\<close>

lemma unique_version_ids_ok:
  "unique_version_ids seen cs = Inr () \<longleftrightarrow>
     distinct (map sn_versionId cs) \<and> sn_versionId ` set cs \<inter> set seen = {}"
  by (induction seen cs rule: unique_version_ids.induct) auto

lemma assertUniqueVersionIds_ok: "assertUniqueVersionIds cs = Inr () \<longleftrightarrow> distinct (map sn_versionId cs)"
  by (simp add: assertUniqueVersionIds_def unique_version_ids_ok)

definition usable :: "selection_thresholds \<Rightarrow> bool" where
  "usable t \<longleftrightarrow> (\<exists>a r. th_admit t = Finite a \<and> th_reject t = Finite r \<and> r < a)"

lemma assertUsableThresholds_ok: "assertUsableThresholds render t = Inr () \<longleftrightarrow> usable t"
  by (cases "th_admit t"; cases "th_reject t") (auto simp: assertUsableThresholds_def usable_def is_finite_def)

text \<open>The cache holds, for a score, the findings the ordinary path would build.\<close>

definition cache_ok :: "(js_number \<Rightarrow> string) \<Rightarrow> selection_thresholds \<Rightarrow> finding_cache \<Rightarrow> bool" where
  "cache_ok render t cache \<longleftrightarrow>
     (\<forall>score fs. map_of (fc_reject cache) score = Some fs \<longrightarrow>
        fs = [\<lparr>sf_rule = ''score.at.or.below.reject'', sf_message = reject_message render score (th_reject t)\<rparr>]) \<and>
     (\<forall>score fs. map_of (fc_defer cache) score = Some fs \<longrightarrow>
        fs = [\<lparr>sf_rule = ''score.below.admit'', sf_message = defer_message render score t\<rparr>])"

lemma compact_step:
  assumes "cache_ok render t cache"
  shows "\<exists>cache'. judgeCompactCandidate render t c cache = (judgeOrdinaryCandidate render t c, cache') \<and>
    cache_ok render t cache'"
proof -
  have r: "\<exists>cache'. rejectionFindings render s (th_reject t) cache =
      ([\<lparr>sf_rule = ''score.at.or.below.reject'', sf_message = reject_message render s (th_reject t)\<rparr>], cache') \<and>
      cache_ok render t cache'" for s
    using assms by (cases "map_of (fc_reject cache) s") (auto simp: rejectionFindings_def cache_ok_def Let_def update_conv')
  have d: "\<exists>cache'. deferFindings render s t cache =
      ([\<lparr>sf_rule = ''score.below.admit'', sf_message = defer_message render s t\<rparr>], cache') \<and>
      cache_ok render t cache'" for s
    using assms by (cases "map_of (fc_defer cache) s") (auto simp: deferFindings_def cache_ok_def Let_def update_conv')
  show ?thesis
    using assms r [of "sn_score c"] d [of "sn_score c"]
    by (auto simp: judgeCompactCandidate_def judgeOrdinaryCandidate_def split: prod.split)
qed

lemma judge_compact_eq:
  "cache_ok render t cache \<Longrightarrow> judge_compact render t cs cache = map (judgeOrdinaryCandidate render t) cs"
proof (induction cs arbitrary: cache)
  case Nil
  then show ?case by simp
next
  case (Cons c cs)
  obtain cache' where "judgeCompactCandidate render t c cache = (judgeOrdinaryCandidate render t c, cache')"
    "cache_ok render t cache'"
    using compact_step [OF Cons.prems] by blast
  then show ?case using Cons.IH by simp
qed

lemma judgeCandidates_eq:
  "judgeCandidates render candidates t =
     res_bind (assertUsableThresholds render t) (\<lambda>_.
     res_bind (assertUniqueVersionIds candidates) (\<lambda>_.
       Inr \<lparr>rs_outcomes = map (judgeOrdinaryCandidate render t) (rank_candidates candidates),
            rs_provenance = \<lparr>rp_policyVersion = SELECTION_RANKING_POLICY_VERSION, rp_thresholds = t,
              rp_tieBreak = ''cardVersionId'', rp_consideredCount = length candidates,
              rp_ranked = rank_candidates candidates\<rparr>\<rparr>))"
proof -
  have "judge_compact render t cs \<lparr>fc_reject = [], fc_defer = []\<rparr> = map (judgeOrdinaryCandidate render t) cs" for cs
    by (rule judge_compact_eq) (simp add: cache_ok_def)
  then show ?thesis by (simp add: judgeCandidates_def Let_def)
qed

lemma judge_verdict:
  "oc_verdict (judgeOrdinaryCandidate render t c) =
     (if \<not> is_finite (sn_score c) then Reject
      else if js_less_eq (th_admit t) (sn_score c) then Admit
      else if js_less_eq (sn_score c) (th_reject t) then Reject else Defer)"
  by (simp add: judgeOrdinaryCandidate_def not_finite_outcome_def outcome_of_def)

lemma judge_sel [simp]:
  "oc_versionId (judgeOrdinaryCandidate render t c) = sn_versionId c"
  "oc_cardId (judgeOrdinaryCandidate render t c) = sn_cardId c"
  "oc_score (judgeOrdinaryCandidate render t c) = sn_score c"
  by (simp_all add: judgeOrdinaryCandidate_def not_finite_outcome_def outcome_of_def)

end
