(* ===== verification/Facet_Support.thy ===== *)
theory Facet_Support
  imports Query_Facet Plan_Cost Selection_Verdict
begin

text \<open>
  \<open>domain/query-facet-support.ts\<close>: which parts of a query each strong Card supports, the
  coverage of a set of Cards, and the Cards the set planner may not remove.
\<close>

record facet_support =
  fs_facetId :: string
  fs_lexicalScore :: js_number
  fs_supportedTokens :: "string list"
  fs_supportedSourceKinds :: "string list"

record facet_coverage =
  fv_facetId :: string
  fv_bestLexicalScore :: js_number
  fv_supportedTokens :: "string list"
  fv_supportedSourceKinds :: "string list"

type_synonym card_support = "facet_support list"
type_synonym supports = "(string \<times> card_support) list"

datatype protected_reason = SemanticOnlyEvidence | AmbiguousQuery | ComplementarityUnknown

section \<open>Supports\<close>

definition tokensMatch :: "lexicon \<Rightarrow> string \<Rightarrow> string \<Rightarrow> bool" where
  "tokensMatch lx queryToken cardToken \<longleftrightarrow> queryToken = cardToken \<or>
     (list_ex (lx_hangul lx) cardToken \<and> 2 \<le> length cardToken \<and> starts_with queryToken cardToken)"

definition card_tokens :: "lexicon \<Rightarrow> approved_card \<Rightarrow> string list" where
  "card_tokens lx c = (let m = ce_meaning c in
     js_set (concat (map (\<lambda>v. tokenizeLexicalText lx (normalizeLexicalText lx v))
       ([cm_description m] @ cm_representativeQuestions m @ cm_aliases m @ cm_keywords m @
        concat (map scopeSearchValues (ce_scopes c))))))"

definition supportedTokens :: "lexicon \<Rightarrow> approved_card \<Rightarrow> string list \<Rightarrow> string list" where
  "supportedTokens lx c queryTokens =
     sort (js_set (filter (\<lambda>queryToken. list_ex (tokensMatch lx queryToken) (card_tokens lx c)) queryTokens))"

definition scores_by_version :: "candidate_score list \<Rightarrow> (string \<times> js_number) list" where
  "scores_by_version scores = js_map (map (\<lambda>s. (qs_versionId s, qs_score s)) scores)"

fun scores_by_facet ::
    "lexicon \<Rightarrow> approved_card list \<Rightarrow> approved_card list \<Rightarrow> query_facet list \<Rightarrow>
     selection_error + (string \<times> (string \<times> js_number) list) list" where
  "scores_by_facet lx eligible strong [] = Inr []"
| "scores_by_facet lx eligible strong (f # fs) =
     res_bind (scoreCardSubsetAgainstQuery lx (qf_normalizedText f) eligible strong) (\<lambda>scores.
     res_bind (scores_by_facet lx eligible strong fs) (\<lambda>rest.
       Inr ((qf_facetId f, scores_by_version scores) # rest)))"

definition support_of ::
    "lexicon \<Rightarrow> (string \<times> (string \<times> js_number) list) list \<Rightarrow> approved_card \<Rightarrow> query_facet \<Rightarrow> facet_support" where
  "support_of lx scoresByFacet c f =
     \<lparr>fs_facetId = qf_facetId f,
      fs_lexicalScore = (case map_of scoresByFacet (qf_facetId f) of None \<Rightarrow> Finite 0
        | Some m \<Rightarrow> (case map_of m (ce_versionId c) of None \<Rightarrow> Finite 0 | Some s \<Rightarrow> s)),
      fs_supportedTokens = supportedTokens lx c (qf_contentTokens f),
      fs_supportedSourceKinds = filter (\<lambda>kind. list_ex (\<lambda>s. scope_kind_text s = kind) (ce_scopes c)) (qf_explicitSourceKinds f)\<rparr>"

definition buildFacetSupports ::
    "lexicon \<Rightarrow> approved_card list \<Rightarrow> approved_card list \<Rightarrow> query_facet list \<Rightarrow> selection_error + supports" where
  "buildFacetSupports lx strong eligible facets =
     res_bind (scores_by_facet lx eligible strong facets) (\<lambda>pairs.
       let scoresByFacet = js_map pairs in
       Inr (js_map (map (\<lambda>c. (ce_versionId c, map (support_of lx scoresByFacet c) facets)) strong)))"

section \<open>Coverage\<close>

definition support_entry :: "supports \<Rightarrow> string \<Rightarrow> approved_card \<Rightarrow> facet_support option" where
  "support_entry supports facetId c =
     (case map_of supports (ce_versionId c) of None \<Rightarrow> None | Some s \<Rightarrow> List.find (\<lambda>e. fs_facetId e = facetId) s)"

definition cover_card :: "supports \<Rightarrow> string \<Rightarrow> approved_card \<Rightarrow> js_number \<times> string list \<times> string list \<Rightarrow> js_number \<times> string list \<times> string list" where
  "cover_card supports facetId c acc =
     (let (best, tokens, kinds) = acc in
      case support_entry supports facetId c of
        None \<Rightarrow> (best, tokens, kinds)
      | Some s \<Rightarrow> (js_max best (fs_lexicalScore s), fold set_add (fs_supportedTokens s) tokens,
                  fold set_add (fs_supportedSourceKinds s) kinds))"

definition facet_cover :: "approved_card list \<Rightarrow> supports \<Rightarrow> query_facet \<Rightarrow> facet_coverage" where
  "facet_cover cards supports f =
     (let (best, tokens, kinds) = fold (cover_card supports (qf_facetId f)) cards (Finite 0, [], []) in
      \<lparr>fv_facetId = qf_facetId f, fv_bestLexicalScore = best, fv_supportedTokens = sort tokens,
       fv_supportedSourceKinds = sort kinds\<rparr>)"

definition coverageForCards :: "approved_card list \<Rightarrow> supports \<Rightarrow> query_facet list \<Rightarrow> facet_coverage list" where
  "coverageForCards cards supports facets = map (facet_cover cards supports) facets"

definition isSuperset :: "string list \<Rightarrow> string list \<Rightarrow> bool" where
  "isSuperset actual expected = list_all (\<lambda>v. v \<in> set actual) expected"

definition covers :: "facet_coverage list \<Rightarrow> facet_coverage \<Rightarrow> bool" where
  "covers next expected =
     (case List.find (\<lambda>e. fv_facetId e = fv_facetId expected) next of
        None \<Rightarrow> False
      | Some actual \<Rightarrow> js_less_eq (fv_bestLexicalScore expected) (fv_bestLexicalScore actual) \<and>
          isSuperset (fv_supportedTokens actual) (fv_supportedTokens expected) \<and>
          isSuperset (fv_supportedSourceKinds actual) (fv_supportedSourceKinds expected))"

definition preservesFacetCoverage ::
    "approved_card list \<Rightarrow> supports \<Rightarrow> query_facet list \<Rightarrow> facet_coverage list \<Rightarrow> bool" where
  "preservesFacetCoverage cards supports facets baseline =
     list_all (covers (coverageForCards cards supports facets)) baseline"

section \<open>Protected Cards\<close>

definition supportsOverlap :: "approved_card \<Rightarrow> approved_card \<Rightarrow> supports \<Rightarrow> bool" where
  "supportsOverlap left right supports =
     (case (map_of supports (ce_versionId left), map_of supports (ce_versionId right)) of
        (Some l, Some r) \<Rightarrow>
          list_ex (\<lambda>entry. case List.find (\<lambda>c. fs_facetId c = fs_facetId entry) r of
              None \<Rightarrow> False
            | Some other \<Rightarrow> list_ex (\<lambda>token. token \<in> set (fs_supportedTokens other)) (fs_supportedTokens entry)) l
      | _ \<Rightarrow> False)"

definition supportEvidenceKey :: "card_support option \<Rightarrow> string" where
  "supportEvidenceKey support =
     canonicalJson (JArr (map (\<lambda>e. JObj [(''facetId'', Some (JStr (fs_facetId e))),
         (''supportedTokens'', Some (json_texts (fs_supportedTokens e)))])
       (case support of None \<Rightarrow> [] | Some s \<Rightarrow> s)))"

definition card_reads :: "(string \<Rightarrow> string) \<Rightarrow> nat \<Rightarrow> approved_card \<Rightarrow> selection_error + string list" where
  "card_reads sha256 limit c =
     res_bind (planSelectedScopes sha256 [c] limit) (\<lambda>plan. Inr (sort (map pl_itemKey (rd_items plan))))"

fun reads_by_version ::
    "(string \<Rightarrow> string) \<Rightarrow> nat \<Rightarrow> approved_card list \<Rightarrow> selection_error + (string \<times> string list) list" where
  "reads_by_version sha256 limit [] = Inr []"
| "reads_by_version sha256 limit (c # cs) =
     res_bind (card_reads sha256 limit c) (\<lambda>r.
     res_bind (reads_by_version sha256 limit cs) (\<lambda>rs. Inr ((ce_versionId c, r) # rs)))"

definition card_kinds :: "approved_card \<Rightarrow> string list" where
  "card_kinds c = sort (js_set (map scope_kind_text (ce_scopes c)))"

type_synonym reasons = "(string \<times> protected_reason) list"

definition list_or_empty :: "(string \<times> 'a list) list \<Rightarrow> string \<Rightarrow> 'a list" where
  "list_or_empty m k = (case map_of m k of None \<Rightarrow> [] | Some xs \<Rightarrow> xs)"

definition protect_pair ::
    "supports \<Rightarrow> (string \<times> string) list \<Rightarrow> (string \<times> string list) list \<Rightarrow> (string \<times> string list) list \<Rightarrow>
     approved_card \<Rightarrow> approved_card \<Rightarrow> reasons \<Rightarrow> reasons" where
  "protect_pair supports evidence reads kinds left right reasons =
     (let sameEvidence = (map_of evidence (ce_versionId left) = map_of evidence (ce_versionId right));
          differentKinds = (list_or_empty kinds (ce_versionId left) \<noteq> list_or_empty kinds (ce_versionId right))
      in if \<not> sameEvidence \<and> \<not> (differentKinds \<and> supportsOverlap left right supports) then reasons
         else if list_or_empty reads (ce_versionId left) = list_or_empty reads (ce_versionId right) then reasons
         else AList.update (ce_versionId right) ComplementarityUnknown
                (AList.update (ce_versionId left) ComplementarityUnknown reasons))"

fun protect_pairs :: "(approved_card \<Rightarrow> approved_card \<Rightarrow> reasons \<Rightarrow> reasons) \<Rightarrow> approved_card list \<Rightarrow> reasons \<Rightarrow> reasons" where
  "protect_pairs step [] reasons = reasons"
| "protect_pairs step (left # rest) reasons = protect_pairs step rest (fold (step left) rest reasons)"

definition protectUnknownComplements ::
    "(string \<Rightarrow> string) \<Rightarrow> approved_card list \<Rightarrow> supports \<Rightarrow> nat \<Rightarrow> reasons \<Rightarrow> selection_error + reasons" where
  "protectUnknownComplements sha256 strong supports limit reasons =
     (let evidence = js_map (map (\<lambda>c. (ce_versionId c, supportEvidenceKey (map_of supports (ce_versionId c)))) strong) in
      res_bind (reads_by_version sha256 limit strong) (\<lambda>pairs.
        let reads = js_map pairs; kinds = js_map (map (\<lambda>c. (ce_versionId c, card_kinds c)) strong)
        in Inr (protect_pairs (protect_pair supports evidence reads kinds) strong reasons)))"

definition protectedCandidateReasons ::
    "(string \<Rightarrow> string) \<Rightarrow> approved_card list \<Rightarrow> (string \<times> js_number) list \<Rightarrow> selection_result \<Rightarrow> selection_mode \<Rightarrow>
     facet_result \<Rightarrow> supports \<Rightarrow> nat \<Rightarrow> selection_error + reasons" where
  "protectedCandidateReasons sha256 strong lexical selection mode facets supports limit =
     (if fr_ambiguous facets
      then Inr (fold (\<lambda>c. AList.update (ce_versionId c) AmbiguousQuery) strong [])
      else (let admit = th_admit (rp_thresholds (rs_provenance selection));
                reasons = (if mode = Hybrid
                  then fold (\<lambda>c m. if js_less (case map_of lexical (ce_versionId c) of None \<Rightarrow> Finite 0 | Some s \<Rightarrow> s) admit
                        then AList.update (ce_versionId c) SemanticOnlyEvidence m else m) strong []
                  else [])
            in protectUnknownComplements sha256 strong supports limit reasons))"

end
