(* ===== verification/Minimum_Set.thy ===== *)
theory Minimum_Set
  imports Facet_Support
begin

text \<open>
  \<open>domain/minimum-sufficient-set.ts\<close>: the planner that takes back admitted Cards one at a
  time, as long as query support is preserved and the plan gets cheaper.
\<close>

definition MINIMUM_SUFFICIENT_SET_POLICY_VERSION :: string where
  "MINIMUM_SUFFICIENT_SET_POLICY_VERSION = ''minimum-sufficient-set-v1''"

datatype decision_reason =
    UniqueFacetSupport | ExplicitSourceIntent | Protected protected_reason | NoExecutionSaving | CoveredBySelectedSet

datatype planning_choice = SelectedCard | NotPlanned | ProtectedCard

record planning_decision =
  pd_cardId :: string
  pd_versionId :: string
  pd_decision :: planning_choice
  pd_reason :: decision_reason
  pd_coveredFacetIds :: "string list"
  pd_replacementCardVersionIds :: "string list"

record minimum_set_audit =
  ma_policyVersion :: string
  ma_queryFacetPolicyVersion :: string
  ma_ambiguous :: bool
  ma_facets :: "query_facet list"
  ma_decisions :: "planning_decision list"
  ma_baselineCoverage :: "facet_coverage list"
  ma_selectedCoverage :: "facet_coverage list"
  ma_costBefore :: plan_cost
  ma_costAfter :: plan_cost
  ma_removalCount :: nat

record minimum_set_input =
  mn_query :: string
  mn_eligibleCards :: "approved_card list"
  mn_lexicalScores :: "candidate_score list"
  mn_rankedScores :: "candidate_score list"
  mn_initialSelection :: selection_result
  mn_mode :: selection_mode
  mn_chunkLimitPerScope :: nat

record minimum_set_result =
  mr_selectedCards :: "approved_card list"
  mr_audit :: minimum_set_audit

record removal_candidate =
  rc_card :: approved_card
  rc_next :: "approved_card list"
  rc_nextCost :: plan_cost
  rc_savings :: plan_cost
  rc_score :: js_number

section \<open>The input check\<close>

fun uniqueReferences :: "string \<Rightarrow> ('a \<Rightarrow> string) \<Rightarrow> 'a list \<Rightarrow> (string \<times> 'a) list \<Rightarrow> selection_error + (string \<times> 'a) list" where
  "uniqueReferences label vid [] m = Inr m"
| "uniqueReferences label vid (x # xs) m =
     (if map_of m (vid x) \<noteq> None
      then Inl (SelectionCandidateInvariantError (label @ '' repeats card version '' @ vid x))
      else uniqueReferences label vid xs (AList.update (vid x) x m))"

definition sameKeys :: "(string \<times> 'a) list \<Rightarrow> (string \<times> 'b) list \<Rightarrow> bool" where
  "sameKeys left right \<longleftrightarrow> length left = length right \<and> list_all (\<lambda>k. map_of right k \<noteq> None) (map fst left)"

fun eligible_unique :: "string list \<Rightarrow> approved_card list \<Rightarrow> selection_error + unit" where
  "eligible_unique seen [] = Inr ()"
| "eligible_unique seen (c # cs) =
     (if ce_versionId c \<in> set seen
      then Inl (SelectionCandidateInvariantError (''eligible Card repeats card version '' @ ce_versionId c))
      else eligible_unique (set_add (ce_versionId c) seen) cs)"

fun ranked_cards ::
    "(string \<times> candidate_score) list \<Rightarrow> approved_card list \<Rightarrow> candidate_score list \<Rightarrow> (string \<times> approved_card) list \<Rightarrow>
     selection_error + (string \<times> approved_card) list" where
  "ranked_cards ranked (c # cs) (s # ss) m =
     (if qs_versionId s \<noteq> ce_versionId c \<or> qs_cardId s \<noteq> ce_cardId c
      then Inl (SelectionCandidateInvariantError (''card version '' @ ce_versionId c @
             '' is inconsistent between the eligible snapshot and lexical scores''))
      else ranked_cards ranked cs ss
             (if map_of ranked (ce_versionId c) \<noteq> None then AList.update (ce_versionId c) c m else m))"
| "ranked_cards ranked _ _ m = Inr m"

definition ranked_consistent ::
    "(string \<times> approved_card) list \<Rightarrow> (string \<times> selection_outcome) list \<Rightarrow> (string \<times> scored_candidate) list \<Rightarrow>
     string \<times> candidate_score \<Rightarrow> bool" where
  "ranked_consistent cards outcomes provenance entry =
     (let (versionId, score) = entry in
      case (map_of cards versionId, map_of outcomes versionId, map_of provenance versionId) of
        (Some k, Some x, Some p) \<Rightarrow>
          ce_cardId k = qs_cardId score \<and> oc_cardId x = qs_cardId score \<and> sn_cardId p = qs_cardId score \<and>
          js_eq (oc_score x) (qs_score score) \<and> js_eq (sn_score p) (qs_score score)
      | _ \<Rightarrow> False)"

definition assertPlannerInput :: "minimum_set_input \<Rightarrow> selection_error + (string \<times> approved_card) list" where
  "assertPlannerInput input =
     (if trim (mn_query input) = []
      then Inl (SelectionCandidateInvariantError ''minimum-sufficient set planning requires a non-empty query'')
      else
      res_bind (uniqueReferences ''ranked score'' qs_versionId (mn_rankedScores input) []) (\<lambda>ranked.
      res_bind (uniqueReferences ''selection outcome'' oc_versionId (rs_outcomes (mn_initialSelection input)) []) (\<lambda>outcomes.
      res_bind (uniqueReferences ''ranking provenance'' sn_versionId
                  (rp_ranked (rs_provenance (mn_initialSelection input))) []) (\<lambda>provenance.
      res_bind (eligible_unique [] (mn_eligibleCards input)) (\<lambda>_.
        if length (mn_eligibleCards input) \<noteq> length (mn_lexicalScores input)
        then Inl (SelectionCandidateInvariantError ''lexical scores do not describe the complete eligible Card snapshot'')
        else
        res_bind (ranked_cards ranked (mn_eligibleCards input) (mn_lexicalScores input) []) (\<lambda>cards.
          if \<not> sameKeys ranked outcomes \<or> \<not> sameKeys ranked provenance \<or>
             rp_consideredCount (rs_provenance (mn_initialSelection input)) \<noteq> length ranked
          then Inl (SelectionCandidateInvariantError
                 ''ranked scores, outcomes and ranking provenance do not describe one candidate set'')
          else (case List.find (\<lambda>entry. \<not> ranked_consistent cards outcomes provenance entry) ranked of
              Some (versionId, _) \<Rightarrow> Inl (SelectionCandidateInvariantError (''card version '' @ versionId @
                '' is inconsistent across planner inputs''))
            | None \<Rightarrow> Inr cards)))))))"

section \<open>Removable Cards\<close>

record planner =
  pn_supports :: supports
  pn_facets :: "query_facet list"
  pn_baselineCoverage :: "facet_coverage list"
  pn_protectedReasons :: reasons
  pn_scoreByVersionId :: "(string \<times> js_number) list"
  pn_chunkLimitPerScope :: nat

definition removable_card ::
    "planner \<Rightarrow> approved_card list \<Rightarrow> plan_cost \<Rightarrow> (string \<times> plan_cost) list \<Rightarrow> approved_card \<Rightarrow> removal_candidate option" where
  "removable_card pn selected currentCost savingsByVersionId c =
     (let following = filter (\<lambda>d. ce_versionId d \<noteq> ce_versionId c) selected in
      if map_of (pn_protectedReasons pn) (ce_versionId c) \<noteq> None then None
      else if \<not> preservesFacetCoverage following (pn_supports pn) (pn_facets pn) (pn_baselineCoverage pn) then None
      else (case map_of savingsByVersionId (ce_versionId c) of
          None \<Rightarrow> None
        | Some savings \<Rightarrow>
            (let nextCost = subtractPlanCost currentCost savings in
             if 0 \<le> compareExecutionCost nextCost currentCost then None
             else Some \<lparr>rc_card = c, rc_next = following, rc_nextCost = nextCost, rc_savings = savings,
                   rc_score = (case map_of (pn_scoreByVersionId pn) (ce_versionId c) of None \<Rightarrow> Finite 0 | Some s \<Rightarrow> s)\<rparr>)))"

definition findRemovableCards ::
    "(string \<Rightarrow> string) \<Rightarrow> planner \<Rightarrow> approved_card list \<Rightarrow> plan_cost \<Rightarrow> selection_error + removal_candidate list" where
  "findRemovableCards sha256 pn selected currentCost =
     res_bind (measureCardRemovalSavings sha256 selected (pn_chunkLimitPerScope pn)) (\<lambda>savingsByVersionId.
       Inr (List.map_filter (removable_card pn selected currentCost savingsByVersionId) selected))"

definition compareRemovalCandidates :: "removal_candidate \<Rightarrow> removal_candidate \<Rightarrow> js_number" where
  "compareRemovalCandidates left right =
     (let savings = compareExecutionSavings (rc_savings left) (rc_savings right) in
      if savings \<noteq> 0 then Finite (of_int savings)
      else if \<not> js_eq (rc_score left) (rc_score right) then js_minus (rc_score left) (rc_score right)
      else if ce_versionId (rc_card right) < ce_versionId (rc_card left) then Finite (-1)
      else if ce_versionId (rc_card left) < ce_versionId (rc_card right) then Finite 1 else Finite 0)"

text \<open>\<open>xs.sort(compare)\<close>: a stable sort; \<open>compare\<close> is consistent, so any stable sort gives the same list.\<close>

fun sort_insert :: "('a \<Rightarrow> 'a \<Rightarrow> js_number) \<Rightarrow> 'a \<Rightarrow> 'a list \<Rightarrow> 'a list" where
  "sort_insert cmp x [] = [x]"
| "sort_insert cmp x (y # ys) = (if js_less_eq (cmp x y) (Finite 0) then x # y # ys else y # sort_insert cmp x ys)"

definition js_sort :: "('a \<Rightarrow> 'a \<Rightarrow> js_number) \<Rightarrow> 'a list \<Rightarrow> 'a list" where
  "js_sort cmp xs = foldr (sort_insert cmp) xs []"

lemma set_sort_insert [simp]: "set (sort_insert cmp x xs) = insert x (set xs)"
  by (induction xs) auto

lemma set_js_sort [simp]: "set (js_sort cmp xs) = set xs"
  by (induction xs) (simp_all add: js_sort_def)

lemma removable_next:
  assumes "findRemovableCards sha256 pn selected currentCost = Inr removable" and "rm \<in> set removable"
  shows "rc_card rm \<in> set selected" "rc_next rm = filter (\<lambda>d. ce_versionId d \<noteq> ce_versionId (rc_card rm)) selected"
    "length (rc_next rm) < length selected"
proof -
  obtain m where "removable = List.map_filter (removable_card pn selected currentCost m) selected"
    using assms(1) by (auto simp: findRemovableCards_def res_bind_eq_Inr)
  then obtain c where c: "c \<in> set selected" "removable_card pn selected currentCost m c = Some rm"
    using assms(2) by (auto simp: List.map_filter_def)
  then have "rc_card rm = c \<and> rc_next rm = filter (\<lambda>d. ce_versionId d \<noteq> ce_versionId c) selected"
    by (auto simp: removable_card_def Let_def split: if_splits option.splits)
  then show r: "rc_card rm \<in> set selected" "rc_next rm = filter (\<lambda>d. ce_versionId d \<noteq> ce_versionId (rc_card rm)) selected"
    using c(1) by simp_all
  have "length (filter (\<lambda>d. ce_versionId d \<noteq> ce_versionId (rc_card rm)) selected) < length selected"
    using r(1) by (rule length_filter_less) simp
  then show "length (rc_next rm) < length selected" using r(2) by simp
qed

text \<open>The loop. Every pass takes one Card out, so it ends.\<close>

function reduce_set ::
    "(string \<Rightarrow> string) \<Rightarrow> planner \<Rightarrow> approved_card list \<Rightarrow> plan_cost \<Rightarrow> nat \<Rightarrow>
     selection_error + approved_card list \<times> plan_cost \<times> nat" where
  "reduce_set sha256 pn selected currentCost removalCount =
     (if length selected \<le> 1 then Inr (selected, currentCost, removalCount)
      else (case findRemovableCards sha256 pn selected currentCost of
          Inl e \<Rightarrow> Inl e
        | Inr removable \<Rightarrow>
            (case js_sort compareRemovalCandidates removable of
               [] \<Rightarrow> Inr (selected, currentCost, removalCount)
             | chosen # _ \<Rightarrow> reduce_set sha256 pn (rc_next chosen) (rc_nextCost chosen) (removalCount + 1))))"
  by pat_completeness auto
termination
proof (relation "measure (\<lambda>(_, _, selected, _, _). length selected)", simp)
  fix sha256 pn selected currentCost and removalCount :: nat and removable chosen rest
  assume r: "findRemovableCards sha256 pn selected currentCost = Inr removable"
    and s: "js_sort compareRemovalCandidates removable = chosen # rest"
  have "chosen \<in> set (js_sort compareRemovalCandidates removable)" by (simp add: s)
  then have "chosen \<in> set removable" by simp
  from removable_next(3) [OF r this]
  show "((sha256, pn, rc_next chosen, rc_nextCost chosen, removalCount + 1), (sha256, pn, selected, currentCost, removalCount)) \<in>
      measure (\<lambda>(_, _, selected, _, _). length selected)" by simp
qed

declare reduce_set.simps [simp del]

section \<open>Decisions\<close>

definition lost_kind :: "facet_coverage list \<Rightarrow> facet_coverage \<Rightarrow> bool" where
  "lost_kind withoutCoverage expected =
     (case List.find (\<lambda>e. fv_facetId e = fv_facetId expected) withoutCoverage of
        None \<Rightarrow> False
      | Some actual \<Rightarrow> \<not> isSuperset (fv_supportedSourceKinds actual) (fv_supportedSourceKinds expected))"

definition selectedReason ::
    "(string \<Rightarrow> string) \<Rightarrow> planner \<Rightarrow> approved_card list \<Rightarrow> plan_cost \<Rightarrow> approved_card \<Rightarrow> selection_error + decision_reason" where
  "selectedReason sha256 pn selectedCards selectedCost c =
     (let remaining = filter (\<lambda>d. ce_versionId d \<noteq> ce_versionId c) selectedCards;
          withoutCoverage = coverageForCards remaining (pn_supports pn) (pn_facets pn);
          lost = (if list_ex (lost_kind withoutCoverage) (pn_baselineCoverage pn) then ExplicitSourceIntent else UniqueFacetSupport)
      in if preservesFacetCoverage remaining (pn_supports pn) (pn_facets pn) (pn_baselineCoverage pn)
         then res_bind (measurePlanCost sha256 remaining (pn_chunkLimitPerScope pn)) (\<lambda>cost.
           Inr (if 0 \<le> compareExecutionCost cost selectedCost then NoExecutionSaving else lost))
         else Inr lost)"

definition replaces :: "supports \<Rightarrow> card_support \<Rightarrow> string \<Rightarrow> bool" where
  "replaces supports removed selectedVersionId =
     (case map_of supports selectedVersionId of
        None \<Rightarrow> False
      | Some selected \<Rightarrow> list_ex (\<lambda>r. case List.find (\<lambda>e. fs_facetId e = fs_facetId r) selected of
            None \<Rightarrow> False
          | Some e \<Rightarrow> js_less_eq (fs_lexicalScore r) (fs_lexicalScore e) \<and>
              isSuperset (fs_supportedTokens e) (fs_supportedTokens r) \<and>
              isSuperset (fs_supportedSourceKinds e) (fs_supportedSourceKinds r)) removed)"

definition replacementCards :: "string \<Rightarrow> string list \<Rightarrow> supports \<Rightarrow> string list" where
  "replacementCards removedVersionId selectedVersionIds supports =
     (case map_of supports removedVersionId of
        None \<Rightarrow> []
      | Some removed \<Rightarrow> sort (filter (replaces supports removed) selectedVersionIds))"

definition covered_facets :: "supports \<Rightarrow> approved_card \<Rightarrow> string list" where
  "covered_facets supports c =
     (case map_of supports (ce_versionId c) of
        None \<Rightarrow> []
      | Some s \<Rightarrow> map fs_facetId (filter (\<lambda>e. js_less (Finite 0) (fs_lexicalScore e) \<or> 0 < length (fs_supportedTokens e) \<or>
          0 < length (fs_supportedSourceKinds e)) s))"

definition decision_for ::
    "(string \<Rightarrow> string) \<Rightarrow> planner \<Rightarrow> approved_card list \<Rightarrow> plan_cost \<Rightarrow> approved_card \<Rightarrow> selection_error + planning_decision" where
  "decision_for sha256 pn selectedCards selectedCost c =
     (let selectedVersionIds = js_set (map ce_versionId selectedCards);
          covered = covered_facets (pn_supports pn) c
      in if ce_versionId c \<in> set selectedVersionIds
         then (case map_of (pn_protectedReasons pn) (ce_versionId c) of
             Some reason \<Rightarrow> Inr \<lparr>pd_cardId = ce_cardId c, pd_versionId = ce_versionId c, pd_decision = ProtectedCard,
               pd_reason = Protected reason, pd_coveredFacetIds = covered, pd_replacementCardVersionIds = []\<rparr>
           | None \<Rightarrow> res_bind (selectedReason sha256 pn selectedCards selectedCost c) (\<lambda>reason.
               Inr \<lparr>pd_cardId = ce_cardId c, pd_versionId = ce_versionId c, pd_decision = SelectedCard,
                 pd_reason = reason, pd_coveredFacetIds = covered, pd_replacementCardVersionIds = []\<rparr>))
         else Inr \<lparr>pd_cardId = ce_cardId c, pd_versionId = ce_versionId c, pd_decision = NotPlanned,
                pd_reason = CoveredBySelectedSet, pd_coveredFacetIds = covered,
                pd_replacementCardVersionIds = replacementCards (ce_versionId c) selectedVersionIds (pn_supports pn)\<rparr>)"

fun decisions_for ::
    "(approved_card \<Rightarrow> selection_error + planning_decision) \<Rightarrow> approved_card list \<Rightarrow> selection_error + planning_decision list" where
  "decisions_for decide [] = Inr []"
| "decisions_for decide (c # cs) = res_bind (decide c) (\<lambda>d. res_bind (decisions_for decide cs) (\<lambda>ds. Inr (d # ds)))"

definition decisionsFor ::
    "(string \<Rightarrow> string) \<Rightarrow> planner \<Rightarrow> approved_card list \<Rightarrow> approved_card list \<Rightarrow> selection_error + planning_decision list" where
  "decisionsFor sha256 pn initialStrong selectedCards =
     res_bind (measurePlanCost sha256 selectedCards (pn_chunkLimitPerScope pn)) (\<lambda>selectedCost.
       decisions_for (decision_for sha256 pn selectedCards selectedCost) initialStrong)"

section \<open>The planner\<close>

definition initial_strong :: "selection_result \<Rightarrow> (string \<times> approved_card) list \<Rightarrow> approved_card list" where
  "initial_strong selection cardsByVersionId =
     List.map_filter (\<lambda>x. map_of cardsByVersionId (oc_versionId x))
       (filter (\<lambda>x. oc_verdict x = Admit) (rs_outcomes selection))"

text \<open>The audit is digested after this point: the digest is the hash of the audit and nothing else reads it.\<close>

definition planMinimumSufficientCardSet ::
    "(string \<Rightarrow> string) \<Rightarrow> lexicon \<Rightarrow> facet_words \<Rightarrow> minimum_set_input \<Rightarrow> selection_error + minimum_set_result" where
  "planMinimumSufficientCardSet sha256 lx fw input =
     res_bind (assertPlannerInput input) (\<lambda>cardsByVersionId.
       let strong = initial_strong (mn_initialSelection input) cardsByVersionId;
           facets = extractQueryFacets sha256 lx fw (mn_query input);
           limit = mn_chunkLimitPerScope input
       in
       res_bind (buildFacetSupports lx strong (mn_eligibleCards input) (fr_facets facets)) (\<lambda>supports.
       res_bind (protectedCandidateReasons sha256 strong (scores_by_version (mn_lexicalScores input))
                   (mn_initialSelection input) (mn_mode input) facets supports limit) (\<lambda>reasons.
         let baseline = coverageForCards strong supports (fr_facets facets);
             pn = \<lparr>pn_supports = supports, pn_facets = fr_facets facets, pn_baselineCoverage = baseline,
                   pn_protectedReasons = reasons, pn_scoreByVersionId = scores_by_version (mn_rankedScores input),
                   pn_chunkLimitPerScope = limit\<rparr>
         in
         res_bind (measurePlanCost sha256 strong limit) (\<lambda>costBefore.
         res_bind (if fr_ambiguous facets then Inr (strong, costBefore, 0)
                   else reduce_set sha256 pn strong costBefore 0) (\<lambda>(selected, currentCost, removalCount).
         res_bind (decisionsFor sha256 pn strong selected) (\<lambda>decisions.
           Inr \<lparr>mr_selectedCards = selected,
                mr_audit = \<lparr>ma_policyVersion = MINIMUM_SUFFICIENT_SET_POLICY_VERSION,
                  ma_queryFacetPolicyVersion = fr_policyVersion facets, ma_ambiguous = fr_ambiguous facets,
                  ma_facets = fr_facets facets, ma_decisions = decisions, ma_baselineCoverage = baseline,
                  ma_selectedCoverage = coverageForCards selected supports (fr_facets facets),
                  ma_costBefore = costBefore, ma_costAfter = currentCost, ma_removalCount = removalCount\<rparr>\<rparr>))))))"

end
