(* ===== verification/Plan_Verification.thy ===== *)
theory Plan_Verification
  imports Policy_Context Minimum_Set
begin

text \<open>
  The finished plan of \<open>domain/selection-plan.ts\<close>: what travels with the reads, the digest of the set
  planner's audit, and \<open>verifySelectionPlan\<close>, which recomputes every key and every correspondence a plan
  claims. It runs once when Selection hands a plan out and once when Delivery receives it.
\<close>

record plan_summary =
  sm_candidates :: "candidate_score list"
  sm_selection :: selection_result
  sm_planning :: minimum_set_audit
  sm_auditDigest :: string
  sm_mode :: selection_mode
  sm_policyContext :: policy_context
  sm_excluded :: "policy_exclusion list"

record selection_plan =
  sp_query :: string
  sp_summary :: plan_summary
  sp_items :: "planned_item list"
  sp_managedTargets :: "managed_target list"

definition cardRefKey :: "string \<Rightarrow> string \<Rightarrow> string" where
  "cardRefKey cardId versionId = cardId @ CHR 0x00 # versionId"

fun replace_nul :: "string \<Rightarrow> string" where
  "replace_nul [] = []"
| "replace_nul (c # cs) = (if c = CHR 0x00 then '' version '' @ cs else c # replace_nul cs)"

section \<open>The digest of the audit\<close>

fun decision_reason_text :: "decision_reason \<Rightarrow> string" where
  "decision_reason_text UniqueFacetSupport = ''unique_facet_support''"
| "decision_reason_text ExplicitSourceIntent = ''explicit_source_intent''"
| "decision_reason_text (Protected SemanticOnlyEvidence) = ''semantic_only_evidence''"
| "decision_reason_text (Protected AmbiguousQuery) = ''ambiguous_query''"
| "decision_reason_text (Protected ComplementarityUnknown) = ''complementarity_unknown''"
| "decision_reason_text NoExecutionSaving = ''no_execution_saving''"
| "decision_reason_text CoveredBySelectedSet = ''covered_by_selected_set''"

fun planning_choice_text :: "planning_choice \<Rightarrow> string" where
  "planning_choice_text SelectedCard = ''selected''"
| "planning_choice_text NotPlanned = ''not_planned''"
| "planning_choice_text ProtectedCard = ''protected''"

definition json_int :: "int \<Rightarrow> json" where
  "json_int i = JNum (if i < 0 then CHR ''-'' # show_nat (nat (- i)) else show_nat (nat i))"

definition json_of_cost :: "plan_cost \<Rightarrow> json" where
  "json_of_cost c = JObj [(''managedTargetCount'', Some (json_int (pc_managedTargetCount c))),
     (''managedChunkLimitTotal'', Some (json_int (pc_managedChunkLimitTotal c))),
     (''delegatedItemCount'', Some (json_int (pc_delegatedItemCount c))),
     (''guideBytes'', Some (json_int (pc_guideBytes c))), (''selectedByTotal'', Some (json_int (pc_selectedByTotal c))),
     (''cardCount'', Some (json_int (pc_cardCount c)))]"

definition json_of_facet :: "query_facet \<Rightarrow> json" where
  "json_of_facet f = JObj [(''facetId'', Some (JStr (qf_facetId f))), (''normalizedText'', Some (JStr (qf_normalizedText f))),
     (''contentTokens'', Some (json_texts (qf_contentTokens f))),
     (''explicitSourceKinds'', Some (json_texts (qf_explicitSourceKinds f))),
     (''extraction'', Some (JStr (extraction_text (qf_extraction f))))]"

definition json_of_decision :: "planning_decision \<Rightarrow> json" where
  "json_of_decision d = JObj [(''cardId'', Some (JStr (pd_cardId d))), (''versionId'', Some (JStr (pd_versionId d))),
     (''decision'', Some (JStr (planning_choice_text (pd_decision d)))),
     (''reason'', Some (JStr (decision_reason_text (pd_reason d)))),
     (''coveredFacetIds'', Some (json_texts (pd_coveredFacetIds d))),
     (''replacementCardVersionIds'', Some (json_texts (pd_replacementCardVersionIds d)))]"

definition json_of_coverage :: "(js_number \<Rightarrow> string) \<Rightarrow> facet_coverage \<Rightarrow> json" where
  "json_of_coverage render v = JObj [(''facetId'', Some (JStr (fv_facetId v))),
     (''bestLexicalScore'', Some (JNum (render (fv_bestLexicalScore v)))),
     (''supportedTokens'', Some (json_texts (fv_supportedTokens v))),
     (''supportedSourceKinds'', Some (json_texts (fv_supportedSourceKinds v)))]"

definition json_of_audit :: "(js_number \<Rightarrow> string) \<Rightarrow> minimum_set_audit \<Rightarrow> json" where
  "json_of_audit render a = JObj [(''policyVersion'', Some (JStr (ma_policyVersion a))),
     (''queryFacetPolicyVersion'', Some (JStr (ma_queryFacetPolicyVersion a))),
     (''ambiguous'', Some (JBool (ma_ambiguous a))), (''facets'', Some (JArr (map json_of_facet (ma_facets a)))),
     (''decisions'', Some (JArr (map json_of_decision (ma_decisions a)))),
     (''baselineCoverage'', Some (JArr (map (json_of_coverage render) (ma_baselineCoverage a)))),
     (''selectedCoverage'', Some (JArr (map (json_of_coverage render) (ma_selectedCoverage a)))),
     (''costBefore'', Some (json_of_cost (ma_costBefore a))), (''costAfter'', Some (json_of_cost (ma_costAfter a))),
     (''removalCount'', Some (JNum (show_nat (ma_removalCount a))))]"

text \<open>A number that is not finite has no canonical form; the scores of the coverage are the only such numbers.\<close>

definition auditDigest ::
    "(string \<Rightarrow> string) \<Rightarrow> (js_number \<Rightarrow> string) \<Rightarrow> minimum_set_audit \<Rightarrow> selection_error + string" where
  "auditDigest sha256 render a =
     (case List.find (\<lambda>v. \<not> is_finite (fv_bestLexicalScore v)) (ma_baselineCoverage a @ ma_selectedCoverage a) of
        Some v \<Rightarrow> Inl (CanonicalDigestInvariantError (''a non-finite number has no canonical form, received '' @
          render (fv_bestLexicalScore v)))
      | None \<Rightarrow> Inr (canonicalDigest sha256 (json_of_audit render a)))"

section \<open>Items\<close>

record plan_check =
  ck_itemKeys :: "string list"
  ck_itemKeyByScopeRef :: "(string \<times> string) list"
  ck_referencedTargetKeys :: "string list"
  ck_selectedUnion :: "string list"

definition empty_check :: plan_check where
  "empty_check = \<lparr>ck_itemKeys = [], ck_itemKeyByScopeRef = [], ck_referencedTargetKeys = [], ck_selectedUnion = []\<rparr>"

fun verify_references :: "planned_item \<Rightarrow> string list \<Rightarrow> card_ref list \<Rightarrow> string list \<Rightarrow> selection_error + string list" where
  "verify_references item seenOnItem [] selected = Inr selected"
| "verify_references item seenOnItem (r # rs) selected =
     (let key = cardRefKey (cf_cardId r) (cf_versionId r) in
      if key \<in> set seenOnItem
      then Inl (SelectionPlanInvariantError (''card '' @ cf_cardId r @ '' version '' @ cf_versionId r @
             '' is listed twice on item '' @ pl_itemKey item))
      else verify_references item (key # seenOnItem) rs (set_add key selected))"

text \<open>
  A managed item whose guide has no bound is outside the TypeScript types; read at run time its bound is
  absent, the member is left out of the digest, and no target has the same bound.
\<close>

fun guide_limit :: "retrieval_guide \<Rightarrow> nat option" where
  "guide_limit (ManagedDocumentGuide _ _ _ limit) = Some limit"
| "guide_limit (SqlRetrievalGuide _ _ _ _ _) = None"
| "guide_limit (HttpRetrievalGuide _ _ _ _ _ _) = None"

definition guideTargetKey :: "(string \<Rightarrow> string) \<Rightarrow> retrieval_guide \<Rightarrow> string" where
  "guideTargetKey sha256 g = canonicalDigest sha256 (JObj
     [(''scopeId'', Some (JStr (scopeId (guide_scopeRef g)))), (''scopeVersion'', Some (JStr (scopeVersion (guide_scopeRef g)))),
      (''limit'', map_option (\<lambda>n. JNum (show_nat n)) (guide_limit g))])"

definition same_target :: "retrieval_guide \<Rightarrow> managed_target \<Rightarrow> bool" where
  "same_target g t \<longleftrightarrow> Some (mt_limit t) = guide_limit g \<and> scopeId (mt_scopeRef t) = scopeId (guide_scopeRef g) \<and>
     scopeVersion (mt_scopeRef t) = scopeVersion (guide_scopeRef g)"

definition verify_managed ::
    "(string \<Rightarrow> string) \<Rightarrow> managed_target list \<Rightarrow> planned_item \<Rightarrow> plan_check \<Rightarrow> selection_error + plan_check" where
  "verify_managed sha256 targets item st =
     (case pl_execution item of
        Delegated \<Rightarrow> Inr st
      | Managed named \<Rightarrow>
          (let targetKey = guideTargetKey sha256 (pl_guide item) in
           if targetKey \<noteq> named
           then Inl (SelectionPlanInvariantError (''item '' @ pl_itemKey item @ '' names target '' @ named @
                  '', but its guide digests to '' @ targetKey))
           else if \<not> (case List.find (\<lambda>t. mt_targetKey t = targetKey) targets of
               None \<Rightarrow> False | Some t \<Rightarrow> same_target (pl_guide item) t)
           then Inl (SelectionPlanInvariantError (''item '' @ pl_itemKey item @ '' points at target '' @ targetKey @
                  '', which the plan does not list with the same scope and bound''))
           else Inr (st\<lparr>ck_referencedTargetKeys := set_add targetKey (ck_referencedTargetKeys st)\<rparr>)))"

definition verify_item ::
    "(string \<Rightarrow> string) \<Rightarrow> managed_target list \<Rightarrow> planned_item \<Rightarrow> plan_check \<Rightarrow> selection_error + plan_check" where
  "verify_item sha256 targets item st =
     (let itemKey = retrievalGuideKey sha256 (pl_guide item);
          r = guide_scopeRef (pl_guide item);
          scopeKey = scope_key r;
          known = map_of (ck_itemKeyByScopeRef st) scopeKey in
      if itemKey \<noteq> pl_itemKey item
      then Inl (SelectionPlanInvariantError (''item '' @ pl_itemKey item @ '' does not match the digest of its guide''))
      else if pl_itemKey item \<in> set (ck_itemKeys st)
      then Inl (SelectionPlanInvariantError (''item '' @ pl_itemKey item @ '' appears twice in one plan''))
      else if known \<noteq> None \<and> known \<noteq> Some (pl_itemKey item)
      then Inl (SelectionPlanInvariantError (''scope '' @ scopeId r @ ''@'' @ scopeVersion r @
             '' appears under two definitions in one plan''))
      else if length (pl_selectedBy item) = 0
      then Inl (SelectionPlanInvariantError (''item '' @ pl_itemKey item @ '' was selected by no Card''))
      else res_bind (verify_references item [] (pl_selectedBy item) (ck_selectedUnion st)) (\<lambda>selected.
        verify_managed sha256 targets item
          \<lparr>ck_itemKeys = set_add (pl_itemKey item) (ck_itemKeys st),
           ck_itemKeyByScopeRef = AList.update scopeKey (pl_itemKey item) (ck_itemKeyByScopeRef st),
           ck_referencedTargetKeys = ck_referencedTargetKeys st, ck_selectedUnion = selected\<rparr>))"

section \<open>Targets and verdicts\<close>

definition verify_target ::
    "(string \<Rightarrow> string) \<Rightarrow> string list \<Rightarrow> managed_target \<Rightarrow> string list \<Rightarrow> selection_error + string list" where
  "verify_target sha256 referenced t targetKeys =
     (if managedTargetKey sha256 (mt_scopeRef t) (mt_limit t) \<noteq> mt_targetKey t
      then Inl (SelectionPlanInvariantError (''target '' @ mt_targetKey t @ '' does not match the digest of its scope and bound''))
      else if mt_targetKey t \<in> set targetKeys
      then Inl (SelectionPlanInvariantError (''target '' @ mt_targetKey t @ '' appears twice in one plan''))
      else if mt_targetKey t \<notin> set referenced
      then Inl (SelectionPlanInvariantError (''target '' @ mt_targetKey t @ '' is listed but no item reads it''))
      else Inr (set_add (mt_targetKey t) targetKeys))"

definition refuse_first :: "('a \<Rightarrow> bool) \<Rightarrow> ('a \<Rightarrow> string) \<Rightarrow> 'a list \<Rightarrow> selection_error + unit" where
  "refuse_first bad message xs =
     (case List.find bad xs of Some x \<Rightarrow> Inl (SelectionPlanInvariantError (message x)) | None \<Rightarrow> Inr ())"

definition outcome_key :: "selection_outcome \<Rightarrow> string" where
  "outcome_key x = cardRefKey (oc_cardId x) (oc_versionId x)"

definition admitted_keys :: "selection_result \<Rightarrow> string list" where
  "admitted_keys selection = js_set (map outcome_key (filter (\<lambda>x. oc_verdict x = Admit) (rs_outcomes selection)))"

section \<open>The set planner's audit\<close>

definition covered_defer :: "selection_outcome option \<Rightarrow> bool" where
  "covered_defer found = (case found of None \<Rightarrow> False
     | Some x \<Rightarrow> oc_verdict x = Defer \<and> list_ex (\<lambda>f. sf_rule f = ''plan.covered_by_selected_set'') (oc_findings x))"

definition verify_decision ::
    "selection_result \<Rightarrow> string list \<Rightarrow> planning_decision \<Rightarrow> (string \<times> planning_decision) list \<times> nat \<Rightarrow>
     selection_error + (string \<times> planning_decision) list \<times> nat" where
  "verify_decision selection admitted d acc =
     (let key = cardRefKey (pd_cardId d) (pd_versionId d);
          label = pd_cardId d @ '' version '' @ pd_versionId d in
      if map_of (fst acc) key \<noteq> None
      then Inl (SelectionPlanInvariantError (''set planning audit repeats '' @ label))
      else if pd_decision d = NotPlanned
      then (if key \<in> set admitted
            then Inl (SelectionPlanInvariantError (''set planning audit removed '' @ label @ '', but the final verdict admits it''))
            else if \<not> covered_defer (List.find (\<lambda>x. outcome_key x = key) (rs_outcomes selection))
            then Inl (SelectionPlanInvariantError (''set planning audit removed '' @ label @ '' without the matching defer verdict''))
            else Inr (AList.update key d (fst acc), snd acc + 1))
      else if key \<notin> set admitted
      then Inl (SelectionPlanInvariantError (''set planning audit retains '' @ label @ '', but the final verdict does not admit it''))
      else Inr (AList.update key d (fst acc), snd acc))"

definition actual_cost :: "selection_plan \<Rightarrow> string list \<Rightarrow> plan_cost" where
  "actual_cost plan admitted =
     \<lparr>pc_managedTargetCount = int (length (sp_managedTargets plan)),
      pc_managedChunkLimitTotal = sum_list (map (\<lambda>t. int (mt_limit t)) (sp_managedTargets plan)),
      pc_delegatedItemCount = int (length (filter (\<lambda>i. \<not> isManagedPlannedItem i) (sp_items plan))),
      pc_guideBytes = sum_list (map (\<lambda>i. int (guide_bytes i)) (sp_items plan)),
      pc_selectedByTotal = sum_list (map (\<lambda>i. int (length (pl_selectedBy i))) (sp_items plan)),
      pc_cardCount = int (length admitted)\<rparr>"

definition verifySetPlanningAudit ::
    "(string \<Rightarrow> string) \<Rightarrow> (js_number \<Rightarrow> string) \<Rightarrow> selection_plan \<Rightarrow> string list \<Rightarrow> selection_error + unit" where
  "verifySetPlanningAudit sha256 render plan admitted =
     (let sm = sp_summary plan; a = sm_planning sm in
      res_bind (auditDigest sha256 render a) (\<lambda>digest.
      if digest \<noteq> sm_auditDigest sm
      then Inl (SelectionPlanInvariantError ''set planning audit does not match its digest'')
      else
      res_bind (res_fold (verify_decision (sm_selection sm) admitted) (ma_decisions a) ([], 0)) (\<lambda>(decisions, removed).
      res_bind (refuse_first (\<lambda>key. case map_of decisions key of None \<Rightarrow> True
            | Some d \<Rightarrow> pd_decision d \<noteq> SelectedCard \<and> pd_decision d \<noteq> ProtectedCard)
          (\<lambda>key. ''admitted '' @ replace_nul key @ '' has no retained set-planning decision'') admitted) (\<lambda>_.
      if ma_removalCount a \<noteq> removed \<or> pc_cardCount (ma_costBefore a) \<noteq> int (length decisions)
      then Inl (SelectionPlanInvariantError ''set planning audit counts do not match its decisions'')
      else if canonicalJson (json_of_cost (actual_cost plan admitted)) \<noteq> canonicalJson (json_of_cost (ma_costAfter a))
      then Inl (SelectionPlanInvariantError ''set planning audit cost does not match the final read plan'')
      else Inr ()))))"

section \<open>Verification\<close>

definition excluded_keys :: "plan_summary \<Rightarrow> string list" where
  "excluded_keys sm = map (\<lambda>x. cardRefKey (px_cardId x) (px_versionId x)) (sm_excluded sm)"

definition verify_policy :: "selection_plan \<Rightarrow> string list \<Rightarrow> selection_error + unit" where
  "verify_policy plan selectedUnion =
     (let sm = sp_summary plan; excluded = excluded_keys sm in
      res_bind (assertValidPolicyContext (sm_policyContext sm)) (\<lambda>_.
      res_bind (refuse_first (\<lambda>c. cardRefKey (qs_cardId c) (qs_versionId c) \<in> set excluded)
          (\<lambda>c. ''card '' @ qs_cardId c @ '' version '' @ qs_versionId c @ '' was scored although the policy excluded it'')
          (sm_candidates sm)) (\<lambda>_.
      res_bind (refuse_first (\<lambda>x. outcome_key x \<in> set excluded)
          (\<lambda>x. ''card '' @ oc_cardId x @ '' version '' @ oc_versionId x @ '' was judged although the policy excluded it'')
          (rs_outcomes (sm_selection sm))) (\<lambda>_.
      refuse_first (\<lambda>key. key \<in> set excluded)
        (\<lambda>key. ''an item is selected by '' @ replace_nul key @ '', which the policy excluded'') selectedUnion))))"

definition verifySelectionPlan ::
    "(string \<Rightarrow> string) \<Rightarrow> (js_number \<Rightarrow> string) \<Rightarrow> selection_plan \<Rightarrow> string option \<Rightarrow> selection_error + unit" where
  "verifySelectionPlan sha256 render plan expected =
     (if expected \<noteq> None \<and> expected \<noteq> Some (sp_query plan)
      then Inl (SelectionPlanInvariantError ''plan query does not match the query it was asked'')
      else
      res_bind (res_fold (verify_item sha256 (sp_managedTargets plan)) (sp_items plan) empty_check) (\<lambda>st.
      res_bind (res_fold (verify_target sha256 (ck_referencedTargetKeys st)) (sp_managedTargets plan) []) (\<lambda>_.
        let admitted = admitted_keys (sm_selection (sp_summary plan)) in
      res_bind (refuse_first (\<lambda>key. key \<notin> set admitted)
          (\<lambda>key. ''an item is selected by '' @ replace_nul key @ '', which the ranking did not admit'') (ck_selectedUnion st)) (\<lambda>_.
      res_bind (refuse_first (\<lambda>key. key \<notin> set (ck_selectedUnion st))
          (\<lambda>key. ''admitted '' @ replace_nul key @ '' selects no item'') admitted) (\<lambda>_.
      res_bind (verifySetPlanningAudit sha256 render plan admitted) (\<lambda>_.
        verify_policy plan (ck_selectedUnion st)))))))"

end
