(* ===== verification/Request_Errors.thy ===== *)
theory Request_Errors
  imports Selection_Plan
begin

text \<open>
  The failures of a request: \<open>application/errors.ts\<close> of packages/selection-delivery, with the faults of
  \<open>ports/card-embedding.ts\<close>. A failure is one of the request's own, an invariant error of the domain, a
  fault of the embedding provider, or anything else a port may throw.
\<close>

datatype card_fault_code =
    AuthenticationFailed | EmbeddingArtifactUnavailable | InputLimitExceeded | InvalidRequestFault | InvalidResponse
  | ProviderUnavailable | RateLimited

fun card_fault_text :: "card_fault_code \<Rightarrow> string" where
  "card_fault_text AuthenticationFailed = ''authentication_failed''"
| "card_fault_text EmbeddingArtifactUnavailable = ''embedding_artifact_unavailable''"
| "card_fault_text InputLimitExceeded = ''input_limit_exceeded''"
| "card_fault_text InvalidRequestFault = ''invalid_request''"
| "card_fault_text InvalidResponse = ''invalid_response''"
| "card_fault_text ProviderUnavailable = ''provider_unavailable''"
| "card_fault_text RateLimited = ''rate_limited''"

datatype resolve_error_code =
    InvalidRequest | EmptyQuery | QueryInputLimitExceeded | InvalidContextBudget | Overloaded | SelectionCatalogUnavailable
  | SelectionCatalogInvalid | SelectionEmbeddingUnavailable | SelectionPlanLimitExceeded | SelectionInvariantViolation
  | DeadlineExceeded | UnexpectedFailure

record error_row =
  er_status :: nat
  er_retriable :: bool

fun RESOLVE_CONTEXT_ERROR_TABLE :: "resolve_error_code \<Rightarrow> error_row" where
  "RESOLVE_CONTEXT_ERROR_TABLE InvalidRequest = \<lparr>er_status = 400, er_retriable = False\<rparr>"
| "RESOLVE_CONTEXT_ERROR_TABLE EmptyQuery = \<lparr>er_status = 400, er_retriable = False\<rparr>"
| "RESOLVE_CONTEXT_ERROR_TABLE QueryInputLimitExceeded = \<lparr>er_status = 400, er_retriable = False\<rparr>"
| "RESOLVE_CONTEXT_ERROR_TABLE InvalidContextBudget = \<lparr>er_status = 400, er_retriable = False\<rparr>"
| "RESOLVE_CONTEXT_ERROR_TABLE SelectionPlanLimitExceeded = \<lparr>er_status = 422, er_retriable = False\<rparr>"
| "RESOLVE_CONTEXT_ERROR_TABLE Overloaded = \<lparr>er_status = 429, er_retriable = True\<rparr>"
| "RESOLVE_CONTEXT_ERROR_TABLE SelectionCatalogUnavailable = \<lparr>er_status = 503, er_retriable = True\<rparr>"
| "RESOLVE_CONTEXT_ERROR_TABLE SelectionEmbeddingUnavailable = \<lparr>er_status = 503, er_retriable = True\<rparr>"
| "RESOLVE_CONTEXT_ERROR_TABLE SelectionCatalogInvalid = \<lparr>er_status = 500, er_retriable = False\<rparr>"
| "RESOLVE_CONTEXT_ERROR_TABLE SelectionInvariantViolation = \<lparr>er_status = 500, er_retriable = False\<rparr>"
| "RESOLVE_CONTEXT_ERROR_TABLE UnexpectedFailure = \<lparr>er_status = 500, er_retriable = False\<rparr>"
| "RESOLVE_CONTEXT_ERROR_TABLE DeadlineExceeded = \<lparr>er_status = 504, er_retriable = True\<rparr>"

definition resolveContextError :: "resolve_error_code \<Rightarrow> resolve_error_code \<times> bool" where
  "resolveContextError code = (code, er_retriable (RESOLVE_CONTEXT_ERROR_TABLE code))"

definition resolveContextErrorStatus :: "resolve_error_code \<Rightarrow> nat" where
  "resolveContextErrorStatus code = er_status (RESOLVE_CONTEXT_ERROR_TABLE code)"

datatype resolve_failure =
    EmptyQueryError
  | InvalidContextBudgetError string
  | QueryInputLimitExceededError string
  | SelectionPlanLimitExceededError "limit_violation list"
  | CardEmbeddingUnavailableError string
  | OtherResolveFailure resolve_error_code string

fun failure_code :: "resolve_failure \<Rightarrow> resolve_error_code" where
  "failure_code EmptyQueryError = EmptyQuery"
| "failure_code (InvalidContextBudgetError _) = InvalidContextBudget"
| "failure_code (QueryInputLimitExceededError _) = QueryInputLimitExceeded"
| "failure_code (SelectionPlanLimitExceededError _) = SelectionPlanLimitExceeded"
| "failure_code (CardEmbeddingUnavailableError _) = SelectionEmbeddingUnavailable"
| "failure_code (OtherResolveFailure code _) = code"

definition retriable :: "resolve_failure \<Rightarrow> bool" where
  "retriable f = er_retriable (RESOLVE_CONTEXT_ERROR_TABLE (failure_code f))"

definition toResolveContextError :: "resolve_failure \<Rightarrow> resolve_error_code \<times> bool" where
  "toResolveContextError f = resolveContextError (failure_code f)"

datatype request_error =
    Resolve resolve_failure
  | Domain selection_error
  | CardEmbeddingFault card_fault_code bool
  | UnknownCause string

fun toResolveContextErrorCode :: "request_error \<Rightarrow> resolve_error_code" where
  "toResolveContextErrorCode (Resolve f) = failure_code f"
| "toResolveContextErrorCode (Domain e) =
     (case e of
        ContextBudgetInvariantError _ \<Rightarrow> InvalidContextBudget
      | CardSelectionInputLimitError _ \<Rightarrow> SelectionCatalogInvalid
      | CardCatalogInvariantError _ \<Rightarrow> SelectionCatalogInvalid
      | SelectionThresholdsInvariantError _ \<Rightarrow> SelectionInvariantViolation
      | SelectionCandidateInvariantError _ \<Rightarrow> SelectionInvariantViolation
      | SelectionScopeInvariantError _ \<Rightarrow> SelectionInvariantViolation
      | SelectionPlanInvariantError _ \<Rightarrow> SelectionInvariantViolation
      | ManagedResolutionInvariantError _ \<Rightarrow> SelectionInvariantViolation
      | CanonicalDigestInvariantError _ \<Rightarrow> SelectionInvariantViolation
      | CardSelectionProfileInvariantError _ \<Rightarrow> SelectionInvariantViolation
      | CardCandidateIndexInvariantError _ \<Rightarrow> SelectionInvariantViolation
      | SelectionModeInvariantError _ \<Rightarrow> SelectionInvariantViolation
      | PolicyContextInvariantError _ \<Rightarrow> SelectionInvariantViolation
      | SelectionTypeError _ \<Rightarrow> UnexpectedFailure)"
| "toResolveContextErrorCode (CardEmbeddingFault _ _) = UnexpectedFailure"
| "toResolveContextErrorCode (UnknownCause _) = UnexpectedFailure"

definition lift_domain :: "selection_error + 'a \<Rightarrow> request_error + 'a" where
  "lift_domain m = (case m of Inl e \<Rightarrow> Inl (Domain e) | Inr x \<Rightarrow> Inr x)"

lemma lift_domain_simps [simp]:
  "lift_domain (Inl e) = Inl (Domain e)" "lift_domain (Inr x) = Inr x"
  by (simp_all add: lift_domain_def)

lemma lift_domain_Inr: "lift_domain m = Inr x \<longleftrightarrow> m = Inr x"
  by (cases m) simp_all

lemma lift_domain_Inl: "lift_domain m = Inl e \<longleftrightarrow> (\<exists>d. e = Domain d \<and> m = Inl d)"
  by (cases m) auto

end
