(* ===== verification/Assemble_Context.thy ===== *)
theory Assemble_Context
  imports Context_Assembly Plan_Verification Hybrid_Ranking Request_Errors
begin

text \<open>
  \<open>application/assemble-context.ts\<close> with the data of \<open>domain/managed-resolution.ts\<close> and \<open>domain/context-resolution.ts\<close>:
  a plan and the outcomes of its reads become the answer a consumer gets. Every outcome is held against the plan first;
  a defect in the bookkeeping refuses the answer, a defect inside one read fails the items that planned it.
\<close>

section \<open>Outcomes of reads\<close>

record resolved_chunk =
  rv_rank :: js_number
  rv_chunkId :: string
  rv_chunkRevisionId :: string
  rv_semanticUnitId :: string
  rv_documentId :: string
  rv_text :: string
  rv_contentDigest :: string

datatype resolution_stage = ManagedSearch | Deadline

record resolution_failure =
  rf_stage :: resolution_stage
  rf_code :: string
  rf_retriable :: bool

datatype outcome_status = FulfilledRead "resolved_chunk list" | FailedRead resolution_failure

record resolution_outcome =
  ro_targetKey :: string
  ro_status :: outcome_status

text \<open>\<open>/^[a-z][a-z0-9_]{0,63}$/u\<close>\<close>

definition lower_letter :: "char \<Rightarrow> bool" where
  "lower_letter c \<longleftrightarrow> CHR ''a'' \<le> c \<and> c \<le> CHR ''z''"

definition matches_failure_code :: "string \<Rightarrow> bool" where
  "matches_failure_code t = (case t of [] \<Rightarrow> False
     | c # cs \<Rightarrow> lower_letter c \<and> length cs \<le> 63 \<and>
         list_all (\<lambda>d. lower_letter d \<or> (CHR ''0'' \<le> d \<and> d \<le> CHR ''9'') \<or> d = CHR ''_'') cs)"

text \<open>That \<open>retriable\<close> is a boolean is a matter of types here.\<close>

definition assertOpaqueFailure :: "resolution_failure \<Rightarrow> selection_error + unit" where
  "assertOpaqueFailure failure =
     (if matches_failure_code (rf_code failure) then Inr ()
      else Inl (ManagedResolutionInvariantError (''failure code '' @ json_quote (rf_code failure) @ '' is not a permitted opaque token'')))"

section \<open>The answer\<close>

datatype fulfillment_stage = ManagedSearchStage | AssemblyStage | DeadlineStage

record fulfillment_failure =
  ff_stage :: fulfillment_stage
  ff_code :: string
  ff_retriable :: bool

record retrieved_chunk =
  re_contextRank :: nat
  re_chunkId :: string
  re_chunkRevisionId :: string
  re_semanticUnitId :: string
  re_documentId :: string
  re_text :: string
  re_contentDigest :: string

record retrieved_context =
  rx_contentTrust :: string
  rx_chunks :: "retrieved_chunk list"
  rx_omitted :: "context_omission list"
  rx_truncated :: bool

datatype fulfillment =
    FulfilledItem retrieved_context
  | FailedItem fulfillment_failure
  | DelegatedItem

record resolution_item =
  ri_selectedBy :: "card_ref list"
  ri_guide :: retrieval_guide
  ri_fulfillment :: fulfillment

record selection_counts =
  sk_admitted :: nat
  sk_deferred :: nat
  sk_rejected :: nat

record selection_summary =
  su_mode :: selection_mode
  su_selected :: "card_ref list"
  su_counts :: selection_counts

record resolution_policy =
  rl_payloadSchemaVersion :: nat
  rl_scoring :: string
  rl_ranking :: string
  rl_planning :: string
  rl_fusion :: string
  rl_assembly :: string
  rl_budget :: context_budget

record context_resolution =
  cr_query :: string
  cr_policy :: resolution_policy
  cr_selection :: selection_summary
  cr_items :: "resolution_item list"

definition SELECTION_PLANNING_POLICY_VERSION :: string where "SELECTION_PLANNING_POLICY_VERSION = ''selection-planning-v2''"

definition selectionScoringFor :: "selection_mode \<Rightarrow> selection_error + string" where
  "selectionScoringFor mode =
     (let scoring = scoringPolicyVersionFor mode in
      res_bind (assertSelectionScoringPairing mode scoring) (\<lambda>_. Inr scoring))"

section \<open>Outcomes against the plan\<close>

definition planned_targets :: "selection_plan \<Rightarrow> string list" where
  "planned_targets plan = fold (\<lambda>item acc. case pl_execution item of Managed k \<Rightarrow> set_add k acc | Delegated \<Rightarrow> acc) (sp_items plan) []"

fun index_outcomes ::
    "string list \<Rightarrow> resolution_outcome list \<Rightarrow> (string \<times> resolution_outcome) list \<Rightarrow> selection_error + (string \<times> resolution_outcome) list" where
  "index_outcomes planned [] byTargetKey = Inr byTargetKey"
| "index_outcomes planned (x # xs) byTargetKey =
     res_bind (case ro_status x of FailedRead failure \<Rightarrow> assertOpaqueFailure failure | FulfilledRead _ \<Rightarrow> Inr ()) (\<lambda>_.
       if ro_targetKey x \<notin> set planned
       then Inl (ManagedResolutionInvariantError (''outcome for target '' @ ro_targetKey x @ '' matches no planned read''))
       else if map_of byTargetKey (ro_targetKey x) \<noteq> None
       then Inl (ManagedResolutionInvariantError (''target '' @ ro_targetKey x @ '' was answered more than once''))
       else index_outcomes planned xs (AList.update (ro_targetKey x) x byTargetKey))"

definition indexOutcomes :: "selection_plan \<Rightarrow> resolution_outcome list \<Rightarrow> selection_error + (string \<times> resolution_outcome) list" where
  "indexOutcomes plan outcomes = index_outcomes (planned_targets plan) outcomes []"

datatype item_verdict = FulfilledVerdict string "resolved_chunk list" | FailedVerdict fulfillment_failure

definition ASSEMBLY_FAILURE :: fulfillment_failure where
  "ASSEMBLY_FAILURE = \<lparr>ff_stage = AssemblyStage, ff_code = ''resolution_outcome_invalid'', ff_retriable = False\<rparr>"

definition bool_text :: "bool \<Rightarrow> string" where
  "bool_text b = (if b then ''true'' else ''false'')"

definition toFulfillmentFailure :: "resolution_failure \<Rightarrow> selection_error + fulfillment_failure" where
  "toFulfillmentFailure failure =
     (case rf_stage failure of
        ManagedSearch \<Rightarrow> Inr \<lparr>ff_stage = ManagedSearchStage, ff_code = rf_code failure, ff_retriable = rf_retriable failure\<rparr>
      | Deadline \<Rightarrow>
          if rf_code failure \<noteq> ''deadline_exceeded'' \<or> \<not> rf_retriable failure
          then Inl (ManagedResolutionInvariantError (''a deadline failure must be deadline_exceeded and retriable, received '' @
                 rf_code failure @ '' with retriable '' @ bool_text (rf_retriable failure)))
          else Inr \<lparr>ff_stage = DeadlineStage, ff_code = ''deadline_exceeded'', ff_retriable = True\<rparr>)"

fun chunks_hold :: "nat \<Rightarrow> resolved_chunk list \<Rightarrow> js_number list \<Rightarrow> string list \<Rightarrow> bool" where
  "chunks_hold n [] ranks revisions = True"
| "chunks_hold n (c # cs) ranks revisions =
     (if \<not> isSafeInteger (rv_rank c) \<or> js_less (rv_rank c) (Finite 1) \<or> js_less (whole n) (rv_rank c) \<or> rv_rank c \<in> set ranks then False
      else if rv_chunkRevisionId c \<in> set revisions then False
      else if length (rv_chunkId c) = 0 \<or> length (rv_chunkRevisionId c) = 0 \<or> length (rv_semanticUnitId c) = 0 \<or>
        length (rv_documentId c) = 0 \<or> length (rv_text c) = 0 \<or> length (rv_contentDigest c) = 0 then False
      else chunks_hold n cs (set_add (rv_rank c) ranks) (set_add (rv_chunkRevisionId c) revisions))"

definition outcomeHoldsTogether :: "nat option \<Rightarrow> resolved_chunk list \<Rightarrow> bool" where
  "outcomeHoldsTogether limit chunks =
     (if (case limit of Some n \<Rightarrow> n < length chunks | None \<Rightarrow> False) then False else chunks_hold (length chunks) chunks [] [])"

definition judgeOutcome :: "planned_item \<Rightarrow> string \<Rightarrow> resolution_outcome option \<Rightarrow> selection_error + item_verdict" where
  "judgeOutcome item targetKey found =
     (case found of
        None \<Rightarrow> Inr (FailedVerdict ASSEMBLY_FAILURE)
      | Some x \<Rightarrow>
          (case ro_status x of
             FailedRead failure \<Rightarrow> res_bind (toFulfillmentFailure failure) (\<lambda>f. Inr (FailedVerdict f))
           | FulfilledRead chunks \<Rightarrow>
               if \<not> outcomeHoldsTogether (guide_limit (pl_guide item)) chunks then Inr (FailedVerdict ASSEMBLY_FAILURE)
               else Inr (FulfilledVerdict targetKey chunks)))"

section \<open>Assembly\<close>

definition candidate_of :: "planned_item \<Rightarrow> string \<Rightarrow> resolved_chunk \<Rightarrow> context_candidate" where
  "candidate_of item targetKey c =
     \<lparr>cx_itemKey = pl_itemKey item, cx_targetKey = targetKey, cx_scopeRef = guide_scopeRef (pl_guide item), cx_rank = rv_rank c,
      cx_chunkId = rv_chunkId c, cx_chunkRevisionId = rv_chunkRevisionId c, cx_semanticUnitId = rv_semanticUnitId c,
      cx_documentId = rv_documentId c, cx_contentDigest = rv_contentDigest c, cx_text = rv_text c\<rparr>"

definition judge_item ::
    "(string \<times> resolution_outcome) list \<Rightarrow> planned_item \<Rightarrow> (string \<times> item_verdict) list \<times> context_candidate list \<Rightarrow>
     selection_error + (string \<times> item_verdict) list \<times> context_candidate list" where
  "judge_item byTargetKey item acc =
     (case pl_execution item of
        Delegated \<Rightarrow> Inr acc
      | Managed targetKey \<Rightarrow>
          res_bind (judgeOutcome item targetKey (map_of byTargetKey targetKey)) (\<lambda>verdict.
            let verdicts = AList.update (pl_itemKey item) verdict (fst acc) in
            Inr (case verdict of
                FailedVerdict _ \<Rightarrow> (verdicts, snd acc)
              | FulfilledVerdict _ chunks \<Rightarrow> (verdicts, snd acc @ map (candidate_of item targetKey) chunks))))"

definition fail_conflicted :: "string list \<Rightarrow> item_verdict \<Rightarrow> item_verdict" where
  "fail_conflicted failedTargetKeys verdict =
     (case verdict of
        FulfilledVerdict targetKey _ \<Rightarrow> if targetKey \<in> set failedTargetKeys then FailedVerdict ASSEMBLY_FAILURE else verdict
      | FailedVerdict _ \<Rightarrow> verdict)"

definition rank_chunk :: "nat \<Rightarrow> context_chunk \<Rightarrow> string \<times> retrieved_chunk" where
  "rank_chunk i c = (let x = hk_occurrence c in
     (cx_itemKey x, \<lparr>re_contextRank = i + 1, re_chunkId = cx_chunkId x, re_chunkRevisionId = cx_chunkRevisionId x,
        re_semanticUnitId = cx_semanticUnitId x, re_documentId = cx_documentId x, re_text = cx_text x, re_contentDigest = cx_contentDigest x\<rparr>))"

definition rankContext :: "context_chunk list \<Rightarrow> (string \<times> retrieved_chunk) list" where
  "rankContext chunks = map (\<lambda>(i, c). rank_chunk i c) (zip [0..<length chunks] chunks)"

definition summarizeSelection :: "selection_plan \<Rightarrow> selection_summary" where
  "summarizeSelection plan =
     (let outcomes = rs_outcomes (sm_selection (sp_summary plan)) in
      \<lparr>su_mode = sm_mode (sp_summary plan),
       su_selected = map (\<lambda>x. \<lparr>cf_cardId = oc_cardId x, cf_versionId = oc_versionId x\<rparr>) (filter (\<lambda>x. oc_verdict x = Admit) outcomes),
       su_counts = \<lparr>sk_admitted = length (filter (\<lambda>x. oc_verdict x = Admit) outcomes),
         sk_deferred = length (filter (\<lambda>x. oc_verdict x = Defer) outcomes),
         sk_rejected = length (filter (\<lambda>x. oc_verdict x = Reject) outcomes)\<rparr>\<rparr>)"

definition contextFor :: "retrieved_chunk list \<Rightarrow> context_omission list \<Rightarrow> retrieved_context" where
  "contextFor chunks omitted = \<lparr>rx_contentTrust = ''untrusted'', rx_chunks = chunks, rx_omitted = omitted,
     rx_truncated = list_ex (\<lambda>x. mo_reason x = BudgetExhausted) omitted\<rparr>"

definition bucket :: "(string \<times> 'a list) list \<Rightarrow> string \<Rightarrow> 'a list" where
  "bucket groups key = (case map_of groups key of None \<Rightarrow> [] | Some xs \<Rightarrow> xs)"

definition buildItem ::
    "(string \<times> item_verdict) list \<Rightarrow> (string \<times> (string \<times> retrieved_chunk) list) list \<Rightarrow>
     (string \<times> (string \<times> context_omission) list) list \<Rightarrow> planned_item \<Rightarrow> selection_error + resolution_item" where
  "buildItem verdicts chunksByItem omissionsByItem item =
     (if \<not> isManagedPlannedItem item
      then Inr \<lparr>ri_selectedBy = pl_selectedBy item, ri_guide = pl_guide item, ri_fulfillment = DelegatedItem\<rparr>
      else (case map_of verdicts (pl_itemKey item) of
          None \<Rightarrow> Inl (ManagedResolutionInvariantError (''planned item '' @ pl_itemKey item @ '' was never judged''))
        | Some (FailedVerdict failure) \<Rightarrow>
            Inr \<lparr>ri_selectedBy = pl_selectedBy item, ri_guide = pl_guide item, ri_fulfillment = FailedItem failure\<rparr>
        | Some (FulfilledVerdict _ _) \<Rightarrow>
            Inr \<lparr>ri_selectedBy = pl_selectedBy item, ri_guide = pl_guide item,
              ri_fulfillment = FulfilledItem (contextFor (map snd (bucket chunksByItem (pl_itemKey item)))
                (map snd (bucket omissionsByItem (pl_itemKey item))))\<rparr>))"

fun build_items :: "(planned_item \<Rightarrow> selection_error + resolution_item) \<Rightarrow> planned_item list \<Rightarrow> selection_error + resolution_item list" where
  "build_items build [] = Inr []"
| "build_items build (x # xs) = res_bind (build x) (\<lambda>i. res_bind (build_items build xs) (\<lambda>is. Inr (i # is)))"

text \<open>
  In the source the policy block and the selection summary are evaluated between the groups and the items.
\<close>

definition assembleContext ::
    "(string \<Rightarrow> string) \<Rightarrow> (js_number \<Rightarrow> string) \<Rightarrow> selection_plan \<Rightarrow> resolution_outcome list \<Rightarrow> context_budget option \<Rightarrow>
     selection_error + context_resolution" where
  "assembleContext sha256 render plan outcomes givenBudget =
     (let budget = (case givenBudget of None \<Rightarrow> DEFAULT_CONTEXT_BUDGET | Some b \<Rightarrow> b) in
      res_bind (verifySelectionPlan sha256 render plan None) (\<lambda>_.
      res_bind (indexOutcomes plan outcomes) (\<lambda>byTargetKey.
      res_bind (res_fold (judge_item byTargetKey) (sp_items plan) ([], [])) (\<lambda>(judged, candidates).
      res_bind (assembleDocumentContext render candidates budget) (\<lambda>assembled.
        let verdicts = map (\<lambda>(k, v). (k, fail_conflicted (ab_failedTargetKeys assembled) v)) judged;
            chunksByItem = groupBy (rankContext (ab_chunks assembled)) fst;
            omissionsByItem = groupBy (map (\<lambda>x. (cx_itemKey (od_chunk x), toContextOmission x)) (ab_omitted assembled)) fst in
        res_bind (selectionScoringFor (sm_mode (sp_summary plan))) (\<lambda>scoring.
        res_bind (build_items (buildItem verdicts chunksByItem omissionsByItem) (sp_items plan)) (\<lambda>items.
          Inr \<lparr>cr_query = sp_query plan,
            cr_policy = \<lparr>rl_payloadSchemaVersion = 3, rl_scoring = scoring, rl_ranking = SELECTION_RANKING_POLICY_VERSION,
              rl_planning = SELECTION_PLANNING_POLICY_VERSION, rl_fusion = CONTEXT_FUSION_POLICY_VERSION,
              rl_assembly = CONTEXT_ASSEMBLY_POLICY_VERSION, rl_budget = budget\<rparr>,
            cr_selection = summarizeSelection plan, cr_items = items\<rparr>)))))))"

end
