(* ===== verification/Assembly_Laws.thy ===== *)
theory Assembly_Laws
  imports Context_Assembly
begin

text \<open>
  What assembly does, without its loops: which reads are contradicted, what a revision is fused to, which chunk stands for
  a content, and how far the budget reaches.
\<close>

section \<open>Contradictions\<close>

definition revision_content :: "context_candidate \<Rightarrow> string \<times> string \<times> string \<times> string \<times> string" where
  "revision_content x = (cx_chunkId x, cx_documentId x, cx_semanticUnitId x, cx_text x, cx_contentDigest x)"

lemma describesSameRevision_iff: "describesSameRevision l r \<longleftrightarrow> revision_content l = revision_content r"
  by (simp add: describesSameRevision_def revision_content_def)

text \<open>Two occurrences contradict each other when they share a key and differ in what the key determines.\<close>

definition clash :: "('a \<Rightarrow> 'k) \<Rightarrow> ('a \<Rightarrow> 'v) \<Rightarrow> 'k \<Rightarrow> 'a set \<Rightarrow> bool" where
  "clash k f v A \<longleftrightarrow> (\<exists>x \<in> A. \<exists>y \<in> A. k x = v \<and> k y = v \<and> f x \<noteq> f y)"

definition contradicted :: "context_candidate set \<Rightarrow> string set" where
  "contradicted A = {cx_targetKey x |x. x \<in> A \<and>
     (clash cx_chunkRevisionId revision_content (cx_chunkRevisionId x) A \<or> clash cx_contentDigest cx_text (cx_contentDigest x) A)}"

lemma group_conflicts_iff:
  assumes "\<And>l r. agrees l r \<longleftrightarrow> f l = f r"
  shows "group_conflicts agrees k xs = {cx_targetKey x |x. x \<in> set xs \<and> clash k f (k x) (set xs)}"
proof -
  have "(\<exists>y \<in> set xs. k y = k x \<and> \<not> agrees y (hd (filter (\<lambda>z. k z = k x) xs))) \<longleftrightarrow> clash k f (k x) (set xs)" if "x \<in> set xs" for x
  proof -
    let ?h = "hd (filter (\<lambda>z. k z = k x) xs)"
    have "filter (\<lambda>z. k z = k x) xs \<noteq> []" using that by (auto simp: filter_empty_conv)
    then have "?h \<in> set (filter (\<lambda>z. k z = k x) xs)" by (rule hd_in_set)
    then have h: "?h \<in> set xs" "k ?h = k x" by simp_all
    show ?thesis
    proof
      assume "\<exists>y \<in> set xs. k y = k x \<and> \<not> agrees y ?h"
      then show "clash k f (k x) (set xs)" using h assms unfolding clash_def by blast
    next
      assume "clash k f (k x) (set xs)"
      then obtain y z where yz: "y \<in> set xs" "z \<in> set xs" "k y = k x" "k z = k x" "f y \<noteq> f z" unfolding clash_def by blast
      then have "f y \<noteq> f ?h \<or> f z \<noteq> f ?h" by metis
      then show "\<exists>y \<in> set xs. k y = k x \<and> \<not> agrees y ?h" using yz assms by blast
    qed
  qed
  then show ?thesis unfolding group_conflicts_def by blast
qed

lemma conflicting_contradicted: "set (findConflictingTargets xs) = contradicted (set xs)"
proof -
  have "set (findConflictingTargets xs) =
      {cx_targetKey x |x. x \<in> set xs \<and> clash cx_chunkRevisionId revision_content (cx_chunkRevisionId x) (set xs)} \<union>
      {cx_targetKey x |x. x \<in> set xs \<and> clash cx_contentDigest cx_text (cx_contentDigest x) (set xs)}"
    unfolding set_findConflictingTargets
    using group_conflicts_iff [OF describesSameRevision_iff] group_conflicts_iff [of "\<lambda>l r. cx_text l = cx_text r" cx_text, OF refl] by simp
  then show ?thesis unfolding contradicted_def by blast
qed

lemma clash_mono: "clash k f v A \<Longrightarrow> A \<subseteq> B \<Longrightarrow> clash k f v B"
  unfolding clash_def by blast

lemma survivors_agree: "contradicted {x \<in> A. cx_targetKey x \<notin> contradicted A} = {}"
proof -
  let ?B = "{x \<in> A. cx_targetKey x \<notin> contradicted A}"
  have sub: "?B \<subseteq> A" by blast
  have "False" if x: "x \<in> ?B" and c: "clash cx_chunkRevisionId revision_content (cx_chunkRevisionId x) ?B \<or>
      clash cx_contentDigest cx_text (cx_contentDigest x) ?B" for x
  proof -
    have "clash cx_chunkRevisionId revision_content (cx_chunkRevisionId x) A \<or> clash cx_contentDigest cx_text (cx_contentDigest x) A"
      using c clash_mono [OF _ sub, of cx_chunkRevisionId revision_content] clash_mono [OF _ sub, of cx_contentDigest cx_text] by blast
    then have "cx_targetKey x \<in> contradicted A" using x unfolding contradicted_def by blast
    then show False using x by blast
  qed
  then show ?thesis unfolding contradicted_def by blast
qed

lemma quarantine_once:
  "quarantine_loop [] xs = (filter (\<lambda>x. cx_targetKey x \<notin> contradicted (set xs)) xs, js_set (findConflictingTargets xs))"
proof (cases "findConflictingTargets xs = []")
  case True
  then have "contradicted (set xs) = {}" using conflicting_contradicted [of xs] by simp
  then show ?thesis using True by (subst quarantine_loop.simps) (simp add: js_set_def)
next
  case False
  let ?ys = "filter (\<lambda>x. cx_targetKey x \<notin> contradicted (set xs)) xs"
  have f: "set (fold set_add (findConflictingTargets xs) []) = contradicted (set xs)"
    by (simp add: set_fold_set_add conflicting_contradicted)
  have "set (findConflictingTargets ?ys) = {}"
    unfolding conflicting_contradicted set_filter by (rule survivors_agree)
  then have "quarantine_loop fs ?ys = (?ys, fs)" for fs by (subst quarantine_loop.simps) (simp add: Let_def)
  then show ?thesis using False by (subst quarantine_loop.simps) (simp add: Let_def f js_set_def)
qed

lemma quarantineConflicts_eq:
  "quarantineConflicts xs = (filter (\<lambda>x. cx_targetKey x \<notin> contradicted (set xs)) xs, sort (js_set (findConflictingTargets xs)))"
  by (simp add: quarantineConflicts_def quarantine_once)

section \<open>Fusion\<close>

definition rank_value :: "context_candidate \<Rightarrow> rat" where
  "rank_value x = (case cx_rank x of Finite q \<Rightarrow> q | _ \<Rightarrow> 0)"

definition position :: "context_candidate \<Rightarrow> bool" where
  "position x \<longleftrightarrow> safe_at_least 1 (cx_rank x)"

definition reciprocal :: "context_candidate \<Rightarrow> rat" where
  "reciprocal x = 1 / (60 + rank_value x)"

abbreviation occurrences :: "string \<Rightarrow> context_candidate list \<Rightarrow> context_candidate list" where
  "occurrences v xs \<equiv> filter (\<lambda>x. cx_chunkRevisionId x = v) xs"

definition fused_chunk :: "context_candidate list \<Rightarrow> string \<Rightarrow> context_chunk" where
  "fused_chunk xs v = \<lparr>hk_occurrence = hd (sort_key occurrence_key (occurrences v xs)),
     hk_score = sum_list (map reciprocal (occurrences v xs))\<rparr>"

definition lost_occurrences :: "context_candidate list \<Rightarrow> string \<Rightarrow> omitted_chunk list" where
  "lost_occurrences xs v = map (\<lambda>x. \<lparr>od_chunk = x, od_reason = DuplicateChunkRevision\<rparr>) (tl (sort_key occurrence_key (occurrences v xs)))"

lemma reciprocalRank_ok: "reciprocalRank render (cx_rank x) = Inr r \<longleftrightarrow> position x \<and> r = reciprocal x"
  unfolding reciprocalRank_def position_def reciprocal_def rank_value_def RRF_RANK_CONSTANT_def by (simp add: eq_commute)

lemma sum_reciprocals_ok:
  "sum_reciprocals render acc xs = Inr s \<longleftrightarrow> list_all position xs \<and> s = acc + sum_list (map reciprocal xs)"
proof (induction xs arbitrary: acc)
  case (Cons x xs)
  have "sum_reciprocals render acc (x # xs) = Inr s \<longleftrightarrow> position x \<and> sum_reciprocals render (acc + reciprocal x) xs = Inr s"
    unfolding sum_reciprocals.simps res_bind_eq_Inr reciprocalRank_ok by blast
  then show ?case unfolding Cons.IH by (simp add: add.assoc)
qed auto

lemma fuse_group_ok:
  assumes "occurrences v xs \<noteq> []"
  shows "fuse_group render (v, occurrences v xs) acc = Inr acc' \<longleftrightarrow> list_all position (occurrences v xs) \<and>
     acc' = (fst acc @ [fused_chunk xs v], snd acc @ lost_occurrences xs v)"
proof -
  have "sort_key occurrence_key (occurrences v xs) \<noteq> []" using assms by (metis set_empty set_sort)
  then obtain b ls where b: "sort_key occurrence_key (occurrences v xs) = b # ls" by (meson neq_Nil_conv)
  show ?thesis by (auto simp: fuse_group_def b Let_def res_bind_eq_Inr sum_reciprocals_ok fused_chunk_def lost_occurrences_def)
qed

lemma fuse_groups_ok:
  "set vs \<subseteq> cx_chunkRevisionId ` set xs \<Longrightarrow>
     res_fold (fuse_group render) (map (\<lambda>v. (v, occurrences v xs)) vs) acc = Inr acc' \<longleftrightarrow>
       (\<forall>v \<in> set vs. list_all position (occurrences v xs)) \<and>
       acc' = (fst acc @ map (fused_chunk xs) vs, snd acc @ concat (map (lost_occurrences xs) vs))"
proof (induction vs arbitrary: acc)
  case Nil
  then show ?case by auto
next
  case (Cons v vs)
  have "occurrences v xs \<noteq> []" using Cons.prems by (auto simp: filter_empty_conv)
  note g = fuse_group_ok [OF this, of render acc]
  show ?case using Cons.IH Cons.prems by (auto simp: res_bind_eq_Inr g)
qed

lemma fuseByChunkRevision_ok:
  "fuseByChunkRevision render xs = Inr r \<longleftrightarrow> list_all position xs \<and>
     r = (map (fused_chunk xs) (js_set (map cx_chunkRevisionId xs)), concat (map (lost_occurrences xs) (js_set (map cx_chunkRevisionId xs))))"
proof -
  have sub: "set (js_set (map cx_chunkRevisionId xs)) \<subseteq> cx_chunkRevisionId ` set xs" by simp
  have all: "(\<forall>v \<in> set (js_set (map cx_chunkRevisionId xs)). list_all position (occurrences v xs)) \<longleftrightarrow> list_all position xs"
    by (auto simp: list_all_iff)
  show ?thesis unfolding fuseByChunkRevision_def groupBy_eq fuse_groups_ok [OF sub] all by simp
qed

lemma hd_sorted_occurrence:
  assumes "occurrences v xs \<noteq> []"
  shows "hd (sort_key occurrence_key (occurrences v xs)) \<in> set (occurrences v xs)"
    and "x \<in> set (occurrences v xs) \<Longrightarrow> occurrence_key (hd (sort_key occurrence_key (occurrences v xs))) \<le> occurrence_key x"
proof -
  let ?s = "sort_key occurrence_key (occurrences v xs)"
  have ne: "?s \<noteq> []" using assms by (metis set_empty set_sort)
  then show "hd ?s \<in> set (occurrences v xs)" by (metis hd_in_set set_sort)
  obtain b ls where b: "?s = b # ls" using ne by (meson neq_Nil_conv)
  have "sorted (map occurrence_key (b # ls))" unfolding b [symmetric] by simp
  then have least: "\<forall>y \<in> set (b # ls). occurrence_key b \<le> occurrence_key y" by simp
  have all: "set (b # ls) = set (occurrences v xs)" unfolding b [symmetric] by simp
  assume "x \<in> set (occurrences v xs)"
  then show "occurrence_key (hd ?s) \<le> occurrence_key x" unfolding b list.sel using least all by blast
qed

lemma fused_revision: "v \<in> cx_chunkRevisionId ` set xs \<Longrightarrow> cx_chunkRevisionId (hk_occurrence (fused_chunk xs v)) = v"
  using hd_sorted_occurrence(1) [of v xs] by (auto simp: fused_chunk_def filter_empty_conv)

section \<open>Conservation\<close>

lemma group_occurrences:
  assumes "v \<in> cx_chunkRevisionId ` set xs"
  shows "add_mset (hk_occurrence (fused_chunk xs v)) (mset (map od_chunk (lost_occurrences xs v))) = mset (occurrences v xs)"
proof -
  have "occurrences v xs \<noteq> []" using assms by (auto simp: filter_empty_conv)
  then have "sort_key occurrence_key (occurrences v xs) \<noteq> []" by (metis set_empty set_sort)
  then obtain b ls where b: "sort_key occurrence_key (occurrences v xs) = b # ls" by (meson neq_Nil_conv)
  have "mset (b # ls) = mset (occurrences v xs)" unfolding b [symmetric] by simp
  then show ?thesis by (simp add: fused_chunk_def lost_occurrences_def b comp_def)
qed

lemma fusion_conserves:
  assumes "distinct vs" and "set vs \<subseteq> cx_chunkRevisionId ` set xs"
  shows "mset (map hk_occurrence (map (fused_chunk xs) vs)) + mset (map od_chunk (concat (map (lost_occurrences xs) vs))) =
     mset (filter (\<lambda>x. cx_chunkRevisionId x \<in> set vs) xs)"
  using assms
proof (induction vs)
  case (Cons v vs)
  have v: "v \<in> cx_chunkRevisionId ` set xs" "v \<notin> set vs" using Cons.prems by simp_all
  have "mset (filter (\<lambda>x. cx_chunkRevisionId x = v \<or> cx_chunkRevisionId x \<in> set vs) xs) =
      mset (occurrences v xs) + mset (filter (\<lambda>x. cx_chunkRevisionId x \<in> set vs) xs)"
    using v(2) by (induction xs) auto
  then show ?case using Cons group_occurrences [OF v(1)] by (simp add: ac_simps)
qed simp

abbreviation digest_of :: "context_chunk \<Rightarrow> string" where
  "digest_of c \<equiv> cx_contentDigest (hk_occurrence c)"

text \<open>The first chunk of every content, in the order of the list.\<close>

fun first_contents :: "string set \<Rightarrow> context_chunk list \<Rightarrow> context_chunk list" where
  "first_contents D [] = []"
| "first_contents D (c # cs) = (if digest_of c \<in> D then first_contents D cs else c # first_contents (insert (digest_of c) D) cs)"

lemma first_contents_sub: "set (first_contents D cs) \<subseteq> set cs"
  by (induction D cs rule: first_contents.induct) auto

lemma first_contents_digests:
  "distinct (map digest_of (first_contents D cs)) \<and> digest_of ` set (first_contents D cs) = digest_of ` set cs - D"
  by (induction D cs rule: first_contents.induct) auto

lemma first_contents_sorted: "sorted (map f cs) \<Longrightarrow> sorted (map f (first_contents D cs))"
  using first_contents_sub by (induction D cs rule: first_contents.induct) fastforce+

lemma first_contents_best:
  "sorted (map f cs) \<Longrightarrow> c \<in> set cs \<Longrightarrow> d \<in> set (first_contents D cs) \<Longrightarrow> digest_of c = digest_of d \<Longrightarrow> f d \<le> f c"
proof (induction D cs rule: first_contents.induct)
  case (2 D e cs)
  show ?case
  proof (cases "digest_of e \<in> D")
    case True
    have "digest_of d \<notin> D" using first_contents_digests [of D "e # cs"] 2(5) by auto
    then have "c \<noteq> e" using True 2(6) by auto
    then show ?thesis using 2 True by auto
  next
    case False
    show ?thesis
    proof (cases "d = e")
      case True
      then show ?thesis using 2(3,4) by auto
    next
      case d: False
      then have "d \<in> set (first_contents (insert (digest_of e) D) cs)" using 2(5) False by auto
      moreover from this have "digest_of d \<noteq> digest_of e" using first_contents_digests [of "insert (digest_of e) D" cs] by auto
      then have "c \<in> set cs" using 2(4,6) by auto
      ultimately show ?thesis using 2 False by auto
    qed
  qed
qed simp

lemma dropRepeatedContent_ok:
  "dropRepeatedContent seen cs kept omitted = (r, omitted') \<Longrightarrow>
     r = kept @ first_contents (set seen) cs \<and>
     mset (map hk_occurrence r) + mset (map od_chunk omitted') = mset (map hk_occurrence kept) + mset (map od_chunk omitted) + mset (map hk_occurrence cs)"
  by (induction seen cs kept omitted arbitrary: r omitted' rule: dropRepeatedContent.induct) (auto split: if_splits)

section \<open>The budget\<close>

definition characters :: "context_chunk list \<Rightarrow> nat" where
  "characters cs = sum_list (map (\<lambda>c. length (cx_text (hk_occurrence c))) cs)"

definition fits :: "context_budget \<Rightarrow> context_chunk list \<Rightarrow> bool" where
  "fits b cs \<longleftrightarrow> \<not> js_less (cb_maxTotalCharacters b) (whole (characters cs)) \<and> \<not> js_less (cb_maxChunks b) (whole (length cs))"

lemma applyBudget_exhausted:
  "applyBudget b cs admitted used True omitted = (admitted, omitted @ map (\<lambda>c. \<lparr>od_chunk = hk_occurrence c, od_reason = BudgetExhausted\<rparr>) cs)"
  by (induction cs arbitrary: omitted) simp_all

lemma applyBudget_ok:
  assumes "applyBudget b cs admitted (characters admitted) False omitted = (r, omitted')"
  shows "\<exists>n \<le> length cs. r = admitted @ take n cs \<and> (fits b admitted \<longrightarrow> fits b r) \<and> (n < length cs \<longrightarrow> \<not> fits b (r @ [cs ! n])) \<and>
     omitted' = omitted @ map (\<lambda>c. \<lparr>od_chunk = hk_occurrence c, od_reason = BudgetExhausted\<rparr>) (drop n cs)"
  using assms
proof (induction cs arbitrary: admitted)
  case (Cons c cs)
  have next_chars: "characters admitted + length (cx_text (hk_occurrence c)) = characters (admitted @ [c])" by (simp add: characters_def)
  show ?case
  proof (cases "fits b (admitted @ [c])")
    case False
    then have "applyBudget b (c # cs) admitted (characters admitted) False omitted =
        applyBudget b cs admitted (characters admitted) True (omitted @ [\<lparr>od_chunk = hk_occurrence c, od_reason = BudgetExhausted\<rparr>])"
      unfolding applyBudget.simps Let_def next_chars fits_def by auto
    then have "r = admitted" "omitted' = omitted @ map (\<lambda>c. \<lparr>od_chunk = hk_occurrence c, od_reason = BudgetExhausted\<rparr>) (c # cs)"
      using Cons.prems by (simp_all add: applyBudget_exhausted)
    then show ?thesis using False by (intro exI [of _ 0]) simp
  next
    case True
    then have "applyBudget b (c # cs) admitted (characters admitted) False omitted =
        applyBudget b cs (admitted @ [c]) (characters (admitted @ [c])) False omitted"
      unfolding applyBudget.simps Let_def next_chars fits_def by auto
    then have "applyBudget b cs (admitted @ [c]) (characters (admitted @ [c])) False omitted = (r, omitted')" using Cons.prems by simp
    from Cons.IH [OF this] obtain n where n: "n \<le> length cs" "r = (admitted @ [c]) @ take n cs" "fits b (admitted @ [c]) \<longrightarrow> fits b r"
      "n < length cs \<longrightarrow> \<not> fits b (r @ [cs ! n])"
      "omitted' = omitted @ map (\<lambda>c. \<lparr>od_chunk = hk_occurrence c, od_reason = BudgetExhausted\<rparr>) (drop n cs)" by blast
    then show ?thesis using True by (intro exI [of _ "Suc n"]) auto
  qed
qed simp

section \<open>The whole assembly\<close>

definition usable_budget :: "context_budget \<Rightarrow> bool" where
  "usable_budget b \<longleftrightarrow> (\<exists>m n. 0 < m \<and> 0 < n \<and> cb_maxTotalCharacters b = whole m \<and> cb_maxChunks b = whole n)"

lemma positive_integer_nat: "is_finite x \<and> \<not> js_less_eq x (Finite 0) \<and> is_integer x \<longleftrightarrow> (\<exists>n. 0 < n \<and> x = whole n)"
proof
  assume h: "is_finite x \<and> \<not> js_less_eq x (Finite 0) \<and> is_integer x"
  then obtain q where q: "x = Finite q" "0 < q" "q = of_int \<lfloor>q\<rfloor>" by (cases x) (auto simp: is_finite_def is_integer_def)
  then have "0 < \<lfloor>q\<rfloor>" by linarith
  then show "\<exists>n. 0 < n \<and> x = whole n" using q by (intro exI [of _ "nat \<lfloor>q\<rfloor>"]) (simp add: whole_def)
qed (auto simp: whole_def is_finite_def is_integer_def)

lemma assertUsableBudget_ok: "assertUsableBudget render b = Inr u \<longleftrightarrow> usable_budget b"
proof -
  have "assertUsableBudget render b = Inr u \<longleftrightarrow>
      (is_finite (cb_maxTotalCharacters b) \<and> \<not> js_less_eq (cb_maxTotalCharacters b) (Finite 0) \<and> is_integer (cb_maxTotalCharacters b)) \<and>
      (is_finite (cb_maxChunks b) \<and> \<not> js_less_eq (cb_maxChunks b) (Finite 0) \<and> is_integer (cb_maxChunks b))"
    by (auto simp: assertUsableBudget_def)
  then show ?thesis unfolding positive_integer_nat usable_budget_def by blast
qed

definition trusted :: "context_candidate list \<Rightarrow> context_candidate list" where
  "trusted xs = filter (\<lambda>x. cx_targetKey x \<notin> contradicted (set xs)) xs"

definition fused_order :: "context_candidate list \<Rightarrow> context_chunk list" where
  "fused_order xs = sort_key chunk_key (map (fused_chunk xs) (js_set (map cx_chunkRevisionId xs)))"

lemma assembly_ok:
  "assembleDocumentContext render xs b = Inr a \<Longrightarrow> usable_budget b \<and> list_all position (trusted xs) \<and>
     set (ab_failedTargetKeys a) = contradicted (set xs) \<and> sorted (ab_failedTargetKeys a) \<and> distinct (ab_failedTargetKeys a) \<and>
     (\<exists>n. ab_chunks a = take n (first_contents {} (fused_order (trusted xs))) \<and> fits b (ab_chunks a) \<and>
        (n < length (first_contents {} (fused_order (trusted xs))) \<longrightarrow>
           \<not> fits b (ab_chunks a @ [first_contents {} (fused_order (trusted xs)) ! n]))) \<and>
     mset (map hk_occurrence (ab_chunks a)) + mset (map od_chunk (ab_omitted a)) = mset (trusted xs)"
proof -
  assume run: "assembleDocumentContext render xs b = Inr a"
  let ?ys = "trusted xs"
  let ?vs = "js_set (map cx_chunkRevisionId ?ys)"
  obtain kept om1 admitted om2 where r: "usable_budget b" "list_all position ?ys"
    "dropRepeatedContent [] (fused_order ?ys) [] (concat (map (lost_occurrences ?ys) ?vs)) = (kept, om1)"
    "applyBudget b kept [] 0 False om1 = (admitted, om2)"
    "a = \<lparr>ab_chunks = admitted, ab_omitted = om2, ab_failedTargetKeys = sort (js_set (findConflictingTargets xs))\<rparr>"
    using run unfolding assembleDocumentContext_def quarantineConflicts_eq Let_def fused_order_def trusted_def
    by (auto simp: res_bind_eq_Inr fuseByChunkRevision_ok assertUsableBudget_ok split: prod.splits)
  have d: "kept = first_contents {} (fused_order ?ys)" "mset (map hk_occurrence kept) + mset (map od_chunk om1) =
      mset (map od_chunk (concat (map (lost_occurrences ?ys) ?vs))) + mset (map hk_occurrence (fused_order ?ys))"
    using dropRepeatedContent_ok [OF r(3)] by auto
  obtain n where n: "admitted = take n kept" "fits b [] \<longrightarrow> fits b admitted" "n < length kept \<longrightarrow> \<not> fits b (admitted @ [kept ! n])"
    "om2 = om1 @ map (\<lambda>c. \<lparr>od_chunk = hk_occurrence c, od_reason = BudgetExhausted\<rparr>) (drop n kept)"
    using applyBudget_ok [of b kept "[]" om1 admitted om2] r(4) by (auto simp: characters_def)
  have "fits b []" using r(1) by (auto simp: fits_def usable_budget_def characters_def whole_def)
  moreover have "mset (map hk_occurrence (fused_order ?ys)) = mset (map hk_occurrence (map (fused_chunk ?ys) ?vs))"
    unfolding fused_order_def by (simp only: mset_map mset_sort)
  moreover have "filter (\<lambda>x. cx_chunkRevisionId x \<in> set ?vs) ?ys = ?ys" by (simp add: filter_id_conv)
  ultimately have total: "mset (map hk_occurrence kept) + mset (map od_chunk om1) = mset ?ys"
    using fusion_conserves [of ?vs ?ys] d(2) by (simp add: union_commute)
  have "mset (map hk_occurrence (take n kept)) + mset (map hk_occurrence (drop n kept)) = mset (map hk_occurrence kept)"
    by (metis append_take_drop_id map_append mset_append)
  then have "mset (map hk_occurrence admitted) + mset (map od_chunk om2) = mset ?ys"
    unfolding n(1,4) total [symmetric] by (simp add: comp_def ac_simps)
  then show ?thesis using r(1,2,5) n d(1) \<open>fits b []\<close> by (auto simp: conflicting_contradicted)
qed

lemma assembly_answers:
  assumes "usable_budget b" and "list_all position (trusted xs)"
  shows "\<exists>a. assembleDocumentContext render xs b = Inr a"
proof -
  obtain f where f: "fuseByChunkRevision render (trusted xs) = Inr f" using assms(2) unfolding fuseByChunkRevision_ok by blast
  have "assertUsableBudget render b = Inr ()" using assms(1) unfolding assertUsableBudget_ok .
  then show ?thesis using f unfolding assembleDocumentContext_def quarantineConflicts_eq trusted_def
    by (simp add: Let_def split: prod.split)
qed

lemma trusted_agree:
  assumes "x \<in> set (trusted xs)" and "y \<in> set (trusted xs)" and "cx_chunkRevisionId x = cx_chunkRevisionId y"
  shows "revision_content x = revision_content y"
proof (rule ccontr)
  let ?A = "{x \<in> set xs. cx_targetKey x \<notin> contradicted (set xs)}"
  assume "revision_content x \<noteq> revision_content y"
  then have "clash cx_chunkRevisionId revision_content (cx_chunkRevisionId x) ?A"
    using assms unfolding clash_def trusted_def by auto
  then have "cx_targetKey x \<in> contradicted ?A" using assms(1) unfolding contradicted_def [of ?A] trusted_def by auto
  then show False using survivors_agree [of "set xs"] by blast
qed

end
