(* ===== verification/Contract_Properties.thy ===== *)
theory Contract_Properties
  imports Canonical_Json
begin

text \<open>
  What the contracts between Ingestion and Registry promise: the canonical text and the
  content digest stand for the content, an accepted transition is exactly the delta between
  two Publications and rebuilds the current one, and the column groups of a table partition
  its columns.
\<close>

section \<open>Numbers only occur in facts\<close>

lemma number_json_texts [simp]: "number_json (json_texts xs)"
  by (simp add: json_texts_def list_all_iff)

lemma number_json_parameters [simp]: "number_json (json_of_parameters ps)"
  by (simp add: json_of_parameters_def json_of_parameter_def list_all_iff)

lemma number_json_index [simp]: "number_json (json_of_document_index d)"
  by (simp add: json_of_document_index_def)

lemma number_json_selector [simp]: "number_json (json_of_selector sel)"
  by (cases sel) auto

lemma number_json_scope [simp]: "number_json (json_of_published_scope sc)"
  by (cases sc) (auto split: option.split)

lemma number_json_scopes [simp]: "number_json (json_of_published_scopes ss)"
  by (simp add: json_of_published_scopes_def list_all_iff)

lemma number_json_coordinate [simp]: "number_json (json_of_coordinate co)"
  by (cases co) (auto split: option.split)

lemma number_json_provenance [simp]: "number_json (json_of_provenance p)"
  by (auto simp: json_of_provenance_def list_all_iff)

lemma number_json_changes [simp]: "number_json (json_of_changes cs)"
proof -
  have "number_json (json_of_change c)" for c by (cases c) auto
  then show ?thesis by (simp add: json_of_changes_def list_all_iff)
qed

definition finite_facts :: "knowledge_unit \<Rightarrow> bool" where
  "finite_facts u \<longleftrightarrow> number_json (json_of_facts (ku_facts u))"

lemma number_json_members: "finite_facts u \<Longrightarrow> number_json (JObj (unit_content_members u))"
  by (simp add: finite_facts_def unit_content_members_def)

lemma number_json_unit: "finite_facts u \<Longrightarrow> number_json (json_of_unit u)"
  by (simp add: finite_facts_def unit_content_members_def json_of_unit_def)

section \<open>The content digest\<close>

text \<open>
  C12: the canonical JSON of two values is the same text exactly when they are the same value,
  up to the order of members and to absent members (numbers being texts of finite numbers).
\<close>

theorem canonical_text_is_the_content:
  assumes "number_json j" and "number_json j'"
  shows "canonicalContractJson j = canonicalContractJson j' \<longleftrightarrow> json_content j = json_content j'"
  by (rule canonical_iff_content [OF assms])

theorem canonical_text_is_the_content_witness:
  "canonicalContractJson (JObj [(''b'', Some (JNum ''1'')), (''a'', None)]) \<noteq>
   canonicalContractJson (JObj [(''b'', Some (JStr ''1''))])"
proof -
  have n: "number_json (JObj [(''b'', Some (JNum ''1'')), (''a'', None)])" "number_json (JObj [(''b'', Some (JStr ''1''))])"
    by (simp_all add: json_number_char_def is_digit_char_def)
  show ?thesis unfolding canonical_text_is_the_content [OF n] by simp
qed

lemma changedFields_Nil:
  "changedKnowledgeUnitFields u u' = [] \<longleftrightarrow>
     (\<forall>(field, l, r) \<in> set (unit_field_pairs u u'). canonicalContractJson l = canonicalContractJson r)"
  unfolding changedKnowledgeUnitFields_def
  by (metis (no_types, lifting) case_prod_beta' filter_empty_conv length_0_conv length_map length_sort)

lemma members_canonical:
  assumes "ku_id u = ku_id u'" and "changedKnowledgeUnitFields u u' = []"
  shows "canonical_members (unit_content_members u) = canonical_members (unit_content_members u')"
  using assms by (simp add: changedFields_Nil unit_field_pairs_def unit_content_members_def)

lemma members_distinct: "distinct (map fst (present (unit_content_members u)))"
  by (simp add: unit_content_members_def)

lemma digest_eq_iff:
  assumes inj: "inj sha256" and fin: "finite_facts u" "finite_facts u'"
  shows "computePublishedKnowledgeUnitDigest sha256 u = computePublishedKnowledgeUnitDigest sha256 u' \<longleftrightarrow>
    ku_id u = ku_id u' \<and> changedKnowledgeUnitFields u u' = []"
proof
  assume "computePublishedKnowledgeUnitDigest sha256 u = computePublishedKnowledgeUnitDigest sha256 u'"
  then have "canonicalContractJson (JObj (unit_content_members u)) = canonicalContractJson (JObj (unit_content_members u'))"
    using inj by (simp add: computePublishedKnowledgeUnitDigest_def inj_eq)
  then have "json_content (JObj (unit_content_members u)) = json_content (JObj (unit_content_members u'))"
    by (rule canonicalContractJson_content [OF number_json_members [OF fin(1)] number_json_members [OF fin(2)]])
  note m = object_members [OF this members_distinct members_distinct]
  note keys = m [of "''id''"] m [of "''kind''"] m [of "''sourceCoordinate''"] m [of "''facts''"]
    m [of "''publishedScopes''"] m [of "''provenance''"]
  have "number_json (json_of_facts (ku_facts u))" "number_json (json_of_facts (ku_facts u'))"
    using fin by (simp_all add: finite_facts_def)
  then show "ku_id u = ku_id u' \<and> changedKnowledgeUnitFields u u' = []"
    using keys by (simp add: changedFields_Nil unit_field_pairs_def unit_content_members_def canonical_iff_content
        del: canonicalContractJson.simps)
next
  assume "ku_id u = ku_id u' \<and> changedKnowledgeUnitFields u u' = []"
  then show "computePublishedKnowledgeUnitDigest sha256 u = computePublishedKnowledgeUnitDigest sha256 u'"
    using members_canonical [of u u'] by (simp add: computePublishedKnowledgeUnitDigest_def)
qed

text \<open>
  C13: with a hash that does not collide, two knowledge units have the same content digest
  exactly when they have the same id and no field that the delta computation compares differs.
\<close>

theorem digest_detects_every_change:
  assumes "inj sha256" and "finite_facts u" and "finite_facts u'"
  shows "computePublishedKnowledgeUnitDigest sha256 u = computePublishedKnowledgeUnitDigest sha256 u' \<longleftrightarrow>
    ku_id u = ku_id u' \<and> changedKnowledgeUnitFields u u' = []"
  by (rule digest_eq_iff [OF assms])

definition plain_unit :: "string \<Rightarrow> published_fact list \<Rightarrow> knowledge_unit" where
  "plain_unit i facts = \<lparr>ku_id = i, ku_kind = TableUnit,
     ku_coordinate = SqlTableCoordinate ''s'' ''p'' ''orders'' [''a''], ku_facts = facts, ku_scopes = [],
     ku_provenance = \<lparr>pr_observationId = ''o'', pr_producerId = ''p'', pr_producerVersion = ''v'', pr_policyVersions = []\<rparr>,
     ku_contentDigest = []\<rparr>"

definition count_fact :: "string \<Rightarrow> published_fact" where
  "count_fact n = \<lparr>fact_name = Sql_approximate_row_count, fact_value = FactScalar (FactNumber n)\<rparr>"

lemma plain_unit_finite: "finite_facts (plain_unit i [count_fact ''1''])" "finite_facts (plain_unit i [count_fact ''2''])"
  by (simp_all add: finite_facts_def plain_unit_def count_fact_def json_of_facts_def json_of_fact_def
      json_number_char_def is_digit_char_def)

theorem digest_detects_every_change_witness:
  "computePublishedKnowledgeUnitDigest (\<lambda>t. t) (plain_unit ''u'' [count_fact ''1'']) \<noteq>
   computePublishedKnowledgeUnitDigest (\<lambda>t. t) (plain_unit ''v'' [count_fact ''1''])"
proof -
  have "inj (\<lambda>t :: string. t)" by simp
  from digest_detects_every_change [OF this plain_unit_finite(1) plain_unit_finite(1), of "''u''" "''v''"]
  show ?thesis by (simp add: plain_unit_def)
qed

section \<open>The delta between two Publications\<close>

lemma changed_field_text_inj: "inj changed_field_text"
proof (rule injI)
  fix x y :: changed_field
  assume "changed_field_text x = changed_field_text y"
  then show "x = y" by (cases x; cases y) simp_all
qed

lemma change_content:
  assumes "json_content (json_of_change c) = json_content (json_of_change d)"
  shows "c = d"
proof -
  define ms where "ms = (\<lambda>c. case json_of_change c of JObj kvs \<Rightarrow> kvs | _ \<Rightarrow> [])"
  have obj: "json_of_change c = JObj (ms c)" for c by (cases c) (simp_all add: ms_def)
  have dist: "distinct (map fst (present (ms c)))" for c by (cases c) (simp_all add: ms_def)
  have m: "map_option json_content (map_of (present (ms c)) k) = map_option json_content (map_of (present (ms d)) k)" for k
    using object_members [OF _ dist dist] assms unfolding obj by blast
  note keys = m [of "''kind''"] m [of "''knowledgeUnitId''"] m [of "''currentContentDigest''"]
    m [of "''previousContentDigest''"] m [of "''changedFields''"]
  have "fs = gs" if "map (JStr \<circ> changed_field_text) fs = map (JStr \<circ> changed_field_text) gs" for fs gs
    using that inj_map_eq_map [of "JStr \<circ> changed_field_text"] inj_compose [of JStr changed_field_text]
      changed_field_text_inj by (simp add: inj_def)
  then show ?thesis
    using keys by (cases c; cases d) (simp_all add: ms_def json_texts_def comp_def)
qed

lemma changes_canonical:
  "canonicalContractJson (json_of_changes cs) = canonicalContractJson (json_of_changes ds) \<longleftrightarrow> cs = ds"
proof
  assume "canonicalContractJson (json_of_changes cs) = canonicalContractJson (json_of_changes ds)"
  then have "map (json_content \<circ> json_of_change) cs = map (json_content \<circ> json_of_change) ds"
    using canonicalContractJson_content [OF number_json_changes number_json_changes]
    by (metis json_content.simps(1) json.inject(4) json_of_changes_def map_map)
  moreover have "inj (json_content \<circ> json_of_change)"
    by (rule injI, rule change_content) (simp only: comp_apply)
  ultimately show "cs = ds" using inj_map_eq_map by blast
qed simp

definition sealed :: "(string \<Rightarrow> string) \<Rightarrow> knowledge_unit \<Rightarrow> bool" where
  "sealed sha256 u \<longleftrightarrow> ku_contentDigest u = computePublishedKnowledgeUnitDigest sha256 u"

lemma unchanged_unit:
  assumes "ku_id u = ku_id u'" and "changedKnowledgeUnitFields u u' = []" and "sealed sha256 u" and "sealed sha256 u'"
  shows "ku_contentDigest u = ku_contentDigest u'"
    and "canonicalContractJson (json_of_unit u) = canonicalContractJson (json_of_unit u')"
proof -
  note same = members_canonical [OF assms(1,2)]
  show d: "ku_contentDigest u = ku_contentDigest u'"
    using assms(3,4) same by (simp add: sealed_def computePublishedKnowledgeUnitDigest_def)
  have "canonical_members (ms @ ns) = canonical_members ms @ canonical_members ns" for ms ns
    by (simp add: canonical_members_map)
  then show "canonicalContractJson (json_of_unit u) = canonicalContractJson (json_of_unit u')"
    using same d by (simp add: json_of_unit_def)
qed

lemma units_by_id_Some: "map_of (units_by_id us) k = Some u \<Longrightarrow> u \<in> set us \<and> ku_id u = k"
  by (auto simp: units_by_id_def map_of_js_map dest!: map_of_SomeD)

lemma units_by_id_distinct:
  "distinct (map ku_id us) \<Longrightarrow> map_of (units_by_id us) = map_of (map (\<lambda>u. (ku_id u, u)) us)"
  by (simp add: units_by_id_def map_of_js_map map_of_rev_distinct comp_def)

lemma computed_mem:
  "c \<in> set (computePublicationChanges (Some p) current) \<longleftrightarrow>
     (\<exists>u \<in> set current. c \<in> set (addedOrUpdated (units_by_id (pub_knowledgeUnits p)) u)) \<or>
     (\<exists>u \<in> set (pub_knowledgeUnits p). ku_id u \<notin> ku_id ` set current \<and> c = Removed (ku_id u) (ku_contentDigest u))"
  by (auto simp: computePublicationChanges_def Let_def)

lemma accepted_iff:
  assumes "\<forall>u \<in> set (pub_knowledgeUnits p) \<union> set (pub_knowledgeUnits c). sealed sha256 u"
  shows "assertIngestionPublicationTransition (Some p) c = Inr () \<longleftrightarrow>
    pub_previousPublicationId c = Some (pub_publicationId p) \<and> pub_sourceId c = pub_sourceId p \<and>
    pub_changes c = computePublicationChanges (Some p) (pub_knowledgeUnits c)"
proof -
  let ?old = "units_by_id (pub_knowledgeUnits p)"
  have same: "canonicalContractJson (json_of_unit prior) = canonicalContractJson (json_of_unit u)"
    if "pub_changes c = computePublicationChanges (Some p) (pub_knowledgeUnits c)"
      and u: "u \<in> set (pub_knowledgeUnits c)" and prior: "map_of ?old (ku_id u) = Some prior"
      and not: "ku_id u \<notin> ch_unitId ` set (pub_changes c)" for u prior
  proof -
    have "changedKnowledgeUnitFields prior u = []"
    proof (rule ccontr)
      assume "changedKnowledgeUnitFields prior u \<noteq> []"
      then have "Updated (ku_id u) (ku_contentDigest prior) (ku_contentDigest u) (changedKnowledgeUnitFields prior u)
          \<in> set (addedOrUpdated ?old u)" using prior by (simp add: Let_def)
      then show False using that(1) u not computed_mem by (metis image_eqI published_change.sel(2))
    qed
    moreover have "ku_id prior = ku_id u" "prior \<in> set (pub_knowledgeUnits p)" using units_by_id_Some [OF prior] by auto
    ultimately show ?thesis using unchanged_unit(2) [of prior u sha256] assms u by blast
  qed
  have "transition_messages (Some p) c = [] \<longleftrightarrow>
    pub_previousPublicationId c = Some (pub_publicationId p) \<and> pub_sourceId c = pub_sourceId p \<and>
    computePublicationChanges (Some p) (pub_knowledgeUnits c) = pub_changes c \<and>
    (\<forall>u \<in> set (pub_knowledgeUnits c). \<forall>prior. map_of ?old (ku_id u) = Some prior \<longrightarrow>
       ku_id u \<notin> ch_unitId ` set (pub_changes c) \<longrightarrow>
       canonicalContractJson (json_of_unit prior) = canonicalContractJson (json_of_unit u))"
    by (auto simp: transition_messages_def changes_canonical Let_def split: option.split)
  also have "\<dots> \<longleftrightarrow> pub_previousPublicationId c = Some (pub_publicationId p) \<and> pub_sourceId c = pub_sourceId p \<and>
    pub_changes c = computePublicationChanges (Some p) (pub_knowledgeUnits c)"
    using same by metis
  finally show ?thesis by (simp add: assertIngestionPublicationTransition_def Let_def)
qed

text \<open>
  The verification of a declared delta is exact: for units whose digests are right it
  accepts a Publication exactly when it names its predecessor, keeps the Source, and declares
  the computed changes; no correct delta is refused and no other one passes.
\<close>

theorem transition_accepts_exactly_the_delta:
  assumes "\<forall>u \<in> set (pub_knowledgeUnits p) \<union> set (pub_knowledgeUnits c). sealed sha256 u"
  shows "assertIngestionPublicationTransition (Some p) c = Inr () \<longleftrightarrow>
    pub_previousPublicationId c = Some (pub_publicationId p) \<and> pub_sourceId c = pub_sourceId p \<and>
    pub_changes c = computePublicationChanges (Some p) (pub_knowledgeUnits c)"
  by (rule accepted_iff [OF assms])

definition seal :: "knowledge_unit \<Rightarrow> knowledge_unit" where
  "seal u = u\<lparr>ku_contentDigest := computePublishedKnowledgeUnitDigest (\<lambda>t. t) u\<rparr>"

lemma sealed_seal: "sealed (\<lambda>t. t) (seal u)"
  by (simp add: sealed_def seal_def computePublishedKnowledgeUnitDigest_def unit_content_members_def)

definition first_publication :: publication where
  "first_publication = \<lparr>pub_publicationId = ''p1'', pub_sourceId = ''s'', pub_observationId = ''o'',
     pub_previousPublicationId = None, pub_producedAt = ''t1'',
     pub_knowledgeUnits = [seal (plain_unit ''u'' [])], pub_changes = []\<rparr>"

definition second_publication :: publication where
  "second_publication = first_publication\<lparr>pub_publicationId := ''p2'', pub_previousPublicationId := Some ''p1'',
     pub_knowledgeUnits := [seal (plain_unit ''v'' [])],
     pub_changes := computePublicationChanges (Some first_publication) [seal (plain_unit ''v'' [])]\<rparr>"

lemma second_sel:
  "pub_previousPublicationId second_publication = Some (pub_publicationId first_publication)"
  "pub_sourceId second_publication = pub_sourceId first_publication"
  "pub_knowledgeUnits second_publication = [seal (plain_unit ''v'' [])]"
  "pub_changes second_publication = computePublicationChanges (Some first_publication) (pub_knowledgeUnits second_publication)"
  "pub_knowledgeUnits first_publication = [seal (plain_unit ''u'' [])]"
  by (simp_all add: second_publication_def) (simp_all add: first_publication_def)

lemma both_sealed:
  "\<forall>u \<in> set (pub_knowledgeUnits first_publication) \<union> set (pub_knowledgeUnits second_publication). sealed (\<lambda>t. t) u"
  by (simp add: second_sel sealed_seal)

theorem transition_accepts_exactly_the_delta_witness:
  "assertIngestionPublicationTransition (Some first_publication) second_publication = Inr ()"
  unfolding transition_accepts_exactly_the_delta [OF both_sealed] by (simp add: second_sel(1,2,4))

section \<open>Replaying a delta\<close>

text \<open>
  What a consumer keeps of a Source: the content digest of every unit. A change says how to
  move it on.
\<close>

definition digests :: "knowledge_unit list \<Rightarrow> string \<Rightarrow> string option" where
  "digests us = map_of (map (\<lambda>u. (ku_id u, ku_contentDigest u)) us)"

fun new_digest :: "published_change \<Rightarrow> string option" where
  "new_digest (Added k d) = Some d"
| "new_digest (Updated k p d changed) = Some d"
| "new_digest (Removed k p) = None"

definition apply_change :: "published_change \<Rightarrow> (string \<Rightarrow> string option) \<Rightarrow> (string \<Rightarrow> string option)" where
  "apply_change c m = m(ch_unitId c := new_digest c)"

lemma apply_change_at: "apply_change c m k = (if k = ch_unitId c then new_digest c else m k)"
  by (simp add: apply_change_def)

lemma replay_other:
  "k \<notin> ch_unitId ` set cs \<Longrightarrow> fold apply_change cs m k = m k"
proof (induction cs arbitrary: m)
  case Nil
  then show ?case by simp
next
  case (Cons c cs)
  then have "fold apply_change (c # cs) m k = apply_change c m k" by simp
  then show ?case using Cons.prems unfolding apply_change_at by simp
qed

lemma replay_changed:
  "distinct (map ch_unitId cs) \<Longrightarrow> c \<in> set cs \<Longrightarrow> fold apply_change cs m (ch_unitId c) = new_digest c"
proof (induction cs arbitrary: m)
  case Nil
  then show ?case by simp
next
  case (Cons d cs)
  show ?case
  proof (cases "c = d")
    case True
    then have "fold apply_change (d # cs) m (ch_unitId c) = apply_change d m (ch_unitId c)"
      using Cons.prems(1) replay_other [of "ch_unitId c" cs "apply_change d m"] by simp
    then show ?thesis unfolding apply_change_at using True by simp
  next
    case False
    then show ?thesis using Cons by simp
  qed
qed

lemma addedOrUpdated_ids: "map ch_unitId (addedOrUpdated old u) = [] \<or> map ch_unitId (addedOrUpdated old u) = [ku_id u]"
  by (cases "map_of old (ku_id u)") (simp_all add: addedOrUpdated.simps Let_def)

lemma addedOrUpdated_id: "c \<in> set (addedOrUpdated old u) \<Longrightarrow> ch_unitId c = ku_id u"
  by (auto simp: Let_def split: option.splits if_splits)

lemma addedOrUpdated_digest: "c \<in> set (addedOrUpdated old u) \<Longrightarrow> new_digest c = Some (ku_contentDigest u)"
  by (auto simp: Let_def split: option.splits if_splits)

lemma addedOrUpdated_Nil: "addedOrUpdated old u = [] \<Longrightarrow>
    \<exists>prior. map_of old (ku_id u) = Some prior \<and> changedKnowledgeUnitFields prior u = []"
  by (auto simp: Let_def split: option.splits if_splits)

declare addedOrUpdated.simps [simp del]

lemma computed_distinct:
  assumes "distinct (map ku_id (pub_knowledgeUnits p))" and "distinct (map ku_id current)"
  shows "distinct (map ch_unitId (computePublicationChanges (Some p) current))"
proof -
  let ?added = "concat (map (addedOrUpdated (units_by_id (pub_knowledgeUnits p))) current)"
  let ?removed = "map (\<lambda>u. Removed (ku_id u) (ku_contentDigest u))
    (filter (\<lambda>u. ku_id u \<notin> set (js_set (map ku_id current))) (pub_knowledgeUnits p))"
  have ids: "ch_unitId ` set (concat (map (addedOrUpdated old) us)) \<subseteq> ku_id ` set us" for old us
    using addedOrUpdated_id by fastforce
  have "distinct (map ch_unitId (concat (map (addedOrUpdated old) us)))" if "distinct (map ku_id us)" for old us
    using that
  proof (induction us)
    case Nil
    then show ?case by simp
  next
    case (Cons u us)
    have "map ch_unitId (concat (map (addedOrUpdated old) (u # us))) =
        map ch_unitId (addedOrUpdated old u) @ map ch_unitId (concat (map (addedOrUpdated old) us))" by simp
    moreover have "ku_id u \<notin> ch_unitId ` set (concat (map (addedOrUpdated old) us))"
      using ids [of old us] Cons.prems by auto
    moreover have "distinct (map ch_unitId (concat (map (addedOrUpdated old) us)))" using Cons by simp
    ultimately show ?case using addedOrUpdated_ids [of old u]
      by (elim disjE) (simp_all only: append_Nil append_Cons distinct.simps set_map simp_thms)
  qed
  note a = this [OF assms(2)]
  have "map ch_unitId ?removed = filter (\<lambda>k. k \<notin> set (js_set (map ku_id current))) (map ku_id (pub_knowledgeUnits p))"
    by (simp add: filter_map comp_def)
  then have r: "distinct (map ch_unitId ?removed)" using assms(1) by simp
  have "ch_unitId ` set ?added \<inter> ch_unitId ` set ?removed = {}"
  proof -
    have "ch_unitId ` set ?removed \<inter> ku_id ` set current = {}" by auto
    then show ?thesis using ids [of "units_by_id (pub_knowledgeUnits p)" current] by blast
  qed
  then have "distinct (map ch_unitId (?added @ ?removed))"
    using a [of "units_by_id (pub_knowledgeUnits p)"] r unfolding map_append distinct_append set_map by blast
  moreover have "computePublicationChanges (Some p) current = sort_key ch_unitId (?added @ ?removed)"
    by (simp only: computePublicationChanges_def Let_def option.case)
  then have "mset (map ch_unitId (computePublicationChanges (Some p) current)) = mset (map ch_unitId (?added @ ?removed))"
    by (simp only: mset_map mset_sort)
  ultimately show ?thesis using mset_eq_imp_distinct_iff by blast
qed

lemma digests_Some: "distinct (map ku_id us) \<Longrightarrow> u \<in> set us \<Longrightarrow> digests us (ku_id u) = Some (ku_contentDigest u)"
  by (auto simp: digests_def comp_def intro!: map_of_is_SomeI)

lemma digests_None: "k \<notin> ku_id ` set us \<Longrightarrow> digests us k = None"
  by (auto simp: digests_def map_of_eq_None_iff image_image)

lemma replay_computed:
  assumes old: "distinct (map ku_id (pub_knowledgeUnits p))" and new: "distinct (map ku_id current)"
    and sealed: "\<forall>u \<in> set (pub_knowledgeUnits p) \<union> set current. sealed sha256 u"
  shows "fold apply_change (computePublicationChanges (Some p) current) (digests (pub_knowledgeUnits p)) k = digests current k"
proof -
  let ?cs = "computePublicationChanges (Some p) current" and ?old = "units_by_id (pub_knowledgeUnits p)"
  note replay = replay_changed [OF computed_distinct [OF old new]]
  consider "k \<in> ku_id ` set current"
    | "k \<notin> ku_id ` set current" "k \<in> ku_id ` set (pub_knowledgeUnits p)"
    | "k \<notin> ku_id ` set current" "k \<notin> ku_id ` set (pub_knowledgeUnits p)"
    by (cases "k \<in> ku_id ` set current"; cases "k \<in> ku_id ` set (pub_knowledgeUnits p)")
  then show ?thesis
  proof cases
    case in_current: 1
    then obtain u where 1: "u \<in> set current" "ku_id u = k" by (rule imageE) (rule that, simp_all)
    have d: "digests current k = Some (ku_contentDigest u)" using digests_Some [OF new] 1 by blast
    show ?thesis
    proof (cases "addedOrUpdated ?old u")
      case (Cons c cs)
      then have c0: "c \<in> set (addedOrUpdated ?old u)" by simp
      have c: "c \<in> set ?cs" unfolding computed_mem using c0 1 by blast
      have "ch_unitId c = k" "new_digest c = Some (ku_contentDigest u)"
        using addedOrUpdated_id [OF c0] addedOrUpdated_digest [OF c0] 1 by simp_all
      then show ?thesis using replay [OF c] d by simp
    next
      case Nil
      then obtain prior where prior: "map_of ?old (ku_id u) = Some prior" "changedKnowledgeUnitFields prior u = []"
        using addedOrUpdated_Nil by blast
      note in_old = units_by_id_Some [OF prior(1)]
      have "k \<notin> ch_unitId ` set ?cs"
      proof
        assume "k \<in> ch_unitId ` set ?cs"
        then obtain c where c: "c \<in> set ?cs" "ch_unitId c = k" by (elim imageE) (rule that, simp_all)
        from c(1) show False
          unfolding computed_mem
        proof (elim disjE bexE conjE)
          fix v assume v: "v \<in> set current" "c \<in> set (addedOrUpdated ?old v)"
          then have "ku_id v = k" using addedOrUpdated_id [OF v(2)] c(2) by simp
          then have "v = u" using new v(1) 1 by (simp add: distinct_map inj_on_def)
          then show False using v(2) Nil by simp
        next
          fix v assume "ku_id v \<notin> ku_id ` set current" "c = Removed (ku_id v) (ku_contentDigest v)"
          then show False using c(2) in_current by simp
        qed
      qed
      then have "fold apply_change ?cs (digests (pub_knowledgeUnits p)) k = digests (pub_knowledgeUnits p) k"
        by (rule replay_other)
      moreover have "digests (pub_knowledgeUnits p) k = Some (ku_contentDigest prior)"
        using digests_Some [OF old conjunct1 [OF in_old]] conjunct2 [OF in_old] 1(2) by simp
      moreover have "sealed sha256 prior" "sealed sha256 u"
        using sealed conjunct1 [OF in_old] 1(1) by simp_all
      then have "ku_contentDigest prior = ku_contentDigest u"
        by (rule unchanged_unit(1) [OF conjunct2 [OF in_old] prior(2)])
      ultimately show ?thesis using d by simp
    qed
  next
    case 2
    then obtain u where "u \<in> set (pub_knowledgeUnits p)" "ku_id u = k" by (elim imageE) (rule that, simp_all)
    then have c: "Removed k (ku_contentDigest u) \<in> set ?cs" using 2(1) unfolding computed_mem by (intro disjI2 bexI conjI) simp_all
    show ?thesis using replay [OF c] digests_None [OF 2(1)] by simp
  next
    case 3
    have "k \<notin> ch_unitId ` set ?cs"
    proof
      assume "k \<in> ch_unitId ` set ?cs"
      then obtain c where c: "c \<in> set ?cs" "ch_unitId c = k" by (elim imageE) (rule that, simp_all)
      from c(1) show False
        unfolding computed_mem by (elim disjE bexE conjE) (use 3 c(2) addedOrUpdated_id [of c] in \<open>auto simp: image_iff\<close>)
    qed
    then show ?thesis using replay_other digests_None 3 by metis
  qed
qed

text \<open>
  C14: replaying the changes of an accepted Publication on what was kept of its predecessor
  gives exactly what the Publication holds: nothing is missed and nothing is left over.
\<close>

theorem accepted_changes_rebuild_the_publication:
  assumes "assertIngestionPublicationTransition (Some p) c = Inr ()"
    and "distinct (map ku_id (pub_knowledgeUnits p))" and "distinct (map ku_id (pub_knowledgeUnits c))"
    and "\<forall>u \<in> set (pub_knowledgeUnits p) \<union> set (pub_knowledgeUnits c). sealed sha256 u"
  shows "fold apply_change (pub_changes c) (digests (pub_knowledgeUnits p)) = digests (pub_knowledgeUnits c)"
proof -
  have "pub_changes c = computePublicationChanges (Some p) (pub_knowledgeUnits c)"
    using accepted_iff [OF assms(4)] assms(1) by blast
  then show ?thesis using replay_computed [OF assms(2-4)] by (simp add: fun_eq_iff)
qed

theorem accepted_changes_rebuild_the_publication_witness:
  "fold apply_change (pub_changes second_publication) (digests (pub_knowledgeUnits first_publication)) ''v'' =
     Some (ku_contentDigest (seal (plain_unit ''v'' [])))"
proof -
  have ok: "assertIngestionPublicationTransition (Some first_publication) second_publication = Inr ()"
    using accepted_iff [OF both_sealed] second_sel(1,2,4) by simp
  have ids: "distinct (map ku_id (pub_knowledgeUnits first_publication))" "distinct (map ku_id (pub_knowledgeUnits second_publication))"
    by (simp_all add: second_sel)
  have "ku_id (seal (plain_unit ''v'' [])) = ''v''" by (simp add: seal_def plain_unit_def)
  then show ?thesis
    unfolding accepted_changes_rebuild_the_publication [OF ok ids both_sealed] by (simp add: second_sel digests_def)
qed

section \<open>Column groups\<close>

lemma chunks_of_groups:
  "0 < n \<Longrightarrow> concat (chunks_of n xs) = xs \<and> (\<forall>g \<in> set (chunks_of n xs). g \<noteq> [] \<and> length g \<le> n) \<and>
     length (chunks_of n xs) = (length xs + n - 1) div n"
proof (induction n xs rule: chunks_of.induct)
  case (1 n xs)
  show ?case
  proof (cases "xs = []")
    case True
    then show ?thesis using 1(2) by (simp add: chunks_of.simps [of n "[]"])
  next
    case False
    note ih = 1(1) [OF _ 1(2)]
    have c: "chunks_of n xs = take n xs # chunks_of n (drop n xs)" using False 1(2) by (simp add: chunks_of.simps [of n xs])
    have len: "length (chunks_of n (drop n xs)) = (length xs - n + n - 1) div n"
      using ih False 1(2) by simp
    have pos: "0 < length xs" using False by simp
    then have "length xs + n - 1 = (length xs - 1) + n" by linarith
    then have "(length xs + n - 1) div n = Suc ((length xs - 1) div n)" using 1(2) by (simp only: div_add_self2)
    moreover have "(length xs - n + n - 1) div n = (length xs - 1) div n"
    proof (cases "n \<le> length xs")
      case small: False
      then show ?thesis using 1(2) by simp
    qed simp
    ultimately have "(length xs + n - 1) div n = Suc ((length xs - n + n - 1) div n)" by simp
    then show ?thesis using ih False 1(2) c len by auto
  qed
qed

definition groupable :: "string list \<Rightarrow> bool" where
  "groupable columns \<longleftrightarrow> columns \<noteq> [] \<and> length columns \<le> 4096 \<and> distinct columns \<and>
     (\<forall>c \<in> set columns. coordinateText 256 c)"

lemma js_set_length: "length (js_set xs) = length xs \<longleftrightarrow> distinct xs"
  by (metis card_distinct distinct_card length_js_set)

text \<open>
  The columns of a table are grouped exactly when there are between 1 and 4,096 of them,
  without repeats and with safe names; the groups are then the sorted columns in order, none
  empty, none above 256, and as few as that allows.
\<close>

theorem column_groups_partition:
  "case groupPublishedSqlColumns columns of
     Inl _ \<Rightarrow> \<not> groupable columns
   | Inr groups \<Rightarrow> groupable columns \<and> concat groups = sort columns \<and>
       (\<forall>g \<in> set groups. g \<noteq> [] \<and> length g \<le> 256) \<and> length groups = (length columns + 255) div 256"
proof (cases "groupable columns")
  case True
  then have "groupPublishedSqlColumns columns = Inr (chunks_of 256 (sort columns))"
    by (auto simp: groupPublishedSqlColumns_def groupable_def js_set_length list_ex_iff
        MAX_SQL_COORDINATE_COLUMNS_def MAX_SCOPE_SET_SIZE_def Let_def)
  then show ?thesis using True chunks_of_groups [of 256 "sort columns"] by simp
next
  case False
  have "groupPublishedSqlColumns columns = Inr groups \<Longrightarrow> groupable columns" for groups
    by (auto simp: groupPublishedSqlColumns_def groupable_def js_set_length list_ex_iff
        MAX_SQL_COORDINATE_COLUMNS_def Let_def split: if_splits)
  then show ?thesis using False by (auto split: sum.split)
qed

theorem column_groups_partition_witness:
  "\<exists>groups. groupPublishedSqlColumns [''b'', ''a''] = Inr groups \<and> concat groups = [''a'', ''b''] \<and> length groups = 1"
proof -
  have "groupable [''b'', ''a'']" by (simp add: groupable_def coordinateText_def is_unsafe_coordinate_char_def)
  moreover have "sort [''b'', ''a''] = [''a'', ''b'']" by code_simp
  ultimately show ?thesis
    using column_groups_partition [of "[''b'', ''a'']"] by (auto split: sum.splits)
qed

end
