(* ===== verification/Selection_Plan_Laws.thy ===== *)
theory Selection_Plan_Laws
  imports Selection_Plan Contract_Properties
begin

text \<open>
  Laws of the read plan: with a hash that does not collide a key determines its guide, and
  a plan lists every guide of the admitted Cards once, with exactly the Cards that select it,
  and every managed read once.
\<close>

section \<open>Keys\<close>

lemma show_nat_number: "show_nat n \<noteq> [] \<and> list_all json_number_char (show_nat n)"
proof (induction n rule: show_nat.induct)
  case (1 n)
  have digit: "json_number_char (char_of (48 + m))" if "m < 10" for m :: nat
    using that by (simp add: json_number_char_def is_digit_char_def)
  show ?case
  proof (cases "n < 10")
    case True
    then show ?thesis using digit by (simp add: show_nat.simps [of n])
  next
    case False
    then show ?thesis using 1 digit [of "n mod 10"] by (simp add: show_nat.simps [of n])
  qed
qed

lemma char_digit_inj: "m < 10 \<Longrightarrow> n < 10 \<Longrightarrow> char_of (48 + m :: nat) = char_of (48 + n) \<Longrightarrow> m = n"
  by (drule arg_cong [of _ _ "of_char :: char \<Rightarrow> nat"]) simp

lemma show_nat_inj: "show_nat m = show_nat n \<Longrightarrow> m = n"
proof (induction m arbitrary: n rule: show_nat.induct)
  case (1 m)
  have last: "last (show_nat k) = char_of (48 + k mod 10)" for k
    by (cases "k < 10") (simp_all add: show_nat.simps [of k])
  have but: "butlast (show_nat k) = (if k < 10 then [] else show_nat (k div 10))" for k
    by (simp add: show_nat.simps [of k])
  have "m mod 10 = n mod 10"
    using 1(2) last [of m] last [of n] char_digit_inj [of "m mod 10" "n mod 10"] by simp
  moreover have "m div 10 = n div 10"
  proof (cases "m < 10")
    case True
    then have "n < 10" using but [of m] but [of n] 1(2) show_nat_number by (metis (full_types))
    then show ?thesis using True by simp
  next
    case False
    then have "\<not> n < 10" using but [of m] but [of n] 1(2) show_nat_number by (metis (full_types))
    then show ?thesis using False but [of m] but [of n] 1 by simp
  qed
  ultimately show ?case by (metis div_mult_mod_eq)
qed

lemma texts_content: "json_content (json_texts xs) = json_content (json_texts ys) \<longleftrightarrow> xs = ys"
proof -
  have "inj (\<lambda>x. JStr x)" by (simp add: inj_def)
  then show ?thesis by (simp add: json_texts_def comp_def inj_map_eq_map)
qed

lemma object_member:
  assumes "json_content (JObj kvs) = json_content (JObj ls)"
    and "distinct (map fst (present kvs))" and "distinct (map fst (present ls))"
    and "map_of (present kvs) k = Some x" and "map_of (present ls) k = Some y"
  shows "json_content x = json_content y"
  using object_members [OF assms(1-3), of k] assms(4,5) by simp

lemma parameter_content: "json_content (json_of_parameter p) = json_content (json_of_parameter q) \<Longrightarrow> p = q"
proof -
  assume eq: "json_content (json_of_parameter p) = json_content (json_of_parameter q)"
  note m = object_members [OF eq [unfolded json_of_parameter_def]]
  have "param_location_text (hp_location p) = param_location_text (hp_location q)"
    "hp_name p = hp_name q" "hp_required p = hp_required q"
    using m [of "''location''"] m [of "''name''"] m [of "''required''"] by simp_all
  moreover from this(1) have "hp_location p = hp_location q" by (cases "hp_location p"; cases "hp_location q") simp_all
  ultimately show "p = q" by (intro http_parameter_ref.equality) simp_all
qed

lemma parameters_content: "json_content (json_of_parameters ps) = json_content (json_of_parameters qs) \<Longrightarrow> ps = qs"
proof -
  assume "json_content (json_of_parameters ps) = json_content (json_of_parameters qs)"
  then have "map (json_content \<circ> json_of_parameter) ps = map (json_content \<circ> json_of_parameter) qs"
    by (simp add: json_of_parameters_def)
  moreover have "inj (json_content \<circ> json_of_parameter)"
    by (rule injI, rule parameter_content) (simp only: comp_apply)
  ultimately show "ps = qs" using inj_map_eq_map by blast
qed

lemma scope_ref_content: "json_content (json_of_scope_ref r) = json_content (json_of_scope_ref q) \<Longrightarrow> r = q"
proof -
  assume eq: "json_content (json_of_scope_ref r) = json_content (json_of_scope_ref q)"
  note m = object_members [OF eq [unfolded json_of_scope_ref_def]]
  show "r = q" using m [of "''scopeId''"] m [of "''scopeVersion''"] by (intro scope_ref.equality) simp_all
qed

lemma selector_content: "json_content (json_of_selector s) = json_content (json_of_selector t) \<Longrightarrow> s = t"
proof -
  assume eq: "json_content (json_of_selector s) = json_content (json_of_selector t)"
  define ms where "ms = (\<lambda>s. case json_of_selector s of JObj kvs \<Rightarrow> kvs | _ \<Rightarrow> [])"
  have obj: "json_of_selector c = JObj (ms c)" for c by (cases c) (simp_all add: ms_def)
  have dist: "distinct (map fst (present (ms c)))" for c by (cases c) (simp_all add: ms_def)
  note m = object_members [OF eq [unfolded obj] dist dist]
  show "s = t" using m [of "''kind''"] m [of "''semanticUnitIds''"]
    by (cases s; cases t) (simp_all add: ms_def texts_content)
qed

lemma present_option [simp]:
  "present ((k, map_option f x) # kvs) = (case x of None \<Rightarrow> present kvs | Some v \<Rightarrow> (k, f v) # present kvs)"
  by (cases x) simp_all

lemma guide_content: "json_content (json_of_guide g) = json_content (json_of_guide h) \<Longrightarrow> g = h"
proof -
  assume eq: "json_content (json_of_guide g) = json_content (json_of_guide h)"
  define ms where "ms = (\<lambda>g. case json_of_guide g of JObj kvs \<Rightarrow> kvs | _ \<Rightarrow> [])"
  have obj: "json_of_guide c = JObj (ms c)" for c by (cases c) (simp_all add: ms_def)
  have dist: "distinct (map fst (present (ms c)))" for c
    by (cases c) (simp_all add: ms_def split: option.split)
  note m = object_members [OF eq [unfolded obj] dist dist]
  note common = m [of "''kind''"] m [of "''scopeRef''"] m [of "''connector''"]
  note managed = m [of "''documentIndexId''"] m [of "''sourceId''"] m [of "''documentId''"] m [of "''indexVersion''"]
    m [of "''selector''"] m [of "''limit''"]
  note sql = m [of "''schema''"] m [of "''table''"] m [of "''columns''"]
  note http = m [of "''method''"] m [of "''path''"] m [of "''operationId''"] m [of "''parameters''"]
  show "g = h"
  proof (cases g)
    case g: (ManagedDocumentGuide r i s l)
    show ?thesis
    proof (cases h)
      case (ManagedDocumentGuide r' i' s' l')
      then have "r = r'" "s = s'" "l = l'" "i = i'"
        using g common managed scope_ref_content selector_content show_nat_inj
        by (auto simp: ms_def intro: document_index_ref.equality)
      then show ?thesis using g ManagedDocumentGuide by simp
    qed (use g common in \<open>simp_all add: ms_def\<close>)
  next
    case g: (SqlRetrievalGuide r c sc t cols)
    show ?thesis
    proof (cases h)
      case (SqlRetrievalGuide r' c' sc' t' cols')
      then show ?thesis using g common sql scope_ref_content by (auto simp: ms_def texts_content)
    qed (use g common in \<open>simp_all add: ms_def\<close>)
  next
    case g: (HttpRetrievalGuide r c me p op ps)
    show ?thesis
    proof (cases h)
      case (HttpRetrievalGuide r' c' me' p' op' ps')
      then have "r = r'" "ps = ps'"
        using g common http scope_ref_content parameters_content
        by (auto simp: ms_def split: option.splits)
      moreover have "op = op'" "c = c'" "me = me'" "p = p'"
        using g HttpRetrievalGuide common http by (auto simp: ms_def split: option.splits)
      ultimately show ?thesis using g HttpRetrievalGuide by simp
    qed (use g common in \<open>simp_all add: ms_def\<close>)
  qed
qed

lemma number_json_guide [simp]: "number_json (json_of_guide g)"
  by (cases g) (auto simp: json_of_scope_ref_def show_nat_number split: option.split)

lemma digest_inj:
  assumes "inj sha256" and "number_json j" and "number_json j'"
  shows "canonicalDigest sha256 j = canonicalDigest sha256 j' \<longleftrightarrow> json_content j = json_content j'"
  using assms canonical_iff_content [OF assms(2,3)] by (simp add: canonicalDigest_def canonicalJson_def inj_eq)

lemma guide_key_inj: "inj sha256 \<Longrightarrow> retrievalGuideKey sha256 g = retrievalGuideKey sha256 h \<longleftrightarrow> g = h"
  using digest_inj [of sha256 "json_of_guide g" "json_of_guide h"] guide_content by (auto simp: retrievalGuideKey_def)

lemma target_key_inj:
  assumes "inj sha256"
  shows "managedTargetKey sha256 r l = managedTargetKey sha256 q k \<longleftrightarrow> r = q \<and> l = k"
proof
  assume eq: "managedTargetKey sha256 r l = managedTargetKey sha256 q k"
  let ?j = "\<lambda>r l. [(''scopeId'', Some (JStr (scopeId r))), (''scopeVersion'', Some (JStr (scopeVersion r))),
      (''limit'', Some (JNum (show_nat l)))]"
  have "number_json (JObj (?j r l))" "number_json (JObj (?j q k))" by (simp_all add: show_nat_number)
  then have "json_content (JObj (?j r l)) = json_content (JObj (?j q k))"
    using eq digest_inj [OF assms] unfolding managedTargetKey_def by blast
  note m = object_members [OF this]
  show "r = q \<and> l = k"
    using m [of "''scopeId''"] m [of "''scopeVersion''"] m [of "''limit''"] show_nat_inj
    by (auto intro: scope_ref.equality)
qed simp

section \<open>What a plan lists\<close>

abbreviation guide_scope_key :: "retrieval_guide \<Rightarrow> string" where
  "guide_scope_key g \<equiv> scope_key (guide_scopeRef g)"

definition card_guides :: "nat \<Rightarrow> approved_card \<Rightarrow> retrieval_guide set" where
  "card_guides limit c = (\<lambda>s. buildRetrievalGuide s limit) ` set (ce_scopes c)"

definition guides :: "nat \<Rightarrow> approved_card list \<Rightarrow> retrieval_guide set" where
  "guides limit cards = (\<Union>c \<in> set cards. card_guides limit c)"

definition selectors :: "nat \<Rightarrow> approved_card list \<Rightarrow> retrieval_guide \<Rightarrow> card_ref set" where
  "selectors limit cards g = ref_of_card ` {c \<in> set cards. g \<in> card_guides limit c}"

definition consistent :: "nat \<Rightarrow> approved_card list \<Rightarrow> bool" where
  "consistent limit cards \<longleftrightarrow> inj_on guide_scope_key (guides limit cards)"

fun read_target :: "(string \<Rightarrow> string) \<Rightarrow> retrieval_guide \<Rightarrow> managed_target option" where
  "read_target sha256 (ManagedDocumentGuide r i s l) =
     Some \<lparr>mt_targetKey = managedTargetKey sha256 r l, mt_scopeRef = r, mt_limit = l\<rparr>"
| "read_target sha256 g = None"

definition read_targets :: "(string \<Rightarrow> string) \<Rightarrow> retrieval_guide set \<Rightarrow> managed_target set" where
  "read_targets sha256 gs = {t. \<exists>g \<in> gs. read_target sha256 g = Some t}"

abbreviation pair_selectors :: "(approved_card \<times> retrieval_guide) set \<Rightarrow> retrieval_guide \<Rightarrow> card_ref set" where
  "pair_selectors ps g \<equiv> {ref_of_card c | c. (c, g) \<in> ps}"

definition items_ok :: "(string \<Rightarrow> string) \<Rightarrow> (approved_card \<times> retrieval_guide) set \<Rightarrow> (string \<times> mutable_item) list \<Rightarrow> bool" where
  "items_ok sha256 ps items \<longleftrightarrow> distinct (map fst items) \<and>
     (\<forall>k. k \<notin> retrievalGuideKey sha256 ` snd ` ps \<longrightarrow> map_of items k = None) \<and>
     (\<forall>g \<in> snd ` ps. \<exists>it. map_of items (retrievalGuideKey sha256 g) = Some it \<and>
        mi_itemKey it = retrievalGuideKey sha256 g \<and> mi_guide it = g \<and>
        distinct (mi_selectedBy it) \<and> set (mi_selectedBy it) = pair_selectors ps g)"

definition scopes_ok :: "(string \<Rightarrow> string) \<Rightarrow> retrieval_guide set \<Rightarrow> (string \<times> string) list \<Rightarrow> bool" where
  "scopes_ok sha256 gs m \<longleftrightarrow>
     (\<forall>g \<in> gs. map_of m (guide_scope_key g) = Some (retrievalGuideKey sha256 g)) \<and>
     (\<forall>sk k. map_of m sk = Some k \<longrightarrow> (\<exists>g \<in> gs. guide_scope_key g = sk \<and> retrievalGuideKey sha256 g = k))"

definition targets_ok :: "(string \<Rightarrow> string) \<Rightarrow> retrieval_guide set \<Rightarrow> (string \<times> managed_target) list \<Rightarrow> bool" where
  "targets_ok sha256 gs ts \<longleftrightarrow> distinct (map fst ts) \<and>
     (\<forall>(k, t) \<in> set ts. mt_targetKey t = k) \<and> snd ` set ts = read_targets sha256 gs"

lemma add_target_ok:
  assumes inj: "inj sha256" and ok: "targets_ok sha256 gs ts"
  shows "targets_ok sha256 (insert g gs) (add_target sha256 g ts)"
proof (cases g)
  case (ManagedDocumentGuide r i s l)
  let ?t = "\<lparr>mt_targetKey = managedTargetKey sha256 r l, mt_scopeRef = r, mt_limit = l\<rparr>"
  have new: "read_targets sha256 (insert g gs) = insert ?t (read_targets sha256 gs)"
    by (auto simp: read_targets_def ManagedDocumentGuide)
  show ?thesis
  proof (cases "map_of ts (managedTargetKey sha256 r l)")
    case None
    then have fresh: "managedTargetKey sha256 r l \<notin> fst ` set ts" by (simp add: map_of_eq_None_iff)
    then have u: "AList.update (managedTargetKey sha256 r l) ?t ts = ts @ [(managedTargetKey sha256 r l, ?t)]"
      by (induction ts) auto
    show ?thesis
      using ok None fresh unfolding targets_ok_def new
      by (auto simp: add_target_def ManagedDocumentGuide Let_def u)
  next
    case (Some t)
    then have t: "(managedTargetKey sha256 r l, t) \<in> set ts" by (rule map_of_SomeD)
    have "snd ` set ts = read_targets sha256 gs" using ok by (simp add: targets_ok_def)
    then have mem: "t \<in> read_targets sha256 gs" using t by (metis image_eqI snd_conv)
    have key: "mt_targetKey t = managedTargetKey sha256 r l"
      using ok t by (auto simp: targets_ok_def dest: bspec)
    obtain h where "read_target sha256 h = Some t" using mem by (auto simp: read_targets_def)
    then have "t = ?t" using key target_key_inj [OF inj] by (cases h) auto
    then have "insert ?t (read_targets sha256 gs) = read_targets sha256 gs" using mem by blast
    moreover have "add_target sha256 g ts = ts" using Some by (simp add: add_target_def ManagedDocumentGuide Let_def)
    ultimately show ?thesis using ok unfolding targets_ok_def new by simp
  qed
next
  case (SqlRetrievalGuide a b c d e)
  then show ?thesis using ok by (simp add: targets_ok_def add_target_def read_targets_def)
next
  case (HttpRetrievalGuide a b c d e f)
  then show ?thesis using ok by (simp add: targets_ok_def add_target_def read_targets_def)
qed

definition plan_ok :: "(string \<Rightarrow> string) \<Rightarrow> (approved_card \<times> retrieval_guide) set \<Rightarrow> plan_state \<Rightarrow> bool" where
  "plan_ok sha256 ps st \<longleftrightarrow> items_ok sha256 ps (ps_byItemKey st) \<and>
     scopes_ok sha256 (snd ` ps) (ps_itemKeyByScopeRef st) \<and> targets_ok sha256 (snd ` ps) (ps_targets st)"

lemma plan_ok_empty: "plan_ok sha256 {} empty_plan_state"
  by (simp add: plan_ok_def empty_plan_state_def items_ok_def scopes_ok_def targets_ok_def read_targets_def)

lemma distinct_update_iff: "distinct (map fst xs) \<Longrightarrow> distinct (map fst (AList.update k v xs))"
  by (rule distinct_update)

lemma pair_selectors_insert:
  "pair_selectors (insert (c, h) ps) g = (if g = h then insert (ref_of_card c) (pair_selectors ps g) else pair_selectors ps g)"
  by auto

lemma items_ok_None:
  assumes ok: "items_ok sha256 ps items" and inj: "inj sha256"
  shows "map_of items (retrievalGuideKey sha256 h) = None \<longleftrightarrow> h \<notin> snd ` ps"
proof
  show "h \<notin> snd ` ps" if "map_of items (retrievalGuideKey sha256 h) = None"
    using ok that unfolding items_ok_def by force
  assume "h \<notin> snd ` ps"
  then have "retrievalGuideKey sha256 h \<notin> retrievalGuideKey sha256 ` snd ` ps"
    using guide_key_inj [OF inj] by blast
  then show "map_of items (retrievalGuideKey sha256 h) = None" using ok unfolding items_ok_def by blast
qed

lemma items_ok_Some:
  assumes "items_ok sha256 ps items" and "h \<in> snd ` ps" and "map_of items (retrievalGuideKey sha256 h) = Some it"
  shows "mi_itemKey it = retrievalGuideKey sha256 h" "mi_guide it = h" "distinct (mi_selectedBy it)"
    "set (mi_selectedBy it) = pair_selectors ps h"
proof -
  have "\<forall>g \<in> snd ` ps. \<exists>it. map_of items (retrievalGuideKey sha256 g) = Some it \<and>
      mi_itemKey it = retrievalGuideKey sha256 g \<and> mi_guide it = g \<and>
      distinct (mi_selectedBy it) \<and> set (mi_selectedBy it) = pair_selectors ps g"
    using assms(1) unfolding items_ok_def by blast
  from bspec [OF this assms(2)] show "mi_itemKey it = retrievalGuideKey sha256 h" "mi_guide it = h"
    "distinct (mi_selectedBy it)" "set (mi_selectedBy it) = pair_selectors ps h"
    using assms(3) by simp_all
qed

lemma items_ok_add:
  assumes inj: "inj sha256" and ok: "items_ok sha256 ps items"
    and new: "mi_itemKey it = retrievalGuideKey sha256 h" "mi_guide it = h" "distinct (mi_selectedBy it)"
      "set (mi_selectedBy it) = insert (ref_of_card c) (pair_selectors ps h)"
  shows "items_ok sha256 (insert (c, h) ps) (AList.update (retrievalGuideKey sha256 h) it items)"
proof -
  have d: "distinct (map fst items)"
    and none: "\<And>k. k \<notin> retrievalGuideKey sha256 ` snd ` ps \<Longrightarrow> map_of items k = None"
    and some: "\<And>g. g \<in> snd ` ps \<Longrightarrow> \<exists>it. map_of items (retrievalGuideKey sha256 g) = Some it \<and>
        mi_itemKey it = retrievalGuideKey sha256 g \<and> mi_guide it = g \<and>
        distinct (mi_selectedBy it) \<and> set (mi_selectedBy it) = pair_selectors ps g"
    using ok unfolding items_ok_def by blast+
  have "\<exists>x. map_of (AList.update (retrievalGuideKey sha256 h) it items) (retrievalGuideKey sha256 g) = Some x \<and>
      mi_itemKey x = retrievalGuideKey sha256 g \<and> mi_guide x = g \<and> distinct (mi_selectedBy x) \<and>
      set (mi_selectedBy x) = pair_selectors (insert (c, h) ps) g" if "g \<in> snd ` insert (c, h) ps" for g
  proof (cases "g = h")
    case True
    then show ?thesis using new unfolding pair_selectors_insert by (simp add: update_conv')
  next
    case False
    then have "g \<in> snd ` ps" using that by auto
    then show ?thesis
      using some [of g] False guide_key_inj [OF inj, of g h] unfolding pair_selectors_insert
      by (simp add: update_conv')
  qed
  moreover have "map_of (AList.update (retrievalGuideKey sha256 h) it items) k = None"
    if "k \<notin> retrievalGuideKey sha256 ` snd ` insert (c, h) ps" for k
    using that none [of k] by (auto simp: update_conv')
  ultimately show ?thesis
    unfolding items_ok_def using distinct_update [OF d] by blast
qed

text \<open>One scope: refused exactly when an earlier guide has its reference and is another guide.\<close>

lemma scopes_ok_add:
  assumes "scopes_ok sha256 gs m" and "\<forall>g \<in> gs. guide_scope_key g = guide_scope_key h \<longrightarrow> g = h"
  shows "scopes_ok sha256 (insert h gs) (AList.update (guide_scope_key h) (retrievalGuideKey sha256 h) m)"
  using assms by (auto simp: scopes_ok_def update_conv' split: if_splits)

lemma update_same: "map_of al k = Some v \<Longrightarrow> AList.update k v al = al"
  by (induction al) auto

lemma known_key:
  assumes "scopes_ok sha256 gs m" and "inj sha256"
  shows "(map_of m (guide_scope_key h) \<noteq> None \<and> map_of m (guide_scope_key h) \<noteq> Some (retrievalGuideKey sha256 h)) \<longleftrightarrow>
    (\<exists>g \<in> gs. guide_scope_key g = guide_scope_key h \<and> g \<noteq> h)"
proof
  assume "map_of m (guide_scope_key h) \<noteq> None \<and> map_of m (guide_scope_key h) \<noteq> Some (retrievalGuideKey sha256 h)"
  then obtain k where "map_of m (guide_scope_key h) = Some k" "k \<noteq> retrievalGuideKey sha256 h" by auto
  then show "\<exists>g \<in> gs. guide_scope_key g = guide_scope_key h \<and> g \<noteq> h"
    using assms(1) unfolding scopes_ok_def by metis
next
  assume "\<exists>g \<in> gs. guide_scope_key g = guide_scope_key h \<and> g \<noteq> h"
  then obtain g where "g \<in> gs" "guide_scope_key g = guide_scope_key h" "g \<noteq> h" by blast
  then have "map_of m (guide_scope_key h) = Some (retrievalGuideKey sha256 g)"
    using assms(1) unfolding scopes_ok_def by metis
  then show "map_of m (guide_scope_key h) \<noteq> None \<and> map_of m (guide_scope_key h) \<noteq> Some (retrievalGuideKey sha256 h)"
    using guide_key_inj [OF assms(2)] \<open>g \<noteq> h\<close> by simp
qed

lemma plan_scope_step:
  assumes inj: "inj sha256" and ok: "plan_ok sha256 ps st" and h_def: "h = buildRetrievalGuide scope limit"
  shows "if \<exists>g \<in> snd ` ps. guide_scope_key g = guide_scope_key h \<and> g \<noteq> h
    then \<exists>e. plan_scope sha256 limit c scope st = Inl e
    else \<exists>st'. plan_scope sha256 limit c scope st = Inr st' \<and> plan_ok sha256 (insert (c, h) ps) st'"
proof -
  have items: "items_ok sha256 ps (ps_byItemKey st)" and scopes: "scopes_ok sha256 (snd ` ps) (ps_itemKeyByScopeRef st)"
    and targets: "targets_ok sha256 (snd ` ps) (ps_targets st)"
    using ok by (simp_all add: plan_ok_def)
  note known = known_key [OF scopes inj, of h]
  show ?thesis
  proof (cases "\<exists>g \<in> snd ` ps. guide_scope_key g = guide_scope_key h \<and> g \<noteq> h")
    case True
    then show ?thesis using known unfolding plan_scope_def Let_def h_def [symmetric] by simp
  next
    case False
    note scopes' = scopes_ok_add [OF scopes, of h]
    have s': "scopes_ok sha256 (snd ` insert (c, h) ps)
        (AList.update (guide_scope_key h) (retrievalGuideKey sha256 h) (ps_itemKeyByScopeRef st))"
      using scopes' False by (auto simp: insert_commute)
    have not: "\<not> (map_of (ps_itemKeyByScopeRef st) (guide_scope_key h) \<noteq> None \<and>
        map_of (ps_itemKeyByScopeRef st) (guide_scope_key h) \<noteq> Some (retrievalGuideKey sha256 h))"
      using known False by blast
    show ?thesis
    proof (cases "map_of (ps_byItemKey st) (retrievalGuideKey sha256 h)")
      case None
      then have "h \<notin> snd ` ps" using items_ok_None [OF items inj] by blast
      then have "pair_selectors ps h = {}" by force
      then have "items_ok sha256 (insert (c, h) ps) (AList.update (retrievalGuideKey sha256 h)
          \<lparr>mi_itemKey = retrievalGuideKey sha256 h, mi_selectedBy = [ref_of_card c], mi_guide = h\<rparr> (ps_byItemKey st))"
        by (intro items_ok_add [OF inj items]) simp_all
      moreover have "targets_ok sha256 (snd ` insert (c, h) ps) (add_target sha256 h (ps_targets st))"
        using add_target_ok [OF inj targets] by simp
      ultimately show ?thesis
        using False not None s' unfolding plan_scope_def Let_def h_def [symmetric]
        by (simp add: plan_ok_def)
    next
      case (Some it)
      then have old: "h \<in> snd ` ps" using items_ok_None [OF items inj] by (metis option.distinct(1))
      note it = items_ok_Some [OF items old Some]
      have t': "targets_ok sha256 (snd ` insert (c, h) ps) (ps_targets st)"
        using targets old by (simp add: insert_absorb)
      show ?thesis
      proof (cases "ref_of_card c \<in> set (mi_selectedBy it)")
        case True
        then have "items_ok sha256 (insert (c, h) ps) (AList.update (retrievalGuideKey sha256 h) it (ps_byItemKey st))"
          using it by (intro items_ok_add [OF inj items]) auto
        moreover have "AList.update (retrievalGuideKey sha256 h) it (ps_byItemKey st) = ps_byItemKey st"
          using Some by (rule update_same)
        ultimately show ?thesis
          using False not Some s' t' True unfolding plan_scope_def Let_def h_def [symmetric]
          by (simp add: plan_ok_def list_ex_iff)
      next
        case new: False
        then have "items_ok sha256 (insert (c, h) ps) (AList.update (retrievalGuideKey sha256 h)
            (it\<lparr>mi_selectedBy := mi_selectedBy it @ [ref_of_card c]\<rparr>) (ps_byItemKey st))"
          using it by (intro items_ok_add [OF inj items]) auto
        then show ?thesis
          using False not Some s' t' new unfolding plan_scope_def Let_def h_def [symmetric]
          by (simp add: plan_ok_def list_ex_iff)
      qed
    qed
  qed
qed

abbreviation card_pairs :: "nat \<Rightarrow> approved_card \<Rightarrow> approved_scope list \<Rightarrow> (approved_card \<times> retrieval_guide) set" where
  "card_pairs limit c ss \<equiv> (\<lambda>s. (c, buildRetrievalGuide s limit)) ` set ss"

lemma plan_scopes_fold:
  assumes inj: "inj sha256" and "plan_ok sha256 ps st" and "inj_on guide_scope_key (snd ` ps)"
  shows "if inj_on guide_scope_key (snd ` (ps \<union> card_pairs limit c ss))
    then \<exists>st'. res_fold (plan_scope sha256 limit c) ss st = Inr st' \<and> plan_ok sha256 (ps \<union> card_pairs limit c ss) st'
    else \<exists>e. res_fold (plan_scope sha256 limit c) ss st = Inl e"
  using assms(2,3)
proof (induction ss arbitrary: ps st)
  case Nil
  then show ?case by simp
next
  case (Cons x ss)
  define h where "h = buildRetrievalGuide x limit"
  note step = plan_scope_step [OF inj Cons.prems(1) h_def, of c]
  have pairs: "ps \<union> card_pairs limit c (x # ss) = insert (c, h) ps \<union> card_pairs limit c ss" by (auto simp: h_def)
  show ?case
  proof (cases "\<exists>g \<in> snd ` ps. guide_scope_key g = guide_scope_key h \<and> g \<noteq> h")
    case True
    then obtain g where g: "g \<in> snd ` ps" "guide_scope_key g = guide_scope_key h" "g \<noteq> h" by blast
    obtain e where "plan_scope sha256 limit c x st = Inl e" using step [unfolded if_P [OF True]] by blast
    moreover have "\<not> inj_on guide_scope_key (snd ` (insert (c, h) ps \<union> card_pairs limit c ss))"
      using g unfolding inj_on_def by auto
    ultimately show ?thesis unfolding pairs by simp
  next
    case False
    then obtain st' where st': "plan_scope sha256 limit c x st = Inr st'" "plan_ok sha256 (insert (c, h) ps) st'"
      using step [unfolded if_not_P [OF False]] by blast
    have "guide_scope_key h \<notin> guide_scope_key ` (snd ` ps - {h})" using False by force
    then have i: "inj_on guide_scope_key (snd ` insert (c, h) ps)"
      using Cons.prems(2) by (simp only: image_insert snd_conv inj_on_insert simp_thms)
    show ?thesis unfolding pairs res_fold.simps st'(1) res_bind_Inr by (rule Cons.IH [OF st'(2) i])
  qed
qed

lemma plan_cards_fold:
  assumes inj: "inj sha256" and "plan_ok sha256 ps st" and "inj_on guide_scope_key (snd ` ps)"
  shows "if inj_on guide_scope_key (snd ` (ps \<union> (\<Union>c \<in> set cards. card_pairs limit c (ce_scopes c))))
    then \<exists>st'. res_fold (plan_card sha256 limit) cards st = Inr st' \<and>
      plan_ok sha256 (ps \<union> (\<Union>c \<in> set cards. card_pairs limit c (ce_scopes c))) st'
    else \<exists>e. res_fold (plan_card sha256 limit) cards st = Inl e"
  using assms(2,3)
proof (induction cards arbitrary: ps st)
  case Nil
  then show ?case by simp
next
  case (Cons c cards)
  let ?qs = "ps \<union> card_pairs limit c (ce_scopes c)"
  have all: "ps \<union> (\<Union>c \<in> set (c # cards). card_pairs limit c (ce_scopes c)) =
      ?qs \<union> (\<Union>c \<in> set cards. card_pairs limit c (ce_scopes c))" by auto
  note step = plan_scopes_fold [OF inj Cons.prems, of c limit "ce_scopes c"]
  show ?case
  proof (cases "inj_on guide_scope_key (snd ` ?qs)")
    case True
    then obtain st' where st': "plan_card sha256 limit c st = Inr st'" "plan_ok sha256 ?qs st'"
      using step [unfolded if_P [OF True]] by (auto simp: plan_card_def)
    show ?thesis unfolding all res_fold.simps st'(1) res_bind_Inr by (rule Cons.IH [OF st'(2) True])
  next
    case False
    then obtain e where "plan_card sha256 limit c st = Inl e" using step [unfolded if_not_P [OF False]] by (auto simp: plan_card_def)
    moreover have "\<not> inj_on guide_scope_key (snd ` (?qs \<union> (\<Union>c \<in> set cards. card_pairs limit c (ce_scopes c))))"
      using False by (meson image_mono inj_on_subset Un_upper1)
    ultimately show ?thesis unfolding all by simp
  qed
qed

lemma freeze_all_ok:
  "\<forall>x \<in> set xs. mi_selectedBy x \<noteq> [] \<Longrightarrow> \<exists>ys. freeze_all sha256 xs = Inr ys \<and>
     list_all2 (\<lambda>x y. freezeItem sha256 x = Inr y) xs ys"
proof (induction xs)
  case Nil
  then show ?case by simp
next
  case (Cons x xs)
  then obtain ys where "freeze_all sha256 xs = Inr ys" "list_all2 (\<lambda>x y. freezeItem sha256 x = Inr y) xs ys" by auto
  moreover have "\<exists>y. freezeItem sha256 x = Inr y" using Cons.prems by (cases "mi_selectedBy x") (auto simp: freezeItem_def)
  ultimately show ?case by auto
qed

lemma freezeItem_sel:
  assumes "freezeItem sha256 x = Inr y"
  shows "pl_itemKey y = mi_itemKey x" "pl_selectedBy y = mi_selectedBy x" "pl_guide y = mi_guide x"
    "pl_execution y = (case read_target sha256 (mi_guide x) of None \<Rightarrow> Delegated | Some t \<Rightarrow> Managed (mt_targetKey t))"
  using assms by (cases "mi_guide x"; auto simp: freezeItem_def split: list.splits)+

text \<open>The plan of consistent Cards, up to the order of its lists.\<close>

definition plan_of :: "(string \<Rightarrow> string) \<Rightarrow> nat \<Rightarrow> approved_card list \<Rightarrow> read_plan \<Rightarrow> bool" where
  "plan_of sha256 limit cards plan \<longleftrightarrow>
     distinct (map pl_guide (rd_items plan)) \<and> pl_guide ` set (rd_items plan) = guides limit cards \<and>
     (\<forall>item \<in> set (rd_items plan). pl_itemKey item = retrievalGuideKey sha256 (pl_guide item) \<and>
        distinct (pl_selectedBy item) \<and> set (pl_selectedBy item) = selectors limit cards (pl_guide item) \<and>
        pl_execution item = (case read_target sha256 (pl_guide item) of
           None \<Rightarrow> Delegated | Some t \<Rightarrow> Managed (mt_targetKey t))) \<and>
     sorted (map item_order (rd_items plan)) \<and>
     distinct (rd_managedTargets plan) \<and> set (rd_managedTargets plan) = read_targets sha256 (guides limit cards) \<and>
     sorted (map mt_targetKey (rd_managedTargets plan))"

lemma card_pairs_guides: "snd ` (\<Union>c \<in> set cards. card_pairs limit c (ce_scopes c)) = guides limit cards"
  by (force simp: guides_def card_guides_def)

lemma card_pairs_selectors: "pair_selectors (\<Union>c \<in> set cards. card_pairs limit c (ce_scopes c)) g = selectors limit cards g"
  by (auto simp: selectors_def card_guides_def)

lemma items_ok_values:
  assumes ok: "items_ok sha256 ps items" and "(k, it) \<in> set items"
  shows "mi_guide it \<in> snd ` ps \<and> k = retrievalGuideKey sha256 (mi_guide it) \<and> mi_itemKey it = k \<and>
    distinct (mi_selectedBy it) \<and> set (mi_selectedBy it) = pair_selectors ps (mi_guide it) \<and> mi_selectedBy it \<noteq> []"
proof -
  have "distinct (map fst items)" using ok unfolding items_ok_def by blast
  then have some: "map_of items k = Some it" using assms(2) by simp
  then have "k \<in> retrievalGuideKey sha256 ` snd ` ps" using ok unfolding items_ok_def by (metis option.distinct(1))
  then obtain g where g: "g \<in> snd ` ps" "k = retrievalGuideKey sha256 g" by blast
  note it = items_ok_Some [OF ok g(1) some [unfolded g(2)]]
  have "pair_selectors ps g \<noteq> {}" using g(1) by force
  then have "mi_selectedBy it \<noteq> []" using it(4) by (metis set_empty)
  then show ?thesis using it g by simp
qed

lemma items_ok_guides:
  assumes ok: "items_ok sha256 ps items"
  shows "mi_guide ` snd ` set items = snd ` ps" and "distinct (map (mi_guide \<circ> snd) items)"
proof -
  have d: "distinct (map fst items)" using ok unfolding items_ok_def by blast
  show "mi_guide ` snd ` set items = snd ` ps"
  proof
    show "mi_guide ` snd ` set items \<subseteq> snd ` ps" using items_ok_values [OF ok] by fastforce
    show "snd ` ps \<subseteq> mi_guide ` snd ` set items"
    proof
      fix g assume "g \<in> snd ` ps"
      then obtain it where "map_of items (retrievalGuideKey sha256 g) = Some it" "mi_guide it = g"
        using ok unfolding items_ok_def by blast
      then show "g \<in> mi_guide ` snd ` set items" using map_of_SomeD by force
    qed
  qed
  have "map fst items = map (retrievalGuideKey sha256) (map (mi_guide \<circ> snd) items)"
    using items_ok_values [OF ok] by auto
  then show "distinct (map (mi_guide \<circ> snd) items)" using d by (metis distinct_map)
qed

lemma targets_ok_distinct: "targets_ok sha256 gs ts \<Longrightarrow> distinct (map snd ts)"
proof -
  assume ok: "targets_ok sha256 gs ts"
  then have "map fst ts = map mt_targetKey (map snd ts)" by (auto simp: targets_ok_def)
  then show ?thesis using ok unfolding targets_ok_def by (metis distinct_map)
qed

lemma list_all2_freeze:
  assumes "list_all2 (\<lambda>x y. freezeItem sha256 x = Inr y) xs ys"
  shows "map pl_guide ys = map mi_guide xs"
    and "y \<in> set ys \<Longrightarrow> \<exists>x \<in> set xs. freezeItem sha256 x = Inr y"
  using assms by (induction rule: list_all2_induct) (auto simp: freezeItem_sel)

lemma planSelectedScopes_spec:
  assumes inj: "inj sha256"
  shows "if consistent limit cards
    then \<exists>plan. planSelectedScopes sha256 cards limit = Inr plan \<and> plan_of sha256 limit cards plan
    else \<exists>e. planSelectedScopes sha256 cards limit = Inl e"
proof -
  let ?ps = "\<Union>c \<in> set cards. card_pairs limit c (ce_scopes c)"
  note fold = plan_cards_fold [OF inj plan_ok_empty, of limit cards, simplified, unfolded card_pairs_guides]
  show ?thesis
  proof (cases "consistent limit cards")
    case False
    then show ?thesis using fold unfolding consistent_def by (auto simp: planSelectedScopes_def)
  next
    case True
    then obtain st where st: "res_fold (plan_card sha256 limit) cards empty_plan_state = Inr st" "plan_ok sha256 ?ps st"
      using fold unfolding consistent_def by auto
    have ok: "items_ok sha256 ?ps (ps_byItemKey st)" and t: "targets_ok sha256 (guides limit cards) (ps_targets st)"
      using st(2) unfolding plan_ok_def card_pairs_guides by blast+
    let ?its = "map snd (ps_byItemKey st)"
    have "\<forall>x \<in> set ?its. mi_selectedBy x \<noteq> []" using items_ok_values [OF ok] by force
    then obtain items where items: "freeze_all sha256 ?its = Inr items"
      "list_all2 (\<lambda>x y. freezeItem sha256 x = Inr y) ?its items" using freeze_all_ok by blast
    define plan where "plan = \<lparr>rd_items = sort_key item_order items,
      rd_managedTargets = sort_key mt_targetKey (map snd (ps_targets st))\<rparr>"
    have run: "planSelectedScopes sha256 cards limit = Inr plan"
      by (simp add: planSelectedScopes_def st(1) items(1) plan_def)
    note g = list_all2_freeze(1) [OF items(2)]
    have "set (map pl_guide items) = mi_guide ` snd ` set (ps_byItemKey st)" unfolding g by (simp add: image_image)
    then have gs: "pl_guide ` set items = guides limit cards"
      using items_ok_guides(1) [OF ok] unfolding card_pairs_guides set_map by (rule trans)
    have "distinct (map pl_guide items)" using items_ok_guides(2) [OF ok] g by simp
    note gs = gs this
    have each: "pl_itemKey item = retrievalGuideKey sha256 (pl_guide item) \<and>
        distinct (pl_selectedBy item) \<and> set (pl_selectedBy item) = selectors limit cards (pl_guide item) \<and>
        pl_execution item = (case read_target sha256 (pl_guide item) of
           None \<Rightarrow> Delegated | Some t \<Rightarrow> Managed (mt_targetKey t))" if item: "item \<in> set items" for item
    proof -
      obtain x where x: "x \<in> set ?its" "freezeItem sha256 x = Inr item"
        using list_all2_freeze(2) [OF items(2) item] by blast
      then obtain k where "(k, x) \<in> set (ps_byItemKey st)" by auto
      from items_ok_values [OF ok this] show ?thesis
        unfolding card_pairs_selectors by (simp add: freezeItem_sel [OF x(2)])
    qed
    have "distinct (map pl_guide (sort_key item_order items))"
      using gs(2) by (metis mset_eq_imp_distinct_iff mset_map mset_sort)
    moreover have "set (map snd (ps_targets st)) = read_targets sha256 (guides limit cards)"
      using t by (simp add: targets_ok_def)
    ultimately have "plan_of sha256 limit cards plan"
      using each gs(1) targets_ok_distinct [OF t] unfolding plan_of_def plan_def by simp
    then show ?thesis using run True by simp
  qed
qed

lemma planSelectedScopes_ok:
  assumes "inj sha256" and "planSelectedScopes sha256 cards limit = Inr plan"
  shows "consistent limit cards" and "plan_of sha256 limit cards plan"
  using planSelectedScopes_spec [OF assms(1), of limit cards] assms(2) by (auto split: if_splits)

end
