(* ===== verification/Scoring_Laws.thy ===== *)
theory Scoring_Laws
  imports Query_Scoring
begin

text \<open>
  The index of a catalog: its n-gram dictionary only grows, the sorted ids of a field stand for
  its n-grams, and a Card that shares no query vocabulary leaves every statistic as it is.
\<close>

section \<open>Shared ids\<close>

lemma shared_ids_card:
  "sorted ls \<Longrightarrow> distinct ls \<Longrightarrow> sorted rs \<Longrightarrow> distinct rs \<Longrightarrow> shared_ids ls rs = card (set ls \<inter> set rs)"
proof (induction ls rs rule: shared_ids.induct)
  case (1 l ls r rs)
  show ?case
  proof (cases "l = r")
    case True
    have "set (l # ls) \<inter> set (r # rs) = insert l (set ls \<inter> set rs)" using "1.prems" True by auto
    moreover have "l \<notin> set ls \<inter> set rs" using "1.prems" by simp
    ultimately show ?thesis using "1.IH"(1) [OF True] "1.prems" True by simp
  next
    case ne: False
    show ?thesis
    proof (cases "l < r")
      case True
      then have "l \<notin> set (r # rs)" using "1.prems"(3) by auto
      then have "set (l # ls) \<inter> set (r # rs) = set ls \<inter> set (r # rs)" by auto
      then show ?thesis using "1.IH"(2) [OF ne True] "1.prems" ne True by simp
    next
      case False
      then have "r \<notin> set (l # ls)" using "1.prems"(1) ne by auto
      then have "set (l # ls) \<inter> set (r # rs) = set (l # ls) \<inter> set rs" by auto
      then show ?thesis using "1.IH"(3) [OF ne False] "1.prems" ne False by simp
    qed
  qed
qed simp_all

section \<open>The dictionary\<close>

definition dict_ok :: "dictionary \<Rightarrow> bool" where
  "dict_ok d \<longleftrightarrow> distinct (map fst d) \<and> map snd d = [0..<length d]"

lemma dict_ok_empty [simp]: "dict_ok []"
  by (simp add: dict_ok_def)

lemma dict_ok_snoc: "dict_ok d \<Longrightarrow> map_of d g = None \<Longrightarrow> dict_ok (d @ [(g, length d)])"
  by (auto simp: dict_ok_def map_of_eq_None_iff)

lemma dict_id_less: "dict_ok d \<Longrightarrow> map_of d g = Some i \<Longrightarrow> i < length d"
proof -
  assume ok: "dict_ok d" and "map_of d g = Some i"
  then have "(g, i) \<in> set d" by (simp add: map_of_SomeD)
  then have "i \<in> set (map snd d)" by force
  moreover have "map snd d = [0..<length d]" using ok by (simp add: dict_ok_def)
  ultimately show ?thesis by (metis atLeastLessThan_iff set_upt)
qed

lemma dict_inj:
  assumes "dict_ok d" and "map_of d g = Some i" and "map_of d h = Some i"
  shows "g = h"
proof -
  have d: "distinct (map snd d)" using assms(1) by (simp add: dict_ok_def)
  have "(g, i) \<in> set d" "(h, i) \<in> set d" using assms(2,3) by (simp_all add: map_of_SomeD)
  then show ?thesis using d by (metis distinct_map fst_conv inj_onD snd_conv)
qed

text \<open>A later dictionary keeps the ids and gives new n-grams ids past the old ones.\<close>

definition extends :: "dictionary \<Rightarrow> dictionary \<Rightarrow> bool" where
  "extends d d' \<longleftrightarrow> (\<exists>new. d' = d @ new)"

lemma extends_refl [simp]: "extends d d"
  by (simp add: extends_def)

lemma extends_trans: "extends d d' \<Longrightarrow> extends d' d'' \<Longrightarrow> extends d d''"
  by (auto simp: extends_def)

lemma extends_length: "extends d d' \<Longrightarrow> length d \<le> length d'"
  by (auto simp: extends_def)

lemma extends_lookup:
  assumes "extends d d'" and "dict_ok d'"
  shows "map_of d g = Some i \<longleftrightarrow> map_of d' g = Some i \<and> i < length d"
proof -
  obtain new where d': "d' = d @ new" using assms(1) by (auto simp: extends_def)
  have "map snd d @ map snd new = [0..<length d + length new]" using assms(2) by (simp add: dict_ok_def d')
  also have "\<dots> = [0..<length d] @ [length d..<length d + length new]" by (rule upt_add_eq_append) simp
  finally have ids: "map snd d = [0..<length d]" "map snd new = [length d..<length d + length new]" by simp_all
  have ok: "dict_ok d" using assms(2) ids(1) by (simp add: dict_ok_def d')
  show ?thesis
  proof
    assume g: "map_of d g = Some i"
    then have "map_of d' g = Some i" unfolding d' using assms(2) by (simp add: dict_ok_def d' map_add_def split: option.split)
    then show "map_of d' g = Some i \<and> i < length d" using dict_id_less [OF ok g] by simp
  next
    assume g: "map_of d' g = Some i \<and> i < length d"
    have "(g, i) \<in> set d'" by (rule map_of_SomeD [OF conjunct1 [OF g]])
    then have "(g, i) \<in> set d \<or> (g, i) \<in> set new" by (simp add: d')
    moreover have "(g, i) \<notin> set new"
    proof
      assume "(g, i) \<in> set new"
      then have "i \<in> set (map snd new)" by force
      then show False using g unfolding ids(2) by simp
    qed
    ultimately show "map_of d g = Some i" using ok by (simp add: dict_ok_def)
  qed
qed

lemma dictionary_ids_spec:
  "dict_ok d \<Longrightarrow> dictionary_ids gs d = (ids, d') \<Longrightarrow>
     dict_ok d' \<and> extends d d' \<and> map Some ids = map (map_of d') gs"
proof (induction gs d arbitrary: ids d' rule: dictionary_ids.induct)
  case (1 d)
  then show ?case by simp
next
  case (2 g gs d)
  show ?case
  proof (cases "map_of d g")
    case (Some i)
    then obtain ids' where r: "dictionary_ids gs d = (ids', d')" "ids = i # ids'"
      using "2.prems"(2) by (auto split: prod.splits)
    have h: "dict_ok d' \<and> extends d d' \<and> map Some ids' = map (map_of d') gs"
      using "2.IH"(2) [OF Some "2.prems"(1) r(1)] .
    then have "map_of d' g = Some i" using Some extends_lookup by metis
    then show ?thesis using h r(2) by simp
  next
    case None
    let ?d = "d @ [(g, length d)]"
    obtain ids' where r: "dictionary_ids gs ?d = (ids', d')" "ids = length d # ids'"
      using "2.prems"(2) None by (auto split: prod.splits)
    have ok: "dict_ok ?d" by (rule dict_ok_snoc [OF "2.prems"(1) None])
    have h: "dict_ok d' \<and> extends ?d d' \<and> map Some ids' = map (map_of d') gs"
      using "2.IH"(1) [OF None ok r(1)] .
    have "map_of ?d g = Some (length d)" using None by (simp add: map_add_def)
    then have "map_of d' g = Some (length d)" using h extends_lookup by metis
    moreover have "extends d ?d" by (simp add: extends_def)
    ultimately show ?thesis using h r(2) extends_trans by auto
  qed
qed

lemma distinct_characterNgrams [simp]: "distinct (characterNgrams t)"
  by (simp add: characterNgrams_def Let_def)

definition ids_below :: "nat \<Rightarrow> nat list \<Rightarrow> bool" where
  "ids_below n ids \<longleftrightarrow> sorted ids \<and> distinct ids \<and> (\<forall>i \<in> set ids. i < n)"

lemma ids_below_mono: "ids_below m ids \<Longrightarrow> m \<le> n \<Longrightarrow> ids_below n ids"
  by (auto simp: ids_below_def)

lemma catalogNgramIds_spec:
  assumes "dict_ok d" and "catalogNgramIds t d = (ids, d')"
  shows "dict_ok d' \<and> extends d d' \<and> ids_below (length d') ids"
proof -
  obtain raw where raw: "dictionary_ids (characterNgrams t) d = (raw, d')" "ids = sort raw"
    using assms(2) by (auto simp: catalogNgramIds_def Let_def split: prod.splits)
  have s: "dict_ok d' \<and> extends d d' \<and> map Some raw = map (map_of d') (characterNgrams t)"
    by (rule dictionary_ids_spec [OF assms(1) raw(1)])
  have "distinct (map (map_of d') (characterNgrams t))"
  proof (subst distinct_map, intro conjI inj_onI)
    fix g h assume gh: "g \<in> set (characterNgrams t)" "h \<in> set (characterNgrams t)" "map_of d' g = map_of d' h"
    have "map_of d' g \<in> set (map Some raw)" using gh(1) s by simp
    then obtain i where "map_of d' g = Some i" by auto
    then show "g = h" using dict_inj gh(3) s by metis
  qed simp
  then have d: "distinct raw" using s by (metis distinct_map)
  have "i < length d'" if "i \<in> set raw" for i
  proof -
    have "Some i \<in> set (map (map_of d') (characterNgrams t))" using s that by (metis imageI list.set_map)
    then obtain g where "map_of d' g = Some i" by auto
    then show ?thesis using dict_id_less s by blast
  qed
  then show ?thesis using s d by (simp add: ids_below_def raw(2))
qed

section \<open>The index of a catalog\<close>

definition fields_ok :: "nat \<Rightarrow> weighted_field list \<Rightarrow> bool" where
  "fields_ok n fs \<longleftrightarrow> (\<forall>f \<in> set fs. ids_below n (wf_ngramIds f))"

lemma fields_ok_mono: "fields_ok m fs \<Longrightarrow> m \<le> n \<Longrightarrow> fields_ok n fs"
  using ids_below_mono by (auto simp: fields_ok_def)

lemma appendFields_spec:
  "dict_ok d \<Longrightarrow> fields_ok (length d) target \<Longrightarrow> appendFields lx f ts (target, d) = (fs, d') \<Longrightarrow>
     dict_ok d' \<and> extends d d' \<and> fields_ok (length d') fs"
proof (induction ts arbitrary: target d)
  case Nil
  then show ?case by simp
next
  case (Cons t ts)
  let ?n = "normalizeLexicalText lx t"
  show ?case
  proof (cases "0 < length (tokenizeLexicalText lx ?n)")
    case False
    then show ?thesis using Cons by (simp add: Let_def)
  next
    case True
    obtain ids d1 where ids: "catalogNgramIds ?n d = (ids, d1)" by fastforce
    have s: "dict_ok d1 \<and> extends d d1 \<and> ids_below (length d1) ids" by (rule catalogNgramIds_spec [OF Cons.prems(1) ids])
    have "fields_ok (length d1) target" using Cons.prems(2) s fields_ok_mono extends_length by blast
    then have "fields_ok (length d1) (target @ [\<lparr>wf_field = f, wf_text = t, wf_weight = FIELD_WEIGHTS f,
        wf_tokens = tokenizeLexicalText lx ?n, wf_ngramIds = ids\<rparr>])"
      using s by (simp add: fields_ok_def)
    from Cons.IH [OF _ this] s Cons.prems(3) True ids show ?thesis
      by (auto simp: Let_def intro: extends_trans)
  qed
qed

lemma card_fields_spec:
  assumes ok: "dict_ok d" and "card_fields lx c d = (fs, d')"
  shows "dict_ok d' \<and> extends d d' \<and> fields_ok (length d') fs"
proof -
  let ?m = "ce_meaning c"
  obtain f1 d1 where 1: "appendFields lx KeywordSignal (cm_keywords ?m) ([], d) = (f1, d1)" by fastforce
  obtain f2 d2 where 2: "appendFields lx AliasSignal (cm_aliases ?m) (f1, d1) = (f2, d2)" by fastforce
  obtain f3 d3 where 3: "appendFields lx QuestionSignal (cm_representativeQuestions ?m) (f2, d2) = (f3, d3)" by fastforce
  obtain f4 d4 where 4: "appendFields lx DescriptionSignal [cm_description ?m] (f3, d3) = (f4, d4)" by fastforce
  have 5: "appendFields lx ScopeSignal (concat (map scopeSearchValues (ce_scopes c))) (f4, d4) = (fs, d')"
    using assms(2) by (simp add: card_fields_def Let_def 1 2 3 4 del: appendFields.simps)
  have "fields_ok (length d) []" by (simp add: fields_ok_def)
  note s1 = appendFields_spec [OF ok this 1]
  note s2 = appendFields_spec [OF conjunct1 [OF s1] conjunct2 [OF conjunct2 [OF s1]] 2]
  note s3 = appendFields_spec [OF conjunct1 [OF s2] conjunct2 [OF conjunct2 [OF s2]] 3]
  note s4 = appendFields_spec [OF conjunct1 [OF s3] conjunct2 [OF conjunct2 [OF s3]] 4]
  note s5 = appendFields_spec [OF conjunct1 [OF s4] conjunct2 [OF conjunct2 [OF s4]] 5]
  show ?thesis using s1 s2 s3 s4 s5 extends_trans by blast
qed

lemma indexCard_spec:
  assumes "dict_ok d" and "indexCard lx c d = (ix, d')"
  shows "dict_ok d' \<and> extends d d' \<and> fields_ok (length d') (ix_fields ix) \<and> ix_card ix = c \<and>
    ix_termFrequency ix = term_frequency (ix_fields ix) \<and> ix_weakIndirect ix = None \<and>
    ix_noScore ix = \<lparr>qs_cardId = ce_cardId c, qs_versionId = ce_versionId c, qs_score = Finite 0, qs_signals = []\<rparr>"
proof -
  obtain fs e where fs: "card_fields lx c d = (fs, e)" by fastforce
  have "e = d' \<and> ix_fields ix = fs \<and> ix_card ix = c \<and> ix_termFrequency ix = term_frequency fs \<and> ix_weakIndirect ix = None \<and>
      ix_noScore ix = \<lparr>qs_cardId = ce_cardId c, qs_versionId = ce_versionId c, qs_score = Finite 0, qs_signals = []\<rparr>"
    using assms(2) by (auto simp: indexCard_def Let_def fs)
  then show ?thesis using card_fields_spec [OF assms(1) fs] by simp
qed

text \<open>What the index of a Card looks like, whatever dictionary it was made with.\<close>

definition index_ok :: "nat \<Rightarrow> approved_card \<Rightarrow> indexed_card \<Rightarrow> bool" where
  "index_ok n c ix \<longleftrightarrow> fields_ok n (ix_fields ix) \<and> ix_card ix = c \<and>
     ix_termFrequency ix = term_frequency (ix_fields ix) \<and> ix_weakIndirect ix = None \<and>
     ix_noScore ix = \<lparr>qs_cardId = ce_cardId c, qs_versionId = ce_versionId c, qs_score = Finite 0, qs_signals = []\<rparr>"

lemma index_cards_spec:
  "dict_ok d \<Longrightarrow> index_cards lx cs d = (ixs, d') \<Longrightarrow>
     dict_ok d' \<and> extends d d' \<and> list_all2 (index_ok (length d')) cs ixs"
proof (induction cs arbitrary: d ixs)
  case Nil
  then show ?case by simp
next
  case (Cons c cs)
  obtain ix d1 where ix: "indexCard lx c d = (ix, d1)" by fastforce
  obtain rest where rest: "index_cards lx cs d1 = (rest, d')" "ixs = ix # rest"
    using Cons.prems(2) ix by (auto split: prod.splits)
  note s = indexCard_spec [OF Cons.prems(1) ix]
  then have ok1: "dict_ok d1" by blast
  note h = Cons.IH [OF ok1 rest(1)]
  have "length d1 \<le> length d'" using h extends_length by blast
  then have "index_ok (length d') c ix" using s fields_ok_mono by (auto simp: index_ok_def)
  then show ?case using s h rest(2) extends_trans by auto
qed

lemma index_cards_append:
  "index_cards lx (cs @ ds) d =
     (let (a, d1) = index_cards lx cs d; (b, d2) = index_cards lx ds d1 in (a @ b, d2))"
  by (induction cs arbitrary: d) (auto split: prod.splits)

lemma catalog_cards:
  "list_all2 (index_ok (length (ci_ngramIds (buildCatalogIndex lx cards)))) cards (ci_cards (buildCatalogIndex lx cards))"
proof -
  obtain ixs d where i: "index_cards lx cards [] = (ixs, d)" by fastforce
  then show ?thesis using index_cards_spec [OF dict_ok_empty i] by (simp add: buildCatalogIndex_def)
qed

section \<open>A Card without query vocabulary\<close>

lemma frequency_keys_tokens:
  "map_of (fold (add_frequency w) ts m) t = None \<longleftrightarrow> map_of m t = None \<and> t \<notin> set ts"
  by (induction ts arbitrary: m) (auto simp: add_frequency_def update_conv')

lemma term_frequency_keys:
  "map_of (term_frequency fs) t = None \<longleftrightarrow> (\<forall>f \<in> set fs. t \<notin> set (wf_tokens f))"
proof -
  have "map_of (fold (\<lambda>f m. fold (add_frequency (wf_weight f)) (wf_tokens f) m) fs m) t = None \<longleftrightarrow>
      map_of m t = None \<and> (\<forall>f \<in> set fs. t \<notin> set (wf_tokens f))" for m
    by (induction fs arbitrary: m) (auto simp: frequency_keys_tokens)
  then show ?thesis by (simp add: term_frequency_def)
qed

lemma starts_with_hangul: "starts_with x t \<Longrightarrow> list_ex p t \<Longrightarrow> list_ex p x"
  unfolding starts_with_def list_ex_iff by (metis in_set_takeD)

lemma unrelated_token:
  assumes tf: "ix_termFrequency ix = term_frequency (ix_fields ix)"
    and un: "\<not> indexedCardContainsAnyQueryToken lx ix qts"
    and f: "f \<in> set (ix_fields ix)" and t: "t \<in> set (wf_tokens f)"
  shows "\<not> queryContainsDeclaredToken lx qts t"
proof
  assume "queryContainsDeclaredToken lx qts t"
  then obtain x where x: "x \<in> set qts" "x = t \<or> stem_of lx x t"
    by (auto simp: queryContainsDeclaredToken_def list_ex_iff)
  have "map_of (ix_termFrequency ix) t \<noteq> None" unfolding tf term_frequency_keys using f t by blast
  then have key: "t \<in> set (map fst (ix_termFrequency ix))" by (simp add: map_of_eq_None_iff)
  have "indexedCardContainsQueryToken lx ix x"
  proof (cases "x = t")
    case True
    then show ?thesis using \<open>map_of (ix_termFrequency ix) t \<noteq> None\<close> by (simp add: indexedCardContainsQueryToken_def)
  next
    case False
    then have s: "stem_of lx x t" using x(2) by simp
    then have "list_ex (lx_hangul lx) x" unfolding stem_of_def using starts_with_hangul by blast
    then show ?thesis using s key by (auto simp: indexedCardContainsQueryToken_def list_ex_iff)
  qed
  then show False using un x(1) by (auto simp: indexedCardContainsAnyQueryToken_def list_ex_iff)
qed

lemma js_set_length_0: "length (js_set xs) = 0 \<longleftrightarrow> xs = []"
  by (metis length_0_conv set_empty set_js_set)

lemma unrelated_count:
  assumes "ix_termFrequency ix = term_frequency (ix_fields ix)"
    and "\<not> indexedCardContainsAnyQueryToken lx ix (qa_tokens q)"
  shows "matchedDeclaredFieldCount lx q (ix_fields ix) = 0"
proof -
  have "wf_tokens f = []" if f: "f \<in> set (ix_fields ix)" "list_all (queryContainsDeclaredToken lx (qa_tokens q)) (wf_tokens f)" for f
    using unrelated_token [OF assms f(1)] f(2) by (cases "wf_tokens f") auto
  then have "concat (map wf_tokens (filter (\<lambda>f. is_declared f \<and> \<not> isOpaqueDeclaredIdentifier (wf_text f) \<and>
       list_all (queryContainsDeclaredToken lx (qa_tokens q)) (wf_tokens f)) (ix_fields ix))) = []"
    by auto
  then show ?thesis unfolding matchedDeclaredFieldCount_def js_set_length_0 .
qed

definition unrelated :: "lexicon \<Rightarrow> string list \<Rightarrow> indexed_card \<Rightarrow> bool" where
  "unrelated lx tokens ix \<longleftrightarrow> ix_termFrequency ix = term_frequency (ix_fields ix) \<and>
     \<not> indexedCardContainsAnyQueryToken lx ix tokens"

lemma set_uniqueInOrder [simp]: "set (uniqueInOrder xs) = set xs"
  by (simp add: uniqueInOrder_def)

lemma contains_cong: "set xs = set ys \<Longrightarrow> indexedCardContainsAnyQueryToken lx ix xs = indexedCardContainsAnyQueryToken lx ix ys"
  by (simp add: indexedCardContainsAnyQueryToken_def list_ex_iff)

lemma statistics_unrelated:
  assumes "\<forall>ix \<in> set ds. \<not> indexedCardContainsAnyQueryToken lx ix ts"
  shows "queryRelevantStatistics lx ts (cs @ ds) = queryRelevantStatistics lx ts cs"
proof -
  have "fold (statistics_step lx ts) ds st = st" for st
    using assms by (induction ds arbitrary: st) (auto simp: statistics_step_def)
  then show ?thesis by (simp add: queryRelevantStatistics_def)
qed

lemma competition_unrelated:
  assumes "\<forall>ix \<in> set ds. unrelated lx (qa_tokens q) ix"
  shows "directEvidenceCompetition lx q (cs @ ds) = directEvidenceCompetition lx q cs"
proof -
  have "fold (competition_step lx q) ds st = st" for st
    using assms
    by (induction ds arbitrary: st) (auto simp: competition_step_def unrelated_def unrelated_count Let_def)
  then show ?thesis by (simp add: directEvidenceCompetition_def)
qed

section \<open>The n-grams of the query in a longer dictionary\<close>

lemma set_map_filter: "set (List.map_filter f xs) = {y. \<exists>x \<in> set xs. f x = Some y}"
  by (induction xs) (auto simp: map_filter_simps split: option.split)

lemma queryNgrams_ids:
  assumes "dict_ok d"
  shows "sorted (qn_knownIds (queryNgrams t d))" "distinct (qn_knownIds (queryNgrams t d))"
    "set (qn_knownIds (queryNgrams t d)) = {i. \<exists>g \<in> set (characterNgrams t). map_of d g = Some i}"
proof -
  have "distinct gs \<Longrightarrow> distinct (List.map_filter (map_of d) gs)" for gs
  proof (induction gs)
    case (Cons g gs)
    show ?case
    proof (cases "map_of d g")
      case (Some i)
      have "i \<notin> set (List.map_filter (map_of d) gs)"
      proof
        assume "i \<in> set (List.map_filter (map_of d) gs)"
        then obtain h where "h \<in> set gs" "map_of d h = Some i" by (auto simp: map_filter_def)
        then show False using dict_inj [OF assms Some] Cons.prems by auto
      qed
      then show ?thesis using Cons Some by (simp add: map_filter_simps)
    qed (use Cons in \<open>simp add: map_filter_simps\<close>)
  qed (simp add: map_filter_simps)
  then show "distinct (qn_knownIds (queryNgrams t d))" by (simp add: queryNgrams_def Let_def)
  show "sorted (qn_knownIds (queryNgrams t d))" by (simp add: queryNgrams_def Let_def)
  show "set (qn_knownIds (queryNgrams t d)) = {i. \<exists>g \<in> set (characterNgrams t). map_of d g = Some i}"
    by (simp add: queryNgrams_def Let_def set_map_filter)
qed

lemma dice_extends:
  assumes ext: "extends d d'" and ok: "dict_ok d'" and ok0: "dict_ok d" and ids: "ids_below (length d) ids"
  shows "ngramDice (queryNgrams t d') ids = ngramDice (queryNgrams t d) ids"
proof -
  have r: "sorted ids" "distinct ids" "\<forall>i \<in> set ids. i < length d" using ids by (simp_all add: ids_below_def)
  have "set (qn_knownIds (queryNgrams t d')) \<inter> set ids = set (qn_knownIds (queryNgrams t d)) \<inter> set ids"
    unfolding queryNgrams_ids(3) [OF ok] queryNgrams_ids(3) [OF ok0] using r(3) extends_lookup [OF ext ok] by auto
  then have "shared_ids (qn_knownIds (queryNgrams t d')) ids = shared_ids (qn_knownIds (queryNgrams t d)) ids"
    using shared_ids_card [OF queryNgrams_ids(1,2) [OF ok] r(1,2)] shared_ids_card [OF queryNgrams_ids(1,2) [OF ok0] r(1,2)]
    by simp
  moreover have "qn_size (queryNgrams t d') = qn_size (queryNgrams t d)" by (simp add: queryNgrams_def Let_def)
  ultimately show ?thesis by (simp add: ngramDice_def)
qed

section \<open>What a score depends on\<close>

lemma score_ngrams:
  assumes "\<forall>f \<in> set (ix_fields ix). ngramDice n (wf_ngramIds f) = ngramDice n' (wf_ngramIds f)"
  shows "scoreCard lx (q\<lparr>qa_ngrams := n\<rparr>) st leader ix = scoreCard lx (q\<lparr>qa_ngrams := n'\<rparr>) st leader ix"
proof -
  have f: "\<forall>f \<in> set (ix_fields ix). field_ngram n f = field_ngram n' f" using assms by (simp add: field_ngram_def)
  have "fs \<noteq> [] \<longrightarrow> True \<Longrightarrow> (\<forall>f \<in> set fs. field_ngram n f = field_ngram n' f) \<Longrightarrow>
      foldl (\<lambda>best f. if best < field_ngram n f then field_ngram n f else best) b fs =
      foldl (\<lambda>best f. if best < field_ngram n' f then field_ngram n' f else best) b fs" for b fs
    by (induction fs arbitrary: b) auto
  then have best: "bestNgramContribution n (ix_fields ix) = bestNgramContribution n' (ix_fields ix)"
    using f by (simp add: bestNgramContribution_def)
  have "(\<forall>f \<in> set fs. field_ngram n f = field_ngram n' f) \<Longrightarrow>
      foldl (\<lambda>(bf, bt, bc) f. if bc < field_ngram n f then (wf_field f, wf_text f, field_ngram n f) else (bf, bt, bc)) b fs =
      foldl (\<lambda>(bf, bt, bc) f. if bc < field_ngram n' f then (wf_field f, wf_text f, field_ngram n' f) else (bf, bt, bc)) b fs" for b fs
    by (induction fs arbitrary: b) (auto split: prod.split)
  then have sc: "bestNgramScore n (ix_fields ix) = bestNgramScore n' (ix_fields ix)"
    using f by (simp add: bestNgramScore_def)
  have tokens: "qa_tokens (q\<lparr>qa_ngrams := m\<rparr>) = qa_tokens q" for m by simp
  have step: "scope_token_step lx (q\<lparr>qa_ngrams := n\<rparr>) st = scope_token_step lx (q\<lparr>qa_ngrams := n'\<rparr>) st"
    by (intro ext) (simp add: scope_token_step_def)
  have "match_field lx (q\<lparr>qa_ngrams := n\<rparr>) st = match_field lx (q\<lparr>qa_ngrams := n'\<rparr>) st"
    by (intro ext) (simp only: match_field_def step tokens)
  then have m: "matched_entries lx (q\<lparr>qa_ngrams := n\<rparr>) ix st = matched_entries lx (q\<lparr>qa_ngrams := n'\<rparr>) ix st"
    by (simp add: matched_entries_def)
  have e: "direct_evidence_of lx (q\<lparr>qa_ngrams := n\<rparr>) ix st b leader ms = direct_evidence_of lx (q\<lparr>qa_ngrams := n'\<rparr>) ix st b leader ms"
    for b ms by (simp add: direct_evidence_of_def)
  have col: "collectDirectSignals lx (q\<lparr>qa_ngrams := n\<rparr>) ix st b leader = collectDirectSignals lx (q\<lparr>qa_ngrams := n'\<rparr>) ix st b leader" for b
    unfolding collectDirectSignals_def m e ..
  have u: "qa_uniqueTokens (q\<lparr>qa_ngrams := m\<rparr>) = qa_uniqueTokens q" "qa_ngrams (q\<lparr>qa_ngrams := m\<rparr>) = m" for m by simp_all
  show ?thesis unfolding scoreCard_def tokens u col best sc ..
qed

end
