(* ===== verification/Hybrid_Laws.thy ===== *)
theory Hybrid_Laws
  imports Hybrid_Ranking
begin

text \<open>
  The comparator of the lexical candidates orders them by score and version, so the bounded list is the
  prefix of a stable sort.
\<close>

definition finite_score :: "js_number \<Rightarrow> rat" where
  "finite_score x = (case x of Finite q \<Rightarrow> q | _ \<Rightarrow> 0)"

definition lexical_key :: "candidate_score \<Rightarrow> rat \<times> string" where
  "lexical_key c = (- finite_score (qs_score c), qs_versionId c)"

definition all_finite :: "candidate_score list \<Rightarrow> bool" where
  "all_finite cs \<longleftrightarrow> (\<forall>c \<in> set cs. is_finite (qs_score c))"

lemma finiteE: "is_finite x \<Longrightarrow> \<exists>q. x = Finite q"
  by (cases x) (auto simp: is_finite_def)

lemma is_finite_Finite [simp]: "is_finite (Finite q)"
  by (simp add: is_finite_def)

lemma compare_less:
  assumes "is_finite (qs_score c)" and "is_finite (qs_score d)"
  shows "js_less (compareLexical c d) (Finite 0) \<longleftrightarrow> lexical_key c < lexical_key d"
proof -
  obtain p q where "qs_score c = Finite p" "qs_score d = Finite q" using assms finiteE by metis
  then show ?thesis
    by (auto simp: compareLexical_def lexical_key_def finite_score_def less_prod_def not_less_iff_gr_or_eq)
qed

lemma compare_ge:
  assumes "is_finite (qs_score c)" and "is_finite (qs_score d)"
  shows "js_less_eq (Finite 0) (compareLexical c d) \<longleftrightarrow> lexical_key d \<le> lexical_key c"
proof -
  obtain p q where "qs_score c = Finite p" "qs_score d = Finite q" using assms finiteE by metis
  then show ?thesis
    by (auto simp: compareLexical_def lexical_key_def finite_score_def less_eq_prod_def less_prod_def)
qed

interpretation lexical: keyed_comparison compareLexical "\<lambda>c. is_finite (qs_score c)" lexical_key
  by unfold_locales (rule compare_less, assumption+, rule compare_ge, assumption+)

lemma topLexical_prefix:
  assumes "all_finite cs"
  shows "topLexical cs limit = take limit (sort_key lexical_key cs)"
  using assms lexical.bounded_prefix [of cs limit] by (cases "limit = 0") (simp_all add: topLexical_def all_finite_def)

end
