(* ===== verification/Hybrid_Properties.thy ===== *)
theory Hybrid_Properties
  imports Hybrid_Laws Selection_Verdict
begin

text \<open>
  What switching embeddings on can change, and that the bounded candidate list is the prefix
  of the full ranking.
\<close>

definition unit_score :: "js_number \<Rightarrow> bool" where
  "unit_score x \<longleftrightarrow> (\<exists>p. x = Finite p \<and> 0 \<le> p \<and> p \<le> 1)"

lemma raw_score: "\<exists>r. (case similarity of None \<Rightarrow> Finite 0 | Some s \<Rightarrow> semanticScoreFor s) = Finite r \<and> 0 \<le> r \<and> r \<le> 1"
proof (cases similarity)
  case (Some s)
  then show ?thesis by (cases s) (auto simp: semanticScoreFor_def policy_values is_finite_def)
qed simp

lemma combine_unit:
  "0 \<le> p \<Longrightarrow> p \<le> 1 \<Longrightarrow> 0 \<le> r \<Longrightarrow> r \<le> 1 \<Longrightarrow> combineHybridScore (Finite p) (Finite r) = Finite (max p r)"
  by (auto simp: combineHybridScore_def clampToUnitInterval_def)

lemma combined_unit:
  assumes "unit_score p" and "unit_score r"
  shows "unit_score (combineHybridScore p r)" and "js_less_eq p (combineHybridScore p r)"
  using assms by (auto simp: unit_score_def combine_unit)

text \<open>The Card the semantic path puts first, with a similarity that can count.\<close>

definition semantic_lead :: "hybrid_input \<Rightarrow> candidate_score \<Rightarrow> bool" where
  "semantic_lead input c \<longleftrightarrow> (\<exists>e es. hy_semantic input = e # es \<and> sy_cardVersionId e = qs_versionId c \<and>
     js_less_eq (Finite (8 / 10)) (sy_similarity e))"

text \<open>The only Card with the strongest lexical score, which is already close to admission.\<close>

definition lexical_lead :: "hybrid_input \<Rightarrow> candidate_score \<Rightarrow> bool" where
  "lexical_lead input c \<longleftrightarrow> js_less_eq (Finite (8 / 10)) (qs_score c) \<and>
     (\<exists>d. filter (\<lambda>d. js_eq (qs_score d) (pr_strongestLexicalScore (prepareHybridRanking input))) (hy_lexical input) = [d] \<and>
        qs_versionId d = qs_versionId c)"

lemma semantic_score_bands:
  "\<exists>r. semanticScoreForCandidate c (prepareHybridRanking input) similarity = Finite r \<and> 0 \<le> r \<and> r \<le> 1 \<and>
     (34 / 100 < r \<longrightarrow> 85 / 100 \<le> r \<and> (semantic_lead input c \<or> lexical_lead input c))"
proof -
  let ?ctx = "prepareHybridRanking input"
  let ?raw = "case similarity of None \<Rightarrow> Finite 0 | Some s \<Rightarrow> semanticScoreFor s"
  obtain r where r: "?raw = Finite r" "0 \<le> r" "r \<le> 1" using raw_score by blast
  have up: "js_max ?raw SEMANTIC_CONFIDENT_SCORE = Finite (max r (85 / 100))"
    and down: "js_min ?raw SEMANTIC_SECONDARY_SCORE_CEILING = Finite (min r (34 / 100))"
    unfolding r(1) by (simp_all add: policy_values)
  have low: "\<exists>q. Finite (min r (34 / 100)) = Finite q \<and> 0 \<le> q \<and> q \<le> 1 \<and>
      (34 / 100 < q \<longrightarrow> 85 / 100 \<le> q \<and> (semantic_lead input c \<or> lexical_lead input c))"
    using r by auto
  have high: "\<exists>q. Finite (max r (85 / 100)) = Finite q \<and> 0 \<le> q \<and> q \<le> 1 \<and>
      (34 / 100 < q \<longrightarrow> 85 / 100 \<le> q \<and> (semantic_lead input c \<or> lexical_lead input c))"
    if "semantic_lead input c \<or> lexical_lead input c"
    using r that by auto
  show ?thesis
  proof (cases "agreed_lead c ?ctx similarity")
    case True
    then have "Some (qs_versionId c) = pr_leadingLexicalVersionId ?ctx" "js_less_eq (Finite (8 / 10)) (qs_score c)"
      by (simp_all add: agreed_lead_def policy_values)
    then have "lexical_lead input c"
      unfolding lexical_lead_def
      by (auto simp: prepareHybridRanking_def Let_def length_Suc_conv split: if_splits)
    then show ?thesis using True up high by (simp add: semanticScoreForCandidate_def Let_def)
  next
    case no_agreement: False
    show ?thesis
    proof (cases "Some (qs_versionId c) = pr_leadingSemanticVersionId ?ctx \<and> pr_leadingSemanticSimilarity ?ctx \<noteq> None")
      case False
      then have "semanticScoreForCandidate c ?ctx similarity = js_min ?raw SEMANTIC_SECONDARY_SCORE_CEILING"
        using no_agreement
        by (cases "Some (qs_versionId c) = pr_leadingSemanticVersionId ?ctx"; cases "pr_leadingSemanticSimilarity ?ctx")
          (simp_all add: semanticScoreForCandidate_def Let_def)
      then show ?thesis using low down by simp
    next
      case True
      then obtain e es where e: "hy_semantic input = e # es" "sy_cardVersionId e = qs_versionId c"
        by (cases "hy_semantic input") (auto simp: prepareHybridRanking_def nth_option_def Let_def)
      then have lead: "pr_leadingSemanticSimilarity ?ctx = Some (sy_similarity e)"
        by (simp add: prepareHybridRanking_def nth_option_def Let_def)
      have score: "semanticScoreForCandidate c ?ctx similarity = confidentLeadingSemanticScore (qs_score c) ?raw
          (sy_similarity e) (pr_runnerUpSemanticSimilarity ?ctx) (pr_strongestLexicalScore ?ctx)"
        using no_agreement True lead by (simp add: semanticScoreForCandidate_def Let_def)
      show ?thesis
      proof (cases "js_less_eq (Finite (8 / 10)) (sy_similarity e)")
        case big: True
        then have "semantic_lead input c" using e by (auto simp: semantic_lead_def)
        then show ?thesis unfolding score confidentLeadingSemanticScore_def Let_def up down
          using low high by (simp split: if_split)
      next
        case small: False
        then have "\<not> js_less_eq SEMANTIC_ABSOLUTE_ADMIT_FLOOR (sy_similarity e)"
          "\<not> js_less SEMANTIC_SIMILARITY_FLOOR (sy_similarity e)"
          by (cases "sy_similarity e"; simp add: policy_values js_less_def)+
        then show ?thesis unfolding score confidentLeadingSemanticScore_def Let_def up down
          using small low by (simp add: policy_values)
      qed
    qed
  qed
qed

abbreviation default_verdict :: "js_number \<Rightarrow> selection_verdict" where
  "default_verdict score \<equiv> oc_verdict (judgeOrdinaryCandidate (\<lambda>_. [])
     DEFAULT_SELECTION_THRESHOLDS \<lparr>sn_cardId = [], sn_versionId = [], sn_score = score\<rparr>)"

lemma default_bands: "default_verdict (Finite q) = (if 85 / 100 \<le> q then Admit else if q \<le> 35 / 100 then Reject else Defer)"
  by (simp add: judge_verdict DEFAULT_SELECTION_THRESHOLDS_def)

text \<open>
  C31: for lexical scores between 0 and 1, switching embeddings on keeps every candidate in its
  place with its identity and its signals, never lowers a score and keeps it between 0 and 1. Under the
  default thresholds the verdict of a candidate can only change to an admission, and only for
  the Card the semantic path puts first, with a similarity of at least 0.8, or for the
  only Card with the strongest lexical score, from 0.8 on. The compact path returns the same scores.
\<close>
theorem embeddings_only_admit_leaders:
  assumes "\<forall>c \<in> set (hy_lexical input). unit_score (qs_score c)"
  shows "list_all2 (\<lambda>c h. qs_cardId h = qs_cardId c \<and> qs_versionId h = qs_versionId c \<and> qs_signals h = qs_signals c \<and>
      hc_lexicalScore h = qs_score c \<and> unit_score (qs_score h) \<and> js_less_eq (qs_score c) (qs_score h) \<and>
      (default_verdict (qs_score h) \<noteq> default_verdict (qs_score c) \<longrightarrow>
         default_verdict (qs_score h) = Admit \<and> (semantic_lead input c \<or> lexical_lead input c)))
    (hy_lexical input) (rankHybridCandidates input) \<and>
    rankHybridCandidateScores input = map candidate_score.truncate (rankHybridCandidates input)"
proof
  let ?ctx = "prepareHybridRanking input"
  have step: "unit_score (qs_score (hybrid_candidate_of ?ctx c)) \<and> js_less_eq (qs_score c) (qs_score (hybrid_candidate_of ?ctx c)) \<and>
      (default_verdict (qs_score (hybrid_candidate_of ?ctx c)) \<noteq> default_verdict (qs_score c) \<longrightarrow>
         default_verdict (qs_score (hybrid_candidate_of ?ctx c)) = Admit \<and> (semantic_lead input c \<or> lexical_lead input c))"
    if "c \<in> set (hy_lexical input)" for c
  proof -
    obtain p where p: "qs_score c = Finite p" "0 \<le> p" "p \<le> 1" using assms \<open>c \<in> _\<close> by (auto simp: unit_score_def)
    obtain r where r: "semanticScoreForCandidate c ?ctx (semanticSimilarityForCandidate c ?ctx) = Finite r" "0 \<le> r" "r \<le> 1"
      "34 / 100 < r \<longrightarrow> 85 / 100 \<le> r \<and> (semantic_lead input c \<or> lexical_lead input c)"
      using semantic_score_bands by blast
    have h: "qs_score (hybrid_candidate_of ?ctx c) = Finite (max p r)"
      using r p by (simp add: hybrid_candidate_of_def Let_def combine_unit)
    show ?thesis unfolding h p(1) default_bands using p(2,3) r(2-4) by (auto simp: unit_score_def)
  qed
  have all2: "(\<And>c. c \<in> set cs \<Longrightarrow> P c (f c)) \<Longrightarrow> list_all2 P cs (map f cs)"
    for P :: "candidate_score \<Rightarrow> hybrid_candidate \<Rightarrow> bool" and f cs
    by (induction cs) simp_all
  show "list_all2 (\<lambda>c h. qs_cardId h = qs_cardId c \<and> qs_versionId h = qs_versionId c \<and> qs_signals h = qs_signals c \<and>
      hc_lexicalScore h = qs_score c \<and> unit_score (qs_score h) \<and> js_less_eq (qs_score c) (qs_score h) \<and>
      (default_verdict (qs_score h) \<noteq> default_verdict (qs_score c) \<longrightarrow>
         default_verdict (qs_score h) = Admit \<and> (semantic_lead input c \<or> lexical_lead input c)))
    (hy_lexical input) (rankHybridCandidates input)"
    unfolding rankHybridCandidates_def Let_def
    by (rule all2) (use step in \<open>simp add: hybrid_candidate_of_def Let_def\<close>)
  have eq: "js_eq x y \<Longrightarrow> x = y" for x y by (cases x) auto
  have "(if js_eq s (qs_score c) then c else c\<lparr>qs_score := s\<rparr>) =
      \<lparr>qs_cardId = qs_cardId c, qs_versionId = qs_versionId c, qs_score = s, qs_signals = qs_signals c\<rparr>" for s c
    using eq [of s "qs_score c"] by (cases c) auto
  then show "rankHybridCandidateScores input = map candidate_score.truncate (rankHybridCandidates input)"
    by (auto simp: rankHybridCandidateScores_def rankHybridCandidates_def hybrid_candidate_of_def Let_def
        candidate_score.truncate_def)
qed

theorem embeddings_only_admit_leaders_witness:
  "rankHybridCandidateScores \<lparr>hy_lexical = [\<lparr>qs_cardId = ''c'', qs_versionId = ''v'', qs_score = Finite (1 / 5), qs_signals = []\<rparr>],
      hy_semantic = [\<lparr>sy_cardId = ''c'', sy_cardVersionId = ''v'', sy_similarity = Finite (95 / 100)\<rparr>], hy_lexicalTopK = 1\<rparr> =
    map candidate_score.truncate (rankHybridCandidates
      \<lparr>hy_lexical = [\<lparr>qs_cardId = ''c'', qs_versionId = ''v'', qs_score = Finite (1 / 5), qs_signals = []\<rparr>],
       hy_semantic = [\<lparr>sy_cardId = ''c'', sy_cardVersionId = ''v'', sy_similarity = Finite (95 / 100)\<rparr>], hy_lexicalTopK = 1\<rparr>)"
proof (rule embeddings_only_admit_leaders [THEN conjunct2])
  have "unit_score (Finite (1 / 5))" unfolding unit_score_def by (rule exI [of _ "1 / 5"]) simp
  then show "\<forall>c \<in> set (hy_lexical \<lparr>hy_lexical = [\<lparr>qs_cardId = ''c'', qs_versionId = ''v'', qs_score = Finite (1 / 5), qs_signals = []\<rparr>],
      hy_semantic = [\<lparr>sy_cardId = ''c'', sy_cardVersionId = ''v'', sy_similarity = Finite (95 / 100)\<rparr>], hy_lexicalTopK = 1\<rparr>). unit_score (qs_score c)"
    by (simp del: divide_eq_eq)
qed

text \<open>
  The strongest lexical candidates, collected by binary insertion into a list that never
  grows past the limit, are the first ones of the whole ranking by score and card version; ties keep
  the order in which they came.
\<close>
theorem topLexical_is_the_top:
  assumes "\<forall>c \<in> set cs. is_finite (qs_score c)"
  shows "topLexical cs limit = take limit (sort_key lexical_key cs)"
  using assms by (intro topLexical_prefix) (simp add: all_finite_def)

theorem topLexical_is_the_top_witness:
  "topLexical [\<lparr>qs_cardId = ''c'', qs_versionId = ''v'', qs_score = Finite (1 / 5), qs_signals = []\<rparr>] 3 =
    take 3 (sort_key lexical_key [\<lparr>qs_cardId = ''c'', qs_versionId = ''v'', qs_score = Finite (1 / 5), qs_signals = []\<rparr>])"
  by (rule topLexical_is_the_top) simp

end
