(* ===== verification/Scoring_Properties.thy ===== *)
theory Scoring_Properties
  imports Scoring_Laws Hybrid_Properties
begin

text \<open>
  What lexical scoring promises: its scores and bands, the equality of the subset pass and the
  complete pass, and that unrelated Cards change no score.
\<close>

section \<open>A sample lexicon and catalog\<close>

definition latin_lexicon :: lexicon where
  "latin_lexicon = \<lparr>lx_nfkc = (\<lambda>t. t), lx_hangul = (\<lambda>_. False), lx_koreanStopWords = [], lx_passiveSuffixes = [],
     lx_particles = [], lx_koreanIntents = (\<lambda>_. []), lx_log = (\<lambda>x. x), lx_log1p = (\<lambda>x. x)\<rparr>"

definition plain_card :: "string \<Rightarrow> string \<Rightarrow> approved_card" where
  "plain_card v description = \<lparr>ce_cardId = v, ce_versionId = v,
     ce_meaning = \<lparr>cm_description = description, cm_representativeQuestions = [], cm_aliases = [], cm_keywords = []\<rparr>,
     ce_policy = \<lparr>cp_sensitive = False, cp_allowedUsage = []\<rparr>, ce_scopes = []\<rparr>"

section \<open>Scores and bands\<close>

lemma clamp_unit: "0 \<le> clampScore x \<and> clampScore x \<le> 1"
  by (auto simp: clampScore_def)

lemma normalizeBm25_unit: "0 \<le> normalizeBm25 x \<and> normalizeBm25 x \<le> 1"
  by (auto simp: normalizeBm25_def divide_simps)

lemma best_ngram_nonneg: "0 \<le> bestNgramContribution n fs"
proof -
  have "0 \<le> b \<Longrightarrow> 0 \<le> foldl (\<lambda>best f. if best < field_ngram n f then field_ngram n f else best) b fs" for b
    by (induction fs arbitrary: b) auto
  then show ?thesis by (simp add: bestNgramContribution_def)
qed

lemma direct_score_constant:
  "direct_score (map (\<lambda>e. \<lparr>sg_field = f e, sg_matched = g e, sg_contribution = Finite c\<rparr>) es) =
     (if es = [] then 0 else max 0 c)"
proof -
  have "foldl (\<lambda>m s. case sg_contribution s of Finite c \<Rightarrow> max m c | _ \<Rightarrow> m) b
      (map (\<lambda>e. \<lparr>sg_field = f e, sg_matched = g e, sg_contribution = Finite c\<rparr>) es) = (if es = [] then b else max b c)" for b
    by (induction es arbitrary: b) (auto simp: max_def)
  then show ?thesis by (simp add: direct_score_def)
qed

lemma direct_score_Nil: "direct_score [] = 0"
  by (simp add: direct_score_def)

text \<open>The direct evidence of one Card, as \<open>scoreCard\<close> collects it.\<close>

definition evidence ::
    "lexicon \<Rightarrow> query_analysis \<Rightarrow> query_statistics \<Rightarrow> string option \<Rightarrow> indexed_card \<Rightarrow> direct_evidence" where
  "evidence lx q st leader ix =
     direct_evidence_of lx q ix st (normalizeBm25 (bm25Score lx (qa_uniqueTokens q) ix st)) leader (matched_entries lx q ix st)"

definition strong_evidence :: "direct_evidence \<Rightarrow> bool" where
  "strong_evidence d \<longleftrightarrow> de_wellCorroborated d \<and> \<not> de_weakSingleTerm d \<and> \<not> de_commonTermsWithoutContext d \<and>
     (de_sourceIntentConflict d \<longrightarrow> 17 / 20 \<le> de_strongest d)"

lemma clamp_min: "0 \<le> b \<Longrightarrow> clampScore (min r b) \<le> b"
  by (auto simp: clampScore_def min_def max_def)

lemma weak_contribution:
  assumes "\<not> strong_evidence d"
  shows "direct_contribution d \<le> 84 / 100"
proof -
  have "de_weakSingleTerm d \<or> de_commonTermsWithoutContext d \<or> \<not> de_wellCorroborated d \<or>
      (de_sourceIntentConflict d \<and> de_strongest d < 17 / 20)"
    using assms unfolding strong_evidence_def not_le [symmetric] by blast
  then show ?thesis unfolding direct_contribution_def Let_def if_P [OF \<open>_ \<or> _\<close>] by (intro clamp_min) simp
qed

lemma scoreCard_spec:
  assumes "index_ok n c ix" and s_def: "s = fst (scoreCard lx q st leader ix)"
  shows "qs_cardId s = ce_cardId c \<and> qs_versionId s = ce_versionId c \<and>
    (\<exists>x. qs_score s = Finite x \<and> 0 \<le> x \<and> x \<le> 1 \<and>
      (34 / 100 < x \<longrightarrow> matched_entries lx q ix st \<noteq> []) \<and>
      (84 / 100 < x \<longrightarrow> strong_evidence (evidence lx q st leader ix)))"
proof -
  let ?b = "bm25Score lx (qa_uniqueTokens q) ix st"
  let ?sig = "collectDirectSignals lx q ix st (normalizeBm25 ?b) leader"
  let ?d = "direct_score ?sig"
  let ?i = "min (34 / 100) (3 / 4 * normalizeBm25 ?b + 1 / 4 * bestNgramContribution (qa_ngrams q) (ix_fields ix))"
  have ix: "ix_card ix = c" "ix_weakIndirect ix = None"
    "ix_noScore ix = \<lparr>qs_cardId = ce_cardId c, qs_versionId = ce_versionId c, qs_score = Finite 0, qs_signals = []\<rparr>"
    using assms(1) by (simp_all add: index_ok_def)
  have "0 \<le> ?i" using normalizeBm25_unit [of ?b] best_ngram_nonneg [of "qa_ngrams q" "ix_fields ix"] by simp
  note i = this min.cobounded1 [of "34 / 100" "3 / 4 * normalizeBm25 ?b + 1 / 4 * bestNgramContribution (qa_ngrams q) (ix_fields ix)"]
  have d: "?d = (if matched_entries lx q ix st = [] then 0 else max 0 (direct_contribution (evidence lx q st leader ix)))"
    by (simp add: collectDirectSignals_def direct_score_constant direct_score_Nil evidence_def Let_def)
  have c: "0 \<le> direct_contribution e \<and> direct_contribution e \<le> 1" for e
    unfolding direct_contribution_def Let_def by (rule clamp_unit)
  have d1: "0 \<le> ?d" "?d \<le> 1" unfolding d using c by simp_all
  have d2: "matched_entries lx q ix st \<noteq> []" if "34 / 100 < ?d"
    using that unfolding d by (cases "matched_entries lx q ix st = []") simp_all
  have d3: "strong_evidence (evidence lx q st leader ix)" if big: "84 / 100 < ?d"
  proof (rule ccontr)
    assume "\<not> strong_evidence (evidence lx q st leader ix)"
    then have "direct_contribution (evidence lx q st leader ix) \<le> 84 / 100" by (rule weak_contribution)
    then have "?d \<le> 84 / 100" unfolding d by (simp add: max_def)
    then show False using big by linarith
  qed
  consider (none) "s = ix_noScore ix"
    | (weak) "s = \<lparr>qs_cardId = ce_cardId c, qs_versionId = ce_versionId c, qs_score = Finite ?i, qs_signals = []\<rparr>"
    | (full) "qs_cardId s = ce_cardId c" "qs_versionId s = ce_versionId c" "qs_score s = Finite (clampScore (max ?d ?i))"
  proof (cases "length (qa_tokens q) = 0")
    case True
    then show ?thesis using none by (simp add: s_def scoreCard_def)
  next
    case tokens: False
    show ?thesis
    proof (cases "?d = 0 \<and> ?i = 0")
      case True
      have "s = ix_noScore ix" unfolding s_def scoreCard_def Let_def if_not_P [OF tokens] if_P [OF True] by simp
      then show ?thesis by (rule none)
    next
      case some: False
      show ?thesis
      proof (cases "?d = 0 \<and> ?b = 0 \<and> ?i < 5 / 100")
        case True
        have "s = fst (weakIndirectCandidate ix ?i)"
          unfolding s_def scoreCard_def Let_def if_not_P [OF tokens] if_not_P [OF some] if_P [OF True] ..
        then show ?thesis using weak by (simp add: weakIndirectCandidate_def ix Let_def)
      next
        case False
        have "qs_cardId s = ce_cardId c \<and> qs_versionId s = ce_versionId c \<and> qs_score s = Finite (clampScore (max ?d ?i))"
          unfolding s_def scoreCard_def Let_def if_not_P [OF tokens] if_not_P [OF some] if_not_P [OF False]
          by (simp add: ix split: prod.split)
        then show ?thesis using full by blast
      qed
    qed
  qed
  then show ?thesis
  proof cases
    case none
    then show ?thesis by (simp add: ix)
  next
    case weak
    then show ?thesis using i by auto
  next
    case full
    have "clampScore (max ?d ?i) = max ?d ?i" using d1(1,2) i by (simp add: clampScore_def)
    moreover have "34 / 100 < max ?d ?i \<Longrightarrow> 34 / 100 < ?d" "84 / 100 < max ?d ?i \<Longrightarrow> 84 / 100 < ?d"
      using i(2) by (simp_all only: less_max_iff_disj) linarith+
    ultimately show ?thesis using full d1 d2 d3 i by auto
  qed
qed

text \<open>The parts of one scoring run over a whole catalog.\<close>

definition run_query :: "lexicon \<Rightarrow> string \<Rightarrow> approved_card list \<Rightarrow> query_analysis" where
  "run_query lx t cards = analyse_query lx t (ci_ngramIds (buildCatalogIndex lx cards))"

definition run_statistics :: "lexicon \<Rightarrow> string \<Rightarrow> approved_card list \<Rightarrow> query_statistics" where
  "run_statistics lx t cards =
     queryRelevantStatistics lx (qa_uniqueTokens (run_query lx t cards)) (ci_cards (buildCatalogIndex lx cards))"

definition run_leader :: "lexicon \<Rightarrow> string \<Rightarrow> approved_card list \<Rightarrow> string option" where
  "run_leader lx t cards = directEvidenceCompetition lx (run_query lx t cards) (ci_cards (buildCatalogIndex lx cards))"

lemma scoring_run:
  "scoreIndexedCardsAgainstQuery lx t (buildCatalogIndex lx cards) ixs =
     map (\<lambda>ix. fst (scoreCard lx (run_query lx t cards) (run_statistics lx t cards) (run_leader lx t cards) ix)) ixs"
  by (simp add: scoreIndexedCardsAgainstQuery_def run_query_def run_statistics_def run_leader_def Let_def)

lemma run_scores:
  "scoreCardsAgainstQuery lx t cards =
     map (\<lambda>ix. fst (scoreCard lx (run_query lx t cards) (run_statistics lx t cards) (run_leader lx t cards) ix))
       (ci_cards (buildCatalogIndex lx cards))"
  by (simp add: scoreCardsAgainstQuery_def Let_def scoring_run)

text \<open>
  C32: lexical scoring gives every Card one score, in catalog order, under its own identity and
  between 0 and 1. Without a matched declaration or coordinate the score stays at 0.34, on
  the rejecting side of the band; a score past 0.84 needs direct evidence that is
  corroborated, is no short single term, is not common without context and does not conflict
  with the kind of source the query asks for. So fuzzy evidence alone is always rejected
  and weak evidence is never admitted.
\<close>
theorem lexical_score_bands:
  "list_all2 (\<lambda>(c, ix) s. qs_cardId s = ce_cardId c \<and> qs_versionId s = ce_versionId c \<and> unit_score (qs_score s) \<and>
      (matched_entries lx (run_query lx t cards) ix (run_statistics lx t cards) = [] \<longrightarrow>
         default_verdict (qs_score s) = Reject) \<and>
      (\<not> strong_evidence (evidence lx (run_query lx t cards) (run_statistics lx t cards) (run_leader lx t cards) ix) \<longrightarrow>
         default_verdict (qs_score s) \<noteq> Admit))
    (zip cards (ci_cards (buildCatalogIndex lx cards))) (scoreCardsAgainstQuery lx t cards)"
proof -
  let ?q = "run_query lx t cards" and ?st = "run_statistics lx t cards" and ?l = "run_leader lx t cards"
  have "list_all2 (index_ok n) cs ixs \<Longrightarrow>
    list_all2 (\<lambda>(c, ix) s. qs_cardId s = ce_cardId c \<and> qs_versionId s = ce_versionId c \<and> unit_score (qs_score s) \<and>
      (matched_entries lx ?q ix ?st = [] \<longrightarrow> default_verdict (qs_score s) = Reject) \<and>
      (\<not> strong_evidence (evidence lx ?q ?st ?l ix) \<longrightarrow> default_verdict (qs_score s) \<noteq> Admit))
    (zip cs ixs) (map (\<lambda>ix. fst (scoreCard lx ?q ?st ?l ix)) ixs)" for n cs ixs
  proof (induction rule: list_all2_induct)
    case (Cons c cs ix ixs)
    obtain x where x: "qs_score (fst (scoreCard lx ?q ?st ?l ix)) = Finite x" "0 \<le> x" "x \<le> 1"
      "34 / 100 < x \<longrightarrow> matched_entries lx ?q ix ?st \<noteq> []" "84 / 100 < x \<longrightarrow> strong_evidence (evidence lx ?q ?st ?l ix)"
      using scoreCard_spec [OF Cons.hyps(1) refl] by blast
    have "unit_score (Finite x)" using x(2,3) by (simp add: unit_score_def)
    moreover have "matched_entries lx ?q ix ?st = [] \<longrightarrow> default_verdict (Finite x) = Reject"
      unfolding default_bands using x(4) by auto
    moreover have "\<not> strong_evidence (evidence lx ?q ?st ?l ix) \<longrightarrow> default_verdict (Finite x) \<noteq> Admit"
      unfolding default_bands using x(5) by auto
    moreover have "qs_cardId (fst (scoreCard lx ?q ?st ?l ix)) = ce_cardId c \<and> qs_versionId (fst (scoreCard lx ?q ?st ?l ix)) = ce_versionId c"
      using scoreCard_spec [OF Cons.hyps(1) refl] by blast
    ultimately show ?case using Cons.IH x(1) by simp
  qed simp
  from this [OF catalog_cards] show ?thesis
    by (simp add: scoreCardsAgainstQuery_def scoring_run Let_def)
qed

theorem lexical_score_bands_witness:
  "list_all2 (\<lambda>(c, ix) s. qs_versionId s = ce_versionId c \<and> unit_score (qs_score s))
    (zip [plain_card ''a'' ''x''] (ci_cards (buildCatalogIndex latin_lexicon [plain_card ''a'' ''x''])))
    (scoreCardsAgainstQuery latin_lexicon ''x'' [plain_card ''a'' ''x''])"
  by (rule list_all2_mono [OF lexical_score_bands]) auto

section \<open>Scoring a subset\<close>

lemma catalog_positions:
  "map ix_card (ci_cards (buildCatalogIndex lx cards)) = cards"
proof -
  have "list_all2 (index_ok n) cs ixs \<Longrightarrow> map ix_card ixs = cs" for n cs ixs
    by (induction rule: list_all2_induct) (auto simp: index_ok_def)
  from this [OF catalog_cards] show ?thesis .
qed

lemma update_fresh: "k \<notin> fst ` set m \<Longrightarrow> AList.update k v m = m @ [(k, v)]"
  by (induction m) auto

lemma fold_update_fresh:
  "distinct (map fst kvs) \<Longrightarrow> fst ` set kvs \<inter> fst ` set m = {} \<Longrightarrow>
     fold (\<lambda>(k, v). AList.update k v) kvs m = m @ kvs"
proof (induction kvs arbitrary: m)
  case (Cons kv kvs)
  obtain k v where kv: "kv = (k, v)" by fastforce
  have "fst ` set kvs \<inter> fst ` set (m @ [(k, v)]) = {}" using Cons.prems kv by auto
  moreover have "k \<notin> fst ` set m" using Cons.prems(2) kv by auto
  ultimately show ?case using Cons.IH [of "m @ [(k, v)]"] Cons.prems(1) kv by (simp add: update_fresh)
qed simp

lemma js_map_distinct: "distinct (map fst kvs) \<Longrightarrow> js_map kvs = kvs"
  using fold_update_fresh [of kvs "[]"] by (simp add: js_map_def)

lemma known_cards_all:
  "(\<And>c. c \<in> set cs \<Longrightarrow> map_of found (ce_versionId c) = Some (f c) \<and> ix_card (f c) = c) \<Longrightarrow>
     known_cards found cs = Inr (map f cs)"
  by (induction cs) auto

lemma map_of_zip_map: "map_of (zip xs (map f ys)) c = map_option f (map_of (zip xs ys) c)"
proof (induction xs arbitrary: ys)
  case (Cons x xs)
  then show ?case by (cases ys) simp_all
qed simp

lemma subset_pass:
  assumes "distinct (map ce_versionId cards)" and "distinct (map ce_versionId chosen)" and "set chosen \<subseteq> set cards"
  shows "scoreCardSubsetAgainstQuery lx t cards chosen =
    Inr (map (\<lambda>c. the (map_of (zip cards (scoreCardsAgainstQuery lx t cards)) c)) chosen)"
proof -
  let ?ixs = "ci_cards (buildCatalogIndex lx cards)"
  let ?requested = "js_map (map (\<lambda>c. (ce_versionId c, c)) chosen)"
  let ?kept = "filter (\<lambda>ix. map_of ?requested (ce_versionId (ix_card ix)) \<noteq> None) ?ixs"
  let ?found = "js_map (map (\<lambda>ix. (ce_versionId (ix_card ix), ix)) ?kept)"
  let ?score = "\<lambda>ix. fst (scoreCard lx (run_query lx t cards) (run_statistics lx t cards) (run_leader lx t cards) ix)"
  note pos = catalog_positions [of lx cards]
  have len: "length ?ixs = length cards" using arg_cong [OF pos, of length] by simp
  have versions: "distinct (map (\<lambda>ix. ce_versionId (ix_card ix)) ?ixs)"
  proof -
    have "map (\<lambda>ix. ce_versionId (ix_card ix)) ?ixs = map ce_versionId (map ix_card ?ixs)" by simp
    then show ?thesis unfolding pos using assms(1) by simp
  qed
  have size: "length ?requested = length chosen"
  proof -
    have "distinct (map fst (map (\<lambda>c. (ce_versionId c, c)) chosen))" using assms(2) by (simp add: o_def)
    then show ?thesis by (simp add: js_map_distinct)
  qed
  define f where "f c = the (map_of (zip cards ?ixs) c)" for c
  have dc: "distinct cards" using assms(1) by (simp add: distinct_map)
  have f: "f c \<in> set ?ixs \<and> ix_card (f c) = c \<and> map_of (zip cards ?ixs) c = Some (f c)" if mem: "c \<in> set cards" for c
  proof -
    obtain i where i: "i < length cards" "cards ! i = c" using mem by (auto simp: in_set_conv_nth)
    have "map_of (zip cards ?ixs) c = Some (?ixs ! i)" using i len dc map_of_zip_nth [of cards ?ixs i] by simp
    moreover have "ix_card (?ixs ! i) = c" using pos i len by (metis nth_map)
    ultimately show ?thesis using i len by (simp add: f_def)
  qed
  have found: "map_of ?found (ce_versionId c) = Some (f c) \<and> ix_card (f c) = c" if c: "c \<in> set chosen" for c
  proof -
    have m: "c \<in> set cards" using assms(3) c by blast
    have "ce_versionId c \<in> ce_versionId ` set chosen" using c by blast
    then have "map_of ?requested (ce_versionId c) \<noteq> None"
      by (simp add: map_of_js_map map_of_eq_None_iff image_image)
    then have "(ce_versionId c, f c) \<in> set (rev (map (\<lambda>ix. (ce_versionId (ix_card ix), ix)) ?kept))"
      using f [OF m] by (auto simp: image_iff intro!: bexI [of _ "f c"])
    moreover have "distinct (map fst (rev (map (\<lambda>ix. (ce_versionId (ix_card ix), ix)) ?kept)))"
      using versions by (simp add: rev_map [symmetric] o_def distinct_map_filter)
    ultimately have "map_of ?found (ce_versionId c) = Some (f c)" unfolding map_of_js_map by (rule map_of_is_SomeI [rotated])
    then show ?thesis using f [OF m] by blast
  qed
  have "indexedCandidateCards (buildCatalogIndex lx cards) chosen = Inr (map f chosen)"
    using size known_cards_all [of chosen ?found f, OF found] by (simp add: indexedCandidateCards_def Let_def)
  then have "scoreCardSubsetAgainstQuery lx t cards chosen = Inr (map (\<lambda>c. ?score (f c)) chosen)"
    by (simp add: scoreCardSubsetAgainstQuery_def scoring_run Let_def)
  moreover have "?score (f c) = the (map_of (zip cards (scoreCardsAgainstQuery lx t cards)) c)" if "c \<in> set chosen" for c
  proof -
    have "map_of (zip cards (map ?score ?ixs)) c = map_option ?score (map_of (zip cards ?ixs) c)"
      by (rule map_of_zip_map)
    then show ?thesis using f [of c] assms(3) that by (auto simp: scoreCardsAgainstQuery_def scoring_run Let_def)
  qed
  ultimately show ?thesis by simp
qed

text \<open>
  Scoring a few Cards of a catalog whose versions are distinct gives each of them exactly the score of
  a complete pass over the catalog.
\<close>
theorem subset_pass_equals_complete_pass:
  assumes "distinct (map ce_versionId cards)" and "distinct (map ce_versionId chosen)" and "set chosen \<subseteq> set cards"
  shows "scoreCardSubsetAgainstQuery lx t cards chosen =
    Inr (map (\<lambda>c. the (map_of (zip cards (scoreCardsAgainstQuery lx t cards)) c)) chosen)"
  by (rule subset_pass [OF assms])

theorem subset_pass_equals_complete_pass_witness:
  "scoreCardSubsetAgainstQuery latin_lexicon ''refund'' [plain_card ''a'' ''refund'', plain_card ''b'' ''delivery''] [plain_card ''b'' ''delivery''] =
    Inr (map (\<lambda>c. the (map_of (zip [plain_card ''a'' ''refund'', plain_card ''b'' ''delivery'']
      (scoreCardsAgainstQuery latin_lexicon ''refund'' [plain_card ''a'' ''refund'', plain_card ''b'' ''delivery''])) c)) [plain_card ''b'' ''delivery''])"
  by (rule subset_pass_equals_complete_pass) (simp_all add: plain_card_def)

section \<open>Unrelated Cards\<close>

lemma all2_split:
  "list_all2 P (xs @ ys) (as @ bs) \<Longrightarrow> length xs = length as \<Longrightarrow> list_all2 P xs as \<and> list_all2 P ys bs"
  by (simp add: list_all2_append)

text \<open>
  C33: appending Cards to a catalog that share no word with the query changes no score of the
  Cards that were there, neither through the statistics nor through the competition of broad
  Cards nor through the n-gram dictionary, which the new Cards extend.
\<close>
theorem unrelated_cards_change_no_score:
  assumes "\<forall>ix \<in> set (drop (length cards) (ci_cards (buildCatalogIndex lx (cards @ extra)))).
    \<not> indexedCardContainsAnyQueryToken lx ix (tokenizeLexicalText lx (normalizeLexicalText lx t))"
  shows "take (length cards) (scoreCardsAgainstQuery lx t (cards @ extra)) = scoreCardsAgainstQuery lx t cards"
proof -
  obtain a d1 where a: "index_cards lx cards [] = (a, d1)" by fastforce
  obtain b d2 where b: "index_cards lx extra d1 = (b, d2)" by fastforce
  have small: "buildCatalogIndex lx cards = \<lparr>ci_cards = a, ci_ngramIds = d1\<rparr>" by (simp add: buildCatalogIndex_def a)
  have big: "buildCatalogIndex lx (cards @ extra) = \<lparr>ci_cards = a @ b, ci_ngramIds = d2\<rparr>"
    by (simp add: buildCatalogIndex_def index_cards_append a b)
  note sa = index_cards_spec [OF dict_ok_empty a]
  note sb = index_cards_spec [OF conjunct1 [OF sa] b]
  have len: "length a = length cards" using sa by (auto dest: list_all2_lengthD)
  let ?tokens = "tokenizeLexicalText lx (normalizeLexicalText lx t)"
  let ?q = "run_query lx t cards" and ?q2 = "run_query lx t (cards @ extra)"
  have q: "qa_tokens ?q = ?tokens" "qa_tokens ?q2 = ?tokens" "?q2 = ?q\<lparr>qa_ngrams := queryNgrams (normalizeLexicalText lx t) d2\<rparr>"
    "?q = ?q\<lparr>qa_ngrams := queryNgrams (normalizeLexicalText lx t) d1\<rparr>"
    by (simp_all add: run_query_def analyse_query_def Let_def small big)
  have u: "qa_uniqueTokens ?q2 = qa_uniqueTokens ?q" "set (qa_uniqueTokens ?q) = set ?tokens"
    by (simp_all add: run_query_def analyse_query_def Let_def)
  have un: "\<forall>ix \<in> set b. \<not> indexedCardContainsAnyQueryToken lx ix ?tokens"
    using assms by (simp add: big len)
  have un': "\<forall>ix \<in> set b. \<not> indexedCardContainsAnyQueryToken lx ix (qa_uniqueTokens ?q)"
    using un contains_cong [OF u(2)] by blast
  have tf: "ix_termFrequency ix = term_frequency (ix_fields ix)" if "ix \<in> set b" for ix
    using sb that by (auto simp: list_all2_conv_all_nth in_set_conv_nth index_ok_def)
  have stats: "run_statistics lx t (cards @ extra) = run_statistics lx t cards"
    unfolding run_statistics_def u(1) using statistics_unrelated [OF un'] by (simp add: small big)
  have "\<forall>ix \<in> set b. unrelated lx (qa_tokens ?q2) ix" using un tf q(2) by (simp add: unrelated_def)
  then have "directEvidenceCompetition lx ?q2 (a @ b) = directEvidenceCompetition lx ?q2 a" by (rule competition_unrelated)
  also have "competition_step lx ?q2 = competition_step lx ?q"
    by (intro ext) (simp only: competition_step_def matchedDeclaredFieldCount_def q(1,2))
  then have "directEvidenceCompetition lx ?q2 a = directEvidenceCompetition lx ?q a"
    by (simp add: directEvidenceCompetition_def)
  finally have leader: "run_leader lx t (cards @ extra) = run_leader lx t cards"
    by (simp add: run_leader_def small big)
  have score: "scoreCard lx ?q2 st l ix = scoreCard lx ?q st l ix" if ix: "ix \<in> set a" for ix st l
  proof -
    have "fields_ok (length d1) (ix_fields ix)"
      using sa ix by (auto simp: list_all2_conv_all_nth in_set_conv_nth index_ok_def)
    then have "\<forall>f \<in> set (ix_fields ix). ngramDice (queryNgrams (normalizeLexicalText lx t) d2) (wf_ngramIds f) =
        ngramDice (queryNgrams (normalizeLexicalText lx t) d1) (wf_ngramIds f)"
      using dice_extends sa sb by (auto simp: fields_ok_def)
    from score_ngrams [OF this] show ?thesis using q(3,4) by metis
  qed
  have "scoreCardsAgainstQuery lx t (cards @ extra) =
      map (\<lambda>ix. fst (scoreCard lx ?q2 (run_statistics lx t cards) (run_leader lx t cards) ix)) (a @ b)"
    using run_scores [of lx t "cards @ extra"] by (simp add: stats leader big)
  then have "take (length cards) (scoreCardsAgainstQuery lx t (cards @ extra)) =
      map (\<lambda>ix. fst (scoreCard lx ?q2 (run_statistics lx t cards) (run_leader lx t cards) ix)) a"
    using len by simp
  also have "\<dots> = map (\<lambda>ix. fst (scoreCard lx ?q (run_statistics lx t cards) (run_leader lx t cards) ix)) a"
    using score by simp
  also have "\<dots> = scoreCardsAgainstQuery lx t cards"
    using run_scores [of lx t cards] by (simp add: small)
  finally show ?thesis .
qed

lemma sample_unrelated:
  "\<forall>ix \<in> set (drop (length [plain_card ''a'' ''x'']) (ci_cards (buildCatalogIndex latin_lexicon ([plain_card ''a'' ''x''] @ [plain_card ''b'' ''y''])))).
    \<not> indexedCardContainsAnyQueryToken latin_lexicon ix (tokenizeLexicalText latin_lexicon (normalizeLexicalText latin_lexicon ''x''))"
  by code_simp

theorem unrelated_cards_change_no_score_witness:
  "take 1 (scoreCardsAgainstQuery latin_lexicon ''x'' [plain_card ''a'' ''x'', plain_card ''b'' ''y'']) =
     scoreCardsAgainstQuery latin_lexicon ''x'' [plain_card ''a'' ''x'']"
  using unrelated_cards_change_no_score [OF sample_unrelated] by simp

end
