(* ===== verification/Plan_Verification_Laws.thy ===== *)
theory Plan_Verification_Laws
  imports Plan_Verification Selection_Plan_Laws Scoring_Properties
begin

text \<open>
  What \<open>verifySelectionPlan\<close> accepts, stated without its loops: the plans in which every key is the digest of
  what it names, reads and items correspond, and exactly the admitted Cards select.
\<close>

section \<open>The loops\<close>

abbreviation ref_key :: "card_ref \<Rightarrow> string" where
  "ref_key r \<equiv> cardRefKey (cf_cardId r) (cf_versionId r)"

abbreviation ref_keys :: "planned_item \<Rightarrow> string list" where
  "ref_keys item \<equiv> map ref_key (pl_selectedBy item)"

abbreviation item_scope :: "planned_item \<Rightarrow> string" where
  "item_scope item \<equiv> scope_key (guide_scopeRef (pl_guide item))"

lemma verify_references_ok:
  "verify_references item seen rs selected = Inr selected' \<longleftrightarrow>
     distinct (map ref_key rs) \<and> ref_key ` set rs \<inter> set seen = {} \<and> selected' = fold set_add (map ref_key rs) selected"
  by (induction item seen rs selected rule: verify_references.induct) (auto simp: Let_def)

definition reads_target :: "(string \<Rightarrow> string) \<Rightarrow> managed_target list \<Rightarrow> planned_item \<Rightarrow> bool" where
  "reads_target sha256 targets item \<longleftrightarrow>
     (case pl_execution item of Delegated \<Rightarrow> True
      | Managed named \<Rightarrow> named = guideTargetKey sha256 (pl_guide item) \<and>
          (case List.find (\<lambda>t. mt_targetKey t = named) targets of None \<Rightarrow> False | Some t \<Rightarrow> same_target (pl_guide item) t))"

definition item_sound :: "(string \<Rightarrow> string) \<Rightarrow> managed_target list \<Rightarrow> planned_item \<Rightarrow> bool" where
  "item_sound sha256 targets item \<longleftrightarrow>
     pl_itemKey item = retrievalGuideKey sha256 (pl_guide item) \<and> pl_selectedBy item \<noteq> [] \<and>
     distinct (ref_keys item) \<and> reads_target sha256 targets item"

definition checked_item :: "planned_item \<Rightarrow> plan_check \<Rightarrow> plan_check" where
  "checked_item item st =
     \<lparr>ck_itemKeys = set_add (pl_itemKey item) (ck_itemKeys st),
      ck_itemKeyByScopeRef = AList.update (item_scope item) (pl_itemKey item) (ck_itemKeyByScopeRef st),
      ck_referencedTargetKeys = (case pl_execution item of Delegated \<Rightarrow> ck_referencedTargetKeys st
        | Managed k \<Rightarrow> set_add k (ck_referencedTargetKeys st)),
      ck_selectedUnion = fold set_add (ref_keys item) (ck_selectedUnion st)\<rparr>"

definition scopes_known :: "plan_check \<Rightarrow> bool" where
  "scopes_known st \<longleftrightarrow> (\<forall>k v. map_of (ck_itemKeyByScopeRef st) k = Some v \<longrightarrow> v \<in> set (ck_itemKeys st))"

lemma verify_managed_ok:
  "verify_managed sha256 targets item st = Inr st' \<longleftrightarrow> reads_target sha256 targets item \<and>
     st' = st\<lparr>ck_referencedTargetKeys := (case pl_execution item of Delegated \<Rightarrow> ck_referencedTargetKeys st
        | Managed k \<Rightarrow> set_add k (ck_referencedTargetKeys st))\<rparr>"
  by (cases "pl_execution item") (auto simp: verify_managed_def reads_target_def Let_def split: option.splits)

lemma verify_item_ok:
  assumes "scopes_known st"
  shows "verify_item sha256 targets item st = Inr st' \<longleftrightarrow> item_sound sha256 targets item \<and>
     pl_itemKey item \<notin> set (ck_itemKeys st) \<and> map_of (ck_itemKeyByScopeRef st) (item_scope item) = None \<and>
     st' = checked_item item st"
proof -
  have "known = None" if "\<not> (known \<noteq> None \<and> known \<noteq> Some (pl_itemKey item))" "pl_itemKey item \<notin> set (ck_itemKeys st)"
    "known = map_of (ck_itemKeyByScopeRef st) (item_scope item)" for known
    using that assms unfolding scopes_known_def by (metis option.exhaust)
  then show ?thesis
    by (auto simp: verify_item_def Let_def res_bind_eq_Inr verify_references_ok verify_managed_ok item_sound_def checked_item_def
        split: execution.splits)
qed

lemma scopes_known_step: "scopes_known st \<Longrightarrow> scopes_known (checked_item item st)"
  by (auto simp: scopes_known_def checked_item_def update_conv')

lemma verify_items_ok:
  "scopes_known st \<Longrightarrow> res_fold (verify_item sha256 targets) items st = Inr st' \<longleftrightarrow>
     list_all (item_sound sha256 targets) items \<and>
     distinct (map pl_itemKey items) \<and> pl_itemKey ` set items \<inter> set (ck_itemKeys st) = {} \<and>
     distinct (map item_scope items) \<and> item_scope ` set items \<inter> dom (map_of (ck_itemKeyByScopeRef st)) = {} \<and>
     st' = fold checked_item items st"
proof (induction items arbitrary: st)
  case Nil
  then show ?case by auto
next
  case (Cons item items)
  note ih = Cons.IH [OF scopes_known_step [OF Cons.prems, of item]]
  have s: "set (ck_itemKeys (checked_item item st)) = insert (pl_itemKey item) (set (ck_itemKeys st))"
    "dom (map_of (ck_itemKeyByScopeRef (checked_item item st))) = insert (item_scope item) (dom (map_of (ck_itemKeyByScopeRef st)))"
    by (simp_all add: checked_item_def update_conv')
  show ?case
    unfolding res_fold.simps res_bind_eq_Inr verify_item_ok [OF Cons.prems] using ih s by (auto simp: dom_def)
qed

lemma checked_items:
  "set (ck_selectedUnion (fold checked_item items st)) = set (ck_selectedUnion st) \<union> (\<Union>item \<in> set items. set (ref_keys item))"
  "set (ck_referencedTargetKeys (fold checked_item items st)) =
     set (ck_referencedTargetKeys st) \<union> {k. \<exists>item \<in> set items. pl_execution item = Managed k}"
  by (induction items arbitrary: st) (auto simp: checked_item_def set_fold_set_add split: execution.splits)

definition target_sound :: "(string \<Rightarrow> string) \<Rightarrow> managed_target \<Rightarrow> bool" where
  "target_sound sha256 t \<longleftrightarrow> mt_targetKey t = managedTargetKey sha256 (mt_scopeRef t) (mt_limit t)"

lemma verify_targets_ok:
  "(\<exists>ks'. res_fold (verify_target sha256 referenced) ts ks = Inr ks') \<longleftrightarrow>
     list_all (target_sound sha256) ts \<and> distinct (map mt_targetKey ts) \<and>
     mt_targetKey ` set ts \<inter> set ks = {} \<and> mt_targetKey ` set ts \<subseteq> set referenced"
proof (induction ts arbitrary: ks)
  case Nil
  then show ?case by simp
next
  case (Cons t ts)
  have "verify_target sha256 referenced t ks = Inr ks' \<longleftrightarrow> target_sound sha256 t \<and> mt_targetKey t \<notin> set ks \<and>
      mt_targetKey t \<in> set referenced \<and> ks' = set_add (mt_targetKey t) ks" for ks'
    by (auto simp: verify_target_def target_sound_def)
  then show ?case using Cons.IH [of "set_add (mt_targetKey t) ks"] by (auto simp: res_bind_eq_Inr)
qed

lemma refuse_first_ok: "refuse_first bad message xs = Inr u \<longleftrightarrow> (\<forall>x \<in> set xs. \<not> bad x)"
  by (auto simp: refuse_first_def find_None_iff find_Some_iff split: option.split)

section \<open>The audit\<close>

abbreviation decision_key :: "planning_decision \<Rightarrow> string" where
  "decision_key d \<equiv> cardRefKey (pd_cardId d) (pd_versionId d)"

definition decision_sound :: "selection_result \<Rightarrow> string list \<Rightarrow> planning_decision \<Rightarrow> bool" where
  "decision_sound selection admitted d \<longleftrightarrow>
     (if pd_decision d = NotPlanned
      then decision_key d \<notin> set admitted \<and> covered_defer (List.find (\<lambda>x. outcome_key x = decision_key d) (rs_outcomes selection))
      else decision_key d \<in> set admitted)"

lemma verify_decision_ok:
  "verify_decision selection admitted d acc = Inr acc' \<longleftrightarrow>
     decision_sound selection admitted d \<and> map_of (fst acc) (decision_key d) = None \<and>
     acc' = (AList.update (decision_key d) d (fst acc), snd acc + (if pd_decision d = NotPlanned then 1 else 0))"
  by (auto simp: verify_decision_def decision_sound_def Let_def)

lemma verify_decisions_ok:
  "res_fold (verify_decision selection admitted) ds acc = Inr acc' \<longleftrightarrow>
     list_all (decision_sound selection admitted) ds \<and> distinct (map decision_key ds) \<and>
     decision_key ` set ds \<inter> fst ` set (fst acc) = {} \<and>
     acc' = (fst acc @ map (\<lambda>d. (decision_key d, d)) ds, snd acc + length (filter (\<lambda>d. pd_decision d = NotPlanned) ds))"
proof (induction ds arbitrary: acc)
  case Nil
  then show ?case by auto
next
  case (Cons d ds)
  show ?case
  proof (cases "decision_key d \<in> fst ` set (fst acc)")
    case True
    then have "map_of (fst acc) (decision_key d) \<noteq> None" by (simp add: map_of_eq_None_iff)
    then show ?thesis using True by (auto simp: res_bind_eq_Inr verify_decision_ok)
  next
    case False
    then have "map_of (fst acc) (decision_key d) = None" by (simp add: map_of_eq_None_iff)
    then show ?thesis using False Cons.IH by (auto simp: res_bind_eq_Inr verify_decision_ok update_fresh)
  qed
qed

lemma json_int_ok: "number_json (json_int i)" "json_content (json_int i) = json_content (json_int j) \<Longrightarrow> i = j"
proof -
  have minus: "json_number_char (CHR ''-'')" by (simp add: json_number_char_def)
  show "number_json (json_int i)" using show_nat_number minus by (simp add: json_int_def)
  have head: "hd (show_nat n) \<noteq> CHR ''-''" for n
  proof (induction n rule: show_nat.induct)
    case (1 n)
    have "char_of (48 + m) \<noteq> CHR ''-''" if "m < 10" for m :: nat
    proof
      assume "char_of (48 + m) = CHR ''-''"
      then have "of_char (char_of (48 + m)) = (of_char CHR ''-'' :: nat)" by simp
      then show False using that by simp
    qed
    then show ?case using 1 show_nat_number [of "n div 10"] by (cases "n < 10") (simp_all add: show_nat.simps [of n] hd_append)
  qed
  assume "json_content (json_int i) = json_content (json_int j)"
  then have eq: "(if i < 0 then CHR ''-'' # show_nat (nat (- i)) else show_nat (nat i)) =
      (if j < 0 then CHR ''-'' # show_nat (nat (- j)) else show_nat (nat j))" by (simp add: json_int_def)
  have h: "CHR ''-'' # xs \<noteq> show_nat n" for xs n using head [of n] by (metis list.sel(1))
  show "i = j"
  proof (cases "i < 0"; cases "j < 0")
    assume "i < 0" "j < 0"
    then show ?thesis using show_nat_inj [of "nat (- i)" "nat (- j)"] eq by simp
  next
    assume "i < 0" "\<not> j < 0"
    then show ?thesis using eq h by simp
  next
    assume "\<not> i < 0" "j < 0"
    then show ?thesis using eq h [symmetric] by simp
  next
    assume "\<not> i < 0" "\<not> j < 0"
    then show ?thesis using show_nat_inj [of "nat i" "nat j"] eq by simp
  qed
qed

lemma cost_content: "canonicalJson (json_of_cost c) = canonicalJson (json_of_cost d) \<longleftrightarrow> c = d"
proof
  assume eq: "canonicalJson (json_of_cost c) = canonicalJson (json_of_cost d)"
  have n: "number_json (json_of_cost e)" for e using json_int_ok(1) by (simp add: json_of_cost_def)
  have "json_content (json_of_cost c) = json_content (json_of_cost d)"
    using eq canonical_iff_content [OF n n] unfolding canonicalJson_def by blast
  note m = object_members [OF this [unfolded json_of_cost_def]]
  show "c = d"
    using m [of "''managedTargetCount''"] m [of "''managedChunkLimitTotal''"] m [of "''delegatedItemCount''"]
      m [of "''guideBytes''"] m [of "''selectedByTotal''"] m [of "''cardCount''"]
    by (intro plan_cost.equality) (simp_all add: json_int_ok(2))
qed simp

text \<open>What the audit of the set planner has to say about the final plan.\<close>

definition audit_sound :: "(string \<Rightarrow> string) \<Rightarrow> (js_number \<Rightarrow> string) \<Rightarrow> selection_plan \<Rightarrow> bool" where
  "audit_sound sha256 render plan \<longleftrightarrow>
     (let sm = sp_summary plan; a = sm_planning sm; admitted = admitted_keys (sm_selection sm) in
      auditDigest sha256 render a = Inr (sm_auditDigest sm) \<and>
      distinct (map decision_key (ma_decisions a)) \<and> list_all (decision_sound (sm_selection sm) admitted) (ma_decisions a) \<and>
      set admitted \<subseteq> decision_key ` {d \<in> set (ma_decisions a). pd_decision d \<noteq> NotPlanned} \<and>
      ma_removalCount a = length (filter (\<lambda>d. pd_decision d = NotPlanned) (ma_decisions a)) \<and>
      pc_cardCount (ma_costBefore a) = int (length (ma_decisions a)) \<and>
      actual_cost plan admitted = ma_costAfter a)"

lemma retained_iff:
  assumes "distinct (map decision_key ds)"
  shows "(case map_of (map (\<lambda>d. (decision_key d, d)) ds) k of None \<Rightarrow> True
      | Some d \<Rightarrow> pd_decision d \<noteq> SelectedCard \<and> pd_decision d \<noteq> ProtectedCard) \<longleftrightarrow>
    k \<notin> decision_key ` {d \<in> set ds. pd_decision d \<noteq> NotPlanned}"
proof -
  have m: "map_of (map (\<lambda>d. (decision_key d, d)) ds) k = Some d \<longleftrightarrow> d \<in> set ds \<and> decision_key d = k" for d
    using assms by (subst map_of_eq_Some_iff) (auto simp: comp_def)
  have c: "pd_decision d \<noteq> SelectedCard \<and> pd_decision d \<noteq> ProtectedCard \<longleftrightarrow> pd_decision d = NotPlanned" for d :: planning_decision
    by (cases "pd_decision d") simp_all
  have u: "d = d'" if "d \<in> set ds" "d' \<in> set ds" "decision_key d = decision_key d'" for d d'
    using assms that by (meson distinct_map inj_onD)
  show ?thesis
  proof (cases "map_of (map (\<lambda>d. (decision_key d, d)) ds) k")
    case None
    then have "k \<notin> decision_key ` set ds" by (auto simp: map_of_eq_None_iff image_image)
    then show ?thesis using None by auto
  next
    case (Some d)
    then have d: "d \<in> set ds" "decision_key d = k" using m by simp_all
    have "k \<in> decision_key ` {d \<in> set ds. pd_decision d \<noteq> NotPlanned} \<longleftrightarrow> pd_decision d \<noteq> NotPlanned"
    proof
      assume "k \<in> decision_key ` {d \<in> set ds. pd_decision d \<noteq> NotPlanned}"
      then obtain d' where d': "k = decision_key d'" "d' \<in> {d \<in> set ds. pd_decision d \<noteq> NotPlanned}" by (rule imageE)
      then have "d' = d" using u [of d' d] d by simp
      then show "pd_decision d \<noteq> NotPlanned" using d' by simp
    next
      assume "pd_decision d \<noteq> NotPlanned"
      then show "k \<in> decision_key ` {d \<in> set ds. pd_decision d \<noteq> NotPlanned}" using d by (intro image_eqI [of _ _ d]) simp_all
    qed
    then show ?thesis by (simp only: Some option.case c) blast
  qed
qed

lemma verifySetPlanningAudit_ok:
  "verifySetPlanningAudit sha256 render plan (admitted_keys (sm_selection (sp_summary plan))) = Inr u \<longleftrightarrow>
     audit_sound sha256 render plan"
proof -
  let ?sm = "sp_summary plan" let ?a = "sm_planning ?sm" let ?ad = "admitted_keys (sm_selection ?sm)"
  show ?thesis
  proof (cases "auditDigest sha256 render ?a = Inr (sm_auditDigest ?sm) \<and> distinct (map decision_key (ma_decisions ?a)) \<and>
      list_all (decision_sound (sm_selection ?sm) ?ad) (ma_decisions ?a)")
    case True
    then have f: "res_fold (verify_decision (sm_selection ?sm) ?ad) (ma_decisions ?a) ([], 0) =
        Inr (map (\<lambda>d. (decision_key d, d)) (ma_decisions ?a), length (filter (\<lambda>d. pd_decision d = NotPlanned) (ma_decisions ?a)))"
      by (simp add: verify_decisions_ok)
    have d: "distinct (map decision_key (ma_decisions ?a))" using True by blast
    show ?thesis
      unfolding verifySetPlanningAudit_def audit_sound_def Let_def using True
      by (simp add: f res_bind_eq_Inr refuse_first_ok retained_iff [OF d] cost_content subset_eq) argo
  next
    case False
    then show ?thesis
      unfolding verifySetPlanningAudit_def audit_sound_def Let_def
      by (auto simp: res_bind_eq_Inr verify_decisions_ok split: if_splits)
  qed
qed

section \<open>The whole check\<close>

definition selecting_keys :: "selection_plan \<Rightarrow> string set" where
  "selecting_keys plan = (\<Union>item \<in> set (sp_items plan). set (ref_keys item))"

definition policy_sound :: "selection_plan \<Rightarrow> bool" where
  "policy_sound plan \<longleftrightarrow>
     (let sm = sp_summary plan; excluded = set (excluded_keys sm) in
      assertValidPolicyContext (sm_policyContext sm) = Inr () \<and>
      (\<forall>c \<in> set (sm_candidates sm). cardRefKey (qs_cardId c) (qs_versionId c) \<notin> excluded) \<and>
      (\<forall>x \<in> set (rs_outcomes (sm_selection sm)). outcome_key x \<notin> excluded) \<and> selecting_keys plan \<inter> excluded = {})"

definition reads_sound :: "(string \<Rightarrow> string) \<Rightarrow> selection_plan \<Rightarrow> bool" where
  "reads_sound sha256 plan \<longleftrightarrow>
     list_all (item_sound sha256 (sp_managedTargets plan)) (sp_items plan) \<and> distinct (map pl_itemKey (sp_items plan)) \<and>
     distinct (map item_scope (sp_items plan)) \<and>
     list_all (target_sound sha256) (sp_managedTargets plan) \<and> distinct (map mt_targetKey (sp_managedTargets plan)) \<and>
     mt_targetKey ` set (sp_managedTargets plan) \<subseteq> {k. \<exists>item \<in> set (sp_items plan). pl_execution item = Managed k}"

lemma verify_policy_ok: "set selected = selecting_keys plan \<Longrightarrow> verify_policy plan selected = Inr u \<longleftrightarrow> policy_sound plan"
  by (auto simp: verify_policy_def policy_sound_def Let_def res_bind_eq_Inr refuse_first_ok)

lemma verifySelectionPlan_ok:
  "verifySelectionPlan sha256 render plan expected = Inr () \<longleftrightarrow>
     (expected = None \<or> expected = Some (sp_query plan)) \<and> reads_sound sha256 plan \<and>
     selecting_keys plan = set (admitted_keys (sm_selection (sp_summary plan))) \<and>
     audit_sound sha256 render plan \<and> policy_sound plan"
proof (cases "list_all (item_sound sha256 (sp_managedTargets plan)) (sp_items plan) \<and> distinct (map pl_itemKey (sp_items plan)) \<and>
     distinct (map item_scope (sp_items plan))")
  case False
  have k: "scopes_known empty_check" by (simp add: scopes_known_def empty_check_def)
  show ?thesis
    unfolding verifySelectionPlan_def reads_sound_def using False
    by (auto simp: res_bind_eq_Inr verify_items_ok [OF k])
next
  case True
  have k: "scopes_known empty_check" by (simp add: scopes_known_def empty_check_def)
  let ?st = "fold checked_item (sp_items plan) empty_check"
  have run: "res_fold (verify_item sha256 (sp_managedTargets plan)) (sp_items plan) empty_check = Inr ?st"
    unfolding verify_items_ok [OF k] using True by (simp add: empty_check_def)
  have u: "set (ck_selectedUnion ?st) = selecting_keys plan" by (simp add: checked_items selecting_keys_def empty_check_def)
  have r: "set (ck_referencedTargetKeys ?st) = {k. \<exists>item \<in> set (sp_items plan). pl_execution item = Managed k}"
    by (simp add: checked_items empty_check_def)
  note t = verify_targets_ok [of sha256 "ck_referencedTargetKeys ?st" "sp_managedTargets plan" "[]", unfolded r]
  show ?thesis
    unfolding verifySelectionPlan_def reads_sound_def Let_def run res_bind_Inr if_distrib
    using True t by (auto simp: res_bind_eq_Inr refuse_first_ok verifySetPlanningAudit_ok verify_policy_ok [OF u] u)
qed

end
