(* ===== verification/Assemble_Laws.thy ===== *)
theory Assemble_Laws
  imports Assemble_Context Assembly_Laws Plan_Verification_Laws
begin

text \<open>
  What an assembly answers, item by item: the verdict on every planned read as a function of its own outcome, the
  occurrences that enter fusion, and how the evidence is filed back under the items.
\<close>

section \<open>Outcomes\<close>

definition stated_failure :: "resolution_failure \<Rightarrow> fulfillment_failure" where
  "stated_failure f = \<lparr>ff_stage = (case rf_stage f of ManagedSearch \<Rightarrow> ManagedSearchStage | Deadline \<Rightarrow> DeadlineStage),
     ff_code = rf_code f, ff_retriable = rf_retriable f\<rparr>"

definition honest_failure :: "resolution_failure \<Rightarrow> bool" where
  "honest_failure f \<longleftrightarrow> (rf_stage f = Deadline \<longrightarrow> rf_code f = ''deadline_exceeded'' \<and> rf_retriable f)"

lemma toFulfillmentFailure_ok: "toFulfillmentFailure f = Inr g \<longleftrightarrow> honest_failure f \<and> g = stated_failure f"
  by (cases "rf_stage f") (auto simp: toFulfillmentFailure_def honest_failure_def stated_failure_def)

definition opaque_outcome :: "resolution_outcome \<Rightarrow> bool" where
  "opaque_outcome x = (case ro_status x of FulfilledRead _ \<Rightarrow> True | FailedRead f \<Rightarrow> matches_failure_code (rf_code f))"

definition honest_outcome :: "resolution_outcome \<Rightarrow> bool" where
  "honest_outcome x = (case ro_status x of FulfilledRead _ \<Rightarrow> True | FailedRead f \<Rightarrow> honest_failure f)"

lemma index_outcomes_ok:
  "index_outcomes planned xs m = Inr m' \<longleftrightarrow>
     list_all opaque_outcome xs \<and> ro_targetKey ` set xs \<subseteq> set planned \<and> distinct (map ro_targetKey xs) \<and>
     ro_targetKey ` set xs \<inter> fst ` set m = {} \<and> m' = m @ map (\<lambda>x. (ro_targetKey x, x)) xs"
proof (induction planned xs m rule: index_outcomes.induct)
  case (1 planned m)
  then show ?case by auto
next
  case (2 planned x xs m)
  have o: "(case ro_status x of FailedRead f \<Rightarrow> assertOpaqueFailure f | FulfilledRead _ \<Rightarrow> Inr ()) = Inr u \<longleftrightarrow> opaque_outcome x" for u
    by (auto simp: opaque_outcome_def assertOpaqueFailure_def split: outcome_status.splits)
  show ?case
  proof (cases "opaque_outcome x \<and> ro_targetKey x \<in> set planned \<and> ro_targetKey x \<notin> fst ` set m")
    case True
    then have none: "map_of m (ro_targetKey x) = None" by (simp add: map_of_eq_None_iff)
    have u: "AList.update (ro_targetKey x) x m = m @ [(ro_targetKey x, x)]" using True by (intro update_fresh) simp
    have "index_outcomes planned (x # xs) m = index_outcomes planned xs (AList.update (ro_targetKey x) x m)"
      using True none o [of "()"] by simp
    then show ?thesis using 2 True none u o [of "()"] by auto
  next
    case False
    have "index_outcomes planned (x # xs) m \<noteq> Inr m'"
      using False o by (auto simp: res_bind_eq_Inr map_of_eq_None_iff)
    then show ?thesis using False by auto
  qed
qed

lemma set_planned_targets: "set (planned_targets plan) = {k. \<exists>item \<in> set (sp_items plan). pl_execution item = Managed k}"
proof -
  have "set (fold (\<lambda>item acc. case pl_execution item of Managed k \<Rightarrow> set_add k acc | Delegated \<Rightarrow> acc) items acc) =
      set acc \<union> {k. \<exists>item \<in> set items. pl_execution item = Managed k}" for items :: "planned_item list" and acc
    by (induction items arbitrary: acc) (auto split: execution.splits)
  then show ?thesis by (simp add: planned_targets_def)
qed

lemma chunks_hold_ranks: "chunks_hold n cs ranks revisions \<Longrightarrow> \<forall>c \<in> set cs. safe_at_least 1 (rv_rank c)"
proof (induction n cs ranks revisions rule: chunks_hold.induct)
  case (2 n c cs ranks revisions)
  then have "isSafeInteger (rv_rank c)" "\<not> js_less (rv_rank c) (Finite 1)" by (auto split: if_splits)
  then have "safe_at_least 1 (rv_rank c)" by (cases "rv_rank c") (auto simp: safe_at_least_def isSafeInteger_def)
  then show ?case using 2 by (auto split: if_splits)
qed simp

section \<open>Verdicts\<close>

definition outcome_of_target :: "resolution_outcome list \<Rightarrow> string \<Rightarrow> resolution_outcome option" where
  "outcome_of_target outcomes = map_of (map (\<lambda>x. (ro_targetKey x, x)) outcomes)"

definition verdict_on :: "resolution_outcome list \<Rightarrow> planned_item \<Rightarrow> string \<Rightarrow> item_verdict" where
  "verdict_on outcomes item targetKey =
     (case outcome_of_target outcomes targetKey of
        None \<Rightarrow> FailedVerdict ASSEMBLY_FAILURE
      | Some x \<Rightarrow>
          (case ro_status x of
             FailedRead f \<Rightarrow> FailedVerdict (stated_failure f)
           | FulfilledRead chunks \<Rightarrow>
               if outcomeHoldsTogether (guide_limit (pl_guide item)) chunks then FulfilledVerdict targetKey chunks
               else FailedVerdict ASSEMBLY_FAILURE))"

lemma judgeOutcome_ok:
  "judgeOutcome item k (outcome_of_target outcomes k) = Inr v \<longleftrightarrow>
     (case outcome_of_target outcomes k of None \<Rightarrow> True | Some x \<Rightarrow> honest_outcome x) \<and> v = verdict_on outcomes item k"
  by (auto simp: judgeOutcome_def verdict_on_def honest_outcome_def res_bind_eq_Inr toFulfillmentFailure_ok
      split: option.splits outcome_status.splits)

definition item_verdicts :: "resolution_outcome list \<Rightarrow> planned_item list \<Rightarrow> (string \<times> item_verdict) list" where
  "item_verdicts outcomes items = List.map_filter (\<lambda>item. case pl_execution item of
     Delegated \<Rightarrow> None | Managed k \<Rightarrow> Some (pl_itemKey item, verdict_on outcomes item k)) items"

definition item_candidates :: "resolution_outcome list \<Rightarrow> planned_item \<Rightarrow> context_candidate list" where
  "item_candidates outcomes item = (case pl_execution item of
     Delegated \<Rightarrow> []
   | Managed k \<Rightarrow> (case verdict_on outcomes item k of FailedVerdict _ \<Rightarrow> [] | FulfilledVerdict _ chunks \<Rightarrow> map (candidate_of item k) chunks))"

definition judgeable :: "resolution_outcome list \<Rightarrow> planned_item \<Rightarrow> bool" where
  "judgeable outcomes item = (case pl_execution item of Delegated \<Rightarrow> True
     | Managed k \<Rightarrow> (case outcome_of_target outcomes k of None \<Rightarrow> True | Some x \<Rightarrow> honest_outcome x))"

lemma judge_items_ok:
  "distinct (map pl_itemKey items) \<Longrightarrow> pl_itemKey ` set items \<inter> fst ` set (fst acc) = {} \<Longrightarrow>
     res_fold (judge_item (map (\<lambda>x. (ro_targetKey x, x)) outcomes)) items acc = Inr acc' \<longleftrightarrow>
       list_all (judgeable outcomes) items \<and>
       acc' = (fst acc @ item_verdicts outcomes items, snd acc @ concat (map (item_candidates outcomes) items))"
proof (induction items arbitrary: acc)
  case Nil
  then show ?case by (auto simp: item_verdicts_def map_filter_simps)
next
  case (Cons item items)
  have frame: "map_of (map (\<lambda>x. (ro_targetKey x, x)) outcomes) k = outcome_of_target outcomes k" for k
    by (simp add: outcome_of_target_def)
  show ?case
  proof (cases "pl_execution item")
    case Delegated
    then show ?thesis using Cons by (simp add: judge_item_def judgeable_def item_verdicts_def item_candidates_def map_filter_simps)
  next
    case (Managed k)
    let ?acc = "(fst acc @ [(pl_itemKey item, verdict_on outcomes item k)], snd acc @ item_candidates outcomes item)"
    have u: "AList.update (pl_itemKey item) v (fst acc) = fst acc @ [(pl_itemKey item, v)]" for v
      using Cons.prems(2) by (intro update_fresh) auto
    have step: "judge_item (map (\<lambda>x. (ro_targetKey x, x)) outcomes) item acc = Inr a \<longleftrightarrow> judgeable outcomes item \<and> a = ?acc" for a
      unfolding judge_item_def Managed execution.case frame res_bind_eq_Inr judgeOutcome_ok Let_def u judgeable_def item_candidates_def
      by (auto split: item_verdict.splits)
    have "pl_itemKey ` set items \<inter> fst ` set (fst ?acc) = {}" using Cons.prems by auto
    note ih = Cons.IH [OF _ this]
    have "item_verdicts outcomes (item # items) = (pl_itemKey item, verdict_on outcomes item k) # item_verdicts outcomes items"
      by (simp add: item_verdicts_def Managed map_filter_simps)
    then show ?thesis using ih Cons.prems by (auto simp: res_bind_eq_Inr step)
  qed
qed

lemma item_verdicts_keys: "fst ` set (item_verdicts outcomes items) \<subseteq> pl_itemKey ` set items"
proof (induction items)
  case (Cons item items)
  then show ?case by (cases "pl_execution item") (auto simp: item_verdicts_def map_filter_simps)
qed (simp add: item_verdicts_def map_filter_simps)

lemma distinct_item_verdicts: "distinct (map pl_itemKey items) \<Longrightarrow> distinct (map fst (item_verdicts outcomes items))"
proof (induction items)
  case (Cons item items)
  then show ?case using item_verdicts_keys [of outcomes items]
    by (cases "pl_execution item") (auto simp: item_verdicts_def map_filter_simps)
qed (simp add: item_verdicts_def map_filter_simps)

lemma verdict_lookup:
  assumes "distinct (map pl_itemKey items)" and "item \<in> set items" and "pl_execution item = Managed k"
  shows "map_of (item_verdicts outcomes items) (pl_itemKey item) = Some (verdict_on outcomes item k)"
proof -
  have "(pl_itemKey item, verdict_on outcomes item k) \<in> set (item_verdicts outcomes items)"
    using assms(2,3) unfolding item_verdicts_def set_map_filter by force
  then show ?thesis using distinct_item_verdicts [OF assms(1)] by (simp add: map_of_eq_Some_iff)
qed

lemma map_of_verdicts: "map_of (map (\<lambda>(k, v). (k, f v)) m) x = map_option f (map_of m x)"
  by (induction m) auto

lemma candidate_positions: "\<forall>item \<in> set items. list_all position (item_candidates outcomes item)"
proof
  fix item
  have "list_all position (map (candidate_of item k) chunks)" if "outcomeHoldsTogether limit chunks" for k chunks limit
    using that chunks_hold_ranks by (auto simp: outcomeHoldsTogether_def list_all_iff position_def candidate_of_def split: if_splits)
  then show "list_all position (item_candidates outcomes item)"
    by (auto simp: item_candidates_def verdict_on_def split: execution.splits option.splits outcome_status.splits item_verdict.splits if_splits)
qed

section \<open>Filing the evidence\<close>

definition answer_candidates :: "resolution_outcome list \<Rightarrow> selection_plan \<Rightarrow> context_candidate list" where
  "answer_candidates outcomes plan = concat (map (item_candidates outcomes) (sp_items plan))"

definition evidence_for :: "assembled_context \<Rightarrow> string \<Rightarrow> retrieved_context" where
  "evidence_for a key = contextFor (map snd (filter (\<lambda>e. fst e = key) (rankContext (ab_chunks a))))
     (map toContextOmission (filter (\<lambda>x. cx_itemKey (od_chunk x) = key) (ab_omitted a)))"

definition fulfillment_of :: "resolution_outcome list \<Rightarrow> assembled_context \<Rightarrow> planned_item \<Rightarrow> fulfillment" where
  "fulfillment_of outcomes a item =
     (case pl_execution item of
        Delegated \<Rightarrow> DelegatedItem
      | Managed k \<Rightarrow>
          (case fail_conflicted (ab_failedTargetKeys a) (verdict_on outcomes item k) of
             FailedVerdict f \<Rightarrow> FailedItem f
           | FulfilledVerdict _ _ \<Rightarrow> FulfilledItem (evidence_for a (pl_itemKey item))))"

definition answer_item :: "resolution_outcome list \<Rightarrow> assembled_context \<Rightarrow> planned_item \<Rightarrow> resolution_item" where
  "answer_item outcomes a item =
     \<lparr>ri_selectedBy = pl_selectedBy item, ri_guide = pl_guide item, ri_fulfillment = fulfillment_of outcomes a item\<rparr>"

lemma bucket_groupBy: "bucket (groupBy xs k) v = filter (\<lambda>x. k x = v) xs"
proof (cases "v \<in> k ` set xs")
  case True
  then show ?thesis by (simp add: bucket_def map_of_groupBy)
next
  case False
  then have "filter (\<lambda>x. k x = v) xs = []" by (auto simp: filter_empty_conv)
  then show ?thesis using False by (simp add: bucket_def map_of_groupBy)
qed

lemma build_items_all: "(\<And>x. x \<in> set xs \<Longrightarrow> f x = Inr (g x)) \<Longrightarrow> build_items f xs = Inr (map g xs)"
  by (induction xs) auto

lemma buildItem_answer:
  assumes "distinct (map pl_itemKey items)" and "item \<in> set items"
  shows "buildItem (map (\<lambda>(k, v). (k, fail_conflicted (ab_failedTargetKeys a) v)) (item_verdicts outcomes items))
     (groupBy (rankContext (ab_chunks a)) fst) (groupBy (map (\<lambda>x. (cx_itemKey (od_chunk x), toContextOmission x)) (ab_omitted a)) fst) item =
     Inr (answer_item outcomes a item)"
proof (cases "pl_execution item")
  case Delegated
  then show ?thesis by (simp add: buildItem_def isManagedPlannedItem_def answer_item_def fulfillment_of_def)
next
  case (Managed k)
  have om: "map snd (filter (\<lambda>e. fst e = key) (map (\<lambda>x. (cx_itemKey (od_chunk x), toContextOmission x)) xs)) =
      map toContextOmission (filter (\<lambda>x. cx_itemKey (od_chunk x) = key) xs)" for key and xs :: "omitted_chunk list"
    by (induction xs) auto
  show ?thesis
    unfolding buildItem_def isManagedPlannedItem_def answer_item_def fulfillment_of_def Managed evidence_for_def
      map_of_verdicts verdict_lookup [OF assms Managed] bucket_groupBy om
    by (auto split: item_verdict.splits)
qed

definition budget_given :: "context_budget option \<Rightarrow> context_budget" where
  "budget_given b = (case b of None \<Rightarrow> DEFAULT_CONTEXT_BUDGET | Some c \<Rightarrow> c)"

definition answer_of :: "selection_plan \<Rightarrow> resolution_outcome list \<Rightarrow> context_budget \<Rightarrow> assembled_context \<Rightarrow> context_resolution" where
  "answer_of plan outcomes budget a =
     \<lparr>cr_query = sp_query plan,
      cr_policy = \<lparr>rl_payloadSchemaVersion = 3, rl_scoring = scoringPolicyVersionFor (sm_mode (sp_summary plan)),
        rl_ranking = SELECTION_RANKING_POLICY_VERSION, rl_planning = SELECTION_PLANNING_POLICY_VERSION,
        rl_fusion = CONTEXT_FUSION_POLICY_VERSION, rl_assembly = CONTEXT_ASSEMBLY_POLICY_VERSION, rl_budget = budget\<rparr>,
      cr_selection = summarizeSelection plan, cr_items = map (answer_item outcomes a) (sp_items plan)\<rparr>"

text \<open>The outcomes the plan can account for.\<close>

definition accounted :: "selection_plan \<Rightarrow> resolution_outcome list \<Rightarrow> bool" where
  "accounted plan outcomes \<longleftrightarrow> list_all opaque_outcome outcomes \<and> list_all honest_outcome outcomes \<and> distinct (map ro_targetKey outcomes) \<and>
     (\<forall>x \<in> set outcomes. \<exists>item \<in> set (sp_items plan). pl_execution item = Managed (ro_targetKey x))"

lemma judgeable_accounted:
  assumes "distinct (map ro_targetKey outcomes)" and "\<forall>x \<in> set outcomes. \<exists>item \<in> set items. pl_execution item = Managed (ro_targetKey x)"
  shows "list_all (judgeable outcomes) items \<longleftrightarrow> list_all honest_outcome outcomes"
proof
  assume j: "list_all (judgeable outcomes) items"
  show "list_all honest_outcome outcomes"
    unfolding list_all_iff
  proof
    fix x assume x: "x \<in> set outcomes"
    then obtain item where item: "item \<in> set items" "pl_execution item = Managed (ro_targetKey x)" using assms(2) by blast
    have "outcome_of_target outcomes (ro_targetKey x) = Some x"
      unfolding outcome_of_target_def using assms(1) x by (subst map_of_eq_Some_iff) (auto simp: comp_def)
    then show "honest_outcome x" using j item by (auto simp: list_all_iff judgeable_def)
  qed
next
  assume h: "list_all honest_outcome outcomes"
  have "honest_outcome x" if "outcome_of_target outcomes k = Some x" for k x
  proof -
    have "x \<in> set outcomes" using map_of_SomeD [OF that [unfolded outcome_of_target_def]] by auto
    then show ?thesis using h by (simp add: list_all_iff)
  qed
  then show "list_all (judgeable outcomes) items" by (auto simp: list_all_iff judgeable_def split: execution.splits option.splits)
qed

lemma scoring_paired: "selectionScoringFor mode = Inr (scoringPolicyVersionFor mode)"
  by (simp add: selectionScoringFor_def assertSelectionScoringPairing_def Let_def)

lemma indexOutcomes_ok:
  "indexOutcomes plan outcomes = Inr m \<longleftrightarrow> list_all opaque_outcome outcomes \<and> distinct (map ro_targetKey outcomes) \<and>
     (\<forall>x \<in> set outcomes. \<exists>item \<in> set (sp_items plan). pl_execution item = Managed (ro_targetKey x)) \<and>
     m = map (\<lambda>x. (ro_targetKey x, x)) outcomes"
  unfolding indexOutcomes_def index_outcomes_ok set_planned_targets by auto

lemma assembleContext_ok:
  "assembleContext sha256 render plan outcomes given = Inr r \<longleftrightarrow>
     verifySelectionPlan sha256 render plan None = Inr () \<and> accounted plan outcomes \<and>
     (\<exists>a. assembleDocumentContext render (answer_candidates outcomes plan) (budget_given given) = Inr a \<and>
        r = answer_of plan outcomes (budget_given given) a)"
proof (cases "verifySelectionPlan sha256 render plan None = Inr () \<and> list_all opaque_outcome outcomes \<and> distinct (map ro_targetKey outcomes) \<and>
     (\<forall>x \<in> set outcomes. \<exists>item \<in> set (sp_items plan). pl_execution item = Managed (ro_targetKey x))")
  case False
  then show ?thesis unfolding assembleContext_def accounted_def Let_def by (auto simp: res_bind_eq_Inr indexOutcomes_ok)
next
  case True
  then have keys: "distinct (map pl_itemKey (sp_items plan))" unfolding verifySelectionPlan_ok reads_sound_def by blast
  have ix: "indexOutcomes plan outcomes = Inr (map (\<lambda>x. (ro_targetKey x, x)) outcomes)" unfolding indexOutcomes_ok using True by blast
  have j: "list_all (judgeable outcomes) (sp_items plan) \<longleftrightarrow> list_all honest_outcome outcomes" using judgeable_accounted True by blast
  have judged: "res_fold (judge_item (map (\<lambda>x. (ro_targetKey x, x)) outcomes)) (sp_items plan) ([], []) = Inr acc \<longleftrightarrow>
      list_all honest_outcome outcomes \<and> acc = (item_verdicts outcomes (sp_items plan), answer_candidates outcomes plan)" for acc
    using judge_items_ok [OF keys, of "([], [])" outcomes acc] unfolding j answer_candidates_def by simp
  have build: "build_items (buildItem (map (\<lambda>(k, v). (k, fail_conflicted (ab_failedTargetKeys a) v)) (item_verdicts outcomes (sp_items plan)))
      (groupBy (rankContext (ab_chunks a)) fst) (groupBy (map (\<lambda>x. (cx_itemKey (od_chunk x), toContextOmission x)) (ab_omitted a)) fst))
      (sp_items plan) = Inr (map (answer_item outcomes a) (sp_items plan))" for a
    by (rule build_items_all) (rule buildItem_answer [OF keys])
  show ?thesis
    unfolding assembleContext_def budget_given_def [symmetric] Let_def ix accounted_def answer_of_def
    using True by (simp add: res_bind_eq_Inr judged scoring_paired build) blast
qed

lemma answer_positions: "list_all position (trusted (answer_candidates outcomes plan))"
proof -
  have "list_all position (answer_candidates outcomes plan)"
    using candidate_positions [of "sp_items plan" outcomes] unfolding answer_candidates_def by (auto simp: list_all_iff)
  then show ?thesis by (auto simp: trusted_def list_all_iff)
qed

section \<open>Ranks\<close>

definition item_chunks :: "resolution_item \<Rightarrow> retrieved_chunk list" where
  "item_chunks i = (case ri_fulfillment i of FulfilledItem x \<Rightarrow> rx_chunks x | _ \<Rightarrow> [])"

lemma rank_numbers: "map (re_contextRank \<circ> snd) (rankContext cs) = [Suc 0..<Suc (length cs)]"
proof -
  have "map (re_contextRank \<circ> snd) (rankContext cs) = map Suc [0..<length cs]"
    by (rule nth_equalityI) (simp_all add: rankContext_def rank_chunk_def Let_def)
  then show ?thesis by (simp only: map_Suc_upt)
qed

lemma rank_keys: "map fst (rankContext cs) = map (\<lambda>c. cx_itemKey (hk_occurrence c)) cs"
  by (rule nth_equalityI) (simp_all add: rankContext_def rank_chunk_def Let_def)

lemma file_by_key:
  "distinct keys \<Longrightarrow> fst ` set es \<subseteq> set keys \<Longrightarrow> mset (concat (map (\<lambda>k. filter (\<lambda>e. fst e = k) es) keys)) = mset es"
proof (induction keys arbitrary: es)
  case (Cons k ks)
  have "filter (\<lambda>e. fst e = k') es = filter (\<lambda>e. fst e = k') (filter (\<lambda>e. fst e \<noteq> k) es)" if "k' \<in> set ks" for k'
  proof -
    have "k' \<noteq> k" using Cons.prems(1) that by auto
    then show ?thesis by (auto intro: filter_cong)
  qed
  then have "map (\<lambda>k. filter (\<lambda>e. fst e = k) es) ks = map (\<lambda>k'. filter (\<lambda>e. fst e = k') (filter (\<lambda>e. fst e \<noteq> k) es)) ks"
    by (rule map_cong [OF refl])
  moreover have "mset (concat (map (\<lambda>k'. filter (\<lambda>e. fst e = k') (filter (\<lambda>e. fst e \<noteq> k) es)) ks)) = mset (filter (\<lambda>e. fst e \<noteq> k) es)"
    using Cons.prems by (intro Cons.IH) auto
  moreover have "mset (filter (\<lambda>e. fst e = k) es) + mset (filter (\<lambda>e. fst e \<noteq> k) es) = mset es"
    by (induction es) auto
  ultimately show ?case by (simp only: list.map concat.simps mset_append)
qed simp

end
