(* ===== verification/Card_Selection.thy ===== *)
theory Card_Selection
  imports Query_Scoring
begin

text \<open>
  What a Card contributes to the semantic index: \<open>domain/card-selection-text.ts\<close> and
  \<open>domain/text-measure.ts\<close>, and the profile of a family of Card vectors: \<open>domain/card-selection-profile.ts\<close>,
  \<open>domain/card-selection-profiles.ts\<close> and the check of a provider in \<open>ports/card-embedding.ts\<close>.
  On characters up to U+00FF a code point is a code unit. NFKC is the parameter \<open>nfkc\<close>, SHA-256 the
  parameter \<open>sha256\<close>.
\<close>

section \<open>Text measure\<close>

definition TEXT_MEASURE_PROFILE_VERSION :: string where
  "TEXT_MEASURE_PROFILE_VERSION = ''unicode-estimate-v1''"

definition measureTextUnits :: "string \<Rightarrow> nat" where
  "measureTextUnits t = length t"

section \<open>Selection text\<close>

definition CARD_SELECTION_TEXT_SCHEMA :: string where
  "CARD_SELECTION_TEXT_SCHEMA = ''card-selection-text-v3''"

datatype card_selection_scope =
    SelectedDocument string string string string
  | SelectedSql string string string string string "string list"
  | SelectedHttp string string string string string "string option" "http_parameter_ref list"

record card_selection_text =
  ct_schema :: string
  ct_description :: string
  ct_representativeQuestions :: "string list"
  ct_aliases :: "string list"
  ct_keywords :: "string list"
  ct_scopes :: "card_selection_scope list"

definition normalizeSelectionText :: "(string \<Rightarrow> string) \<Rightarrow> string \<Rightarrow> string" where
  "normalizeSelectionText nfkc t = trim (collapse_space False (nfkc t))"

fun compareByCodePoint :: "string \<Rightarrow> string \<Rightarrow> int" where
  "compareByCodePoint (l # ls) (r # rs) =
     (if code_unit l \<noteq> code_unit r then (if code_unit l < code_unit r then -1 else 1) else compareByCodePoint ls rs)"
| "compareByCodePoint ls rs = int (length ls) - int (length rs)"

text \<open>\<open>xs.sort(compare)\<close> with an integer comparator: a stable sort.\<close>

fun place :: "('a \<Rightarrow> 'a \<Rightarrow> int) \<Rightarrow> 'a \<Rightarrow> 'a list \<Rightarrow> 'a list" where
  "place cmp x [] = [x]"
| "place cmp x (y # ys) = (if cmp x y \<le> 0 then x # y # ys else y # place cmp x ys)"

definition sort_with :: "('a \<Rightarrow> 'a \<Rightarrow> int) \<Rightarrow> 'a list \<Rightarrow> 'a list" where
  "sort_with cmp xs = foldr (place cmp) xs []"

definition or_compare :: "int \<Rightarrow> int \<Rightarrow> int" where
  "or_compare a b = (if a \<noteq> 0 then a else b)"

definition normalizeList :: "(string \<Rightarrow> string) \<Rightarrow> string list \<Rightarrow> string list" where
  "normalizeList nfkc values =
     sort_with compareByCodePoint (js_set (filter (\<lambda>t. t \<noteq> []) (map (normalizeSelectionText nfkc) values)))"

definition compare_parameters :: "http_parameter_ref \<Rightarrow> http_parameter_ref \<Rightarrow> int" where
  "compare_parameters l r =
     or_compare (compareByCodePoint (param_location_text (hp_location l)) (param_location_text (hp_location r)))
       (compareByCodePoint (hp_name l) (hp_name r))"

definition normalizeParameters :: "(string \<Rightarrow> string) \<Rightarrow> http_parameter_ref list \<Rightarrow> http_parameter_ref list" where
  "normalizeParameters nfkc parameters =
     sort_with compare_parameters (map (\<lambda>p. p\<lparr>hp_name := normalizeSelectionText nfkc (hp_name p)\<rparr>) parameters)"

fun toSelectionScope :: "(string \<Rightarrow> string) \<Rightarrow> approved_scope \<Rightarrow> card_selection_scope" where
  "toSelectionScope nfkc (ManagedDocumentScope r index selection) =
     SelectedDocument (normalizeSelectionText nfkc (scopeId r)) (normalizeSelectionText nfkc (scopeVersion r))
       (normalizeSelectionText nfkc (di_sourceId index)) (normalizeSelectionText nfkc (di_documentId index))"
| "toSelectionScope nfkc (SqlSourceScope r connector schema table columns) =
     SelectedSql (normalizeSelectionText nfkc (scopeId r)) (normalizeSelectionText nfkc (scopeVersion r))
       (normalizeSelectionText nfkc connector) (normalizeSelectionText nfkc schema) (normalizeSelectionText nfkc table)
       (normalizeList nfkc columns)"
| "toSelectionScope nfkc (HttpSourceScope r connector meth path operationId parameters) =
     SelectedHttp (normalizeSelectionText nfkc (scopeId r)) (normalizeSelectionText nfkc (scopeVersion r))
       (normalizeSelectionText nfkc connector) (normalizeSelectionText nfkc meth) (normalizeSelectionText nfkc path)
       (map_option (normalizeSelectionText nfkc) operationId) (normalizeParameters nfkc parameters)"

fun selection_scope_ref :: "card_selection_scope \<Rightarrow> string \<times> string" where
  "selection_scope_ref (SelectedDocument i v _ _) = (i, v)"
| "selection_scope_ref (SelectedSql i v _ _ _ _) = (i, v)"
| "selection_scope_ref (SelectedHttp i v _ _ _ _ _) = (i, v)"

definition compareScopes :: "card_selection_scope \<Rightarrow> card_selection_scope \<Rightarrow> int" where
  "compareScopes l r =
     or_compare (compareByCodePoint (fst (selection_scope_ref l)) (fst (selection_scope_ref r)))
       (compareByCodePoint (snd (selection_scope_ref l)) (snd (selection_scope_ref r)))"

definition buildCardSelectionText :: "(string \<Rightarrow> string) \<Rightarrow> approved_card \<Rightarrow> card_selection_text" where
  "buildCardSelectionText nfkc c =
     (let m = ce_meaning c in
      \<lparr>ct_schema = CARD_SELECTION_TEXT_SCHEMA, ct_description = normalizeSelectionText nfkc (cm_description m),
       ct_representativeQuestions = normalizeList nfkc (cm_representativeQuestions m),
       ct_aliases = normalizeList nfkc (cm_aliases m), ct_keywords = normalizeList nfkc (cm_keywords m),
       ct_scopes = sort_with compareScopes (map (toSelectionScope nfkc) (ce_scopes c))\<rparr>)"

fun scopeEmbeddingValues :: "card_selection_scope \<Rightarrow> string list" where
  "scopeEmbeddingValues (SelectedDocument _ _ _ _) = []"
| "scopeEmbeddingValues (SelectedSql _ _ connector schema table columns) = [connector, schema, table] @ columns"
| "scopeEmbeddingValues (SelectedHttp _ _ connector meth path operationId parameters) =
     [connector, meth, path] @ (case operationId of None \<Rightarrow> [] | Some i \<Rightarrow> [i]) @
     concat (map (\<lambda>p. [param_location_text (hp_location p), hp_name p,
       if hp_required p then ''required'' else ''optional'']) parameters)"

definition cardSelectionTextPayload :: "card_selection_text \<Rightarrow> string" where
  "cardSelectionTextPayload t =
     join [CHR 0x0A] ([ct_description t] @ ct_representativeQuestions t @ ct_aliases t @ ct_keywords t @
       concat (map scopeEmbeddingValues (ct_scopes t)))"

definition cardSelectionTextDigest :: "(string \<Rightarrow> string) \<Rightarrow> card_selection_text \<Rightarrow> string" where
  "cardSelectionTextDigest sha256 t = ''sha256:'' @ sha256 (cardSelectionTextPayload t)"

record card_selection_entry =
  en_cardId :: string
  en_cardVersionId :: string
  en_text :: card_selection_text
  en_payload :: string
  en_selectionTextDigest :: string
  en_units :: nat

definition buildCardSelectionEntry ::
    "(string \<Rightarrow> string) \<Rightarrow> (string \<Rightarrow> string) \<Rightarrow> approved_card \<Rightarrow> card_selection_entry" where
  "buildCardSelectionEntry sha256 nfkc c =
     (let t = buildCardSelectionText nfkc c; payload = cardSelectionTextPayload t in
      \<lparr>en_cardId = ce_cardId c, en_cardVersionId = ce_versionId c, en_text = t, en_payload = payload,
       en_selectionTextDigest = cardSelectionTextDigest sha256 t, en_units = measureTextUnits payload\<rparr>)"

section \<open>Profiles\<close>

record card_admission_limits =
  al_textMeasureProfileVersion :: string
  al_maxCardUnits :: js_number
  al_maxQueryUnits :: js_number

definition DEFAULT_CARD_ADMISSION_LIMITS :: card_admission_limits where
  "DEFAULT_CARD_ADMISSION_LIMITS = \<lparr>al_textMeasureProfileVersion = TEXT_MEASURE_PROFILE_VERSION,
     al_maxCardUnits = whole 2048, al_maxQueryUnits = whole 480\<rparr>"

record local_execution =
  le_adapterVersion :: string
  le_artifactRepository :: string
  le_artifactRevision :: string
  le_artifactPath :: string
  le_artifactSha256 :: string
  le_assetManifestSha256 :: string
  le_precision :: string

datatype card_execution = LocalExecution local_execution | RemoteExecution string string

datatype pooling = ClsPooling | MeanPooling | ProviderDefined

text \<open>The second half of a production profile; a profile without it is bound to a test provider.\<close>

record card_embedding_part =
  ep_modelRevision :: string
  ep_execution :: card_execution
  ep_pooling :: pooling
  ep_cardInputTransformVersion :: string
  ep_queryInputTransformVersion :: string

record card_selection_profile =
  cn_id :: string
  cn_version :: string
  cn_model :: string
  cn_dimensions :: js_number
  cn_admissionLimits :: card_admission_limits
  cn_embedding :: "card_embedding_part option"

definition isCardSelectionEmbeddingProfile :: "card_selection_profile \<Rightarrow> bool" where
  "isCardSelectionEmbeddingProfile p \<longleftrightarrow> cn_embedding p \<noteq> None"

fun execution_adapterVersion :: "card_execution \<Rightarrow> string" where
  "execution_adapterVersion (LocalExecution x) = le_adapterVersion x"
| "execution_adapterVersion (RemoteExecution adapterVersion model) = adapterVersion"

fun execution_kind :: "card_execution \<Rightarrow> string" where
  "execution_kind (LocalExecution x) = ''local''"
| "execution_kind (RemoteExecution _ _) = ''remote''"

definition positive_integer :: "js_number \<Rightarrow> bool" where
  "positive_integer x \<longleftrightarrow> isSafeInteger x \<and> \<not> js_less_eq x (Finite 0)"

definition assertValidCardSelectionProfile ::
    "(js_number \<Rightarrow> string) \<Rightarrow> card_selection_profile \<Rightarrow> selection_error + unit" where
  "assertValidCardSelectionProfile render p =
     (let l = cn_admissionLimits p in
      if trim (cn_id p) = [] \<or> trim (cn_version p) = []
      then Inl (CardSelectionProfileInvariantError ''a Card selection profile must carry a non-empty id and version'')
      else if \<not> positive_integer (cn_dimensions p)
      then Inl (CardSelectionProfileInvariantError
             (''Card embedding dimensions must be a positive integer, received '' @ render (cn_dimensions p)))
      else if \<not> positive_integer (al_maxCardUnits l) \<or> \<not> positive_integer (al_maxQueryUnits l)
      then Inl (CardSelectionProfileInvariantError ''Card admission limits must be positive integers'')
      else if al_textMeasureProfileVersion l \<noteq> TEXT_MEASURE_PROFILE_VERSION
      then Inl (CardSelectionProfileInvariantError (''Card admission limits are stated under '' @
             al_textMeasureProfileVersion l @ '', which this package cannot measure''))
      else (case cn_embedding p of
          None \<Rightarrow> Inr ()
        | Some e \<Rightarrow>
            if trim (ep_modelRevision e) = []
            then Inl (CardSelectionProfileInvariantError ''a production Card embedding profile must pin a model revision'')
            else if trim (execution_adapterVersion (ep_execution e)) = []
            then Inl (CardSelectionProfileInvariantError
                   ''a production Card embedding profile must state its adapter version'')
            else (case ep_execution e of
                LocalExecution _ \<Rightarrow>
                  if ep_pooling e = ProviderDefined
                  then Inl (CardSelectionProfileInvariantError ''a local Card embedding profile must state cls or mean pooling'')
                  else Inr ()
              | RemoteExecution _ model \<Rightarrow>
                  if ep_pooling e \<noteq> ProviderDefined
                  then Inl (CardSelectionProfileInvariantError
                         ''a remote Card embedding profile must state provider_defined pooling'')
                  else if trim model = [] \<or> model \<noteq> cn_model p
                  then Inl (CardSelectionProfileInvariantError
                         ''a remote Card embedding profile must name the same model in execution and at the top level'')
                  else Inr ())))"

definition createRemoteCardSelectionProfile ::
    "(js_number \<Rightarrow> string) \<Rightarrow> string \<Rightarrow> string \<Rightarrow> string \<Rightarrow> string \<Rightarrow> js_number \<Rightarrow> string \<Rightarrow> card_admission_limits option \<Rightarrow>
     selection_error + card_selection_profile" where
  "createRemoteCardSelectionProfile render i version model modelRevision dimensions adapterVersion limits =
     (let p = \<lparr>cn_id = i, cn_version = version, cn_model = model, cn_dimensions = dimensions,
        cn_admissionLimits = (case limits of None \<Rightarrow> DEFAULT_CARD_ADMISSION_LIMITS | Some l \<Rightarrow> l),
        cn_embedding = Some \<lparr>ep_modelRevision = modelRevision, ep_execution = RemoteExecution adapterVersion model,
          ep_pooling = ProviderDefined, ep_cardInputTransformVersion = ''card-selection-text-v3'',
          ep_queryInputTransformVersion = ''card-selection-text-v3''\<rparr>\<rparr> in
      res_bind (assertValidCardSelectionProfile render p) (\<lambda>_. Inr p))"

definition CARD_SELECTION_EMBEDDING_PROFILE :: card_selection_profile where
  "CARD_SELECTION_EMBEDDING_PROFILE =
     \<lparr>cn_id = ''card-granite-97m-multilingual-r2-fp32-v2'', cn_version = ''2'',
      cn_model = ''ibm-granite/granite-embedding-97m-multilingual-r2'', cn_dimensions = whole 384,
      cn_admissionLimits = DEFAULT_CARD_ADMISSION_LIMITS,
      cn_embedding = Some
        \<lparr>ep_modelRevision = ''835ad14087e140460703cf0fae09f97d469d65c2'',
         ep_execution = LocalExecution
           \<lparr>le_adapterVersion = ''4.2.0'', le_artifactRepository = ''onnx-community/granite-embedding-97m-multilingual-r2-ONNX'',
            le_artifactRevision = ''536a9f241cb3f02a9c5995a1e708c784bd274859'', le_artifactPath = ''onnx/model.onnx'',
            le_artifactSha256 = ''68e592b160673d30250824c1116bc6ab33f70efb22b97c9e1d7ce1e69c1c9d70'',
            le_assetManifestSha256 = ''eb0923125496145fce8105135180b42f37d098c688837037d73e4ba11bd8c389'',
            le_precision = ''fp32''\<rparr>,
         ep_pooling = ClsPooling, ep_cardInputTransformVersion = ''card-selection-text-v3'',
         ep_queryInputTransformVersion = ''card-selection-text-v3''\<rparr>\<rparr>"

definition DETERMINISTIC_CARD_SELECTION_PROFILE :: card_selection_profile where
  "DETERMINISTIC_CARD_SELECTION_PROFILE =
     \<lparr>cn_id = ''card-deterministic-local-v2'', cn_version = ''2'', cn_model = ''deterministic-local-v1'',
      cn_dimensions = whole 8, cn_admissionLimits = DEFAULT_CARD_ADMISSION_LIMITS, cn_embedding = None\<rparr>"

section \<open>Comparing profiles\<close>

definition json_of_limits :: "(js_number \<Rightarrow> string) \<Rightarrow> card_admission_limits \<Rightarrow> json" where
  "json_of_limits render l = JObj [(''textMeasureProfileVersion'', Some (JStr (al_textMeasureProfileVersion l))),
     (''maxCardUnits'', Some (JNum (render (al_maxCardUnits l)))), (''maxQueryUnits'', Some (JNum (render (al_maxQueryUnits l))))]"

fun json_of_execution :: "card_execution \<Rightarrow> json" where
  "json_of_execution (LocalExecution x) = JObj [(''kind'', Some (JStr ''local'')), (''adapter'', Some (JStr ''transformers-js-onnx'')),
     (''adapterVersion'', Some (JStr (le_adapterVersion x))), (''artifactRepository'', Some (JStr (le_artifactRepository x))),
     (''artifactRevision'', Some (JStr (le_artifactRevision x))), (''artifactPath'', Some (JStr (le_artifactPath x))),
     (''artifactSha256'', Some (JStr (le_artifactSha256 x))), (''assetManifestSha256'', Some (JStr (le_assetManifestSha256 x))),
     (''precision'', Some (JStr (le_precision x)))]"
| "json_of_execution (RemoteExecution adapterVersion model) = JObj [(''kind'', Some (JStr ''remote'')),
     (''adapter'', Some (JStr ''openai-compatible'')), (''adapterVersion'', Some (JStr adapterVersion)), (''model'', Some (JStr model))]"

fun pooling_text :: "pooling \<Rightarrow> string" where
  "pooling_text ClsPooling = ''cls''"
| "pooling_text MeanPooling = ''mean''"
| "pooling_text ProviderDefined = ''provider_defined''"

definition json_of_selection_profile :: "(js_number \<Rightarrow> string) \<Rightarrow> card_selection_profile \<Rightarrow> json" where
  "json_of_selection_profile render p = JObj
     [(''id'', Some (JStr (cn_id p))), (''version'', Some (JStr (cn_version p))), (''model'', Some (JStr (cn_model p))),
      (''dimensions'', Some (JNum (render (cn_dimensions p)))), (''distance'', Some (JStr ''cosine'')),
      (''normalization'', Some (JStr ''l2'')), (''selectionTextSchemaVersion'', Some (JNum ''3'')),
      (''admissionLimits'', Some (json_of_limits render (cn_admissionLimits p))),
      (''modelRevision'', map_option (\<lambda>e. JStr (ep_modelRevision e)) (cn_embedding p)),
      (''execution'', map_option (\<lambda>e. json_of_execution (ep_execution e)) (cn_embedding p)),
      (''pooling'', map_option (\<lambda>e. JStr (pooling_text (ep_pooling e))) (cn_embedding p)),
      (''cardInputTransformVersion'', map_option (\<lambda>e. JStr (ep_cardInputTransformVersion e)) (cn_embedding p)),
      (''queryInputTransformVersion'', map_option (\<lambda>e. JStr (ep_queryInputTransformVersion e)) (cn_embedding p))]"

text \<open>Serializing meets the numbers in the order of the sorted members.\<close>

definition canonical_profile :: "(js_number \<Rightarrow> string) \<Rightarrow> card_selection_profile \<Rightarrow> selection_error + string" where
  "canonical_profile render p =
     (case List.find (\<lambda>x. \<not> is_finite x) [al_maxCardUnits (cn_admissionLimits p), al_maxQueryUnits (cn_admissionLimits p), cn_dimensions p] of
        Some x \<Rightarrow> Inl (CanonicalDigestInvariantError (''a non-finite number has no canonical form, received '' @ render x))
      | None \<Rightarrow> Inr (canonicalJson (json_of_selection_profile render p)))"

definition cardSelectionProfilesMatch ::
    "(js_number \<Rightarrow> string) \<Rightarrow> card_selection_profile \<Rightarrow> card_selection_profile \<Rightarrow> selection_error + bool" where
  "cardSelectionProfilesMatch render left right =
     res_bind (canonical_profile render left) (\<lambda>l. res_bind (canonical_profile render right) (\<lambda>r. Inr (l = r)))"

record card_embedding_provider =
  pv_providerKind :: "string option"
  pv_profile :: "card_selection_profile option"

definition assertCardEmbeddingProviderBinding ::
    "(js_number \<Rightarrow> string) \<Rightarrow> card_selection_profile \<Rightarrow> card_embedding_provider \<Rightarrow> selection_error + unit" where
  "assertCardEmbeddingProviderBinding render p provider =
     (let expected = (case cn_embedding p of None \<Rightarrow> ''test'' | Some e \<Rightarrow> execution_kind (ep_execution e));
          label = ''Card selection profile '' @ cn_id p in
      if pv_providerKind provider \<noteq> Some expected
      then Inl (SelectionTypeError (label @ '' requires a '' @ expected @ '' provider, received '' @
             (case pv_providerKind provider of None \<Rightarrow> ''undefined'' | Some k \<Rightarrow> k)))
      else (case pv_profile provider of
          None \<Rightarrow> Inl (SelectionTypeError (label @ '' requires a provider that states the profile it serves''))
        | Some served \<Rightarrow>
            res_bind (cardSelectionProfilesMatch render served p) (\<lambda>same.
              if \<not> same
              then Inl (SelectionTypeError (label @ '' does not match the profile the provider serves ('' @ cn_id served @ '')''))
              else Inr ())))"

end
