(* ===== verification/Candidate_Index.thy ===== *)
theory Candidate_Index
  imports Card_Selection
begin

text \<open>
  The prepared vectors of one catalog snapshot and their search: \<open>domain/card-candidate-index.ts\<close>.
  \<open>msqrt\<close> stands for \<open>Math.sqrt\<close> on values that are finite and not negative.
\<close>

record candidate_record =
  kr_cardId :: string
  kr_cardVersionId :: string
  kr_catalogSnapshotVersion :: string
  kr_selectionTextDigest :: string
  kr_embeddingProfileId :: string
  kr_embeddingProfileVersion :: string
  kr_embedding :: "js_number list"

record candidate_index =
  ci_catalogSnapshotVersion :: string
  ci_profileId :: string
  ci_profileVersion :: string
  ci_dimensions :: js_number
  ci_records :: "candidate_record list"
  ci_recordMagnitudes :: "js_number list"
  ci_selectionDigestsByVersionId :: "(string \<times> string list) list"

definition catalogSnapshotVersion ::
    "(string \<Rightarrow> string) \<Rightarrow> (js_number \<Rightarrow> string) \<Rightarrow> card_selection_entry list \<Rightarrow> card_selection_profile \<Rightarrow> selection_error + string" where
  "catalogSnapshotVersion sha256 render entries p =
     (if \<not> is_finite (cn_dimensions p)
      then Inl (CanonicalDigestInvariantError (''a non-finite number has no canonical form, received '' @ render (cn_dimensions p)))
      else Inr (canonicalDigest sha256 (JObj
        [(''profileId'', Some (JStr (cn_id p))), (''profileVersion'', Some (JStr (cn_version p))),
         (''dimensions'', Some (JNum (render (cn_dimensions p)))),
         (''cards'', Some (JArr (map (\<lambda>e. JObj [(''cardVersionId'', Some (JStr (en_cardVersionId e))),
            (''selectionTextDigest'', Some (JStr (en_selectionTextDigest e)))]) (sort_key en_cardVersionId entries))))])))"

section \<open>Vectors\<close>

definition js_sqrt :: "(rat \<Rightarrow> rat) \<Rightarrow> js_number \<Rightarrow> js_number" where
  "js_sqrt msqrt x = (case x of
     Finite q \<Rightarrow> if q < 0 then NotANumber else Finite (msqrt q)
   | PlusInfinity \<Rightarrow> PlusInfinity | _ \<Rightarrow> NotANumber)"

definition vectorMagnitude :: "(rat \<Rightarrow> rat) \<Rightarrow> js_number list \<Rightarrow> js_number" where
  "vectorMagnitude msqrt v = js_sqrt msqrt (foldl (\<lambda>squares c. js_plus squares (js_times c c)) (Finite 0) v)"

fun dot_product :: "js_number \<Rightarrow> js_number list \<Rightarrow> js_number list \<Rightarrow> js_number" where
  "dot_product acc [] rs = acc"
| "dot_product acc (l # ls) [] = dot_product (js_plus acc (js_times l (Finite 0))) ls []"
| "dot_product acc (l # ls) (r # rs) = dot_product (js_plus acc (js_times l r)) ls rs"

text \<open>A division by a finite number that is not zero.\<close>

definition js_divide :: "js_number \<Rightarrow> rat \<Rightarrow> js_number" where
  "js_divide x q = (case x of
     Finite p \<Rightarrow> Finite (p / q) | NotANumber \<Rightarrow> NotANumber
   | PlusInfinity \<Rightarrow> if 0 < q then PlusInfinity else MinusInfinity
   | MinusInfinity \<Rightarrow> if 0 < q then MinusInfinity else PlusInfinity)"

definition cosineSimilarityWithMagnitudes ::
    "js_number list \<Rightarrow> js_number list \<Rightarrow> js_number \<Rightarrow> js_number \<Rightarrow> js_number" where
  "cosineSimilarityWithMagnitudes left right leftMagnitude rightMagnitude =
     (case js_times leftMagnitude rightMagnitude of
        Finite m \<Rightarrow> if m = 0 then Finite 0
          else js_min (js_max (js_divide (dot_product (Finite 0) left right) m) (Finite (-1))) (Finite 1)
      | _ \<Rightarrow> Finite 0)"

definition cosineSimilarity :: "(rat \<Rightarrow> rat) \<Rightarrow> js_number list \<Rightarrow> js_number list \<Rightarrow> js_number" where
  "cosineSimilarity msqrt left right =
     cosineSimilarityWithMagnitudes left right (vectorMagnitude msqrt left) (vectorMagnitude msqrt right)"

section \<open>Building an index\<close>

definition length_number :: "'a list \<Rightarrow> js_number" where
  "length_number xs = whole (length xs)"

text \<open>Whether a vector can belong to the family a profile describes; the adapters of embedding models ask this of every answer.\<close>

definition CARD_EMBEDDING_L2_NORM_TOLERANCE :: rat where "CARD_EMBEDDING_L2_NORM_TOLERANCE = 1 / 1000"

definition cardSelectionVectorMatchesProfile :: "(rat \<Rightarrow> rat) \<Rightarrow> card_selection_profile \<Rightarrow> js_number list \<Rightarrow> bool" where
  "cardSelectionVectorMatchesProfile msqrt p v \<longleftrightarrow>
     \<not> (length_number v \<noteq> cn_dimensions p \<or> list_ex (\<lambda>c. \<not> is_finite c) v) \<and>
     (case foldl (\<lambda>total c. js_plus total (js_times c c)) (Finite 0) v of
        Finite q \<Rightarrow> 0 < q \<and> \<bar>msqrt q - 1\<bar> \<le> CARD_EMBEDDING_L2_NORM_TOLERANCE
      | _ \<Rightarrow> False)"

lemma matching_vector: "cardSelectionVectorMatchesProfile msqrt p v \<Longrightarrow>
    length_number v = cn_dimensions p \<and> list_all is_finite v \<and>
    (\<exists>m. vectorMagnitude msqrt v = Finite m \<and> 999 / 1000 \<le> m \<and> m \<le> 1001 / 1000)"
proof -
  assume m: "cardSelectionVectorMatchesProfile msqrt p v"
  then obtain q where q: "foldl (\<lambda>total c. js_plus total (js_times c c)) (Finite 0) v = Finite q" "0 < q" "\<bar>msqrt q - 1\<bar> \<le> 1 / 1000"
    by (auto simp: cardSelectionVectorMatchesProfile_def CARD_EMBEDDING_L2_NORM_TOLERANCE_def split: js_number.splits)
  then have "999 / 1000 \<le> msqrt q" "msqrt q \<le> 1001 / 1000" unfolding abs_le_iff by linarith+
  then show ?thesis using m q(1,2) by (simp add: cardSelectionVectorMatchesProfile_def vectorMagnitude_def js_sqrt_def list_all_iff list_ex_iff)
qed

definition record_identity :: "(string \<Rightarrow> string) \<Rightarrow> candidate_record \<Rightarrow> string" where
  "record_identity sha256 r = canonicalDigest sha256 (JArr [JStr (kr_cardVersionId r), JStr (kr_selectionTextDigest r),
     JStr (kr_embeddingProfileId r), JStr (kr_embeddingProfileVersion r)])"

definition check_record ::
    "(string \<Rightarrow> string) \<Rightarrow> (js_number \<Rightarrow> string) \<Rightarrow> card_selection_profile \<Rightarrow> candidate_record \<Rightarrow> string list \<Rightarrow>
     selection_error + string list" where
  "check_record sha256 render p r seen =
     (let label = ''card version '' @ kr_cardVersionId r in
      if length_number (kr_embedding r) \<noteq> cn_dimensions p
      then Inl (CardCandidateIndexInvariantError (label @ '' carries '' @ show_nat (length (kr_embedding r)) @
             '' dimensions where profile '' @ cn_id p @ '' declares '' @ render (cn_dimensions p)))
      else if list_ex (\<lambda>c. \<not> is_finite c) (kr_embedding r)
      then Inl (CardCandidateIndexInvariantError (label @ '' carries a non-finite vector component''))
      else if kr_embeddingProfileId r \<noteq> cn_id p \<or> kr_embeddingProfileVersion r \<noteq> cn_version p
      then Inl (CardCandidateIndexInvariantError (label @ '' was embedded under '' @ kr_embeddingProfileId r @ ''/'' @
             kr_embeddingProfileVersion r @ '', not '' @ cn_id p @ ''/'' @ cn_version p))
      else if record_identity sha256 r \<in> set seen
      then Inl (CardCandidateIndexInvariantError (label @ '' appears twice in one candidate index''))
      else Inr (set_add (record_identity sha256 r) seen))"

text \<open>The map from versions to digests holds one digest as a string and several as a set; both are the list of digests here.\<close>

definition add_digest :: "candidate_record \<Rightarrow> (string \<times> string list) list \<Rightarrow> (string \<times> string list) list" where
  "add_digest r m =
     (case map_of m (kr_cardVersionId r) of
        None \<Rightarrow> AList.update (kr_cardVersionId r) [kr_selectionTextDigest r] m
      | Some known \<Rightarrow> AList.update (kr_cardVersionId r) (set_add (kr_selectionTextDigest r) known) m)"

definition new_candidate_index ::
    "(string \<Rightarrow> string) \<Rightarrow> (js_number \<Rightarrow> string) \<Rightarrow> (rat \<Rightarrow> rat) \<Rightarrow> string \<Rightarrow> card_selection_profile \<Rightarrow> candidate_record list \<Rightarrow>
     selection_error + candidate_index" where
  "new_candidate_index sha256 render msqrt snapshotVersion p records =
     res_bind (res_fold (check_record sha256 render p) records []) (\<lambda>_.
       Inr \<lparr>ci_catalogSnapshotVersion = snapshotVersion, ci_profileId = cn_id p, ci_profileVersion = cn_version p,
            ci_dimensions = cn_dimensions p, ci_records = records,
            ci_recordMagnitudes = map (\<lambda>r. vectorMagnitude msqrt (kr_embedding r)) records,
            ci_selectionDigestsByVersionId = fold add_digest records []\<rparr>)"

definition index_size :: "candidate_index \<Rightarrow> nat" where
  "index_size ix = length (ci_records ix)"

definition index_covers :: "candidate_index \<Rightarrow> string \<Rightarrow> string \<Rightarrow> bool" where
  "index_covers ix cardVersionId digest =
     (case map_of (ci_selectionDigestsByVersionId ix) cardVersionId of None \<Rightarrow> False | Some known \<Rightarrow> digest \<in> set known)"

section \<open>The search\<close>

definition compareSimilarityValues :: "js_number \<Rightarrow> string \<Rightarrow> js_number \<Rightarrow> string \<Rightarrow> js_number" where
  "compareSimilarityValues leftSimilarity leftId rightSimilarity rightId =
     (if \<not> js_eq leftSimilarity rightSimilarity then js_minus rightSimilarity leftSimilarity
      else if leftId < rightId then Finite (-1)
      else if rightId < leftId then Finite 1 else Finite 0)"

definition compareBySimilarity :: "card_similarity \<Rightarrow> card_similarity \<Rightarrow> js_number" where
  "compareBySimilarity left right =
     compareSimilarityValues (sy_similarity left) (sy_cardVersionId left) (sy_similarity right) (sy_cardVersionId right)"

definition insertClosest :: "nat \<Rightarrow> card_similarity \<Rightarrow> card_similarity list \<Rightarrow> card_similarity list" where
  "insertClosest limit candidate closest = top_step compareBySimilarity limit candidate closest"

definition closest_step ::
    "js_number list \<Rightarrow> js_number \<Rightarrow> nat \<Rightarrow> string list option \<Rightarrow> candidate_record \<times> js_number \<Rightarrow> card_similarity list \<Rightarrow>
     card_similarity list" where
  "closest_step queryVector queryMagnitude limit eligible entry closest =
     (let (r, magnitude) = entry in
      if (case eligible of None \<Rightarrow> False | Some ids \<Rightarrow> kr_cardVersionId r \<notin> set ids) then closest
      else (let similarity = cosineSimilarityWithMagnitudes queryVector (kr_embedding r) queryMagnitude magnitude in
        if length closest = limit \<and> closest \<noteq> [] \<and>
           js_less_eq (Finite 0) (compareSimilarityValues similarity (kr_cardVersionId r)
             (sy_similarity (last closest)) (sy_cardVersionId (last closest)))
        then closest
        else insertClosest limit \<lparr>sy_cardId = kr_cardId r, sy_cardVersionId = kr_cardVersionId r, sy_similarity = similarity\<rparr> closest))"

definition topK ::
    "(rat \<Rightarrow> rat) \<Rightarrow> (js_number \<Rightarrow> string) \<Rightarrow> candidate_index \<Rightarrow> js_number list \<Rightarrow> nat \<Rightarrow> string list option \<Rightarrow>
     selection_error + card_similarity list" where
  "topK msqrt render ix queryVector limit eligible =
     (if limit \<le> 0 then Inr []
      else if length_number queryVector \<noteq> ci_dimensions ix
      then Inl (CardCandidateIndexInvariantError (''a query vector of '' @ show_nat (length queryVector) @
             '' dimensions cannot be compared against an index of '' @ render (ci_dimensions ix)))
      else Inr (fold (closest_step queryVector (vectorMagnitude msqrt queryVector) limit eligible)
             (zip (ci_records ix) (ci_recordMagnitudes ix)) []))"

end
