(* ===== verification/Candidate_Laws.thy ===== *)
theory Candidate_Laws
  imports Candidate_Index Hybrid_Laws
begin

text \<open>
  The text a Card is embedded from does not depend on the order in which its meaning was written down, and the
  search over an index is the prefix of the ranking of all eligible Cards, with similarities between -1 and 1.
\<close>

section \<open>The order of texts\<close>

lemma compareByCodePoint_less: "compareByCodePoint l r < 0 \<longleftrightarrow> l < r"
proof (induction l arbitrary: r)
  case Nil
  then show ?case by (cases r) simp_all
next
  case (Cons a l)
  then show ?case by (cases r) (auto simp: less_char_def)
qed

lemma compareByCodePoint_zero: "compareByCodePoint l r = 0 \<longleftrightarrow> l = r"
  by (induction l r rule: compareByCodePoint.induct) auto

lemma compareByCodePoint_le: "compareByCodePoint l r \<le> 0 \<longleftrightarrow> l \<le> r"
  using compareByCodePoint_less [of l r] compareByCodePoint_zero [of l r] by (auto simp: le_less)

lemma mset_place: "mset (place cmp x ys) = add_mset x (mset ys)"
  by (induction ys) auto

lemma mset_sort_with: "mset (sort_with cmp xs) = mset xs"
  by (induction xs) (simp_all add: sort_with_def mset_place)

lemma place_key:
  assumes "\<And>x y. cmp x y \<le> 0 \<longleftrightarrow> key x \<le> (key y :: 'k :: linorder)"
  shows "place cmp x ys = insort_key key x ys"
  by (induction ys) (simp_all add: assms)

lemma sort_with_key:
  assumes "\<And>x y. cmp x y \<le> 0 \<longleftrightarrow> key x \<le> (key y :: 'k :: linorder)"
  shows "sort_with cmp xs = sort_key key xs"
  unfolding sort_with_def sort_key_def by (rule foldr_cong) (simp_all add: place_key [OF assms])

lemma normalizeList_eq: "normalizeList nfkc values = sort (js_set (filter (\<lambda>t. t \<noteq> []) (map (normalizeSelectionText nfkc) values)))"
  unfolding normalizeList_def by (subst sort_with_key [where key = "\<lambda>x. x"]) (simp_all add: compareByCodePoint_le)

lemma normalizeList_set:
  assumes "normalizeSelectionText nfkc ` set xs - {[]} = normalizeSelectionText nfkc ` set ys - {[]}"
  shows "normalizeList nfkc xs = normalizeList nfkc ys"
proof -
  have s: "set (js_set (filter (\<lambda>t. t \<noteq> []) (map (normalizeSelectionText nfkc) zs))) = normalizeSelectionText nfkc ` set zs - {[]}" for zs
    by auto
  have "mset (js_set (filter (\<lambda>t. t \<noteq> []) (map (normalizeSelectionText nfkc) xs))) =
      mset (js_set (filter (\<lambda>t. t \<noteq> []) (map (normalizeSelectionText nfkc) ys)))"
    using assms s [of xs] s [of ys] by (simp add: set_eq_iff_mset_eq_distinct [symmetric])
  then show ?thesis unfolding normalizeList_eq by (metis sort_key_perm_unique distinct_js_set map_ident)
qed

definition scope_order :: "card_selection_scope \<Rightarrow> string \<times> string" where
  "scope_order s = selection_scope_ref s"

lemma compareScopes_le: "compareScopes l r \<le> 0 \<longleftrightarrow> scope_order l \<le> scope_order r"
proof -
  obtain a b c d where s: "scope_order l = (a, b)" "scope_order r = (c, d)" by (metis prod.exhaust)
  show ?thesis
    using compareByCodePoint_less [of a c] compareByCodePoint_zero [of a c] compareByCodePoint_le [of b d] s
    by (auto simp: compareScopes_def or_compare_def scope_order_def less_eq_prod_def)
qed

lemma sorted_scopes: "sort_with compareScopes ss = sort_key scope_order ss"
  by (rule sort_with_key) (rule compareScopes_le)

definition parameter_order :: "http_parameter_ref \<Rightarrow> string \<times> string" where
  "parameter_order p = (param_location_text (hp_location p), hp_name p)"

lemma compare_parameters_le: "compare_parameters l r \<le> 0 \<longleftrightarrow> parameter_order l \<le> parameter_order r"
  using compareByCodePoint_less [of "param_location_text (hp_location l)" "param_location_text (hp_location r)"]
    compareByCodePoint_zero [of "param_location_text (hp_location l)" "param_location_text (hp_location r)"]
    compareByCodePoint_le [of "hp_name l" "hp_name r"]
  by (auto simp: compare_parameters_def or_compare_def parameter_order_def less_eq_prod_def)

text \<open>
  The same meaning, written down in another order, with repetitions, blank entries, or in another
  spelling that the normalization (NFKC and white space) identifies. A scope's fields, its reference
  included, are compared by what they normalize to.
\<close>

definition same_text :: "(string \<Rightarrow> string) \<Rightarrow> string \<Rightarrow> string \<Rightarrow> bool" where
  "same_text nfkc a b \<longleftrightarrow> normalizeSelectionText nfkc a = normalizeSelectionText nfkc b"

definition same_texts :: "(string \<Rightarrow> string) \<Rightarrow> string list \<Rightarrow> string list \<Rightarrow> bool" where
  "same_texts nfkc xs ys \<longleftrightarrow> normalizeSelectionText nfkc ` set xs - {[]} = normalizeSelectionText nfkc ` set ys - {[]}"

definition same_ref :: "(string \<Rightarrow> string) \<Rightarrow> scope_ref \<Rightarrow> scope_ref \<Rightarrow> bool" where
  "same_ref nfkc r s \<longleftrightarrow> same_text nfkc (scopeId r) (scopeId s) \<and> same_text nfkc (scopeVersion r) (scopeVersion s)"

definition same_parameter :: "(string \<Rightarrow> string) \<Rightarrow> http_parameter_ref \<Rightarrow> http_parameter_ref \<Rightarrow> bool" where
  "same_parameter nfkc p q \<longleftrightarrow>
     hp_location p = hp_location q \<and> same_text nfkc (hp_name p) (hp_name q) \<and> hp_required p = hp_required q"

fun same_scope :: "(string \<Rightarrow> string) \<Rightarrow> approved_scope \<Rightarrow> approved_scope \<Rightarrow> bool" where
  "same_scope nfkc (SqlSourceScope r c s t cols) (SqlSourceScope r' c' s' t' cols') \<longleftrightarrow>
     same_ref nfkc r r' \<and> same_text nfkc c c' \<and> same_text nfkc s s' \<and> same_text nfkc t t' \<and> same_texts nfkc cols cols'"
| "same_scope nfkc (HttpSourceScope r c m p i ps) (HttpSourceScope r' c' m' p' i' ps') \<longleftrightarrow>
     same_ref nfkc r r' \<and> same_text nfkc c c' \<and> same_text nfkc m m' \<and> same_text nfkc p p' \<and>
     rel_option (same_text nfkc) i i' \<and>
     (\<exists>qs. mset qs = mset ps' \<and> list_all2 (same_parameter nfkc) ps qs)"
| "same_scope nfkc (ManagedDocumentScope r d s) (ManagedDocumentScope r' d' s') \<longleftrightarrow>
     same_ref nfkc r r' \<and> same_text nfkc (di_sourceId d) (di_sourceId d') \<and> same_text nfkc (di_documentId d) (di_documentId d')"
| "same_scope nfkc _ _ \<longleftrightarrow> False"

lemma location_text_inj: "param_location_text a = param_location_text b \<Longrightarrow> a = b"
  by (cases a; cases b) simp_all

lemma same_parameters_text:
  assumes "mset qs = mset ps'" and "list_all2 (same_parameter nfkc) ps qs"
  shows "mset (map (\<lambda>q. q\<lparr>hp_name := normalizeSelectionText nfkc (hp_name q)\<rparr>) ps) =
    mset (map (\<lambda>q. q\<lparr>hp_name := normalizeSelectionText nfkc (hp_name q)\<rparr>) ps')"
proof -
  have "map (\<lambda>q. q\<lparr>hp_name := normalizeSelectionText nfkc (hp_name q)\<rparr>) ps =
      map (\<lambda>q. q\<lparr>hp_name := normalizeSelectionText nfkc (hp_name q)\<rparr>) qs"
    using assms(2) by (induction rule: list_all2_induct) (auto simp: same_parameter_def same_text_def)
  then show ?thesis using assms(1) by simp
qed

fun distinct_parameters :: "(string \<Rightarrow> string) \<Rightarrow> approved_scope \<Rightarrow> bool" where
  "distinct_parameters nfkc (HttpSourceScope r c m p i ps) \<longleftrightarrow>
     distinct (map (\<lambda>q. (hp_location q, normalizeSelectionText nfkc (hp_name q))) ps)"
| "distinct_parameters nfkc _ \<longleftrightarrow> True"

lemma same_scope_text:
  "same_scope nfkc s t \<Longrightarrow> distinct_parameters nfkc s \<Longrightarrow> toSelectionScope nfkc s = toSelectionScope nfkc t"
proof (induction nfkc s t rule: same_scope.induct)
  case (1 nfkc r c s t cols r' c' s' t' cols')
  then show ?case using normalizeList_set [of nfkc cols cols']
    by (simp add: same_texts_def same_text_def same_ref_def)
next
  case (2 nfkc r c m p i ps r' c' m' p' i' ps')
  let ?f = "\<lambda>q. q\<lparr>hp_name := normalizeSelectionText nfkc (hp_name q)\<rparr>"
  have m: "mset (map ?f ps) = mset (map ?f ps')" using 2 same_parameters_text by auto
  have "map parameter_order (map ?f ps) =
      map (\<lambda>(l, n). (param_location_text l, n)) (map (\<lambda>q. (hp_location q, normalizeSelectionText nfkc (hp_name q))) ps)"
    by (simp add: parameter_order_def)
  moreover have "distinct (map (\<lambda>(l, n :: string). (param_location_text l, n)) hs)" if "distinct hs" for hs
    using that by (rule distinct_map [THEN iffD2, OF conjI]) (auto simp: inj_on_def location_text_inj)
  moreover have "distinct (map (\<lambda>q. (hp_location q, normalizeSelectionText nfkc (hp_name q))) ps)" using 2 by simp
  ultimately have "distinct (map parameter_order (map ?f ps))" by presburger
  then have sorted: "sort_key parameter_order (map ?f ps) = sort_key parameter_order (map ?f ps')"
    by (rule sort_key_perm_unique [OF m])
  have "map_option (normalizeSelectionText nfkc) i = map_option (normalizeSelectionText nfkc) i'"
    using 2 by (cases i; cases i') (auto simp: same_text_def)
  then show ?case
    using 2 sorted by (simp add: normalizeParameters_def sort_with_key [OF compare_parameters_le] same_text_def same_ref_def)
qed (simp_all add: same_text_def same_ref_def)

definition same_meaning :: "(string \<Rightarrow> string) \<Rightarrow> approved_card \<Rightarrow> approved_card \<Rightarrow> bool" where
  "same_meaning nfkc c d \<longleftrightarrow>
     (let m = ce_meaning c; n = ce_meaning d in
      same_text nfkc (cm_description m) (cm_description n) \<and>
      same_texts nfkc (cm_representativeQuestions m) (cm_representativeQuestions n) \<and>
      same_texts nfkc (cm_aliases m) (cm_aliases n) \<and> same_texts nfkc (cm_keywords m) (cm_keywords n)) \<and>
     (\<exists>ss. mset ss = mset (ce_scopes d) \<and> list_all2 (same_scope nfkc) (ce_scopes c) ss)"

text \<open>
  A Card whose scopes have different references, and whose HTTP scopes name no parameter of a location
  twice, after normalization. Among equal ones the sorts of the source keep the order of writing.
\<close>

definition unambiguous :: "(string \<Rightarrow> string) \<Rightarrow> approved_card \<Rightarrow> bool" where
  "unambiguous nfkc c \<longleftrightarrow>
     distinct (map (\<lambda>s. (normalizeSelectionText nfkc (scopeId (rs_reference s)), normalizeSelectionText nfkc (scopeVersion (rs_reference s))))
       (ce_scopes c)) \<and>
     list_all (distinct_parameters nfkc) (ce_scopes c)"

lemma scope_order_of: "scope_order (toSelectionScope nfkc s) =
    (normalizeSelectionText nfkc (scopeId (rs_reference s)), normalizeSelectionText nfkc (scopeVersion (rs_reference s)))"
  by (cases s) (simp_all add: scope_order_def)

lemma same_meaning_text:
  assumes "same_meaning nfkc c d" and "unambiguous nfkc c"
  shows "buildCardSelectionText nfkc c = buildCardSelectionText nfkc d"
proof -
  obtain ss where ss: "mset ss = mset (ce_scopes d)" "list_all2 (same_scope nfkc) (ce_scopes c) ss"
    using assms(1) by (auto simp: same_meaning_def)
  have params: "list_all (distinct_parameters nfkc) (ce_scopes c)" using assms(2) by (simp add: unambiguous_def)
  have "map (toSelectionScope nfkc) (ce_scopes c) = map (toSelectionScope nfkc) ss"
    using ss(2) params by (induction rule: list_all2_induct) (simp_all add: same_scope_text)
  then have m: "mset (map (toSelectionScope nfkc) (ce_scopes c)) = mset (map (toSelectionScope nfkc) (ce_scopes d))"
    using ss(1) by simp
  have "map scope_order (map (toSelectionScope nfkc) (ce_scopes c)) =
      map (\<lambda>s. (normalizeSelectionText nfkc (scopeId (rs_reference s)), normalizeSelectionText nfkc (scopeVersion (rs_reference s)))) (ce_scopes c)"
    by (simp add: scope_order_of)
  then have "distinct (map scope_order (map (toSelectionScope nfkc) (ce_scopes c)))"
    using assms(2) unfolding unambiguous_def by presburger
  then have "sort_with compareScopes (map (toSelectionScope nfkc) (ce_scopes c)) =
      sort_with compareScopes (map (toSelectionScope nfkc) (ce_scopes d))"
    unfolding sorted_scopes by (rule sort_key_perm_unique [OF m])
  then show ?thesis
    using assms normalizeList_set [of nfkc "cm_representativeQuestions (ce_meaning c)" "cm_representativeQuestions (ce_meaning d)"]
      normalizeList_set [of nfkc "cm_aliases (ce_meaning c)" "cm_aliases (ce_meaning d)"]
      normalizeList_set [of nfkc "cm_keywords (ce_meaning c)" "cm_keywords (ce_meaning d)"]
    by (simp add: buildCardSelectionText_def same_meaning_def same_texts_def same_text_def Let_def)
qed

section \<open>Similarities\<close>

lemma dot_finite: "\<lbrakk>is_finite acc; \<forall>x \<in> set ls. is_finite x; \<forall>x \<in> set rs. is_finite x\<rbrakk> \<Longrightarrow> is_finite (dot_product acc ls rs)"
proof (induction acc ls rs rule: dot_product.induct)
  case (2 acc l ls)
  then obtain p q where "acc = Finite p" "l = Finite q" using finiteE by (metis list.set_intros(1))
  then show ?case using 2 by simp
next
  case (3 acc l ls r rs)
  then obtain p q s where "acc = Finite p" "l = Finite q" "r = Finite s" using finiteE by (metis list.set_intros(1))
  then show ?case using 3 by simp
qed simp

lemma squares_not_finite:
  "\<not> is_finite acc \<or> (\<exists>x \<in> set v. \<not> is_finite x) \<Longrightarrow> \<not> is_finite (foldl (\<lambda>s c. js_plus s (js_times c c)) acc v)"
proof (induction v arbitrary: acc)
  case (Cons x v)
  have "\<not> is_finite (js_plus acc (js_times x x))" if "\<not> is_finite acc \<or> \<not> is_finite x"
    using that by (cases acc; cases x) (auto simp: js_times_def js_sign_def is_finite_def)
  then show ?case using Cons by auto
qed simp

lemma magnitude_finite: "is_finite (vectorMagnitude msqrt v) \<Longrightarrow> \<forall>x \<in> set v. is_finite x"
proof (rule ccontr)
  assume fin: "is_finite (vectorMagnitude msqrt v)" and "\<not> (\<forall>x \<in> set v. is_finite x)"
  then have "\<not> is_finite (foldl (\<lambda>s c. js_plus s (js_times c c)) (Finite 0) v)" using squares_not_finite by blast
  then show False
    using fin by (cases "foldl (\<lambda>s c. js_plus s (js_times c c)) (Finite 0) v") (simp_all add: vectorMagnitude_def js_sqrt_def is_finite_def)
qed

lemma times_finite: "js_times x y = Finite m \<Longrightarrow> is_finite x \<and> is_finite y"
  by (cases x; cases y) (auto simp: js_times_def js_sign_def is_finite_def Let_def split: if_splits)

lemma similarity_bounds:
  assumes "\<forall>x \<in> set w. is_finite x"
  shows "\<exists>q. cosineSimilarityWithMagnitudes v w (vectorMagnitude msqrt v) (vectorMagnitude msqrt w) = Finite q \<and> -1 \<le> q \<and> q \<le> 1"
proof (cases "js_times (vectorMagnitude msqrt v) (vectorMagnitude msqrt w)")
  case (Finite m)
  then have "\<forall>x \<in> set v. is_finite x" using times_finite magnitude_finite by blast
  then have "is_finite (dot_product (Finite 0) v w)" using dot_finite [of "Finite 0" v w] assms by simp
  then obtain d where "dot_product (Finite 0) v w = Finite d" using finiteE by blast
  then show ?thesis using Finite by (simp add: cosineSimilarityWithMagnitudes_def js_divide_def)
qed (simp_all add: cosineSimilarityWithMagnitudes_def)

section \<open>The search\<close>

definition similarity_key :: "card_similarity \<Rightarrow> rat \<times> string" where
  "similarity_key y = (- finite_score (sy_similarity y), sy_cardVersionId y)"

lemma similarity_compare_less:
  assumes "is_finite (sy_similarity c)" and "is_finite (sy_similarity d)"
  shows "js_less (compareBySimilarity c d) (Finite 0) \<longleftrightarrow> similarity_key c < similarity_key d"
proof -
  obtain p q where "sy_similarity c = Finite p" "sy_similarity d = Finite q" using assms finiteE by metis
  then show ?thesis
    by (auto simp: compareBySimilarity_def compareSimilarityValues_def similarity_key_def finite_score_def less_prod_def not_less_iff_gr_or_eq)
qed

lemma similarity_compare_ge:
  assumes "is_finite (sy_similarity c)" and "is_finite (sy_similarity d)"
  shows "js_less_eq (Finite 0) (compareBySimilarity c d) \<longleftrightarrow> similarity_key d \<le> similarity_key c"
proof -
  obtain p q where "sy_similarity c = Finite p" "sy_similarity d = Finite q" using assms finiteE by metis
  then show ?thesis
    by (auto simp: compareBySimilarity_def compareSimilarityValues_def similarity_key_def finite_score_def less_eq_prod_def less_prod_def)
qed

interpretation semantic: keyed_comparison compareBySimilarity "\<lambda>c. is_finite (sy_similarity c)" similarity_key
  by unfold_locales (rule similarity_compare_less, assumption+, rule similarity_compare_ge, assumption+)

definition similarity_of :: "(rat \<Rightarrow> rat) \<Rightarrow> js_number list \<Rightarrow> candidate_record \<Rightarrow> card_similarity" where
  "similarity_of msqrt v r = \<lparr>sy_cardId = kr_cardId r, sy_cardVersionId = kr_cardVersionId r,
     sy_similarity = cosineSimilarity msqrt v (kr_embedding r)\<rparr>"

definition admitted_record :: "string list option \<Rightarrow> candidate_record \<Rightarrow> bool" where
  "admitted_record eligible r \<longleftrightarrow> (case eligible of None \<Rightarrow> True | Some ids \<Rightarrow> kr_cardVersionId r \<in> set ids)"

lemma closest_step_eq:
  assumes "0 < limit" and "m = vectorMagnitude msqrt (kr_embedding r)"
  shows "closest_step v (vectorMagnitude msqrt v) limit eligible (r, m) closest =
    (if admitted_record eligible r then top_step compareBySimilarity limit (similarity_of msqrt v r) closest else closest)"
proof (cases "length closest = limit \<and> closest \<noteq> [] \<and>
    js_less_eq (Finite 0) (compareBySimilarity (similarity_of msqrt v r) (last closest))")
  case True
  then have "top_step compareBySimilarity limit (similarity_of msqrt v r) closest = closest" by (simp add: top_step_def)
  then show ?thesis
    using True assms(2) by (auto simp: closest_step_def admitted_record_def similarity_of_def cosineSimilarity_def compareBySimilarity_def
        Let_def insertClosest_def split: option.splits)
next
  case False
  then show ?thesis
    using assms(2) by (auto simp: closest_step_def admitted_record_def similarity_of_def cosineSimilarity_def compareBySimilarity_def
        Let_def insertClosest_def split: option.splits)
qed

lemma closest_fold:
  assumes "0 < limit"
  shows "fold (closest_step v (vectorMagnitude msqrt v) limit eligible)
      (zip rs (map (\<lambda>r. vectorMagnitude msqrt (kr_embedding r)) rs)) closest =
    fold (top_step compareBySimilarity limit) (map (similarity_of msqrt v) (filter (admitted_record eligible) rs)) closest"
  by (induction rs arbitrary: closest) (simp_all add: closest_step_eq [OF assms])

definition index_sound :: "(rat \<Rightarrow> rat) \<Rightarrow> candidate_index \<Rightarrow> bool" where
  "index_sound msqrt ix \<longleftrightarrow>
     ci_recordMagnitudes ix = map (\<lambda>r. vectorMagnitude msqrt (kr_embedding r)) (ci_records ix) \<and>
     (\<forall>r \<in> set (ci_records ix). (\<forall>x \<in> set (kr_embedding r). is_finite x) \<and> length_number (kr_embedding r) = ci_dimensions ix)"

lemma check_records:
  assumes "res_fold (check_record sha256 render p) rs seen = Inr seen'"
  shows "\<forall>r \<in> set rs. (\<forall>x \<in> set (kr_embedding r). is_finite x) \<and> length_number (kr_embedding r) = cn_dimensions p \<and>
    kr_embeddingProfileId r = cn_id p \<and> kr_embeddingProfileVersion r = cn_version p"
    and "distinct (map (record_identity sha256) rs)" and "record_identity sha256 ` set rs \<inter> set seen = {}"
proof -
  have "(\<forall>r \<in> set rs. (\<forall>x \<in> set (kr_embedding r). is_finite x) \<and> length_number (kr_embedding r) = cn_dimensions p \<and>
    kr_embeddingProfileId r = cn_id p \<and> kr_embeddingProfileVersion r = cn_version p) \<and>
    distinct (map (record_identity sha256) rs) \<and> record_identity sha256 ` set rs \<inter> set seen = {}"
    using assms
  proof (induction rs arbitrary: seen)
    case (Cons r rs)
    then obtain s where s: "check_record sha256 render p r seen = Inr s" "res_fold (check_record sha256 render p) rs s = Inr seen'"
      by (auto simp: res_bind_eq_Inr)
    then have "s = set_add (record_identity sha256 r) seen" "record_identity sha256 r \<notin> set seen"
      "\<forall>x \<in> set (kr_embedding r). is_finite x" "length_number (kr_embedding r) = cn_dimensions p"
      "kr_embeddingProfileId r = cn_id p" "kr_embeddingProfileVersion r = cn_version p"
      by (auto simp: check_record_def Let_def list_ex_iff split: if_splits)
    then show ?case using Cons.IH [OF s(2)] by auto
  qed simp
  then show "\<forall>r \<in> set rs. (\<forall>x \<in> set (kr_embedding r). is_finite x) \<and> length_number (kr_embedding r) = cn_dimensions p \<and>
      kr_embeddingProfileId r = cn_id p \<and> kr_embeddingProfileVersion r = cn_version p"
    and "distinct (map (record_identity sha256) rs)" and "record_identity sha256 ` set rs \<inter> set seen = {}" by blast+
qed

lemma new_index_sound:
  assumes "new_candidate_index sha256 render msqrt v p rs = Inr ix"
  shows "index_sound msqrt ix" and "ci_records ix = rs" and "ci_catalogSnapshotVersion ix = v" and "ci_dimensions ix = cn_dimensions p"
  using assms check_records(1) [of sha256 render p rs "[]"] by (auto simp: new_candidate_index_def index_sound_def res_bind_eq_Inr)

lemma topK_prefix:
  assumes sound: "index_sound msqrt ix" and dim: "length_number v = ci_dimensions ix"
  shows "topK msqrt render ix v limit eligible =
    Inr (take limit (sort_key similarity_key (map (similarity_of msqrt v) (filter (admitted_record eligible) (ci_records ix)))))"
proof (cases "limit = 0")
  case False
  have mags: "ci_recordMagnitudes ix = map (\<lambda>r. vectorMagnitude msqrt (kr_embedding r)) (ci_records ix)"
    using sound unfolding index_sound_def by blast
  have "is_finite (sy_similarity d)" if d: "d \<in> set (map (similarity_of msqrt v) (filter (admitted_record eligible) (ci_records ix)))" for d
  proof -
    obtain r where "r \<in> set (ci_records ix)" "d = similarity_of msqrt v r" using d by auto
    moreover from this have "\<forall>x \<in> set (kr_embedding r). is_finite x" using sound unfolding index_sound_def by blast
    ultimately show ?thesis using similarity_bounds [of "kr_embedding r" v msqrt]
      by (auto simp: similarity_of_def cosineSimilarity_def)
  qed
  then show ?thesis
    using False dim semantic.bounded_prefix [of "map (similarity_of msqrt v) (filter (admitted_record eligible) (ci_records ix))" limit]
      closest_fold [of limit v msqrt eligible "ci_records ix" "[]"]
    by (simp add: topK_def mags)
qed (simp add: topK_def)

section \<open>Coverage\<close>

lemma digests_of:
  "index_digest \<in> set (case map_of (fold add_digest rs m) v of None \<Rightarrow> [] | Some ds \<Rightarrow> ds) \<longleftrightarrow>
     index_digest \<in> set (case map_of m v of None \<Rightarrow> [] | Some ds \<Rightarrow> ds) \<or>
     (\<exists>r \<in> set rs. kr_cardVersionId r = v \<and> kr_selectionTextDigest r = index_digest)"
proof (induction rs arbitrary: m)
  case (Cons r rs)
  have "index_digest \<in> set (case map_of (add_digest r m) v of None \<Rightarrow> [] | Some ds \<Rightarrow> ds) \<longleftrightarrow>
      index_digest \<in> set (case map_of m v of None \<Rightarrow> [] | Some ds \<Rightarrow> ds) \<or> (kr_cardVersionId r = v \<and> kr_selectionTextDigest r = index_digest)"
    by (cases "map_of m (kr_cardVersionId r)") (auto simp: add_digest_def update_conv')
  then show ?case using Cons.IH by auto
qed simp

lemma covers_iff:
  assumes "new_candidate_index sha256 render msqrt v p rs = Inr ix"
  shows "index_covers ix cardVersionId digest \<longleftrightarrow>
    (\<exists>r \<in> set rs. kr_cardVersionId r = cardVersionId \<and> kr_selectionTextDigest r = digest)"
  using assms digests_of [of digest rs "[]" cardVersionId]
  by (auto simp: new_candidate_index_def res_bind_eq_Inr index_covers_def split: option.splits)

end
