(* ===== verification/Candidate_Store.thy ===== *)
theory Candidate_Store
  imports Candidate_Index Request_Errors
begin

text \<open>
  The store of prepared candidate indexes, \<open>infrastructure/in-memory-card-candidate-index-store.ts\<close>, as steps
  on its state: a request is answered at once or joins a build, and a build ends in two steps, the swap of the
  pointer and the \<open>finally\<close> of its promise, after which everyone who joined is answered. Builds are numbered in the
  order in which they start; \<open>sr_waiting\<close> and \<open>sr_answered\<close> hold the promises the store has handed out.
\<close>

record index_request =
  ir_entries :: "card_selection_entry list"
  ir_catalogSnapshotVersion :: string
  ir_profile :: card_selection_profile

record index_store =
  sr_current :: "candidate_index option"
  sr_pending :: "nat option"
  sr_pendingVersion :: "string option"
  sr_started :: nat
  sr_running :: "(nat \<times> index_request) list"
  sr_ended :: "(nat \<times> string \<times> (request_error + candidate_index)) list"
  sr_waiting :: "(nat \<times> index_request) list"
  sr_answered :: "(index_request \<times> (request_error + candidate_index)) list"

definition new_index_store :: index_store where
  "new_index_store = \<lparr>sr_current = None, sr_pending = None, sr_pendingVersion = None, sr_started = 0, sr_running = [], sr_ended = [],
     sr_waiting = [], sr_answered = []\<rparr>"

section \<open>One build\<close>

fun assertEntriesWithinLimit :: "(js_number \<Rightarrow> string) \<Rightarrow> card_selection_profile \<Rightarrow> card_selection_entry list \<Rightarrow> selection_error + unit" where
  "assertEntriesWithinLimit render p [] = Inr ()"
| "assertEntriesWithinLimit render p (e # es) =
     (let l = cn_admissionLimits p in
      if js_less (al_maxCardUnits l) (whole (en_units e))
      then Inl (CardSelectionInputLimitError (''card version '' @ en_cardVersionId e @ '' measures '' @ show_nat (en_units e) @
             '' '' @ al_textMeasureProfileVersion l @ '' units, above the '' @ render (al_maxCardUnits l) @ '' this profile admits''))
      else assertEntriesWithinLimit render p es)"

text \<open>The provider answers texts under the caller's keys with vectors under those keys; what it answers is a parameter.\<close>

type_synonym embed_port = "card_selection_profile \<Rightarrow> (string \<times> string) list \<Rightarrow> request_error + (string \<times> js_number list) list"

definition embedEntries :: "embed_port \<Rightarrow> index_request \<Rightarrow> request_error + (string \<times> js_number list) list" where
  "embedEntries provider request =
     (if length (ir_entries request) = 0 then Inr []
      else res_bind (provider (ir_profile request) (map (\<lambda>e. (en_cardVersionId e, en_payload e)) (ir_entries request))) (\<lambda>outputs.
        Inr (js_map outputs)))"

fun build_records ::
    "index_request \<Rightarrow> (string \<times> js_number list) list \<Rightarrow> card_selection_entry list \<Rightarrow> request_error + candidate_record list" where
  "build_records request vectors [] = Inr []"
| "build_records request vectors (e # es) =
     (case map_of vectors (en_cardVersionId e) of
        None \<Rightarrow> Inl (CardEmbeddingFault InvalidResponse False)
      | Some vector \<Rightarrow> res_bind (build_records request vectors es) (\<lambda>rs. Inr
          (\<lparr>kr_cardId = en_cardId e, kr_cardVersionId = en_cardVersionId e,
            kr_catalogSnapshotVersion = ir_catalogSnapshotVersion request, kr_selectionTextDigest = en_selectionTextDigest e,
            kr_embeddingProfileId = cn_id (ir_profile request), kr_embeddingProfileVersion = cn_version (ir_profile request),
            kr_embedding = vector\<rparr> # rs)))"

definition build_index ::
    "(string \<Rightarrow> string) \<Rightarrow> (js_number \<Rightarrow> string) \<Rightarrow> (rat \<Rightarrow> rat) \<Rightarrow> embed_port \<Rightarrow> index_request \<Rightarrow> request_error + candidate_index" where
  "build_index sha256 render msqrt provider request =
     res_bind (lift_domain (assertEntriesWithinLimit render (ir_profile request) (ir_entries request))) (\<lambda>_.
     res_bind (embedEntries provider request) (\<lambda>vectors.
     res_bind (build_records request vectors (ir_entries request)) (\<lambda>records.
       lift_domain (new_candidate_index sha256 render msqrt (ir_catalogSnapshotVersion request) (ir_profile request) records))))"

section \<open>Steps\<close>

definition acquire_pending :: "index_request \<Rightarrow> index_store \<Rightarrow> index_store" where
  "acquire_pending request s =
     (let s1 = (if sr_pending s = None \<or> sr_pendingVersion s \<noteq> Some (ir_catalogSnapshotVersion request)
        then s\<lparr>sr_pendingVersion := Some (ir_catalogSnapshotVersion request), sr_pending := Some (sr_started s),
               sr_started := sr_started s + 1, sr_running := sr_running s @ [(sr_started s, request)]\<rparr>
        else s)
      in s1\<lparr>sr_waiting := sr_waiting s1 @ [(the (sr_pending s1), request)]\<rparr>)"

definition acquire :: "index_request \<Rightarrow> index_store \<Rightarrow> index_store" where
  "acquire request s =
     (case sr_current s of
        Some ix \<Rightarrow> if ci_catalogSnapshotVersion ix = ir_catalogSnapshotVersion request
          then s\<lparr>sr_answered := sr_answered s @ [(request, Inr ix)]\<rparr> else acquire_pending request s
      | None \<Rightarrow> acquire_pending request s)"

definition build_done ::
    "(string \<Rightarrow> string) \<Rightarrow> (js_number \<Rightarrow> string) \<Rightarrow> (rat \<Rightarrow> rat) \<Rightarrow> embed_port \<Rightarrow> nat \<Rightarrow> index_store \<Rightarrow> index_store" where
  "build_done sha256 render msqrt provider k s =
     (case map_of (sr_running s) k of
        None \<Rightarrow> s
      | Some request \<Rightarrow>
          (let result = build_index sha256 render msqrt provider request in
           s\<lparr>sr_running := filter (\<lambda>(j, _). j \<noteq> k) (sr_running s),
             sr_current := (case result of Inr ix \<Rightarrow> Some ix | Inl _ \<Rightarrow> sr_current s),
             sr_ended := sr_ended s @ [(k, ir_catalogSnapshotVersion request, result)]\<rparr>))"

definition build_settled :: "nat \<Rightarrow> index_store \<Rightarrow> index_store" where
  "build_settled k s =
     (case map_of (sr_ended s) k of
        None \<Rightarrow> s
      | Some (version, result) \<Rightarrow>
          (let s1 = (if sr_pendingVersion s = Some version then s\<lparr>sr_pending := None, sr_pendingVersion := None\<rparr> else s) in
           s1\<lparr>sr_ended := filter (\<lambda>(j, _). j \<noteq> k) (sr_ended s1),
              sr_waiting := filter (\<lambda>(j, _). j \<noteq> k) (sr_waiting s1),
              sr_answered := sr_answered s1 @ map (\<lambda>(_, request). (request, result)) (filter (\<lambda>(j, _). j = k) (sr_waiting s1))\<rparr>))"

text \<open>What a process can do with a store; the provider may answer every build differently.\<close>

inductive store_step ::
    "(string \<Rightarrow> string) \<Rightarrow> (js_number \<Rightarrow> string) \<Rightarrow> (rat \<Rightarrow> rat) \<Rightarrow> (index_request \<Rightarrow> bool) \<Rightarrow> index_store \<Rightarrow> index_store \<Rightarrow> bool"
    for sha256 render msqrt honest where
  step_acquire: "honest request \<Longrightarrow> store_step sha256 render msqrt honest s (acquire request s)"
| step_done: "store_step sha256 render msqrt honest s (build_done sha256 render msqrt provider k s)"
| step_settled: "store_step sha256 render msqrt honest s (build_settled k s)"

section \<open>Laws\<close>

definition built_for ::
    "(string \<Rightarrow> string) \<Rightarrow> (js_number \<Rightarrow> string) \<Rightarrow> (rat \<Rightarrow> rat) \<Rightarrow> (index_request \<Rightarrow> bool) \<Rightarrow> string \<Rightarrow> candidate_index \<Rightarrow> bool" where
  "built_for sha256 render msqrt honest version ix \<longleftrightarrow>
     (\<exists>request provider. honest request \<and> ir_catalogSnapshotVersion request = version \<and>
        build_index sha256 render msqrt provider request = Inr ix)"

definition builds :: "index_store \<Rightarrow> (nat \<times> string) list" where
  "builds s = map (\<lambda>(k, r). (k, ir_catalogSnapshotVersion r)) (sr_running s) @ map (\<lambda>(k, v, _). (k, v)) (sr_ended s)"

definition builds_ok :: "(index_request \<Rightarrow> bool) \<Rightarrow> index_store \<Rightarrow> bool" where
  "builds_ok honest s \<longleftrightarrow> distinct (map fst (builds s)) \<and> list_all (\<lambda>(k, v). k < sr_started s) (builds s) \<and>
     list_all (\<lambda>(k, r). honest r) (sr_running s)"

definition pending_ok :: "index_store \<Rightarrow> bool" where
  "pending_ok s \<longleftrightarrow> (\<forall>k. sr_pending s = Some k \<longrightarrow> (\<exists>v. sr_pendingVersion s = Some v \<and> (k, v) \<in> set (builds s)))"

definition waiting_ok :: "(index_request \<Rightarrow> bool) \<Rightarrow> index_store \<Rightarrow> bool" where
  "waiting_ok honest s \<longleftrightarrow> list_all (\<lambda>(k, r). (k, ir_catalogSnapshotVersion r) \<in> set (builds s) \<and> honest r) (sr_waiting s)"

definition built_ok :: "(string \<Rightarrow> string) \<Rightarrow> (js_number \<Rightarrow> string) \<Rightarrow> (rat \<Rightarrow> rat) \<Rightarrow> (index_request \<Rightarrow> bool) \<Rightarrow> index_store \<Rightarrow> bool" where
  "built_ok sha256 render msqrt honest s \<longleftrightarrow>
     (\<forall>ix. sr_current s = Some ix \<longrightarrow> built_for sha256 render msqrt honest (ci_catalogSnapshotVersion ix) ix) \<and>
     list_all (\<lambda>(k, v, result). \<forall>ix. result = Inr ix \<longrightarrow> built_for sha256 render msqrt honest v ix) (sr_ended s) \<and>
     list_all (\<lambda>(r, result). honest r \<and> (\<forall>ix. result = Inr ix \<longrightarrow>
        built_for sha256 render msqrt honest (ir_catalogSnapshotVersion r) ix)) (sr_answered s)"

definition store_inv ::
    "(string \<Rightarrow> string) \<Rightarrow> (js_number \<Rightarrow> string) \<Rightarrow> (rat \<Rightarrow> rat) \<Rightarrow> (index_request \<Rightarrow> bool) \<Rightarrow> index_store \<Rightarrow> bool" where
  "store_inv sha256 render msqrt honest s \<longleftrightarrow>
     builds_ok honest s \<and> pending_ok s \<and> waiting_ok honest s \<and> built_ok sha256 render msqrt honest s"

lemma build_index_version: "build_index sha256 render msqrt provider r = Inr ix \<Longrightarrow> ci_catalogSnapshotVersion ix = ir_catalogSnapshotVersion r"
  by (auto simp: build_index_def res_bind_eq_Inr lift_domain_Inr new_candidate_index_def)

lemma acquire_pending_inv:
  assumes "builds_ok honest s" "pending_ok s" "waiting_ok honest s" "honest r"
  shows "builds_ok honest (acquire_pending r s)" "pending_ok (acquire_pending r s)" "waiting_ok honest (acquire_pending r s)"
proof -
  let ?v = "ir_catalogSnapshotVersion r"
  have "builds_ok honest (acquire_pending r s) \<and> pending_ok (acquire_pending r s) \<and> waiting_ok honest (acquire_pending r s)"
  proof (cases "sr_pending s = None \<or> sr_pendingVersion s \<noteq> Some ?v")
    case True
    define t where "t = s\<lparr>sr_pendingVersion := Some ?v, sr_pending := Some (sr_started s), sr_started := sr_started s + 1,
        sr_running := sr_running s @ [(sr_started s, r)], sr_waiting := sr_waiting s @ [(sr_started s, r)]\<rparr>"
    have t: "acquire_pending r s = t" using True by (simp add: acquire_pending_def t_def)
    have b: "mset (builds t) = add_mset (sr_started s, ?v) (mset (builds s))" by (simp add: builds_def t_def)
    then have set_b: "set (builds t) = insert (sr_started s, ?v) (set (builds s))" by (metis set_mset_add_mset_insert set_mset_mset)
    have "sr_started s \<notin> fst ` set (builds s)" using assms(1) by (force simp: builds_ok_def list_all_iff)
    moreover have "mset (map fst (builds t)) = add_mset (sr_started s) (mset (map fst (builds s)))" using b by simp
    then have "distinct (map fst (builds t)) \<longleftrightarrow> distinct (sr_started s # map fst (builds s))"
      by (metis mset.simps(2) mset_eq_imp_distinct_iff)
    ultimately have d: "distinct (map fst (builds t))" using assms(1) by (simp add: builds_ok_def)
    have "builds_ok honest t"
      using d assms(1,4) set_b by (auto simp: builds_ok_def list_all_iff t_def less_Suc_eq)
    moreover have "pending_ok t" using set_b by (simp add: pending_ok_def) (simp add: t_def)
    moreover have "waiting_ok honest t" using assms(3,4) set_b by (auto simp: waiting_ok_def list_all_iff t_def)
    ultimately show ?thesis by (simp add: t)
  next
    case False
    then obtain k where k: "sr_pending s = Some k" "(k, ?v) \<in> set (builds s)" using assms(2) by (auto simp: pending_ok_def)
    then have t: "acquire_pending r s = s\<lparr>sr_waiting := sr_waiting s @ [(k, r)]\<rparr>" using False by (simp add: acquire_pending_def)
    show ?thesis unfolding t
      using assms k(2) by (simp add: builds_ok_def pending_ok_def waiting_ok_def builds_def list_all_iff)
  qed
  then show "builds_ok honest (acquire_pending r s)" "pending_ok (acquire_pending r s)" "waiting_ok honest (acquire_pending r s)" by blast+
qed

lemma acquire_pending_built: "built_ok sha256 render msqrt honest (acquire_pending r s) = built_ok sha256 render msqrt honest s"
  by (simp add: built_ok_def acquire_pending_def Let_def)

lemma acquire_inv:
  assumes "store_inv sha256 render msqrt honest s" and "honest r"
  shows "store_inv sha256 render msqrt honest (acquire r s)"
proof -
  note parts = assms(1) [unfolded store_inv_def]
  have p: "store_inv sha256 render msqrt honest (acquire_pending r s)"
    using parts acquire_pending_inv [of honest s r] acquire_pending_built assms(2) by (simp add: store_inv_def)
  show ?thesis
  proof (cases "\<exists>ix. sr_current s = Some ix \<and> ci_catalogSnapshotVersion ix = ir_catalogSnapshotVersion r")
    case True
    then obtain ix where ix: "sr_current s = Some ix" "ci_catalogSnapshotVersion ix = ir_catalogSnapshotVersion r" by blast
    then have "acquire r s = s\<lparr>sr_answered := sr_answered s @ [(r, Inr ix)]\<rparr>" by (simp add: acquire_def)
    moreover have "built_for sha256 render msqrt honest (ir_catalogSnapshotVersion r) ix"
      using parts ix unfolding built_ok_def by metis
    ultimately show ?thesis
      using parts assms(2) by (simp add: store_inv_def builds_ok_def pending_ok_def waiting_ok_def built_ok_def builds_def)
  next
    case False
    then have "acquire r s = acquire_pending r s" by (auto simp: acquire_def split: option.split)
    then show ?thesis using p by simp
  qed
qed

lemma build_done_inv:
  assumes "store_inv sha256 render msqrt honest s"
  shows "store_inv sha256 render msqrt honest (build_done sha256 render msqrt provider k s)"
proof (cases "map_of (sr_running s) k")
  case None
  then show ?thesis using assms by (simp add: build_done_def)
next
  case (Some r)
  note parts = assms [unfolded store_inv_def]
  let ?v = "ir_catalogSnapshotVersion r" and ?res = "build_index sha256 render msqrt provider r"
  let ?rest = "filter (\<lambda>(j, _). j \<noteq> k) (sr_running s)"
  define t where "t = build_done sha256 render msqrt provider k s"
  have t: "t = s\<lparr>sr_running := ?rest, sr_current := (case ?res of Inr ix \<Rightarrow> Some ix | Inl _ \<Rightarrow> sr_current s),
      sr_ended := sr_ended s @ [(k, ?v, ?res)]\<rparr>"
    using Some by (simp add: t_def build_done_def Let_def)
  have d: "distinct (map fst (sr_running s))" using parts by (simp add: builds_ok_def builds_def comp_def case_prod_beta)
  obtain as bs where run: "sr_running s = as @ (k, r) # bs" using map_of_SomeD [OF Some] by (meson split_list)
  have rest: "?rest = as @ bs"
  proof -
    have "k \<notin> fst ` set as" "k \<notin> fst ` set bs" using d by (simp_all add: run)
    then have "filter (\<lambda>(j, _). j \<noteq> k) as = as" "filter (\<lambda>(j, _). j \<noteq> k) bs = bs" by (force simp: filter_id_conv)+
    then show ?thesis by (simp add: run)
  qed
  have m: "mset (builds t) = mset (builds s)" by (simp add: builds_def t rest) (simp add: run)
  then have set_b: "set (builds t) = set (builds s)" by (metis set_mset_mset)
  have h: "honest r" using parts run by (simp add: builds_ok_def)
  have "distinct (map fst (builds t))"
    using parts m by (metis builds_ok_def mset_map mset_eq_imp_distinct_iff)
  then have "builds_ok honest t" using parts set_b by (simp add: builds_ok_def list_all_iff) (auto simp: t rest run)
  moreover have "pending_ok t" using parts set_b by (simp add: pending_ok_def) (simp add: t)
  moreover have "waiting_ok honest t" using parts set_b by (simp add: waiting_ok_def) (simp add: t)
  moreover have new: "?res = Inr ix \<Longrightarrow> built_for sha256 render msqrt honest ?v ix \<and> ci_catalogSnapshotVersion ix = ?v" for ix
    using h build_index_version unfolding built_for_def by blast
  have "built_ok sha256 render msqrt honest t"
    using parts new unfolding built_ok_def by (simp add: t list_all_iff split: sum.split)
  ultimately show ?thesis by (simp add: store_inv_def t_def)
qed

lemma build_settled_inv:
  assumes "store_inv sha256 render msqrt honest s"
  shows "store_inv sha256 render msqrt honest (build_settled k s)"
proof (cases "map_of (sr_ended s) k")
  case None
  then show ?thesis using assms by (simp add: build_settled_def)
next
  case (Some e)
  obtain v res where e: "e = (v, res)" by force
  note parts = assms [unfolded store_inv_def]
  let ?rest = "filter (\<lambda>(j, _). j \<noteq> k) (sr_ended s)"
  define t where "t = build_settled k s"
  have t: "t = (if sr_pendingVersion s = Some v then s\<lparr>sr_pending := None, sr_pendingVersion := None\<rparr> else s)
      \<lparr>sr_ended := ?rest, sr_waiting := filter (\<lambda>(j, _). j \<noteq> k) (sr_waiting s),
       sr_answered := sr_answered s @ map (\<lambda>(_, request). (request, res)) (filter (\<lambda>(j, _). j = k) (sr_waiting s))\<rparr>"
    using Some e by (simp add: t_def build_settled_def Let_def)
  have d: "distinct (map fst (sr_ended s))" using parts by (simp add: builds_ok_def builds_def comp_def case_prod_beta)
  obtain as bs where run: "sr_ended s = as @ (k, v, res) # bs" using map_of_SomeD [OF Some] e by (meson split_list)
  have rest: "?rest = as @ bs"
  proof -
    have "k \<notin> fst ` set as" "k \<notin> fst ` set bs" using d by (simp_all add: run)
    then have "filter (\<lambda>(j, _). j \<noteq> k) as = as" "filter (\<lambda>(j, _). j \<noteq> k) bs = bs" by (force simp: filter_id_conv)+
    then show ?thesis by (simp add: run)
  qed
  have m: "mset (builds s) = add_mset (k, v) (mset (builds t))" by (simp add: builds_def t rest) (simp add: run)
  then have set_b: "set (builds s) = insert (k, v) (set (builds t))" by (metis set_mset_add_mset_insert set_mset_mset)
  have "mset (map fst (builds s)) = mset (k # map fst (builds t))" using m by simp
  then have "distinct (k # map fst (builds t))" using parts by (metis builds_ok_def mset_eq_imp_distinct_iff)
  then have gone: "distinct (map fst (builds t))" "\<And>w. (k, w) \<notin> set (builds t)" by force+
  have one: "(k, w) \<in> set (builds s) \<Longrightarrow> w = v" for w using set_b gone(2) by simp
  have "builds_ok honest t"
    using parts gone(1) set_b by (simp add: builds_ok_def list_all_iff) (simp add: t)
  moreover have "pending_ok t"
    unfolding pending_ok_def
  proof (intro allI impI)
    fix j assume "sr_pending t = Some j"
    then have j: "sr_pending s = Some j" "sr_pendingVersion s \<noteq> Some v" "sr_pendingVersion t = sr_pendingVersion s"
      by (simp_all add: t split: if_splits)
    then obtain w where "sr_pendingVersion s = Some w" "(j, w) \<in> set (builds s)" using parts unfolding pending_ok_def by blast
    then show "\<exists>w. sr_pendingVersion t = Some w \<and> (j, w) \<in> set (builds t)" using j set_b by auto
  qed
  moreover have "waiting_ok honest t"
    using parts set_b by (auto simp: waiting_ok_def list_all_iff t split: if_splits)
  moreover have "built_ok sha256 render msqrt honest t"
  proof -
    have res: "res = Inr ix \<Longrightarrow> built_for sha256 render msqrt honest v ix" for ix
      using parts run unfolding built_ok_def by simp
    have "honest r \<and> (\<forall>ix. res = Inr ix \<longrightarrow> built_for sha256 render msqrt honest (ir_catalogSnapshotVersion r) ix)"
      if "(k, r) \<in> set (sr_waiting s)" for r
    proof -
      have "(k, ir_catalogSnapshotVersion r) \<in> set (builds s)" "honest r" using parts that unfolding waiting_ok_def list_all_iff by auto
      then show ?thesis using one res by auto
    qed
    then show ?thesis using parts unfolding built_ok_def by (auto simp: t list_all_iff)
  qed
  ultimately show ?thesis by (simp add: store_inv_def t_def)
qed

lemma store_reachable:
  assumes "(store_step sha256 render msqrt honest)\<^sup>*\<^sup>* new_index_store s"
  shows "store_inv sha256 render msqrt honest s"
  using assms
proof (induction rule: rtranclp_induct)
  case base
  then show ?case by (simp add: store_inv_def builds_ok_def pending_ok_def waiting_ok_def built_ok_def builds_def new_index_store_def)
next
  case (step s t)
  from step.hyps(2) step.IH show ?case by (cases rule: store_step.cases) (auto intro: acquire_inv build_done_inv build_settled_inv)
qed

end
