(* ===== verification/Plan_Cost_Laws.thy ===== *)
theory Plan_Cost_Laws
  imports Plan_Cost Selection_Plan_Laws
begin

text \<open>
  The one-pass savings are exact: taking a Card's savings from the cost of a plan gives the
  cost of the plan without the Card.
\<close>

section \<open>What one item saves\<close>

definition add_cost :: "plan_cost \<Rightarrow> plan_cost \<Rightarrow> plan_cost" where
  "add_cost a b =
     \<lparr>pc_managedTargetCount = pc_managedTargetCount a + pc_managedTargetCount b,
      pc_managedChunkLimitTotal = pc_managedChunkLimitTotal a + pc_managedChunkLimitTotal b,
      pc_delegatedItemCount = pc_delegatedItemCount a + pc_delegatedItemCount b,
      pc_guideBytes = pc_guideBytes a + pc_guideBytes b,
      pc_selectedByTotal = pc_selectedByTotal a + pc_selectedByTotal b,
      pc_cardCount = pc_cardCount a + pc_cardCount b\<rparr>"

definition sole_version :: "string \<Rightarrow> planned_item \<Rightarrow> bool" where
  "sole_version v item \<longleftrightarrow> map cf_versionId (pl_selectedBy item) = [v]"

definition gain :: "nat \<Rightarrow> string \<Rightarrow> planned_item \<Rightarrow> plan_cost" where
  "gain limit v item =
     \<lparr>pc_managedTargetCount = of_bool (sole_version v item \<and> item_target item \<noteq> None),
      pc_managedChunkLimitTotal = int limit * of_bool (sole_version v item \<and> item_target item \<noteq> None),
      pc_delegatedItemCount = of_bool (sole_version v item \<and> item_target item = None),
      pc_guideBytes = int (guide_bytes item) * of_bool (sole_version v item),
      pc_selectedByTotal = int (length (filter (\<lambda>r. cf_versionId r = v) (pl_selectedBy item))),
      pc_cardCount = 0\<rparr>"

lemma bump_lookup: "map_of (bump w f m) v = (if v = w then map_option f (map_of m v) else map_of m v)"
  by (cases "map_of m w") (auto simp: bump_def update_conv')

lemma bump_keys: "map fst (bump w f m) = map fst m"
proof (cases "map_of m w")
  case (Some c)
  have "map_of m w = Some c \<Longrightarrow> map fst (AList.update w (f c) m) = map fst m" for c
    by (induction m) auto
  then show ?thesis using Some by (simp add: bump_def)
qed (simp add: bump_def)

lemma references_lookup:
  "map_of (fold count_reference refs m) v =
     map_option (\<lambda>c. c\<lparr>pc_selectedByTotal := pc_selectedByTotal c + int (length (filter (\<lambda>r. cf_versionId r = v) refs))\<rparr>)
       (map_of m v)"
proof (induction refs arbitrary: m)
  case Nil
  then show ?case by (simp add: option.map_ident)
next
  case (Cons r refs)
  then show ?case
    by (cases "map_of m v"; cases "v = cf_versionId r") (simp_all add: count_reference_def bump_lookup algebra_simps)
qed

lemma references_keys: "map fst (fold count_reference refs m) = map fst m"
  by (induction refs arbitrary: m) (simp_all add: count_reference_def bump_keys)

definition removed_free :: "savings_state \<Rightarrow> string \<Rightarrow> bool" where
  "removed_free st k \<longleftrightarrow> (\<forall>v ks. map_of (sv_removedTargets st) v = Some ks \<longrightarrow> k \<notin> set ks)"

lemma count_sole_managed_spec:
  assumes "removed_free st k" and "map_of C k = Some 1" and "map_of T k = Some t"
  shows "map_of (sv_savings (count_sole_managed T C only k st)) v =
      (if v = only then map_option (\<lambda>c. c\<lparr>pc_managedTargetCount := pc_managedTargetCount c + 1,
         pc_managedChunkLimitTotal := pc_managedChunkLimitTotal c + int (mt_limit t)\<rparr>) (map_of (sv_savings st) v)
       else map_of (sv_savings st) v)"
    and "k' \<noteq> k \<Longrightarrow> removed_free st k' \<Longrightarrow> removed_free (count_sole_managed T C only k st) k'"
proof -
  let ?ks = "case map_of (sv_removedTargets st) only of None \<Rightarrow> [] | Some ks \<Rightarrow> ks"
  have not: "k \<notin> set ?ks" using assms(1) by (auto simp: removed_free_def split: option.split)
  then show "map_of (sv_savings (count_sole_managed T C only k st)) v =
      (if v = only then map_option (\<lambda>c. c\<lparr>pc_managedTargetCount := pc_managedTargetCount c + 1,
         pc_managedChunkLimitTotal := pc_managedChunkLimitTotal c + int (mt_limit t)\<rparr>) (map_of (sv_savings st) v)
       else map_of (sv_savings st) v)"
    using assms(2,3) by (cases "map_of (sv_removedTargets st) only") (simp_all add: count_sole_managed_def Let_def bump_lookup)
  show "removed_free (count_sole_managed T C only k st) k'" if "k' \<noteq> k" "removed_free st k'"
    using that not assms(2,3) unfolding removed_free_def count_sole_managed_def Let_def
    by (auto simp: update_conv' split: if_splits option.splits)
qed

lemma count_item_spec:
  assumes "\<And>k. item_target item = Some k \<Longrightarrow> removed_free st k \<and> map_of C k = Some 1 \<and>
      (\<exists>t. map_of T k = Some t \<and> mt_limit t = limit)"
  shows "map_of (sv_savings (count_item T C item st)) v =
      map_option (\<lambda>c. add_cost c (gain limit v item)) (map_of (sv_savings st) v)"
    and "item_target item \<noteq> Some k' \<Longrightarrow> removed_free st k' \<Longrightarrow> removed_free (count_item T C item st) k'"
proof -
  let ?refs = "pl_selectedBy item"
  let ?st1 = "st\<lparr>sv_savings := fold count_reference ?refs (sv_savings st)\<rparr>"
  have free: "removed_free ?st1 k \<longleftrightarrow> removed_free st k" for k by (simp add: removed_free_def)
  consider (other) "length ?refs \<noteq> 1" | (sole) r where "?refs = [r]"
    by (metis One_nat_def length_0_conv length_Suc_conv)
  then have "map_of (sv_savings (count_item T C item st)) v =
      map_option (\<lambda>c. add_cost c (gain limit v item)) (map_of (sv_savings st) v) \<and>
      (item_target item \<noteq> Some k' \<longrightarrow> removed_free st k' \<longrightarrow> removed_free (count_item T C item st) k')"
  proof cases
    case other
    then have "\<not> sole_version v item" by (auto simp: sole_version_def)
    moreover have "count_item T C item st = ?st1"
      using other by (auto simp: count_item_def Let_def split: list.split)
    ultimately show ?thesis
      using free by (cases "map_of (sv_savings st) v") (simp_all add: references_lookup add_cost_def gain_def)
  next
    case (sole r)
    let ?only = "cf_versionId r"
    have s: "sole_version v item \<longleftrightarrow> v = ?only" using sole by (auto simp: sole_version_def)
    show ?thesis
    proof (cases "map_of (sv_savings ?st1) ?only")
      case None
      then have c: "count_item T C item st = ?st1" using sole by (simp add: count_item_def Let_def)
      have "map_of (sv_savings st) ?only = None" using None by (simp add: references_lookup)
      then show ?thesis unfolding c using free s
        by (cases "map_of (sv_savings st) v") (auto simp: references_lookup add_cost_def gain_def)
    next
      case (Some x)
      let ?st2 = "?st1\<lparr>sv_savings := bump ?only
        (\<lambda>c. c\<lparr>pc_guideBytes := pc_guideBytes c + int (guide_bytes item)\<rparr>) (sv_savings ?st1)\<rparr>"
      have free2: "removed_free ?st2 k \<longleftrightarrow> removed_free st k" for k by (simp add: removed_free_def)
      show ?thesis
      proof (cases "item_target item")
        case None
        have c: "count_item T C item st = ?st2\<lparr>sv_savings := bump ?only
            (\<lambda>c. c\<lparr>pc_delegatedItemCount := pc_delegatedItemCount c + 1\<rparr>) (sv_savings ?st2)\<rparr>"
          using sole Some None by (simp add: count_item_def Let_def)
        have "removed_free (count_item T C item st) k' \<longleftrightarrow> removed_free st k'" unfolding c by (simp add: removed_free_def)
        then show ?thesis
          using None s unfolding c
          by (cases "map_of (sv_savings st) v") (auto simp: bump_lookup references_lookup add_cost_def gain_def)
      next
        case k: (Some k)
        then obtain t where t: "removed_free ?st2 k" "map_of C k = Some 1" "map_of T k = Some t" "mt_limit t = limit"
          using assms [of k] free2 by blast
        have c: "count_item T C item st = count_sole_managed T C ?only k ?st2"
          using sole Some k by (simp add: count_item_def Let_def)
        have "removed_free (count_item T C item st) k'" if "k' \<noteq> k" "removed_free st k'"
          unfolding c using count_sole_managed_spec(2) [OF t(1-3)] that free2 by blast
        moreover have "map_of (sv_savings (count_item T C item st)) v =
            map_option (\<lambda>c. add_cost c (gain limit v item)) (map_of (sv_savings st) v)"
          unfolding c count_sole_managed_spec(1) [OF t(1-3)] using k s t(4)
          by (cases "map_of (sv_savings st) v") (auto simp: bump_lookup references_lookup add_cost_def gain_def)
        ultimately show ?thesis using k by auto
      qed
    qed
  qed
  then show "map_of (sv_savings (count_item T C item st)) v =
      map_option (\<lambda>c. add_cost c (gain limit v item)) (map_of (sv_savings st) v)"
    and "item_target item \<noteq> Some k' \<Longrightarrow> removed_free st k' \<Longrightarrow> removed_free (count_item T C item st) k'"
    by blast+
qed

section \<open>What all items save\<close>

definition add_gains :: "nat \<Rightarrow> string \<Rightarrow> planned_item list \<Rightarrow> plan_cost \<Rightarrow> plan_cost" where
  "add_gains limit v items c = fold (\<lambda>item c. add_cost c (gain limit v item)) items c"

lemma count_items_spec:
  assumes "\<And>item k. item \<in> set items \<Longrightarrow> item_target item = Some k \<Longrightarrow>
      removed_free st k \<and> map_of C k = Some 1 \<and> (\<exists>t. map_of T k = Some t \<and> mt_limit t = limit)"
    and "distinct (filter (\<lambda>k. k \<noteq> None) (map item_target items))"
  shows "map_of (sv_savings (fold (count_item T C) items st)) v =
      map_option (add_gains limit v items) (map_of (sv_savings st) v)"
  using assms
proof (induction items arbitrary: st)
  case Nil
  then show ?case by (simp add: add_gains_def option.map_ident)
next
  case (Cons item items)
  have here: "item_target item = Some k \<Longrightarrow> removed_free st k \<and> map_of C k = Some 1 \<and>
      (\<exists>t. map_of T k = Some t \<and> mt_limit t = limit)" for k
    using Cons.prems(1) [of item k] by simp
  note step = count_item_spec [OF here]
  have "map_of (sv_savings (fold (count_item T C) items (count_item T C item st))) v =
      map_option (add_gains limit v items) (map_of (sv_savings (count_item T C item st)) v)"
  proof (rule Cons.IH)
    fix other k assume other: "other \<in> set items" "item_target other = Some k"
    then have free: "removed_free st k \<and> map_of C k = Some 1 \<and> (\<exists>t. map_of T k = Some t \<and> mt_limit t = limit)"
      using Cons.prems(1) [of other k] by simp
    have "item_target item \<noteq> Some k"
    proof
      assume same: "item_target item = Some k"
      have "Some k \<in> set (map item_target items)" using other by force
      then show False using Cons.prems(2) same by simp
    qed
    then have "removed_free (count_item T C item st) k" using step(2) free by blast
    then show "removed_free (count_item T C item st) k \<and> map_of C k = Some 1 \<and>
        (\<exists>t. map_of T k = Some t \<and> mt_limit t = limit)" using free by blast
  next
    show "distinct (filter (\<lambda>k. k \<noteq> None) (map item_target items))"
      using Cons.prems(2) by (cases "item_target item") simp_all
  qed
  then show ?case by (simp add: step(1) option.map_comp o_def add_gains_def)
qed

lemma count_by_key:
  "map_of (fold (\<lambda>item counts. case item_target item of
         None \<Rightarrow> counts
       | Some k \<Rightarrow> AList.update k ((case map_of counts k of None \<Rightarrow> 0 | Some n \<Rightarrow> n) + 1) counts) items m) k =
    (case count_list (map item_target items) (Some k) of
       0 \<Rightarrow> map_of m k
     | Suc n \<Rightarrow> Some (Suc n + (case map_of m k of None \<Rightarrow> 0 | Some i \<Rightarrow> i)))"
proof (induction items arbitrary: m)
  case Nil
  then show ?case by simp
next
  case (Cons item items)
  show ?case
    using Cons.IH by (cases "item_target item"; cases "map_of m k")
      (auto simp: update_conv' split: nat.split option.split)
qed

lemma count_list_distinct:
  "distinct (filter (\<lambda>k. k \<noteq> None) ks) \<Longrightarrow> Some k \<in> set ks \<Longrightarrow> count_list ks (Some k) = 1"
proof (induction ks)
  case (Cons x ks)
  show ?case
  proof (cases "x = Some k")
    case True
    then have "Some k \<notin> set ks" using Cons.prems by simp
    then show ?thesis using True by (simp add: count_list_0_iff)
  next
    case False
    then show ?thesis using Cons by (cases x) simp_all
  qed
qed simp

lemma sole_target_counts_once:
  assumes "distinct (filter (\<lambda>k. k \<noteq> None) (map item_target items))" and "item \<in> set items" and "item_target item = Some k"
  shows "map_of (managedItemCountByTargetKey items) k = Some 1"
proof -
  have "Some k \<in> set (map item_target items)" using assms(2,3) by force
  then show ?thesis using count_list_distinct [OF assms(1)] by (simp add: managedItemCountByTargetKey_def count_by_key)
qed

end
