(* ===== verification/Removal_Savings.thy ===== *)
theory Removal_Savings
  imports Plan_Cost_Laws
begin

text \<open>
  The cost of a plan as sums over the guides it lists, and the exactness of the savings of
  removing one Card.
\<close>

section \<open>Costs as sums over guides\<close>

abbreviation managed_guide :: "retrieval_guide \<Rightarrow> bool" where
  "managed_guide g \<equiv> read_target id g \<noteq> None"

definition guide_size :: "retrieval_guide \<Rightarrow> int" where
  "guide_size g = int (utf8ByteLength (canonicalJson (json_of_guide g)))"

definition guide_cost :: "nat \<Rightarrow> retrieval_guide set \<Rightarrow> (retrieval_guide \<Rightarrow> int) \<Rightarrow> plan_cost" where
  "guide_cost limit gs refs =
     \<lparr>pc_managedTargetCount = (\<Sum>g\<in>gs. of_bool (managed_guide g)),
      pc_managedChunkLimitTotal = int limit * (\<Sum>g\<in>gs. of_bool (managed_guide g)),
      pc_delegatedItemCount = (\<Sum>g\<in>gs. of_bool (\<not> managed_guide g)),
      pc_guideBytes = (\<Sum>g\<in>gs. guide_size g),
      pc_selectedByTotal = (\<Sum>g\<in>gs. refs g),
      pc_cardCount = 0\<rparr>"

lemma managed_any: "read_target sha256 g \<noteq> None \<longleftrightarrow> managed_guide g"
  by (cases g) auto

lemma guides_limit: "g \<in> guides limit cards \<Longrightarrow> read_target sha256 g = Some t \<Longrightarrow> mt_limit t = limit"
proof -
  assume g: "g \<in> guides limit cards" and t: "read_target sha256 g = Some t"
  obtain s where "g = buildRetrievalGuide s limit" using g by (auto simp: guides_def card_guides_def)
  then show ?thesis using t by (cases s) auto
qed

lemma target_scope: "read_target sha256 g = Some t \<Longrightarrow> mt_scopeRef t = guide_scopeRef g \<and>
    mt_targetKey t = managedTargetKey sha256 (guide_scopeRef g) (mt_limit t)"
  by (cases g) auto

lemma target_inj:
  assumes "consistent limit cards" and "g \<in> guides limit cards" and "h \<in> guides limit cards"
    and "read_target sha256 g = Some t" and "read_target sha256 h = Some t"
  shows "g = h"
proof -
  have "guide_scope_key g = guide_scope_key h" using target_scope assms(4,5) by metis
  then show ?thesis using assms(1-3) unfolding consistent_def inj_on_def by blast
qed

lemma finite_guides [simp]: "finite (guides limit cards)"
  by (simp add: guides_def card_guides_def)

lemma target_count:
  assumes "consistent limit cards"
  shows "int (card (read_targets sha256 (guides limit cards))) = (\<Sum>g\<in>guides limit cards. of_bool (managed_guide g))"
proof -
  let ?M = "{g \<in> guides limit cards. managed_guide g}"
  have "read_targets sha256 (guides limit cards) = (\<lambda>g. the (read_target sha256 g)) ` ?M"
    unfolding read_targets_def using managed_any [of sha256] by force
  moreover have "inj_on (\<lambda>g. the (read_target sha256 g)) ?M"
  proof (rule inj_onI)
    fix g h assume gh: "g \<in> ?M" "h \<in> ?M" and eq: "the (read_target sha256 g) = the (read_target sha256 h)"
    have "read_target sha256 g = Some (the (read_target sha256 g))" "read_target sha256 h = Some (the (read_target sha256 h))"
      using gh managed_any [of sha256] by auto
    then show "g = h" using target_inj [OF assms] gh eq by (metis (no_types, lifting) mem_Collect_eq)
  qed
  ultimately have "card (read_targets sha256 (guides limit cards)) = card ?M" by (simp add: card_image)
  also have "int (card ?M) = (\<Sum>g\<in>guides limit cards. of_bool (managed_guide g))"
    by (simp add: of_bool_def sum.If_cases Int_def)
  finally show ?thesis .
qed

lemma sum_over_items:
  assumes "plan_of sha256 limit cards plan" and "\<And>i. i \<in> set (rd_items plan) \<Longrightarrow> f i = h (pl_guide i)"
  shows "sum_list (map f (rd_items plan)) = (\<Sum>g\<in>guides limit cards. h g)"
proof -
  have d: "distinct (map pl_guide (rd_items plan))" and s: "pl_guide ` set (rd_items plan) = guides limit cards"
    using assms(1) unfolding plan_of_def by blast+
  have "map f (rd_items plan) = map h (map pl_guide (rd_items plan))" using assms(2) by simp
  then have "sum_list (map f (rd_items plan)) = sum_list (map h (map pl_guide (rd_items plan)))" by (rule arg_cong)
  also have "\<dots> = (\<Sum>g\<in>set (map pl_guide (rd_items plan)). h g)" using d by (rule sum_list_distinct_conv_sum_set)
  finally show ?thesis using s by simp
qed

lemma plan_item:
  assumes "plan_of sha256 limit cards plan" and "i \<in> set (rd_items plan)"
  shows "pl_guide i \<in> guides limit cards" "distinct (pl_selectedBy i)" "set (pl_selectedBy i) = selectors limit cards (pl_guide i)"
    "item_target i = map_option mt_targetKey (read_target sha256 (pl_guide i))"
    "isManagedPlannedItem i \<longleftrightarrow> managed_guide (pl_guide i)" "int (guide_bytes i) = guide_size (pl_guide i)"
proof -
  have e: "pl_execution i = (case read_target sha256 (pl_guide i) of None \<Rightarrow> Delegated | Some t \<Rightarrow> Managed (mt_targetKey t))"
    and "pl_guide ` set (rd_items plan) = guides limit cards"
    and "distinct (pl_selectedBy i)" and "set (pl_selectedBy i) = selectors limit cards (pl_guide i)"
    using assms unfolding plan_of_def by blast+
  then show "pl_guide i \<in> guides limit cards" "distinct (pl_selectedBy i)"
    "set (pl_selectedBy i) = selectors limit cards (pl_guide i)" using assms(2) by auto
  show "item_target i = map_option mt_targetKey (read_target sha256 (pl_guide i))"
    using e by (simp add: item_target_def split: option.split)
  show "isManagedPlannedItem i \<longleftrightarrow> managed_guide (pl_guide i)"
    using e managed_any [of sha256 "pl_guide i"] by (simp add: isManagedPlannedItem_def split: option.splits)
  show "int (guide_bytes i) = guide_size (pl_guide i)" by (simp add: guide_bytes_def guide_size_def)
qed

lemma sum_list_length_filter: "int (length (filter P xs)) = sum_list (map (\<lambda>x. of_bool (P x)) xs)"
  by (induction xs) auto

lemma prepared_cost:
  assumes plan: "plan_of sha256 limit cards plan" and cons: "consistent limit cards"
  shows "measurePreparedPlanCost n plan =
    (guide_cost limit (guides limit cards) (\<lambda>g. int (card (selectors limit cards g))))\<lparr>pc_cardCount := int n\<rparr>"
proof -
  have t: "distinct (rd_managedTargets plan)" "set (rd_managedTargets plan) = read_targets sha256 (guides limit cards)"
    using plan unfolding plan_of_def by blast+
  have len: "int (length (rd_managedTargets plan)) = (\<Sum>g\<in>guides limit cards. of_bool (managed_guide g))"
    using target_count [OF cons, of sha256] t by (metis distinct_card)
  have "\<forall>m \<in> set (rd_managedTargets plan). mt_limit m = limit"
    unfolding t(2) read_targets_def using guides_limit by blast
  then have "map (\<lambda>m. int (mt_limit m)) (rd_managedTargets plan) = replicate (length (rd_managedTargets plan)) (int limit)"
    by (simp add: map_replicate_const [symmetric])
  then have chunks: "sum_list (map (\<lambda>m. int (mt_limit m)) (rd_managedTargets plan)) =
      int limit * (\<Sum>g\<in>guides limit cards. of_bool (managed_guide g))"
    using len by (simp add: sum_list_replicate mult.commute)
  have del: "int (length (filter (\<lambda>i. \<not> isManagedPlannedItem i) (rd_items plan))) =
      (\<Sum>g\<in>guides limit cards. of_bool (\<not> managed_guide g))"
    unfolding sum_list_length_filter by (rule sum_over_items [OF plan]) (simp add: plan_item(5) [OF plan])
  have bytes: "sum_list (map (\<lambda>i. int (guide_bytes i)) (rd_items plan)) = (\<Sum>g\<in>guides limit cards. guide_size g)"
    by (rule sum_over_items [OF plan]) (simp add: plan_item(6) [OF plan])
  have refs: "sum_list (map (\<lambda>i. int (length (pl_selectedBy i))) (rd_items plan)) =
      (\<Sum>g\<in>guides limit cards. int (card (selectors limit cards g)))"
    by (rule sum_over_items [OF plan]) (metis plan_item(2,3) [OF plan] distinct_card)
  show ?thesis
    unfolding measurePreparedPlanCost_def guide_cost_def len chunks del bytes refs by simp
qed

section \<open>Without one Card\<close>

abbreviation without :: "string \<Rightarrow> approved_card list \<Rightarrow> approved_card list" where
  "without v cards \<equiv> filter (\<lambda>c. ce_versionId c \<noteq> v) cards"

lemma selectors_without:
  assumes "distinct (map ce_versionId cards)" and "c \<in> set cards"
  shows "selectors limit (without (ce_versionId c) cards) g = selectors limit cards g - {ref_of_card c}"
proof -
  have "ref_of_card d = ref_of_card c \<longleftrightarrow> ce_versionId d = ce_versionId c" if "d \<in> set cards" for d
    using assms that by (metis (no_types, lifting) card_ref.ext_inject distinct_map inj_onD ref_of_card_def)
  then show ?thesis unfolding selectors_def by auto
qed

lemma selectors_guides: "g \<in> guides limit cards \<longleftrightarrow> selectors limit cards g \<noteq> {}"
  by (auto simp: guides_def selectors_def)

lemma guides_without:
  assumes "distinct (map ce_versionId cards)" and "c \<in> set cards"
  shows "guides limit (without (ce_versionId c) cards) = {g \<in> guides limit cards. selectors limit cards g \<noteq> {ref_of_card c}}"
proof -
  have "g \<in> guides limit (without (ce_versionId c) cards) \<longleftrightarrow>
      g \<in> guides limit cards \<and> selectors limit cards g \<noteq> {ref_of_card c}" for g
    unfolding selectors_guides selectors_without [OF assms] by blast
  then show ?thesis by blast
qed

lemma consistent_without: "consistent limit cards \<Longrightarrow> consistent limit (without v cards)"
  unfolding consistent_def guides_def by (rule inj_on_subset) auto

lemma sum_split:
  fixes f :: "'a \<Rightarrow> int"
  assumes "finite A"
  shows "(\<Sum>g\<in>{g \<in> A. \<not> P g}. f g) = (\<Sum>g\<in>A. f g) - (\<Sum>g\<in>A. f g * of_bool (P g))"
proof -
  have "(\<Sum>g\<in>{g \<in> A. \<not> P g}. f g) = (\<Sum>g\<in>A. if \<not> P g then f g else 0)"
    using assms by (simp add: sum.inter_filter)
  also have "\<dots> = (\<Sum>g\<in>A. f g - f g * of_bool (P g))" by (rule sum.cong) simp_all
  finally show ?thesis by (simp add: sum_subtractf)
qed

lemma finite_selectors [simp]: "finite (selectors limit cards g)"
  by (simp add: selectors_def)

lemma without_absent: "v \<notin> ce_versionId ` set cards \<Longrightarrow> without v cards = cards"
  by (induction cards) auto

text \<open>What one Card accounts for.\<close>

definition card_cost :: "nat \<Rightarrow> approved_card list \<Rightarrow> approved_card \<Rightarrow> plan_cost" where
  "card_cost limit cards c =
     (let sole = \<lambda>g. selectors limit cards g = {ref_of_card c} in
      \<lparr>pc_managedTargetCount = (\<Sum>g\<in>guides limit cards. of_bool (managed_guide g) * of_bool (sole g)),
       pc_managedChunkLimitTotal = int limit * (\<Sum>g\<in>guides limit cards. of_bool (managed_guide g) * of_bool (sole g)),
       pc_delegatedItemCount = (\<Sum>g\<in>guides limit cards. of_bool (\<not> managed_guide g) * of_bool (sole g)),
       pc_guideBytes = (\<Sum>g\<in>guides limit cards. guide_size g * of_bool (sole g)),
       pc_selectedByTotal = (\<Sum>g\<in>guides limit cards. of_bool (ref_of_card c \<in> selectors limit cards g)),
       pc_cardCount = 1\<rparr>)"

lemma cost_without:
  assumes d: "distinct (map ce_versionId cards)" and c: "c \<in> set cards"
  shows "(guide_cost limit (guides limit (without (ce_versionId c) cards))
        (\<lambda>g. int (card (selectors limit (without (ce_versionId c) cards) g))))\<lparr>pc_cardCount := int (length (without (ce_versionId c) cards))\<rparr> =
    subtractPlanCost ((guide_cost limit (guides limit cards) (\<lambda>g. int (card (selectors limit cards g))))\<lparr>pc_cardCount := int (length cards)\<rparr>)
      (card_cost limit cards c)"
proof -
  let ?G = "guides limit cards" and ?S = "selectors limit cards" and ?r = "ref_of_card c"
  have refs: "(\<Sum>g\<in>{g \<in> ?G. ?S g \<noteq> {?r}}. int (card (?S g - {?r}))) =
      (\<Sum>g\<in>?G. int (card (?S g))) - (\<Sum>g\<in>?G. of_bool (?r \<in> ?S g))"
  proof -
    have one: "int (card (?S g - {?r})) = int (card (?S g)) - of_bool (?r \<in> ?S g)" for g
    proof (cases "?r \<in> ?S g")
      case True
      then have "0 < card (?S g)" by (metis card_gt_0_iff empty_iff finite_selectors)
      then show ?thesis using True by (simp add: card_Diff_singleton)
    qed simp
    have zero: "?S g = {?r} \<Longrightarrow> int (card (?S g - {?r})) = 0" for g by simp
    have "(\<Sum>g\<in>{g \<in> ?G. \<not> ?S g = {?r}}. int (card (?S g - {?r}))) = (\<Sum>g\<in>?G. int (card (?S g - {?r})))"
      unfolding sum_split [OF finite_guides] using zero by (simp add: sum.neutral)
    also have "\<dots> = (\<Sum>g\<in>?G. int (card (?S g)) - of_bool (?r \<in> ?S g))" unfolding one ..
    finally show ?thesis by (simp add: sum_subtractf)
  qed
  obtain as bs where split: "cards = as @ c # bs" by (rule split_list [OF c, elim_format]) blast
  have "without (ce_versionId c) cards = as @ bs"
  proof -
    have "ce_versionId c \<notin> ce_versionId ` set as" "ce_versionId c \<notin> ce_versionId ` set bs"
      using d unfolding split by simp_all
    then have "without (ce_versionId c) as = as" "without (ce_versionId c) bs = bs"
      by (simp_all add: without_absent)
    then show ?thesis by (simp add: split)
  qed
  then have len: "int (length (without (ce_versionId c) cards)) = int (length cards) - 1" by (simp add: arg_cong [OF split, of length])
  show ?thesis
    unfolding guides_without [OF d c] selectors_without [OF d c] guide_cost_def subtractPlanCost_def card_cost_def Let_def
      plan_cost.simps refs len
    by (simp add: sum_split [OF finite_guides] right_diff_distrib)
qed

section \<open>The savings of one Card\<close>

lemma add_gains_fields:
  "add_gains limit v items c = add_cost c
     \<lparr>pc_managedTargetCount = sum_list (map (\<lambda>i. pc_managedTargetCount (gain limit v i)) items),
      pc_managedChunkLimitTotal = sum_list (map (\<lambda>i. pc_managedChunkLimitTotal (gain limit v i)) items),
      pc_delegatedItemCount = sum_list (map (\<lambda>i. pc_delegatedItemCount (gain limit v i)) items),
      pc_guideBytes = sum_list (map (\<lambda>i. pc_guideBytes (gain limit v i)) items),
      pc_selectedByTotal = sum_list (map (\<lambda>i. pc_selectedByTotal (gain limit v i)) items),
      pc_cardCount = 0\<rparr>"
proof (induction items arbitrary: c)
  case Nil
  then show ?case by (simp add: add_gains_def add_cost_def)
next
  case (Cons i items)
  have "add_gains limit v (i # items) c = add_gains limit v items (add_cost c (gain limit v i))"
    by (simp add: add_gains_def)
  also have "pc_cardCount (gain limit v i) = 0" by (simp add: gain_def)
  ultimately show ?case unfolding Cons.IH by (simp add: add_cost_def gain_def)
qed

lemma distinct_one: "distinct xs \<Longrightarrow> set xs = {a} \<longleftrightarrow> xs = [a]"
  by (cases xs; cases "tl xs") auto

lemma distinct_occurs: "distinct xs \<Longrightarrow> length (filter (\<lambda>x. x = a) xs) = of_bool (a \<in> set xs)"
  by (induction xs) auto

lemma sole_selectors:
  assumes plan: "plan_of sha256 limit cards plan" and i: "i \<in> set (rd_items plan)"
    and d: "distinct (map ce_versionId cards)" and c: "c \<in> set cards"
  shows "sole_version (ce_versionId c) i \<longleftrightarrow> selectors limit cards (pl_guide i) = {ref_of_card c}"
    and "int (length (filter (\<lambda>r. cf_versionId r = ce_versionId c) (pl_selectedBy i))) =
      of_bool (ref_of_card c \<in> selectors limit cards (pl_guide i))"
proof -
  note p = plan_item [OF plan i]
  have same: "cf_versionId r = ce_versionId c \<longleftrightarrow> r = ref_of_card c" if r: "r \<in> set (pl_selectedBy i)" for r
  proof -
    obtain d' where d': "d' \<in> set cards" "r = ref_of_card d'" using r p(3) by (auto simp: selectors_def)
    have "ce_versionId d' = ce_versionId c \<Longrightarrow> d' = c" using d d'(1) c by (metis distinct_map inj_onD)
    then show ?thesis using d'(2) by (auto simp: ref_of_card_def)
  qed
  have "sole_version (ce_versionId c) i \<longleftrightarrow> pl_selectedBy i = [ref_of_card c]"
    unfolding sole_version_def using same by (cases "pl_selectedBy i") (auto simp: ref_of_card_def)
  also have "\<dots> \<longleftrightarrow> set (pl_selectedBy i) = {ref_of_card c}" using distinct_one [OF p(2)] by blast
  finally show "sole_version (ce_versionId c) i \<longleftrightarrow> selectors limit cards (pl_guide i) = {ref_of_card c}"
    using p(3) by simp
  have "filter (\<lambda>r. cf_versionId r = ce_versionId c) (pl_selectedBy i) = filter (\<lambda>r. r = ref_of_card c) (pl_selectedBy i)"
    using same by (rule filter_cong [OF refl])
  moreover have "length (filter (\<lambda>r. r = ref_of_card c) (pl_selectedBy i)) = of_bool (ref_of_card c \<in> set (pl_selectedBy i))"
    by (rule distinct_occurs [OF p(2)])
  ultimately show "int (length (filter (\<lambda>r. cf_versionId r = ce_versionId c) (pl_selectedBy i))) =
      of_bool (ref_of_card c \<in> selectors limit cards (pl_guide i))"
    using p(3) by simp
qed

lemma gains_of_plan:
  assumes plan: "plan_of sha256 limit cards plan" and d: "distinct (map ce_versionId cards)" and c: "c \<in> set cards"
  shows "(add_gains limit (ce_versionId c) (rd_items plan) emptyRemovalSavings)\<lparr>pc_cardCount := 1\<rparr> = card_cost limit cards c"
proof -
  let ?v = "ce_versionId c" and ?sole = "\<lambda>g. selectors limit cards g = {ref_of_card c}"
  have t: "item_target i \<noteq> None \<longleftrightarrow> managed_guide (pl_guide i)" if "i \<in> set (rd_items plan)" for i
    using plan_item(4) [OF plan that] managed_any [of sha256 "pl_guide i"] by simp
  note s = sole_selectors [OF plan _ d c]
  have managed: "sum_list (map (\<lambda>i. pc_managedTargetCount (gain limit ?v i)) (rd_items plan)) =
      (\<Sum>g\<in>guides limit cards. of_bool (managed_guide g) * of_bool (?sole g))"
    by (rule sum_over_items [OF plan]) (unfold gain_def plan_cost.simps s(1) t of_bool_conj, rule mult.commute)
  have chunks: "sum_list (map (\<lambda>i. pc_managedChunkLimitTotal (gain limit ?v i)) (rd_items plan)) =
      (\<Sum>g\<in>guides limit cards. int limit * (of_bool (managed_guide g) * of_bool (?sole g)))"
    by (rule sum_over_items [OF plan]) (unfold gain_def plan_cost.simps s(1) t of_bool_conj, simp only: ac_simps)
  have del: "sum_list (map (\<lambda>i. pc_delegatedItemCount (gain limit ?v i)) (rd_items plan)) =
      (\<Sum>g\<in>guides limit cards. of_bool (\<not> managed_guide g) * of_bool (?sole g))"
  proof (rule sum_over_items [OF plan])
    fix i assume i: "i \<in> set (rd_items plan)"
    have "item_target i = None \<longleftrightarrow> \<not> managed_guide (pl_guide i)" using t [OF i] by blast
    then show "pc_delegatedItemCount (gain limit ?v i) = of_bool (\<not> managed_guide (pl_guide i)) * of_bool (?sole (pl_guide i))"
      unfolding gain_def plan_cost.simps s(1) [OF i] of_bool_conj by (simp only: mult.commute)
  qed
  have bytes: "sum_list (map (\<lambda>i. pc_guideBytes (gain limit ?v i)) (rd_items plan)) =
      (\<Sum>g\<in>guides limit cards. guide_size g * of_bool (?sole g))"
    by (rule sum_over_items [OF plan]) (simp add: gain_def s(1) plan_item(6) [OF plan])
  have refs: "sum_list (map (\<lambda>i. pc_selectedByTotal (gain limit ?v i)) (rd_items plan)) =
      (\<Sum>g\<in>guides limit cards. of_bool (ref_of_card c \<in> selectors limit cards g))"
    by (rule sum_over_items [OF plan]) (simp add: gain_def s(2))
  show ?thesis
    unfolding add_gains_fields managed chunks del bytes refs sum_distrib_left [symmetric]
    by (simp add: add_cost_def emptyRemovalSavings_def card_cost_def Let_def)
qed

lemma plan_target_keys:
  assumes inj: "inj sha256" and plan: "plan_of sha256 limit cards plan" and cons: "consistent limit cards"
  shows "distinct (filter (\<lambda>k. k \<noteq> None) (map item_target (rd_items plan)))"
proof -
  let ?key = "\<lambda>g. map_option mt_targetKey (read_target sha256 g)"
  let ?M = "filter (\<lambda>g. ?key g \<noteq> None) (map pl_guide (rd_items plan))"
  have d: "distinct (map pl_guide (rd_items plan))" and s: "set (map pl_guide (rd_items plan)) = guides limit cards"
    using plan unfolding plan_of_def by simp_all
  have "map item_target (rd_items plan) = map ?key (map pl_guide (rd_items plan))"
    using plan_item(4) [OF plan] by simp
  then have "filter (\<lambda>k. k \<noteq> None) (map item_target (rd_items plan)) = map ?key ?M"
    by (simp only: filter_map comp_def)
  moreover have "inj_on ?key (set ?M)"
  proof (rule inj_onI)
    fix g h assume gh: "g \<in> set ?M" "h \<in> set ?M" and eq: "?key g = ?key h"
    obtain t u where t: "read_target sha256 g = Some t" and u: "read_target sha256 h = Some u"
      using gh by (auto simp del: set_map)
    have "mt_targetKey t = mt_targetKey u" using eq t u by simp
    then have "guide_scopeRef g = guide_scopeRef h"
      using target_scope [OF t] target_scope [OF u] target_key_inj [OF inj] by metis
    moreover have "g \<in> guides limit cards" "h \<in> guides limit cards" using gh unfolding s [symmetric] by simp_all
    ultimately show "g = h" using cons unfolding consistent_def inj_on_def by metis
  qed
  ultimately show ?thesis using d by (metis distinct_filter distinct_map)
qed

lemma map_of_constant: "map_of (rev (map (\<lambda>c. (f c, x)) cs)) v = (if v \<in> f ` set cs then Some x else None)"
  by (induction cs) (auto simp: map_add_Some_iff split: option.split)

lemma map_of_keyed:
  assumes "t \<in> set ts" and "\<And>u. u \<in> set ts \<Longrightarrow> f u = f t \<Longrightarrow> u = t"
  shows "map_of (rev (map (\<lambda>t. (f t, t)) ts)) (f t) = Some t"
proof -
  have "(f t, t) \<in> set (rev (map (\<lambda>t. (f t, t)) ts))" using assms(1) by auto
  then obtain u where u: "map_of (rev (map (\<lambda>t. (f t, t)) ts)) (f t) = Some u" by (meson weak_map_of_SomeI)
  then have "(f t, u) \<in> set (rev (map (\<lambda>t. (f t, t)) ts))" by (rule map_of_SomeD)
  then have "u = t" using assms(2) by auto
  then show ?thesis using u by simp
qed

lemma removal_savings:
  assumes inj: "inj sha256" and d: "distinct (map ce_versionId cards)" and c: "c \<in> set cards"
    and plan: "planSelectedScopes sha256 cards limit = Inr plan"
  shows "\<exists>m. measureCardRemovalSavings sha256 cards limit = Inr m \<and> map_of m (ce_versionId c) = Some (card_cost limit cards c)"
proof -
  note ok = planSelectedScopes_ok [OF inj plan]
  let ?start = "js_map (map (\<lambda>c. (ce_versionId c, emptyRemovalSavings)) cards)"
  let ?T = "js_map (map (\<lambda>t. (mt_targetKey t, t)) (rd_managedTargets plan))"
  let ?C = "managedItemCountByTargetKey (rd_items plan)"
  let ?st = "\<lparr>sv_savings = ?start, sv_removedTargets = []\<rparr>"
  have keys: "distinct (filter (\<lambda>k. k \<noteq> None) (map item_target (rd_items plan)))" by (rule plan_target_keys [OF inj ok(2,1)])
  have "map_of (sv_savings (fold (count_item ?T ?C) (rd_items plan) ?st)) (ce_versionId c) =
      map_option (add_gains limit (ce_versionId c) (rd_items plan)) (map_of (sv_savings ?st) (ce_versionId c))"
  proof (rule count_items_spec [OF _ keys])
    fix i k assume i: "i \<in> set (rd_items plan)" "item_target i = Some k"
    note p = plan_item [OF ok(2) i(1)]
    obtain t where t: "read_target sha256 (pl_guide i) = Some t" "mt_targetKey t = k"
      using p(4) i(2) by (cases "read_target sha256 (pl_guide i)") auto
    have r: "set (rd_managedTargets plan) = read_targets sha256 (guides limit cards)"
      using ok(2) unfolding plan_of_def by blast
    have mem: "t \<in> set (rd_managedTargets plan)" unfolding r using t(1) p(1) by (auto simp: read_targets_def)
    have "map_of ?T (mt_targetKey t) = Some t"
      unfolding map_of_js_map
    proof (rule map_of_keyed [OF mem])
      fix u assume u: "u \<in> set (rd_managedTargets plan)" and eq: "mt_targetKey u = mt_targetKey t"
      obtain h where h: "h \<in> guides limit cards" "read_target sha256 h = Some u" using u unfolding r by (auto simp: read_targets_def)
      have "guide_scopeRef h = guide_scopeRef (pl_guide i)"
        using target_scope [OF t(1)] target_scope [OF h(2)] eq target_key_inj [OF inj] by metis
      then have "h = pl_guide i" using ok(1) h(1) p(1) unfolding consistent_def inj_on_def by metis
      then show "u = t" using h(2) t(1) by simp
    qed
    then have "\<exists>t. map_of ?T k = Some t \<and> mt_limit t = limit" using t(2) guides_limit [OF p(1) t(1)] by auto
    moreover have "removed_free ?st k" by (simp add: removed_free_def)
    ultimately show "removed_free ?st k \<and> map_of ?C k = Some 1 \<and> (\<exists>t. map_of ?T k = Some t \<and> mt_limit t = limit)"
      using sole_target_counts_once [OF keys i] by blast
  qed
  moreover have "map_of (sv_savings ?st) (ce_versionId c) = Some emptyRemovalSavings"
    using c by (simp add: map_of_js_map map_of_constant)
  ultimately have look: "map_of (sv_savings (fold (count_item ?T ?C) (rd_items plan) ?st)) (ce_versionId c) =
      Some (add_gains limit (ce_versionId c) (rd_items plan) emptyRemovalSavings)" by simp
  have final: "map_of (map (\<lambda>(k, c). (k, c\<lparr>pc_cardCount := 1\<rparr>)) m) v = map_option (\<lambda>c. c\<lparr>pc_cardCount := 1\<rparr>) (map_of m v)"
    for m :: "(string \<times> plan_cost) list" and v
    by (induction m) auto
  show ?thesis
    using look by (simp add: measureCardRemovalSavings_def plan Let_def final gains_of_plan [OF ok(2) d c])
qed

lemma removal_exact:
  assumes "inj sha256" and "distinct (map ce_versionId cards)" and "c \<in> set cards"
    and "planSelectedScopes sha256 cards limit = Inr plan"
  shows "\<exists>m saved. measureCardRemovalSavings sha256 cards limit = Inr m \<and> map_of m (ce_versionId c) = Some saved \<and>
    measurePlanCost sha256 (filter (\<lambda>d. ce_versionId d \<noteq> ce_versionId c) cards) limit =
      Inr (subtractPlanCost (measurePreparedPlanCost (length cards) plan) saved)"
proof -
  note ok = planSelectedScopes_ok [OF assms(1,4)]
  let ?rest = "without (ce_versionId c) cards"
  have cons: "consistent limit ?rest" by (rule consistent_without [OF ok(1)])
  then obtain plan' where plan': "planSelectedScopes sha256 ?rest limit = Inr plan'" "plan_of sha256 limit ?rest plan'"
    using planSelectedScopes_spec [OF assms(1), of limit ?rest] by auto
  have "measurePlanCost sha256 ?rest limit = Inr (measurePreparedPlanCost (length ?rest) plan')"
    by (simp add: measurePlanCost_def plan'(1))
  also have "measurePreparedPlanCost (length ?rest) plan' =
      subtractPlanCost (measurePreparedPlanCost (length cards) plan) (card_cost limit cards c)"
    unfolding prepared_cost [OF plan'(2) cons] prepared_cost [OF ok(2,1)] by (rule cost_without [OF assms(2,3)])
  finally show ?thesis using removal_savings [OF assms] by blast
qed

end
