(* ===== verification/Minimum_Set_Laws.thy ===== *)
theory Minimum_Set_Laws
  imports Minimum_Set Removal_Savings Scoring_Properties
begin

text \<open>
  The reduction of the set planner: what every removal keeps, and where the loop stops.
\<close>

section \<open>Orders on execution costs\<close>

definition exec_key :: "plan_cost \<Rightarrow> int \<times> int \<times> int \<times> int" where
  "exec_key c = (pc_managedTargetCount c, pc_managedChunkLimitTotal c, pc_delegatedItemCount c, pc_guideBytes c)"

lemma compareExecutionCost_less: "compareExecutionCost a b < 0 \<longleftrightarrow> exec_key a < exec_key b"
  by (auto simp: compareExecutionCost_def EXECUTION_COST_KEYS_def exec_key_def Let_def less_prod_def)

section \<open>One removal\<close>

lemma cost_Inr:
  assumes "inj sha256"
  shows "measurePlanCost sha256 cards limit = Inr m \<longleftrightarrow>
    (\<exists>plan. planSelectedScopes sha256 cards limit = Inr plan \<and> m = measurePreparedPlanCost (length cards) plan)"
  by (auto simp: measurePlanCost_def res_bind_eq_Inr)

lemma savings_exact:
  assumes inj: "inj sha256" and d: "distinct (map ce_versionId cards)" and m: "measurePlanCost sha256 cards limit = Inr current"
  shows "\<exists>sav. measureCardRemovalSavings sha256 cards limit = Inr sav \<and>
    (\<forall>c \<in> set cards. \<exists>saved. map_of sav (ce_versionId c) = Some saved \<and>
       measurePlanCost sha256 (without (ce_versionId c) cards) limit = Inr (subtractPlanCost current saved))"
proof -
  obtain plan where plan: "planSelectedScopes sha256 cards limit = Inr plan" "current = measurePreparedPlanCost (length cards) plan"
    using m cost_Inr [OF inj] by blast
  obtain sav where sav: "measureCardRemovalSavings sha256 cards limit = Inr sav"
    by (simp add: measureCardRemovalSavings_def plan(1) Let_def)
  have "\<exists>saved. map_of sav (ce_versionId c) = Some saved \<and>
      measurePlanCost sha256 (without (ce_versionId c) cards) limit = Inr (subtractPlanCost current saved)" if "c \<in> set cards" for c
    using removal_exact [OF inj d that plan(1)] sav plan(2) by auto
  then show ?thesis using sav by blast
qed

lemma removable_exact:
  assumes inj: "inj sha256" and d: "distinct (map ce_versionId selected)"
    and m: "measurePlanCost sha256 selected (pn_chunkLimitPerScope pn) = Inr current"
  shows "\<exists>removable. findRemovableCards sha256 pn selected current = Inr removable \<and>
    (\<forall>rm \<in> set removable. rc_card rm \<in> set selected \<and> map_of (pn_protectedReasons pn) (ce_versionId (rc_card rm)) = None \<and>
       rc_next rm = without (ce_versionId (rc_card rm)) selected \<and>
       preservesFacetCoverage (rc_next rm) (pn_supports pn) (pn_facets pn) (pn_baselineCoverage pn) \<and>
       measurePlanCost sha256 (rc_next rm) (pn_chunkLimitPerScope pn) = Inr (rc_nextCost rm) \<and>
       compareExecutionCost (rc_nextCost rm) current < 0) \<and>
    (removable = [] \<longrightarrow> (\<forall>c \<in> set selected. map_of (pn_protectedReasons pn) (ce_versionId c) = None \<longrightarrow>
       preservesFacetCoverage (without (ce_versionId c) selected) (pn_supports pn) (pn_facets pn) (pn_baselineCoverage pn) \<longrightarrow>
       (\<exists>cost. measurePlanCost sha256 (without (ce_versionId c) selected) (pn_chunkLimitPerScope pn) = Inr cost \<and>
          0 \<le> compareExecutionCost cost current)))"
proof -
  obtain sav where sav: "measureCardRemovalSavings sha256 selected (pn_chunkLimitPerScope pn) = Inr sav"
    and exact: "\<And>c. c \<in> set selected \<Longrightarrow> \<exists>saved. map_of sav (ce_versionId c) = Some saved \<and>
       measurePlanCost sha256 (without (ce_versionId c) selected) (pn_chunkLimitPerScope pn) = Inr (subtractPlanCost current saved)"
    using savings_exact [OF inj d m] by blast
  let ?f = "removable_card pn selected current sav"
  let ?removable = "List.map_filter ?f selected"
  have find: "findRemovableCards sha256 pn selected current = Inr ?removable"
    by (simp add: findRemovableCards_def sav)
  have each: "rc_card rm \<in> set selected \<and> map_of (pn_protectedReasons pn) (ce_versionId (rc_card rm)) = None \<and>
       rc_next rm = without (ce_versionId (rc_card rm)) selected \<and>
       preservesFacetCoverage (rc_next rm) (pn_supports pn) (pn_facets pn) (pn_baselineCoverage pn) \<and>
       measurePlanCost sha256 (rc_next rm) (pn_chunkLimitPerScope pn) = Inr (rc_nextCost rm) \<and>
       compareExecutionCost (rc_nextCost rm) current < 0" if "rm \<in> set ?removable" for rm
  proof -
    obtain c where c: "c \<in> set selected" "?f c = Some rm" using \<open>rm \<in> _\<close> by (auto simp: set_map_filter)
    obtain saved where s: "map_of sav (ce_versionId c) = Some saved"
      "measurePlanCost sha256 (without (ce_versionId c) selected) (pn_chunkLimitPerScope pn) = Inr (subtractPlanCost current saved)"
      using exact [OF c(1)] by blast
    show ?thesis using c s by (auto simp: removable_card_def Let_def split: if_splits)
  qed
  have stop: "\<exists>cost. measurePlanCost sha256 (without (ce_versionId c) selected) (pn_chunkLimitPerScope pn) = Inr cost \<and>
          0 \<le> compareExecutionCost cost current"
    if c: "?removable = []" "c \<in> set selected" "map_of (pn_protectedReasons pn) (ce_versionId c) = None"
      "preservesFacetCoverage (without (ce_versionId c) selected) (pn_supports pn) (pn_facets pn) (pn_baselineCoverage pn)" for c
  proof -
    obtain saved where s: "map_of sav (ce_versionId c) = Some saved"
      "measurePlanCost sha256 (without (ce_versionId c) selected) (pn_chunkLimitPerScope pn) = Inr (subtractPlanCost current saved)"
      using exact [OF c(2)] by blast
    have "set ?removable = {}" using c(1) by simp
    then have "?f c = None" using c(2) unfolding set_map_filter by (cases "?f c") auto
    then have "0 \<le> compareExecutionCost (subtractPlanCost current saved) current"
      using c(3,4) s(1) by (simp add: removable_card_def Let_def split: if_splits)
    then show ?thesis using s(2) by blast
  qed
  show ?thesis using find each stop by blast
qed

section \<open>The loop\<close>

definition reduced ::
    "(string \<Rightarrow> string) \<Rightarrow> planner \<Rightarrow> approved_card list \<Rightarrow> plan_cost \<Rightarrow> approved_card list \<Rightarrow> plan_cost \<Rightarrow> bool" where
  "reduced sha256 pn selected current final finalCost \<longleftrightarrow>
     (\<exists>P. final = filter P selected) \<and> (selected \<noteq> [] \<longrightarrow> final \<noteq> []) \<and>
     measurePlanCost sha256 final (pn_chunkLimitPerScope pn) = Inr finalCost \<and>
     preservesFacetCoverage final (pn_supports pn) (pn_facets pn) (pn_baselineCoverage pn) \<and>
     (\<forall>c \<in> set selected. map_of (pn_protectedReasons pn) (ce_versionId c) \<noteq> None \<longrightarrow> c \<in> set final) \<and>
     (final = selected \<and> finalCost = current \<or> compareExecutionCost finalCost current < 0)"

definition minimal ::
    "(string \<Rightarrow> string) \<Rightarrow> planner \<Rightarrow> approved_card list \<Rightarrow> plan_cost \<Rightarrow> bool" where
  "minimal sha256 pn final finalCost \<longleftrightarrow>
     length final \<le> 1 \<or> (\<forall>c \<in> set final. map_of (pn_protectedReasons pn) (ce_versionId c) = None \<longrightarrow>
       preservesFacetCoverage (without (ce_versionId c) final) (pn_supports pn) (pn_facets pn) (pn_baselineCoverage pn) \<longrightarrow>
       (\<exists>cost. measurePlanCost sha256 (without (ce_versionId c) final) (pn_chunkLimitPerScope pn) = Inr cost \<and>
          0 \<le> compareExecutionCost cost finalCost))"

lemma without_length:
  assumes "distinct (map ce_versionId cards)" and "c \<in> set cards"
  shows "Suc (length (without (ce_versionId c) cards)) = length cards"
proof -
  obtain as bs where split: "cards = as @ c # bs" by (rule split_list [OF assms(2), elim_format]) blast
  have "ce_versionId c \<notin> ce_versionId ` set as" "ce_versionId c \<notin> ce_versionId ` set bs"
    using assms(1) unfolding split by simp_all
  then show ?thesis unfolding split by (simp add: without_absent)
qed

lemma reduce_set_spec:
  "inj sha256 \<Longrightarrow> distinct (map ce_versionId selected) \<Longrightarrow>
   measurePlanCost sha256 selected (pn_chunkLimitPerScope pn) = Inr current \<Longrightarrow>
   preservesFacetCoverage selected (pn_supports pn) (pn_facets pn) (pn_baselineCoverage pn) \<Longrightarrow>
   \<exists>final finalCost. reduce_set sha256 pn selected current n = Inr (final, finalCost, n + (length selected - length final)) \<and>
     reduced sha256 pn selected current final finalCost \<and> minimal sha256 pn final finalCost"
proof (induction sha256 pn selected current n rule: reduce_set.induct)
  case (1 sha256 pn selected current n)
  have self: "reduced sha256 pn selected current selected current"
    using "1.prems" by (auto simp: reduced_def intro: exI [of _ "\<lambda>_. True"])
  show ?case
  proof (cases "length selected \<le> 1")
    case True
    then have "reduce_set sha256 pn selected current n = Inr (selected, current, n)" by (simp add: reduce_set.simps)
    then show ?thesis using self True by (auto simp: minimal_def)
  next
    case False
    obtain removable where r: "findRemovableCards sha256 pn selected current = Inr removable"
      and each: "\<And>rm. rm \<in> set removable \<Longrightarrow> rc_card rm \<in> set selected \<and>
         map_of (pn_protectedReasons pn) (ce_versionId (rc_card rm)) = None \<and>
         rc_next rm = without (ce_versionId (rc_card rm)) selected \<and>
         preservesFacetCoverage (rc_next rm) (pn_supports pn) (pn_facets pn) (pn_baselineCoverage pn) \<and>
         measurePlanCost sha256 (rc_next rm) (pn_chunkLimitPerScope pn) = Inr (rc_nextCost rm) \<and>
         compareExecutionCost (rc_nextCost rm) current < 0"
      and stop: "removable = [] \<Longrightarrow> minimal sha256 pn selected current"
      using removable_exact [OF "1.prems"(1-3)] unfolding minimal_def by blast
    show ?thesis
    proof (cases "js_sort compareRemovalCandidates removable")
      case Nil
      then have "set removable = {}" by (metis list.set(1) set_js_sort)
      moreover have "reduce_set sha256 pn selected current n = Inr (selected, current, n)"
        using False r Nil by (simp add: reduce_set.simps [of sha256 pn selected])
      ultimately show ?thesis using self stop by auto
    next
      case (Cons chosen others)
      have "chosen \<in> set (js_sort compareRemovalCandidates removable)" by (simp add: Cons)
      then have mem: "chosen \<in> set removable" by simp
      note c = each [OF mem]
      let ?v = "ce_versionId (rc_card chosen)"
      have nx: "rc_next chosen = without ?v selected" using c by blast
      have step: "reduce_set sha256 pn selected current n = reduce_set sha256 pn (rc_next chosen) (rc_nextCost chosen) (n + 1)"
        using False r Cons by (simp add: reduce_set.simps [of sha256 pn selected])
      have len: "Suc (length (rc_next chosen)) = length selected" unfolding nx by (rule without_length) (use c "1.prems" in auto)
      have "distinct (map ce_versionId (rc_next chosen))" unfolding nx using "1.prems"(2) by (simp add: distinct_map_filter)
      from "1.IH" [OF False r Cons "1.prems"(1) this] c obtain final finalCost where
        f: "reduce_set sha256 pn (rc_next chosen) (rc_nextCost chosen) (n + 1) =
            Inr (final, finalCost, n + 1 + (length (rc_next chosen) - length final))"
          "reduced sha256 pn (rc_next chosen) (rc_nextCost chosen) final finalCost" "minimal sha256 pn final finalCost"
        by blast
      obtain P where P: "final = filter P (rc_next chosen)" using f(2) unfolding reduced_def by blast
      have "length final \<le> length (rc_next chosen)" unfolding P by (rule length_filter_le)
      then have count: "n + 1 + (length (rc_next chosen) - length final) = n + (length selected - length final)"
        using len by simp
      have "final = filter (\<lambda>d. ce_versionId d \<noteq> ?v \<and> P d) selected" unfolding P nx by simp
      moreover have "rc_next chosen \<noteq> []" using len False by auto
      moreover have "x \<in> set (rc_next chosen)" if x: "x \<in> set selected" "map_of (pn_protectedReasons pn) (ce_versionId x) \<noteq> None" for x
        unfolding nx using c x by auto
      moreover have "compareExecutionCost finalCost current < 0"
        using f(2) c unfolding reduced_def compareExecutionCost_less by (auto intro: less_trans)
      ultimately have "reduced sha256 pn selected current final finalCost"
        using f(2) unfolding reduced_def by blast
      then show ?thesis using step f(1,3) count by auto
    qed
  qed
qed

end
