(* ===== verification/Selection_Properties.thy ===== *)
theory Selection_Properties
  imports Removal_Savings Selection_Verdict
begin

text \<open>
  What selection promises of verdicts, of read plans and of their costs.
\<close>

section \<open>Sample Cards\<close>

definition refund_meaning :: card_meaning where
  "refund_meaning = \<lparr>cm_description = ''refunds'', cm_representativeQuestions = [], cm_aliases = [], cm_keywords = []\<rparr>"

definition sample_card :: "string \<Rightarrow> approved_scope list \<Rightarrow> approved_card" where
  "sample_card v scopes = \<lparr>ce_cardId = ''card-'' @ v, ce_versionId = v, ce_meaning = refund_meaning,
     ce_policy = \<lparr>cp_sensitive = False, cp_allowedUsage = []\<rparr>, ce_scopes = scopes\<rparr>"

definition shared_scope :: approved_scope where
  "shared_scope = ManagedDocumentScope \<lparr>scopeId = ''d'', scopeVersion = ''1''\<rparr>
     \<lparr>di_documentIndexId = ''i'', di_sourceId = ''s'', di_documentId = ''d'', di_indexVersion = ''1''\<rparr> WholeDocument"

definition own_scope :: approved_scope where
  "own_scope = SqlSourceScope \<lparr>scopeId = ''t'', scopeVersion = ''1''\<rparr> ''db'' ''main'' ''refunds'' [''id'']"

definition sample_cards :: "approved_card list" where
  "sample_cards = [sample_card ''a'' [shared_scope, own_scope], sample_card ''b'' [shared_scope]]"

lemma sample_consistent: "consistent 4 sample_cards"
  by (auto simp: consistent_def guides_def card_guides_def sample_cards_def sample_card_def shared_scope_def
      own_scope_def inj_on_def scope_key_def copyScopeRef_def)

section \<open>Verdicts\<close>

lemma rank_key_inj: "rank_key c = rank_key d \<Longrightarrow> sn_versionId c = sn_versionId d"
  by (auto simp: rank_key_def split: js_number.splits)

lemma rank_key_inj_on: "distinct (map sn_versionId cs) \<Longrightarrow> inj_on rank_key (set cs)"
  by (rule inj_onI) (metis distinct_map inj_onD rank_key_inj)

lemma mset_rank [simp]: "mset (rank_candidates cs) = mset cs"
  by (simp add: rank_candidates_def)

lemma set_rank [simp]: "set (rank_candidates cs) = set cs"
  by (simp add: rank_candidates_def)

lemma rank_sorted: "sorted (map rank_key (rank_candidates cs))"
  by (simp add: rank_candidates_def)

lemma rank_unique:
  assumes "distinct (map sn_versionId cs)" and "mset cs = mset ds"
  shows "rank_candidates cs = rank_candidates ds"
proof (rule map_sorted_distinct_set_unique [of rank_key])
  have s: "set cs = set ds" using assms(2) by (rule mset_eq_setD)
  show "inj_on rank_key (set (rank_candidates cs) \<union> set (rank_candidates ds))"
    using rank_key_inj_on [OF assms(1)] s by simp
  have "distinct (map sn_versionId ds)" using assms by (metis mset_eq_imp_distinct_iff mset_map)
  then show "distinct (map rank_key (rank_candidates ds))"
    using rank_key_inj_on [of ds] by (metis distinct_map mset_eq_imp_distinct_iff mset_rank set_rank)
  show "distinct (map rank_key (rank_candidates cs))"
    using rank_key_inj_on [OF assms(1)] assms(1) by (metis distinct_map mset_eq_imp_distinct_iff mset_rank set_rank)
  show "set (rank_candidates cs) = set (rank_candidates ds)" using s by simp
qed (rule rank_sorted)+

lemma rank_pairs:
  assumes "i < j" and "j < length (rank_candidates cs)"
  shows "rank_key (rank_candidates cs ! i) \<le> rank_key (rank_candidates cs ! j)"
  using sorted_nth_mono [OF rank_sorted [of cs], of i j] assms by simp

lemma verdicts_with_finite_thresholds:
  assumes "th_admit t = Finite a" and "th_reject t = Finite r"
  shows "if r < a \<and> distinct (map sn_versionId cs)
    then \<exists>res. judgeCandidates render cs t = Inr res \<and>
      image_mset (\<lambda>x. (oc_cardId x, oc_versionId x, oc_score x)) (mset (rs_outcomes res)) =
        image_mset (\<lambda>c. (sn_cardId c, sn_versionId c, sn_score c)) (mset cs) \<and>
      (\<forall>i j. i < j \<and> j < length (rs_outcomes res) \<longrightarrow>
         (case (oc_score (rs_outcomes res ! i), oc_score (rs_outcomes res ! j)) of
            (Finite p, Finite q) \<Rightarrow> q \<le> p | (Finite p, _) \<Rightarrow> True | (_, Finite q) \<Rightarrow> False | _ \<Rightarrow> True)) \<and>
      (\<forall>x \<in> set (rs_outcomes res).
         (oc_verdict x = Admit \<longleftrightarrow> (\<exists>q. oc_score x = Finite q \<and> a \<le> q)) \<and>
         (oc_verdict x = Defer \<longleftrightarrow> (\<exists>q. oc_score x = Finite q \<and> r < q \<and> q < a)) \<and>
         (oc_findings x = [] \<longleftrightarrow> oc_verdict x = Admit))
    else \<exists>e. judgeCandidates render cs t = Inl e"
proof (cases "r < a \<and> distinct (map sn_versionId cs)")
  case False
  have "assertUsableThresholds render t \<noteq> Inr () \<or> assertUniqueVersionIds cs \<noteq> Inr ()"
    using False assms by (auto simp: assertUsableThresholds_ok assertUniqueVersionIds_ok usable_def)
  then have "\<exists>e. judgeCandidates render cs t = Inl e"
    unfolding judgeCandidates_eq
    by (cases "assertUsableThresholds render t"; cases "assertUniqueVersionIds cs") simp_all
  then show ?thesis unfolding if_not_P [OF False] .
next
  case True
  let ?R = "rank_candidates cs" and ?J = "judgeOrdinaryCandidate render t"
  have "assertUsableThresholds render t = Inr ()" "assertUniqueVersionIds cs = Inr ()"
    using True assms by (simp_all add: assertUsableThresholds_ok assertUniqueVersionIds_ok usable_def)
  then obtain res where res: "judgeCandidates render cs t = Inr res" "rs_outcomes res = map ?J ?R"
    by (simp add: judgeCandidates_eq)
  have "image_mset (\<lambda>x. (oc_cardId x, oc_versionId x, oc_score x)) (mset (map ?J ?R)) =
      image_mset (\<lambda>c. (sn_cardId c, sn_versionId c, sn_score c)) (mset ?R)"
    by (simp add: image_mset.compositionality o_def)
  then have same: "image_mset (\<lambda>x. (oc_cardId x, oc_versionId x, oc_score x)) (mset (rs_outcomes res)) =
      image_mset (\<lambda>c. (sn_cardId c, sn_versionId c, sn_score c)) (mset cs)"
    unfolding res(2) by simp
  have order: "case (oc_score (rs_outcomes res ! i), oc_score (rs_outcomes res ! j)) of
      (Finite p, Finite q) \<Rightarrow> q \<le> p | (Finite p, _) \<Rightarrow> True | (_, Finite q) \<Rightarrow> False | _ \<Rightarrow> True"
    if ij: "i < j" "j < length (rs_outcomes res)" for i j
  proof -
    have j: "j < length ?R" using ij by (simp add: res(2))
    then have "oc_score (rs_outcomes res ! i) = sn_score (?R ! i)" "oc_score (rs_outcomes res ! j) = sn_score (?R ! j)"
      using ij by (simp_all add: res(2))
    then show ?thesis using rank_pairs [OF ij(1) j]
      by (cases "sn_score (?R ! i)"; cases "sn_score (?R ! j)") (auto simp: rank_key_def less_eq_prod_def)
  qed
  have verdict: "(oc_verdict x = Admit \<longleftrightarrow> (\<exists>q. oc_score x = Finite q \<and> a \<le> q)) \<and>
      (oc_verdict x = Defer \<longleftrightarrow> (\<exists>q. oc_score x = Finite q \<and> r < q \<and> q < a)) \<and>
      (oc_findings x = [] \<longleftrightarrow> oc_verdict x = Admit)" if x: "x \<in> set (rs_outcomes res)" for x
  proof -
    obtain c where "x = ?J c" using x by (auto simp: res(2))
    then show ?thesis using assms True
      by (cases "sn_score c") (auto simp: judge_verdict is_finite_def judgeOrdinaryCandidate_def not_finite_outcome_def outcome_of_def)
  qed
  show ?thesis unfolding if_P [OF True] using res(1) same order verdict by blast
qed

text \<open>
  C28: judging scored candidates succeeds exactly when both thresholds are finite numbers with reject
  below admit and no card version occurs twice; thresholds that are NaN or infinite are refused. Every candidate then gets one outcome, in an
  order in which no score is followed by a higher one and no score that is not finite by a finite one;
  a candidate is admitted exactly when its finite score reaches the admit threshold, deferred
  exactly when it lies strictly between the two, and rejected otherwise, always with a finding
  unless it is admitted. The shared findings of large selections change nothing.
\<close>
theorem verdicts_follow_the_bands:
  "case (th_admit t, th_reject t) of
     (Finite a, Finite r) \<Rightarrow> (if r < a \<and> distinct (map sn_versionId cs)
    then \<exists>res. judgeCandidates render cs t = Inr res \<and>
      image_mset (\<lambda>x. (oc_cardId x, oc_versionId x, oc_score x)) (mset (rs_outcomes res)) =
        image_mset (\<lambda>c. (sn_cardId c, sn_versionId c, sn_score c)) (mset cs) \<and>
      (\<forall>i j. i < j \<and> j < length (rs_outcomes res) \<longrightarrow>
         (case (oc_score (rs_outcomes res ! i), oc_score (rs_outcomes res ! j)) of
            (Finite p, Finite q) \<Rightarrow> q \<le> p | (Finite p, _) \<Rightarrow> True | (_, Finite q) \<Rightarrow> False | _ \<Rightarrow> True)) \<and>
      (\<forall>x \<in> set (rs_outcomes res).
         (oc_verdict x = Admit \<longleftrightarrow> (\<exists>q. oc_score x = Finite q \<and> a \<le> q)) \<and>
         (oc_verdict x = Defer \<longleftrightarrow> (\<exists>q. oc_score x = Finite q \<and> r < q \<and> q < a)) \<and>
         (oc_findings x = [] \<longleftrightarrow> oc_verdict x = Admit))
    else \<exists>e. judgeCandidates render cs t = Inl e)
   | _ \<Rightarrow> \<exists>e. judgeCandidates render cs t = Inl e"
proof (cases "\<exists>a r. th_admit t = Finite a \<and> th_reject t = Finite r")
  case True
  then obtain a r where f: "th_admit t = Finite a" "th_reject t = Finite r" by blast
  show ?thesis using verdicts_with_finite_thresholds [OF f, of cs render] unfolding f prod.case js_number.case .
next
  case False
  have "assertUsableThresholds render t \<noteq> Inr ()" using False by (auto simp: assertUsableThresholds_ok usable_def)
  then have "\<exists>e. judgeCandidates render cs t = Inl e"
    unfolding judgeCandidates_eq by (cases "assertUsableThresholds render t") simp_all
  then show ?thesis using False by (cases "th_admit t"; cases "th_reject t") simp_all
qed

theorem verdicts_follow_the_bands_witness:
  "(\<exists>res. judgeCandidates (\<lambda>_. ''n'')
     [\<lparr>sn_cardId = ''a'', sn_versionId = ''a1'', sn_score = Finite (9 / 10)\<rparr>] DEFAULT_SELECTION_THRESHOLDS = Inr res) \<and>
   (\<exists>e. judgeCandidates (\<lambda>_. ''n'')
     [\<lparr>sn_cardId = ''a'', sn_versionId = ''a1'', sn_score = Finite (9 / 10)\<rparr>]
     (DEFAULT_SELECTION_THRESHOLDS\<lparr>th_reject := NotANumber\<rparr>) = Inl e)"
  using verdicts_follow_the_bands [where t = DEFAULT_SELECTION_THRESHOLDS
      and cs = "[\<lparr>sn_cardId = ''a'', sn_versionId = ''a1'', sn_score = Finite (9 / 10)\<rparr>]" and render = "\<lambda>_. ''n''"]
    verdicts_follow_the_bands [where t = "DEFAULT_SELECTION_THRESHOLDS\<lparr>th_reject := NotANumber\<rparr>"
      and cs = "[\<lparr>sn_cardId = ''a'', sn_versionId = ''a1'', sn_score = Finite (9 / 10)\<rparr>]" and render = "\<lambda>_. ''n''"]
  by (auto simp: DEFAULT_SELECTION_THRESHOLDS_def)

text \<open>
  The order in which candidates are given does not matter: two lists of the same
  candidates, no card version twice, give the same outcomes in the same order with the same provenance.
\<close>
theorem selection_ignores_candidate_order:
  assumes "distinct (map sn_versionId cs)" and "mset cs = mset ds"
  shows "judgeCandidates render cs t = judgeCandidates render ds t"
proof -
  have "distinct (map sn_versionId ds)" using assms by (metis mset_eq_imp_distinct_iff mset_map)
  then have "assertUniqueVersionIds cs = Inr ()" "assertUniqueVersionIds ds = Inr ()"
    using assms(1) by (simp_all add: assertUniqueVersionIds_ok)
  moreover have "length cs = length ds" using assms(2) by (rule mset_eq_length)
  ultimately show ?thesis using rank_unique [OF assms] by (simp add: judgeCandidates_eq)
qed

theorem selection_ignores_candidate_order_witness:
  "judgeCandidates (\<lambda>_. ''n'')
     [\<lparr>sn_cardId = ''a'', sn_versionId = ''a1'', sn_score = Finite (1 / 2)\<rparr>,
      \<lparr>sn_cardId = ''b'', sn_versionId = ''b1'', sn_score = Finite (1 / 2)\<rparr>] DEFAULT_SELECTION_THRESHOLDS =
   judgeCandidates (\<lambda>_. ''n'')
     [\<lparr>sn_cardId = ''b'', sn_versionId = ''b1'', sn_score = Finite (1 / 2)\<rparr>,
      \<lparr>sn_cardId = ''a'', sn_versionId = ''a1'', sn_score = Finite (1 / 2)\<rparr>] DEFAULT_SELECTION_THRESHOLDS"
  by (rule selection_ignores_candidate_order) simp_all

text \<open>
  The set planner can only take back admissions: its decision is accepted exactly when it
  names admitted card versions only and leaves at least one if there was one. The admitted
  versions are then the admitted ones it named, an outcome it took back is deferred with the
  one finding that says so, and every other outcome, the ranking and its provenance stay.
\<close>
theorem set_planning_only_defers:
  "if set selected \<subseteq> set (admitted_ids selection) \<and> (admitted_ids selection = [] \<or> selected \<noteq> [])
   then \<exists>res. applySetPlanningDecision selection selected = Inr res \<and>
     rs_provenance res = rs_provenance selection \<and>
     admitted_ids res = filter (\<lambda>i. i \<in> set selected) (admitted_ids selection) \<and>
     list_all2 (\<lambda>x y. if oc_verdict x = Admit \<and> oc_versionId x \<notin> set selected
         then y = x\<lparr>oc_verdict := Defer, oc_findings := COVERED_BY_SELECTED_SET_FINDINGS\<rparr> else y = x)
       (rs_outcomes selection) (rs_outcomes res)
   else \<exists>e. applySetPlanningDecision selection selected = Inl e"
proof (cases "set selected \<subseteq> set (admitted_ids selection)")
  case False
  then obtain i where i: "i \<in> set selected" "i \<notin> set (admitted_ids selection)" by blast
  then have "List.find (\<lambda>i. i \<notin> set (js_set (admitted_ids selection))) selected \<noteq> None"
    by (auto simp: find_None_iff)
  then show ?thesis using False by (auto simp: applySetPlanningDecision_def Let_def)
next
  case True
  then have none: "List.find (\<lambda>i. i \<notin> set (js_set (admitted_ids selection))) selected = None"
    by (auto simp: find_None_iff)
  have empty: "js_set (admitted_ids selection) = [] \<longleftrightarrow> admitted_ids selection = []"
    by (metis set_empty set_js_set)
  show ?thesis
  proof (cases "admitted_ids selection = [] \<or> selected \<noteq> []")
    case False
    then show ?thesis using none empty by (simp add: applySetPlanningDecision_def Let_def)
  next
    case ok: True
    have run: "applySetPlanningDecision selection selected =
        Inr (selection\<lparr>rs_outcomes := map (project_outcome selected) (rs_outcomes selection)\<rparr>)"
      using none empty ok by (auto simp: applySetPlanningDecision_def Let_def)
    have "map oc_versionId (filter (\<lambda>x. oc_verdict x = Admit) (map (project_outcome selected) xs)) =
        filter (\<lambda>i. i \<in> set selected) (map oc_versionId (filter (\<lambda>x. oc_verdict x = Admit) xs))" for xs
      by (induction xs) (auto simp: project_outcome_def)
    moreover have "list_all2 (\<lambda>x y. if oc_verdict x = Admit \<and> oc_versionId x \<notin> set selected
         then y = x\<lparr>oc_verdict := Defer, oc_findings := COVERED_BY_SELECTED_SET_FINDINGS\<rparr> else y = x)
       xs (map (project_outcome selected) xs)" for xs
      by (induction xs) (simp_all add: project_outcome_def)
    ultimately show ?thesis unfolding run using True ok by (simp add: admitted_ids_def)
  qed
qed

definition two_admitted :: selection_result where
  "two_admitted = \<lparr>rs_outcomes =
      [\<lparr>oc_verdict = Admit, oc_cardId = ''a'', oc_versionId = ''a1'', oc_score = Finite 1, oc_findings = []\<rparr>,
       \<lparr>oc_verdict = Admit, oc_cardId = ''b'', oc_versionId = ''b1'', oc_score = Finite (9 / 10), oc_findings = []\<rparr>],
     rs_provenance = \<lparr>rp_policyVersion = SELECTION_RANKING_POLICY_VERSION,
       rp_thresholds = DEFAULT_SELECTION_THRESHOLDS, rp_tieBreak = ''card version id'',
       rp_consideredCount = 2, rp_ranked = []\<rparr>\<rparr>"

theorem set_planning_only_defers_witness:
  "\<exists>res. applySetPlanningDecision two_admitted [''a1''] = Inr res \<and> admitted_ids res = [''a1'']"
  using set_planning_only_defers [of "[''a1'']" two_admitted]
  by (auto simp: two_admitted_def admitted_ids_def)


section \<open>Read plans\<close>

text \<open>
  C29: with a hash that does not collide, the scopes of the admitted Cards merge into a plan exactly
  when no two of them give one scope version two definitions. The plan then lists every guide
  once, with the Cards that carry it and no others, under the key of that guide; a guide of a
  managed document carries the key of its read, the reads are those of the managed guides, each
  once, and both lists are sorted.
\<close>
theorem plan_merges_the_scopes:
  assumes "inj sha256"
  shows "if inj_on guide_scope_key (guides limit cards)
    then \<exists>plan. planSelectedScopes sha256 cards limit = Inr plan \<and>
      distinct (map pl_guide (rd_items plan)) \<and>
      pl_guide ` set (rd_items plan) = {buildRetrievalGuide s limit | s c. c \<in> set cards \<and> s \<in> set (ce_scopes c)} \<and>
      (\<forall>item \<in> set (rd_items plan).
         pl_itemKey item = retrievalGuideKey sha256 (pl_guide item) \<and> distinct (pl_selectedBy item) \<and>
         set (pl_selectedBy item) = {ref_of_card c | c. c \<in> set cards \<and>
           (\<exists>s \<in> set (ce_scopes c). buildRetrievalGuide s limit = pl_guide item)} \<and>
         pl_execution item = (case read_target sha256 (pl_guide item) of
           None \<Rightarrow> Delegated | Some t \<Rightarrow> Managed (mt_targetKey t))) \<and>
      sorted (map item_order (rd_items plan)) \<and>
      distinct (rd_managedTargets plan) \<and> sorted (map mt_targetKey (rd_managedTargets plan)) \<and>
      set (rd_managedTargets plan) = read_targets sha256 (pl_guide ` set (rd_items plan))
    else \<exists>e. planSelectedScopes sha256 cards limit = Inl e"
proof (cases "inj_on guide_scope_key (guides limit cards)")
  case False
  then show ?thesis using planSelectedScopes_spec [OF assms, of limit cards] by (simp add: consistent_def)
next
  case True
  then obtain plan where plan: "planSelectedScopes sha256 cards limit = Inr plan" "plan_of sha256 limit cards plan"
    using planSelectedScopes_spec [OF assms, of limit cards] by (auto simp: consistent_def)
  have gs: "guides limit cards = {buildRetrievalGuide s limit | s c. c \<in> set cards \<and> s \<in> set (ce_scopes c)}"
    by (auto simp: guides_def card_guides_def)
  have sel: "selectors limit cards g = {ref_of_card c | c. c \<in> set cards \<and>
      (\<exists>s \<in> set (ce_scopes c). buildRetrievalGuide s limit = g)}" for g
    by (auto simp: selectors_def card_guides_def)
  have all: "pl_guide ` set (rd_items plan) = guides limit cards" using plan(2) unfolding plan_of_def by blast
  have rt: "set (rd_managedTargets plan) = read_targets sha256 (pl_guide ` set (rd_items plan))"
    using plan(2) unfolding plan_of_def all by blast
  note rest = plan(2) [unfolded plan_of_def gs sel]
  show ?thesis
    unfolding if_P [OF True]
    by (intro exI [of _ plan] conjI; (rule plan(1) rt | use rest in blast))
qed

theorem plan_merges_the_scopes_witness:
  "\<exists>plan. planSelectedScopes (\<lambda>t. t) sample_cards 4 = Inr plan \<and>
     pl_guide ` set (rd_items plan) = {buildRetrievalGuide s 4 | s c. c \<in> set sample_cards \<and> s \<in> set (ce_scopes c)}"
proof -
  have "inj (\<lambda>t :: string. t)" by simp
  note plan_merges_the_scopes [OF this, of 4 sample_cards]
  then show ?thesis using sample_consistent unfolding consistent_def by auto
qed

text \<open>
  C30: the savings of removing a Card, computed for all Cards in one pass over the plan they
  share, are exact: what remains after subtracting them from the cost of the plan is the cost of
  the plan made from the other Cards alone.
\<close>
theorem removal_savings_are_exact:
  assumes "inj sha256" and "distinct (map ce_versionId cards)" and "c \<in> set cards"
    and "planSelectedScopes sha256 cards limit = Inr plan"
  shows "\<exists>m saved. measureCardRemovalSavings sha256 cards limit = Inr m \<and> map_of m (ce_versionId c) = Some saved \<and>
    measurePlanCost sha256 (filter (\<lambda>d. ce_versionId d \<noteq> ce_versionId c) cards) limit =
      Inr (subtractPlanCost (measurePreparedPlanCost (length cards) plan) saved)"
  by (rule removal_exact [OF assms])

theorem removal_savings_are_exact_witness:
  "\<exists>plan m saved. planSelectedScopes (\<lambda>t. t) sample_cards 4 = Inr plan \<and>
     measureCardRemovalSavings (\<lambda>t. t) sample_cards 4 = Inr m \<and> map_of m ''a'' = Some saved \<and>
     measurePlanCost (\<lambda>t. t) [sample_card ''b'' [shared_scope]] 4 =
       Inr (subtractPlanCost (measurePreparedPlanCost 2 plan) saved)"
proof -
  have inj: "inj (\<lambda>t :: string. t)" by simp
  obtain plan where plan: "planSelectedScopes (\<lambda>t. t) sample_cards 4 = Inr plan"
    using planSelectedScopes_spec [OF inj, of 4 sample_cards] sample_consistent by auto
  have "distinct (map ce_versionId sample_cards)" "sample_card ''a'' [shared_scope, own_scope] \<in> set sample_cards"
    by (simp_all add: sample_cards_def sample_card_def)
  from removal_savings_are_exact [OF inj this plan] plan show ?thesis
    by (auto simp: sample_cards_def sample_card_def numeral_2_eq_2)
qed

end
