(* ===== verification/Minimum_Set_Properties.thy ===== *)
theory Minimum_Set_Properties
  imports Minimum_Set_Laws Selection_Properties
begin

text \<open>
  The whole planner: when it answers, what its answer keeps, and that the answer cannot be
  made cheaper by one more removal.
\<close>

section \<open>Supports have finite scores\<close>

lemma scores_unit: "s \<in> set (scoreCardsAgainstQuery lx t cards) \<Longrightarrow> is_finite (qs_score s)"
proof -
  have "list_all2 (index_ok n) cs ixs \<Longrightarrow> ix \<in> set ixs \<Longrightarrow> is_finite (qs_score (fst (scoreCard lx q st l ix)))"
    for n cs ixs ix q st l
  proof (induction rule: list_all2_induct)
    case (Cons c cs ix' ixs)
    show ?case
    proof (cases "ix = ix'")
      case True
      then show ?thesis using scoreCard_spec [OF Cons.hyps(1) refl, of lx q st l] by auto
    next
      case False
      then show ?thesis using Cons by simp
    qed
  qed simp
  from this [OF catalog_cards] show "s \<in> set (scoreCardsAgainstQuery lx t cards) \<Longrightarrow> is_finite (qs_score s)"
    by (auto simp: run_scores)
qed

definition supports_finite :: "supports \<Rightarrow> bool" where
  "supports_finite supports \<longleftrightarrow>
     (\<forall>v s e. map_of supports v = Some s \<longrightarrow> e \<in> set s \<longrightarrow> is_finite (fs_lexicalScore e))"

lemma scores_by_facet_ok:
  assumes "distinct (map ce_versionId eligible)" and "distinct (map ce_versionId strong)" and "set strong \<subseteq> set eligible"
  shows "\<exists>pairs. scores_by_facet lx eligible strong fs = Inr pairs \<and>
    (\<forall>(k, m) \<in> set pairs. \<forall>(v, s) \<in> set m. is_finite s)"
proof (induction fs)
  case Nil
  then show ?case by simp
next
  case (Cons f fs)
  let ?t = "qf_normalizedText f"
  let ?scores = "map (\<lambda>c. the (map_of (zip eligible (scoreCardsAgainstQuery lx ?t eligible)) c)) strong"
  have run: "scoreCardSubsetAgainstQuery lx ?t eligible strong = Inr ?scores" by (rule subset_pass [OF assms])
  have len: "length (scoreCardsAgainstQuery lx ?t eligible) = length eligible"
    using arg_cong [OF catalog_positions [of lx eligible], of length] by (simp add: run_scores)
  have fin: "is_finite (qs_score s)" if s: "s \<in> set ?scores" for s
  proof -
    obtain c where c: "c \<in> set strong" "s = the (map_of (zip eligible (scoreCardsAgainstQuery lx ?t eligible)) c)" using s by auto
    have "c \<in> set eligible" using c(1) assms(3) by blast
    then have "map_of (zip eligible (scoreCardsAgainstQuery lx ?t eligible)) c \<noteq> None"
      using len by (simp add: map_of_zip_is_None)
    then have "map_of (zip eligible (scoreCardsAgainstQuery lx ?t eligible)) c = Some s" using c(2) by auto
    then have "s \<in> set (scoreCardsAgainstQuery lx ?t eligible)" by (metis map_of_SomeD set_zip_rightD)
    then show ?thesis by (rule scores_unit)
  qed
  have "is_finite s" if "(v, s) \<in> set (scores_by_version ?scores)" for v s
  proof -
    have "distinct (map fst (scores_by_version ?scores))"
      unfolding scores_by_version_def js_map_def by (rule distinct_fold_update) simp
    then have "map_of (scores_by_version ?scores) v = Some s" using that by simp
    then have "(v, s) \<in> set (rev (map (\<lambda>s. (qs_versionId s, qs_score s)) ?scores))"
      unfolding scores_by_version_def map_of_js_map by (rule map_of_SomeD)
    then show ?thesis using fin by auto
  qed
  then show ?case using Cons run by auto
qed

lemma buildFacetSupports_ok:
  assumes "distinct (map ce_versionId eligible)" and "distinct (map ce_versionId strong)" and "set strong \<subseteq> set eligible"
  shows "\<exists>supports. buildFacetSupports lx strong eligible fs = Inr supports \<and> supports_finite supports"
proof -
  obtain pairs where pairs: "scores_by_facet lx eligible strong fs = Inr pairs"
    "\<forall>(k, m) \<in> set pairs. \<forall>(v, s) \<in> set m. is_finite s"
    using scores_by_facet_ok [OF assms] by blast
  let ?m = "js_map pairs"
  have look: "is_finite s" if "map_of ?m k = Some m" "map_of m v = Some s" for k m v s
  proof -
    have "map_of (rev pairs) k = Some m" using that(1) by (simp add: map_of_js_map)
    then have "(k, m) \<in> set pairs" by (metis map_of_SomeD set_rev)
    moreover have "(v, s) \<in> set m" using that(2) by (rule map_of_SomeD)
    ultimately show ?thesis using pairs(2) by blast
  qed
  have entry: "is_finite (fs_lexicalScore (support_of lx ?m c f))" for c f
    using look by (auto simp: support_of_def split: option.split)
  have "supports_finite (js_map (map (\<lambda>c. (ce_versionId c, map (support_of lx ?m c) fs)) strong))"
    unfolding supports_finite_def
  proof (intro allI impI)
    fix v s e
    assume v: "map_of (js_map (map (\<lambda>c. (ce_versionId c, map (support_of lx ?m c) fs)) strong)) v = Some s" and e: "e \<in> set s"
    have "(v, s) \<in> set (rev (map (\<lambda>c. (ce_versionId c, map (support_of lx ?m c) fs)) strong))"
      using v unfolding map_of_js_map by (rule map_of_SomeD)
    then show "is_finite (fs_lexicalScore e)" using e entry by auto
  qed
  then show ?thesis using pairs(1) by (simp add: buildFacetSupports_def Let_def)
qed

section \<open>A set of Cards covers what it covers\<close>

lemma js_max_is_finite: "is_finite x \<Longrightarrow> is_finite y \<Longrightarrow> is_finite (js_max x y)"
  by (cases x; cases y) (auto simp: is_finite_def)

lemma facet_cover_id: "qf_facetId f = qf_facetId g \<Longrightarrow> facet_cover cards supports f = facet_cover cards supports g"
  by (simp add: facet_cover_def)

lemma facet_cover_sel [simp]: "fv_facetId (facet_cover cards supports f) = qf_facetId f"
  by (simp add: facet_cover_def Let_def split: prod.split)

lemma facet_cover_finite:
  assumes "supports_finite supports"
  shows "is_finite (fv_bestLexicalScore (facet_cover cards supports f))"
proof -
  have step: "is_finite (fst (cover_card supports k c acc))" if acc: "is_finite (fst acc)" for k c acc
  proof (cases "support_entry supports k c")
    case None
    then show ?thesis using acc by (simp add: cover_card_def split: prod.splits)
  next
    case (Some e)
    then obtain s where "map_of supports (ce_versionId c) = Some s" "e \<in> set s"
      by (auto simp: support_entry_def find_Some_iff split: option.splits)
    then have "is_finite (fs_lexicalScore e)" using assms unfolding supports_finite_def by blast
    then show ?thesis using acc Some js_max_is_finite by (auto simp: cover_card_def split: prod.splits)
  qed
  have "is_finite (fst acc) \<Longrightarrow> is_finite (fst (fold (cover_card supports k) cs acc))" for k cs acc
    using step by (induction cs arbitrary: acc) simp_all
  from this [of "(Finite 0, [], [])"] show ?thesis
    by (simp add: facet_cover_def Let_def split: prod.split) (metis fst_conv)
qed

lemma find_same:
  assumes "\<And>f g. f \<in> set fs \<Longrightarrow> g \<in> set fs \<Longrightarrow> k (h f) = k (h g) \<Longrightarrow> h f = h g" and "f \<in> set fs"
  shows "List.find (\<lambda>e. k e = k (h f)) (map h fs) = Some (h f)"
proof -
  have "List.find (\<lambda>e. k e = k (h f)) (map h fs) \<noteq> None" using assms(2) by (auto simp: find_None_iff)
  then obtain e where e: "List.find (\<lambda>e. k e = k (h f)) (map h fs) = Some e" by auto
  then have "e \<in> set (map h fs)" "k e = k (h f)" by (auto simp: find_Some_iff)
  then show ?thesis using e assms by auto
qed

lemma coverage_self:
  assumes "supports_finite supports"
  shows "preservesFacetCoverage cards supports facets (coverageForCards cards supports facets)"
proof -
  have "covers (map (facet_cover cards supports) facets) (facet_cover cards supports f)" if f: "f \<in> set facets" for f
  proof -
    have "List.find (\<lambda>e. fv_facetId e = fv_facetId (facet_cover cards supports f)) (map (facet_cover cards supports) facets) =
        Some (facet_cover cards supports f)"
      by (rule find_same [OF _ f]) (rule facet_cover_id, simp)
    moreover obtain q where "fv_bestLexicalScore (facet_cover cards supports f) = Finite q"
      using facet_cover_finite [OF assms] finiteE by blast
    ultimately show ?thesis by (simp add: covers_def isSuperset_def list_all_iff)
  qed
  then show ?thesis by (auto simp: preservesFacetCoverage_def coverageForCards_def list_all_iff)
qed

section \<open>What the input check gives\<close>

lemma uniqueReferences_distinct:
  "uniqueReferences label vid xs m = Inr m' \<Longrightarrow> distinct (map vid xs) \<and> (\<forall>x \<in> set xs. map_of m (vid x) = None)"
proof (induction label vid xs m rule: uniqueReferences.induct)
  case (2 label vid x xs m)
  then have h: "map_of m (vid x) = None" "distinct (map vid xs)"
    "\<forall>y \<in> set xs. map_of (AList.update (vid x) x m) (vid y) = None"
    by (auto split: if_splits)
  have "\<forall>y \<in> set xs. vid y \<noteq> vid x \<and> map_of m (vid y) = None"
    using h(3) by (auto simp: update_conv' split: if_splits)
  then show ?case using h by (auto simp: image_iff)
qed simp

lemma eligible_unique_distinct:
  "eligible_unique seen cs = Inr () \<Longrightarrow> distinct (map ce_versionId cs) \<and> ce_versionId ` set cs \<inter> set seen = {}"
  by (induction seen cs rule: eligible_unique.induct) (auto split: if_splits)

lemma ranked_cards_keys:
  "ranked_cards ranked cs ss m = Inr m' \<Longrightarrow> map_of m' k = Some c \<Longrightarrow>
     map_of m k = Some c \<or> (c \<in> set cs \<and> ce_versionId c = k)"
  by (induction ranked cs ss m rule: ranked_cards.induct) (auto simp: update_conv' split: if_splits)

lemma assertPlannerInput_facts:
  assumes "assertPlannerInput input = Inr cards"
  shows "distinct (map oc_versionId (rs_outcomes (mn_initialSelection input)))"
    and "distinct (map ce_versionId (mn_eligibleCards input))"
    and "map_of cards k = Some c \<Longrightarrow> c \<in> set (mn_eligibleCards input) \<and> ce_versionId c = k"
proof -
  obtain ranked outcomes provenance where h:
    "uniqueReferences ''selection outcome'' oc_versionId (rs_outcomes (mn_initialSelection input)) [] = Inr outcomes"
    "eligible_unique [] (mn_eligibleCards input) = Inr ()"
    "ranked_cards ranked (mn_eligibleCards input) (mn_lexicalScores input) [] = Inr cards"
    using assms by (auto simp: assertPlannerInput_def res_bind_eq_Inr split: if_splits option.splits prod.splits)
  show "distinct (map oc_versionId (rs_outcomes (mn_initialSelection input)))" using uniqueReferences_distinct [OF h(1)] by blast
  show "distinct (map ce_versionId (mn_eligibleCards input))" using eligible_unique_distinct [OF h(2)] by blast
  show "map_of cards k = Some c \<Longrightarrow> c \<in> set (mn_eligibleCards input) \<and> ce_versionId c = k"
    using ranked_cards_keys [OF h(3), of k c] by simp
qed

lemma initial_strong_facts:
  assumes "assertPlannerInput input = Inr cards"
  shows "distinct (map ce_versionId (initial_strong (mn_initialSelection input) cards))"
    and "set (initial_strong (mn_initialSelection input) cards) \<subseteq> set (mn_eligibleCards input)"
proof -
  note f = assertPlannerInput_facts [OF assms]
  have all: "distinct (map oc_versionId xs) \<Longrightarrow>
      distinct (map ce_versionId (List.map_filter (\<lambda>x. map_of cards (oc_versionId x)) xs)) \<and>
      ce_versionId ` set (List.map_filter (\<lambda>x. map_of cards (oc_versionId x)) xs) \<subseteq> oc_versionId ` set xs" for xs
  proof (induction xs)
    case (Cons x xs)
    show ?case
    proof (cases "map_of cards (oc_versionId x)")
      case (Some c)
      then have "ce_versionId c = oc_versionId x" using f(3) by blast
      then show ?thesis using Cons Some by (auto simp: map_filter_simps)
    qed (use Cons in \<open>auto simp: map_filter_simps\<close>)
  qed (simp add: map_filter_simps)
  show "distinct (map ce_versionId (initial_strong (mn_initialSelection input) cards))"
    unfolding initial_strong_def using all [OF distinct_map_filter [OF f(1)]] by blast
  show "set (initial_strong (mn_initialSelection input) cards) \<subseteq> set (mn_eligibleCards input)"
    using f(3) by (auto simp: initial_strong_def set_map_filter)
qed

section \<open>Plans of fewer Cards\<close>

lemma consistent_subset: "consistent limit cards \<Longrightarrow> set ds \<subseteq> set cards \<Longrightarrow> consistent limit ds"
  unfolding consistent_def guides_def by (rule inj_on_subset) auto

lemma cost_consistent:
  assumes "inj sha256"
  shows "(\<exists>m. measurePlanCost sha256 cards limit = Inr m) \<longleftrightarrow> consistent limit cards"
  using planSelectedScopes_spec [OF assms, of limit cards] by (auto simp: measurePlanCost_def res_bind_eq_Inr split: if_splits)

lemma reads_ok:
  assumes "inj sha256" and "consistent limit cards"
  shows "set cs \<subseteq> set cards \<Longrightarrow> \<exists>r. reads_by_version sha256 limit cs = Inr r"
proof (induction cs)
  case (Cons c cs)
  have "consistent limit [c]" using consistent_subset [OF assms(2), of "[c]"] Cons.prems by simp
  then obtain plan where "planSelectedScopes sha256 [c] limit = Inr plan"
    using planSelectedScopes_spec [OF assms(1), of limit "[c]"] by auto
  then show ?case using Cons by (auto simp: card_reads_def)
qed simp

lemma reasons_ok:
  assumes "inj sha256" and "consistent limit strong"
  shows "\<exists>r. protectedCandidateReasons sha256 strong lexical selection mode facets supports limit = Inr r"
  using reads_ok [OF assms subset_refl]
  by (auto simp: protectedCandidateReasons_def protectUnknownComplements_def Let_def)

lemma decisions_ok:
  assumes inj: "inj sha256" and c: "consistent (pn_chunkLimitPerScope pn) selected"
  shows "\<exists>ds. decisionsFor sha256 pn strong selected = Inr ds \<and> map pd_versionId ds = map ce_versionId strong \<and>
    list_all2 (\<lambda>c d. pd_decision d = NotPlanned \<longleftrightarrow> ce_versionId c \<notin> ce_versionId ` set selected) strong ds"
proof -
  obtain cost where cost: "measurePlanCost sha256 selected (pn_chunkLimitPerScope pn) = Inr cost"
    using cost_consistent [OF inj] c by blast
  have one: "\<exists>d. decision_for sha256 pn selected cost x = Inr d \<and> pd_versionId d = ce_versionId x \<and>
      (pd_decision d = NotPlanned \<longleftrightarrow> ce_versionId x \<notin> ce_versionId ` set selected)" for x
  proof -
    let ?rest = "filter (\<lambda>d. ce_versionId d \<noteq> ce_versionId x) selected"
    have "consistent (pn_chunkLimitPerScope pn) ?rest" by (rule consistent_subset [OF c]) auto
    then obtain m where "measurePlanCost sha256 ?rest (pn_chunkLimitPerScope pn) = Inr m" using cost_consistent [OF inj] by blast
    then have "\<exists>r. selectedReason sha256 pn selected cost x = Inr r" by (simp add: selectedReason_def Let_def)
    then show ?thesis
      by (cases "map_of (pn_protectedReasons pn) (ce_versionId x)") (auto simp: decision_for_def Let_def)
  qed
  have "\<exists>ds. decisions_for (decision_for sha256 pn selected cost) xs = Inr ds \<and> map pd_versionId ds = map ce_versionId xs \<and>
      list_all2 (\<lambda>c d. pd_decision d = NotPlanned \<longleftrightarrow> ce_versionId c \<notin> ce_versionId ` set selected) xs ds" for xs
  proof (induction xs)
    case (Cons x xs)
    then show ?case using one [of x] by fastforce
  qed simp
  then show ?thesis by (simp add: decisionsFor_def cost)
qed

section \<open>The planner\<close>

text \<open>The strong Cards and the context the planner reduces them in.\<close>

definition planning_context ::
    "(string \<Rightarrow> string) \<Rightarrow> lexicon \<Rightarrow> facet_words \<Rightarrow> minimum_set_input \<Rightarrow> selection_error + approved_card list \<times> planner" where
  "planning_context sha256 lx fw input =
     res_bind (assertPlannerInput input) (\<lambda>cards.
       let strong = initial_strong (mn_initialSelection input) cards; facets = extractQueryFacets sha256 lx fw (mn_query input) in
       res_bind (buildFacetSupports lx strong (mn_eligibleCards input) (fr_facets facets)) (\<lambda>supports.
       res_bind (protectedCandidateReasons sha256 strong (scores_by_version (mn_lexicalScores input))
                   (mn_initialSelection input) (mn_mode input) facets supports (mn_chunkLimitPerScope input)) (\<lambda>reasons.
         Inr (strong, \<lparr>pn_supports = supports, pn_facets = fr_facets facets,
           pn_baselineCoverage = coverageForCards strong supports (fr_facets facets), pn_protectedReasons = reasons,
           pn_scoreByVersionId = scores_by_version (mn_rankedScores input),
           pn_chunkLimitPerScope = mn_chunkLimitPerScope input\<rparr>))))"

lemma planner_steps:
  "planMinimumSufficientCardSet sha256 lx fw input =
     res_bind (planning_context sha256 lx fw input) (\<lambda>(strong, pn).
       let facets = extractQueryFacets sha256 lx fw (mn_query input) in
       res_bind (measurePlanCost sha256 strong (pn_chunkLimitPerScope pn)) (\<lambda>costBefore.
       res_bind (if fr_ambiguous facets then Inr (strong, costBefore, 0)
                 else reduce_set sha256 pn strong costBefore 0) (\<lambda>(selected, currentCost, removalCount).
       res_bind (decisionsFor sha256 pn strong selected) (\<lambda>decisions.
         Inr \<lparr>mr_selectedCards = selected,
              mr_audit = \<lparr>ma_policyVersion = MINIMUM_SUFFICIENT_SET_POLICY_VERSION,
                ma_queryFacetPolicyVersion = fr_policyVersion facets, ma_ambiguous = fr_ambiguous facets,
                ma_facets = fr_facets facets, ma_decisions = decisions, ma_baselineCoverage = pn_baselineCoverage pn,
                ma_selectedCoverage = coverageForCards selected (pn_supports pn) (fr_facets facets),
                ma_costBefore = costBefore, ma_costAfter = currentCost, ma_removalCount = removalCount\<rparr>\<rparr>))))"
  unfolding planMinimumSufficientCardSet_def planning_context_def
  by (cases "assertPlannerInput input"; simp add: Let_def res_bind_def split: sum.split)

lemma context_facts:
  assumes inj: "inj sha256" and "planning_context sha256 lx fw input = Inr (strong, pn)"
  shows "distinct (map ce_versionId strong)" "pn_chunkLimitPerScope pn = mn_chunkLimitPerScope input"
    "preservesFacetCoverage strong (pn_supports pn) (pn_facets pn) (pn_baselineCoverage pn)"
    "\<exists>cards. assertPlannerInput input = Inr cards \<and> strong = initial_strong (mn_initialSelection input) cards"
proof -
  let ?facets = "extractQueryFacets sha256 lx fw (mn_query input)"
  obtain cards supports where c: "assertPlannerInput input = Inr cards" "strong = initial_strong (mn_initialSelection input) cards"
    "buildFacetSupports lx strong (mn_eligibleCards input) (fr_facets ?facets) = Inr supports"
    "pn_supports pn = supports" "pn_facets pn = fr_facets ?facets"
    "pn_baselineCoverage pn = coverageForCards strong supports (fr_facets ?facets)"
    "pn_chunkLimitPerScope pn = mn_chunkLimitPerScope input"
    using assms(2) by (auto simp: planning_context_def Let_def res_bind_eq_Inr)
  show d: "distinct (map ce_versionId strong)" unfolding c(2) by (rule initial_strong_facts(1) [OF c(1)])
  show "pn_chunkLimitPerScope pn = mn_chunkLimitPerScope input" by (rule c(7))
  have "supports_finite supports"
    using buildFacetSupports_ok [OF assertPlannerInput_facts(2) [OF c(1)] d, of lx "fr_facets ?facets"]
      initial_strong_facts(2) [OF c(1)] c(2,3) by auto
  then show "preservesFacetCoverage strong (pn_supports pn) (pn_facets pn) (pn_baselineCoverage pn)"
    unfolding c(4-6) by (rule coverage_self)
  show "\<exists>cards. assertPlannerInput input = Inr cards \<and> strong = initial_strong (mn_initialSelection input) cards"
    using c(1,2) by blast
qed

lemma context_ok:
  assumes inj: "inj sha256" and c: "assertPlannerInput input = Inr cards"
    and k: "consistent (mn_chunkLimitPerScope input) (initial_strong (mn_initialSelection input) cards)"
  shows "\<exists>pn. planning_context sha256 lx fw input = Inr (initial_strong (mn_initialSelection input) cards, pn)"
proof -
  let ?strong = "initial_strong (mn_initialSelection input) cards"
  obtain supports where "buildFacetSupports lx ?strong (mn_eligibleCards input)
      (fr_facets (extractQueryFacets sha256 lx fw (mn_query input))) = Inr supports"
    using buildFacetSupports_ok [OF assertPlannerInput_facts(2) [OF c] initial_strong_facts [OF c]] by blast
  moreover obtain r where "protectedCandidateReasons sha256 ?strong (scores_by_version (mn_lexicalScores input))
      (mn_initialSelection input) (mn_mode input) (extractQueryFacets sha256 lx fw (mn_query input)) supports
      (mn_chunkLimitPerScope input) = Inr r"
    using reasons_ok [OF inj k] by blast
  ultimately show ?thesis by (simp add: planning_context_def c Let_def)
qed

end
