(* ===== verification/Planner_Properties.thy ===== *)
theory Planner_Properties
  imports Minimum_Set_Properties
begin

text \<open>
  What the set planner promises of a whole run.
\<close>

lemma planner_result:
  assumes inj: "inj sha256" and run: "planMinimumSufficientCardSet sha256 lx fw input = Inr res"
  shows "\<exists>strong pn. planning_context sha256 lx fw input = Inr (strong, pn) \<and>
    reduced sha256 pn strong (ma_costBefore (mr_audit res)) (mr_selectedCards res) (ma_costAfter (mr_audit res)) \<and>
    measurePlanCost sha256 strong (mn_chunkLimitPerScope input) = Inr (ma_costBefore (mr_audit res)) \<and>
    ma_removalCount (mr_audit res) = length strong - length (mr_selectedCards res) \<and>
    (if fr_ambiguous (extractQueryFacets sha256 lx fw (mn_query input)) then mr_selectedCards res = strong
     else minimal sha256 pn (mr_selectedCards res) (ma_costAfter (mr_audit res))) \<and>
    list_all2 (\<lambda>c d. pd_versionId d = ce_versionId c \<and>
      (pd_decision d = NotPlanned \<longleftrightarrow> ce_versionId c \<notin> ce_versionId ` set (mr_selectedCards res))) strong (ma_decisions (mr_audit res))"
proof -
  let ?facets = "extractQueryFacets sha256 lx fw (mn_query input)"
  obtain strong pn where ctx: "planning_context sha256 lx fw input = Inr (strong, pn)"
    using run unfolding planner_steps by (auto simp: res_bind_eq_Inr)
  note f = context_facts [OF inj ctx]
  obtain before selected after n ds where r: "measurePlanCost sha256 strong (pn_chunkLimitPerScope pn) = Inr before"
    "(if fr_ambiguous ?facets then Inr (strong, before, 0) else reduce_set sha256 pn strong before 0) = Inr (selected, after, n)"
    "decisionsFor sha256 pn strong selected = Inr ds"
    "mr_selectedCards res = selected" "ma_costBefore (mr_audit res) = before" "ma_costAfter (mr_audit res) = after"
    "ma_removalCount (mr_audit res) = n" "ma_decisions (mr_audit res) = ds"
    using run unfolding planner_steps ctx by (auto simp: res_bind_eq_Inr Let_def)
  have red: "reduced sha256 pn strong before selected after \<and> n = length strong - length selected \<and>
      (if fr_ambiguous ?facets then selected = strong else minimal sha256 pn selected after)"
  proof (cases "fr_ambiguous ?facets")
    case True
    then have s: "selected = strong" "after = before" "n = 0" using r(2) by simp_all
    have "reduced sha256 pn strong before strong before"
      using r(1) f(3) by (auto simp: reduced_def intro: exI [of _ "\<lambda>_. True"])
    then show ?thesis using True s by simp
  next
    case False
    then have "reduce_set sha256 pn strong before 0 = Inr (selected, after, n)" using r(2) by simp
    then show ?thesis using reduce_set_spec [OF inj f(1) r(1) f(3), of 0] False by auto
  qed
  have "measurePlanCost sha256 selected (pn_chunkLimitPerScope pn) = Inr after" using red unfolding reduced_def by blast
  then have "consistent (pn_chunkLimitPerScope pn) selected" using cost_consistent [OF inj] by blast
  from decisions_ok [OF inj this, of strong] r(3)
  have d: "map pd_versionId ds = map ce_versionId strong"
    "list_all2 (\<lambda>c d. pd_decision d = NotPlanned \<longleftrightarrow> ce_versionId c \<notin> ce_versionId ` set selected) strong ds" by auto
  have "list_all2 (\<lambda>c d. pd_versionId d = ce_versionId c \<and>
      (pd_decision d = NotPlanned \<longleftrightarrow> ce_versionId c \<notin> ce_versionId ` set selected)) strong ds"
    unfolding list_all2_conv_all_nth
  proof (intro conjI allI impI)
    show len: "length strong = length ds" using d(2) by (rule list_all2_lengthD)
    fix i assume i: "i < length strong"
    show "pd_versionId (ds ! i) = ce_versionId (strong ! i)" using d(1) i len by (metis nth_map)
    show "pd_decision (ds ! i) = NotPlanned \<longleftrightarrow> ce_versionId (strong ! i) \<notin> ce_versionId ` set selected"
      using list_all2_nthD [OF d(2) i] .
  qed
  then show ?thesis using ctx red r f(2) by auto
qed

text \<open>A sample run: one admitted Card.\<close>

definition sample_score :: candidate_score where
  "sample_score = \<lparr>qs_cardId = ''a'', qs_versionId = ''a'', qs_score = Finite 1, qs_signals = []\<rparr>"

definition sample_selection :: selection_result where
  "sample_selection = \<lparr>rs_outcomes = [\<lparr>oc_verdict = Admit, oc_cardId = ''a'', oc_versionId = ''a'', oc_score = Finite 1, oc_findings = []\<rparr>],
     rs_provenance = \<lparr>rp_policyVersion = SELECTION_RANKING_POLICY_VERSION, rp_thresholds = DEFAULT_SELECTION_THRESHOLDS,
       rp_tieBreak = ''cardVersionId'', rp_consideredCount = 1,
       rp_ranked = [\<lparr>sn_cardId = ''a'', sn_versionId = ''a'', sn_score = Finite 1\<rparr>]\<rparr>\<rparr>"

definition sample_planner_input :: minimum_set_input where
  "sample_planner_input = \<lparr>mn_query = ''x'', mn_eligibleCards = [plain_card ''a'' ''x''], mn_lexicalScores = [sample_score],
     mn_rankedScores = [sample_score], mn_initialSelection = sample_selection, mn_mode = LexicalDegraded, mn_chunkLimitPerScope = 4\<rparr>"

lemma sample_input_ok: "assertPlannerInput sample_planner_input = Inr [(''a'', plain_card ''a'' ''x'')]"
  by (simp add: assertPlannerInput_def sample_planner_input_def sample_selection_def sample_score_def plain_card_def
      trim_def is_space_char_def set_add_def sameKeys_def ranked_consistent_def)

lemma sample_input_consistent:
  "consistent (mn_chunkLimitPerScope sample_planner_input)
     (initial_strong (mn_initialSelection sample_planner_input) [(''a'', plain_card ''a'' ''x'')])"
  by (simp add: consistent_def guides_def card_guides_def initial_strong_def sample_planner_input_def sample_selection_def
      map_filter_simps plain_card_def)

lemma planner_answers:
  assumes inj: "inj sha256"
  shows "(\<exists>res. planMinimumSufficientCardSet sha256 lx fw input = Inr res) \<longleftrightarrow>
    (\<exists>cards. assertPlannerInput input = Inr cards \<and>
       consistent (mn_chunkLimitPerScope input) (initial_strong (mn_initialSelection input) cards))"
proof
  assume "\<exists>res. planMinimumSufficientCardSet sha256 lx fw input = Inr res"
  then obtain res where "planMinimumSufficientCardSet sha256 lx fw input = Inr res" by blast
  from planner_result [OF inj this] obtain strong pn where p: "planning_context sha256 lx fw input = Inr (strong, pn)"
    "measurePlanCost sha256 strong (mn_chunkLimitPerScope input) = Inr (ma_costBefore (mr_audit res))"
    by (elim exE conjE) (rule that)
  then have "consistent (mn_chunkLimitPerScope input) strong" using cost_consistent [OF inj] by blast
  then show "\<exists>cards. assertPlannerInput input = Inr cards \<and>
      consistent (mn_chunkLimitPerScope input) (initial_strong (mn_initialSelection input) cards)"
    using context_facts(4) [OF inj p(1)] by blast
next
  assume "\<exists>cards. assertPlannerInput input = Inr cards \<and>
      consistent (mn_chunkLimitPerScope input) (initial_strong (mn_initialSelection input) cards)"
  then obtain cards where c: "assertPlannerInput input = Inr cards"
    and k: "consistent (mn_chunkLimitPerScope input) (initial_strong (mn_initialSelection input) cards)" by blast
  let ?strong = "initial_strong (mn_initialSelection input) cards"
  obtain pn where ctx: "planning_context sha256 lx fw input = Inr (?strong, pn)" using context_ok [OF inj c k] by blast
  note f = context_facts [OF inj ctx]
  obtain before where before: "measurePlanCost sha256 ?strong (pn_chunkLimitPerScope pn) = Inr before"
    using cost_consistent [OF inj] k f(2) by auto
  obtain final finalCost where red: "reduce_set sha256 pn ?strong before 0 = Inr (final, finalCost, length ?strong - length final)"
    "reduced sha256 pn ?strong before final finalCost"
    using reduce_set_spec [OF inj f(1) before f(3), of 0] by auto
  have "consistent (pn_chunkLimitPerScope pn) final" "consistent (pn_chunkLimitPerScope pn) ?strong"
    using red(2) before cost_consistent [OF inj] unfolding reduced_def by blast+
  then obtain d1 d2 where "decisionsFor sha256 pn ?strong final = Inr d1" "decisionsFor sha256 pn ?strong ?strong = Inr d2"
    using decisions_ok [OF inj] by metis
  then show "\<exists>res. planMinimumSufficientCardSet sha256 lx fw input = Inr res"
    unfolding planner_steps ctx using before red(1) by (auto simp: Let_def)
qed

lemma sample_run: "\<exists>res. planMinimumSufficientCardSet (\<lambda>t. t) latin_lexicon \<lparr>fw_coordinators = [], fw_markers = \<lambda>_. []\<rparr> sample_planner_input = Inr res"
  unfolding planner_answers [OF inj_on_id2] using sample_input_ok sample_input_consistent by blast

text \<open>
  C34: with a hash that does not collide, the set planner answers exactly for inputs that pass its check and
  whose admitted Cards agree on their scopes; its removal loop always ends, and nothing after
  it can fail.
\<close>
theorem planner_answers_exactly:
  assumes "inj sha256"
  shows "(\<exists>res. planMinimumSufficientCardSet sha256 lx fw input = Inr res) \<longleftrightarrow>
    (\<exists>cards. assertPlannerInput input = Inr cards \<and>
       inj_on guide_scope_key (guides (mn_chunkLimitPerScope input) (initial_strong (mn_initialSelection input) cards)))"
  using planner_answers [OF assms] unfolding consistent_def .

theorem planner_answers_exactly_witness:
  "\<exists>res. planMinimumSufficientCardSet (\<lambda>t. t) latin_lexicon \<lparr>fw_coordinators = [], fw_markers = \<lambda>_. []\<rparr> sample_planner_input = Inr res"
  unfolding planner_answers_exactly [OF inj_on_id2]
  using sample_input_ok sample_input_consistent unfolding consistent_def by blast

lemma planner_spec:
  assumes "inj sha256" and "planMinimumSufficientCardSet sha256 lx fw input = Inr res"
  shows "\<exists>strong pn. planning_context sha256 lx fw input = Inr (strong, pn) \<and>
    (\<exists>P. mr_selectedCards res = filter P strong) \<and> (strong = [] \<or> mr_selectedCards res \<noteq> []) \<and>
    {c \<in> set strong. map_of (pn_protectedReasons pn) (ce_versionId c) \<noteq> None} \<subseteq> set (mr_selectedCards res) \<and>
    preservesFacetCoverage (mr_selectedCards res) (pn_supports pn) (pn_facets pn) (coverageForCards strong (pn_supports pn) (pn_facets pn)) \<and>
    measurePlanCost sha256 strong (mn_chunkLimitPerScope input) = Inr (ma_costBefore (mr_audit res)) \<and>
    measurePlanCost sha256 (mr_selectedCards res) (mn_chunkLimitPerScope input) = Inr (ma_costAfter (mr_audit res)) \<and>
    ma_removalCount (mr_audit res) = length strong - length (mr_selectedCards res) \<and>
    (mr_selectedCards res = strong \<or> compareExecutionCost (ma_costAfter (mr_audit res)) (ma_costBefore (mr_audit res)) < 0) \<and>
    list_all2 (\<lambda>c d. pd_versionId d = ce_versionId c \<and>
      (pd_decision d = NotPlanned \<longleftrightarrow> ce_versionId c \<notin> ce_versionId ` set (mr_selectedCards res))) strong (ma_decisions (mr_audit res)) \<and>
    (fr_ambiguous (extractQueryFacets sha256 lx fw (mn_query input)) \<longrightarrow> mr_selectedCards res = strong)"
proof -
  obtain strong pn where r: "planning_context sha256 lx fw input = Inr (strong, pn)"
    "reduced sha256 pn strong (ma_costBefore (mr_audit res)) (mr_selectedCards res) (ma_costAfter (mr_audit res))"
    "measurePlanCost sha256 strong (mn_chunkLimitPerScope input) = Inr (ma_costBefore (mr_audit res))"
    "ma_removalCount (mr_audit res) = length strong - length (mr_selectedCards res)"
    "fr_ambiguous (extractQueryFacets sha256 lx fw (mn_query input)) \<longrightarrow> mr_selectedCards res = strong"
    "list_all2 (\<lambda>c d. pd_versionId d = ce_versionId c \<and>
      (pd_decision d = NotPlanned \<longleftrightarrow> ce_versionId c \<notin> ce_versionId ` set (mr_selectedCards res))) strong (ma_decisions (mr_audit res))"
    using planner_result [OF assms] by (auto split: if_splits)
  have "pn_baselineCoverage pn = coverageForCards strong (pn_supports pn) (pn_facets pn)"
    using r(1) by (auto simp: planning_context_def Let_def res_bind_eq_Inr)
  moreover have "pn_chunkLimitPerScope pn = mn_chunkLimitPerScope input" by (rule context_facts(2) [OF assms(1) r(1)])
  ultimately have q: "preservesFacetCoverage (mr_selectedCards res) (pn_supports pn) (pn_facets pn) (coverageForCards strong (pn_supports pn) (pn_facets pn))"
    "measurePlanCost sha256 (mr_selectedCards res) (mn_chunkLimitPerScope input) = Inr (ma_costAfter (mr_audit res))"
    "\<exists>P. mr_selectedCards res = filter P strong" "strong = [] \<or> mr_selectedCards res \<noteq> []"
    "{c \<in> set strong. map_of (pn_protectedReasons pn) (ce_versionId c) \<noteq> None} \<subseteq> set (mr_selectedCards res)"
    "mr_selectedCards res = strong \<or> compareExecutionCost (ma_costAfter (mr_audit res)) (ma_costBefore (mr_audit res)) < 0"
    using r(2) unfolding reduced_def by auto
  show ?thesis
    by (rule exI [of _ strong], rule exI [of _ pn], intro conjI) (rule r q)+
qed

text \<open>
  C35: the answer of the set planner keeps what matters: the selected Cards are some of the
  admitted ones in their order, at least one if there was one, every protected Card among them; they
  still cover every facet of the query as well as all admitted Cards did; the costs in the
  audit are the costs of the plans made from scratch, the removals are counted, and the
  execution cost only changed for the better. Each admitted Card gets one decision, which
  says whether it was taken back. An ambiguous query takes no Card back.
\<close>
theorem minimum_set_is_sufficient:
  assumes "inj sha256" and "planMinimumSufficientCardSet sha256 lx fw input = Inr res"
  shows "\<exists>strong pn. planning_context sha256 lx fw input = Inr (strong, pn) \<and>
    (\<exists>P. mr_selectedCards res = filter P strong) \<and> (strong = [] \<or> mr_selectedCards res \<noteq> []) \<and>
    {c \<in> set strong. map_of (pn_protectedReasons pn) (ce_versionId c) \<noteq> None} \<subseteq> set (mr_selectedCards res) \<and>
    preservesFacetCoverage (mr_selectedCards res) (pn_supports pn) (pn_facets pn) (coverageForCards strong (pn_supports pn) (pn_facets pn)) \<and>
    measurePlanCost sha256 strong (mn_chunkLimitPerScope input) = Inr (ma_costBefore (mr_audit res)) \<and>
    measurePlanCost sha256 (mr_selectedCards res) (mn_chunkLimitPerScope input) = Inr (ma_costAfter (mr_audit res)) \<and>
    ma_removalCount (mr_audit res) = length strong - length (mr_selectedCards res) \<and>
    (mr_selectedCards res = strong \<or> compareExecutionCost (ma_costAfter (mr_audit res)) (ma_costBefore (mr_audit res)) < 0) \<and>
    list_all2 (\<lambda>c d. pd_versionId d = ce_versionId c \<and>
      (pd_decision d = NotPlanned \<longleftrightarrow> ce_versionId c \<notin> ce_versionId ` set (mr_selectedCards res))) strong (ma_decisions (mr_audit res)) \<and>
    (fr_ambiguous (extractQueryFacets sha256 lx fw (mn_query input)) \<longrightarrow> mr_selectedCards res = strong)"
  by (rule planner_spec [OF assms])

theorem minimum_set_is_sufficient_witness:
  "\<exists>(res :: minimum_set_result) strong pn. planning_context (\<lambda>t. t) latin_lexicon \<lparr>fw_coordinators = [], fw_markers = \<lambda>_. []\<rparr> sample_planner_input = Inr (strong, pn) \<and>
     ma_removalCount (mr_audit res) = length strong - length (mr_selectedCards res)"
proof -
  obtain res where "planMinimumSufficientCardSet (\<lambda>t. t) latin_lexicon \<lparr>fw_coordinators = [], fw_markers = \<lambda>_. []\<rparr> sample_planner_input = Inr res"
    using sample_run by blast
  from minimum_set_is_sufficient [OF inj_on_id2 this] obtain strong pn where
    "planning_context (\<lambda>t. t) latin_lexicon \<lparr>fw_coordinators = [], fw_markers = \<lambda>_. []\<rparr> sample_planner_input = Inr (strong, pn)"
    "ma_removalCount (mr_audit res) = length strong - length (mr_selectedCards res)"
    by (elim exE conjE) (rule that)
  then show ?thesis by (intro exI [of _ res] exI [of _ strong] exI [of _ pn] conjI)
qed

text \<open>
  C36: for a query that is not ambiguous the answer is locally minimal: whenever more than one
  Card is left, taking back any further Card that is not protected loses coverage or gives a plan
  whose execution is not cheaper.
\<close>
theorem minimum_set_is_locally_minimal:
  assumes "inj sha256" and "planMinimumSufficientCardSet sha256 lx fw input = Inr res"
    and "\<not> fr_ambiguous (extractQueryFacets sha256 lx fw (mn_query input))" and "1 < length (mr_selectedCards res)"
  shows "\<exists>strong pn. planning_context sha256 lx fw input = Inr (strong, pn) \<and>
    (\<forall>c \<in> set (mr_selectedCards res).
       let others = filter (\<lambda>d. ce_versionId d \<noteq> ce_versionId c) (mr_selectedCards res) in
       map_of (pn_protectedReasons pn) (ce_versionId c) \<noteq> None \<or>
       \<not> preservesFacetCoverage others (pn_supports pn) (pn_facets pn) (pn_baselineCoverage pn) \<or>
       (\<exists>cost. measurePlanCost sha256 others (mn_chunkLimitPerScope input) = Inr cost \<and>
          0 \<le> compareExecutionCost cost (ma_costAfter (mr_audit res))))"
proof -
  obtain strong pn where r: "planning_context sha256 lx fw input = Inr (strong, pn)"
    "minimal sha256 pn (mr_selectedCards res) (ma_costAfter (mr_audit res))"
    using planner_result [OF assms(1,2)] assms(3) by (auto split: if_splits)
  moreover have "pn_chunkLimitPerScope pn = mn_chunkLimitPerScope input" by (rule context_facts(2) [OF assms(1) r(1)])
  ultimately show ?thesis using assms(4) unfolding minimal_def Let_def by auto
qed

text \<open>A second sample: two admitted Cards without scopes, whose plans cost nothing to execute.\<close>

definition second_score :: candidate_score where
  "second_score = \<lparr>qs_cardId = ''b'', qs_versionId = ''b'', qs_score = Finite 1, qs_signals = []\<rparr>"

definition second_selection :: selection_result where
  "second_selection = \<lparr>rs_outcomes =
       [\<lparr>oc_verdict = Admit, oc_cardId = ''a'', oc_versionId = ''a'', oc_score = Finite 1, oc_findings = []\<rparr>,
        \<lparr>oc_verdict = Admit, oc_cardId = ''b'', oc_versionId = ''b'', oc_score = Finite 1, oc_findings = []\<rparr>],
     rs_provenance = \<lparr>rp_policyVersion = SELECTION_RANKING_POLICY_VERSION, rp_thresholds = DEFAULT_SELECTION_THRESHOLDS,
       rp_tieBreak = ''cardVersionId'', rp_consideredCount = 2,
       rp_ranked = [\<lparr>sn_cardId = ''a'', sn_versionId = ''a'', sn_score = Finite 1\<rparr>,
         \<lparr>sn_cardId = ''b'', sn_versionId = ''b'', sn_score = Finite 1\<rparr>]\<rparr>\<rparr>"

definition second_planner_input :: minimum_set_input where
  "second_planner_input = \<lparr>mn_query = ''x'', mn_eligibleCards = [plain_card ''a'' ''x'', plain_card ''b'' ''x''],
     mn_lexicalScores = [sample_score, second_score], mn_rankedScores = [sample_score, second_score],
     mn_initialSelection = second_selection, mn_mode = LexicalDegraded, mn_chunkLimitPerScope = 4\<rparr>"

abbreviation no_words :: facet_words where
  "no_words \<equiv> \<lparr>fw_coordinators = [], fw_markers = \<lambda>_. []\<rparr>"

lemma second_input_ok:
  "assertPlannerInput second_planner_input = Inr [(''a'', plain_card ''a'' ''x''), (''b'', plain_card ''b'' ''x'')]"
  by (simp add: assertPlannerInput_def second_planner_input_def second_selection_def sample_score_def second_score_def
      plain_card_def trim_def is_space_char_def set_add_def sameKeys_def ranked_consistent_def)

lemma second_strong:
  "initial_strong (mn_initialSelection second_planner_input) [(''a'', plain_card ''a'' ''x''), (''b'', plain_card ''b'' ''x'')] =
     [plain_card ''a'' ''x'', plain_card ''b'' ''x'']"
  by (simp add: initial_strong_def second_planner_input_def second_selection_def map_filter_simps)

lemma second_run: "\<exists>res. planMinimumSufficientCardSet (\<lambda>t. t) latin_lexicon no_words second_planner_input = Inr res"
proof -
  have "consistent (mn_chunkLimitPerScope second_planner_input)
      (initial_strong (mn_initialSelection second_planner_input) [(''a'', plain_card ''a'' ''x''), (''b'', plain_card ''b'' ''x'')])"
    unfolding second_strong by (simp add: consistent_def guides_def card_guides_def plain_card_def)
  then show ?thesis unfolding planner_answers [OF inj_on_id2] using second_input_ok by blast
qed

lemma scopeless_plan: "(\<And>c. c \<in> set cards \<Longrightarrow> ce_scopes c = []) \<Longrightarrow>
    planSelectedScopes sha256 cards limit = Inr \<lparr>rd_items = [], rd_managedTargets = []\<rparr>"
proof -
  assume none: "\<And>c. c \<in> set cards \<Longrightarrow> ce_scopes c = []"
  have "res_fold (plan_card sha256 limit) cards st = Inr st" for st
    using none by (induction cards) (auto simp: plan_card_def)
  then show ?thesis by (simp add: planSelectedScopes_def empty_plan_state_def)
qed

lemma scopeless_cost:
  assumes "\<And>c. c \<in> set cards \<Longrightarrow> ce_scopes c = []" and "measurePlanCost sha256 cards limit = Inr m"
  shows "exec_key m = (0, 0, 0, 0)"
  using assms(2) scopeless_plan [OF assms(1)]
  by (auto simp: measurePlanCost_def measurePreparedPlanCost_def exec_key_def)

lemma second_keeps_both:
  assumes run: "planMinimumSufficientCardSet (\<lambda>t. t) latin_lexicon no_words second_planner_input = Inr res"
  shows "length (mr_selectedCards res) = 2"
proof -
  obtain strong pn where r: "planning_context (\<lambda>t. t) latin_lexicon no_words second_planner_input = Inr (strong, pn)"
    "reduced (\<lambda>t. t) pn strong (ma_costBefore (mr_audit res)) (mr_selectedCards res) (ma_costAfter (mr_audit res))"
    "measurePlanCost (\<lambda>t. t) strong (mn_chunkLimitPerScope second_planner_input) = Inr (ma_costBefore (mr_audit res))"
    using planner_result [OF inj_on_id2 run] by (elim exE conjE) (rule that)
  have strong: "strong = [plain_card ''a'' ''x'', plain_card ''b'' ''x'']"
    using context_facts(4) [OF inj_on_id2 r(1)] second_input_ok second_strong by auto
  have none: "ce_scopes c = []" if "c \<in> set strong" for c using that by (auto simp: strong plain_card_def)
  obtain P where "mr_selectedCards res = filter P strong" using r(2) unfolding reduced_def by blast
  then have "ce_scopes c = []" if "c \<in> set (mr_selectedCards res)" for c using that none by simp
  moreover have "measurePlanCost (\<lambda>t. t) (mr_selectedCards res) (pn_chunkLimitPerScope pn) = Inr (ma_costAfter (mr_audit res))"
    using r(2) unfolding reduced_def by blast
  ultimately have "exec_key (ma_costAfter (mr_audit res)) = (0, 0, 0, 0)" by (rule scopeless_cost)
  moreover have "exec_key (ma_costBefore (mr_audit res)) = (0, 0, 0, 0)" by (rule scopeless_cost [OF none r(3)])
  ultimately have "mr_selectedCards res = strong" using r(2) unfolding reduced_def compareExecutionCost_less by auto
  then show ?thesis by (simp add: strong)
qed

lemma second_not_ambiguous: "\<not> fr_ambiguous (extractQueryFacets (\<lambda>t. t) latin_lexicon no_words (mn_query second_planner_input))"
proof -
  have "splitOutsideProtectedText latin_lexicon ''x'' = ([''x''], False)" by code_simp
  moreover have "splitExplicitCoordinators no_words ''x'' = [''x'']" by code_simp
  moreover have "normalizeLexicalText latin_lexicon ''x'' = ''x''" "tokenizeLexicalText latin_lexicon ''x'' = [''x'']" by code_simp+
  ultimately show ?thesis
    by (simp add: extractQueryFacets_def second_planner_input_def resultFor_def QUERY_FACET_LIMIT_def Let_def)
qed

theorem minimum_set_is_locally_minimal_witness:
  "\<exists>(res :: minimum_set_result) strong pn. planning_context (\<lambda>t. t) latin_lexicon no_words second_planner_input = Inr (strong, pn) \<and>
     1 < length (mr_selectedCards res)"
proof -
  obtain res where res: "planMinimumSufficientCardSet (\<lambda>t. t) latin_lexicon no_words second_planner_input = Inr res"
    using second_run by blast
  have two: "1 < length (mr_selectedCards res)" using second_keeps_both [OF res] by simp
  from minimum_set_is_locally_minimal [OF inj_on_id2 res second_not_ambiguous two] obtain strong pn where
    "planning_context (\<lambda>t. t) latin_lexicon no_words second_planner_input = Inr (strong, pn)"
    by (elim exE conjE) (rule that)
  then show ?thesis using two by (intro exI [of _ res] exI [of _ strong] exI [of _ pn] conjI)
qed

end
