(* ===== verification/Candidate_Properties.thy ===== *)
theory Candidate_Properties
  imports Candidate_Store Candidate_Laws Planner_Properties
begin

text \<open>
  What the semantic path promises: the text of a Card is independent of how its meaning was written down, a search
  is exact, and the store answers every request with an index of exactly the snapshot that was asked for.
\<close>

section \<open>Snapshots\<close>

definition renders_numbers :: "(js_number \<Rightarrow> string) \<Rightarrow> bool" where
  "renders_numbers render \<longleftrightarrow> (\<forall>q. render (Finite q) \<noteq> [] \<and> list_all json_number_char (render (Finite q)))"

definition entry_json :: "card_selection_entry \<Rightarrow> json" where
  "entry_json e = JObj [(''cardVersionId'', Some (JStr (en_cardVersionId e))),
     (''selectionTextDigest'', Some (JStr (en_selectionTextDigest e)))]"

definition entry_pair :: "card_selection_entry \<Rightarrow> string \<times> string" where
  "entry_pair e = (en_cardVersionId e, en_selectionTextDigest e)"

lemma entry_json_content: "json_content (entry_json e) = json_content (entry_json f) \<Longrightarrow> entry_pair e = entry_pair f"
proof -
  assume "json_content (entry_json e) = json_content (entry_json f)"
  note m = object_members [OF this [unfolded entry_json_def]]
  show ?thesis using m [of "''cardVersionId''"] m [of "''selectionTextDigest''"] by (simp add: entry_pair_def)
qed

definition snapshot_json :: "(js_number \<Rightarrow> string) \<Rightarrow> card_selection_entry list \<Rightarrow> card_selection_profile \<Rightarrow> (string \<times> json option) list" where
  "snapshot_json render entries p = [(''profileId'', Some (JStr (cn_id p))), (''profileVersion'', Some (JStr (cn_version p))),
     (''dimensions'', Some (JNum (render (cn_dimensions p)))),
     (''cards'', Some (JArr (map entry_json (sort_key en_cardVersionId entries))))]"

lemma snapshot_ok:
  assumes "catalogSnapshotVersion sha256 render entries p = Inr v"
  shows "is_finite (cn_dimensions p)" and "v = canonicalDigest sha256 (JObj (snapshot_json render entries p))"
  using assms by (auto simp: catalogSnapshotVersion_def snapshot_json_def entry_json_def [abs_def] split: if_splits)

lemma same_snapshot:
  assumes inj: "inj sha256" and render: "renders_numbers render"
    and v: "catalogSnapshotVersion sha256 render es p = Inr v" and w: "catalogSnapshotVersion sha256 render fs q = Inr v"
  shows "entry_pair ` set es = entry_pair ` set fs" and "cn_id p = cn_id q" and "cn_version p = cn_version q"
proof -
  have num: "number_json (JObj (snapshot_json render xs r))" if "is_finite (cn_dimensions r)" for xs r
  proof -
    obtain d where "cn_dimensions r = Finite d" using \<open>is_finite (cn_dimensions r)\<close> finiteE by blast
    then show ?thesis using render by (simp add: snapshot_json_def renders_numbers_def entry_json_def list_all_iff)
  qed
  have "json_content (JObj (snapshot_json render es p)) = json_content (JObj (snapshot_json render fs q))"
    using digest_inj [OF inj num num, of p q es fs] snapshot_ok [OF v] snapshot_ok [OF w] by metis
  note m = object_members [OF this]
  have d: "distinct (map fst (present (snapshot_json render xs r)))" for xs r by (simp add: snapshot_json_def)
  show "cn_id p = cn_id q" "cn_version p = cn_version q"
    using m [OF d d, of "''profileId''"] m [OF d d, of "''profileVersion''"] by (simp_all add: snapshot_json_def)
  have "map (json_content \<circ> entry_json) (sort_key en_cardVersionId es) = map (json_content \<circ> entry_json) (sort_key en_cardVersionId fs)"
    using m [OF d d, of "''cards''"] by (simp add: snapshot_json_def)
  then have "list_all2 (\<lambda>e f. entry_pair e = entry_pair f) (sort_key en_cardVersionId es) (sort_key en_cardVersionId fs)"
    by (auto simp: list_all2_map1 list_all2_map2 list.rel_eq [symmetric] intro: entry_json_content elim!: list_all2_mono)
  then have "map entry_pair (sort_key en_cardVersionId es) = map entry_pair (sort_key en_cardVersionId fs)"
    by (induction rule: list_all2_induct) simp_all
  then have "entry_pair ` set (sort_key en_cardVersionId es) = entry_pair ` set (sort_key en_cardVersionId fs)"
    by (metis set_map)
  then show "entry_pair ` set es = entry_pair ` set fs" by simp
qed

section \<open>Builds\<close>

lemma build_records_ok:
  assumes "build_records r vectors es = Inr rs"
  shows "map (\<lambda>k. (kr_cardVersionId k, kr_selectionTextDigest k)) rs = map entry_pair es"
  using assms
proof (induction es arbitrary: rs)
  case Nil
  then show ?case by simp
next
  case (Cons e es)
  show ?case
  proof (cases "map_of vectors (en_cardVersionId e)")
    case None
    then show ?thesis using Cons.prems by simp
  next
    case (Some vector)
    then obtain rest where v: "build_records r vectors es = Inr rest"
      using Cons.prems by (cases "build_records r vectors es") simp_all
    obtain k where k: "rs = k # rest" "(kr_cardVersionId k, kr_selectionTextDigest k) = entry_pair e"
      using Cons.prems Some v by (simp add: entry_pair_def) (metis candidate_record.select_convs(2,4))
    then show ?thesis using Cons.IH [OF v] by simp
  qed
qed

lemma build_index_covers:
  assumes "build_index sha256 render msqrt provider r = Inr ix"
  shows "index_covers ix v d \<longleftrightarrow> (v, d) \<in> entry_pair ` set (ir_entries r)" and "index_sound msqrt ix"
    and "ci_profileId ix = cn_id (ir_profile r)" and "ci_profileVersion ix = cn_version (ir_profile r)"
proof -
  obtain vectors rs where rs: "build_records r vectors (ir_entries r) = Inr rs"
    "new_candidate_index sha256 render msqrt (ir_catalogSnapshotVersion r) (ir_profile r) rs = Inr ix"
    using assms unfolding build_index_def by (elim res_bindE) (simp only: lift_domain_Inr)
  have "(\<lambda>k. (kr_cardVersionId k, kr_selectionTextDigest k)) ` set rs = entry_pair ` set (ir_entries r)"
    using arg_cong [OF build_records_ok [OF rs(1)], of set] by simp
  moreover have "index_covers ix v d \<longleftrightarrow> (v, d) \<in> (\<lambda>k. (kr_cardVersionId k, kr_selectionTextDigest k)) ` set rs"
    unfolding covers_iff [OF rs(2)] by auto
  ultimately show "index_covers ix v d \<longleftrightarrow> (v, d) \<in> entry_pair ` set (ir_entries r)" by (simp only:)
  show "index_sound msqrt ix" by (rule new_index_sound(1) [OF rs(2)])
  show "ci_profileId ix = cn_id (ir_profile r)" "ci_profileVersion ix = cn_version (ir_profile r)"
    using rs(2) by (auto simp: new_candidate_index_def res_bind_eq_Inr)
qed

text \<open>A request names the snapshot of its own entries and profile.\<close>

definition honest_request :: "(string \<Rightarrow> string) \<Rightarrow> (js_number \<Rightarrow> string) \<Rightarrow> index_request \<Rightarrow> bool" where
  "honest_request sha256 render r \<longleftrightarrow>
     catalogSnapshotVersion sha256 render (ir_entries r) (ir_profile r) = Inr (ir_catalogSnapshotVersion r)"

lemma answered_index:
  assumes inj: "inj sha256" and render: "renders_numbers render"
    and reach: "(store_step sha256 render msqrt (honest_request sha256 render))\<^sup>*\<^sup>* new_index_store s"
    and ans: "(r, Inr ix) \<in> set (sr_answered s)"
  shows "(index_covers ix v d \<longleftrightarrow> (v, d) \<in> entry_pair ` set (ir_entries r)) \<and> index_sound msqrt ix \<and>
    ci_profileId ix = cn_id (ir_profile r) \<and> ci_profileVersion ix = cn_version (ir_profile r)"
proof -
  have "honest_request sha256 render r" "built_for sha256 render msqrt (honest_request sha256 render) (ir_catalogSnapshotVersion r) ix"
    using store_reachable [OF reach] ans by (auto simp: store_inv_def built_ok_def list_all_iff)
  then obtain q provider where q: "honest_request sha256 render q" "ir_catalogSnapshotVersion q = ir_catalogSnapshotVersion r"
    "build_index sha256 render msqrt provider q = Inr ix" "honest_request sha256 render r" unfolding built_for_def by blast
  note same = same_snapshot [OF inj render, of "ir_entries q" "ir_profile q" "ir_catalogSnapshotVersion r" "ir_entries r" "ir_profile r"]
  show ?thesis using build_index_covers [OF q(3)] same q(1,2,4) by (simp add: honest_request_def)
qed

section \<open>A sample\<close>

definition sample_selection_profile :: card_selection_profile where
  "sample_selection_profile = DETERMINISTIC_CARD_SELECTION_PROFILE\<lparr>cn_dimensions := whole 1\<rparr>"

definition sample_entry :: card_selection_entry where
  "sample_entry = \<lparr>en_cardId = ''c'', en_cardVersionId = ''v'', en_text = buildCardSelectionText (\<lambda>t. t) (plain_card ''c'' ''x''),
     en_payload = ''x'', en_selectionTextDigest = ''d'', en_units = 1\<rparr>"

definition sample_index_request :: index_request where
  "sample_index_request = \<lparr>ir_entries = [sample_entry],
     ir_catalogSnapshotVersion = canonicalDigest (\<lambda>t. t) (JObj (snapshot_json (\<lambda>_. ''1'') [sample_entry] sample_selection_profile)),
     ir_profile = sample_selection_profile\<rparr>"

definition sample_provider :: embed_port where
  "sample_provider p inputs = Inr (map (\<lambda>(k, t). (k, [Finite 1])) inputs)"

definition sample_record :: candidate_record where
  "sample_record = \<lparr>kr_cardId = ''c'', kr_cardVersionId = ''v'', kr_catalogSnapshotVersion = ir_catalogSnapshotVersion sample_index_request,
     kr_selectionTextDigest = ''d'', kr_embeddingProfileId = cn_id sample_selection_profile,
     kr_embeddingProfileVersion = cn_version sample_selection_profile, kr_embedding = [Finite 1]\<rparr>"

lemma sample_new_index: "\<exists>ix. new_candidate_index (\<lambda>t. t) (\<lambda>_. ''1'') (\<lambda>x. x) (ir_catalogSnapshotVersion sample_index_request)
    sample_selection_profile [sample_record] = Inr ix"
  by (simp add: new_candidate_index_def check_record_def sample_record_def sample_selection_profile_def length_number_def
      DETERMINISTIC_CARD_SELECTION_PROFILE_def)

lemma sample_build: "\<exists>ix. build_index (\<lambda>t. t) (\<lambda>_. ''1'') (\<lambda>x. x) sample_provider sample_index_request = Inr ix"
proof -
  have l: "assertEntriesWithinLimit (\<lambda>_. ''1'') (ir_profile sample_index_request) (ir_entries sample_index_request) = Inr ()"
    by (simp add: sample_index_request_def sample_entry_def sample_selection_profile_def DETERMINISTIC_CARD_SELECTION_PROFILE_def
        DEFAULT_CARD_ADMISSION_LIMITS_def whole_def)
  have e: "embedEntries sample_provider sample_index_request = Inr [(''v'', [Finite 1])]"
    by (simp add: embedEntries_def sample_provider_def sample_index_request_def sample_entry_def js_map_def)
  have r: "build_records sample_index_request [(''v'', [Finite 1])] (ir_entries sample_index_request) = Inr [sample_record]"
    by (simp add: sample_index_request_def sample_entry_def sample_record_def)
  have p: "ir_profile sample_index_request = sample_selection_profile" by (simp add: sample_index_request_def)
  show ?thesis unfolding build_index_def l e r lift_domain_simps res_bind_Inr
    using sample_new_index unfolding p by auto
qed

lemma sample_honest: "honest_request (\<lambda>t. t) (\<lambda>_. ''1'') sample_index_request"
  by (simp add: honest_request_def catalogSnapshotVersion_def sample_index_request_def snapshot_json_def entry_json_def
      sample_selection_profile_def whole_def)

section \<open>Properties\<close>

text \<open>
  C27: two Cards that say the same are embedded from the same text under the same digest and measure, so a stored vector
  stays valid: the order and the repetitions in which questions, aliases, keywords, columns, parameters and scopes
  were written down do not matter, and neither does the spelling of any of their fields, as far as NFKC and white space identify
  it. The scopes of the Card must have different references, and an HTTP scope must name no parameter of a location twice:
  the sorts would keep such duplicates in the order of writing.
\<close>
theorem selection_text_ignores_order:
  assumes "same_meaning nfkc c d" and "unambiguous nfkc c"
  shows "en_payload (buildCardSelectionEntry sha256 nfkc c) = en_payload (buildCardSelectionEntry sha256 nfkc d) \<and>
    en_selectionTextDigest (buildCardSelectionEntry sha256 nfkc c) = en_selectionTextDigest (buildCardSelectionEntry sha256 nfkc d) \<and>
    en_units (buildCardSelectionEntry sha256 nfkc c) = en_units (buildCardSelectionEntry sha256 nfkc d)"
  using same_meaning_text [OF assms] by (simp_all add: buildCardSelectionEntry_def Let_def)

definition sample_spelling :: "string list \<Rightarrow> string \<Rightarrow> approved_card" where
  "sample_spelling aliases connector = (plain_card ''c'' ''x'')\<lparr>ce_meaning := \<lparr>cm_description = ''x'', cm_representativeQuestions = [],
     cm_aliases = aliases, cm_keywords = []\<rparr>,
     ce_scopes := [SqlSourceScope \<lparr>scopeId = ''a'', scopeVersion = ''b''\<rparr> connector ''a'' ''b'' []]\<rparr>"

theorem selection_text_ignores_order_witness:
  "en_payload (buildCardSelectionEntry (\<lambda>t. t) (\<lambda>t. t) (sample_spelling [''a'', ''b''] ''b'')) =
   en_payload (buildCardSelectionEntry (\<lambda>t. t) (\<lambda>t. t) (sample_spelling [''b'', '' a'', ''b''] '' b''))"
proof (rule selection_text_ignores_order [THEN conjunct1])
  have n: "normalizeSelectionText (\<lambda>t. t) ''a'' = ''a''" "normalizeSelectionText (\<lambda>t. t) '' a'' = ''a''"
    "normalizeSelectionText (\<lambda>t. t) ''b'' = ''b''" "normalizeSelectionText (\<lambda>t. t) '' b'' = ''b''" by code_simp+
  then show "same_meaning (\<lambda>t. t) (sample_spelling [''a'', ''b''] ''b'') (sample_spelling [''b'', '' a'', ''b''] '' b'')"
    by (auto simp: same_meaning_def sample_spelling_def same_texts_def same_text_def same_ref_def
        intro!: exI [of _ "[SqlSourceScope \<lparr>scopeId = ''a'', scopeVersion = ''b''\<rparr> '' b'' ''a'' ''b'' []]"])
  show "unambiguous (\<lambda>t. t) (sample_spelling [''a'', ''b''] ''b'')"
    by (simp add: unambiguous_def sample_spelling_def)
qed

text \<open>
  C26: a search over a candidate index is exact: it returns the first entries of the ranking of all eligible records by
  similarity and version, whatever the query vector, and every similarity lies between -1 and 1.
\<close>
theorem semantic_search_is_exact:
  assumes "new_candidate_index sha256 render msqrt version p records = Inr ix" and "length_number query = cn_dimensions p"
  shows "topK msqrt render ix query limit eligible =
      Inr (take limit (sort_key similarity_key (map (similarity_of msqrt query) (filter (admitted_record eligible) records)))) \<and>
    (\<forall>r \<in> set records. \<exists>q. cosineSimilarity msqrt query (kr_embedding r) = Finite q \<and> -1 \<le> q \<and> q \<le> 1)"
proof -
  note ix = new_index_sound [OF assms(1)]
  have "\<forall>r \<in> set records. \<exists>q. cosineSimilarity msqrt query (kr_embedding r) = Finite q \<and> -1 \<le> q \<and> q \<le> 1"
    using ix(1,2) similarity_bounds unfolding index_sound_def cosineSimilarity_def by blast
  then show ?thesis using topK_prefix [OF ix(1)] ix(2,4) assms(2) by simp
qed

theorem semantic_search_is_exact_witness:
  "\<exists>ix. topK (\<lambda>x. x) (\<lambda>_. ''1'') ix [Finite 1] 1 (Some [''v'']) =
     Inr (take 1 (sort_key similarity_key (map (similarity_of (\<lambda>x. x) [Finite 1]) (filter (admitted_record (Some [''v''])) [sample_record]))))"
proof -
  obtain ix where ix: "new_candidate_index (\<lambda>t. t) (\<lambda>_. ''1'') (\<lambda>x. x) (ir_catalogSnapshotVersion sample_index_request)
    sample_selection_profile [sample_record] = Inr ix" using sample_new_index by blast
  have "length_number [Finite 1] = cn_dimensions sample_selection_profile" by (simp add: length_number_def sample_selection_profile_def)
  from semantic_search_is_exact [OF ix this] show ?thesis by blast
qed

text \<open>
  C25: whatever requests, builds and failures interleave, an index the store hands out for a request holds a current
  vector for exactly the Card versions of the requested snapshot, under the requested profile.
\<close>
theorem acquired_index_is_the_snapshot:
  assumes "inj sha256" and "renders_numbers render"
    and "(store_step sha256 render msqrt (honest_request sha256 render))\<^sup>*\<^sup>* new_index_store s"
    and "(r, Inr ix) \<in> set (sr_answered s)"
  shows "{(v, d). index_covers ix v d} = {(en_cardVersionId e, en_selectionTextDigest e) |e. e \<in> set (ir_entries r)} \<and>
    ci_profileId ix = cn_id (ir_profile r) \<and> ci_profileVersion ix = cn_version (ir_profile r)"
  using answered_index [OF assms] by (auto simp: entry_pair_def)

theorem acquired_index_is_the_snapshot_witness:
  "\<exists>ix. {(v, d). index_covers ix v d} = {(en_cardVersionId e, en_selectionTextDigest e) |e. e \<in> set (ir_entries sample_index_request)}"
proof -
  obtain ix where ix: "build_index (\<lambda>t. t) (\<lambda>_. ''1'') (\<lambda>x. x) sample_provider sample_index_request = Inr ix" using sample_build by blast
  let ?step = "store_step (\<lambda>t. t) (\<lambda>_. ''1'') (\<lambda>x. x) (honest_request (\<lambda>t. t) (\<lambda>_. ''1''))"
  let ?a = "acquire sample_index_request new_index_store"
  let ?b = "build_done (\<lambda>t. t) (\<lambda>_. ''1'') (\<lambda>x. x) sample_provider 0 ?a"
  have "?step\<^sup>*\<^sup>* new_index_store (build_settled 0 ?b)"
    using step_acquire [of "honest_request (\<lambda>t. t) (\<lambda>_. ''1'')", OF sample_honest, of "\<lambda>t. t" "\<lambda>_. ''1''" "\<lambda>x. x" new_index_store]
      step_done [of "\<lambda>t. t" "\<lambda>_. ''1''" "\<lambda>x. x" "honest_request (\<lambda>t. t) (\<lambda>_. ''1'')" ?a sample_provider 0]
      step_settled [of "\<lambda>t. t" "\<lambda>_. ''1''" "\<lambda>x. x" "honest_request (\<lambda>t. t) (\<lambda>_. ''1'')" ?b 0]
    by (meson converse_rtranclp_into_rtranclp rtranclp.rtrancl_refl)
  moreover have "(sample_index_request, Inr ix) \<in> set (sr_answered (build_settled 0 ?b))"
    by (simp add: acquire_def acquire_pending_def new_index_store_def build_done_def build_settled_def ix Let_def)
  moreover have "renders_numbers (\<lambda>_. ''1'')" by (simp add: renders_numbers_def json_number_char_def is_digit_char_def)
  ultimately show ?thesis
    using acquired_index_is_the_snapshot [OF inj_on_id2, of "\<lambda>_. ''1''" "\<lambda>x. x" _ sample_index_request ix] by blast
qed

end
