(* ===== verification/Card_Impact.thy ===== *)
theory Card_Impact
  imports Card_Version
begin

text \<open>
  \<open>packages/registry-lifecycle/src/domain/card-impact.ts\<close> and
  \<open>application/assess-publication-impact.ts\<close>: what a Publication's changes do to the
  Cards already serving.
\<close>

section \<open>One Card against one change\<close>

record card_impact =
  ci_cardId :: string
  ci_decision :: impact_decision
  ci_reasons :: "impact_reason list"

definition reason :: "string \<Rightarrow> string \<Rightarrow> impact_reason" where
  "reason rule message = \<lparr>ir_rule = rule, ir_message = message\<rparr>"

definition INDEX_SUPERSEDED_BY_REMOVAL :: string where
  "INDEX_SUPERSEDED_BY_REMOVAL = ''scope.document.indexVersionSupersededByRemoval''"

fun findLostCoordinates :: "retrieval_scope \<Rightarrow> knowledge_unit \<Rightarrow> impact_reason list" where
  "findLostCoordinates (SqlSourceScope _ _ _ table columns) unit =
     (case ku_coordinate unit of
        SqlTableCoordinate _ _ table' columns' \<Rightarrow>
          (if table \<noteq> table'
           then [reason ''scope.sql.tableRemoved'' (''table '' @ table @ '' is no longer observed'')]
           else map (\<lambda>column. reason ''scope.sql.columnRemoved''
                  (''column '' @ column @ '' referenced by the card no longer exists in '' @ table))
                (filter (\<lambda>column. column \<notin> set columns') columns))
      | coordinate \<Rightarrow> [reason ''scope.kindDrift''
          (''card scope sql_source no longer matches '' @ coordinate_kind_text coordinate @ '' coordinate'')])"
| "findLostCoordinates (HttpSourceScope _ _ meth path _ _) unit =
     (case ku_coordinate unit of
        HttpOperationCoordinate _ meth' path' _ _ \<Rightarrow>
          (if meth = meth' \<and> path = path' then []
           else [reason ''scope.http.operationRemoved''
                   (''operation '' @ meth @ '' '' @ path @ '' is no longer observed'')])
      | coordinate \<Rightarrow> [reason ''scope.kindDrift''
          (''card scope http_source no longer matches '' @ coordinate_kind_text coordinate @ '' coordinate'')])"
| "findLostCoordinates (ManagedDocumentScope _ index selection) unit =
     (case ku_coordinate unit of
        DocumentCoordinate _ documentId semanticUnitId \<Rightarrow>
          (if di_documentId index \<noteq> documentId
           then [reason ''scope.document.documentRemoved''
                   (''document '' @ di_documentId index @ '' is no longer observed'')]
           else (case selection of
              WholeDocument \<Rightarrow> []
            | SemanticUnits ids \<Rightarrow>
                (if semanticUnitId \<notin> set ids
                 then [reason ''scope.document.semanticUnitRemoved''
                         (''semantic unit '' @ semanticUnitId @ '' is no longer covered by the card selection'')]
                 else [])))
      | coordinate \<Rightarrow> [reason ''scope.kindDrift''
          (''card scope managed_document no longer matches '' @ coordinate_kind_text coordinate @ '' coordinate'')])"

text \<open>The document index of a published scope, when it is a managed document.\<close>

fun published_index :: "published_scope \<Rightarrow> document_index_ref option" where
  "published_index (PublishedDocumentScope _ d _) = Some d"
| "published_index _ = None"

definition findPublishedIndex :: "string \<Rightarrow> published_scope list \<Rightarrow> document_index_ref option" where
  "findPublishedIndex documentIndexId scopes =
     (case List.find (\<lambda>candidate. map_option di_documentIndexId (published_index candidate) = Some documentIndexId) scopes of
        None \<Rightarrow> None | Some s \<Rightarrow> published_index s)"

fun scopeDrift :: "knowledge_unit \<Rightarrow> string list \<Rightarrow> retrieval_scope \<Rightarrow> impact_reason list" where
  "scopeDrift unit documentIndexesWithRemovals (ManagedDocumentScope _ index _) =
     (case findPublishedIndex (di_documentIndexId index) (ku_scopes unit) of
        None \<Rightarrow> []
      | Some published \<Rightarrow>
          (if di_indexVersion published = di_indexVersion index then []
           else if di_documentIndexId index \<in> set documentIndexesWithRemovals
           then [reason INDEX_SUPERSEDED_BY_REMOVAL
                   (''document index '' @ di_documentIndexId index @ '' moved from '' @ di_indexVersion index @
                    '' to '' @ di_indexVersion published @ '', and '' @ di_indexVersion index @
                    '' still contains knowledge the source removed'')]
           else [reason ''scope.document.indexVersionChanged''
                   (''document index '' @ di_documentIndexId index @ '' moved from '' @ di_indexVersion index @
                    '' to '' @ di_indexVersion published)]))"
| "scopeDrift unit documentIndexesWithRemovals _ = []"

definition findIndexDrift :: "retrieval_scope list \<Rightarrow> knowledge_unit \<Rightarrow> string list \<Rightarrow> impact_reason list" where
  "findIndexDrift scopes unit documentIndexesWithRemovals =
     concat (map (scopeDrift unit documentIndexesWithRemovals) scopes)"

fun CHANGED_FIELD_RULES :: "changed_field \<Rightarrow> (string \<times> string) option" where
  "CHANGED_FIELD_RULES Facts = Some (''change.facts'',
     ''the observed facts the card text was written from are no longer the same'')"
| "CHANGED_FIELD_RULES Kind = Some (''change.kind'',
     ''the knowledge unit changed kind, so the card may describe a different sort of thing'')"
| "CHANGED_FIELD_RULES PublishedScopes = Some (''change.publishedScopes'',
     ''the published search range changed, so the pinned scope reference needs a new revision'')"
| "CHANGED_FIELD_RULES SourceCoordinate = Some (''change.sourceCoordinate'',
     ''the machine coordinate moved under the card'')"
| "CHANGED_FIELD_RULES Provenance = None"

fun describeContentChange :: "published_change \<Rightarrow> bool \<Rightarrow> impact_reason list" where
  "describeContentChange (Updated unitId _ _ changedFields) driftAlreadyReported =
     concat (map (\<lambda>field.
       if field = PublishedScopes \<and> driftAlreadyReported then []
       else (case CHANGED_FIELD_RULES field of
          None \<Rightarrow> []
        | Some (rule, describe) \<Rightarrow> [reason rule (''knowledge unit '' @ unitId @ '': '' @ describe)]))
     changedFields)"
| "describeContentChange _ _ = []"

fun change_kind_text :: "published_change \<Rightarrow> string" where
  "change_kind_text (Added _ _) = ''added''"
| "change_kind_text (Updated _ _ _ _) = ''updated''"
| "change_kind_text (Removed _ _) = ''removed''"

definition is_removed :: "published_change \<Rightarrow> bool" where
  "is_removed change = (case change of Removed _ _ \<Rightarrow> True | _ \<Rightarrow> False)"

definition analyzeCardImpact ::
    "card_version \<Rightarrow> published_change \<Rightarrow> knowledge_unit option \<Rightarrow> string list \<Rightarrow> card_impact" where
  "analyzeCardImpact currentVersion change currentUnit documentIndexesWithRemovals =
     (let cardId = cv_cardId currentVersion; unitId = ch_unitId change in
      if unitId \<noteq> ln_knowledgeUnitId (cv_lineage currentVersion)
      then \<lparr>ci_cardId = cardId, ci_decision = NoImpact, ci_reasons = []\<rparr>
      else if is_removed change
      then \<lparr>ci_cardId = cardId, ci_decision = DisableImpact, ci_reasons =
             [reason ''change.removed'' (''knowledge unit '' @ unitId @ '' no longer exists in the source'')]\<rparr>
      else (case currentUnit of
        None \<Rightarrow> \<lparr>ci_cardId = cardId, ci_decision = BlockImpact, ci_reasons =
             [reason ''change.unitMissing''
                (''knowledge unit '' @ unitId @ '' was '' @ change_kind_text change @ '' but is absent from the publication'')]\<rparr>
      | Some unit \<Rightarrow>
          (let lost = concat (map (\<lambda>scope. findLostCoordinates scope unit) (cv_scopes currentVersion)) in
           if lost \<noteq> [] then \<lparr>ci_cardId = cardId, ci_decision = BlockImpact, ci_reasons = lost\<rparr>
           else
             (let drift = findIndexDrift (cv_scopes currentVersion) unit documentIndexesWithRemovals;
                  reasons = drift @ describeContentChange change (drift \<noteq> [])
              in if reasons = [] then \<lparr>ci_cardId = cardId, ci_decision = NoImpact, ci_reasons = []\<rparr>
                 else \<lparr>ci_cardId = cardId,
                        ci_decision = (if list_ex (\<lambda>r. ir_rule r = INDEX_SUPERSEDED_BY_REMOVAL) reasons
                                       then BlockImpact else ReviewImpact),
                        ci_reasons = reasons\<rparr>))))"

section \<open>A whole Publication against the serving Cards\<close>

definition managed_index_ids :: "retrieval_scope list \<Rightarrow> string list" where
  "managed_index_ids scopes =
     concat (map (\<lambda>s. case s of ManagedDocumentScope _ d _ \<Rightarrow> [di_documentIndexId d] | _ \<Rightarrow> []) scopes)"

definition documentIndexesWithRemovals :: "publication \<Rightarrow> card_version list \<Rightarrow> string list" where
  "documentIndexesWithRemovals p currentVersions =
     (let removed = js_set (map ch_unitId (filter is_removed (pub_changes p))) in
      if removed = [] then []
      else js_set (concat (map (\<lambda>v.
             if ln_knowledgeUnitId (cv_lineage v) \<notin> set removed then []
             else managed_index_ids (cv_scopes v)) currentVersions)))"

text \<open>
  The impacts of the nested loop, in its order; \<open>none\<close> decisions are skipped.
\<close>

definition publicationImpacts :: "publication \<Rightarrow> card_version list \<Rightarrow> card_impact list" where
  "publicationImpacts p currentVersions =
     (let unitsById = units_by_id (pub_knowledgeUnits p);
          removalIndexes = documentIndexesWithRemovals p currentVersions
      in filter (\<lambda>i. ci_decision i \<noteq> NoImpact)
           (concat (map (\<lambda>v. map (\<lambda>change.
              analyzeCardImpact v change (map_of unitsById (ch_unitId change)) removalIndexes)
            (pub_changes p)) currentVersions)))"

text \<open>The event of each impact takes the next id; \<open>occurredAt\<close> was read once before the loops.\<close>

fun impactEvents :: "(nat \<Rightarrow> string) \<Rightarrow> nat \<Rightarrow> string \<Rightarrow> string \<Rightarrow> card_impact list \<Rightarrow> lifecycle_event list" where
  "impactEvents ids n occurredAt publicationId [] = []"
| "impactEvents ids n occurredAt publicationId (i # is) =
     \<lparr>le_id = ids n, le_cardId = ci_cardId i, le_occurredAt = occurredAt,
      le_body = CardImpactAssessed publicationId (ci_decision i) (ci_reasons i)\<rparr>
     # impactEvents ids (Suc n) occurredAt publicationId is"

record impact_assessment =
  ia_impacts :: "card_impact list"
  ia_events :: "lifecycle_event list"

definition assessPublicationImpact ::
    "(nat \<Rightarrow> string) \<Rightarrow> nat \<Rightarrow> string \<Rightarrow> publication \<Rightarrow> card_version list \<Rightarrow> impact_assessment" where
  "assessPublicationImpact ids n occurredAt p currentVersions =
     (let impacts = publicationImpacts p currentVersions in
      \<lparr>ia_impacts = impacts,
       ia_events = impactEvents ids n occurredAt (pub_publicationId p) impacts\<rparr>)"

end
