(* ===== verification/Publication_Chain.thy ===== *)
theory Publication_Chain
  imports Card_Version
begin

text \<open>
  \<open>packages/registry-lifecycle/src/domain/publication-chain.ts\<close>: where a Publication sits
  in the linear chain of its Source.
\<close>

datatype diagnostic_code = PublicationChainGap | PublicationChainForked

record consumption_diagnostic =
  cd_code :: diagnostic_code
  cd_detail :: string

record chain_cursor =
  cur_sourceId :: string
  cur_publicationId :: string

record chain_link =
  link_publicationId :: string
  link_sourceId :: string
  link_previousPublicationId :: "string option"

datatype chain_position =
    First
  | Next
  | Gap string string consumption_diagnostic
  | Fork consumption_diagnostic

definition gap :: "string \<Rightarrow> string \<Rightarrow> chain_position" where
  "gap expectedAfter awaiting =
     Gap expectedAfter awaiting
       \<lparr>cd_code = PublicationChainGap,
        cd_detail = ''publication '' @ awaiting @ '' follows '' @ expectedAfter @ '', which has not been consumed''\<rparr>"

definition fork :: "string \<Rightarrow> chain_position" where
  "fork detail = Fork \<lparr>cd_code = PublicationChainForked, cd_detail = detail\<rparr>"

definition locateInChain :: "chain_cursor option \<Rightarrow> chain_link \<Rightarrow> chain_position" where
  "locateInChain cursor link =
     (case cursor of
        None \<Rightarrow>
          (case link_previousPublicationId link of
             None \<Rightarrow> First
           | Some previous \<Rightarrow> gap previous (link_publicationId link))
      | Some c \<Rightarrow>
          (if cur_sourceId c \<noteq> link_sourceId link
           then fork (''cursor belongs to source '' @ cur_sourceId c @ '', publication to '' @ link_sourceId link)
           else (case link_previousPublicationId link of
              None \<Rightarrow> fork (''publication '' @ link_publicationId link @ '' starts a second chain for source '' @
                        link_sourceId link @ '', which already consumed '' @ cur_publicationId c)
            | Some previous \<Rightarrow>
                (if previous = cur_publicationId c then Next else gap previous (link_publicationId link)))))"

definition link_of :: "publication \<Rightarrow> chain_link" where
  "link_of p = \<lparr>link_publicationId = pub_publicationId p, link_sourceId = pub_sourceId p,
                link_previousPublicationId = pub_previousPublicationId p\<rparr>"

text \<open>The positions a Publication may be consumed at, and what they say of its predecessor.\<close>

definition consumable :: "chain_position \<Rightarrow> bool" where
  "consumable pos = (pos = First \<or> pos = Next)"

lemma locateInChain_First_iff:
  "locateInChain cursor link = First \<longleftrightarrow> cursor = None \<and> link_previousPublicationId link = None"
  by (auto simp: locateInChain_def gap_def fork_def split: option.splits)

lemma locateInChain_Next_iff:
  "locateInChain cursor link = Next \<longleftrightarrow>
     (\<exists>c. cursor = Some c \<and> cur_sourceId c = link_sourceId link \<and>
          link_previousPublicationId link = Some (cur_publicationId c))"
  by (auto simp: locateInChain_def gap_def fork_def split: option.splits)

lemma locateInChain_Fork_iff:
  "(\<exists>d. locateInChain cursor link = Fork d) \<longleftrightarrow>
     (\<exists>c. cursor = Some c \<and>
        (cur_sourceId c \<noteq> link_sourceId link \<or> link_previousPublicationId link = None))"
  by (auto simp: locateInChain_def gap_def fork_def split: option.splits)

lemma locateInChain_Gap_iff:
  "(\<exists>d. locateInChain cursor link = Gap e a d) \<longleftrightarrow>
     link_previousPublicationId link = Some e \<and> a = link_publicationId link \<and>
     (case cursor of None \<Rightarrow> True
      | Some c \<Rightarrow> cur_sourceId c = link_sourceId link \<and> e \<noteq> cur_publicationId c)"
  by (auto simp: locateInChain_def gap_def fork_def split: option.splits)

text \<open>
  Consumable exactly when the declared predecessor is the consumed publication (nothing
  for a Source not consumed yet), provided the cursor is the one of the link's own Source.
\<close>

lemma consumable_iff_predecessor:
  assumes "\<And>c. cursor = Some c \<Longrightarrow> cur_sourceId c = link_sourceId link"
  shows "consumable (locateInChain cursor link) \<longleftrightarrow>
           link_previousPublicationId link = map_option cur_publicationId cursor"
  using assms
  by (cases cursor) (auto simp: consumable_def locateInChain_First_iff locateInChain_Next_iff)

end
