(* ===== verification/Registry_Store.thy ===== *)
theory Registry_Store
  imports Card_Impact Publication_Chain
begin

text \<open>
  The tables of registry.db and the SQLite stores over them:
  \<open>infrastructure/sqlite/card-rows.ts\<close>, \<open>lifecycle-event-rows.ts\<close>, \<open>sqlite-card-store.ts\<close>,
  \<open>sqlite-consumer-checkpoint-store.ts\<close>, \<open>sqlite-intake-store.ts\<close>,
  \<open>sqlite-lifecycle-event-store.ts\<close>.

  A table is the list of its rows in the order of insertion. A column that holds JSON is
  the value it encodes. A statement that violates a constraint makes the transaction
  throw; the error result stands for the rolled-back transaction, which leaves the
  database as it was.
\<close>

section \<open>Tables\<close>

record card_row =
  cr_cardId :: string
  cr_meaning :: card_meaning
  cr_policy :: card_policy
  cr_currentVersionId :: "string option"

record version_row =
  vr_version :: card_version
  vr_appendOrder :: nat

record event_row =
  er_event :: lifecycle_event
  er_appendOrder :: nat

record checkpoint_row =
  kr_publicationId :: string
  kr_sourceId :: string
  kr_processedAt :: string

record cursor_row =
  ur_sourceId :: string
  ur_publicationId :: string
  ur_processedAt :: string

record registry_db =
  cards_table :: "card_row list"
  versions_table :: "version_row list"
  events_table :: "event_row list"
  checkpoints_table :: "checkpoint_row list"
  cursors_table :: "cursor_row list"

definition empty_db :: registry_db where
  "empty_db = \<lparr>cards_table = [], versions_table = [], events_table = [],
               checkpoints_table = [], cursors_table = []\<rparr>"

section \<open>Writing\<close>

text \<open>\<open>COALESCE(MAX(append_order), 0) + 1\<close>\<close>

definition nextAppendOrder :: "nat list \<Rightarrow> nat" where
  "nextAppendOrder orders = fold max orders 0 + 1"

text \<open>\<open>INSERT ... ON CONFLICT (key) DO UPDATE\<close> and \<open>... DO NOTHING\<close>.\<close>

fun upsert_row :: "('r \<Rightarrow> 'k) \<Rightarrow> 'r \<Rightarrow> 'r list \<Rightarrow> 'r list" where
  "upsert_row key row [] = [row]"
| "upsert_row key row (r # rs) = (if key r = key row then row # rs else r # upsert_row key row rs)"

definition insert_or_ignore :: "('r \<Rightarrow> 'k) \<Rightarrow> 'r \<Rightarrow> 'r list \<Rightarrow> 'r list" where
  "insert_or_ignore key row rows = (if list_ex (\<lambda>r. key r = key row) rows then rows else rows @ [row])"

definition version_key :: "version_row \<Rightarrow> string" where
  "version_key r = cv_id (vr_version r)"

definition event_key :: "event_row \<Rightarrow> string" where
  "event_key r = le_id (er_event r)"

definition card_row_of :: "context_card \<Rightarrow> card_row" where
  "card_row_of c =
     \<lparr>cr_cardId = cc_id c, cr_meaning = cc_meaning c, cr_policy = cc_policy c,
      cr_currentVersionId = vh_currentVersionId (cc_versions c)\<rparr>"

text \<open>
  The insert loop of \<open>writeCard\<close>: the append order advances with every version, inserted
  or not. A new row must reference a stored card (\<open>REFERENCES cards (card_id)\<close>).
\<close>

fun insert_versions ::
    "card_version list \<Rightarrow> nat \<Rightarrow> registry_db \<Rightarrow> registry_error + registry_db" where
  "insert_versions [] appendOrder db = Inr db"
| "insert_versions (v # vs) appendOrder db =
     (if list_ex (\<lambda>r. version_key r = cv_id v) (versions_table db)
      then insert_versions vs (Suc appendOrder) db
      else if \<not> list_ex (\<lambda>r. cr_cardId r = cv_cardId v) (cards_table db)
      then Inl (SqliteConstraintError ''FOREIGN KEY constraint failed'')
      else insert_versions vs (Suc appendOrder)
             (db\<lparr>versions_table := versions_table db @ [\<lparr>vr_version = v, vr_appendOrder = appendOrder\<rparr>]\<rparr>))"

fun insert_events :: "lifecycle_event list \<Rightarrow> nat \<Rightarrow> event_row list \<Rightarrow> event_row list" where
  "insert_events [] appendOrder rows = rows"
| "insert_events (e # es) appendOrder rows =
     insert_events es (Suc appendOrder)
       (insert_or_ignore event_key \<lparr>er_event = e, er_appendOrder = appendOrder\<rparr> rows)"

definition appendLifecycleEvents :: "registry_db \<Rightarrow> lifecycle_event list \<Rightarrow> registry_db" where
  "appendLifecycleEvents db events =
     db\<lparr>events_table := insert_events events (nextAppendOrder (map er_appendOrder (events_table db))) (events_table db)\<rparr>"

definition writeCard :: "registry_db \<Rightarrow> context_card \<Rightarrow> lifecycle_event list \<Rightarrow> registry_error + registry_db" where
  "writeCard db c events =
     (let db1 = db\<lparr>cards_table := upsert_row cr_cardId (card_row_of c) (cards_table db)\<rparr>;
          appendOrder = nextAppendOrder (map vr_appendOrder (versions_table db1))
      in res_bind (insert_versions (vh_versions (cc_versions c)) appendOrder db1)
           (\<lambda>db2. Inr (appendLifecycleEvents db2 events)))"

definition writeConsumption :: "registry_db \<Rightarrow> chain_cursor \<Rightarrow> string \<Rightarrow> registry_db" where
  "writeConsumption db cursor processedAt =
     db\<lparr>checkpoints_table := insert_or_ignore kr_publicationId
          \<lparr>kr_publicationId = cur_publicationId cursor, kr_sourceId = cur_sourceId cursor,
           kr_processedAt = processedAt\<rparr> (checkpoints_table db),
        cursors_table := upsert_row ur_sourceId
          \<lparr>ur_sourceId = cur_sourceId cursor, ur_publicationId = cur_publicationId cursor,
           ur_processedAt = processedAt\<rparr> (cursors_table db)\<rparr>"

section \<open>Reading\<close>

definition versions_in_order :: "registry_db \<Rightarrow> version_row list" where
  "versions_in_order db = sort_key vr_appendOrder (versions_table db)"

definition findCard :: "registry_db \<Rightarrow> string \<Rightarrow> context_card option" where
  "findCard db cardId =
     (case List.find (\<lambda>r. cr_cardId r = cardId) (cards_table db) of
        None \<Rightarrow> None
      | Some row \<Rightarrow> Some
          \<lparr>cc_id = cr_cardId row, cc_meaning = cr_meaning row, cc_policy = cr_policy row,
           cc_versions =
             \<lparr>vh_cardId = cr_cardId row,
              vh_versions = map vr_version
                (filter (\<lambda>r. cv_cardId (vr_version r) = cardId) (versions_in_order db)),
              vh_currentVersionId = cr_currentVersionId row\<rparr>\<rparr>)"

text \<open>The join of the versions with the cards that point at them, in append order.\<close>

definition current_rows :: "registry_db \<Rightarrow> (card_row \<times> card_version) list" where
  "current_rows db =
     concat (map (\<lambda>r. map (\<lambda>c. (c, vr_version r))
         (filter (\<lambda>c. cr_currentVersionId c = Some (version_key r)) (cards_table db)))
       (versions_in_order db))"

definition listCurrentVersions :: "registry_db \<Rightarrow> card_version list" where
  "listCurrentVersions db = map snd (current_rows db)"

definition entry_of_row :: "card_row \<times> card_version \<Rightarrow> catalog_entry" where
  "entry_of_row = (\<lambda>(c, v).
     \<lparr>ce_cardId = cr_cardId c, ce_versionId = cv_id v, ce_meaning = cr_meaning c,
      ce_policy = cr_policy c, ce_scopes = cv_scopes v\<rparr>)"

definition approvedEntries :: "registry_db \<Rightarrow> catalog_entry list" where
  "approvedEntries db = map entry_of_row (current_rows db)"

definition listApprovedCards :: "(string \<Rightarrow> string) \<Rightarrow> registry_db \<Rightarrow> catalog_snapshot" where
  "listApprovedCards sha256 db = toApprovedCardCatalogSnapshot sha256 (approvedEntries db)"

definition readLifecycleEvents :: "registry_db \<Rightarrow> string \<Rightarrow> lifecycle_event list" where
  "readLifecycleEvents db cardId =
     map er_event (filter (\<lambda>r. le_cardId (er_event r) = cardId)
       (sort_key er_appendOrder (events_table db)))"

definition hasProcessed :: "registry_db \<Rightarrow> string \<Rightarrow> bool" where
  "hasProcessed db publicationId =
     list_ex (\<lambda>r. kr_publicationId r = publicationId) (checkpoints_table db)"

definition toCursor :: "cursor_row \<Rightarrow> chain_cursor" where
  "toCursor r = \<lparr>cur_sourceId = ur_sourceId r, cur_publicationId = ur_publicationId r\<rparr>"

definition findCursor :: "registry_db \<Rightarrow> string \<Rightarrow> chain_cursor option" where
  "findCursor db sourceId =
     map_option toCursor (List.find (\<lambda>r. ur_sourceId r = sourceId) (cursors_table db))"

definition listCursors :: "registry_db \<Rightarrow> chain_cursor list" where
  "listCursors db = map toCursor (sort_key ur_sourceId (cursors_table db))"

section \<open>The store operations\<close>

definition saveCard :: "registry_db \<Rightarrow> context_card \<Rightarrow> lifecycle_event list \<Rightarrow> registry_error + registry_db" where
  "saveCard db c events = writeCard db c events"

definition appendEvents :: "registry_db \<Rightarrow> lifecycle_event list \<Rightarrow> registry_error + registry_db" where
  "appendEvents db events = Inr (appendLifecycleEvents db events)"

definition markProcessed :: "registry_db \<Rightarrow> chain_cursor \<Rightarrow> string \<Rightarrow> registry_error + registry_db" where
  "markProcessed db cursor processedAt = Inr (writeConsumption db cursor processedAt)"

record intaken_card =
  ik_card :: context_card
  ik_events :: "lifecycle_event list"

record publication_intake =
  pi_cards :: "intaken_card list"
  pi_cursor :: chain_cursor

definition commitIntake :: "registry_db \<Rightarrow> publication_intake \<Rightarrow> string \<Rightarrow> registry_error + registry_db" where
  "commitIntake db intake processedAt =
     res_bind (res_fold (\<lambda>ic d. writeCard d (ik_card ic) (ik_events ic)) (pi_cards intake) db)
       (\<lambda>d. Inr (writeConsumption d (pi_cursor intake) processedAt))"

end
