(* ===== verification/Card_Decisions.thy ===== *)
theory Card_Decisions
  imports Registry_Store
begin

text \<open>
  \<open>packages/registry-lifecycle/src/application/approve-card-version.ts\<close>: what an operator
  decides about a Card. The ports object the code is handed is a record of operations over
  a store state; \<open>ids\<close> and \<open>clock\<close> are supplies read by position, so that every call of
  \<open>nextId\<close> and \<open>now\<close> is visible in the state that is passed on.
\<close>

section \<open>Ports\<close>

record 's card_store =
  findCard_port :: "'s \<Rightarrow> string \<Rightarrow> context_card option"
  listCurrentVersions_port :: "'s \<Rightarrow> card_version list"
  listApprovedCards_port :: "'s \<Rightarrow> catalog_entry list"
  saveCard_port :: "'s \<Rightarrow> context_card \<Rightarrow> lifecycle_event list \<Rightarrow> registry_error + 's"

definition sqlite_card_store :: "registry_db card_store" where
  "sqlite_card_store =
     \<lparr>findCard_port = findCard, listCurrentVersions_port = listCurrentVersions,
      listApprovedCards_port = approvedEntries, saveCard_port = saveCard\<rparr>"

record env =
  id_source :: "nat \<Rightarrow> string"
  clock_source :: "nat \<Rightarrow> string"

record supplies =
  ids_drawn :: nat
  clock_reads :: nat

definition nextId :: "env \<Rightarrow> supplies \<Rightarrow> string \<times> supplies" where
  "nextId env sp = (id_source env (ids_drawn sp), sp\<lparr>ids_drawn := Suc (ids_drawn sp)\<rparr>)"

definition now :: "env \<Rightarrow> supplies \<Rightarrow> string \<times> supplies" where
  "now env sp = (clock_source env (clock_reads sp), sp\<lparr>clock_reads := Suc (clock_reads sp)\<rparr>)"

record operator_decision =
  od_decidedBy :: string
  od_note :: "string option"

section \<open>The use cases\<close>

definition loadCard :: "'s card_store \<Rightarrow> 's \<Rightarrow> string \<Rightarrow> registry_error + context_card" where
  "loadCard cards s cardId =
     (case findCard_port cards s cardId of
        None \<Rightarrow> Inl (CardNotFoundError (''card '' @ cardId @ '' was not found''))
      | Some c \<Rightarrow> Inr c)"

definition saveDecision ::
    "'s card_store \<Rightarrow> 's \<Rightarrow> context_card \<Rightarrow> lifecycle_event \<Rightarrow> supplies \<Rightarrow> registry_error + (context_card \<times> 's \<times> supplies)" where
  "saveDecision cards s c event sp =
     res_bind (saveCard_port cards s c [event]) (\<lambda>s'. Inr (c, s', sp))"

definition refuseOversizedCatalog :: "'s card_store \<Rightarrow> 's \<Rightarrow> context_card \<Rightarrow> registry_error + unit" where
  "refuseOversizedCatalog cards s promoted =
     (case toCardCatalogEntry promoted of
        None \<Rightarrow> Inr ()
      | Some entry \<Rightarrow>
          (let current = listApprovedCards_port cards s;
               findings = checkCatalogSnapshotLimits
                 (filter (\<lambda>e. ce_cardId e \<noteq> ce_cardId entry) current @ [entry])
           in if findings \<noteq> []
              then Inl (CardVersionInvariantError (join ''; '' (map gf_message findings)))
              else Inr ()))"

text \<open>The Card after a promotion: the pointer moved, the promoted version's words projected.\<close>

definition promotedCard :: "context_card \<Rightarrow> version_history \<Rightarrow> string \<Rightarrow> context_card" where
  "promotedCard c versions versionId =
     (let serving = List.find (\<lambda>v. cv_id v = versionId) (vh_versions versions) in
      withCardVersions
        (case serving of
           None \<Rightarrow> c
         | Some v \<Rightarrow> (case cv_meaning v of None \<Rightarrow> c | Some m \<Rightarrow> withCardMeaning c m))
        versions)"

definition approveCardVersion ::
    "'s card_store \<Rightarrow> env \<Rightarrow> supplies \<Rightarrow> 's \<Rightarrow> string \<Rightarrow> string \<Rightarrow> operator_decision \<Rightarrow>
     registry_error + (context_card \<times> 's \<times> supplies)" where
  "approveCardVersion cards env sp s cardId versionId decision =
     res_bind (loadCard cards s cardId) (\<lambda>c.
     let previousVersionId = vh_currentVersionId (cc_versions c) in
     res_bind (promoteCardVersion (cc_versions c) versionId) (\<lambda>versions.
     let promoted = promotedCard c versions versionId in
     res_bind (refuseOversizedCatalog cards s promoted) (\<lambda>_.
     let (eventId, sp1) = nextId env sp;
         (occurredAt, sp2) = now env sp1
     in saveDecision cards s promoted
          \<lparr>le_id = eventId, le_cardId = cardId, le_occurredAt = occurredAt,
           le_body = CardVersionPromoted versionId previousVersionId (od_decidedBy decision) (od_note decision)\<rparr>
          sp2)))"

definition rollbackCardVersion ::
    "'s card_store \<Rightarrow> env \<Rightarrow> supplies \<Rightarrow> 's \<Rightarrow> string \<Rightarrow> string \<Rightarrow> operator_decision \<Rightarrow>
     registry_error + (context_card \<times> 's \<times> supplies)" where
  "rollbackCardVersion cards env sp s cardId versionId decision =
     res_bind (loadCard cards s cardId) (\<lambda>c.
     if \<not> precedesCurrentCardVersion (cc_versions c) versionId
     then Inl (CardVersionInvariantError
            (''card version '' @ versionId @ '' does not precede the current version of '' @ cardId @
             '', so it cannot be a rollback''))
     else approveCardVersion cards env sp s cardId versionId decision)"

definition rejectCardVersion ::
    "'s card_store \<Rightarrow> env \<Rightarrow> supplies \<Rightarrow> 's \<Rightarrow> string \<Rightarrow> string \<Rightarrow> operator_decision \<Rightarrow>
     registry_error + (context_card \<times> 's \<times> supplies)" where
  "rejectCardVersion cards env sp s cardId versionId decision =
     res_bind (loadCard cards s cardId) (\<lambda>c.
     if \<not> list_ex (\<lambda>v. cv_id v = versionId) (vh_versions (cc_versions c))
     then Inl (CardNotFoundError
            (''card version '' @ versionId @ '' is not part of card '' @ cardId @ '' history''))
     else
       let (eventId, sp1) = nextId env sp;
           (occurredAt, sp2) = now env sp1
       in saveDecision cards s c
            \<lparr>le_id = eventId, le_cardId = cardId, le_occurredAt = occurredAt,
             le_body = CardVersionRefused versionId (od_decidedBy decision) (od_note decision)\<rparr>
            sp2)"

definition disableCard ::
    "'s card_store \<Rightarrow> env \<Rightarrow> supplies \<Rightarrow> 's \<Rightarrow> string \<Rightarrow> operator_decision \<Rightarrow>
     registry_error + (context_card \<times> 's \<times> supplies)" where
  "disableCard cards env sp s cardId decision =
     res_bind (loadCard cards s cardId) (\<lambda>c.
     let withdrawnVersionId = map_option cv_id (getCurrentCardVersion (cc_versions c));
         versions = withdrawCurrentVersion (cc_versions c);
         (eventId, sp1) = nextId env sp;
         (occurredAt, sp2) = now env sp1
     in saveDecision cards s (withCardVersions c versions)
          \<lparr>le_id = eventId, le_cardId = cardId, le_occurredAt = occurredAt,
           le_body = CardWithdrawn withdrawnVersionId (od_decidedBy decision) (od_note decision)\<rparr>
          sp2)"

end
