(* ===== verification/Card_Store_Contract.thy ===== *)
theory Card_Store_Contract
  imports Card_Decisions
begin

text \<open>
  What the decisions of \<open>application/approve-card-version.ts\<close> rely on: the contract of the
  \<open>CardStore\<close> port, and what follows for every decision over any store that keeps it.
  The SQLite store is shown to keep it in \<open>Registry_Store_Laws\<close>.
\<close>

section \<open>What may be saved\<close>

definition stored_versions :: "context_card option \<Rightarrow> card_version list" where
  "stored_versions found = (case found of None \<Rightarrow> [] | Some c \<Rightarrow> vh_versions (cc_versions c))"

lemma stored_versions_simps [simp]:
  "stored_versions None = []" "stored_versions (Some c) = vh_versions (cc_versions c)"
  by (simp_all add: stored_versions_def)

text \<open>A Card is well formed when its id owns its history and the history is.\<close>

definition card_wf :: "context_card \<Rightarrow> bool" where
  "card_wf c \<longleftrightarrow> vh_cardId (cc_versions c) = cc_id c \<and> history_wf (cc_versions c)"

definition writable :: "context_card option \<Rightarrow> string set \<Rightarrow> context_card \<Rightarrow> bool" where
  "writable found known_ids c \<longleftrightarrow> card_wf c \<and>
     (\<exists>added. vh_versions (cc_versions c) = stored_versions found @ added \<and>
              cv_id ` set added \<inter> known_ids = {})"

lemma writable_same_versions:
  "card_wf c \<Longrightarrow> vh_versions (cc_versions c) = stored_versions found \<Longrightarrow> writable found known_ids c"
  by (simp add: writable_def)

lemma card_wf_create [simp]: "card_wf (createContextCard i m p)"
  by (simp add: card_wf_def createContextCard_def) (simp add: createCardVersionHistory_def)

lemma card_wf_withdraw: "card_wf c \<Longrightarrow> card_wf (withCardVersions c (withdrawCurrentVersion (cc_versions c)))"
  by (auto simp: card_wf_def withCardVersions_def intro: history_wf_withdraw)
     (simp add: withdrawCurrentVersion_def)

section \<open>Facts about the Card operations\<close>

lemma withCardVersions_sel [simp]:
  "cc_id (withCardVersions c h) = cc_id c" "cc_versions (withCardVersions c h) = h"
  "cc_policy (withCardVersions c h) = cc_policy c" "cc_meaning (withCardVersions c h) = cc_meaning c"
  by (simp_all add: withCardVersions_def)

lemma withdraw_sel [simp]:
  "vh_cardId (withdrawCurrentVersion h) = vh_cardId h"
  "vh_versions (withdrawCurrentVersion h) = vh_versions h"
  "vh_currentVersionId (withdrawCurrentVersion h) = None"
  by (simp_all add: withdrawCurrentVersion_def)

lemma promotedCard_sel [simp]:
  "cc_id (promotedCard c h i) = cc_id c" "cc_versions (promotedCard c h i) = h"
  "cc_policy (promotedCard c h i) = cc_policy c"
  by (auto simp: promotedCard_def Let_def withCardMeaning_def split: option.split)

lemma promote_sel:
  assumes "promoteCardVersion h i = Inr h'"
  shows "vh_cardId h' = vh_cardId h" "vh_versions h' = vh_versions h" "vh_currentVersionId h' = Some i"
  using assms by (simp_all add: promoteCardVersion_eq_Inr)

definition serving_id :: "'s card_store \<Rightarrow> 's \<Rightarrow> string \<Rightarrow> string option" where
  "serving_id cards s k = Option.bind (findCard_port cards s k) (\<lambda>c. vh_currentVersionId (cc_versions c))"

section \<open>The contract\<close>

locale card_store_contract =
  fixes cards :: "'s card_store"
    and known :: "'s \<Rightarrow> string set"
    and inv :: "'s \<Rightarrow> bool"
  assumes find_wf: "inv s \<Longrightarrow> findCard_port cards s k = Some c \<Longrightarrow> cc_id c = k \<and> card_wf c"
    and save_succeeds:
      "inv s \<Longrightarrow> writable (findCard_port cards s (cc_id c)) (known s) c \<Longrightarrow>
       \<exists>s'. saveCard_port cards s c es = Inr s'"
    and save_inv:
      "inv s \<Longrightarrow> writable (findCard_port cards s (cc_id c)) (known s) c \<Longrightarrow>
       saveCard_port cards s c es = Inr s' \<Longrightarrow> inv s'"
    and save_find:
      "inv s \<Longrightarrow> writable (findCard_port cards s (cc_id c)) (known s) c \<Longrightarrow>
       saveCard_port cards s c es = Inr s' \<Longrightarrow>
       findCard_port cards s' k = (if k = cc_id c then Some c else findCard_port cards s k)"
    and save_known:
      "inv s \<Longrightarrow> writable (findCard_port cards s (cc_id c)) (known s) c \<Longrightarrow>
       saveCard_port cards s c es = Inr s' \<Longrightarrow>
       known s' = known s \<union> cv_id ` set (vh_versions (cc_versions c))"
    and catalog:
      "inv s \<Longrightarrow> e \<in> set (listApprovedCards_port cards s) \<longleftrightarrow>
       (\<exists>c. findCard_port cards s (ce_cardId e) = Some c \<and> toCardCatalogEntry c = Some e)"
begin

text \<open>What one saved decision about card \<open>k\<close> changes: the Card \<open>c\<close> in place of \<open>c0\<close>.\<close>

lemma decided:
  assumes inv: "inv s" and c0: "findCard_port cards s k = Some c0"
    and wf: "card_wf c" "cc_id c = k" "vh_versions (cc_versions c) = vh_versions (cc_versions c0)"
    and save: "saveDecision cards s c e sp = Inr (c', s', sp')"
  shows "c' = c \<and> inv s' \<and> (\<forall>j. findCard_port cards s' j = (if j = k then Some c else findCard_port cards s j))"
proof -
  have w: "writable (findCard_port cards s (cc_id c)) (known s) c"
    using c0 wf by (simp add: writable_same_versions)
  from save obtain t where t: "saveCard_port cards s c [e] = Inr t" "c' = c" "s' = t"
    unfolding saveDecision_def by (elim res_bindE) blast
  show ?thesis
    unfolding t(2,3) using save_inv [OF inv w t(1)] save_find [OF inv w t(1)] wf(2) by blast
qed

lemma approve:
  assumes inv: "inv s" and ok: "approveCardVersion cards env sp s k i d = Inr (c, s', sp')"
  shows "\<exists>c0 h. findCard_port cards s k = Some c0 \<and> promoteCardVersion (cc_versions c0) i = Inr h \<and>
      c = promotedCard c0 h i \<and> refuseOversizedCatalog cards s c = Inr () \<and> inv s' \<and>
      (\<forall>j. findCard_port cards s' j = (if j = k then Some c else findCard_port cards s j))"
proof -
  from ok obtain c0 h e sp2 where c0: "findCard_port cards s k = Some c0"
    and h: "promoteCardVersion (cc_versions c0) i = Inr h"
    and size: "refuseOversizedCatalog cards s (promotedCard c0 h i) = Inr ()"
    and save: "saveDecision cards s (promotedCard c0 h i) e sp2 = Inr (c, s', sp')"
    by (auto simp: approveCardVersion_def loadCard_def res_bind_eq_Inr Let_def nextId_def now_def
        split: option.splits)
  have wf0: "cc_id c0 = k" "card_wf c0" using find_wf [OF inv c0] by auto
  have wf: "card_wf (promotedCard c0 h i)"
    using wf0 history_wf_promote [OF _ h] promote_sel [OF h] by (simp add: card_wf_def)
  show ?thesis
    using decided [OF inv c0 wf _ _ save] wf0 promote_sel [OF h] c0 h size by simp
qed

lemma rollback:
  assumes inv: "inv s" and ok: "rollbackCardVersion cards env sp s k i d = Inr (c, s', sp')"
  shows "approveCardVersion cards env sp s k i d = Inr (c, s', sp') \<and>
      (\<exists>c0. findCard_port cards s k = Some c0 \<and> precedesCurrentCardVersion (cc_versions c0) i)"
  using ok by (auto simp: rollbackCardVersion_def loadCard_def res_bind_eq_Inr split: option.splits if_splits)

lemma reject:
  assumes inv: "inv s" and ok: "rejectCardVersion cards env sp s k i d = Inr (c, s', sp')"
  shows "findCard_port cards s k = Some c \<and> i \<in> cv_id ` set (vh_versions (cc_versions c)) \<and> inv s' \<and>
      (\<forall>j. findCard_port cards s' j = findCard_port cards s j)"
proof -
  from ok obtain c0 e sp2 where c0: "findCard_port cards s k = Some c0"
    and i: "list_ex (\<lambda>v. cv_id v = i) (vh_versions (cc_versions c0))"
    and save: "saveDecision cards s c0 e sp2 = Inr (c, s', sp')"
    by (auto simp: rejectCardVersion_def loadCard_def res_bind_eq_Inr Let_def nextId_def now_def
        split: option.splits if_splits)
  show ?thesis
    using decided [OF inv c0 _ _ _ save] find_wf [OF inv c0] c0 i by (auto simp: list_ex_iff)
qed

lemma disable:
  assumes inv: "inv s" and ok: "disableCard cards env sp s k d = Inr (c, s', sp')"
  shows "\<exists>c0. findCard_port cards s k = Some c0 \<and>
      c = withCardVersions c0 (withdrawCurrentVersion (cc_versions c0)) \<and> inv s' \<and>
      (\<forall>j. findCard_port cards s' j = (if j = k then Some c else findCard_port cards s j))"
proof -
  from ok obtain c0 e sp2 where c0: "findCard_port cards s k = Some c0"
    and save: "saveDecision cards s (withCardVersions c0 (withdrawCurrentVersion (cc_versions c0))) e sp2
                 = Inr (c, s', sp')"
    by (auto simp: disableCard_def loadCard_def res_bind_eq_Inr Let_def nextId_def now_def
        split: option.splits)
  show ?thesis
    using decided [OF inv c0 card_wf_withdraw _ _ save] find_wf [OF inv c0] c0 by simp
qed

text \<open>Liveness: the only refusals are the ones the code states.\<close>

lemma approve_succeeds:
  assumes inv: "inv s" and c0: "findCard_port cards s k = Some c0"
    and h: "promoteCardVersion (cc_versions c0) i = Inr h"
    and size: "refuseOversizedCatalog cards s (promotedCard c0 h i) = Inr ()"
  shows "\<exists>s' sp'. approveCardVersion cards env sp s k i d = Inr (promotedCard c0 h i, s', sp')"
proof -
  have wf0: "cc_id c0 = k" "card_wf c0" using find_wf [OF inv c0] by auto
  have "writable (findCard_port cards s (cc_id (promotedCard c0 h i))) (known s) (promotedCard c0 h i)"
    using wf0 c0 history_wf_promote [OF _ h] promote_sel [OF h]
    by (intro writable_same_versions) (auto simp: card_wf_def)
  then have "\<exists>s'. saveCard_port cards s (promotedCard c0 h i) es = Inr s'" for es
    by (rule save_succeeds [OF inv])
  then show ?thesis
    by (simp add: approveCardVersion_def loadCard_def c0 h size Let_def saveDecision_def nextId_def now_def)
       (metis res_bind_Inr)
qed

end

end
