(* ===== verification/Daemon_Lifecycle.thy ===== *)
theory Daemon_Lifecycle
  imports Admission_Laws
begin

text \<open>
  The accept, drain and close boundary of the process: apps/contextctl-daemon/src/runtime/lifecycle.ts over the
  lanes of Admission_Lane. Drain hooks and closeables are numbers; a closeable carries what its
  close does, None or the name of the error it throws, and a drain hook has no result the
  lifecycle reads. The shutdown is the shared promise: its state says how far it has come, and a step
  is one turn of the event loop.
\<close>

datatype lifecycle_state = Accepting | Draining | Closed

record close_failure =
  cf_resource :: string
  cf_reason :: string

record closeable =
  cl_id :: nat
  cl_name :: string
  cl_throws :: "string option"
  cl_closed :: bool

text \<open>The promise of the shutdown: not asked for, polling until the instant, closing what is left, or settled.\<close>

datatype shutdown_progress = Not_begun | Polling rat | Closing "nat list" | Settled "close_failure list"

record 'v lifecycle =
  lf_state :: lifecycle_state
  lf_lanes :: "'v lane_world list"
  lf_drainTimeoutMs :: rat
  lf_closeables :: "closeable list"
  lf_drainHooks :: "nat list"
  lf_stopped :: "nat list"
  lf_shutdown :: shutdown_progress
  lf_failures :: "close_failure list"
  lf_log :: "nat list"

definition new_lifecycle :: "'v lane_world list \<Rightarrow> rat \<Rightarrow> 'v lifecycle" where
  "new_lifecycle lanes timeout =
     \<lparr>lf_state = Accepting, lf_lanes = lanes, lf_drainTimeoutMs = timeout, lf_closeables = [], lf_drainHooks = [],
      lf_stopped = [], lf_shutdown = Not_begun, lf_failures = [], lf_log = []\<rparr>"

definition registerCloseable :: "nat \<Rightarrow> string \<Rightarrow> string option \<Rightarrow> 'v lifecycle \<Rightarrow> 'v lifecycle" where
  "registerCloseable k name throws d =
     d\<lparr>lf_closeables := lf_closeables d @ [\<lparr>cl_id = k, cl_name = name, cl_throws = throws, cl_closed = False\<rparr>]\<rparr>"

definition registerDrainHook :: "nat \<Rightarrow> 'v lifecycle \<Rightarrow> 'v lifecycle" where
  "registerDrainHook h d =
     (if lf_state d \<noteq> Accepting then d\<lparr>lf_stopped := lf_stopped d @ [h]\<rparr>
      else d\<lparr>lf_drainHooks := lf_drainHooks d @ [h]\<rparr>)"

definition beginDraining :: "'v lifecycle \<Rightarrow> 'v lifecycle" where
  "beginDraining d =
     (if lf_state d \<noteq> Accepting then d
      else d\<lparr>lf_state := Draining, lf_stopped := lf_stopped d @ lf_drainHooks d, lf_drainHooks := [],
             lf_lanes := map stopAccepting (lf_lanes d)\<rparr>)"

definition shutdown :: "rat \<Rightarrow> 'v lifecycle \<Rightarrow> 'v lifecycle" where
  "shutdown now d =
     (if lf_shutdown d \<noteq> Not_begun then d
      else (beginDraining d)\<lparr>lf_shutdown := Polling (now + lf_drainTimeoutMs d)\<rparr>)"

text \<open>One turn of the wait: the lanes are asked first, then the clock; the closeables are read when the wait is over.\<close>

definition poll_lanes :: "rat \<Rightarrow> 'v lifecycle \<Rightarrow> 'v lifecycle" where
  "poll_lanes now d =
     (case lf_shutdown d of
        Polling deadline \<Rightarrow>
          if list_all (\<lambda>w. lane_idle (lw_lane w)) (lf_lanes d) \<or> deadline \<le> now
          then d\<lparr>lf_shutdown := Closing (rev (map cl_id (lf_closeables d)))\<rparr> else d
      | _ \<Rightarrow> d)"

definition mark_closed :: "nat \<Rightarrow> closeable \<Rightarrow> closeable" where
  "mark_closed k c = (if cl_id c = k then c\<lparr>cl_closed := True\<rparr> else c)"

definition close_one :: "nat \<Rightarrow> 'v lifecycle \<Rightarrow> 'v lifecycle" where
  "close_one k d =
     (case List.find (\<lambda>c. cl_id c = k) (lf_closeables d) of
        None \<Rightarrow> d
      | Some c \<Rightarrow>
          if cl_closed c then d
          else d\<lparr>lf_closeables := map (mark_closed k) (lf_closeables d), lf_log := lf_log d @ [k],
                 lf_failures := lf_failures d @ (case cl_throws c of
                   None \<Rightarrow> [] | Some reason \<Rightarrow> [\<lparr>cf_resource = cl_name c, cf_reason = reason\<rparr>])\<rparr>)"

definition closeAll :: "'v lifecycle \<Rightarrow> 'v lifecycle" where
  "closeAll d =
     (case lf_shutdown d of
        Closing (k # rest) \<Rightarrow> (close_one k d)\<lparr>lf_shutdown := Closing rest\<rparr>
      | Closing [] \<Rightarrow> d\<lparr>lf_state := Closed, lf_shutdown := Settled (lf_failures d)\<rparr>
      | _ \<Rightarrow> d)"

inductive lifecycle_step :: "'v lifecycle \<Rightarrow> 'v lifecycle \<Rightarrow> bool" where
  register: "k \<notin> cl_id ` set (lf_closeables d) \<Longrightarrow> lifecycle_step d (registerCloseable k name throws d)"
| hook: "lifecycle_step d (registerDrainHook h d)"
| drain: "lifecycle_step d (beginDraining d)"
| shut: "lifecycle_step d (shutdown now d)"
| lane: "i < length (lf_lanes d) \<Longrightarrow> lane_step (lf_lanes d ! i) e w \<Longrightarrow> lifecycle_step d (d\<lparr>lf_lanes := (lf_lanes d)[i := w]\<rparr>)"
| poll: "lf_shutdown d = Polling deadline \<Longrightarrow> lifecycle_step d (poll_lanes now d)"
| closing: "lf_shutdown d = Closing ks \<Longrightarrow> lifecycle_step d (closeAll d)"

section \<open>Lanes do not accept again\<close>

lemma answered_accepting [simp]: "ln_accepting (lw_lane (answered t a w)) = ln_accepting (lw_lane w)"
  by (simp add: answered_def)

lemma settle_accepting [simp]: "ln_accepting (lw_lane (settle_entry t w)) = ln_accepting (lw_lane w)"
  by (simp add: settle_entry_def detached_def)

lemma start_accepting [simp]: "ln_accepting (lw_lane (lane_start t s w)) = ln_accepting (lw_lane w)"
  by (simp add: lane_start_def onCallerAbort_def Let_def split: option.split)

lemma drainOne_accepting [simp]: "ln_accepting (lw_lane (drainOne w)) = ln_accepting (lw_lane w)"
proof (induction w rule: drainOne.induct)
  case (1 w)
  then show ?case by (subst drainOne.simps) (auto simp: Let_def split: list.split)
qed

lemma onAbort_accepting [simp]: "ln_accepting (lw_lane (onAbort s t w)) = ln_accepting (lw_lane w)"
  by (simp add: onAbort_def removeQueued_def)

lemma onCallerAbort_accepting [simp]: "ln_accepting (lw_lane (onCallerAbort s t w)) = ln_accepting (lw_lane w)"
  by (simp add: onCallerAbort_def)

lemma reject_accepting [simp]: "ln_accepting (lw_lane (reject_closed e w)) = ln_accepting (lw_lane w)"
  by (simp add: reject_closed_def)

lemma fold_accepting [simp]:
  "ln_accepting (lw_lane (fold reject_closed es w)) = ln_accepting (lw_lane w)"
  "ln_accepting (lw_lane (fold (onAbort s) ts w)) = ln_accepting (lw_lane w)"
  "ln_accepting (lw_lane (fold (onCallerAbort s) ts w)) = ln_accepting (lw_lane w)"
  by (induction es arbitrary: w; simp) (induction ts arbitrary: w; simp)+

lemma stop_accepting [simp]: "\<not> ln_accepting (lw_lane (stopAccepting w))"
  by (simp add: stopAccepting_def)

lemma enqueue_accepting [simp]: "ln_accepting (lw_lane (enqueue t s w)) = ln_accepting (lw_lane w)"
  by (cases s) (simp_all add: enqueue_def Let_def)

lemma run_accepting [simp]: "ln_accepting (lw_lane (lane_run t s w)) = ln_accepting (lw_lane w)"
  by (simp add: lane_run_def Let_def)

lemma finish_accepting [simp]: "ln_accepting (lw_lane (finish t v w)) = ln_accepting (lw_lane w)"
  by (simp add: finish_def)

lemma abort_accepting [simp]: "ln_accepting (lw_lane (abort_signal c r w)) = ln_accepting (lw_lane w)"
  by (simp add: abort_signal_def)

lemma lane_step_accepting:
  assumes "lane_step w e w'" and "\<not> ln_accepting (lw_lane w)"
  shows "\<not> ln_accepting (lw_lane w')"
  using assms by (cases rule: lane_step.cases) simp_all

section \<open>The invariant\<close>

definition closing_queue :: "'v lifecycle \<Rightarrow> nat list" where
  "closing_queue d = (case lf_shutdown d of Closing ks \<Rightarrow> ks | _ \<Rightarrow> [])"

definition lifecycle_inv :: "'v lifecycle \<Rightarrow> bool" where
  "lifecycle_inv d \<longleftrightarrow>
     distinct (map cl_id (lf_closeables d)) \<and>
     (lf_state d \<noteq> Accepting \<longrightarrow> lf_drainHooks d = [] \<and> (\<forall>w \<in> set (lf_lanes d). \<not> ln_accepting (lw_lane w))) \<and>
     (lf_shutdown d \<noteq> Not_begun \<longrightarrow> lf_state d \<noteq> Accepting) \<and>
     (lf_state d = Closed \<longleftrightarrow> (\<exists>fs. lf_shutdown d = Settled fs)) \<and>
     (\<forall>c \<in> set (lf_closeables d). cl_closed c \<longleftrightarrow> cl_id c \<in> set (lf_log d)) \<and>
     (case lf_shutdown d of
        Not_begun \<Rightarrow> lf_log d = [] \<and> lf_failures d = []
      | Polling _ \<Rightarrow> lf_log d = [] \<and> lf_failures d = []
      | _ \<Rightarrow> \<exists>n. lf_log d @ closing_queue d = rev (take n (map cl_id (lf_closeables d)))) \<and>
     (\<forall>fs. lf_shutdown d = Settled fs \<longrightarrow> fs = lf_failures d)"

lemma begin_inv: "lifecycle_inv d \<Longrightarrow> lifecycle_inv (beginDraining d)"
  by (auto simp: lifecycle_inv_def beginDraining_def closing_queue_def split: shutdown_progress.splits)

lemma shutdown_inv: "lifecycle_inv d \<Longrightarrow> lifecycle_inv (shutdown now d)"
  using begin_inv [of d]
  by (auto simp: shutdown_def lifecycle_inv_def beginDraining_def closing_queue_def split: shutdown_progress.splits)

lemma find_closeable:
  assumes "k \<in> cl_id ` set cs"
  obtains c where "List.find (\<lambda>c. cl_id c = k) cs = Some c" "c \<in> set cs" "cl_id c = k"
proof (cases "List.find (\<lambda>c. cl_id c = k) cs")
  case None
  then show thesis using assms by (auto simp: find_None_iff)
next
  case (Some c)
  then show thesis using that find_Some_set [OF Some] by simp
qed

lemma close_inv:
  assumes inv: "lifecycle_inv d" and ks: "lf_shutdown d = Closing ks"
  shows "lifecycle_inv (closeAll d)"
proof (cases ks)
  case Nil
  then show ?thesis using inv ks by (auto simp: lifecycle_inv_def closeAll_def closing_queue_def)
next
  case (Cons k rest)
  let ?cs = "lf_closeables d"
  obtain n where n: "lf_log d @ k # rest = rev (take n (map cl_id ?cs))"
    using inv ks Cons by (auto simp: lifecycle_inv_def closing_queue_def)
  have d: "distinct (map cl_id ?cs)" using inv by (simp add: lifecycle_inv_def)
  then have "distinct (rev (take n (map cl_id ?cs)))" by (simp add: distinct_take)
  then have fresh: "k \<notin> set (lf_log d)" unfolding n [symmetric] by simp
  have "set (rev (take n (map cl_id ?cs))) \<subseteq> cl_id ` set ?cs"
    using set_take_subset [of n "map cl_id ?cs"] by (simp del: take_map)
  then have "k \<in> cl_id ` set ?cs" unfolding n [symmetric] by simp
  then obtain c where c: "List.find (\<lambda>c. cl_id c = k) ?cs = Some c" "c \<in> set ?cs" "cl_id c = k"
    by (rule find_closeable)
  have "\<not> cl_closed c" using inv c fresh by (simp add: lifecycle_inv_def)
  then have close: "close_one k d = d\<lparr>lf_closeables := map (mark_closed k) ?cs, lf_log := lf_log d @ [k],
      lf_failures := lf_failures d @ (case cl_throws c of None \<Rightarrow> [] | Some reason \<Rightarrow> [\<lparr>cf_resource = cl_name c, cf_reason = reason\<rparr>])\<rparr>"
    using c(1) by (simp add: close_one_def)
  have ids: "map cl_id (map (mark_closed k) ?cs) = map cl_id ?cs" by (simp add: mark_closed_def)
  have "\<forall>x \<in> set (map (mark_closed k) ?cs). cl_closed x \<longleftrightarrow> cl_id x \<in> set (lf_log d @ [k])"
    using inv by (auto simp: lifecycle_inv_def mark_closed_def)
  then show ?thesis using inv ks Cons n ids
    by (auto simp: lifecycle_inv_def closeAll_def close closing_queue_def simp del: map_map)
qed

lemma register_inv:
  assumes inv: "lifecycle_inv d" and new: "k \<notin> cl_id ` set (lf_closeables d)"
  shows "lifecycle_inv (registerCloseable k name throws d)"
proof -
  have log: "set (lf_log d) \<subseteq> cl_id ` set (lf_closeables d)"
  proof (cases "lf_log d = []")
    case False
    then obtain n where "lf_log d @ closing_queue d = rev (take n (map cl_id (lf_closeables d)))"
      using inv by (auto simp: lifecycle_inv_def split: shutdown_progress.splits)
    then have "set (lf_log d) \<subseteq> set (rev (take n (map cl_id (lf_closeables d))))" by (metis Un_upper1 set_append)
    then show ?thesis using set_take_subset [of n "map cl_id (lf_closeables d)"] by (auto simp del: take_map)
  qed simp
  have take: "\<exists>m. rev (take n (map cl_id cs)) = rev (take (m - length cs) [k]) @ rev (take m (map cl_id cs))" for n cs
    by (rule exI [of _ "min n (length cs)"]) (simp add: min_def)
  show ?thesis using inv new log take
    by (auto simp: lifecycle_inv_def registerCloseable_def closing_queue_def simp del: rev_is_rev_conv split: shutdown_progress.splits)
qed

lemma poll_inv:
  assumes inv: "lifecycle_inv d"
  shows "lifecycle_inv (poll_lanes now d)"
proof -
  have "\<exists>n. rev (map cl_id cs) = rev (take n (map cl_id cs))" for cs
    by (rule exI [of _ "length cs"]) simp
  then show ?thesis using inv
    by (auto simp: lifecycle_inv_def poll_lanes_def closing_queue_def simp del: rev_is_rev_conv split: shutdown_progress.splits)
qed

lemma lane_inv_kept:
  assumes inv: "lifecycle_inv d" and "i < length (lf_lanes d)" and "lane_step (lf_lanes d ! i) e w"
  shows "lifecycle_inv (d\<lparr>lf_lanes := (lf_lanes d)[i := w]\<rparr>)"
proof -
  have "\<not> ln_accepting (lw_lane w)" if "\<forall>w \<in> set (lf_lanes d). \<not> ln_accepting (lw_lane w)"
    using lane_step_accepting [OF assms(3)] that assms(2) by simp
  then show ?thesis using inv
    by (auto simp: lifecycle_inv_def closing_queue_def dest!: set_update_subset_insert [THEN subsetD]
        split: shutdown_progress.splits)
qed

lemma lifecycle_step_inv: "lifecycle_step d r \<Longrightarrow> lifecycle_inv d \<Longrightarrow> lifecycle_inv r"
proof (induction rule: lifecycle_step.induct)
  case (hook d h)
  then show ?case by (auto simp: lifecycle_inv_def registerDrainHook_def closing_queue_def split: shutdown_progress.splits)
qed (auto intro: begin_inv shutdown_inv close_inv register_inv poll_inv lane_inv_kept)

lemma lifecycle_reachable_inv:
  "lifecycle_step\<^sup>*\<^sup>* (new_lifecycle lanes timeout) d \<Longrightarrow> lifecycle_inv d"
proof (induction rule: rtranclp_induct)
  case base
  then show ?case by (simp add: lifecycle_inv_def new_lifecycle_def)
qed (rule lifecycle_step_inv)

end
