(* ===== verification/Fact_Grounding.thy ===== *)
theory Fact_Grounding
  imports Card_Version
begin

text \<open>
  \<open>packages/registry-lifecycle/src/domain/fact-grounding.ts\<close>: the deterministic check of a
  Card's expression against the observed source. Regular expressions are written as the
  recognisers of their languages; \<open>match\<close> with the global flag as the scan it performs.
\<close>

section \<open>Tokens and machine-readable fragments\<close>

definition is_token_char :: "char \<Rightarrow> bool" where
  "is_token_char c \<longleftrightarrow> is_letter_char c \<or> is_number_char c \<or> c \<in> set ''_{}/.-''"

text \<open>\<open>text.match(/[...]+/gu)\<close>: the maximal runs of characters in a class.\<close>

function runs :: "('a \<Rightarrow> bool) \<Rightarrow> 'a list \<Rightarrow> 'a list list" where
  "runs p [] = []"
| "runs p (c # cs) =
     (if p c then takeWhile p (c # cs) # runs p (dropWhile p (c # cs)) else runs p cs)"
  by pat_completeness auto
termination
  by (relation "measure (\<lambda>(p, xs). length xs)") (auto simp: le_imp_less_Suc length_dropWhile_le)

text \<open>The loop of \<open>stripTrailingPunctuation\<close>: the end index after it.\<close>

fun strip_end :: "string \<Rightarrow> nat \<Rightarrow> nat" where
  "strip_end token 0 = 0"
| "strip_end token (Suc e) =
     (if token ! e = CHR ''.'' \<or> token ! e = CHR '','' then strip_end token e else Suc e)"

definition stripTrailingPunctuation :: "string \<Rightarrow> string" where
  "stripTrailingPunctuation token = take (strip_end token (length token)) token"

definition tokenize :: "string \<Rightarrow> string list" where
  "tokenize text = map stripTrailingPunctuation (runs is_token_char text)"

definition is_alnum_lower :: "char \<Rightarrow> bool" where
  "is_alnum_lower c \<longleftrightarrow> is_lower_char c \<or> is_digit_char c"

text \<open>\<open>/^[a-z]+_[a-z0-9][a-z0-9_-]*$/\<close>\<close>

definition PREFIXED_IDENTIFIER :: "string \<Rightarrow> bool" where
  "PREFIXED_IDENTIFIER s =
     (takeWhile is_lower_char s \<noteq> [] \<and>
      (case dropWhile is_lower_char s of
         u # c # rest \<Rightarrow> u = CHR ''_'' \<and> is_alnum_lower c \<and>
           list_all (\<lambda>d. is_alnum_lower d \<or> d = CHR ''_'' \<or> d = CHR ''-'') rest
       | _ \<Rightarrow> False))"

fun split_on :: "char \<Rightarrow> string \<Rightarrow> string list" where
  "split_on d [] = [[]]"
| "split_on d (c # cs) =
     (if c = d then [] # split_on d cs
      else (case split_on d cs of p # ps \<Rightarrow> (c # p) # ps | [] \<Rightarrow> [[c]]))"

text \<open>\<open>/^[a-z][a-z0-9]*(?:_[a-z0-9]+)+$/\<close>: at least two parts between underscores.\<close>

definition SNAKE_CASE :: "string \<Rightarrow> bool" where
  "SNAKE_CASE s =
     (case split_on (CHR ''_'') s of
        (c # cs) # p # ps \<Rightarrow>
          is_lower_char c \<and> list_all is_alnum_lower cs \<and>
          list_all (\<lambda>q. q \<noteq> [] \<and> list_all is_alnum_lower q) (p # ps)
      | _ \<Rightarrow> False)"

text \<open>\<open>/^[0-9]+(?:\.[0-9]+)?$/\<close>\<close>

definition STANDALONE_NUMBER :: "string \<Rightarrow> bool" where
  "STANDALONE_NUMBER s =
     (takeWhile is_digit_char s \<noteq> [] \<and>
      (case dropWhile is_digit_char s of
         [] \<Rightarrow> True
       | d # rest \<Rightarrow> d = CHR ''.'' \<and> rest \<noteq> [] \<and> list_all is_digit_char rest))"

text \<open>\<open>/^\/[^\s]*$/\<close>\<close>

definition PATH :: "string \<Rightarrow> bool" where
  "PATH s = (case s of [] \<Rightarrow> False | c # rest \<Rightarrow> c = CHR ''/'' \<and> list_all (\<lambda>d. \<not> is_space_char d) rest)"

definition HTTP_METHOD :: "string \<Rightarrow> bool" where
  "HTTP_METHOD s = (s \<in> set [''GET'', ''POST'', ''PUT'', ''PATCH'', ''DELETE'', ''HEAD'', ''OPTIONS''])"

text \<open>\<open>text.match(/[0-9]+(?:\.[0-9]+)?/gu)\<close>: a scan that takes a fraction when one follows.\<close>

definition take_number :: "string \<Rightarrow> string \<times> string" where
  "take_number s =
     (let whole = takeWhile is_digit_char s; rest = dropWhile is_digit_char s in
      case rest of
        d # e # r \<Rightarrow>
          (if d = CHR ''.'' \<and> is_digit_char e
           then (whole @ [d] @ takeWhile is_digit_char (e # r), dropWhile is_digit_char (e # r))
           else (whole, rest))
      | _ \<Rightarrow> (whole, rest))"

lemma take_number_append: "fst (take_number s) @ snd (take_number s) = s"
  by (auto simp: take_number_def Let_def split: list.splits)
     (metis append_Cons append_Nil takeWhile_dropWhile_id takeWhile.simps dropWhile.simps)+

lemma take_number_shorter:
  assumes "is_digit_char c"
  shows "length (snd (take_number (c # cs))) < length (c # cs)"
proof -
  have "fst (take_number (c # cs)) \<noteq> []"
    using assms by (auto simp: take_number_def Let_def split: list.splits)
  then show ?thesis
    using take_number_append [of "c # cs"]
    by (metis add_less_same_cancel2 append_eq_conv_conj length_append length_greater_0_conv
        less_add_same_cancel2)
qed

function digitRuns :: "string \<Rightarrow> string list" where
  "digitRuns [] = []"
| "digitRuns (c # cs) =
     (if is_digit_char c
      then fst (take_number (c # cs)) # digitRuns (snd (take_number (c # cs)))
      else digitRuns cs)"
  by pat_completeness auto
termination
  using take_number_shorter by (relation "measure length") auto

definition is_machine_token :: "string \<Rightarrow> bool" where
  "is_machine_token token =
     (PREFIXED_IDENTIFIER token \<or> SNAKE_CASE token \<or> STANDALONE_NUMBER token \<or> PATH token \<or> HTTP_METHOD token)"

definition machineFragments :: "string \<Rightarrow> string list" where
  "machineFragments text = filter is_machine_token (tokenize text) @ digitRuns text"

section \<open>What the observation can account for\<close>

definition meaningTexts :: "card_meaning \<Rightarrow> (string \<times> string) list" where
  "meaningTexts meaning =
     [(''meaning.description'', cm_description meaning)] @
     map (\<lambda>text. (''meaning.representativeQuestions'', text)) (cm_representativeQuestions meaning) @
     map (\<lambda>text. (''meaning.aliases'', text)) (cm_aliases meaning) @
     map (\<lambda>text. (''meaning.keywords'', text)) (cm_keywords meaning)"

fun scalar_text :: "fact_scalar \<Rightarrow> string" where
  "scalar_text (FactString s) = s"
| "scalar_text (FactNumber n) = n"
| "scalar_text (FactBool b) = (if b then ''true'' else ''false'')"

definition scalarsOf :: "published_fact \<Rightarrow> string list" where
  "scalarsOf pf = (case fact_value pf of
     FactScalar x \<Rightarrow> [scalar_text x] | FactList xs \<Rightarrow> map scalar_text xs)"

fun coordinateValues :: "source_coordinate \<Rightarrow> string list" where
  "coordinateValues (DocumentCoordinate src doc unit) = [src, doc, unit]"
| "coordinateValues (SqlTableCoordinate src schema table columns) = [src, schema, table] @ columns"
| "coordinateValues (HttpOperationCoordinate src meth path operationId parameters) =
     [src, meth, path] @ (case operationId of None \<Rightarrow> [] | Some i \<Rightarrow> [i]) @ map hp_name parameters"

definition reference_values :: "scope_ref \<Rightarrow> string list" where
  "reference_values r = [scopeId r, scopeVersion r]"

definition index_values :: "document_index_ref \<Rightarrow> string list" where
  "index_values d = [di_documentIndexId d, di_sourceId d, di_documentId d, di_indexVersion d]"

fun scopeValues :: "retrieval_scope \<Rightarrow> string list" where
  "scopeValues (ManagedDocumentScope r d selection) =
     reference_values r @ index_values d @
     (case selection of WholeDocument \<Rightarrow> [] | SemanticUnits ids \<Rightarrow> ids)"
| "scopeValues (SqlSourceScope r connector schema table columns) =
     reference_values r @ [connector, schema, table] @ columns"
| "scopeValues (HttpSourceScope r connector meth path operationId parameters) =
     reference_values r @ [connector, meth, path] @
     (case operationId of None \<Rightarrow> [] | Some i \<Rightarrow> [i]) @ map hp_name parameters"

definition admit :: "string \<Rightarrow> string list" where
  "admit value = to_lower value # map to_lower (tokenize value @ digitRuns value)"

definition observed_values :: "source_coordinate \<Rightarrow> published_fact list \<Rightarrow> retrieval_scope list \<Rightarrow> string list" where
  "observed_values coordinate facts scopes =
     concat (map scalarsOf facts) @ coordinateValues coordinate @ concat (map scopeValues scopes)"

definition allowedTokens :: "source_coordinate \<Rightarrow> published_fact list \<Rightarrow> retrieval_scope list \<Rightarrow> string list" where
  "allowedTokens coordinate facts scopes =
     js_set (concat (map admit (observed_values coordinate facts scopes)))"

definition checkMachineFragments ::
    "source_coordinate \<Rightarrow> published_fact list \<Rightarrow> retrieval_scope list \<Rightarrow> card_meaning \<Rightarrow> grounding_finding list" where
  "checkMachineFragments coordinate facts scopes meaning =
     (let allowed = allowedTokens coordinate facts scopes in
      concat (map (\<lambda>(field, text).
        concat (map (\<lambda>fragment.
          if to_lower fragment \<notin> set allowed
          then [fatal_finding ''meaning.fabricatedValue''
                  (field @ '' names '' @ [CHR 0x22] @ fragment @ [CHR 0x22] @
                   '', which exists in neither the unit's facts nor its coordinate'')]
          else []) (machineFragments text))) (meaningTexts meaning)))"

section \<open>Coverage of the facts\<close>

definition factReflected :: "string \<Rightarrow> published_fact \<Rightarrow> bool" where
  "factReflected haystack pf =
     list_all (\<lambda>scalar. str_includes haystack (to_lower scalar)) (scalarsOf pf)"

definition computeFactCoverage :: "published_fact list \<Rightarrow> card_meaning \<Rightarrow> fact_coverage" where
  "computeFactCoverage facts meaning =
     (let haystack = to_lower (join [CHR 0x0A] (map snd (meaningTexts meaning))) in
      \<lparr>fc_covered = map fact_name (filter (factReflected haystack) facts),
       fc_uncovered = map fact_name (filter (\<lambda>f. \<not> factReflected haystack f) facts)\<rparr>)"

section \<open>Limits of the read model\<close>

record text_list_limit =
  tl_count :: nat
  tl_each :: nat

record read_model_limits =
  rl_description_max :: nat
  rl_representativeQuestions :: text_list_limit
  rl_aliases :: text_list_limit
  rl_keywords :: text_list_limit
  rl_scopesPerCard :: nat
  rl_token :: nat

definition READ_MODEL_LIMITS :: read_model_limits where
  "READ_MODEL_LIMITS =
     \<lparr>rl_description_max = 1024,
      rl_representativeQuestions = \<lparr>tl_count = 16, tl_each = 512\<rparr>,
      rl_aliases = \<lparr>tl_count = 32, tl_each = 128\<rparr>,
      rl_keywords = \<lparr>tl_count = 64, tl_each = 64\<rparr>,
      rl_scopesPerCard = 64, rl_token = 256\<rparr>"

definition is_control_char :: "char \<Rightarrow> bool" where
  "is_control_char c \<longleftrightarrow> code_unit c \<le> 31 \<or> code_unit c = 127"

definition checkText :: "string \<Rightarrow> string \<Rightarrow> nat \<Rightarrow> bool \<Rightarrow> grounding_finding list" where
  "checkText rule value bound required =
     (if trim value = []
      then (if required then [fatal_finding rule (rule @ '' must not be blank'')] else [])
      else
        (if bound < length value
         then [fatal_finding rule (rule @ '' is '' @ show_nat (length value) @ '' code units, over the '' @
                show_nat bound @ '' allowed by approved-card-read-v1'')] else []) @
        (if list_ex is_control_char value
         then [fatal_finding rule (rule @ '' contains a control character'')] else []))"

definition checkTextList :: "string \<Rightarrow> string list \<Rightarrow> text_list_limit \<Rightarrow> bool \<Rightarrow> grounding_finding list" where
  "checkTextList rule values bounds required =
     (if required \<and> values = []
      then [fatal_finding rule (''at least one '' @ rule @ '' entry is required'')] else []) @
     (if tl_count bounds < length values
      then [fatal_finding rule (rule @ '' has '' @ show_nat (length values) @ '' entries, over the '' @
             show_nat (tl_count bounds) @ '' allowed by approved-card-read-v1'')] else []) @
     concat (map (\<lambda>value. checkText rule value (tl_each bounds) True) values)"

definition checkMeaning :: "card_meaning \<Rightarrow> grounding_finding list" where
  "checkMeaning meaning =
     checkText ''meaning.description'' (cm_description meaning) (rl_description_max READ_MODEL_LIMITS) True @
     checkTextList ''meaning.representativeQuestions'' (cm_representativeQuestions meaning)
       (rl_representativeQuestions READ_MODEL_LIMITS) True @
     checkTextList ''meaning.aliases'' (cm_aliases meaning) (rl_aliases READ_MODEL_LIMITS) False @
     checkTextList ''meaning.keywords'' (cm_keywords meaning) (rl_keywords READ_MODEL_LIMITS) False"

fun scope_tokens :: "retrieval_scope \<Rightarrow> string list" where
  "scope_tokens (ManagedDocumentScope r d _) = reference_values r @ index_values d"
| "scope_tokens (SqlSourceScope r connector _ table columns) = reference_values r @ [connector, table] @ columns"
| "scope_tokens (HttpSourceScope r connector _ path _ _) = reference_values r @ [connector, path]"

definition checkScopeTokens :: "retrieval_scope \<Rightarrow> grounding_finding list" where
  "checkScopeTokens scope =
     concat (map (\<lambda>token. checkText ''scope.token'' token (rl_token READ_MODEL_LIMITS) True) (scope_tokens scope))"

section \<open>Scopes against the observed coordinate\<close>

fun checkScope :: "source_coordinate \<Rightarrow> retrieval_scope \<Rightarrow> grounding_finding list" where
  "checkScope (DocumentCoordinate src doc unit) (ManagedDocumentScope _ index selection) =
     (if di_sourceId index \<noteq> src
      then [fatal_finding ''scope.document.sourceId''
              (''document index source '' @ di_sourceId index @ '' does not match observed source '' @ src)] else []) @
     (if di_documentId index \<noteq> doc
      then [fatal_finding ''scope.document.documentId''
              (''document index document '' @ di_documentId index @ '' does not match observed document '' @ doc)] else []) @
     (case selection of
        WholeDocument \<Rightarrow> []
      | SemanticUnits ids \<Rightarrow>
          (if unit \<notin> set ids
           then [fatal_finding ''scope.document.semanticUnitIds''
                   (''semantic selection omits the observed unit '' @ unit)] else []))"
| "checkScope (SqlTableCoordinate src schema table columns) (SqlSourceScope _ _ _ table' columns') =
     (if table' \<noteq> table
      then [fatal_finding ''scope.sql.table''
              (''table '' @ table' @ '' does not match observed table '' @ table)] else []) @
     concat (map (\<lambda>column.
       if column \<notin> set columns
       then [fatal_finding ''scope.sql.columns''
               (''column '' @ column @ '' does not exist in observed table '' @ table)] else []) columns')"
| "checkScope (HttpOperationCoordinate src meth path _ _) (HttpSourceScope _ _ meth' path' _ _) =
     (if meth' \<noteq> meth
      then [fatal_finding ''scope.http.method''
              (''method '' @ meth' @ '' does not match observed method '' @ meth)] else []) @
     (if path' \<noteq> path
      then [fatal_finding ''scope.http.path''
              (''path '' @ path' @ '' does not match observed path '' @ path)] else [])"
| "checkScope coordinate scope =
     [fatal_finding ''scope.kind''
        (''scope '' @ scope_kind_text scope @ '' is incompatible with '' @ coordinate_kind_text coordinate @ '' coordinate'')]"

section \<open>The grounding decision\<close>

record grounding_input =
  gi_coordinate :: source_coordinate
  gi_facts :: "published_fact list"
  gi_scopes :: "retrieval_scope list"
  gi_meaning :: card_meaning
  gi_origin :: meaning_origin

definition verdictOf :: "grounding_finding list \<Rightarrow> grounding_verdict" where
  "verdictOf findings =
     (if list_ex (\<lambda>f. gf_severity f = Fatal) findings then VerdictRejected
      else if list_ex (\<lambda>f. gf_severity f = Review) findings then VerdictNeedsReview
      else VerdictValidated)"

definition groundingFindings :: "grounding_input \<Rightarrow> grounding_finding list" where
  "groundingFindings input =
     (let scopes = gi_scopes input in
      checkMeaning (gi_meaning input) @
      concat (map (checkScope (gi_coordinate input)) scopes) @
      concat (map checkScopeTokens scopes) @
      checkMachineFragments (gi_coordinate input) (gi_facts input) scopes (gi_meaning input) @
      (if scopes = []
       then [fatal_finding ''scope.present'' ''card version must carry at least one retrieval scope''] else []) @
      (if rl_scopesPerCard READ_MODEL_LIMITS < length scopes
       then [fatal_finding ''scope.count''
               (''card version carries '' @ show_nat (length scopes) @ '' scopes, over the '' @
                show_nat (rl_scopesPerCard READ_MODEL_LIMITS) @ '' allowed by approved-card-read-v1'')] else []) @
      (if mo_generator (gi_origin input) = Model
       then [\<lparr>gf_rule = ''meaning.modelAuthored'',
              gf_message = ''expression written by model '' @
                (case mo_model (gi_origin input) of None \<Rightarrow> ''unknown'' | Some m \<Rightarrow> m) @
                '' awaits an operator's semantic review'',
              gf_severity = Review\<rparr>] else []))"

definition groundCardVersion :: "grounding_input \<Rightarrow> grounding_report" where
  "groundCardVersion input =
     (let findings = groundingFindings input in
      \<lparr>gr_verdict = verdictOf findings, gr_findings = findings,
       gr_factCoverage = computeFactCoverage (gi_facts input) (gi_meaning input),
       gr_origin = gi_origin input\<rparr>)"

end
