(* ===== verification/Intake.thy ===== *)
theory Intake
  imports Card_Decisions Fact_Grounding
begin

text \<open>
  \<open>application/claim-publication.ts\<close> and \<open>application/intake-publication.ts\<close>: consuming one
  Publication, in chain order and exactly once, and committing everything it changes.
\<close>

section \<open>Ports\<close>

record 's intake_ports =
  ip_cards :: "'s card_store"
  hasProcessed_port :: "'s \<Rightarrow> string \<Rightarrow> bool"
  findCursor_port :: "'s \<Rightarrow> string \<Rightarrow> chain_cursor option"
  commit_port :: "'s \<Rightarrow> publication_intake \<Rightarrow> string \<Rightarrow> registry_error + 's"
  findById_port :: "string \<Rightarrow> publication option"
  generate_port :: "nat \<Rightarrow> source_coordinate \<Rightarrow> published_fact list \<Rightarrow> registry_error + (card_meaning \<times> meaning_origin)"

text \<open>
  The SQLite ports. Publications are read from Ingestion and meanings come from a
  generator that may be a model: both are parameters. A generator's answer may differ from
  call to call, so it is indexed by the number of ids drawn before the call.
\<close>

definition sqlite_intake_ports ::
    "(string \<Rightarrow> publication option) \<Rightarrow>
     (nat \<Rightarrow> source_coordinate \<Rightarrow> published_fact list \<Rightarrow> registry_error + (card_meaning \<times> meaning_origin)) \<Rightarrow>
     registry_db intake_ports" where
  "sqlite_intake_ports publications generate =
     \<lparr>ip_cards = sqlite_card_store, hasProcessed_port = hasProcessed, findCursor_port = findCursor,
      commit_port = commitIntake, findById_port = publications, generate_port = generate\<rparr>"

section \<open>Claiming\<close>

record claimed_version =
  kv_version :: card_version
  kv_findings :: "grounding_finding list"

datatype claim_result =
    AlreadyClaimed string
  | Claimed string chain_cursor "claimed_version list"
  | Deferred string string string consumption_diagnostic
  | Forked string string consumption_diagnostic

definition refuse :: "string \<Rightarrow> string \<Rightarrow> chain_position \<Rightarrow> claim_result option" where
  "refuse publicationId sourceId position =
     (case position of
        First \<Rightarrow> None
      | Next \<Rightarrow> None
      | Gap expectedAfter _ diagnostic \<Rightarrow> Some (Deferred publicationId sourceId expectedAfter diagnostic)
      | Fork diagnostic \<Rightarrow> Some (Forked publicationId sourceId diagnostic))"

definition toCardVersion ::
    "'s intake_ports \<Rightarrow> env \<Rightarrow> publication \<Rightarrow> string \<Rightarrow> knowledge_unit \<Rightarrow> supplies \<Rightarrow>
     registry_error + (claimed_version \<times> supplies)" where
  "toCardVersion ports env p createdAt unit sp =
     (let scopes = map translatePublishedScope (ku_scopes unit) in
      res_bind (generate_port ports (ids_drawn sp) (ku_coordinate unit) (ku_facts unit)) (\<lambda>(meaning, origin).
      let grounding = groundCardVersion
            \<lparr>gi_coordinate = ku_coordinate unit, gi_facts = ku_facts unit, gi_scopes = scopes,
             gi_meaning = meaning, gi_origin = origin\<rparr>;
          (versionId, sp') = nextId env sp
      in Inr (\<lparr>kv_version =
            \<lparr>cv_id = versionId, cv_cardId = ku_id unit,
             cv_lineage = \<lparr>ln_publicationId = pub_publicationId p, ln_observationId = pub_observationId p,
                           ln_knowledgeUnitId = ku_id unit\<rparr>,
             cv_scopes = scopes,
             cv_validationState = (if gr_verdict grounding = VerdictRejected then Rejected else Validated),
             cv_createdAt = createdAt, cv_meaning = Some meaning, cv_grounding = Some grounding,
             cv_changeFromPrevious = None\<rparr>,
           kv_findings = gr_findings grounding\<rparr>, sp')))"

fun toCardVersions ::
    "'s intake_ports \<Rightarrow> env \<Rightarrow> publication \<Rightarrow> string \<Rightarrow> knowledge_unit list \<Rightarrow> supplies \<Rightarrow>
     registry_error + (claimed_version list \<times> supplies)" where
  "toCardVersions ports env p createdAt [] sp = Inr ([], sp)"
| "toCardVersions ports env p createdAt (u # us) sp =
     res_bind (toCardVersion ports env p createdAt u sp) (\<lambda>(v, sp').
     res_bind (toCardVersions ports env p createdAt us sp') (\<lambda>(vs, sp'').
     Inr (v # vs, sp'')))"

definition claimPublication ::
    "'s intake_ports \<Rightarrow> env \<Rightarrow> supplies \<Rightarrow> 's \<Rightarrow> string \<Rightarrow> registry_error + (claim_result \<times> supplies)" where
  "claimPublication ports env sp s publicationId =
     (if hasProcessed_port ports s publicationId then Inr (AlreadyClaimed publicationId, sp)
      else (case findById_port ports publicationId of
        None \<Rightarrow> Inl (PublicationNotFoundError (''publication '' @ publicationId @ '' was not found''))
      | Some p \<Rightarrow>
          (let position = locateInChain (findCursor_port ports s (pub_sourceId p)) (link_of p) in
           case refuse publicationId (pub_sourceId p) position of
             Some refusal \<Rightarrow> Inr (refusal, sp)
           | None \<Rightarrow>
               (let (createdAt, sp1) = now env sp in
                res_bind (toCardVersions ports env p createdAt (pub_knowledgeUnits p) sp1)
                  (\<lambda>(cardVersions, sp2). Inr
                    (Claimed publicationId
                       \<lparr>cur_sourceId = pub_sourceId p, cur_publicationId = publicationId\<rparr> cardVersions,
                     sp2))))))"

section \<open>The draft of one intake\<close>

type_synonym intake_draft = "(string \<times> intaken_card) list"

definition draft_set :: "intake_draft \<Rightarrow> string \<Rightarrow> context_card \<Rightarrow> lifecycle_event list \<Rightarrow> intake_draft" where
  "draft_set draft cardId c events =
     AList.update cardId
       \<lparr>ik_card = c,
        ik_events = (case map_of draft cardId of None \<Rightarrow> events | Some existing \<Rightarrow> ik_events existing @ events)\<rparr>
       draft"

definition draft_entries :: "intake_draft \<Rightarrow> intaken_card list" where
  "draft_entries draft = map snd draft"

definition withChangeComparison :: "context_card \<Rightarrow> card_version \<Rightarrow> card_version" where
  "withChangeComparison c version =
     (case at_last (vh_versions (cc_versions c)) of
        None \<Rightarrow> version
      | Some previous \<Rightarrow>
          (case compareCardVersionMeaning previous version of
             None \<Rightarrow> version
           | Some comparison \<Rightarrow> version\<lparr>cv_changeFromPrevious := Some comparison\<rparr>))"

definition loadOrCreateCard ::
    "'s card_store \<Rightarrow> 's \<Rightarrow> card_policy \<Rightarrow> card_version \<Rightarrow> registry_error + context_card" where
  "loadOrCreateCard cards s policy version =
     (case findCard_port cards s (cv_cardId version) of
        Some existing \<Rightarrow> Inr existing
      | None \<Rightarrow>
          (case cv_meaning version of
             None \<Rightarrow> Inl (RegistryFailure (''claimed card '' @ cv_cardId version @ '' carries no meaning''))
           | Some meaning \<Rightarrow> Inr (createContextCard (cv_cardId version) meaning policy)))"

definition addClaimedVersion ::
    "'s intake_ports \<Rightarrow> env \<Rightarrow> 's \<Rightarrow> card_policy \<Rightarrow> claimed_version \<Rightarrow> intake_draft \<times> supplies \<Rightarrow>
     registry_error + (intake_draft \<times> supplies)" where
  "addClaimedVersion ports env s policy claimed = (\<lambda>(draft, sp).
     let version = kv_version claimed in
     res_bind (loadOrCreateCard (ip_cards ports) s policy version) (\<lambda>c.
     let (eventId, sp') = nextId env sp;
         event = \<lparr>le_id = eventId, le_cardId = cv_cardId version, le_occurredAt = cv_createdAt version,
                  le_body = CardVersionAdded (cv_id version) (ln_publicationId (cv_lineage version))\<rparr>
     in res_bind (appendCardVersion (cc_versions c) (withChangeComparison c version)) (\<lambda>versions.
        Inr (draft_set draft (cv_cardId version) (withCardVersions c versions) [event], sp'))))"

definition addClaimedVersions ::
    "'s intake_ports \<Rightarrow> env \<Rightarrow> 's \<Rightarrow> card_policy \<Rightarrow> claimed_version list \<Rightarrow> intake_draft \<times> supplies \<Rightarrow>
     registry_error + (intake_draft \<times> supplies)" where
  "addClaimedVersions ports env s policy claimedVersions draft =
     res_fold (addClaimedVersion ports env s policy) claimedVersions draft"

section \<open>Impacts on the serving Cards\<close>

definition withdraws :: "card_impact \<Rightarrow> bool" where
  "withdraws impact = (case ci_decision impact of
     DisableImpact \<Rightarrow> True | BlockImpact \<Rightarrow> True | ReviewImpact \<Rightarrow> False | NoImpact \<Rightarrow> False)"

definition cardUnderImpact ::
    "'s card_store \<Rightarrow> 's \<Rightarrow> intake_draft \<Rightarrow> card_impact \<Rightarrow> context_card option" where
  "cardUnderImpact cards s draft impact =
     (case map_of draft (ci_cardId impact) of
        Some entry \<Rightarrow> Some (ik_card entry)
      | None \<Rightarrow> findCard_port cards s (ci_cardId impact))"

definition applyImpact ::
    "'s card_store \<Rightarrow> 's \<Rightarrow> lifecycle_event list \<Rightarrow> card_impact \<Rightarrow> intake_draft \<Rightarrow> intake_draft" where
  "applyImpact cards s events impact draft =
     (case cardUnderImpact cards s draft impact of
        None \<Rightarrow> draft
      | Some c \<Rightarrow>
          draft_set draft (ci_cardId impact)
            (if withdraws impact then withCardVersions c (withdrawCurrentVersion (cc_versions c)) else c)
            (filter (\<lambda>e. le_cardId e = ci_cardId impact) events))"

definition applyImpacts ::
    "'s intake_ports \<Rightarrow> env \<Rightarrow> 's \<Rightarrow> publication \<Rightarrow> intake_draft \<times> supplies \<Rightarrow> intake_draft \<times> supplies" where
  "applyImpacts ports env s p = (\<lambda>(draft, sp).
     let currentVersions = listCurrentVersions_port (ip_cards ports) s;
         (occurredAt, sp1) = now env sp;
         assessment = assessPublicationImpact (id_source env) (ids_drawn sp1) occurredAt p currentVersions;
         impacts = ia_impacts assessment;
         sp2 = sp1\<lparr>ids_drawn := ids_drawn sp1 + length impacts\<rparr>
     in (fold (applyImpact (ip_cards ports) s (ia_events assessment)) impacts draft, sp2))"

section \<open>Intake\<close>

definition intakePublication ::
    "'s intake_ports \<Rightarrow> env \<Rightarrow> supplies \<Rightarrow> 's \<Rightarrow> string \<Rightarrow> card_policy \<Rightarrow>
     registry_error + (claim_result \<times> 's \<times> supplies)" where
  "intakePublication ports env sp s publicationId policy =
     res_bind (claimPublication ports env sp s publicationId) (\<lambda>(claimed, sp1).
     case claimed of
       Claimed _ cursor cardVersions \<Rightarrow>
         (case findById_port ports publicationId of
            None \<Rightarrow> Inl (PublicationNotFoundError (''publication '' @ publicationId @ '' was not found''))
          | Some p \<Rightarrow>
              res_bind (addClaimedVersions ports env s policy cardVersions ([], sp1)) (\<lambda>draft1.
              let (draft, sp2) = applyImpacts ports env s p draft1;
                  (processedAt, sp3) = now env sp2
              in res_bind (commit_port ports s
                   \<lparr>pi_cards = draft_entries draft, pi_cursor = cursor\<rparr> processedAt)
                   (\<lambda>s'. Inr (claimed, s', sp3))))
     | _ \<Rightarrow> Inr (claimed, s, sp1))"

end
