(* ===== verification/Intake_Contract.thy ===== *)
theory Intake_Contract
  imports Intake Card_Store_Contract
begin

text \<open>
  What \<open>application/intake-publication.ts\<close> relies on, and what one intake does to the Cards
  of any store that keeps it: the contract extends the \<open>CardStore\<close> one with the checkpoint,
  the cursor and the single commit.
\<close>

section \<open>The draft as a map of Cards\<close>

definition draft_card :: "intake_draft \<Rightarrow> string \<Rightarrow> context_card option" where
  "draft_card draft k = map_option ik_card (map_of draft k)"

lemma draft_card_Nil [simp]: "draft_card [] k = None"
  by (simp add: draft_card_def)

lemma draft_card_set [simp]:
  "draft_card (draft_set draft i c es) k = (if k = i then Some c else draft_card draft k)"
  by (simp add: draft_card_def draft_set_def update_conv')

lemma draft_set_distinct: "distinct (map fst draft) \<Longrightarrow> distinct (map fst (draft_set draft i c es))"
  by (simp add: draft_set_def distinct_update)

definition last_claimed :: "string \<Rightarrow> claimed_version list \<Rightarrow> card_version option" where
  "last_claimed k cvs = List.find (\<lambda>v. cv_cardId v = k) (rev (map kv_version cvs))"

lemma find_append:
  "List.find P (xs @ ys) = (case List.find P xs of None \<Rightarrow> List.find P ys | Some x \<Rightarrow> Some x)"
  by (induction xs) auto

lemma last_claimed_simps [simp]:
  "last_claimed k [] = None"
  "last_claimed k (cv # cvs) =
     (case last_claimed k cvs of
        None \<Rightarrow> if cv_cardId (kv_version cv) = k then Some (kv_version cv) else None
      | Some v \<Rightarrow> Some v)"
  by (simp_all add: last_claimed_def find_append split: option.split)

lemma last_claimed_mem:
  "last_claimed k cvs = Some v \<Longrightarrow> v \<in> kv_version ` set cvs \<and> cv_cardId v = k"
  by (auto simp: last_claimed_def dest: find_Some_set)

definition withdrawn :: "context_card \<Rightarrow> context_card" where
  "withdrawn c = withCardVersions c (withdrawCurrentVersion (cc_versions c))"

lemma withdrawn_twice [simp]: "withdrawn (withdrawn c) = withdrawn c"
  by (simp add: withdrawn_def withCardVersions_def withdrawCurrentVersion_def)

lemma withdrawn_sel [simp]:
  "cc_id (withdrawn c) = cc_id c" "vh_versions (cc_versions (withdrawn c)) = vh_versions (cc_versions c)"
  "vh_cardId (cc_versions (withdrawn c)) = vh_cardId (cc_versions c)"
  "vh_currentVersionId (cc_versions (withdrawn c)) = None"
  "cc_meaning (withdrawn c) = cc_meaning c" "cc_policy (withdrawn c) = cc_policy c"
  by (simp_all add: withdrawn_def)

text \<open>The Card a claimed version extends, and the Card with it appended.\<close>

definition base_card :: "'s card_store \<Rightarrow> 's \<Rightarrow> card_policy \<Rightarrow> card_version \<Rightarrow> context_card" where
  "base_card cards s policy v =
     (case findCard_port cards s (cv_cardId v) of
        Some c \<Rightarrow> c
      | None \<Rightarrow> createContextCard (cv_cardId v) (the (cv_meaning v)) policy)"

definition extended :: "'s card_store \<Rightarrow> 's \<Rightarrow> card_policy \<Rightarrow> card_version \<Rightarrow> context_card" where
  "extended cards s policy v =
     (let c = base_card cards s policy v in
      withCardVersions c ((cc_versions c)\<lparr>vh_versions := vh_versions (cc_versions c) @ [withChangeComparison c v]\<rparr>))"

lemma withChangeComparison_sel [simp]:
  "cv_id (withChangeComparison c v) = cv_id v" "cv_cardId (withChangeComparison c v) = cv_cardId v"
  "cv_validationState (withChangeComparison c v) = cv_validationState v"
  "cv_lineage (withChangeComparison c v) = cv_lineage v" "cv_scopes (withChangeComparison c v) = cv_scopes v"
  "cv_meaning (withChangeComparison c v) = cv_meaning v" "cv_grounding (withChangeComparison c v) = cv_grounding v"
  by (auto simp: withChangeComparison_def split: option.split)

lemma loadOrCreateCard_base:
  "cv_meaning v \<noteq> None \<Longrightarrow> loadOrCreateCard cards s policy v = Inr (base_card cards s policy v)"
  by (auto simp: loadOrCreateCard_def base_card_def split: option.splits)

definition extended_card ::
    "'s card_store \<Rightarrow> 's \<Rightarrow> card_policy \<Rightarrow> claimed_version list \<Rightarrow> string \<Rightarrow> context_card option" where
  "extended_card cards s policy cvs k =
     (case last_claimed k cvs of
        None \<Rightarrow> findCard_port cards s k
      | Some v \<Rightarrow> Some (extended cards s policy v))"

definition withdrawn_by :: "card_impact list \<Rightarrow> string \<Rightarrow> bool" where
  "withdrawn_by imps k \<longleftrightarrow> (\<exists>i \<in> set imps. ci_cardId i = k \<and> withdraws i)"

text \<open>What an intake leaves of card \<open>k\<close>.\<close>

definition card_after_intake ::
    "'s card_store \<Rightarrow> 's \<Rightarrow> card_policy \<Rightarrow> claimed_version list \<Rightarrow> card_impact list \<Rightarrow> string \<Rightarrow> context_card option" where
  "card_after_intake cards s policy cvs imps k =
     map_option (\<lambda>c. if withdrawn_by imps k then withdrawn c else c) (extended_card cards s policy cvs k)"

section \<open>The loops\<close>

lemma toCardVersions_ids:
  assumes "toCardVersions ports env p t us sp = Inr (cvs, sp')"
  shows "map (cv_id \<circ> kv_version) cvs = map (id_source env) [ids_drawn sp ..< ids_drawn sp + length us] \<and>
    map (cv_cardId \<circ> kv_version) cvs = map ku_id us \<and>
    (\<forall>cv \<in> set cvs. cv_meaning (kv_version cv) \<noteq> None) \<and>
    sp' = sp\<lparr>ids_drawn := ids_drawn sp + length us\<rparr>"
  using assms
proof (induction us arbitrary: sp cvs)
  case Nil
  then show ?case by simp
next
  case (Cons u us)
  from Cons.prems obtain cv sp1 rest where
    cv: "toCardVersion ports env p t u sp = Inr (cv, sp1)"
    and rest: "toCardVersions ports env p t us sp1 = Inr (rest, sp')" and cvs: "cvs = cv # rest"
    by (auto simp: res_bind_eq_Inr)
  have "cv_id (kv_version cv) = id_source env (ids_drawn sp) \<and> cv_cardId (kv_version cv) = ku_id u \<and>
      cv_meaning (kv_version cv) \<noteq> None \<and> sp1 = sp\<lparr>ids_drawn := Suc (ids_drawn sp)\<rparr>"
    using cv by (auto simp: toCardVersion_def res_bind_eq_Inr Let_def nextId_def)
  then show ?case
    using Cons.IH [OF rest] by (simp add: cvs upt_conv_Cons del: upt_Suc)
qed

lemma applyImpacts_fold:
  "draft_card (fold (applyImpact cards s es) imps draft) k =
     (if \<exists>i \<in> set imps. ci_cardId i = k
      then map_option (\<lambda>c. if withdrawn_by imps k then withdrawn c else c)
             (case draft_card draft k of None \<Rightarrow> findCard_port cards s k | Some c \<Rightarrow> Some c)
      else draft_card draft k)"
proof (induction imps arbitrary: draft)
  case Nil
  then show ?case by simp
next
  case (Cons i imps)
  have step: "draft_card (applyImpact cards s es i draft) k =
      (if ci_cardId i = k
       then map_option (\<lambda>c. if withdraws i then withdrawn c else c)
              (case draft_card draft k of None \<Rightarrow> findCard_port cards s k | Some c \<Rightarrow> Some c)
       else draft_card draft k)"
    by (auto simp: applyImpact_def cardUnderImpact_def withdrawn_def draft_card_def [of draft] split: option.split)
  have w: "withdrawn_by (i # imps) k \<longleftrightarrow> (ci_cardId i = k \<and> withdraws i) \<or> withdrawn_by imps k"
    by (auto simp: withdrawn_by_def)
  have none: "(\<forall>i \<in> set imps. ci_cardId i \<noteq> k) \<Longrightarrow> \<not> withdrawn_by imps k"
    by (auto simp: withdrawn_by_def)
  show ?case
    unfolding fold_simps Cons.IH step w
    by (cases "ci_cardId i = k"; cases "draft_card draft k"; cases "findCard_port cards s k")
      (auto simp: none)
qed

lemma applyImpact_distinct:
  "distinct (map fst draft) \<Longrightarrow> distinct (map fst (fold (applyImpact cards s es) imps draft))"
proof (induction imps arbitrary: draft)
  case Nil
  then show ?case by simp
next
  case (Cons i imps)
  then show ?case by (auto simp: applyImpact_def draft_set_distinct split: option.split)
qed

text \<open>A version may be appended when it belongs to its base Card and its id is not in it.\<close>

definition appendable :: "'s card_store \<Rightarrow> 's \<Rightarrow> card_policy \<Rightarrow> card_version \<Rightarrow> bool" where
  "appendable cards s policy v \<longleftrightarrow> cv_meaning v \<noteq> None \<and>
     vh_cardId (cc_versions (base_card cards s policy v)) = cv_cardId v \<and>
     cv_id v \<notin> cv_id ` set (vh_versions (cc_versions (base_card cards s policy v)))"

lemma addClaimedVersion_ok:
  assumes "appendable (ip_cards ports) s policy (kv_version cv)"
  shows "\<exists>es. addClaimedVersion ports env s policy cv (draft, sp) =
    Inr (draft_set draft (cv_cardId (kv_version cv)) (extended (ip_cards ports) s policy (kv_version cv)) es,
         sp\<lparr>ids_drawn := Suc (ids_drawn sp)\<rparr>)"
proof -
  let ?v = "kv_version cv" and ?c = "base_card (ip_cards ports) s policy (kv_version cv)"
  have load: "loadOrCreateCard (ip_cards ports) s policy ?v = Inr ?c"
    using assms by (simp add: appendable_def loadOrCreateCard_base)
  have app: "appendCardVersion (cc_versions ?c) (withChangeComparison ?c ?v) =
      Inr ((cc_versions ?c)\<lparr>vh_versions := vh_versions (cc_versions ?c) @ [withChangeComparison ?c ?v]\<rparr>)"
    using assms by (simp add: appendCardVersion_eq_Inr appendable_def)
  show ?thesis
    by (simp add: addClaimedVersion_def load app Let_def nextId_def extended_def) blast
qed

lemma addClaimedVersions_ok:
  assumes "\<forall>cv \<in> set cvs. appendable (ip_cards ports) s policy (kv_version cv)"
    and "distinct (map fst draft)"
  shows "\<exists>draft'. addClaimedVersions ports env s policy cvs (draft, sp) =
      Inr (draft', sp\<lparr>ids_drawn := ids_drawn sp + length cvs\<rparr>) \<and> distinct (map fst draft') \<and>
    (\<forall>k. draft_card draft' k = (case last_claimed k cvs of
        None \<Rightarrow> draft_card draft k
      | Some v \<Rightarrow> Some (extended (ip_cards ports) s policy v)))"
  using assms
proof (induction cvs arbitrary: draft sp)
  case Nil
  then show ?case by (simp add: addClaimedVersions_def)
next
  case (Cons cv cvs)
  let ?v = "kv_version cv" and ?sp = "sp\<lparr>ids_drawn := Suc (ids_drawn sp)\<rparr>"
  obtain es where one: "addClaimedVersion ports env s policy cv (draft, sp) =
      Inr (draft_set draft (cv_cardId ?v) (extended (ip_cards ports) s policy ?v) es, ?sp)"
    using addClaimedVersion_ok Cons.prems(1) by (metis list.set_intros(1))
  let ?draft = "draft_set draft (cv_cardId ?v) (extended (ip_cards ports) s policy ?v) es"
  obtain draft' where rest: "addClaimedVersions ports env s policy cvs (?draft, ?sp) =
      Inr (draft', ?sp\<lparr>ids_drawn := ids_drawn ?sp + length cvs\<rparr>)" "distinct (map fst draft')"
    "\<forall>k. draft_card draft' k = (case last_claimed k cvs of
        None \<Rightarrow> draft_card ?draft k | Some v \<Rightarrow> Some (extended (ip_cards ports) s policy v))"
    using Cons.IH [of ?draft ?sp] Cons.prems draft_set_distinct by auto
  have "addClaimedVersions ports env s policy (cv # cvs) (draft, sp) =
      Inr (draft', sp\<lparr>ids_drawn := ids_drawn sp + length (cv # cvs)\<rparr>)"
    using one rest(1) by (simp add: addClaimedVersions_def)
  then show ?case using rest(2,3) by (auto split: option.split)
qed

lemma four_disjoint:
  "A \<inter> B = {} \<Longrightarrow> N \<inter> K = {} \<Longrightarrow> M \<inter> K = {} \<Longrightarrow> A \<subseteq> K \<Longrightarrow> B \<subseteq> K \<Longrightarrow> N \<inter> M = {} \<Longrightarrow>
   (A \<union> N) \<inter> (B \<union> M) = {}"
  by blast

text \<open>The entries of a draft whose Cards sit under their own id.\<close>

lemma draft_entries_keys:
  assumes "distinct (map fst draft)" and "\<And>k c. draft_card draft k = Some c \<Longrightarrow> cc_id c = k"
  shows "map (cc_id \<circ> ik_card) (draft_entries draft) = map fst draft"
proof -
  have "cc_id (ik_card ic) = k" if "(k, ic) \<in> set draft" for k ic
    using assms(2) [of k "ik_card ic"] map_of_is_SomeI [OF assms(1) that] by (simp add: draft_card_def)
  then show ?thesis by (auto simp: draft_entries_def)
qed

lemma draft_entries_mem:
  assumes "distinct (map fst draft)"
  shows "ic \<in> set (draft_entries draft) \<Longrightarrow> \<exists>k. draft_card draft k = Some (ik_card ic)"
proof -
  assume "ic \<in> set (draft_entries draft)"
  then obtain k where "(k, ic) \<in> set draft" by (auto simp: draft_entries_def)
  then show ?thesis using map_of_is_SomeI [OF assms] by (auto simp: draft_card_def)
qed

lemma find_entry:
  "map (cc_id \<circ> ik_card) (map snd draft) = map fst draft \<Longrightarrow>
   List.find (\<lambda>ic. cc_id (ik_card ic) = k) (map snd draft) = map_of draft k"
  by (induction draft) auto

section \<open>The contract\<close>

definition committed ::
    "('s \<Rightarrow> string \<Rightarrow> context_card option) \<Rightarrow> intaken_card list \<Rightarrow> 's \<Rightarrow> string \<Rightarrow> context_card option" where
  "committed look entries s k =
     (case List.find (\<lambda>ic. cc_id (ik_card ic) = k) entries of
        None \<Rightarrow> look s k | Some ic \<Rightarrow> Some (ik_card ic))"

definition committable :: "('s \<Rightarrow> string \<Rightarrow> context_card option) \<Rightarrow> string set \<Rightarrow> intaken_card list \<Rightarrow> 's \<Rightarrow> bool" where
  "committable look known_ids entries s \<longleftrightarrow>
     distinct (map (cc_id \<circ> ik_card) entries) \<and>
     (\<forall>ic \<in> set entries. writable (look s (cc_id (ik_card ic))) known_ids (ik_card ic)) \<and>
     (\<forall>a \<in> set entries. \<forall>b \<in> set entries. a \<noteq> b \<longrightarrow>
        cv_id ` set (vh_versions (cc_versions (ik_card a))) \<inter>
        cv_id ` set (vh_versions (cc_versions (ik_card b))) = {})"

locale intake_contract = card_store_contract "ip_cards ports" known inv
  for ports :: "'s intake_ports" and known :: "'s \<Rightarrow> string set" and inv :: "'s \<Rightarrow> bool" +
  assumes known_of_card:
      "inv s \<Longrightarrow> findCard_port (ip_cards ports) s k = Some c \<Longrightarrow>
       cv_id ` set (vh_versions (cc_versions c)) \<subseteq> known s"
    and known_disjoint:
      "inv s \<Longrightarrow> findCard_port (ip_cards ports) s j = Some b \<Longrightarrow>
       findCard_port (ip_cards ports) s k = Some c \<Longrightarrow> j \<noteq> k \<Longrightarrow>
       cv_id ` set (vh_versions (cc_versions b)) \<inter> cv_id ` set (vh_versions (cc_versions c)) = {}"
    and currents:
      "inv s \<Longrightarrow> v \<in> set (listCurrentVersions_port (ip_cards ports) s) \<longleftrightarrow>
       (\<exists>k c. findCard_port (ip_cards ports) s k = Some c \<and> getCurrentCardVersion (cc_versions c) = Some v)"
    and commit:
      "inv s \<Longrightarrow> committable (findCard_port (ip_cards ports)) (known s) (pi_cards intake) s \<Longrightarrow>
       \<exists>s'. commit_port ports s intake t = Inr s' \<and> inv s' \<and>
         (\<forall>k. findCard_port (ip_cards ports) s' k = committed (findCard_port (ip_cards ports)) (pi_cards intake) s k) \<and>
         known s' = known s \<union> (\<Union>ic \<in> set (pi_cards intake). cv_id ` set (vh_versions (cc_versions (ik_card ic)))) \<and>
         (\<forall>p. hasProcessed_port ports s' p \<longleftrightarrow> hasProcessed_port ports s p \<or> p = cur_publicationId (pi_cursor intake)) \<and>
         (\<forall>src. findCursor_port ports s' src =
            (if src = cur_sourceId (pi_cursor intake) then Some (pi_cursor intake) else findCursor_port ports s src))"
begin

lemma base_card_facts:
  assumes inv: "inv s"
  shows "cc_id (base_card (ip_cards ports) s policy v) = cv_cardId v"
    and "card_wf (base_card (ip_cards ports) s policy v)"
    and "vh_versions (cc_versions (base_card (ip_cards ports) s policy v)) =
           stored_versions (findCard_port (ip_cards ports) s (cv_cardId v))"
    and "cv_id ` set (vh_versions (cc_versions (base_card (ip_cards ports) s policy v))) \<subseteq> known s"
  using find_wf [OF inv] known_of_card [OF inv]
  by (auto simp: base_card_def createContextCard_def createCardVersionHistory_def split: option.split)
     (auto simp: card_wf_def history_wf_def)

lemma fresh_appendable:
  assumes "inv s" and "cv_meaning v \<noteq> None" and "cv_id v \<notin> known s"
  shows "appendable (ip_cards ports) s policy v"
  using base_card_facts [OF assms(1), of policy v] assms(2,3) by (auto simp: appendable_def card_wf_def)

lemma extended_facts:
  assumes inv: "inv s" and fresh: "cv_id v \<notin> known s"
  shows "cc_id (extended (ip_cards ports) s policy v) = cv_cardId v"
    and "writable (findCard_port (ip_cards ports) s (cv_cardId v)) (known s) (extended (ip_cards ports) s policy v)"
    and "vh_versions (cc_versions (extended (ip_cards ports) s policy v)) =
           stored_versions (findCard_port (ip_cards ports) s (cv_cardId v)) @
           [withChangeComparison (base_card (ip_cards ports) s policy v) v]"
proof -
  let ?c = "base_card (ip_cards ports) s policy v"
  note base = base_card_facts [OF inv, of policy v]
  show "cc_id (extended (ip_cards ports) s policy v) = cv_cardId v"
    using base by (simp add: extended_def Let_def)
  show vs: "vh_versions (cc_versions (extended (ip_cards ports) s policy v)) =
      stored_versions (findCard_port (ip_cards ports) s (cv_cardId v)) @ [withChangeComparison ?c v]"
    using base by (simp add: extended_def Let_def)
  have "history_wf ((cc_versions ?c)\<lparr>vh_versions := vh_versions (cc_versions ?c) @ [withChangeComparison ?c v]\<rparr>)"
    by (rule history_wf_append [of "cc_versions ?c" "withChangeComparison ?c v"])
      (use base fresh in \<open>auto simp: card_wf_def appendCardVersion_eq_Inr\<close>)
  then have "card_wf (extended (ip_cards ports) s policy v)"
    using base by (simp add: extended_def Let_def card_wf_def)
  then show "writable (findCard_port (ip_cards ports) s (cv_cardId v)) (known s) (extended (ip_cards ports) s policy v)"
    using vs fresh by (auto simp: writable_def)
qed

lemma stored_known:
  "inv s \<Longrightarrow> cv_id ` set (stored_versions (findCard_port (ip_cards ports) s k)) \<subseteq> known s"
  using known_of_card [of s k] by (cases "findCard_port (ip_cards ports) s k") auto

lemma after_facts:
  assumes inv: "inv s" and fresh: "\<forall>cv \<in> set cvs. cv_id (kv_version cv) \<notin> known s"
    and c: "card_after_intake (ip_cards ports) s policy cvs imps k = Some c"
  shows "cc_id c = k"
    and "writable (findCard_port (ip_cards ports) s k) (known s) c"
    and "cv_id ` set (vh_versions (cc_versions c)) =
           cv_id ` set (stored_versions (findCard_port (ip_cards ports) s k)) \<union>
           cv_id ` set_option (last_claimed k cvs)"
proof -
  obtain d where d: "extended_card (ip_cards ports) s policy cvs k = Some d"
    and cd: "c = (if withdrawn_by imps k then withdrawn d else d)"
    using c by (auto simp: card_after_intake_def)
  have "cc_id d = k \<and> writable (findCard_port (ip_cards ports) s k) (known s) d \<and>
      cv_id ` set (vh_versions (cc_versions d)) =
        cv_id ` set (stored_versions (findCard_port (ip_cards ports) s k)) \<union> cv_id ` set_option (last_claimed k cvs)"
  proof (cases "last_claimed k cvs")
    case None
    then show ?thesis using d find_wf [OF inv, of k d] by (simp add: extended_card_def writable_same_versions)
  next
    case (Some v)
    then have v: "cv_cardId v = k" "cv_id v \<notin> known s" using last_claimed_mem [OF Some] fresh by auto
    show ?thesis using extended_facts [OF inv v(2), of policy] d Some v by (simp add: extended_card_def)
  qed
  moreover have "writable f i (withdrawn e)" if "writable f i e" for f i e
    using that card_wf_withdraw [of e] by (auto simp: writable_def withdrawn_def [symmetric])
  ultimately show "cc_id c = k" "writable (findCard_port (ip_cards ports) s k) (known s) c"
    "cv_id ` set (vh_versions (cc_versions c)) =
       cv_id ` set (stored_versions (findCard_port (ip_cards ports) s k)) \<union> cv_id ` set_option (last_claimed k cvs)"
    by (auto simp: cd)
qed

lemma after_disjoint:
  assumes inv: "inv s" and fresh: "\<forall>cv \<in> set cvs. cv_id (kv_version cv) \<notin> known s"
    and dist: "distinct (map (cv_id \<circ> kv_version) cvs)" and jk: "j \<noteq> k"
    and b: "card_after_intake (ip_cards ports) s policy cvs imps j = Some b"
    and c: "card_after_intake (ip_cards ports) s policy cvs imps k = Some c"
  shows "cv_id ` set (vh_versions (cc_versions b)) \<inter> cv_id ` set (vh_versions (cc_versions c)) = {}"
proof -
  note known = stored_known [OF inv]
  have new: "cv_id ` set_option (last_claimed i cvs) \<inter> known s = {}" for i
    using fresh last_claimed_mem [of i cvs] by (cases "last_claimed i cvs") auto
  have stored: "cv_id ` set (stored_versions (findCard_port (ip_cards ports) s j)) \<inter>
      cv_id ` set (stored_versions (findCard_port (ip_cards ports) s k)) = {}"
    using known_disjoint [OF inv _ _ jk]
    by (cases "findCard_port (ip_cards ports) s j"; cases "findCard_port (ip_cards ports) s k") auto
  have "cv_id ` set_option (last_claimed j cvs) \<inter> cv_id ` set_option (last_claimed k cvs) = {}"
  proof (cases "last_claimed j cvs"; cases "last_claimed k cvs")
    fix v w assume "last_claimed j cvs = Some v" "last_claimed k cvs = Some w"
    then obtain x y where "x \<in> set cvs" "y \<in> set cvs" "v = kv_version x" "w = kv_version y"
        "cv_cardId v = j" "cv_cardId w = k"
      using last_claimed_mem [of j cvs v] last_claimed_mem [of k cvs w] by blast
    then have "cv_id v \<noteq> cv_id w" using dist jk by (auto simp: distinct_map inj_on_def)
    then show ?thesis
      using \<open>last_claimed j cvs = Some v\<close> \<open>last_claimed k cvs = Some w\<close> by simp
  qed simp_all
  then show ?thesis
    unfolding after_facts(3) [OF inv fresh b] after_facts(3) [OF inv fresh c]
    by (rule four_disjoint [OF stored new new known known])
qed

text \<open>The draft that the two loops leave is what every Card becomes, and it may be committed.\<close>

lemma final_draft:
  fixes es :: "lifecycle_event list" and imps :: "card_impact list" and s :: 's and draft :: intake_draft
  assumes inv: "inv s" and fresh: "\<forall>cv \<in> set cvs. cv_id (kv_version cv) \<notin> known s"
    and dist: "distinct (map (cv_id \<circ> kv_version) cvs)"
    and draft: "distinct (map fst draft)"
    and cards: "\<And>k. draft_card draft k = (case last_claimed k cvs of
        None \<Rightarrow> None | Some v \<Rightarrow> Some (extended (ip_cards ports) s policy v))"
    and final: "final = fold (applyImpact (ip_cards ports) s es) imps draft"
  shows "committable (findCard_port (ip_cards ports)) (known s) (draft_entries final) s"
    and "committed (findCard_port (ip_cards ports)) (draft_entries final) s k =
           card_after_intake (ip_cards ports) s policy cvs imps k"
    and "\<And>ic. ic \<in> set (draft_entries final) \<Longrightarrow>
           card_after_intake (ip_cards ports) s policy cvs imps (cc_id (ik_card ic)) = Some (ik_card ic)"
proof -
  have none: "(\<forall>i \<in> set imps. ci_cardId i \<noteq> k) \<Longrightarrow> \<not> withdrawn_by imps k" for k
    by (auto simp: withdrawn_by_def)
  have fd: "distinct (map fst final)" unfolding final by (rule applyImpact_distinct [OF draft])
  have after: "(case draft_card final k of None \<Rightarrow> findCard_port (ip_cards ports) s k | Some c \<Rightarrow> Some c) =
      card_after_intake (ip_cards ports) s policy cvs imps k" for k
    unfolding final applyImpacts_fold cards card_after_intake_def extended_card_def
    by (cases "last_claimed k cvs"; cases "findCard_port (ip_cards ports) s k") (auto simp: none)
  have entry: "draft_card final k = Some c \<Longrightarrow>
      card_after_intake (ip_cards ports) s policy cvs imps k = Some c" for k c
    using after [of k] by simp
  have ids: "draft_card final k = Some c \<Longrightarrow> cc_id c = k" for k c
    using after_facts(1) [OF inv fresh] entry by blast
  have keys: "map (cc_id \<circ> ik_card) (draft_entries final) = map fst final"
    by (rule draft_entries_keys [OF fd]) (rule ids)
  have found: "List.find (\<lambda>ic. cc_id (ik_card ic) = k) (draft_entries final) = map_of final k" for k
    using find_entry [of final k] keys by (simp add: draft_entries_def)
  show "committed (findCard_port (ip_cards ports)) (draft_entries final) s k =
      card_after_intake (ip_cards ports) s policy cvs imps k"
    unfolding after [symmetric] committed_def found draft_card_def by (auto split: option.split)
  show "card_after_intake (ip_cards ports) s policy cvs imps (cc_id (ik_card ic)) = Some (ik_card ic)"
    if "ic \<in> set (draft_entries final)" for ic
    using draft_entries_mem [OF fd that] ids entry by metis
  show "committable (findCard_port (ip_cards ports)) (known s) (draft_entries final) s"
    unfolding committable_def
  proof (intro conjI ballI impI)
    show dd: "distinct (map (cc_id \<circ> ik_card) (draft_entries final))" unfolding keys by (rule fd)
    fix a assume a: "a \<in> set (draft_entries final)"
    then obtain j where j: "draft_card final j = Some (ik_card a)" using draft_entries_mem [OF fd] by blast
    have ja: "cc_id (ik_card a) = j" by (rule ids [OF j])
    show "writable (findCard_port (ip_cards ports) s (cc_id (ik_card a))) (known s) (ik_card a)"
      unfolding ja by (rule after_facts(2) [OF inv fresh entry [OF j]])
    fix b assume b: "b \<in> set (draft_entries final)" and ab: "a \<noteq> b"
    then obtain k where k: "draft_card final k = Some (ik_card b)" using draft_entries_mem [OF fd] by blast
    have "j \<noteq> k" using dd a b ab ja ids [OF k] by (auto simp: distinct_map inj_on_def)
    then show "cv_id ` set (vh_versions (cc_versions (ik_card a))) \<inter>
        cv_id ` set (vh_versions (cc_versions (ik_card b))) = {}"
      by (rule after_disjoint [OF inv fresh dist _ entry [OF j] entry [OF k]])
  qed
qed

text \<open>
  One intake: when the Publication was not processed, follows the cursor of its Source and
  the generator answers for every unit, the intake commits, and every Card becomes what
  \<open>card_after_intake\<close> says.
\<close>

lemma intake_commits:
  assumes inv: "inv s" and new: "\<not> hasProcessed_port ports s pid"
    and p: "findById_port ports pid = Some p"
    and pos: "consumable (locateInChain (findCursor_port ports s (pub_sourceId p)) (link_of p))"
    and gen: "toCardVersions ports env p (fst (now env sp)) (pub_knowledgeUnits p) (snd (now env sp)) = Inr (cvs, sp2)"
    and unique: "inj_on (id_source env) {ids_drawn sp..}"
    and fresh: "\<And>n. ids_drawn sp \<le> n \<Longrightarrow> id_source env n \<notin> known s"
  shows "\<exists>s' sp'.
      intakePublication ports env sp s pid policy =
        Inr (Claimed pid \<lparr>cur_sourceId = pub_sourceId p, cur_publicationId = pid\<rparr> cvs, s', sp') \<and>
      inv s' \<and>
      (\<forall>k. findCard_port (ip_cards ports) s' k = card_after_intake (ip_cards ports) s policy cvs
             (publicationImpacts p (listCurrentVersions_port (ip_cards ports) s)) k) \<and>
      (\<forall>q. hasProcessed_port ports s' q \<longleftrightarrow> hasProcessed_port ports s q \<or> q = pid) \<and>
      (\<forall>src. findCursor_port ports s' src =
         (if src = pub_sourceId p then Some \<lparr>cur_sourceId = pub_sourceId p, cur_publicationId = pid\<rparr>
          else findCursor_port ports s src)) \<and>
      known s' \<subseteq> known s \<union> id_source env ` {ids_drawn sp ..< ids_drawn sp'} \<and>
      ids_drawn sp \<le> ids_drawn sp'"
proof -
  let ?cards = "ip_cards ports" and ?cursor = "\<lparr>cur_sourceId = pub_sourceId p, cur_publicationId = pid\<rparr>"
  let ?imps = "publicationImpacts p (listCurrentVersions_port (ip_cards ports) s)"
  let ?n = "length (pub_knowledgeUnits p)"
  have sp1: "ids_drawn (snd (now env sp)) = ids_drawn sp" by (simp add: now_def)
  have ids: "map (cv_id \<circ> kv_version) cvs = map (id_source env) [ids_drawn sp ..< ids_drawn sp + ?n]"
    and meaning: "\<forall>cv \<in> set cvs. cv_meaning (kv_version cv) \<noteq> None"
    and sp2: "ids_drawn sp2 = ids_drawn sp + ?n"
    using toCardVersions_ids [OF gen] sp1 by (simp_all del: not_None_eq)
  have dist: "distinct (map (cv_id \<circ> kv_version) cvs)"
    unfolding ids by (auto simp: distinct_map intro: inj_on_subset [OF unique])
  have drawn: "cv_id (kv_version cv) \<in> id_source env ` {ids_drawn sp ..< ids_drawn sp + ?n}" if "cv \<in> set cvs" for cv
  proof -
    have "(cv_id \<circ> kv_version) cv \<in> set (map (id_source env) [ids_drawn sp ..< ids_drawn sp + ?n])"
      unfolding ids [symmetric] using that by simp
    then show ?thesis by simp
  qed
  have unknown: "\<forall>cv \<in> set cvs. cv_id (kv_version cv) \<notin> known s"
    using drawn fresh by fastforce
  have "\<forall>cv \<in> set cvs. appendable ?cards s policy (kv_version cv)"
    using fresh_appendable [OF inv] meaning unknown by blast
  then obtain draft where draft: "addClaimedVersions ports env s policy cvs ([], sp2) =
        Inr (draft, sp2\<lparr>ids_drawn := ids_drawn sp2 + length cvs\<rparr>)" "distinct (map fst draft)"
      "\<And>k. draft_card draft k = (case last_claimed k cvs of
        None \<Rightarrow> None | Some v \<Rightarrow> Some (extended ?cards s policy v))"
    using addClaimedVersions_ok [of cvs ports s policy "[]" env sp2] by (auto cong: option.case_cong)
  let ?sp3 = "sp2\<lparr>ids_drawn := ids_drawn sp2 + length cvs\<rparr>"
  obtain es sp4 where impacts: "applyImpacts ports env s p (draft, ?sp3) =
      (fold (applyImpact ?cards s es) ?imps draft, sp4)" "ids_drawn sp2 \<le> ids_drawn sp4"
    by (simp add: applyImpacts_def Let_def now_def assessPublicationImpact_def)
  let ?final = "fold (applyImpact ?cards s es) ?imps draft"
  note fin = final_draft [OF inv unknown dist draft(2) draft(3) refl, where es = es and imps = ?imps]
  obtain s' where s': "commit_port ports s \<lparr>pi_cards = draft_entries ?final, pi_cursor = ?cursor\<rparr> (fst (now env sp4)) = Inr s'"
      "inv s'" "\<And>k. findCard_port ?cards s' k = card_after_intake ?cards s policy cvs ?imps k"
      "known s' = known s \<union> (\<Union>ic \<in> set (draft_entries ?final). cv_id ` set (vh_versions (cc_versions (ik_card ic))))"
      "\<And>q. hasProcessed_port ports s' q \<longleftrightarrow> hasProcessed_port ports s q \<or> q = pid"
      "\<And>src. findCursor_port ports s' src = (if src = pub_sourceId p then Some ?cursor else findCursor_port ports s src)"
    using commit [OF inv, of "\<lparr>pi_cards = draft_entries ?final, pi_cursor = ?cursor\<rparr>" "fst (now env sp4)"] fin
    by auto
  have refuse: "refuse pid (pub_sourceId p) (locateInChain (findCursor_port ports s (pub_sourceId p)) (link_of p)) = None"
    using pos by (auto simp: refuse_def consumable_def)
  have claim: "claimPublication ports env sp s pid = Inr (Claimed pid ?cursor cvs, sp2)"
    using new p gen by (simp add: claimPublication_def refuse Let_def case_prod_beta)
  have "intakePublication ports env sp s pid policy = Inr (Claimed pid ?cursor cvs, s', snd (now env sp4))"
    by (simp add: intakePublication_def claim p draft(1) impacts(1) s'(1) Let_def case_prod_beta)
  moreover have "known s' \<subseteq> known s \<union> id_source env ` {ids_drawn sp ..< ids_drawn (snd (now env sp4))}"
  proof -
    have "cv_id ` set (vh_versions (cc_versions (ik_card ic))) \<subseteq>
        known s \<union> id_source env ` {ids_drawn sp ..< ids_drawn sp + ?n}" if "ic \<in> set (draft_entries ?final)" for ic
    proof -
      have after: "card_after_intake ?cards s policy cvs ?imps (cc_id (ik_card ic)) = Some (ik_card ic)"
        by (rule fin(3) [OF that])
      have "cv_id ` set_option (last_claimed (cc_id (ik_card ic)) cvs) \<subseteq>
          id_source env ` {ids_drawn sp ..< ids_drawn sp + ?n}"
        using last_claimed_mem [of "cc_id (ik_card ic)" cvs] drawn
        by (cases "last_claimed (cc_id (ik_card ic)) cvs") auto
      then show ?thesis
        unfolding after_facts(3) [OF inv unknown after] by (intro Un_mono stored_known inv)
    qed
    moreover have "ids_drawn sp + ?n \<le> ids_drawn (snd (now env sp4))" using impacts(2) sp2 by (simp add: now_def)
    then have "id_source env ` {ids_drawn sp ..< ids_drawn sp + ?n} \<subseteq>
        id_source env ` {ids_drawn sp ..< ids_drawn (snd (now env sp4))}" by (intro image_mono) simp
    ultimately have "cv_id ` set (vh_versions (cc_versions (ik_card ic))) \<subseteq>
        known s \<union> id_source env ` {ids_drawn sp ..< ids_drawn (snd (now env sp4))}"
      if "ic \<in> set (draft_entries ?final)" for ic
      by (rule order_trans [OF _ Un_mono [OF order_refl]]) (rule that)
    then show ?thesis unfolding s'(4) by (intro Un_least UN_least) simp_all
  qed
  moreover have "ids_drawn sp \<le> ids_drawn (snd (now env sp4))" using impacts(2) sp2 by (simp add: now_def)
  ultimately show ?thesis using s' by blast
qed

end

end
