(* ===== verification/Registry_Store_Laws.thy ===== *)
theory Registry_Store_Laws
  imports Card_Store_Contract
begin

text \<open>
  The SQLite store keeps the contract of the \<open>CardStore\<close> port: the invariant of the five
  tables, what each write changes, that a saved Card is read back as it was, and that the
  approved catalog is the projection of the stored Cards.
\<close>

section \<open>Lists as tables\<close>

lemma upsert_keys:
  "key ` set (upsert_row key row rows) = insert (key row) (key ` set rows)"
  by (induction rows) auto

lemma upsert_distinct:
  "distinct (map key rows) \<Longrightarrow> distinct (map key (upsert_row key row rows))"
proof (induction rows)
  case Nil
  then show ?case by simp
next
  case (Cons r rows)
  then show ?case using upsert_keys [of key row rows] by (auto simp: image_iff)
qed

lemma upsert_mem:
  "distinct (map key rows) \<Longrightarrow>
   r \<in> set (upsert_row key row rows) \<longleftrightarrow> r = row \<or> r \<in> set rows \<and> key r \<noteq> key row"
  by (induction rows) (auto simp: image_iff)

lemma find_upsert:
  "List.find (\<lambda>r. key r = k) (upsert_row key row rows) =
     (if k = key row then Some row else List.find (\<lambda>r. key r = k) rows)"
  by (induction rows) auto

lemma find_key_iff:
  "distinct (map key rows) \<Longrightarrow>
   List.find (\<lambda>r. key r = k) rows = Some r \<longleftrightarrow> r \<in> set rows \<and> key r = k"
  by (induction rows) (auto simp: image_iff)

lemma insert_or_ignore_mem:
  "r \<in> set (insert_or_ignore key row rows) \<longleftrightarrow>
     r \<in> set rows \<or> (r = row \<and> (\<forall>x \<in> set rows. key x \<noteq> key row))"
  by (auto simp: insert_or_ignore_def list_ex_iff)

lemma insert_or_ignore_keys:
  "key ` set (insert_or_ignore key row rows) = insert (key row) (key ` set rows)"
  by (auto simp: insert_or_ignore_def list_ex_iff image_iff) metis

lemma insert_or_ignore_distinct:
  "distinct (map key rows) \<Longrightarrow> distinct (map key (insert_or_ignore key row rows))"
  by (auto simp: insert_or_ignore_def list_ex_iff image_iff)

lemma nextAppendOrder_greater: "n \<in> set orders \<Longrightarrow> n < nextAppendOrder orders"
proof -
  have "m \<le> fold max orders m \<and> (\<forall>n \<in> set orders. n \<le> fold max orders m)" for m :: nat
  proof (induction orders arbitrary: m)
    case Nil
    then show ?case by simp
  next
    case (Cons a orders)
    show ?case using Cons [of "max a m"] by (auto simp: max_def split: if_splits)
  qed
  then show "n \<in> set orders \<Longrightarrow> n < nextAppendOrder orders"
    unfolding nextAppendOrder_def by (simp add: less_Suc_eq_le)
qed

lemma sort_key_strict: "sorted_wrt (<) (map f rows) \<Longrightarrow> sort_key f rows = (rows :: 'r list)"
  for f :: "'r \<Rightarrow> nat"
  by (rule sort_key_id_if_sorted) (auto simp: sorted_wrt_map intro: sorted_wrt_mono_rel [rotated])

section \<open>The invariant of the tables\<close>

definition pointer_ok :: "version_row list \<Rightarrow> card_row \<Rightarrow> bool" where
  "pointer_ok rows c \<longleftrightarrow>
     (\<forall>i. cr_currentVersionId c = Some i \<longrightarrow>
        (\<exists>r \<in> set rows. version_key r = i \<and> cv_cardId (vr_version r) = cr_cardId c \<and>
            cv_validationState (vr_version r) = Validated))"

definition db_inv :: "registry_db \<Rightarrow> bool" where
  "db_inv db \<longleftrightarrow>
     distinct (map cr_cardId (cards_table db)) \<and>
     distinct (map version_key (versions_table db)) \<and>
     sorted_wrt (<) (map vr_appendOrder (versions_table db)) \<and>
     (\<forall>r \<in> set (versions_table db). cv_cardId (vr_version r) \<in> cr_cardId ` set (cards_table db)) \<and>
     (\<forall>c \<in> set (cards_table db). pointer_ok (versions_table db) c) \<and>
     distinct (map event_key (events_table db)) \<and>
     sorted_wrt (<) (map er_appendOrder (events_table db)) \<and>
     distinct (map kr_publicationId (checkpoints_table db)) \<and>
     distinct (map ur_sourceId (cursors_table db)) \<and>
     (\<forall>u \<in> set (cursors_table db). ur_publicationId u \<in> kr_publicationId ` set (checkpoints_table db))"

lemma db_inv_empty: "db_inv empty_db"
  by (simp add: db_inv_def empty_db_def)

lemma db_invD:
  assumes "db_inv db"
  shows "distinct (map cr_cardId (cards_table db))"
    and "distinct (map version_key (versions_table db))"
    and "sorted_wrt (<) (map vr_appendOrder (versions_table db))"
    and "\<And>r. r \<in> set (versions_table db) \<Longrightarrow> cv_cardId (vr_version r) \<in> cr_cardId ` set (cards_table db)"
    and "\<And>c. c \<in> set (cards_table db) \<Longrightarrow> pointer_ok (versions_table db) c"
    and "distinct (map event_key (events_table db))"
    and "sorted_wrt (<) (map er_appendOrder (events_table db))"
    and "distinct (map kr_publicationId (checkpoints_table db))"
    and "distinct (map ur_sourceId (cursors_table db))"
    and "\<forall>u \<in> set (cursors_table db). ur_publicationId u \<in> kr_publicationId ` set (checkpoints_table db)"
  using assms by (auto simp: db_inv_def)

lemma db_inv_write:
  assumes "db_inv db" and "distinct (map cr_cardId cs)" and "distinct (map version_key vs)"
    and "sorted_wrt (<) (map vr_appendOrder vs)"
    and "\<forall>r \<in> set vs. cv_cardId (vr_version r) \<in> cr_cardId ` set cs"
    and "\<forall>c \<in> set cs. pointer_ok vs c"
    and "distinct (map event_key es)" and "sorted_wrt (<) (map er_appendOrder es)"
  shows "db_inv (db\<lparr>cards_table := cs, versions_table := vs, events_table := es\<rparr>)"
  using assms by (simp add: db_inv_def)

definition version_ids :: "registry_db \<Rightarrow> string set" where
  "version_ids db = version_key ` set (versions_table db)"

definition card_versions :: "registry_db \<Rightarrow> string \<Rightarrow> card_version list" where
  "card_versions db k = map vr_version (filter (\<lambda>r. cv_cardId (vr_version r) = k) (versions_table db))"

lemma versions_in_order_id: "db_inv db \<Longrightarrow> versions_in_order db = versions_table db"
  by (simp add: versions_in_order_def sort_key_strict db_inv_def)

definition stored_card :: "registry_db \<Rightarrow> card_row \<Rightarrow> context_card" where
  "stored_card db row =
     \<lparr>cc_id = cr_cardId row, cc_meaning = cr_meaning row, cc_policy = cr_policy row,
      cc_versions = \<lparr>vh_cardId = cr_cardId row, vh_versions = card_versions db (cr_cardId row),
                     vh_currentVersionId = cr_currentVersionId row\<rparr>\<rparr>"

lemma stored_card_sel [simp]:
  "cc_id (stored_card db row) = cr_cardId row"
  "vh_cardId (cc_versions (stored_card db row)) = cr_cardId row"
  "vh_versions (cc_versions (stored_card db row)) = card_versions db (cr_cardId row)"
  "vh_currentVersionId (cc_versions (stored_card db row)) = cr_currentVersionId row"
  by (simp_all add: stored_card_def)

lemma findCard_eq:
  assumes "db_inv db"
  shows "findCard db k = map_option (stored_card db) (List.find (\<lambda>r. cr_cardId r = k) (cards_table db))"
  by (cases "List.find (\<lambda>r. cr_cardId r = k) (cards_table db)")
    (auto simp: findCard_def stored_card_def versions_in_order_id [OF assms] card_versions_def
       dest: find_Some_set)

lemma findCard_iff:
  assumes "db_inv db"
  shows "findCard db k = Some c \<longleftrightarrow>
    (\<exists>row \<in> set (cards_table db). cr_cardId row = k \<and> c = stored_card db row)"
  unfolding findCard_eq [OF assms] map_option_eq_Some find_key_iff [OF db_invD(1) [OF assms]]
  by auto

lemma findCard_None_iff: "findCard db k = None \<longleftrightarrow> k \<notin> cr_cardId ` set (cards_table db)"
  by (auto simp: findCard_def find_None_iff image_iff split: option.splits dest!: find_Some_set)

lemma card_versions_missing:
  "db_inv db \<Longrightarrow> findCard db k = None \<Longrightarrow> card_versions db k = []"
  by (auto simp: findCard_None_iff card_versions_def filter_empty_conv dest: db_invD(4))

lemma stored_versions_findCard:
  assumes "db_inv db"
  shows "stored_versions (findCard db k) = card_versions db k"
proof (cases "findCard db k")
  case None
  then show ?thesis using card_versions_missing [OF assms] by simp
next
  case (Some c)
  then show ?thesis using findCard_iff [OF assms, of k c] by auto
qed

lemma card_versions_distinct: "db_inv db \<Longrightarrow> distinct (map cv_id (card_versions db k))"
  using distinct_map_filter [OF db_invD(2), of db "\<lambda>r. cv_cardId (vr_version r) = k"]
  by (simp add: card_versions_def version_key_def [abs_def] comp_def)

lemma card_versions_mem:
  "v \<in> set (card_versions db k) \<longleftrightarrow> cv_cardId v = k \<and> (\<exists>r \<in> set (versions_table db). vr_version r = v)"
  by (auto simp: card_versions_def)

lemma pointer_ok_iff:
  "pointer_ok (versions_table db) c \<longleftrightarrow>
     (\<forall>i. cr_currentVersionId c = Some i \<longrightarrow>
        (\<exists>v \<in> set (card_versions db (cr_cardId c)). cv_id v = i \<and> cv_validationState v = Validated))"
  by (fastforce simp: pointer_ok_def card_versions_mem version_key_def)

lemma stored_card_wf:
  assumes "db_inv db" and "row \<in> set (cards_table db)"
  shows "card_wf (stored_card db row)"
  using card_versions_distinct [OF assms(1)] db_invD(5) [OF assms]
  by (auto simp: card_wf_def history_wf_def pointer_ok_iff card_versions_mem)

lemma findCard_wf: "db_inv db \<Longrightarrow> findCard db k = Some c \<Longrightarrow> cc_id c = k \<and> card_wf c"
  using stored_card_wf by (auto simp: findCard_iff)

section \<open>What a write changes\<close>

lemma stored_id_iff: "list_ex (\<lambda>r. version_key r = i) (versions_table db) \<longleftrightarrow> i \<in> version_ids db"
  unfolding version_ids_def list_ex_iff by blast

text \<open>The versions a save adds: those whose id is not stored, numbered after the stored ones.\<close>

lemma insert_versions_spec:
  assumes "distinct (map cv_id vs)"
    and "\<forall>v \<in> set vs. cv_cardId v \<in> cr_cardId ` set (cards_table db)"
    and "\<forall>r \<in> set (versions_table db). vr_appendOrder r < n"
    and "sorted_wrt (<) (map vr_appendOrder (versions_table db))"
  shows "\<exists>rows. insert_versions vs n db = Inr (db\<lparr>versions_table := versions_table db @ rows\<rparr>) \<and>
      map vr_version rows = filter (\<lambda>v. cv_id v \<notin> version_ids db) vs \<and>
      sorted_wrt (<) (map vr_appendOrder (versions_table db @ rows))"
  using assms
proof (induction vs arbitrary: n db)
  case Nil
  then show ?case by simp
next
  case (Cons v vs)
  show ?case
  proof (cases "cv_id v \<in> version_ids db")
    case True
    then have "list_ex (\<lambda>r. version_key r = cv_id v) (versions_table db)"
      by (simp add: stored_id_iff)
    then show ?thesis using Cons.IH [of db "Suc n"] Cons.prems True by (auto simp: less_Suc_eq)
  next
    case False
    let ?row = "\<lparr>vr_version = v, vr_appendOrder = n\<rparr>"
    let ?db = "db\<lparr>versions_table := versions_table db @ [?row]\<rparr>"
    have ids: "version_ids ?db = insert (cv_id v) (version_ids db)"
      by (auto simp: version_ids_def version_key_def)
    obtain rows where rows: "insert_versions vs (Suc n) ?db = Inr (?db\<lparr>versions_table := versions_table ?db @ rows\<rparr>)"
      "map vr_version rows = filter (\<lambda>v. cv_id v \<notin> version_ids ?db) vs"
      "sorted_wrt (<) (map vr_appendOrder (versions_table ?db @ rows))"
      using Cons.IH [of ?db "Suc n"] Cons.prems by (auto simp: less_Suc_eq sorted_wrt_append)
    have "filter (\<lambda>w. cv_id w \<notin> version_ids ?db) vs = filter (\<lambda>w. cv_id w \<notin> version_ids db) vs"
    proof (rule filter_cong [OF refl])
      fix w assume "w \<in> set vs"
      then have "cv_id w \<in> cv_id ` set vs" by (rule imageI)
      moreover have "cv_id v \<notin> cv_id ` set vs" using Cons.prems(1) by simp
      ultimately have "cv_id w \<noteq> cv_id v" by metis
      then show "(cv_id w \<notin> version_ids ?db) = (cv_id w \<notin> version_ids db)" by (simp add: ids)
    qed
    moreover have "\<not> list_ex (\<lambda>r. version_key r = cv_id v) (versions_table db)"
      using False by (simp add: stored_id_iff)
    moreover have "list_ex (\<lambda>r. cr_cardId r = cv_cardId v) (cards_table db)"
      using Cons.prems(2) by (auto simp: list_ex_iff)
    ultimately show ?thesis using rows False
      by (intro exI [of _ "?row # rows"]) simp
  qed
qed

lemma insert_events_spec:
  assumes "distinct (map event_key rows)" and "sorted_wrt (<) (map er_appendOrder rows)"
    and "\<forall>r \<in> set rows. er_appendOrder r < n"
  shows "\<exists>added. insert_events es n rows = rows @ added \<and>
      distinct (map event_key (rows @ added)) \<and> sorted_wrt (<) (map er_appendOrder (rows @ added)) \<and>
      (distinct (map le_id es) \<and> le_id ` set es \<inter> event_key ` set rows = {} \<longrightarrow> map er_event added = es) \<and>
      event_key ` set (rows @ added) = event_key ` set rows \<union> le_id ` set es"
  using assms
proof (induction es arbitrary: n rows)
  case Nil
  then show ?case by simp
next
  case (Cons e es)
  let ?row = "\<lparr>er_event = e, er_appendOrder = n\<rparr>"
  show ?case
  proof (cases "le_id e \<in> event_key ` set rows")
    case True
    then have "insert_or_ignore event_key ?row rows = rows"
      by (auto simp: insert_or_ignore_def list_ex_iff event_key_def)
    then show ?thesis using Cons.IH [of rows "Suc n"] Cons.prems True by (auto simp: less_Suc_eq)
  next
    case False
    then have new: "insert_or_ignore event_key ?row rows = rows @ [?row]"
      by (auto simp: insert_or_ignore_def list_ex_iff event_key_def image_iff)
    have "distinct (map event_key (rows @ [?row]))"
      using Cons.prems(1) False by (simp add: image_iff) (simp add: event_key_def)
    moreover have "sorted_wrt (<) (map er_appendOrder (rows @ [?row]))"
      using Cons.prems by (simp add: sorted_wrt_append)
    moreover have "\<forall>r \<in> set (rows @ [?row]). er_appendOrder r < Suc n"
      using Cons.prems(3) by (auto simp: less_Suc_eq)
    ultimately obtain added where added: "insert_events es (Suc n) (rows @ [?row]) = (rows @ [?row]) @ added"
      "distinct (map event_key ((rows @ [?row]) @ added))"
      "sorted_wrt (<) (map er_appendOrder ((rows @ [?row]) @ added))"
      "distinct (map le_id es) \<and> le_id ` set es \<inter> event_key ` set (rows @ [?row]) = {} \<longrightarrow> map er_event added = es"
      "event_key ` set ((rows @ [?row]) @ added) = event_key ` set (rows @ [?row]) \<union> le_id ` set es"
      using Cons.IH [of "rows @ [?row]" "Suc n"] by blast
    have k: "event_key ?row = le_id e" by (simp add: event_key_def)
    show ?thesis
    proof (intro exI [of _ "?row # added"] conjI)
      show "insert_events (e # es) n rows = rows @ ?row # added" using added(1) new by simp
      show "distinct (map event_key (rows @ ?row # added))" using added(2) by simp
      show "sorted_wrt (<) (map er_appendOrder (rows @ ?row # added))" using added(3) by simp
      show "distinct (map le_id (e # es)) \<and> le_id ` set (e # es) \<inter> event_key ` set rows = {} \<longrightarrow>
          map er_event (?row # added) = e # es"
        using added(4) k by auto
      show "event_key ` set (rows @ ?row # added) = event_key ` set rows \<union> le_id ` set (e # es)"
        using added(5) k by auto
    qed
  qed
qed

lemma pointer_ok_mono: "pointer_ok rows c \<Longrightarrow> pointer_ok (rows @ more_rows) c"
  unfolding pointer_ok_def by (metis UnCI set_append)

lemma writeCard_spec:
  assumes inv: "db_inv db"
    and w: "writable (findCard db (cc_id c)) (version_ids db) c"
  shows "\<exists>rows evs. writeCard db c es = Inr (db\<lparr>
        cards_table := upsert_row cr_cardId (card_row_of c) (cards_table db),
        versions_table := versions_table db @ rows, events_table := events_table db @ evs\<rparr>) \<and>
      vh_versions (cc_versions c) = card_versions db (cc_id c) @ map vr_version rows \<and>
      version_key ` set rows \<inter> version_ids db = {} \<and>
      (\<forall>r \<in> set rows. cv_cardId (vr_version r) = cc_id c) \<and>
      db_inv (db\<lparr>cards_table := upsert_row cr_cardId (card_row_of c) (cards_table db),
        versions_table := versions_table db @ rows, events_table := events_table db @ evs\<rparr>) \<and>
      (distinct (map le_id es) \<and> le_id ` set es \<inter> event_key ` set (events_table db) = {} \<longrightarrow>
        map er_event evs = es) \<and>
      event_key ` set (events_table db @ evs) = event_key ` set (events_table db) \<union> le_id ` set es"
proof -
  let ?k = "cc_id c" and ?vs = "vh_versions (cc_versions c)"
  let ?cards = "upsert_row cr_cardId (card_row_of c) (cards_table db)"
  let ?db1 = "db\<lparr>cards_table := ?cards\<rparr>"
  have wf: "vh_cardId (cc_versions c) = ?k" "history_wf (cc_versions c)"
    using w by (auto simp: writable_def card_wf_def)
  obtain added where added: "?vs = card_versions db ?k @ added" "cv_id ` set added \<inter> version_ids db = {}"
    using w stored_versions_findCard [OF inv] by (auto simp: writable_def)
  have own: "\<forall>v \<in> set ?vs. cv_cardId v = ?k" and dist: "distinct (map cv_id ?vs)"
    using wf by (auto simp: history_wf_def)
  have keys: "cr_cardId ` set ?cards = insert ?k (cr_cardId ` set (cards_table db))"
    by (simp add: upsert_keys card_row_of_def)
  obtain rows where rows:
    "insert_versions ?vs (nextAppendOrder (map vr_appendOrder (versions_table ?db1))) ?db1 =
       Inr (?db1\<lparr>versions_table := versions_table ?db1 @ rows\<rparr>)"
    "map vr_version rows = filter (\<lambda>v. cv_id v \<notin> version_ids ?db1) ?vs"
    "sorted_wrt (<) (map vr_appendOrder (versions_table ?db1 @ rows))"
    using insert_versions_spec [of ?vs ?db1 "nextAppendOrder (map vr_appendOrder (versions_table ?db1))"]
      own dist keys nextAppendOrder_greater [of _ "map vr_appendOrder (versions_table db)"] db_invD(3) [OF inv]
    by auto
  have "filter (\<lambda>v. cv_id v \<notin> version_ids db) (card_versions db ?k) = []"
    by (auto simp: filter_empty_conv version_ids_def card_versions_def version_key_def)
  moreover have "filter (\<lambda>v. cv_id v \<notin> version_ids db) added = added"
    using added(2) by (auto intro!: filter_True)
  ultimately have new: "map vr_version rows = added"
    using rows(2) added(1) by (simp add: version_ids_def)
  have lt: "\<forall>r \<in> set (events_table db). er_appendOrder r < nextAppendOrder (map er_appendOrder (events_table db))"
    using nextAppendOrder_greater [of _ "map er_appendOrder (events_table db)"] by simp
  obtain evs where evs:
    "insert_events es (nextAppendOrder (map er_appendOrder (events_table db))) (events_table db) = events_table db @ evs"
    "distinct (map event_key (events_table db @ evs))"
    "sorted_wrt (<) (map er_appendOrder (events_table db @ evs))"
    "distinct (map le_id es) \<and> le_id ` set es \<inter> event_key ` set (events_table db) = {} \<longrightarrow> map er_event evs = es"
    "event_key ` set (events_table db @ evs) = event_key ` set (events_table db) \<union> le_id ` set es"
    using insert_events_spec [OF db_invD(6,7) [OF inv] lt, of es] by blast
  let ?db' = "db\<lparr>cards_table := ?cards, versions_table := versions_table db @ rows,
                 events_table := events_table db @ evs\<rparr>"
  have res: "writeCard db c es = Inr ?db'"
    using rows(1) evs(1) by (simp add: writeCard_def Let_def appendLifecycleEvents_def)
  have "version_key ` set rows = cv_id ` set (map vr_version rows)"
    by (simp add: image_image version_key_def)
  then have row_ids: "version_key ` set rows = cv_id ` set added" by (simp only: new)
  have "\<forall>v \<in> set (map vr_version rows). cv_cardId v = ?k" unfolding new using own added(1) by simp
  then have row_cards: "\<forall>r \<in> set rows. cv_cardId (vr_version r) = ?k" by simp
  have "map version_key rows = map cv_id (map vr_version rows)"
    by (simp add: version_key_def)
  then have "distinct (map version_key rows)"
    using dist added(1) by (simp only: new) simp
  then have vdist: "distinct (map version_key (versions_table db @ rows))"
    using db_invD(2) [OF inv] added(2) by (auto simp: row_ids version_ids_def)
  have "pointer_ok (versions_table db @ rows) (card_row_of c)"
    unfolding pointer_ok_def
  proof (intro allI impI)
    fix i assume "cr_currentVersionId (card_row_of c) = Some i"
    then obtain v where v: "v \<in> set ?vs" "cv_id v = i" "cv_validationState v = Validated"
      using wf(2) by (auto simp: card_row_of_def history_wf_def)
    then have "v \<in> set (card_versions db ?k) \<or> v \<in> set (map vr_version rows)"
      unfolding new using added(1) by simp
    then have "v \<in> vr_version ` set (versions_table db @ rows)"
      by (auto simp: card_versions_def)
    then show "\<exists>r \<in> set (versions_table db @ rows). version_key r = i \<and>
        cv_cardId (vr_version r) = cr_cardId (card_row_of c) \<and> cv_validationState (vr_version r) = Validated"
      using v own by (auto simp: version_key_def card_row_of_def)
  qed
  then have ptr: "\<forall>r \<in> set ?cards. pointer_ok (versions_table db @ rows) r"
    using pointer_ok_mono [OF db_invD(5) [OF inv], of _ rows] by (auto simp: upsert_mem [OF db_invD(1) [OF inv]])
  have owners: "\<forall>r \<in> set (versions_table db @ rows). cv_cardId (vr_version r) \<in> cr_cardId ` set ?cards"
    unfolding keys using row_cards db_invD(4) [OF inv] by auto
  have "db_inv ?db'"
    using rows(3) by (intro db_inv_write inv upsert_distinct db_invD(1) vdist ptr owners evs(2,3)) simp
  moreover have "version_key ` set rows \<inter> version_ids db = {}" using row_ids added(2) by simp
  ultimately show ?thesis
    by (intro exI [of _ rows] exI [of _ evs] conjI res row_cards evs(4,5)) (simp_all only: new added(1))
qed

section \<open>The write as the contract sees it\<close>

lemma union_absorbed: "R \<union> C = V \<Longrightarrow> C \<subseteq> K \<Longrightarrow> I = K \<union> R \<Longrightarrow> I = K \<union> V"
  by blast

lemma card_versions_append:
  "card_versions (db\<lparr>cards_table := cs, versions_table := versions_table db @ rows, events_table := es\<rparr>) k =
     card_versions db k @ map vr_version (filter (\<lambda>r. cv_cardId (vr_version r) = k) rows)"
  by (simp add: card_versions_def)

lemma saveCard_spec:
  assumes inv: "db_inv db"
    and w: "writable (findCard db (cc_id c)) (version_ids db) c"
    and save: "saveCard db c es = Inr db'"
  shows "db_inv db'"
    and "findCard db' k = (if k = cc_id c then Some c else findCard db k)"
    and "version_ids db' = version_ids db \<union> cv_id ` set (vh_versions (cc_versions c))"
    and "checkpoints_table db' = checkpoints_table db" "cursors_table db' = cursors_table db"
    and "\<exists>rows. versions_table db' = versions_table db @ rows"
    and "event_key ` set (events_table db') = event_key ` set (events_table db) \<union> le_id ` set es"
    and "distinct (map le_id es) \<Longrightarrow> le_id ` set es \<inter> event_key ` set (events_table db) = {} \<Longrightarrow>
          map er_event (events_table db') = map er_event (events_table db) @ es"
proof -
  obtain rows evs where res: "writeCard db c es = Inr (db\<lparr>
        cards_table := upsert_row cr_cardId (card_row_of c) (cards_table db),
        versions_table := versions_table db @ rows, events_table := events_table db @ evs\<rparr>)"
    and vs: "vh_versions (cc_versions c) = card_versions db (cc_id c) @ map vr_version rows"
    and fresh: "version_key ` set rows \<inter> version_ids db = {}"
    and own: "\<forall>r \<in> set rows. cv_cardId (vr_version r) = cc_id c"
    and inv': "db_inv (db\<lparr>cards_table := upsert_row cr_cardId (card_row_of c) (cards_table db),
        versions_table := versions_table db @ rows, events_table := events_table db @ evs\<rparr>)"
    and evs: "distinct (map le_id es) \<and> le_id ` set es \<inter> event_key ` set (events_table db) = {} \<longrightarrow>
        map er_event evs = es"
      "event_key ` set (events_table db @ evs) = event_key ` set (events_table db) \<union> le_id ` set es"
    using writeCard_spec [OF inv w, of es] by (elim exE conjE) (rule that)
  have db': "db' = db\<lparr>cards_table := upsert_row cr_cardId (card_row_of c) (cards_table db),
        versions_table := versions_table db @ rows, events_table := events_table db @ evs\<rparr>"
    using save unfolding saveCard_def res by simp
  show "db_inv db'" unfolding db' by (rule inv')
  have "filter (\<lambda>r. cv_cardId (vr_version r) = k) rows = (if k = cc_id c then rows else [])" for k
  proof (cases "k = cc_id c")
    case True
    then have "\<forall>r \<in> set rows. cv_cardId (vr_version r) = k" using own by blast
    from filter_True [OF this] True show ?thesis by simp
  next
    case False
    then have "\<forall>r \<in> set rows. cv_cardId (vr_version r) \<noteq> k" using own by metis
    from filter_False [OF this] False show ?thesis by simp
  qed
  then have vers: "card_versions db' k = card_versions db k @ (if k = cc_id c then map vr_version rows else [])" for k
    by (simp add: db' card_versions_append)
  have wf: "vh_cardId (cc_versions c) = cc_id c" using w by (simp add: writable_def card_wf_def)
  have cards': "cards_table db' = upsert_row cr_cardId (card_row_of c) (cards_table db)" by (simp add: db')
  have same: "stored_card db' row = stored_card db row" if "cr_cardId row \<noteq> cc_id c" for row
    using that by (simp add: stored_card_def vers)
  have this_card: "stored_card db' (card_row_of c) = c"
    using wf vs by (simp add: stored_card_def vers card_row_of_def)
  have k: "cr_cardId (card_row_of c) = cc_id c" by (simp add: card_row_of_def)
  show "findCard db' k = (if k = cc_id c then Some c else findCard db k)"
    unfolding findCard_eq [OF \<open>db_inv db'\<close>] findCard_eq [OF inv] cards' find_upsert k
    using this_card same by (auto simp: map_option_case dest: find_Some_set split: option.split)
  have "version_key ` set rows \<union> cv_id ` set (card_versions db (cc_id c)) = cv_id ` set (vh_versions (cc_versions c))"
    unfolding vs by (simp add: image_Un image_image version_key_def Un_commute)
  moreover have "cv_id ` set (card_versions db (cc_id c)) \<subseteq> version_ids db"
    by (auto simp: card_versions_def version_ids_def version_key_def)
  moreover have "version_ids db' = version_ids db \<union> version_key ` set rows"
    by (simp add: db' version_ids_def image_Un)
  ultimately show "version_ids db' = version_ids db \<union> cv_id ` set (vh_versions (cc_versions c))"
    by (rule union_absorbed)
  show "checkpoints_table db' = checkpoints_table db" "cursors_table db' = cursors_table db"
    "\<exists>rows. versions_table db' = versions_table db @ rows"
    by (simp_all add: db')
  show "event_key ` set (events_table db') = event_key ` set (events_table db) \<union> le_id ` set es"
    using evs(2) by (simp add: db')
  show "distinct (map le_id es) \<Longrightarrow> le_id ` set es \<inter> event_key ` set (events_table db) = {} \<Longrightarrow>
      map er_event (events_table db') = map er_event (events_table db) @ es"
    using evs(1) by (simp add: db')
qed

section \<open>The catalog is the projection of the stored Cards\<close>

lemma current_rows_mem:
  assumes inv: "db_inv db"
  shows "(row, v) \<in> set (current_rows db) \<longleftrightarrow>
    row \<in> set (cards_table db) \<and> getCurrentCardVersion (cc_versions (stored_card db row)) = Some v"
proof -
  have "(row, v) \<in> set (current_rows db) \<longleftrightarrow> row \<in> set (cards_table db) \<and>
      (\<exists>r \<in> set (versions_table db). vr_version r = v \<and> cr_currentVersionId row = Some (cv_id v))"
    by (auto simp: current_rows_def versions_in_order_id [OF inv] version_key_def)
  also have "\<dots> \<longleftrightarrow> row \<in> set (cards_table db) \<and> v \<in> set (card_versions db (cr_cardId row)) \<and>
      cr_currentVersionId row = Some (cv_id v)"
  proof (intro conj_cong refl iffI; clarsimp)
    fix r assume row: "row \<in> set (cards_table db)" "cr_currentVersionId row = Some (cv_id (vr_version r))"
      and r: "r \<in> set (versions_table db)"
    obtain r' where r': "r' \<in> set (versions_table db)" "version_key r' = version_key r"
        "cv_cardId (vr_version r') = cr_cardId row"
      using db_invD(5) [OF inv row(1)] row(2) by (auto simp: pointer_ok_def version_key_def)
    then have "r' = r" using db_invD(2) [OF inv] r by (simp add: distinct_map inj_on_def)
    then show "vr_version r \<in> set (card_versions db (cr_cardId row))" using r r' by (auto simp: card_versions_mem)
  qed (auto simp: card_versions_mem)
  also have "\<dots> \<longleftrightarrow> row \<in> set (cards_table db) \<and> getCurrentCardVersion (cc_versions (stored_card db row)) = Some v"
    using getCurrentCardVersion_eq_Some [of "cc_versions (stored_card db row)" v] stored_card_wf [OF inv]
    by (auto simp: card_wf_def)
  finally show ?thesis .
qed

lemma entry_cardId: "toCardCatalogEntry c = Some e \<Longrightarrow> ce_cardId e = cc_id c"
  by (cases "getCurrentCardVersion (cc_versions c)") (auto simp: toCardCatalogEntry_def)

lemma approvedEntries_mem:
  assumes inv: "db_inv db"
  shows "e \<in> set (approvedEntries db) \<longleftrightarrow>
    (\<exists>c. findCard db (ce_cardId e) = Some c \<and> toCardCatalogEntry c = Some e)"
proof -
  have "e \<in> set (approvedEntries db) \<longleftrightarrow> (\<exists>row v. (row, v) \<in> set (current_rows db) \<and> e = entry_of_row (row, v))"
    by (auto simp: approvedEntries_def)
  also have "\<dots> \<longleftrightarrow> (\<exists>row \<in> set (cards_table db). toCardCatalogEntry (stored_card db row) = Some e)"
    unfolding current_rows_mem [OF inv]
    by (auto simp: toCardCatalogEntry_def entry_of_row_def split: option.split)
      (auto simp: stored_card_def)
  also have "\<dots> \<longleftrightarrow> (\<exists>c. findCard db (ce_cardId e) = Some c \<and> toCardCatalogEntry c = Some e)"
    unfolding findCard_iff [OF inv] using entry_cardId by fastforce
  finally show ?thesis .
qed

interpretation sqlite: card_store_contract sqlite_card_store version_ids db_inv
proof
  fix db :: registry_db and k :: string and c :: context_card and es :: "lifecycle_event list"
    and db' :: registry_db and e :: catalog_entry
  assume inv: "db_inv db"
  show "findCard_port sqlite_card_store db k = Some c \<Longrightarrow> cc_id c = k \<and> card_wf c"
    using findCard_wf [OF inv] by (simp add: sqlite_card_store_def)
  show "e \<in> set (listApprovedCards_port sqlite_card_store db) \<longleftrightarrow>
      (\<exists>c. findCard_port sqlite_card_store db (ce_cardId e) = Some c \<and> toCardCatalogEntry c = Some e)"
    using approvedEntries_mem [OF inv] by (simp add: sqlite_card_store_def)
  assume "writable (findCard_port sqlite_card_store db (cc_id c)) (version_ids db) c"
  then have w: "writable (findCard db (cc_id c)) (version_ids db) c" by (simp add: sqlite_card_store_def)
  show "\<exists>s'. saveCard_port sqlite_card_store db c es = Inr s'"
    using writeCard_spec [OF inv w, of es] by (auto simp: sqlite_card_store_def saveCard_def)
  assume "saveCard_port sqlite_card_store db c es = Inr db'"
  then have save: "saveCard db c es = Inr db'" by (simp add: sqlite_card_store_def)
  show "db_inv db'" by (rule saveCard_spec(1) [OF inv w save])
  show "findCard_port sqlite_card_store db' k =
      (if k = cc_id c then Some c else findCard_port sqlite_card_store db k)"
    using saveCard_spec(2) [OF inv w save] by (simp add: sqlite_card_store_def)
  show "version_ids db' = version_ids db \<union> cv_id ` set (vh_versions (cc_versions c))"
    by (rule saveCard_spec(3) [OF inv w save])
qed

end
