(* ===== verification/Intake_Laws.thy ===== *)
theory Intake_Laws
  imports Intake_Contract Registry_Store_Laws
begin

text \<open>
  The SQLite intake store keeps the contract of the intake ports: the one transaction of
  \<open>commitIntake\<close> writes every Card of the draft, the checkpoint and the cursor.
\<close>

section \<open>The commit loop\<close>

lemma committable_tail:
  assumes inv: "db_inv db" and c: "committable findCard (version_ids db) (ic # ics) db"
    and w: "writeCard db (ik_card ic) (ik_events ic) = Inr db1"
  shows "committable findCard (version_ids db1) ics db1"
proof -
  have wr: "writable (findCard db (cc_id (ik_card ic))) (version_ids db) (ik_card ic)"
    using c by (simp add: committable_def)
  note spec = saveCard_spec [OF inv wr, unfolded saveCard_def, OF w]
  have ne: "cc_id (ik_card ic) \<notin> (cc_id \<circ> ik_card) ` set ics"
    and each: "\<And>j. j \<in> set ics \<Longrightarrow> writable (findCard db (cc_id (ik_card j))) (version_ids db) (ik_card j)"
    and dist: "distinct (map (cc_id \<circ> ik_card) ics)"
    using c unfolding committable_def by simp_all
  have apart: "\<And>a b. a \<in> set (ic # ics) \<Longrightarrow> b \<in> set (ic # ics) \<Longrightarrow> a \<noteq> b \<Longrightarrow>
        cv_id ` set (vh_versions (cc_versions (ik_card a))) \<inter>
        cv_id ` set (vh_versions (cc_versions (ik_card b))) = {}"
    using c unfolding committable_def by blast
  have "writable (findCard db1 (cc_id (ik_card j))) (version_ids db1) (ik_card j)" if j: "j \<in> set ics" for j
  proof -
    have other: "cc_id (ik_card j) \<noteq> cc_id (ik_card ic)" using ne j by (metis comp_apply image_eqI)
    then have "j \<noteq> ic" by auto
    then have "cv_id ` set (vh_versions (cc_versions (ik_card j))) \<inter>
        cv_id ` set (vh_versions (cc_versions (ik_card ic))) = {}"
      using apart [of j ic] j by simp
    moreover obtain added where "card_wf (ik_card j)" "cv_id ` set added \<inter> version_ids db = {}"
        "vh_versions (cc_versions (ik_card j)) = stored_versions (findCard db (cc_id (ik_card j))) @ added"
      using each [OF j] by (auto simp: writable_def)
    ultimately show ?thesis
      using other unfolding writable_def spec(2,3) by (intro conjI exI [of _ added]) auto
  qed
  then show ?thesis using dist apart by (simp add: committable_def)
qed

lemma commit_cards:
  assumes "db_inv db" and "committable findCard (version_ids db) ics db"
  shows "\<exists>db'. res_fold (\<lambda>ic d. writeCard d (ik_card ic) (ik_events ic)) ics db = Inr db' \<and> db_inv db' \<and>
    (\<forall>k. findCard db' k = committed findCard ics db k) \<and>
    version_ids db' = version_ids db \<union> (\<Union>ic \<in> set ics. cv_id ` set (vh_versions (cc_versions (ik_card ic)))) \<and>
    checkpoints_table db' = checkpoints_table db \<and> cursors_table db' = cursors_table db"
  using assms
proof (induction ics arbitrary: db)
  case Nil
  then show ?case by (simp add: committed_def)
next
  case (Cons ic ics)
  have wr: "writable (findCard db (cc_id (ik_card ic))) (version_ids db) (ik_card ic)"
    using Cons.prems(2) by (simp add: committable_def)
  obtain db1 where w: "writeCard db (ik_card ic) (ik_events ic) = Inr db1"
    using writeCard_spec [OF Cons.prems(1) wr, of "ik_events ic"] by (elim exE conjE) (rule that)
  note spec = saveCard_spec [OF Cons.prems(1) wr, unfolded saveCard_def, OF w]
  obtain db' where db': "res_fold (\<lambda>ic d. writeCard d (ik_card ic) (ik_events ic)) ics db1 = Inr db'" "db_inv db'"
    "\<forall>k. findCard db' k = committed findCard ics db1 k"
    "version_ids db' = version_ids db1 \<union> (\<Union>ic \<in> set ics. cv_id ` set (vh_versions (cc_versions (ik_card ic))))"
    "checkpoints_table db' = checkpoints_table db1" "cursors_table db' = cursors_table db1"
    using Cons.IH [OF spec(1) committable_tail [OF Cons.prems w]] by (elim exE conjE) (rule that)
  have "cc_id (ik_card ic) \<notin> (cc_id \<circ> ik_card) ` set ics"
    using Cons.prems(2) by (simp add: committable_def)
  then have none: "List.find (\<lambda>j. cc_id (ik_card j) = cc_id (ik_card ic)) ics = None"
    by (auto simp: find_None_iff image_iff)
  have "committed findCard ics db1 k = committed findCard (ic # ics) db k" for k
    using none by (auto simp: committed_def spec(2) split: option.split)
  moreover have "version_ids db' = version_ids db \<union>
      (\<Union>j \<in> set (ic # ics). cv_id ` set (vh_versions (cc_versions (ik_card j))))"
    unfolding db'(4) spec(3) by (simp add: Un_assoc)
  ultimately show ?case using w db' spec(4,5) by simp
qed

section \<open>Consumption rows\<close>

lemma writeConsumption_tables [simp]:
  "cards_table (writeConsumption db cursor t) = cards_table db"
  "versions_table (writeConsumption db cursor t) = versions_table db"
  "events_table (writeConsumption db cursor t) = events_table db"
  by (simp_all add: writeConsumption_def)

lemma findCard_writeConsumption [simp]: "findCard (writeConsumption db cursor t) k = findCard db k"
  by (simp add: findCard_def versions_in_order_def cong: option.case_cong)

lemma version_ids_writeConsumption [simp]: "version_ids (writeConsumption db cursor t) = version_ids db"
  by (simp add: version_ids_def)

lemma hasProcessed_iff: "hasProcessed db p \<longleftrightarrow> p \<in> kr_publicationId ` set (checkpoints_table db)"
  unfolding hasProcessed_def list_ex_iff by blast

lemma hasProcessed_writeConsumption:
  "hasProcessed (writeConsumption db cursor t) p \<longleftrightarrow> hasProcessed db p \<or> p = cur_publicationId cursor"
  unfolding hasProcessed_iff writeConsumption_def by (simp add: insert_or_ignore_keys) blast

lemma findCursor_writeConsumption:
  "findCursor (writeConsumption db cursor t) src =
     (if src = cur_sourceId cursor then Some cursor else findCursor db src)"
  by (simp add: findCursor_def writeConsumption_def find_upsert toCursor_def)

lemma db_inv_writeConsumption:
  assumes "db_inv db"
  shows "db_inv (writeConsumption db cursor t)"
proof -
  note d = db_invD [OF assms]
  let ?db = "writeConsumption db cursor t"
  have "distinct (map kr_publicationId (checkpoints_table ?db))"
    using insert_or_ignore_distinct [OF d(8)] by (simp add: writeConsumption_def)
  moreover have "distinct (map ur_sourceId (cursors_table ?db))"
    using upsert_distinct [OF d(9)] by (simp add: writeConsumption_def)
  moreover have "\<forall>u \<in> set (cursors_table ?db). ur_publicationId u \<in> kr_publicationId ` set (checkpoints_table ?db)"
    using d(10) upsert_mem [OF d(9)] by (auto simp: writeConsumption_def insert_or_ignore_keys)
  ultimately show ?thesis using assms by (simp add: db_inv_def)
qed

section \<open>The interpretation\<close>

lemma card_ids_known: "cv_id ` set (card_versions db k) \<subseteq> version_ids db"
  by (auto simp: card_versions_def version_ids_def version_key_def)

lemma card_ids_disjoint:
  assumes inv: "db_inv db" and "j \<noteq> k"
  shows "cv_id ` set (card_versions db j) \<inter> cv_id ` set (card_versions db k) = {}"
proof (rule ccontr)
  assume "\<not> ?thesis"
  then obtain a b where a: "a \<in> set (versions_table db)" "cv_cardId (vr_version a) = j"
    and b: "b \<in> set (versions_table db)" "cv_cardId (vr_version b) = k" and eq: "version_key a = version_key b"
    by (force simp: card_versions_def version_key_def)
  then have "a = b" using db_invD(2) [OF inv] by (simp add: distinct_map inj_on_def)
  then show False using a b assms(2) by simp
qed

lemma listCurrentVersions_mem:
  assumes inv: "db_inv db"
  shows "v \<in> set (listCurrentVersions db) \<longleftrightarrow>
    (\<exists>k c. findCard db k = Some c \<and> getCurrentCardVersion (cc_versions c) = Some v)"
proof -
  have "v \<in> set (listCurrentVersions db) \<longleftrightarrow> (\<exists>row. (row, v) \<in> set (current_rows db))"
    unfolding listCurrentVersions_def by force
  also have "\<dots> \<longleftrightarrow> (\<exists>k c. findCard db k = Some c \<and> getCurrentCardVersion (cc_versions c) = Some v)"
    unfolding current_rows_mem [OF inv] findCard_iff [OF inv] by blast
  finally show ?thesis .
qed

interpretation intake: intake_contract "sqlite_intake_ports publications generate" version_ids db_inv
  for publications generate
proof (intro intake_contract.intro intake_contract_axioms.intro, goal_cases)
  case 1
  then show ?case using sqlite.card_store_contract_axioms by (simp add: sqlite_intake_ports_def)
next
  case (2 s k c)
  then show ?case
    using card_ids_known [of s k] by (auto simp: sqlite_intake_ports_def sqlite_card_store_def findCard_iff)
next
  case (3 s j b k c)
  then show ?case
    using card_ids_disjoint [of s j k] by (clarsimp simp: sqlite_intake_ports_def sqlite_card_store_def findCard_iff)
next
  case (4 s v)
  then show ?case using listCurrentVersions_mem by (simp add: sqlite_intake_ports_def sqlite_card_store_def)
next
  case (5 s intake t)
  then have com: "committable findCard (version_ids s) (pi_cards intake) s"
    by (simp add: sqlite_intake_ports_def sqlite_card_store_def)
  obtain db' where db': "res_fold (\<lambda>ic d. writeCard d (ik_card ic) (ik_events ic)) (pi_cards intake) s = Inr db'"
    "db_inv db'" "\<forall>k. findCard db' k = committed findCard (pi_cards intake) s k"
    "version_ids db' = version_ids s \<union> (\<Union>ic \<in> set (pi_cards intake). cv_id ` set (vh_versions (cc_versions (ik_card ic))))"
    "checkpoints_table db' = checkpoints_table s" "cursors_table db' = cursors_table s"
    using commit_cards [OF 5(1) com] by (elim exE conjE) (rule that)
  have "hasProcessed db' p = hasProcessed s p" "findCursor db' src = findCursor s src" for p src
    by (simp_all add: hasProcessed_def findCursor_def db'(5,6))
  then show ?case
    using db' db_inv_writeConsumption [OF db'(2)]
    by (simp add: sqlite_intake_ports_def sqlite_card_store_def commitIntake_def
        hasProcessed_writeConsumption findCursor_writeConsumption)
qed

end
