(* ===== verification/Registry_Safety.thy ===== *)
theory Registry_Safety
  imports Intake_Laws
begin

text \<open>
  The registry as a state machine: the operator's decisions and the intakes of Publications
  as steps over registry.db, the states they reach from an empty database, and what holds in
  every such state whatever the order of the steps.
\<close>

section \<open>Steps\<close>

datatype command =
    ApproveVersion string string operator_decision
  | RollbackVersion string string operator_decision
  | RejectVersion string string operator_decision
  | DisableCard string operator_decision
  | TakeInPublication string card_policy

type_synonym publications = "string \<Rightarrow> publication option"
type_synonym generator =
  "nat \<Rightarrow> source_coordinate \<Rightarrow> published_fact list \<Rightarrow> registry_error + (card_meaning \<times> meaning_origin)"

definition drop_card :: "registry_error + (context_card \<times> registry_db \<times> supplies) \<Rightarrow> registry_error + (registry_db \<times> supplies)" where
  "drop_card r = res_bind r (\<lambda>(_, db, sp). Inr (db, sp))"

fun run_command ::
    "publications \<Rightarrow> generator \<Rightarrow> env \<Rightarrow> command \<Rightarrow> registry_db \<times> supplies \<Rightarrow> registry_error + (registry_db \<times> supplies)" where
  "run_command pubs gen env (ApproveVersion k i d) (db, sp) =
     drop_card (approveCardVersion sqlite_card_store env sp db k i d)"
| "run_command pubs gen env (RollbackVersion k i d) (db, sp) =
     drop_card (rollbackCardVersion sqlite_card_store env sp db k i d)"
| "run_command pubs gen env (RejectVersion k i d) (db, sp) =
     drop_card (rejectCardVersion sqlite_card_store env sp db k i d)"
| "run_command pubs gen env (DisableCard k d) (db, sp) =
     drop_card (disableCard sqlite_card_store env sp db k d)"
| "run_command pubs gen env (TakeInPublication p policy) (db, sp) =
     res_bind (intakePublication (sqlite_intake_ports pubs gen) env sp db p policy)
       (\<lambda>(_, db', sp'). Inr (db', sp'))"

text \<open>
  A use case that throws leaves the database as it was (its transaction, if it opened one,
  rolled back), and may have drawn ids before it threw.
\<close>

inductive registry_step ::
    "publications \<Rightarrow> generator \<Rightarrow> env \<Rightarrow> registry_db \<times> supplies \<Rightarrow> command \<Rightarrow> registry_db \<times> supplies \<Rightarrow> bool"
  for pubs gen env where
  performed: "run_command pubs gen env cmd (db, sp) = Inr (db', sp') \<Longrightarrow>
     registry_step pubs gen env (db, sp) cmd (db', sp')"
| thrown: "run_command pubs gen env cmd (db, sp) = Inl err \<Longrightarrow> ids_drawn sp \<le> ids_drawn sp' \<Longrightarrow>
     registry_step pubs gen env (db, sp) cmd (db, sp')"

inductive_cases registry_stepE: "registry_step pubs gen env (db, sp) cmd (db', sp')"

lemma registry_step_elim:
  assumes "registry_step pubs gen env (db, sp) cmd (db', sp')"
  obtains (performed) "run_command pubs gen env cmd (db, sp) = Inr (db', sp')"
    | (thrown) err where "run_command pubs gen env cmd (db, sp) = Inl err" "db' = db" "ids_drawn sp \<le> ids_drawn sp'"
  using assms by (auto elim: registry_stepE)

inductive reached ::
    "publications \<Rightarrow> generator \<Rightarrow> env \<Rightarrow> command list \<Rightarrow> registry_db \<times> supplies \<Rightarrow> bool"
  for pubs gen env where
  start: "reached pubs gen env [] (empty_db, sp)"
| step: "reached pubs gen env cmds s \<Longrightarrow> registry_step pubs gen env s cmd s' \<Longrightarrow>
     reached pubs gen env (cmds @ [cmd]) s'"

text \<open>Steps from a given state, newest last.\<close>

inductive registry_steps ::
    "publications \<Rightarrow> generator \<Rightarrow> env \<Rightarrow> registry_db \<times> supplies \<Rightarrow> command list \<Rightarrow> registry_db \<times> supplies \<Rightarrow> bool"
  for pubs gen env where
  none: "registry_steps pubs gen env s [] s"
| more: "registry_steps pubs gen env s cmds s' \<Longrightarrow> registry_step pubs gen env s' cmd s'' \<Longrightarrow>
     registry_steps pubs gen env s (cmds @ [cmd]) s''"

lemma reached_steps:
  assumes "registry_steps pubs gen env s later s'" and "reached pubs gen env cmds s"
  shows "reached pubs gen env (cmds @ later) s'"
  using assms
proof (induction rule: registry_steps.induct)
  case (more s later s' cmd s'')
  have "reached pubs gen env ((cmds @ later) @ [cmd]) s''"
    by (rule reached.step [OF more.IH [OF more.prems] more.hyps(2)])
  then show ?case by simp
qed simp

section \<open>Reading a Card's history and pointer\<close>

definition current_of :: "registry_db \<Rightarrow> string \<Rightarrow> string option" where
  "current_of db k = Option.bind (findCard db k) (\<lambda>c. vh_currentVersionId (cc_versions c))"

definition history_of :: "registry_db \<Rightarrow> string \<Rightarrow> card_version list" where
  "history_of db k = stored_versions (findCard db k)"

lemma current_of_simps [simp]:
  "findCard db k = None \<Longrightarrow> current_of db k = None"
  "findCard db k = Some c \<Longrightarrow> current_of db k = vh_currentVersionId (cc_versions c)"
  by (simp_all add: current_of_def)

lemma history_of_simps [simp]:
  "findCard db k = None \<Longrightarrow> history_of db k = []"
  "findCard db k = Some c \<Longrightarrow> history_of db k = vh_versions (cc_versions c)"
  by (simp_all add: history_of_def)

lemma look_sqlite [simp]:
  "findCard_port sqlite_card_store = findCard" "listCurrentVersions_port sqlite_card_store = listCurrentVersions"
  "listApprovedCards_port sqlite_card_store = approvedEntries" "saveCard_port sqlite_card_store = saveCard"
  "ip_cards (sqlite_intake_ports pubs gen) = sqlite_card_store"
  "hasProcessed_port (sqlite_intake_ports pubs gen) = hasProcessed"
  "findCursor_port (sqlite_intake_ports pubs gen) = findCursor"
  "findById_port (sqlite_intake_ports pubs gen) = pubs"
  "commit_port (sqlite_intake_ports pubs gen) = commitIntake"
  "generate_port (sqlite_intake_ports pubs gen) = gen"
  by (simp_all add: sqlite_card_store_def sqlite_intake_ports_def)

section \<open>What every successful use case leaves\<close>

text \<open>\<open>db'\<close> has the Cards of \<open>db\<close> with card \<open>k\<close> replaced by \<open>c\<close>.\<close>

definition replaced :: "registry_db \<Rightarrow> string \<Rightarrow> context_card \<Rightarrow> registry_db \<Rightarrow> bool" where
  "replaced db k c db' \<longleftrightarrow> db_inv db' \<and> (\<forall>j. findCard db' j = (if j = k then Some c else findCard db j))"

lemma replaced_current: "replaced db k c db' \<Longrightarrow>
    current_of db' j = (if j = k then vh_currentVersionId (cc_versions c) else current_of db j)"
  by (simp add: replaced_def current_of_def)

lemma replaced_history: "replaced db k c db' \<Longrightarrow>
    history_of db' j = (if j = k then vh_versions (cc_versions c) else history_of db j)"
  by (simp add: replaced_def history_of_def)

lemma approve_sqlite:
  assumes "db_inv db" and "approveCardVersion sqlite_card_store env sp db k i d = Inr (c, db', sp')"
  shows "\<exists>c0 h. findCard db k = Some c0 \<and> promoteCardVersion (cc_versions c0) i = Inr h \<and>
    c = promotedCard c0 h i \<and> refuseOversizedCatalog sqlite_card_store db c = Inr () \<and> replaced db k c db'"
  using sqlite.approve [OF assms] by (simp add: replaced_def cong: if_cong)

lemma rollback_sqlite:
  assumes "db_inv db" and "rollbackCardVersion sqlite_card_store env sp db k i d = Inr (c, db', sp')"
  shows "approveCardVersion sqlite_card_store env sp db k i d = Inr (c, db', sp') \<and>
    (\<exists>c0. findCard db k = Some c0 \<and> precedesCurrentCardVersion (cc_versions c0) i)"
  using sqlite.rollback [OF assms] by simp

lemma reject_sqlite:
  assumes "db_inv db" and "rejectCardVersion sqlite_card_store env sp db k i d = Inr (c, db', sp')"
  shows "findCard db k = Some c \<and> i \<in> cv_id ` set (history_of db k) \<and> replaced db k c db'"
  using sqlite.reject [OF assms] by (auto simp: replaced_def cong: if_cong)

lemma disable_sqlite:
  assumes "db_inv db" and "disableCard sqlite_card_store env sp db k d = Inr (c, db', sp')"
  shows "\<exists>c0. findCard db k = Some c0 \<and>
    c = withCardVersions c0 (withdrawCurrentVersion (cc_versions c0)) \<and> replaced db k c db'"
  using sqlite.disable [OF assms] by (simp add: replaced_def cong: if_cong)

section \<open>The result of an intake\<close>

lemma claim_cases:
  assumes "claimPublication ports env sp s pid = Inr (r, sp')"
  obtains (already) "r = AlreadyClaimed pid" "hasProcessed_port ports s pid" "sp' = sp"
    | (refused) p where "\<not> hasProcessed_port ports s pid" "findById_port ports pid = Some p" "sp' = sp"
        "refuse pid (pub_sourceId p) (locateInChain (findCursor_port ports s (pub_sourceId p)) (link_of p)) = Some r"
    | (claimed) p cvs where "\<not> hasProcessed_port ports s pid" "findById_port ports pid = Some p"
        "consumable (locateInChain (findCursor_port ports s (pub_sourceId p)) (link_of p))"
        "toCardVersions ports env p (fst (now env sp)) (pub_knowledgeUnits p) (snd (now env sp)) = Inr (cvs, sp')"
        "r = Claimed pid \<lparr>cur_sourceId = pub_sourceId p, cur_publicationId = pid\<rparr> cvs"
proof (cases "hasProcessed_port ports s pid")
  case True
  then show ?thesis using assms already by (simp add: claimPublication_def)
next
  case False
  then obtain p where p: "findById_port ports pid = Some p"
    using assms by (auto simp: claimPublication_def split: option.splits)
  show ?thesis
  proof (cases "refuse pid (pub_sourceId p) (locateInChain (findCursor_port ports s (pub_sourceId p)) (link_of p))")
    case None
    then have "consumable (locateInChain (findCursor_port ports s (pub_sourceId p)) (link_of p))"
      by (auto simp: refuse_def consumable_def split: chain_position.splits)
    moreover obtain cvs where
      "toCardVersions ports env p (fst (now env sp)) (pub_knowledgeUnits p) (snd (now env sp)) = Inr (cvs, sp')"
      "r = Claimed pid \<lparr>cur_sourceId = pub_sourceId p, cur_publicationId = pid\<rparr> cvs"
      using assms False p None by (auto simp: claimPublication_def Let_def case_prod_beta res_bind_eq_Inr)
    ultimately show ?thesis using claimed False p by blast
  next
    case (Some x)
    then show ?thesis using assms False p refused by (auto simp: claimPublication_def Let_def)
  qed
qed

definition is_claimed :: "claim_result \<Rightarrow> bool" where
  "is_claimed r = (case r of Claimed _ _ _ \<Rightarrow> True | _ \<Rightarrow> False)"

lemma refuse_not_claimed: "refuse pid src pos = Some r \<Longrightarrow> \<not> is_claimed r"
  by (auto simp: refuse_def is_claimed_def split: chain_position.splits)

lemma intake_not_claimed:
  assumes "intakePublication ports env sp s pid policy = Inr (r, s', sp')" and "\<not> is_claimed r"
  shows "s' = s \<and> sp' = sp"
proof -
  obtain r0 sp0 where c: "claimPublication ports env sp s pid = Inr (r0, sp0)"
    using assms(1) by (auto simp: intakePublication_def res_bind_eq_Inr)
  have "\<not> is_claimed r0 \<Longrightarrow> sp0 = sp"
    using c by (cases rule: claim_cases) (auto simp: is_claimed_def)
  then show ?thesis
    using assms c by (cases r0) (auto simp: intakePublication_def is_claimed_def Let_def
        split: option.splits prod.splits elim!: res_bindE)
qed

lemma intake_claimed:
  assumes "intakePublication ports env sp s pid policy = Inr (r, s', sp')" and "is_claimed r"
  shows "\<not> hasProcessed_port ports s pid \<and>
    (\<exists>p cvs sp2. findById_port ports pid = Some p \<and>
      consumable (locateInChain (findCursor_port ports s (pub_sourceId p)) (link_of p)) \<and>
      toCardVersions ports env p (fst (now env sp)) (pub_knowledgeUnits p) (snd (now env sp)) = Inr (cvs, sp2) \<and>
      r = Claimed pid \<lparr>cur_sourceId = pub_sourceId p, cur_publicationId = pid\<rparr> cvs)"
proof -
  obtain r0 sp0 where c: "claimPublication ports env sp s pid = Inr (r0, sp0)"
    using assms(1) by (auto simp: intakePublication_def res_bind_eq_Inr)
  have "r = r0"
    using assms(1) c by (cases r0) (auto simp: intakePublication_def Let_def
        split: option.splits prod.splits elim!: res_bindE)
  with c assms(2) show ?thesis
    by (cases rule: claim_cases) (auto simp: is_claimed_def dest: refuse_not_claimed)
qed

section \<open>The invariant of every reachable registry\<close>

definition registry_inv :: "env \<Rightarrow> registry_db \<times> supplies \<Rightarrow> bool" where
  "registry_inv env = (\<lambda>(db, sp). db_inv db \<and> version_ids db \<subseteq> id_source env ` {..< ids_drawn sp})"

text \<open>What a committed intake did, and nothing else.\<close>

definition taken_in ::
    "registry_db \<Rightarrow> publication \<Rightarrow> string \<Rightarrow> card_policy \<Rightarrow> claimed_version list \<Rightarrow> registry_db \<Rightarrow> bool" where
  "taken_in db p pid policy cvs db' \<longleftrightarrow>
     (\<forall>k. findCard db' k = card_after_intake sqlite_card_store db policy cvs
            (publicationImpacts p (listCurrentVersions db)) k) \<and>
     (\<forall>q. hasProcessed db' q \<longleftrightarrow> hasProcessed db q \<or> q = pid) \<and>
     (\<forall>src. findCursor db' src =
        (if src = pub_sourceId p then Some \<lparr>cur_sourceId = pub_sourceId p, cur_publicationId = pid\<rparr>
         else findCursor db src))"

lemma intake_sqlite:
  assumes inv: "registry_inv env (db, sp)" and inj: "inj (id_source env)"
    and ok: "intakePublication (sqlite_intake_ports pubs gen) env sp db pid policy = Inr (r, db', sp')"
    and claimed: "is_claimed r"
  shows "\<exists>p cvs. pubs pid = Some p \<and> \<not> hasProcessed db pid \<and>
    consumable (locateInChain (findCursor db (pub_sourceId p)) (link_of p)) \<and>
    r = Claimed pid \<lparr>cur_sourceId = pub_sourceId p, cur_publicationId = pid\<rparr> cvs \<and>
    taken_in db p pid policy cvs db' \<and> registry_inv env (db', sp') \<and> ids_drawn sp \<le> ids_drawn sp' \<and>
    map (cv_cardId \<circ> kv_version) cvs = map ku_id (pub_knowledgeUnits p) \<and>
    (\<forall>cv \<in> set cvs. cv_id (kv_version cv) \<notin> version_ids db)"
proof -
  obtain p cvs sp2 where new: "\<not> hasProcessed db pid" and p: "pubs pid = Some p"
    and pos: "consumable (locateInChain (findCursor db (pub_sourceId p)) (link_of p))"
    and gen: "toCardVersions (sqlite_intake_ports pubs gen) env p (fst (now env sp))
                (pub_knowledgeUnits p) (snd (now env sp)) = Inr (cvs, sp2)"
    and r: "r = Claimed pid \<lparr>cur_sourceId = pub_sourceId p, cur_publicationId = pid\<rparr> cvs"
    using intake_claimed [OF ok claimed] by auto
  have dbi: "db_inv db" and drawn: "version_ids db \<subseteq> id_source env ` {..< ids_drawn sp}"
    using inv by (auto simp: registry_inv_def)
  have fresh: "id_source env n \<notin> version_ids db" if "ids_drawn sp \<le> n" for n
  proof
    assume "id_source env n \<in> version_ids db"
    then obtain m where "m < ids_drawn sp" "id_source env n = id_source env m" using drawn by blast
    then show False using that injD [OF inj, of n m] by simp
  qed
  obtain t spt where run: "intakePublication (sqlite_intake_ports pubs gen) env sp db pid policy =
        Inr (Claimed pid \<lparr>cur_sourceId = pub_sourceId p, cur_publicationId = pid\<rparr> cvs, t, spt)"
    and t: "db_inv t" "taken_in db p pid policy cvs t"
      "version_ids t \<subseteq> version_ids db \<union> id_source env ` {ids_drawn sp ..< ids_drawn spt}"
      "ids_drawn sp \<le> ids_drawn spt"
    using intake.intake_commits [of db pubs gen pid p env sp cvs sp2 policy, simplified look_sqlite,
        OF dbi new p pos gen inj_on_subset [OF inj subset_UNIV] fresh] by (auto simp: taken_in_def)
  have eq: "t = db'" "spt = sp'" using run ok by auto
  have "version_ids db' \<subseteq> id_source env ` {..< ids_drawn sp'}"
  proof
    fix i assume "i \<in> version_ids db'"
    then have "i \<in> id_source env ` {..< ids_drawn sp} \<union> id_source env ` {ids_drawn sp ..< ids_drawn sp'}"
      using t(3) drawn unfolding eq by blast
    then show "i \<in> id_source env ` {..< ids_drawn sp'}" using t(4) unfolding eq by auto
  qed
  moreover have "(cv_id \<circ> kv_version) cv \<notin> version_ids db" if "cv \<in> set cvs" for cv
  proof -
    have "(cv_id \<circ> kv_version) cv \<in> set (map (cv_id \<circ> kv_version) cvs)" using that by simp
    then have "(cv_id \<circ> kv_version) cv \<in> id_source env ` {ids_drawn sp ..< ids_drawn sp + length (pub_knowledgeUnits p)}"
      unfolding conjunct1 [OF toCardVersions_ids [OF gen]] by (simp add: now_def)
    then show ?thesis using fresh by auto
  qed
  ultimately show ?thesis
    using p new pos r t eq toCardVersions_ids [OF gen] by (simp add: registry_inv_def)
qed

section \<open>What one step may change\<close>

lemma history_eq_card_versions: "db_inv db \<Longrightarrow> history_of db k = card_versions db k"
  by (simp add: history_of_def stored_versions_findCard)

lemma version_ids_history:
  assumes "db_inv db"
  shows "version_ids db = (\<Union>k. cv_id ` set (history_of db k))"
  by (auto simp: history_eq_card_versions [OF assms] card_versions_def version_ids_def version_key_def)

lemma approve_draws:
  "approveCardVersion cards env sp s k i d = Inr (c, s', sp') \<Longrightarrow> ids_drawn sp' = Suc (ids_drawn sp)"
  by (auto simp: approveCardVersion_def saveDecision_def nextId_def now_def Let_def elim!: res_bindE)

lemma reject_draws:
  "rejectCardVersion cards env sp s k i d = Inr (c, s', sp') \<Longrightarrow> ids_drawn sp' = Suc (ids_drawn sp)"
  by (auto simp: rejectCardVersion_def saveDecision_def nextId_def now_def Let_def elim!: res_bindE split: if_splits)

lemma disable_draws:
  "disableCard cards env sp s k d = Inr (c, s', sp') \<Longrightarrow> ids_drawn sp' = Suc (ids_drawn sp)"
  by (auto simp: disableCard_def saveDecision_def nextId_def now_def Let_def elim!: res_bindE)

text \<open>
  The three things a step may do: replace one Card by itself with another pointer, take a
  Publication in, or leave the database as it was.
\<close>

definition decision_effect :: "command \<Rightarrow> registry_db \<Rightarrow> registry_db \<Rightarrow> bool" where
  "decision_effect cmd db db' \<longleftrightarrow> (\<exists>k c0 c.
     findCard db k = Some c0 \<and> replaced db k c db' \<and>
     vh_versions (cc_versions c) = vh_versions (cc_versions c0) \<and>
     checkpoints_table db' = checkpoints_table db \<and> cursors_table db' = cursors_table db \<and>
     (case vh_currentVersionId (cc_versions c) of
        None \<Rightarrow> True
      | Some i \<Rightarrow> vh_currentVersionId (cc_versions c0) = Some i \<or>
          (\<exists>d. cmd = ApproveVersion k i d \<or> cmd = RollbackVersion k i d)))"

lemma decision_effectI:
  assumes "findCard db k = Some c0" and "replaced db k c db'"
    and "vh_versions (cc_versions c) = vh_versions (cc_versions c0)"
    and "checkpoints_table db' = checkpoints_table db \<and> cursors_table db' = cursors_table db"
    and "vh_currentVersionId (cc_versions c) = None \<or>
         vh_currentVersionId (cc_versions c) = vh_currentVersionId (cc_versions c0) \<or>
         (\<exists>i d. vh_currentVersionId (cc_versions c) = Some i \<and>
            (cmd = ApproveVersion k i d \<or> cmd = RollbackVersion k i d))"
  shows "decision_effect cmd db db'"
  unfolding decision_effect_def using assms
  by (intro exI [of _ k] exI [of _ c0] exI [of _ c]) (auto split: option.split)

lemma saveDecision_consumption:
  assumes inv: "db_inv db" and c0: "findCard db (cc_id c) = Some c0" and wf: "card_wf c"
    and vs: "vh_versions (cc_versions c) = vh_versions (cc_versions c0)"
    and save: "saveCard db c es = Inr db'"
  shows "checkpoints_table db' = checkpoints_table db \<and> cursors_table db' = cursors_table db"
proof -
  have w: "writable (findCard db (cc_id c)) (version_ids db) c"
    using c0 wf vs by (simp add: writable_same_versions)
  from saveCard_spec(4,5) [OF inv w save] show ?thesis by simp
qed

lemma reject_saves:
  "rejectCardVersion cards env sp s k i d = Inr (c, s', sp') \<Longrightarrow>
   saveCard_port cards s c [\<lparr>le_id = id_source env (ids_drawn sp), le_cardId = k,
       le_occurredAt = clock_source env (clock_reads sp),
       le_body = CardVersionRefused i (od_decidedBy d) (od_note d)\<rparr>] = Inr s'"
  by (auto simp: rejectCardVersion_def saveDecision_def nextId_def now_def Let_def split: if_splits elim!: res_bindE)

lemma disable_saves:
  "disableCard cards env sp s k d = Inr (c, s', sp') \<Longrightarrow>
   \<exists>c0. findCard_port cards s k = Some c0 \<and>
     saveCard_port cards s c [\<lparr>le_id = id_source env (ids_drawn sp), le_cardId = k,
       le_occurredAt = clock_source env (clock_reads sp),
       le_body = CardWithdrawn (map_option cv_id (getCurrentCardVersion (cc_versions c0)))
         (od_decidedBy d) (od_note d)\<rparr>] = Inr s'"
  by (auto simp: disableCard_def loadCard_def saveDecision_def nextId_def now_def Let_def
      split: option.splits elim!: res_bindE)

lemma approve_effect:
  assumes inv: "db_inv db" and ok: "approveCardVersion sqlite_card_store env sp db k i d = Inr (c, db', sp')"
  shows "\<exists>c0 h. findCard db k = Some c0 \<and> promoteCardVersion (cc_versions c0) i = Inr h \<and>
    c = promotedCard c0 h i \<and> replaced db k c db' \<and>
    checkpoints_table db' = checkpoints_table db \<and> cursors_table db' = cursors_table db \<and>
    saveCard db c [\<lparr>le_id = id_source env (ids_drawn sp), le_cardId = k,
       le_occurredAt = clock_source env (clock_reads sp),
       le_body = CardVersionPromoted i (current_of db k) (od_decidedBy d) (od_note d)\<rparr>] = Inr db'"
proof -
  obtain c0 h where c0: "findCard db k = Some c0" and h: "promoteCardVersion (cc_versions c0) i = Inr h"
    and c: "c = promotedCard c0 h i" and r: "replaced db k c db'"
    using approve_sqlite [OF inv ok] by blast
  have save: "saveCard db c [\<lparr>le_id = id_source env (ids_drawn sp), le_cardId = k,
       le_occurredAt = clock_source env (clock_reads sp),
       le_body = CardVersionPromoted i (current_of db k) (od_decidedBy d) (od_note d)\<rparr>] = Inr db'"
    using ok c0 h c by (auto simp: approveCardVersion_def loadCard_def saveDecision_def nextId_def now_def Let_def
        elim!: res_bindE)
  have "cc_id c = k" "card_wf c" "vh_versions (cc_versions c) = vh_versions (cc_versions c0)"
    using findCard_wf [OF inv c0] history_wf_promote [OF _ h] promote_sel [OF h] c by (auto simp: card_wf_def)
  then have w: "writable (findCard db (cc_id c)) (version_ids db) c"
    using c0 by (simp add: writable_same_versions)
  show ?thesis using saveCard_spec(4,5) [OF inv w save] c0 h c r save by blast
qed

lemma approve_decision_effect:
  assumes inv: "db_inv db" and ok: "approveCardVersion sqlite_card_store env sp db k i d = Inr (c, db', sp')"
    and cmd: "cmd = ApproveVersion k i d \<or> cmd = RollbackVersion k i d"
  shows "decision_effect cmd db db'"
proof -
  obtain c0 h where c0: "findCard db k = Some c0" and h: "promoteCardVersion (cc_versions c0) i = Inr h"
    and c: "c = promotedCard c0 h i" and r: "replaced db k c db'"
    and tables: "checkpoints_table db' = checkpoints_table db \<and> cursors_table db' = cursors_table db"
    using approve_effect [OF inv ok] by blast
  show ?thesis
    by (rule decision_effectI [OF c0 r _ tables]) (use promote_sel [OF h] c cmd in auto)
qed

lemma decision_step:
  assumes inv: "db_inv db" and run: "run_command pubs gen env cmd (db, sp) = Inr (db', sp')"
    and decision: "\<forall>p policy. cmd \<noteq> TakeInPublication p policy"
  shows "decision_effect cmd db db' \<and> ids_drawn sp \<le> ids_drawn sp'"
proof (cases cmd)
  case (ApproveVersion k i d)
  then obtain c where ok: "approveCardVersion sqlite_card_store env sp db k i d = Inr (c, db', sp')"
    using run by (auto simp: drop_card_def elim!: res_bindE)
  show ?thesis using approve_decision_effect [OF inv ok] approve_draws [OF ok] ApproveVersion by simp
next
  case (RollbackVersion k i d)
  then obtain c where "rollbackCardVersion sqlite_card_store env sp db k i d = Inr (c, db', sp')"
    using run by (auto simp: drop_card_def elim!: res_bindE)
  from conjunct1 [OF rollback_sqlite [OF inv this]]
  have ok: "approveCardVersion sqlite_card_store env sp db k i d = Inr (c, db', sp')" .
  show ?thesis using approve_decision_effect [OF inv ok] approve_draws [OF ok] RollbackVersion by simp
next
  case (RejectVersion k i d)
  then obtain c where ok: "rejectCardVersion sqlite_card_store env sp db k i d = Inr (c, db', sp')"
    using run by (auto simp: drop_card_def elim!: res_bindE)
  note save = reject_saves [OF ok, simplified look_sqlite]
  have c: "findCard db k = Some c" and r: "replaced db k c db'" using reject_sqlite [OF inv ok] by auto
  have wf: "cc_id c = k" "card_wf c" using findCard_wf [OF inv c] by auto
  have "decision_effect cmd db db'"
    by (rule decision_effectI [OF c r])
      (use saveDecision_consumption [OF inv _ wf(2) refl save] wf c in auto)
  then show ?thesis using reject_draws [OF ok] by simp
next
  case (DisableCard k d)
  then obtain c where ok: "disableCard sqlite_card_store env sp db k d = Inr (c, db', sp')"
    using run by (auto simp: drop_card_def elim!: res_bindE)
  obtain es where save: "saveCard db c es = Inr db'"
    using disable_saves [OF ok] by auto
  obtain c0 where c0: "findCard db k = Some c0" and c: "c = withCardVersions c0 (withdrawCurrentVersion (cc_versions c0))"
    and r: "replaced db k c db'"
    using disable_sqlite [OF inv ok] by blast
  have wf: "cc_id c = k" "card_wf c" using findCard_wf [OF inv c0] card_wf_withdraw [of c0] c by auto
  have "decision_effect cmd db db'"
    by (rule decision_effectI [OF c0 r])
      (use saveDecision_consumption [OF inv _ wf(2) _ save, of c0] wf c0 c in auto)
  then show ?thesis using disable_draws [OF ok] by simp
next
  case (TakeInPublication p policy)
  then show ?thesis using decision by simp
qed

section \<open>The effect of an intake on histories and pointers\<close>

lemma extended_current:
  "vh_currentVersionId (cc_versions (extended sqlite_card_store db policy v)) = current_of db (cv_cardId v)"
  by (auto simp: extended_def Let_def base_card_def createContextCard_def createCardVersionHistory_def
      split: option.split)

lemma taken_in_current:
  assumes "taken_in db p pid policy cvs db'"
  shows "current_of db' k =
    (if withdrawn_by (publicationImpacts p (listCurrentVersions db)) k then None else current_of db k)"
proof -
  have "findCard db' k = card_after_intake sqlite_card_store db policy cvs
      (publicationImpacts p (listCurrentVersions db)) k"
    using assms by (simp add: taken_in_def)
  then show ?thesis
    by (cases "findCard db k"; cases "last_claimed k cvs")
      (auto simp: card_after_intake_def extended_card_def extended_current current_of_def dest!: last_claimed_mem)
qed

lemma taken_in_history:
  assumes inv: "db_inv db" and fresh: "\<forall>cv \<in> set cvs. cv_id (kv_version cv) \<notin> version_ids db"
    and t: "taken_in db p pid policy cvs db'"
  shows "history_of db' k = history_of db k @
    (case last_claimed k cvs of
       None \<Rightarrow> []
     | Some v \<Rightarrow> [withChangeComparison (base_card sqlite_card_store db policy v) v])"
proof -
  have find: "findCard db' k = card_after_intake sqlite_card_store db policy cvs
      (publicationImpacts p (listCurrentVersions db)) k"
    using t by (simp add: taken_in_def)
  show ?thesis
  proof (cases "last_claimed k cvs")
    case None
    then have "findCard db' k = map_option (\<lambda>c. if withdrawn_by (publicationImpacts p (listCurrentVersions db)) k
        then withdrawn c else c) (findCard db k)"
      using find by (simp add: card_after_intake_def extended_card_def)
    then show ?thesis using None by (cases "findCard db k") (simp_all add: history_of_def)
  next
    case (Some v)
    then have v: "cv_cardId v = k" "cv_id v \<notin> version_ids db" using last_claimed_mem [OF Some] fresh by auto
    have "vh_versions (cc_versions (extended sqlite_card_store db policy v)) =
        history_of db k @ [withChangeComparison (base_card sqlite_card_store db policy v) v]"
      using intake.extended_facts(3) [of db v pubs gen policy for pubs gen, simplified look_sqlite, OF inv v(2)] v(1)
      by (simp add: history_of_def)
    then show ?thesis
      using find Some by (simp add: card_after_intake_def extended_card_def history_of_def)
  qed
qed

section \<open>Every step\<close>

lemma step_cases:
  assumes inv: "registry_inv env (db, sp)" and inj: "inj (id_source env)"
    and step: "registry_step pubs gen env (db, sp) cmd (db', sp')"
  obtains (unchanged) "db' = db" "ids_drawn sp \<le> ids_drawn sp'"
    | (decision) "decision_effect cmd db db'" "ids_drawn sp \<le> ids_drawn sp'"
    | (intake) p pid policy cvs where "cmd = TakeInPublication pid policy" "pubs pid = Some p"
        "\<not> hasProcessed db pid" "consumable (locateInChain (findCursor db (pub_sourceId p)) (link_of p))"
        "taken_in db p pid policy cvs db'" "registry_inv env (db', sp')"
        "\<forall>cv \<in> set cvs. cv_id (kv_version cv) \<notin> version_ids db"
        "map (cv_cardId \<circ> kv_version) cvs = map ku_id (pub_knowledgeUnits p)"
  using step
proof (cases rule: registry_step_elim)
  case performed
  show ?thesis
  proof (cases "\<exists>pid policy. cmd = TakeInPublication pid policy")
    case True
    then obtain pid policy where cmd: "cmd = TakeInPublication pid policy" by blast
    obtain r where ok: "intakePublication (sqlite_intake_ports pubs gen) env sp db pid policy = Inr (r, db', sp')"
      using performed cmd by (auto elim!: res_bindE)
    show ?thesis
    proof (cases "is_claimed r")
      case True
      obtain p cvs where "pubs pid = Some p" "\<not> hasProcessed db pid"
          "consumable (locateInChain (findCursor db (pub_sourceId p)) (link_of p))"
          "taken_in db p pid policy cvs db'" "registry_inv env (db', sp')"
          "\<forall>cv \<in> set cvs. cv_id (kv_version cv) \<notin> version_ids db"
          "map (cv_cardId \<circ> kv_version) cvs = map ku_id (pub_knowledgeUnits p)"
        using intake_sqlite [OF inv inj ok True] by blast
      then show ?thesis by (rule intake [OF cmd])
    next
      case False
      show ?thesis using intake_not_claimed [OF ok False] by (intro unchanged) simp_all
    qed
  next
    case False
    then show ?thesis using decision_step [of db pubs gen env cmd sp db' sp'] inv performed decision
      by (auto simp: registry_inv_def)
  qed
next
  case (thrown err)
  then show ?thesis using unchanged by simp
qed

lemma drawn_mono: "m \<le> n \<Longrightarrow> X \<subseteq> f ` {..< m} \<Longrightarrow> X \<subseteq> f ` {..< n :: nat}"
  by (rule order_trans [OF _ image_mono]) auto

lemma step_inv [inv_rules]:
  assumes inv: "registry_inv env s" and inj: "inj (id_source env)" and step: "registry_step pubs gen env s cmd s'"
  shows "registry_inv env s'"
proof -
  obtain db sp db' sp' where s: "s = (db, sp)" "s' = (db', sp')" by (cases s; cases s')
  from inv inj step [unfolded s] show ?thesis unfolding s
  proof (cases rule: step_cases)
    case decision
    then obtain k c0 c where "findCard db k = Some c0" and r: "replaced db k c db'"
      and "vh_versions (cc_versions c) = vh_versions (cc_versions c0)"
      by (auto simp: decision_effect_def)
    then have "history_of db' j = history_of db j" for j
      by (simp add: replaced_history)
    moreover have "db_inv db" "db_inv db'" using inv r s by (auto simp: registry_inv_def replaced_def)
    ultimately have "version_ids db' = version_ids db" by (simp add: version_ids_history)
    then show "registry_inv env (db', sp')"
      using decision(2) inv s \<open>db_inv db'\<close> drawn_mono by (auto simp: registry_inv_def)
  next
    case unchanged
    then show "registry_inv env (db', sp')" using inv s drawn_mono by (auto simp: registry_inv_def)
  next
    case (intake p pid policy cvs)
    then show "registry_inv env (db', sp')" by blast
  qed
qed

lemma step_history:
  assumes inv: "registry_inv env (db, sp)" and inj: "inj (id_source env)"
    and step: "registry_step pubs gen env (db, sp) cmd (db', sp')"
  shows "\<exists>added. history_of db' k = history_of db k @ added"
  using inv inj step
proof (cases rule: step_cases)
  case decision
  then show ?thesis by (auto simp: decision_effect_def replaced_history)
next
  case (intake p pid policy cvs)
  then show ?thesis using taken_in_history [of db cvs p pid policy db'] inv by (auto simp: registry_inv_def)
qed auto

lemma step_current:
  assumes inv: "registry_inv env (db, sp)" and inj: "inj (id_source env)"
    and step: "registry_step pubs gen env (db, sp) cmd (db', sp')"
    and cur: "current_of db' k = Some i"
  shows "current_of db k = Some i \<or> (\<exists>d. cmd = ApproveVersion k i d \<or> cmd = RollbackVersion k i d)"
  using inv inj step
proof (cases rule: step_cases)
  case decision
  then obtain j c0 c where "findCard db j = Some c0" "replaced db j c db'"
    and "case vh_currentVersionId (cc_versions c) of None \<Rightarrow> True
      | Some i \<Rightarrow> vh_currentVersionId (cc_versions c0) = Some i \<or>
          (\<exists>d. cmd = ApproveVersion j i d \<or> cmd = RollbackVersion j i d)"
    unfolding decision_effect_def by blast
  then show ?thesis using cur by (auto simp: replaced_current split: if_splits)
next
  case (intake p pid policy cvs)
  then show ?thesis using taken_in_current [OF intake(5)] cur by (auto split: if_splits)
qed (use cur in auto)

lemma reached_inv:
  assumes "reached pubs gen env cmds s" and "inj (id_source env)"
  shows "registry_inv env s"
  using assms
proof (induction rule: reached.induct)
  case (start sp)
  then show ?case by (simp add: registry_inv_def db_inv_empty version_ids_def) (simp add: empty_db_def)
next
  case (step cmds s cmd s')
  then show ?case by (auto intro: step_inv)
qed

section \<open>What was consumed stays consumed\<close>

lemma step_processed:
  assumes inv: "registry_inv env (db, sp)" and inj: "inj (id_source env)"
    and step: "registry_step pubs gen env (db, sp) cmd (db', sp')" and done_before: "hasProcessed db q"
  shows "hasProcessed db' q"
  using step
proof (cases rule: registry_step_elim)
  case (thrown err)
  then show ?thesis using done_before by simp
next
  case performed
  have dbi: "db_inv db" using inv by (simp add: registry_inv_def)
  show ?thesis
  proof (cases "\<exists>p policy. cmd = TakeInPublication p policy")
    case False
    then have "decision_effect cmd db db'" using decision_step [OF dbi performed] by blast
    then show ?thesis using done_before by (auto simp: decision_effect_def hasProcessed_def)
  next
    case True
    then obtain p policy r where ok: "intakePublication (sqlite_intake_ports pubs gen) env sp db p policy = Inr (r, db', sp')"
      using performed by (auto elim!: res_bindE)
    show ?thesis
    proof (cases "is_claimed r")
      case True
      then show ?thesis using intake_sqlite [OF inv inj ok] done_before by (auto simp: taken_in_def)
    next
      case False
      then show ?thesis using intake_not_claimed [OF ok] done_before by simp
    qed
  qed
qed

lemma steps_processed:
  assumes "registry_steps pubs gen env s later s'" and "reached pubs gen env cmds s" and "inj (id_source env)"
    and "hasProcessed (fst s) q"
  shows "hasProcessed (fst s') q"
  using assms
proof (induction rule: registry_steps.induct)
  case (more s later s' cmd s'')
  have "reached pubs gen env (cmds @ later) s'" by (rule reached_steps [OF more.hyps(1) more.prems(1)])
  then have "registry_inv env s'" by (rule reached_inv) (rule more.prems(2))
  then show ?case using step_processed [of env "fst s'" "snd s'" pubs gen cmd "fst s''" "snd s''" q] more by simp
qed simp

section \<open>When an intake commits\<close>

lemma toCardVersions_total:
  assumes "\<And>n coordinate facts. \<exists>answer. generate_port ports n coordinate facts = Inr answer"
  shows "\<exists>cvs sp'. toCardVersions ports env p t us sp = Inr (cvs, sp')"
proof (induction us arbitrary: sp)
  case Nil
  then show ?case by simp
next
  case (Cons u us)
  obtain m m' where "generate_port ports (ids_drawn sp) (ku_coordinate u) (ku_facts u) = Inr (m, m')"
    using assms [of "ids_drawn sp" "ku_coordinate u" "ku_facts u"] by auto
  then obtain cv sp1 where "toCardVersion ports env p t u sp = Inr (cv, sp1)"
    by (simp add: toCardVersion_def Let_def case_prod_beta)
  then show ?case using Cons [of sp1] by auto
qed

lemma intake_due:
  assumes "registry_inv env (db, sp)" and "inj (id_source env)"
    and "pubs pid = Some p" and "\<not> hasProcessed db pid"
    and "pub_previousPublicationId p = map_option cur_publicationId (findCursor db (pub_sourceId p))"
    and "\<And>n coordinate facts. \<exists>answer. gen n coordinate facts = Inr answer"
  shows "\<exists>cvs db' sp'. intakePublication (sqlite_intake_ports pubs gen) env sp db pid policy =
    Inr (Claimed pid \<lparr>cur_sourceId = pub_sourceId p, cur_publicationId = pid\<rparr> cvs, db', sp')"
proof -
  have inv: "db_inv db" "version_ids db \<subseteq> id_source env ` {..< ids_drawn sp}"
    using assms(1) by (auto simp: registry_inv_def)
  have fresh: "id_source env n \<notin> version_ids db" if "ids_drawn sp \<le> n" for n
    using inv(2) that assms(2) by (fastforce dest: injD)
  have "cur_sourceId c = pub_sourceId p" if "findCursor db (pub_sourceId p) = Some c" for c
    using that by (auto simp: findCursor_def toCursor_def dest: find_Some_set)
  then have pos: "consumable (locateInChain (findCursor db (pub_sourceId p)) (link_of p))"
    using consumable_iff_predecessor [of "findCursor db (pub_sourceId p)" "link_of p"] assms(5)
    by (simp add: link_of_def)
  obtain cvs sp2 where gen: "toCardVersions (sqlite_intake_ports pubs gen) env p (fst (now env sp))
      (pub_knowledgeUnits p) (snd (now env sp)) = Inr (cvs, sp2)"
    using toCardVersions_total [of "sqlite_intake_ports pubs gen" env p "fst (now env sp)"
        "pub_knowledgeUnits p" "snd (now env sp)"] assms(6) by auto
  show ?thesis
    using intake.intake_commits [of db pubs gen pid p env sp cvs sp2 policy, simplified look_sqlite,
        OF inv(1) assms(4,3) pos gen inj_on_subset [OF assms(2) subset_UNIV] fresh] by blast
qed

lemma serving_entry:
  assumes inv: "db_inv db" and cur: "current_of db k = Some i"
  shows "\<exists>e \<in> set (approvedEntries db). ce_cardId e = k \<and> ce_versionId e = i"
proof -
  obtain c where c: "findCard db k = Some c" "vh_currentVersionId (cc_versions c) = Some i"
    using cur by (auto simp: current_of_def bind_eq_Some_conv)
  have wf: "cc_id c = k" "history_wf (cc_versions c)" using findCard_wf [OF inv c(1)] by (auto simp: card_wf_def)
  obtain v where v: "getCurrentCardVersion (cc_versions c) = Some v" "cv_id v = i"
    using current_resolves [OF wf(2) c(2)] by blast
  obtain e where "toCardCatalogEntry c = Some e" "ce_cardId e = k" "ce_versionId e = i"
    using v wf by (simp add: toCardCatalogEntry_def)
  then show ?thesis using approvedEntries_mem [OF inv, of e] c(1) by auto
qed

end
