(* ===== verification/Registry_Samples.thy ===== *)
theory Registry_Samples
  imports Registry_Safety
begin

text \<open>
  A small concrete registry, on which the witnesses of the properties apply them: one Source
  with a Publication of one SQL table and a second Publication that removes it, the intake
  of the first, the approval of its version, and a second registry with three versions.
\<close>

section \<open>The inputs\<close>

definition sample_env :: env where
  "sample_env = \<lparr>id_source = (\<lambda>n. ''id'' @ replicate n (CHR ''x'')), clock_source = (\<lambda>n. ''t'')\<rparr>"

definition sample_supplies :: supplies where
  "sample_supplies = \<lparr>ids_drawn = 0, clock_reads = 0\<rparr>"

definition sample_meaning :: card_meaning where
  "sample_meaning = \<lparr>cm_description = ''orders'', cm_representativeQuestions = [''which''],
     cm_aliases = [], cm_keywords = []\<rparr>"

definition sample_origin :: meaning_origin where
  "sample_origin = \<lparr>mo_generator = Deterministic, mo_model = None, mo_fallbackFromModel = None\<rparr>"

definition sample_generator :: generator where
  "sample_generator = (\<lambda>n coordinate facts. Inr (sample_meaning, sample_origin))"

definition sample_scope :: published_scope where
  "sample_scope = PublishedSqlScope \<lparr>scopeId = ''x'', scopeVersion = ''v''\<rparr> ''k'' ''p'' ''orders'' [''a'']"

definition sample_unit :: knowledge_unit where
  "sample_unit = \<lparr>ku_id = ''u'', ku_kind = TableUnit,
     ku_coordinate = SqlTableCoordinate ''s'' ''p'' ''orders'' [''a''],
     ku_facts = [], ku_scopes = [sample_scope],
     ku_provenance = \<lparr>pr_observationId = ''o'', pr_producerId = ''p'', pr_producerVersion = ''v'', pr_policyVersions = []\<rparr>,
     ku_contentDigest = ''d''\<rparr>"

definition sample_publication :: "string option \<Rightarrow> knowledge_unit list \<Rightarrow> published_change list \<Rightarrow> publication" where
  "sample_publication previous units changes = \<lparr>pub_publicationId = ''p'', pub_sourceId = ''s'',
     pub_observationId = ''o'', pub_previousPublicationId = previous, pub_producedAt = ''t'',
     pub_knowledgeUnits = units, pub_changes = changes\<rparr>"

definition sample_publications :: publications where
  "sample_publications = (\<lambda>i.
     if i = ''p1'' then Some (sample_publication None [sample_unit] [Added ''u'' ''d''])
     else if i = ''p2'' then Some (sample_publication (Some ''p1'') [] [Removed ''u'' ''d''])
     else None)"

definition sample_policy :: card_policy where
  "sample_policy = \<lparr>cp_sensitive = False, cp_allowedUsage = []\<rparr>"

definition sample_decision :: operator_decision where
  "sample_decision = \<lparr>od_decidedBy = ''op'', od_note = None\<rparr>"

lemma sample_ids_inj: "inj (id_source sample_env)"
  by (auto simp: sample_env_def inj_def dest: arg_cong [of _ _ length])

section \<open>The first version\<close>

definition sample_grounding :: grounding_report where
  "sample_grounding = \<lparr>gr_verdict = VerdictValidated, gr_findings = [],
     gr_factCoverage = \<lparr>fc_covered = [], fc_uncovered = []\<rparr>, gr_origin = sample_origin\<rparr>"

lemma sample_grounded:
  "groundCardVersion
     \<lparr>gi_coordinate = SqlTableCoordinate ''s'' ''p'' ''orders'' [''a''], gi_facts = [],
      gi_scopes = [translatePublishedScope sample_scope],
      gi_meaning = sample_meaning, gi_origin = sample_origin\<rparr> = sample_grounding"
proof -
  have m: "checkMeaning sample_meaning = []"
    by (simp add: checkMeaning_def sample_meaning_def checkText_def checkTextList_def READ_MODEL_LIMITS_def
        trim_Nil_iff is_space_char_def is_control_char_def)
  have f: "checkMachineFragments (SqlTableCoordinate ''s'' ''p'' ''orders'' [''a'']) []
      [translatePublishedScope sample_scope] sample_meaning = []"
    by code_simp
  have s: "checkScope (SqlTableCoordinate ''s'' ''p'' ''orders'' [''a'']) (translatePublishedScope sample_scope) = []"
    by (simp add: sample_scope_def)
  have t: "checkScopeTokens (translatePublishedScope sample_scope) = []"
    by (simp add: sample_scope_def checkScopeTokens_def checkText_def READ_MODEL_LIMITS_def
        reference_values_def trim_Nil_iff is_space_char_def is_control_char_def)
  show ?thesis
    by (simp add: groundCardVersion_def groundingFindings_def Let_def m f s t READ_MODEL_LIMITS_def
        sample_origin_def verdictOf_def computeFactCoverage_def sample_grounding_def)
qed

definition first_version :: card_version where
  "first_version =
     \<lparr>cv_id = ''id'', cv_cardId = ''u'',
      cv_lineage = \<lparr>ln_publicationId = ''p'', ln_observationId = ''o'', ln_knowledgeUnitId = ''u''\<rparr>,
      cv_scopes = [translatePublishedScope sample_scope], cv_validationState = Validated,
      cv_createdAt = ''t'', cv_meaning = Some sample_meaning, cv_grounding = Some sample_grounding,
      cv_changeFromPrevious = None\<rparr>"

lemma first_version_sel [simp]:
  "cv_id first_version = ''id''" "cv_cardId first_version = ''u''"
  "cv_validationState first_version = Validated" "cv_meaning first_version = Some sample_meaning"
  "cv_scopes first_version = [translatePublishedScope sample_scope]"
  "ln_knowledgeUnitId (cv_lineage first_version) = ''u''"
  by (simp_all add: first_version_def)

abbreviation sample_ports :: "registry_db intake_ports" where
  "sample_ports \<equiv> sqlite_intake_ports sample_publications sample_generator"

lemma sample_claim:
  "toCardVersions sample_ports sample_env (sample_publication None [sample_unit] [Added ''u'' ''d'']) ''t''
     [sample_unit] \<lparr>ids_drawn = 0, clock_reads = n\<rparr> =
   Inr ([\<lparr>kv_version = first_version, kv_findings = []\<rparr>], \<lparr>ids_drawn = 1, clock_reads = n\<rparr>)"
  by (simp add: toCardVersion_def sample_generator_def sample_unit_def sample_grounded Let_def nextId_def
      sample_env_def first_version_def sample_publication_def)
    (simp add: sample_grounding_def)

lemma empty_facts [simp]:
  "findCard empty_db k = None" "listCurrentVersions empty_db = []" "hasProcessed empty_db p = False"
  "findCursor empty_db src = None" "version_ids empty_db = {}"
  by (simp_all add: findCard_def empty_db_def listCurrentVersions_def current_rows_def versions_in_order_def
      hasProcessed_def findCursor_def version_ids_def)

lemma sample_intake_commits:
  "\<exists>db sp. intakePublication sample_ports sample_env sample_supplies empty_db ''p1'' sample_policy =
       Inr (Claimed ''p1'' \<lparr>cur_sourceId = ''s'', cur_publicationId = ''p1''\<rparr>
              [\<lparr>kv_version = first_version, kv_findings = []\<rparr>], db, sp) \<and>
     (\<forall>k. findCard db k = card_after_intake sqlite_card_store empty_db sample_policy
            [\<lparr>kv_version = first_version, kv_findings = []\<rparr>] [] k) \<and>
     (\<forall>q. hasProcessed db q \<longleftrightarrow> q = ''p1'') \<and>
     findCursor db ''s'' = Some \<lparr>cur_sourceId = ''s'', cur_publicationId = ''p1''\<rparr>"
proof -
  let ?p = "sample_publication None [sample_unit] [Added ''u'' ''d'']"
  have p: "sample_publications ''p1'' = Some ?p" by (simp add: sample_publications_def)
  have sel: "pub_sourceId ?p = ''s''" "pub_knowledgeUnits ?p = [sample_unit]" "pub_previousPublicationId ?p = None"
    by (simp_all add: sample_publication_def)
  have none: "publicationImpacts ?p [] = []" by (simp add: publicationImpacts_def Let_def)
  have pos: "consumable (locateInChain (findCursor empty_db (pub_sourceId ?p)) (link_of ?p))"
    by (simp add: consumable_def locateInChain_First_iff link_of_def sel)
  have gen: "toCardVersions sample_ports sample_env ?p (fst (now sample_env sample_supplies))
      (pub_knowledgeUnits ?p) (snd (now sample_env sample_supplies)) =
      Inr ([\<lparr>kv_version = first_version, kv_findings = []\<rparr>], \<lparr>ids_drawn = 1, clock_reads = 1\<rparr>)"
    using sample_claim [of 1] by (simp add: now_def sample_supplies_def sel sample_env_def)
  have new: "\<not> hasProcessed empty_db ''p1''" and fresh: "id_source sample_env n \<notin> version_ids empty_db" for n
    by simp_all
  show ?thesis
    using intake.intake_commits [of empty_db sample_publications sample_generator "''p1''" ?p sample_env
        sample_supplies _ _ sample_policy, simplified look_sqlite,
        OF db_inv_empty new p pos gen inj_on_subset [OF sample_ids_inj subset_UNIV] fresh]
    by (auto simp: none sel)
qed

lemma first_card:
  "card_after_intake sqlite_card_store empty_db sample_policy
     [\<lparr>kv_version = first_version, kv_findings = []\<rparr>] [] k =
   (if k = ''u'' then Some \<lparr>cc_id = ''u'', cc_meaning = sample_meaning, cc_policy = sample_policy,
      cc_versions = \<lparr>vh_cardId = ''u'', vh_versions = [first_version], vh_currentVersionId = None\<rparr>\<rparr> else None)"
  by (simp add: card_after_intake_def extended_card_def extended_def base_card_def withdrawn_by_def Let_def
      createContextCard_def createCardVersionHistory_def withChangeComparison_def at_last_def withCardVersions_def)

lemma sample_intake:
  obtains db sp where
    "intakePublication sample_ports sample_env sample_supplies empty_db ''p1'' sample_policy =
       Inr (Claimed ''p1'' \<lparr>cur_sourceId = ''s'', cur_publicationId = ''p1''\<rparr>
              [\<lparr>kv_version = first_version, kv_findings = []\<rparr>], db, sp)"
    "reached sample_publications sample_generator sample_env [TakeInPublication ''p1'' sample_policy] (db, sp)"
    "\<And>k. findCard db k = (if k = ''u'' then Some \<lparr>cc_id = ''u'', cc_meaning = sample_meaning, cc_policy = sample_policy,
      cc_versions = \<lparr>vh_cardId = ''u'', vh_versions = [first_version], vh_currentVersionId = None\<rparr>\<rparr> else None)"
    "\<And>q. hasProcessed db q \<longleftrightarrow> q = ''p1''"
    "findCursor db ''s'' = Some \<lparr>cur_sourceId = ''s'', cur_publicationId = ''p1''\<rparr>"
proof -
  obtain db sp where run: "intakePublication sample_ports sample_env sample_supplies empty_db ''p1'' sample_policy =
       Inr (Claimed ''p1'' \<lparr>cur_sourceId = ''s'', cur_publicationId = ''p1''\<rparr>
              [\<lparr>kv_version = first_version, kv_findings = []\<rparr>], db, sp)"
    and facts: "\<And>k. findCard db k = card_after_intake sqlite_card_store empty_db sample_policy
            [\<lparr>kv_version = first_version, kv_findings = []\<rparr>] [] k"
      "\<And>q. hasProcessed db q \<longleftrightarrow> q = ''p1''"
      "findCursor db ''s'' = Some \<lparr>cur_sourceId = ''s'', cur_publicationId = ''p1''\<rparr>"
    using sample_intake_commits by (elim exE conjE) (rule that; (assumption | erule spec))
  have "reached sample_publications sample_generator sample_env ([] @ [TakeInPublication ''p1'' sample_policy]) (db, sp)"
    by (rule reached.step [OF reached.start [of _ _ _ sample_supplies]])
      (rule registry_step.performed, simp add: run)
  then show ?thesis using run facts first_card by (intro that) simp_all
qed

section \<open>The approval of the first version\<close>

lemma sample_approval_run:
  obtains db sp db' sp' where
    "intakePublication sample_ports sample_env sample_supplies empty_db ''p1'' sample_policy =
       Inr (Claimed ''p1'' \<lparr>cur_sourceId = ''s'', cur_publicationId = ''p1''\<rparr>
              [\<lparr>kv_version = first_version, kv_findings = []\<rparr>], db, sp)"
    "registry_step sample_publications sample_generator sample_env (db, sp)
       (ApproveVersion ''u'' ''id'' sample_decision) (db', sp')"
    "reached sample_publications sample_generator sample_env
       [TakeInPublication ''p1'' sample_policy, ApproveVersion ''u'' ''id'' sample_decision] (db', sp')"
    "history_of db' ''u'' = [first_version]" "current_of db' ''u'' = Some ''id''"
    "\<not> hasProcessed db' ''p2''" "findCursor db' ''s'' = Some \<lparr>cur_sourceId = ''s'', cur_publicationId = ''p1''\<rparr>"
proof -
  obtain db sp where run: "intakePublication sample_ports sample_env sample_supplies empty_db ''p1'' sample_policy =
       Inr (Claimed ''p1'' \<lparr>cur_sourceId = ''s'', cur_publicationId = ''p1''\<rparr>
              [\<lparr>kv_version = first_version, kv_findings = []\<rparr>], db, sp)"
    and reached1: "reached sample_publications sample_generator sample_env
      [TakeInPublication ''p1'' sample_policy] (db, sp)"
    and find: "\<And>k. findCard db k = (if k = ''u'' then Some \<lparr>cc_id = ''u'', cc_meaning = sample_meaning, cc_policy = sample_policy,
      cc_versions = \<lparr>vh_cardId = ''u'', vh_versions = [first_version], vh_currentVersionId = None\<rparr>\<rparr> else None)"
    and only: "\<And>q. hasProcessed db q \<longleftrightarrow> q = ''p1''"
    and cursor: "findCursor db ''s'' = Some \<lparr>cur_sourceId = ''s'', cur_publicationId = ''p1''\<rparr>"
    by (rule sample_intake) (rule that; assumption)
  let ?c = "\<lparr>cc_id = ''u'', cc_meaning = sample_meaning, cc_policy = sample_policy,
      cc_versions = \<lparr>vh_cardId = ''u'', vh_versions = [first_version], vh_currentVersionId = None\<rparr>\<rparr>"
  let ?h = "\<lparr>vh_cardId = ''u'', vh_versions = [first_version], vh_currentVersionId = Some ''id''\<rparr>"
  have inv: "db_inv db" using reached_inv [OF reached1 sample_ids_inj] by (simp add: registry_inv_def)
  have h: "promoteCardVersion (cc_versions ?c) ''id'' = Inr ?h"
    by (simp add: promoteCardVersion_eq_Inr)
  have entry: "toCardCatalogEntry (promotedCard ?c ?h ''id'') =
      Some \<lparr>ce_cardId = ''u'', ce_versionId = ''id'', ce_meaning = sample_meaning, ce_policy = sample_policy,
            ce_scopes = [translatePublishedScope sample_scope]\<rparr>"
    by (simp add: toCardCatalogEntry_def getCurrentCardVersion_def promotedCard_def Let_def withCardMeaning_def
        withCardVersions_def)
  have none: "toCardCatalogEntry c = None" if "findCard db k = Some c" for k c
    using that find [of k] by (auto simp: toCardCatalogEntry_def split: if_splits)
  have "e \<notin> set (approvedEntries db)" for e
    using approvedEntries_mem [OF inv, of e] none by fastforce
  then have empty: "approvedEntries db = []" by (metis list.set_intros(1) neq_Nil_conv)
  have "canonicalContractByteLength (json_of_entries
      [\<lparr>ce_cardId = ''u'', ce_versionId = ''id'', ce_meaning = sample_meaning, ce_policy = sample_policy,
        ce_scopes = [translatePublishedScope sample_scope]\<rparr>]) \<le> sl_canonicalBytes SNAPSHOT_LIMITS"
    by (rule order_trans [OF canonicalContractByteLength_bound])
      (simp add: json_of_entries_def json_of_entry_def json_texts_def sample_meaning_def sample_policy_def
        sample_scope_def SNAPSHOT_LIMITS_def)
  then have size: "refuseOversizedCatalog sqlite_card_store db (promotedCard ?c ?h ''id'') = Inr ()"
    by (simp add: refuseOversizedCatalog_def entry empty checkCatalogSnapshotLimits_def)
      (simp add: SNAPSHOT_LIMITS_def)
  obtain db' sp' where ok: "approveCardVersion sqlite_card_store sample_env sp db ''u'' ''id'' sample_decision =
      Inr (promotedCard ?c ?h ''id'', db', sp')"
    using sqlite.approve_succeeds [OF inv _ h size, of "''u''" sample_env sp sample_decision] find by auto
  have step: "registry_step sample_publications sample_generator sample_env (db, sp)
      (ApproveVersion ''u'' ''id'' sample_decision) (db', sp')"
    by (rule registry_step.performed) (simp add: ok drop_card_def)
  have "reached sample_publications sample_generator sample_env
      ([TakeInPublication ''p1'' sample_policy] @ [ApproveVersion ''u'' ''id'' sample_decision]) (db', sp')"
    by (rule reached.step [OF reached1 step])
  moreover have "replaced db ''u'' (promotedCard ?c ?h ''id'') db' \<and>
      checkpoints_table db' = checkpoints_table db \<and> cursors_table db' = cursors_table db"
    using approve_effect [OF inv ok] by (elim exE conjE) (intro conjI; assumption)
  then have r: "replaced db ''u'' (promotedCard ?c ?h ''id'') db'"
    and tables: "checkpoints_table db' = checkpoints_table db" "cursors_table db' = cursors_table db"
    by simp_all
  have "hasProcessed db' ''p2'' = hasProcessed db ''p2''" "findCursor db' ''s'' = findCursor db ''s''"
    using tables by (simp_all add: hasProcessed_def findCursor_def)
  ultimately show ?thesis
    using replaced_current [OF r, of "''u''"] replaced_history [OF r, of "''u''"] only cursor run step by (intro that) simp_all
qed

lemma sample_approval:
  obtains db sp where
    "reached sample_publications sample_generator sample_env
       [TakeInPublication ''p1'' sample_policy, ApproveVersion ''u'' ''id'' sample_decision] (db, sp)"
    "history_of db ''u'' = [first_version]" "current_of db ''u'' = Some ''id''"
    "\<not> hasProcessed db ''p2''" "findCursor db ''s'' = Some \<lparr>cur_sourceId = ''s'', cur_publicationId = ''p1''\<rparr>"
  by (rule sample_approval_run) (rule that; assumption)


end
