(* ===== verification/Registry_Properties.thy ===== *)
theory Registry_Properties
  imports Registry_Samples
begin

text \<open>
  What the registry promises: which versions serve and why, that a history only grows, that
  a Publication is consumed once and in chain order, and what each operator decision does.
\<close>

section \<open>Serving needs an operator\<close>

text \<open>
  C1: in every registry that decisions and intakes reach from an empty database, in any
  order, each entry of the approved catalog is a stored version of its Card that passed
  validation, and an operator promoted exactly that version of exactly that Card.
\<close>

theorem serving_needs_operator:
  assumes "reached pubs gen env cmds (db, sp)" and "inj (id_source env)"
    and "e \<in> set (approvedEntries db)"
  shows "(\<exists>v \<in> set (history_of db (ce_cardId e)). cv_id v = ce_versionId e \<and>
            cv_validationState v = Validated \<and> cv_scopes v = ce_scopes e) \<and>
    (\<exists>d. ApproveVersion (ce_cardId e) (ce_versionId e) d \<in> set cmds \<or>
         RollbackVersion (ce_cardId e) (ce_versionId e) d \<in> set cmds)"
proof -
  have inv: "db_inv db" using reached_inv [OF assms(1,2)] by (simp add: registry_inv_def)
  have promoted: "\<exists>d. ApproveVersion k i d \<in> set cmds \<or> RollbackVersion k i d \<in> set cmds"
    if "reached pubs gen env cmds s" "current_of (fst s) k = Some i" for cmds s k i
    using that
  proof (induction arbitrary: i rule: reached.induct)
    case (start sp)
    then show ?case by (simp add: current_of_def findCard_def empty_db_def)
  next
    case (step cmds s cmd s')
    have "current_of (fst s) k = Some i \<or> (\<exists>d. cmd = ApproveVersion k i d \<or> cmd = RollbackVersion k i d)"
      using step_current [of env "fst s" "snd s" pubs gen cmd "fst s'" "snd s'"] step.hyps step.prems
        reached_inv [OF step.hyps(1) assms(2)] assms(2) by simp
    then show ?case using step.IH by auto
  qed
  obtain c where c: "findCard db (ce_cardId e) = Some c" "toCardCatalogEntry c = Some e"
    using assms(3) approvedEntries_mem [OF inv] by blast
  then obtain v where v: "getCurrentCardVersion (cc_versions c) = Some v" "ce_versionId e = cv_id v"
      "ce_scopes e = cv_scopes v"
    by (auto simp: toCardCatalogEntry_def split: option.splits)
  have wf: "history_wf (cc_versions c)" using findCard_wf [OF inv c(1)] by (simp add: card_wf_def)
  have "v \<in> set (vh_versions (cc_versions c))" "vh_currentVersionId (cc_versions c) = Some (cv_id v)"
    using v(1) getCurrentCardVersion_eq_Some [OF wf] by auto
  moreover have "cv_validationState v = Validated"
    using current_resolves [OF wf calculation(2)] v(1) by auto
  ultimately show ?thesis
    using v c(1) promoted [of cmds "(db, sp)" "ce_cardId e" "cv_id v"] assms(1) by auto
qed

theorem serving_needs_operator_witness:
  "\<exists>db sp e. reached sample_publications sample_generator sample_env
       [TakeInPublication ''p1'' sample_policy, ApproveVersion ''u'' ''id'' sample_decision] (db, sp) \<and>
     e \<in> set (approvedEntries db) \<and> ce_cardId e = ''u'' \<and>
     (\<exists>v \<in> set (history_of db ''u''). cv_id v = ce_versionId e \<and> cv_validationState v = Validated)"
proof -
  obtain db sp where r: "reached sample_publications sample_generator sample_env
       [TakeInPublication ''p1'' sample_policy, ApproveVersion ''u'' ''id'' sample_decision] (db, sp)"
    and cur: "current_of db ''u'' = Some ''id''"
    by (rule sample_approval) (rule that; assumption)
  have "db_inv db" using reached_inv [OF r sample_ids_inj] by (simp add: registry_inv_def)
  then obtain e where e: "e \<in> set (approvedEntries db)" "ce_cardId e = ''u''"
    using serving_entry [OF _ cur] by blast
  have w: "\<exists>v \<in> set (history_of db ''u''). cv_id v = ce_versionId e \<and> cv_validationState v = Validated"
    using serving_needs_operator [OF r sample_ids_inj e(1)] by (auto simp: e(2))
  show ?thesis by (intro exI [of _ db] exI [of _ sp] exI [of _ e] conjI r e w)
qed

section \<open>A history only grows\<close>

text \<open>
  C2: no step of any kind replaces, removes or reorders a stored version: the history of
  every Card after the step is its history before, followed by the versions added. And only
  an operator's approval or rollback of a version makes that version the serving one.
\<close>

theorem history_only_grows:
  assumes "reached pubs gen env cmds (db, sp)" and "inj (id_source env)"
    and "registry_step pubs gen env (db, sp) cmd (db', sp')"
  shows "(\<exists>added. history_of db' k = history_of db k @ added) \<and>
    (current_of db' k = current_of db k \<or> current_of db' k = None \<or>
     (\<exists>i d. current_of db' k = Some i \<and> (cmd = ApproveVersion k i d \<or> cmd = RollbackVersion k i d)))"
proof -
  have inv: "registry_inv env (db, sp)" by (rule reached_inv [OF assms(1,2)])
  show ?thesis
    using step_history [OF inv assms(2,3), of k] step_current [OF inv assms(2,3), of k]
    by (cases "current_of db' k") (auto simp: eq_commute)
qed

theorem history_only_grows_witness:
  "\<exists>db' sp'. registry_step sample_publications sample_generator sample_env (empty_db, sample_supplies)
       (TakeInPublication ''p1'' sample_policy) (db', sp') \<and>
     (\<exists>added. history_of db' ''u'' = history_of empty_db ''u'' @ added \<and> added = [first_version])"
proof -
  obtain db sp where run: "intakePublication sample_ports sample_env sample_supplies empty_db ''p1'' sample_policy =
       Inr (Claimed ''p1'' \<lparr>cur_sourceId = ''s'', cur_publicationId = ''p1''\<rparr>
              [\<lparr>kv_version = first_version, kv_findings = []\<rparr>], db, sp)"
    and "\<And>k. findCard db k = (if k = ''u'' then Some \<lparr>cc_id = ''u'', cc_meaning = sample_meaning, cc_policy = sample_policy,
      cc_versions = \<lparr>vh_cardId = ''u'', vh_versions = [first_version], vh_currentVersionId = None\<rparr>\<rparr> else None)"
    by (rule sample_intake) (rule that; assumption)
  then have step: "registry_step sample_publications sample_generator sample_env (empty_db, sample_supplies)
       (TakeInPublication ''p1'' sample_policy) (db, sp)" and h: "history_of db ''u'' = [first_version]"
    by (auto intro: registry_step.performed)
  show ?thesis
    using history_only_grows [OF reached.start sample_ids_inj step, of "''u''"] step h by auto
qed

section \<open>Consuming a Publication\<close>

lemma claimed_effect:
  assumes "reached pubs gen env cmds (db, sp)" and "inj (id_source env)"
    and "intakePublication (sqlite_intake_ports pubs gen) env sp db pid policy = Inr (Claimed q cursor cvs, db', sp')"
  shows "\<exists>p. pubs pid = Some p \<and> q = pid \<and> cursor = \<lparr>cur_sourceId = pub_sourceId p, cur_publicationId = pid\<rparr> \<and>
    map (cv_cardId \<circ> kv_version) cvs = map ku_id (pub_knowledgeUnits p) \<and>
    (\<forall>k. history_of db' k = history_of db k @
       (case last_claimed k cvs of
          None \<Rightarrow> []
        | Some v \<Rightarrow> [withChangeComparison (base_card sqlite_card_store db policy v) v])) \<and>
    (\<forall>k. current_of db' k =
       (if withdrawn_by (publicationImpacts p (listCurrentVersions db)) k then None else current_of db k)) \<and>
    (\<forall>r. hasProcessed db' r \<longleftrightarrow> hasProcessed db r \<or> r = pid) \<and>
    findCursor db' (pub_sourceId p) = Some cursor"
proof -
  have inv: "registry_inv env (db, sp)" by (rule reached_inv [OF assms(1,2)])
  obtain p where p: "pubs pid = Some p" "q = pid" "cursor = \<lparr>cur_sourceId = pub_sourceId p, cur_publicationId = pid\<rparr>"
    and t: "taken_in db p pid policy cvs db'"
    and cvs: "map (cv_cardId \<circ> kv_version) cvs = map ku_id (pub_knowledgeUnits p)"
      "\<forall>cv \<in> set cvs. cv_id (kv_version cv) \<notin> version_ids db"
    using intake_sqlite [OF inv assms(2,3)] by (auto simp: is_claimed_def)
  have "db_inv db" using inv by (simp add: registry_inv_def)
  from taken_in_history [OF this cvs(2) t] taken_in_current [OF t] show ?thesis
    using p t cvs(1) by (auto simp: taken_in_def)
qed

text \<open>
  C3: an intake that claims its Publication appends to the history of a Card exactly the
  version made from the last unit with that Card's id, makes no version serving, withdraws
  exactly the Cards an impact blocks or disables, and records the Publication as processed
  and as the cursor of its Source.
\<close>

theorem intake_effect:
  assumes "reached pubs gen env cmds (db, sp)" and "inj (id_source env)"
    and "intakePublication (sqlite_intake_ports pubs gen) env sp db pid policy = Inr (Claimed q cursor cvs, db', sp')"
  shows "\<exists>p. pubs pid = Some p \<and> q = pid \<and> cursor = \<lparr>cur_sourceId = pub_sourceId p, cur_publicationId = pid\<rparr> \<and>
    map (cv_cardId \<circ> kv_version) cvs = map ku_id (pub_knowledgeUnits p) \<and>
    (\<forall>k. history_of db' k = history_of db k @
       (case last_claimed k cvs of
          None \<Rightarrow> []
        | Some v \<Rightarrow> [withChangeComparison (base_card sqlite_card_store db policy v) v])) \<and>
    (\<forall>k. current_of db' k =
       (if withdrawn_by (publicationImpacts p (listCurrentVersions db)) k then None else current_of db k)) \<and>
    (\<forall>r. hasProcessed db' r \<longleftrightarrow> hasProcessed db r \<or> r = pid) \<and>
    findCursor db' (pub_sourceId p) = Some cursor"
  by (rule claimed_effect [OF assms])

theorem intake_effect_witness:
  "\<exists>db sp. intakePublication sample_ports sample_env sample_supplies empty_db ''p1'' sample_policy =
       Inr (Claimed ''p1'' \<lparr>cur_sourceId = ''s'', cur_publicationId = ''p1''\<rparr>
              [\<lparr>kv_version = first_version, kv_findings = []\<rparr>], db, sp) \<and>
     hasProcessed db ''p1''"
proof -
  obtain db sp where run: "intakePublication sample_ports sample_env sample_supplies empty_db ''p1'' sample_policy =
       Inr (Claimed ''p1'' \<lparr>cur_sourceId = ''s'', cur_publicationId = ''p1''\<rparr>
              [\<lparr>kv_version = first_version, kv_findings = []\<rparr>], db, sp)"
    by (rule sample_intake) (rule that; assumption)
  show ?thesis using intake_effect [OF reached.start sample_ids_inj run] run by auto
qed

text \<open>
  C4: a Publication is consumed once: after an intake that claimed it, whatever decisions and intakes
  follow, each later intake of it answers \<open>already_claimed\<close> and leaves the database as it is.
  The use cases run one after another; two that overlap are the subject of Registry_Overlap.
\<close>

theorem intake_exactly_once:
  assumes "reached pubs gen env cmds (db, sp)" and "inj (id_source env)"
    and "intakePublication (sqlite_intake_ports pubs gen) env sp db pid policy = Inr (Claimed q cursor cvs, db', sp')"
    and "registry_steps pubs gen env (db', sp') later (db2, sp2)"
  shows "intakePublication (sqlite_intake_ports pubs2 gen2) env2 sp3 db2 pid policy2 = Inr (AlreadyClaimed pid, db2, sp3)"
proof -
  have "registry_step pubs gen env (db, sp) (TakeInPublication pid policy) (db', sp')"
    using assms(3) by (auto intro: registry_step.performed)
  then have r: "reached pubs gen env (cmds @ [TakeInPublication pid policy]) (db', sp')" by (rule reached.step [OF assms(1)])
  have "hasProcessed db' pid" using claimed_effect [OF assms(1-3)] by blast
  then have "hasProcessed db2 pid" using steps_processed [OF assms(4) r assms(2)] by simp
  then show ?thesis by (simp add: intakePublication_def claimPublication_def)
qed

theorem intake_exactly_once_witness:
  "\<exists>db sp db2 sp2. intakePublication sample_ports sample_env sample_supplies empty_db ''p1'' sample_policy =
       Inr (Claimed ''p1'' \<lparr>cur_sourceId = ''s'', cur_publicationId = ''p1''\<rparr>
              [\<lparr>kv_version = first_version, kv_findings = []\<rparr>], db, sp) \<and>
     registry_steps sample_publications sample_generator sample_env (db, sp) [ApproveVersion ''u'' ''id'' sample_decision] (db2, sp2) \<and>
     current_of db2 ''u'' = Some ''id'' \<and>
     intakePublication sample_ports sample_env sp2 db2 ''p1'' sample_policy = Inr (AlreadyClaimed ''p1'', db2, sp2)"
proof -
  obtain db sp db2 sp2 where run: "intakePublication sample_ports sample_env sample_supplies empty_db ''p1'' sample_policy =
       Inr (Claimed ''p1'' \<lparr>cur_sourceId = ''s'', cur_publicationId = ''p1''\<rparr>
              [\<lparr>kv_version = first_version, kv_findings = []\<rparr>], db, sp)"
    and step: "registry_step sample_publications sample_generator sample_env (db, sp)
       (ApproveVersion ''u'' ''id'' sample_decision) (db2, sp2)" and cur: "current_of db2 ''u'' = Some ''id''"
    by (rule sample_approval_run) (rule that; assumption)
  have steps: "registry_steps sample_publications sample_generator sample_env (db, sp)
      [ApproveVersion ''u'' ''id'' sample_decision] (db2, sp2)"
    using registry_steps.more [OF registry_steps.none step] by simp
  show ?thesis
    by (intro exI [of _ db] exI [of _ sp] exI [of _ db2] exI [of _ sp2] conjI run steps cur
        intake_exactly_once [OF reached.start sample_ids_inj run steps])
qed

text \<open>
  C8: an intake that answers without claiming changes nothing, whatever the ports: the store and the ids
  drawn are as they were. It answers so for one of three reasons, and says which: the Publication was consumed before, its
  predecessor has not been consumed (deferred), or the chain of its Source forks (forked).
\<close>

theorem intake_refusal_changes_nothing:
  assumes "intakePublication ports env sp s pid policy = Inr (r, s', sp')"
    and "\<And>q cursor cvs. r \<noteq> Claimed q cursor cvs"
  shows "s' = s \<and> sp' = sp \<and>
    (if hasProcessed_port ports s pid then r = AlreadyClaimed pid
     else \<exists>p. findById_port ports pid = Some p \<and>
       (case locateInChain (findCursor_port ports s (pub_sourceId p)) (link_of p) of
          Gap expectedAfter _ diagnostic \<Rightarrow> r = Deferred pid (pub_sourceId p) expectedAfter diagnostic
        | Fork diagnostic \<Rightarrow> r = Forked pid (pub_sourceId p) diagnostic
        | _ \<Rightarrow> False))"
proof -
  have not_claimed: "\<not> is_claimed r" using assms(2) by (cases r) (auto simp: is_claimed_def)
  obtain r0 sp0 where c: "claimPublication ports env sp s pid = Inr (r0, sp0)"
    using assms(1) by (auto simp: intakePublication_def res_bind_eq_Inr)
  have eq: "r0 = r"
    using assms(1) c by (cases r0) (auto simp: intakePublication_def Let_def
        split: option.splits prod.splits elim!: res_bindE)
  have refused: "refuse i src pos = Some x \<Longrightarrow>
      (case pos of Gap expectedAfter _ diagnostic \<Rightarrow> x = Deferred i src expectedAfter diagnostic
        | Fork diagnostic \<Rightarrow> x = Forked i src diagnostic | _ \<Rightarrow> False)" for i src pos x
    by (auto simp: refuse_def split: chain_position.splits)
  from c show ?thesis
    using intake_not_claimed [OF assms(1) not_claimed] not_claimed eq
    by (cases rule: claim_cases) (auto simp: is_claimed_def dest: refused)
qed

theorem intake_refusal_changes_nothing_witness:
  "\<exists>r. intakePublication sample_ports sample_env sample_supplies empty_db ''p2'' sample_policy =
       Inr (r, empty_db, sample_supplies) \<and> r \<noteq> AlreadyClaimed ''p2''"
proof -
  let ?r = "Deferred ''p2'' ''s'' ''p1'' \<lparr>cd_code = PublicationChainGap,
        cd_detail = ''publication '' @ ''p'' @ '' follows '' @ ''p1'' @ '', which has not been consumed''\<rparr>"
  have run: "intakePublication sample_ports sample_env sample_supplies empty_db ''p2'' sample_policy =
      Inr (?r, empty_db, sample_supplies)"
    by (simp add: intakePublication_def claimPublication_def sample_publications_def sample_publication_def
        locateInChain_def link_of_def gap_def refuse_def)
  show ?thesis using intake_refusal_changes_nothing [OF run] run by simp
qed

lemma last_claimed_cases:
  "case last_claimed k cvs of
     None \<Rightarrow> k \<notin> set (map (cv_cardId \<circ> kv_version) cvs)
   | Some v \<Rightarrow> v \<in> kv_version ` set cvs \<and> cv_cardId v = k"
proof (cases "last_claimed k cvs")
  case None
  then have "\<forall>v \<in> set (rev (map kv_version cvs)). cv_cardId v \<noteq> k" unfolding last_claimed_def by (rule find_None_set [THEN iffD1])
  then show ?thesis by (auto simp: None)
next
  case (Some v)
  from find_Some_set [OF this [unfolded last_claimed_def]] show ?thesis by (auto simp: Some)
qed

text \<open>
  C7: liveness: when the Publication is stored, was not consumed, names the cursor of its
  Source as its predecessor (nothing for a Source not consumed yet) and the generator
  answers for every unit, the intake commits, and no stored state and no content of the
  Publication makes it fail. The store then holds the claim: one version per unit was claimed, the history of every unit's Card
  ends in a claimed version after all it had before, other histories stay, and the Publication is consumed and the cursor of its Source.
\<close>

theorem intake_commits_when_due:
  assumes "reached pubs gen env cmds (db, sp)" and "inj (id_source env)"
    and "pubs pid = Some p" and "\<not> hasProcessed db pid"
    and "pub_previousPublicationId p = map_option cur_publicationId (findCursor db (pub_sourceId p))"
    and "\<And>n coordinate facts. \<exists>answer. gen n coordinate facts = Inr answer"
  shows "\<exists>cvs db' sp'. intakePublication (sqlite_intake_ports pubs gen) env sp db pid policy =
      Inr (Claimed pid \<lparr>cur_sourceId = pub_sourceId p, cur_publicationId = pid\<rparr> cvs, db', sp') \<and>
    map (cv_cardId \<circ> kv_version) cvs = map ku_id (pub_knowledgeUnits p) \<and>
    hasProcessed db' pid \<and>
    findCursor db' (pub_sourceId p) = Some \<lparr>cur_sourceId = pub_sourceId p, cur_publicationId = pid\<rparr> \<and>
    (\<forall>u \<in> set (pub_knowledgeUnits p). \<exists>v \<in> kv_version ` set cvs. \<exists>c. cv_cardId v = ku_id u \<and>
       history_of db' (ku_id u) = history_of db (ku_id u) @ [withChangeComparison c v]) \<and>
    (\<forall>k. k \<notin> ku_id ` set (pub_knowledgeUnits p) \<longrightarrow> history_of db' k = history_of db k)"
proof -
  obtain cvs db' sp' where ok: "intakePublication (sqlite_intake_ports pubs gen) env sp db pid policy =
      Inr (Claimed pid \<lparr>cur_sourceId = pub_sourceId p, cur_publicationId = pid\<rparr> cvs, db', sp')"
    using intake_due [where gen = gen and pubs = pubs and pid = pid and policy = policy,
        OF reached_inv [OF assms(1,2)] assms(2-5)] assms(6) by blast
  have units: "map (cv_cardId \<circ> kv_version) cvs = map ku_id (pub_knowledgeUnits p)"
    and grown: "history_of db' k = history_of db k @
       (case last_claimed k cvs of None \<Rightarrow> [] | Some v \<Rightarrow> [withChangeComparison (base_card sqlite_card_store db policy v) v])"
    and held: "hasProcessed db' pid"
      "findCursor db' (pub_sourceId p) = Some \<lparr>cur_sourceId = pub_sourceId p, cur_publicationId = pid\<rparr>" for k
    using claimed_effect [OF assms(1,2) ok] assms(3) by auto
  have ids: "ku_id ` set (pub_knowledgeUnits p) = set (map (cv_cardId \<circ> kv_version) cvs)" unfolding units by simp
  have claimed: "\<exists>v \<in> kv_version ` set cvs. \<exists>c. cv_cardId v = ku_id u \<and>
      history_of db' (ku_id u) = history_of db (ku_id u) @ [withChangeComparison c v]" if "u \<in> set (pub_knowledgeUnits p)" for u
    using last_claimed_cases [of "ku_id u" cvs] that ids grown [of "ku_id u"] by (auto split: option.splits)
  have others: "history_of db' k = history_of db k" if "k \<notin> ku_id ` set (pub_knowledgeUnits p)" for k
    using last_claimed_cases [of k cvs] that ids grown [of k] by (auto split: option.splits)
  show ?thesis using ok units held claimed others by blast
qed

theorem intake_commits_when_due_witness:
  "\<exists>cvs db' sp'. intakePublication sample_ports sample_env sample_supplies empty_db ''p1'' sample_policy =
    Inr (Claimed ''p1'' \<lparr>cur_sourceId = ''s'', cur_publicationId = ''p1''\<rparr> cvs, db', sp') \<and> hasProcessed db' ''p1''"
  using intake_commits_when_due [OF reached.start sample_ids_inj, of sample_publications "''p1''"
      "sample_publication None [sample_unit] [Added ''u'' ''d'']" sample_generator sample_supplies sample_policy]
  by (simp add: sample_publications_def sample_generator_def) (fastforce simp: sample_publication_def)

section \<open>The chain of a Source\<close>

fun linked :: "publications \<Rightarrow> string option \<Rightarrow> string list \<Rightarrow> bool" where
  "linked pubs previous [] = True"
| "linked pubs previous (q # qs) =
     (\<exists>p. pubs q = Some p \<and> pub_previousPublicationId p = previous \<and> linked pubs (Some q) qs)"

lemma linked_snoc:
  "linked pubs previous (qs @ [q]) \<longleftrightarrow> linked pubs previous qs \<and>
     (\<exists>p. pubs q = Some p \<and> pub_previousPublicationId p = (if qs = [] then previous else Some (last qs)))"
  by (induction qs arbitrary: previous) auto

definition source_chain :: "publications \<Rightarrow> registry_db \<Rightarrow> string \<Rightarrow> string list \<Rightarrow> bool" where
  "source_chain pubs db src qs \<longleftrightarrow> distinct qs \<and> linked pubs None qs \<and>
     (\<forall>q. q \<in> set qs \<longleftrightarrow> hasProcessed db q \<and> (\<exists>p. pubs q = Some p \<and> pub_sourceId p = src)) \<and>
     findCursor db src = map_option (\<lambda>q. \<lparr>cur_sourceId = src, cur_publicationId = q\<rparr>) (at_last qs)"

lemma source_chain_step:
  assumes chain: "source_chain pubs db src qs"
    and p: "pubs pid = Some p" and new: "\<not> hasProcessed db pid"
    and pos: "consumable (locateInChain (findCursor db (pub_sourceId p)) (link_of p))"
    and t: "taken_in db p pid policy cvs db'"
  shows "\<exists>qs'. source_chain pubs db' src qs'"
proof (cases "pub_sourceId p = src")
  case True
  have last: "findCursor db src = map_option (\<lambda>q. \<lparr>cur_sourceId = src, cur_publicationId = q\<rparr>) (at_last qs)"
    using chain by (simp add: source_chain_def)
  have prev: "pub_previousPublicationId p = at_last qs"
    using consumable_iff_predecessor [of "findCursor db src" "link_of p"] pos True
    by (cases "at_last qs") (auto simp: last link_of_def)
  have "linked pubs None (qs @ [pid])"
    using chain p prev by (auto simp: linked_snoc source_chain_def at_last_def)
  moreover have "pid \<notin> set qs" using chain new by (simp add: source_chain_def)
  ultimately have "source_chain pubs db' src (qs @ [pid])"
    using chain p t True by (auto simp: source_chain_def taken_in_def at_last_def)
  then show ?thesis by blast
next
  case False
  then have "source_chain pubs db' src qs" using chain p t by (auto simp: source_chain_def taken_in_def)
  then show ?thesis by blast
qed

text \<open>
  C5: the Publications a registry has consumed form, for every Source, one chain: the first
  declares no predecessor, each declares the one consumed before it, none occurs twice, and
  the cursor of the Source is the last. So no fork and no gap is ever consumed.
\<close>

theorem processed_publications_form_a_chain:
  assumes "reached pubs gen env cmds (db, sp)" and "inj (id_source env)"
  shows "\<exists>qs. distinct qs \<and> linked pubs None qs \<and>
    (\<forall>q. q \<in> set qs \<longleftrightarrow> hasProcessed db q \<and> (\<exists>p. pubs q = Some p \<and> pub_sourceId p = src)) \<and>
    findCursor db src = map_option (\<lambda>q. \<lparr>cur_sourceId = src, cur_publicationId = q\<rparr>) (at_last qs)"
proof -
  have "\<exists>qs. source_chain pubs (fst s) src qs" if "reached pubs gen env cmds s" for cmds s
    using that
  proof (induction rule: reached.induct)
    case (start sp)
    then show ?case
      by (auto simp: source_chain_def hasProcessed_def findCursor_def empty_db_def at_last_def intro: exI [of _ "[]"])
  next
    case (step cmds s cmd s')
    have inv: "registry_inv env (fst s, snd s)" using reached_inv [OF step.hyps(1) assms(2)] by simp
    have one: "registry_step pubs gen env (fst s, snd s) cmd (fst s', snd s')" using step.hyps(2) by simp
    from step.IH obtain qs where qs: "source_chain pubs (fst s) src qs" by blast
    from inv assms(2) one show ?case
    proof (cases rule: step_cases)
      case unchanged
      then show ?thesis using qs by auto
    next
      case decision
      then have "checkpoints_table (fst s') = checkpoints_table (fst s)" "cursors_table (fst s') = cursors_table (fst s)"
        by (auto simp: decision_effect_def)
      then have "source_chain pubs (fst s') src qs"
        using qs by (simp add: source_chain_def hasProcessed_def findCursor_def)
      then show ?thesis by blast
    next
      case (intake p pid policy cvs)
      show ?thesis by (rule source_chain_step [OF qs intake(2,3,4,5)])
    qed
  qed
  from this [OF assms(1)] show ?thesis by (simp add: source_chain_def)
qed

theorem processed_publications_form_a_chain_witness:
  "\<exists>db sp qs. reached sample_publications sample_generator sample_env [TakeInPublication ''p1'' sample_policy] (db, sp) \<and>
     linked sample_publications None qs \<and> ''p1'' \<in> set qs"
proof -
  obtain db sp where r: "reached sample_publications sample_generator sample_env
      [TakeInPublication ''p1'' sample_policy] (db, sp)" and only: "\<And>q. hasProcessed db q \<longleftrightarrow> q = ''p1''"
    by (rule sample_intake) (rule that; assumption)
  obtain qs where linked: "linked sample_publications None qs"
    and mem: "\<And>q. q \<in> set qs \<longleftrightarrow> hasProcessed db q \<and> (\<exists>p. sample_publications q = Some p \<and> pub_sourceId p = ''s'')"
    using processed_publications_form_a_chain [OF r sample_ids_inj, of "''s''"]
    by (elim exE conjE) (rule that; (assumption | erule spec))
  have "''p1'' \<in> set qs" by (simp add: mem only sample_publications_def sample_publication_def)
  then show ?thesis by (intro exI [of _ db] exI [of _ sp] exI [of _ qs] conjI r linked)
qed

section \<open>Withdrawals\<close>

text \<open>
  C6: after an intake no Card serves a version that the Publication's changes block or
  disable; in particular none serves a unit the Publication removed.
\<close>

theorem intake_withdraws_impacted:
  assumes "reached pubs gen env cmds (db, sp)" and "inj (id_source env)"
    and "intakePublication (sqlite_intake_ports pubs gen) env sp db pid policy = Inr (Claimed q cursor cvs, db', sp')"
    and "pubs pid = Some p" and "change \<in> set (pub_changes p)"
    and "v \<in> set (history_of db' k)" and "current_of db' k = Some (cv_id v)"
  shows "ci_decision (analyzeCardImpact v change (map_of (units_by_id (pub_knowledgeUnits p)) (ch_unitId change))
            (documentIndexesWithRemovals p (listCurrentVersions db))) \<notin> {BlockImpact, DisableImpact} \<and>
    \<not> (is_removed change \<and> ch_unitId change = ln_knowledgeUnitId (cv_lineage v))"
proof -
  let ?impact = "analyzeCardImpact v change (map_of (units_by_id (pub_knowledgeUnits p)) (ch_unitId change))
            (documentIndexesWithRemovals p (listCurrentVersions db))"
  have inv: "registry_inv env (db, sp)" by (rule reached_inv [OF assms(1,2)])
  then have dbi: "db_inv db" by (simp add: registry_inv_def)
  have t: "taken_in db p pid policy cvs db'" and inv': "registry_inv env (db', sp')"
    and fresh: "\<forall>cv \<in> set cvs. cv_id (kv_version cv) \<notin> version_ids db"
    using intake_sqlite [OF inv assms(2,3)] assms(4) by (auto simp: is_claimed_def)
  have kept: "\<not> withdrawn_by (publicationImpacts p (listCurrentVersions db)) k" "current_of db k = Some (cv_id v)"
    using taken_in_current [OF t, of k] assms(7) by (auto split: if_splits)
  then obtain c where c: "findCard db k = Some c" "vh_currentVersionId (cc_versions c) = Some (cv_id v)"
    by (auto simp: current_of_def bind_eq_Some_conv)
  have wf: "history_wf (cc_versions c)" using findCard_wf [OF dbi c(1)] by (simp add: card_wf_def)
  obtain w where w: "getCurrentCardVersion (cc_versions c) = Some w" "cv_id w = cv_id v" "w \<in> set (history_of db k)"
    using current_resolves [OF wf c(2)] getCurrentCardVersion_eq_Some [OF wf] c(1) by auto
  have dbi': "db_inv db'" using inv' by (simp add: registry_inv_def)
  have "w \<in> set (history_of db' k)" using w(3) taken_in_history [OF dbi fresh t, of k] by simp
  then have "w = v"
    using assms(6) w(2) card_versions_distinct [OF dbi', of k]
    by (simp add: history_eq_card_versions [OF dbi'] distinct_map inj_on_def)
  then have serving: "v \<in> set (listCurrentVersions db)" and own: "cv_cardId v = k"
    using listCurrentVersions_mem [OF dbi] c(1) w(1) assms(6) history_eq_card_versions [OF dbi']
    by (auto simp: card_versions_mem)
  have cid: "ci_cardId ?impact = k"
    unfolding analyzeCardImpact_def Let_def own by (auto split: option.split)
  have "ci_decision ?impact \<notin> {BlockImpact, DisableImpact}"
  proof
    assume bad: "ci_decision ?impact \<in> {BlockImpact, DisableImpact}"
    then have "?impact \<in> set (publicationImpacts p (listCurrentVersions db))"
      using serving assms(5) unfolding publicationImpacts_def Let_def by force
    moreover have "withdraws ?impact" using bad by (auto simp: withdraws_def)
    ultimately show False using kept(1) cid unfolding withdrawn_by_def by blast
  qed
  moreover have "ci_decision ?impact = DisableImpact" if "is_removed change" "ch_unitId change = ln_knowledgeUnitId (cv_lineage v)"
    using that by (simp add: analyzeCardImpact_def Let_def)
  ultimately show ?thesis by auto
qed

text \<open>Witness: the second sample Publication removes the unit of the serving version.\<close>

theorem intake_withdraws_impacted_witness:
  "\<exists>db sp cvs db' sp'. reached sample_publications sample_generator sample_env
       [TakeInPublication ''p1'' sample_policy, ApproveVersion ''u'' ''id'' sample_decision] (db, sp) \<and>
     intakePublication sample_ports sample_env sp db ''p2'' sample_policy =
       Inr (Claimed ''p2'' \<lparr>cur_sourceId = ''s'', cur_publicationId = ''p2''\<rparr> cvs, db', sp') \<and>
     current_of db ''u'' = Some ''id'' \<and> current_of db' ''u'' \<noteq> Some ''id''"
proof -
  let ?p = "sample_publication (Some ''p1'') [] [Removed ''u'' ''d'']"
  obtain db sp where r: "reached sample_publications sample_generator sample_env
       [TakeInPublication ''p1'' sample_policy, ApproveVersion ''u'' ''id'' sample_decision] (db, sp)"
    and h: "history_of db ''u'' = [first_version]" and cur: "current_of db ''u'' = Some ''id''"
    and new: "\<not> hasProcessed db ''p2''"
    and cursor: "findCursor db ''s'' = Some \<lparr>cur_sourceId = ''s'', cur_publicationId = ''p1''\<rparr>"
    by (rule sample_approval) (rule that; assumption)
  have p: "sample_publications ''p2'' = Some ?p" by (simp add: sample_publications_def)
  have sel: "pub_sourceId ?p = ''s''" "pub_changes ?p = [Removed ''u'' ''d'']"
    "pub_previousPublicationId ?p = Some ''p1''"
    by (simp_all add: sample_publication_def)
  have due: "pub_previousPublicationId ?p = map_option cur_publicationId (findCursor db (pub_sourceId ?p))"
    by (simp add: sel cursor)
  have answers: "\<exists>answer. sample_generator n coordinate facts = Inr answer" for n coordinate facts
    by (simp add: sample_generator_def)
  obtain cvs db' sp' where run: "intakePublication sample_ports sample_env sp db ''p2'' sample_policy =
       Inr (Claimed ''p2'' \<lparr>cur_sourceId = ''s'', cur_publicationId = ''p2''\<rparr> cvs, db', sp')"
    using intake_due [where gen = sample_generator and pubs = sample_publications and pid = "''p2''" and policy = sample_policy,
        OF reached_inv [OF r sample_ids_inj] sample_ids_inj p new due answers]
    unfolding sel by (elim exE) (rule that)
  have step: "registry_step sample_publications sample_generator sample_env (db, sp)
       (TakeInPublication ''p2'' sample_policy) (db', sp')"
    by (rule registry_step.performed) (simp add: run)
  have mem: "first_version \<in> set (history_of db' ''u'')"
    using step_history [OF reached_inv [OF r sample_ids_inj] sample_ids_inj step, of "''u''"] h by auto
  have "current_of db' ''u'' \<noteq> Some ''id''"
  proof
    assume "current_of db' ''u'' = Some ''id''"
    then have serving: "current_of db' ''u'' = Some (cv_id first_version)" by simp
    have change: "Removed ''u'' ''d'' \<in> set (pub_changes ?p)" by (simp add: sel)
    show False
      using intake_withdraws_impacted [OF r sample_ids_inj run p change mem serving] by (simp add: is_removed_def)
  qed
  then show ?thesis
    by (intro exI [of _ db] exI [of _ sp] exI [of _ cvs] exI [of _ db'] exI [of _ sp'] conjI r run cur)
qed

end
