(* ===== verification/Decision_Properties.thy ===== *)
theory Decision_Properties
  imports Registry_Properties
begin

text \<open>
  What one operator decision does to registry.db, and the two projections of the store: a
  Card reads back as it was saved, and the approved catalog is the list of serving Cards.
\<close>

section \<open>A concrete registry for the witnesses\<close>

text \<open>One Card with three validated versions, the second of them serving.\<close>

definition sample_db :: registry_db where
  "sample_db = empty_db\<lparr>
     cards_table := [\<lparr>cr_cardId = ''c'', cr_meaning = sample_meaning, cr_policy = sample_policy,
                      cr_currentVersionId = Some ''v2''\<rparr>],
     versions_table := [\<lparr>vr_version = sample_version ''v1'' ''c'' Validated, vr_appendOrder = 1\<rparr>,
                        \<lparr>vr_version = sample_version ''v2'' ''c'' Validated, vr_appendOrder = 2\<rparr>,
                        \<lparr>vr_version = sample_version ''v3'' ''c'' Validated, vr_appendOrder = 3\<rparr>]\<rparr>"

definition sample_twin :: registry_db where
  "sample_twin = sample_db\<lparr>checkpoints_table := [\<lparr>kr_publicationId = ''p'', kr_sourceId = ''s'', kr_processedAt = ''t''\<rparr>]\<rparr>"

lemma sample_version_sel [simp]:
  "cv_id (sample_version i k st) = i" "cv_cardId (sample_version i k st) = k"
  "cv_validationState (sample_version i k st) = st" "cv_scopes (sample_version i k st) = []"
  "cv_meaning (sample_version i k st) = None"
  by (simp_all add: sample_version_def)

lemma sample_db_inv: "db_inv sample_db"
  by (simp add: db_inv_def sample_db_def empty_db_def version_key_def pointer_ok_def)

definition sample_stored :: context_card where
  "sample_stored = \<lparr>cc_id = ''c'', cc_meaning = sample_meaning, cc_policy = sample_policy,
     cc_versions = \<lparr>vh_cardId = ''c'',
       vh_versions = [sample_version ''v1'' ''c'' Validated, sample_version ''v2'' ''c'' Validated,
                      sample_version ''v3'' ''c'' Validated],
       vh_currentVersionId = Some ''v2''\<rparr>\<rparr>"

lemma sample_found: "findCard sample_db ''c'' = Some sample_stored"
  by (simp add: findCard_eq [OF sample_db_inv]) (simp add: sample_db_def stored_card_def card_versions_def sample_stored_def)

lemma sample_entries: "filter (\<lambda>e. ce_cardId e \<noteq> ''c'') (approvedEntries sample_db) = []"
proof -
  have "ce_cardId e = ''c''" if e: "e \<in> set (approvedEntries sample_db)" for e
  proof -
    obtain c where "findCard sample_db (ce_cardId e) = Some c"
      using iffD1 [OF approvedEntries_mem [OF sample_db_inv] e] by (elim exE conjE)
    then have "ce_cardId e \<in> cr_cardId ` set (cards_table sample_db)"
      by (metis findCard_None_iff option.distinct(1))
    then show ?thesis by (simp add: sample_db_def)
  qed
  then show ?thesis by simp
qed

lemma sample_no_events: "events_table sample_db = []"
  by (simp add: sample_db_def empty_db_def)

lemma sample_approve:
  assumes "i \<in> {''v1'', ''v3''}"
  shows "\<exists>c db sp. approveCardVersion sqlite_card_store sample_env sample_supplies sample_db ''c'' i sample_decision
    = Inr (c, db, sp)"
proof -
  let ?h = "(cc_versions sample_stored)\<lparr>vh_currentVersionId := Some i\<rparr>"
  have h: "promoteCardVersion (cc_versions sample_stored) i = Inr ?h"
    using assms by (auto simp: promoteCardVersion_eq_Inr sample_stored_def)
  have entry: "toCardCatalogEntry (promotedCard sample_stored ?h i) =
      Some \<lparr>ce_cardId = ''c'', ce_versionId = i, ce_meaning = sample_meaning, ce_policy = sample_policy, ce_scopes = []\<rparr>"
    using assms by (auto simp: toCardCatalogEntry_def getCurrentCardVersion_def promotedCard_def Let_def
        withCardVersions_def sample_stored_def)
  have len: "length i = 2" using assms by auto
  have "canonicalContractByteLength (json_of_entries
      [\<lparr>ce_cardId = ''c'', ce_versionId = i, ce_meaning = sample_meaning, ce_policy = sample_policy, ce_scopes = []\<rparr>])
      \<le> sl_canonicalBytes SNAPSHOT_LIMITS"
    by (rule order_trans [OF canonicalContractByteLength_bound])
      (simp add: json_of_entries_def json_of_entry_def json_texts_def sample_meaning_def sample_policy_def
        SNAPSHOT_LIMITS_def len)
  then have "checkCatalogSnapshotLimits
      [\<lparr>ce_cardId = ''c'', ce_versionId = i, ce_meaning = sample_meaning, ce_policy = sample_policy, ce_scopes = []\<rparr>] = []"
    by (simp add: checkCatalogSnapshotLimits_def Let_def) (simp add: SNAPSHOT_LIMITS_def len)
  then have size: "refuseOversizedCatalog sqlite_card_store sample_db (promotedCard sample_stored ?h i) = Inr ()"
    by (simp add: refuseOversizedCatalog_def entry sample_entries Let_def)
  show ?thesis
    using sqlite.approve_succeeds [OF sample_db_inv _ h size, of "''c''" sample_env sample_supplies sample_decision]
      sample_found by auto
qed

section \<open>Saving and reading back\<close>

text \<open>
  A Card whose stored versions are a prefix of its history and whose new version ids are
  unused reads back exactly as it was saved; every other Card reads as before, the rows of
  the versions table are kept and only followed by new ones, and the table invariants hold.
\<close>

theorem saveCard_findCard:
  assumes "db_inv db" and "card_wf c"
    and "vh_versions (cc_versions c) = history_of db (cc_id c) @ added"
    and "cv_id ` set added \<inter> version_ids db = {}"
  shows "\<exists>db'. saveCard db c es = Inr db' \<and> db_inv db' \<and> findCard db' (cc_id c) = Some c \<and>
    (\<forall>k. k \<noteq> cc_id c \<longrightarrow> findCard db' k = findCard db k) \<and>
    (\<exists>rows. versions_table db' = versions_table db @ rows)"
proof -
  have w: "writable (findCard db (cc_id c)) (version_ids db) c"
    using assms(2-4) by (auto simp: writable_def history_of_def)
  obtain db' where save: "saveCard db c es = Inr db'"
    using sqlite.save_succeeds [of db c es] assms(1) w by auto
  from saveCard_spec [OF assms(1) w save] save show ?thesis by auto
qed

theorem saveCard_findCard_witness:
  "\<exists>db'. saveCard empty_db (createContextCard ''c'' sample_meaning sample_policy) [] = Inr db' \<and>
     findCard db' ''c'' = Some (createContextCard ''c'' sample_meaning sample_policy)"
proof -
  have c: "cc_id (createContextCard ''c'' sample_meaning sample_policy) = ''c''"
    "vh_versions (cc_versions (createContextCard ''c'' sample_meaning sample_policy)) =
       history_of empty_db (cc_id (createContextCard ''c'' sample_meaning sample_policy)) @ []"
    by (simp_all add: createContextCard_def createCardVersionHistory_def)
  show ?thesis
    using saveCard_findCard [OF db_inv_empty card_wf_create c(2), of "[]"] c(1) by auto
qed

section \<open>The catalog\<close>

lemma current_rows_distinct:
  "distinct (map version_key vs) \<Longrightarrow> distinct (map cr_cardId cs) \<Longrightarrow>
   distinct (map (cr_cardId \<circ> fst) (concat (map (\<lambda>r. map (\<lambda>c. (c, vr_version r))
      (filter (\<lambda>c. cr_currentVersionId c = Some (version_key r)) cs)) vs)))"
proof (induction vs)
  case Nil
  then show ?case by simp
next
  case (Cons r vs)
  have "distinct (map cr_cardId (filter (\<lambda>c. cr_currentVersionId c = Some (version_key r)) cs))"
    using Cons.prems(2) by (rule distinct_map_filter)
  moreover have "cr_cardId c \<noteq> cr_cardId d"
    if "c \<in> set cs" "cr_currentVersionId c = Some (version_key r)"
       "r' \<in> set vs" "d \<in> set cs" "cr_currentVersionId d = Some (version_key r')" for c d r'
  proof
    assume "cr_cardId c = cr_cardId d"
    then have "c = d" using Cons.prems(2) that(1,4) by (simp add: distinct_map inj_on_def)
    then have "version_key r = version_key r'" using that by simp
    then show False using Cons.prems(1) that(3) by simp
  qed
  ultimately show ?case using Cons.IH Cons.prems by (simp add: comp_def) fastforce
qed

lemma approvedEntries_distinct:
  assumes "db_inv db"
  shows "distinct (map ce_cardId (approvedEntries db))"
  using current_rows_distinct [OF db_invD(2,1) [OF assms]]
  by (simp add: approvedEntries_def current_rows_def versions_in_order_id [OF assms] entry_of_row_def
      comp_def case_prod_beta)

text \<open>
  The approved catalog, which the store computes as a join of two tables, holds exactly
  one entry per serving Card: the projection of the Card \<open>findCard\<close> returns.
\<close>

theorem catalog_is_projection:
  assumes "db_inv db"
  shows "distinct (map ce_cardId (approvedEntries db)) \<and>
    (\<forall>e. e \<in> set (approvedEntries db) \<longleftrightarrow>
       (\<exists>c. findCard db (ce_cardId e) = Some c \<and> toCardCatalogEntry c = Some e))"
  using approvedEntries_distinct [OF assms] approvedEntries_mem [OF assms] by blast

theorem catalog_is_projection_witness:
  "\<exists>e \<in> set (approvedEntries sample_db). ce_cardId e = ''c'' \<and> ce_versionId e = ''v2''"
proof -
  let ?e = "\<lparr>ce_cardId = ''c'', ce_versionId = ''v2'', ce_meaning = sample_meaning, ce_policy = sample_policy, ce_scopes = []\<rparr>"
  have "toCardCatalogEntry sample_stored = Some ?e"
    by (simp add: toCardCatalogEntry_def getCurrentCardVersion_def sample_stored_def)
  then have "?e \<in> set (approvedEntries sample_db)"
    using catalog_is_projection [OF sample_db_inv] sample_found by simp
  then show ?thesis by (intro bexI [of _ ?e]) simp_all
qed

lemma approvedEntries_image:
  assumes "db_inv db"
  shows "set (approvedEntries db) = {e. \<exists>k c. findCard db k = Some c \<and> toCardCatalogEntry c = Some e}"
  using approvedEntries_mem [OF assms] findCard_wf [OF assms] entry_cardId by (auto 4 4)

lemma distinct_map_elems: "distinct (map f xs) \<Longrightarrow> distinct xs"
  by (simp add: distinct_map)

text \<open>
  The catalog after a Card was replaced: the other entries, and the Card's own if it serves.
\<close>

lemma catalog_replaced:
  assumes inv: "db_inv db" and r: "replaced db k c db'" and k: "cc_id c = k"
  shows "mset (approvedEntries db') =
    mset (filter (\<lambda>e. ce_cardId e \<noteq> k) (approvedEntries db)) +
    (case toCardCatalogEntry c of None \<Rightarrow> {#} | Some e \<Rightarrow> {#e#})"
proof -
  let ?own = "case toCardCatalogEntry c of None \<Rightarrow> [] | Some e \<Rightarrow> [e]"
  have inv': "db_inv db'" and find: "\<And>j. findCard db' j = (if j = k then Some c else findCard db j)"
    using r by (auto simp: replaced_def)
  have own: "e \<in> set ?own \<longleftrightarrow> toCardCatalogEntry c = Some e" for e by (auto split: option.split)
  have "set (approvedEntries db') = set (filter (\<lambda>e. ce_cardId e \<noteq> k) (approvedEntries db) @ ?own)"
  proof (rule set_eqI)
    fix e
    show "e \<in> set (approvedEntries db') \<longleftrightarrow>
        e \<in> set (filter (\<lambda>e. ce_cardId e \<noteq> k) (approvedEntries db) @ ?own)"
      unfolding set_append set_filter Un_iff own approvedEntries_mem [OF inv'] find
      using approvedEntries_mem [OF inv, of e] entry_cardId [of c e] k by auto
  qed
  moreover have "distinct (approvedEntries db')"
    using approvedEntries_distinct [OF inv'] by (rule distinct_map_elems)
  moreover have "distinct (filter (\<lambda>e. ce_cardId e \<noteq> k) (approvedEntries db) @ ?own)"
    using approvedEntries_distinct [OF inv] entry_cardId [of c] k
    by (auto dest: distinct_map_elems split: option.split)
  ultimately have "mset (approvedEntries db') = mset (filter (\<lambda>e. ce_cardId e \<noteq> k) (approvedEntries db) @ ?own)"
    by (simp only: set_eq_iff_mset_eq_distinct)
  then show ?thesis by (auto split: option.splits)
qed

section \<open>The catalog limits\<close>

lemma utf8_length_append [simp]: "utf8_length (a @ b) = utf8_length a + utf8_length b"
  by (simp add: utf8_length_def)

lemma utf8_length_Cons [simp]: "utf8_length (c # s) = (if code_unit c < 128 then 1 else 2) + utf8_length s"
  by (simp add: utf8_length_def)

lemma utf8_length_join:
  "utf8_length (join sep xs) + utf8_length sep * (if xs = [] then 1 else 0) + utf8_length sep =
     sum_list (map (\<lambda>x. utf8_length x + utf8_length sep) xs) + utf8_length sep * (if xs = [] then 2 else 0)"
proof (induction sep xs rule: join.induct)
  case (1 sep)
  then show ?case by (simp add: utf8_length_def)
qed simp_all

lemma json_bytes_mset:
  assumes "mset xs = mset ys"
  shows "canonicalContractByteLength (json_of_entries xs) = canonicalContractByteLength (json_of_entries ys)"
proof -
  let ?f = "\<lambda>e. canonicalContractJson (json_of_entry e)"
  have empty: "xs = [] \<longleftrightarrow> ys = []" using assms by (metis mset_zero_iff)
  have "sum_list (map (\<lambda>x. utf8_length x + utf8_length '','') (map ?f xs)) =
      sum_list (map (\<lambda>x. utf8_length x + utf8_length '','') (map ?f ys))"
    unfolding sum_mset_sum_list [symmetric] mset_map assms by (rule refl)
  then have "utf8_length (join '','' (map ?f xs)) = utf8_length (join '','' (map ?f ys))"
    using utf8_length_join [of "'',''" "map ?f xs"] utf8_length_join [of "'',''" "map ?f ys"] empty by auto
  then show ?thesis by (simp add: canonicalContractByteLength_def json_of_entries_def comp_def)
qed

lemma checkCatalogSnapshotLimits_ok_iff:
  "checkCatalogSnapshotLimits cards = [] \<longleftrightarrow>
     length cards \<le> sl_cards SNAPSHOT_LIMITS \<and>
     canonicalContractByteLength (json_of_entries cards) \<le> sl_canonicalBytes SNAPSHOT_LIMITS \<and>
     (\<forall>e \<in> set cards. length (ce_cardId e) \<le> sl_token SNAPSHOT_LIMITS \<and>
        length (ce_versionId e) \<le> sl_token SNAPSHOT_LIMITS)"
  by (auto simp: checkCatalogSnapshotLimits_def Let_def not_less)

lemma checkCatalogSnapshotLimits_mset:
  "mset xs = mset ys \<Longrightarrow> checkCatalogSnapshotLimits xs = [] \<longleftrightarrow> checkCatalogSnapshotLimits ys = []"
  unfolding checkCatalogSnapshotLimits_ok_iff
  by (metis json_bytes_mset mset_eq_setD size_mset)

text \<open>
  The catalog that a successful approval or rollback leaves is within every limit of the
  read contract, however large it was before: at most 10000 cards, 64 MiB of canonical JSON
  and 256 code units per id.
\<close>

theorem approval_respects_catalog_limits:
  assumes "db_inv db" and "approveCardVersion sqlite_card_store env sp db k i d = Inr (c, db', sp')"
  shows "checkCatalogSnapshotLimits (approvedEntries db') = []"
proof -
  obtain c0 h where c0: "findCard db k = Some c0" and h: "promoteCardVersion (cc_versions c0) i = Inr h"
    and c: "c = promotedCard c0 h i" and size: "refuseOversizedCatalog sqlite_card_store db c = Inr ()"
    and r: "replaced db k c db'"
    using approve_sqlite [OF assms] by blast
  have k: "cc_id c = k" using findCard_wf [OF assms(1) c0] c by simp
  have "current_of db' k = Some i" using r promote_sel(3) [OF h] c by (simp add: replaced_current)
  have wf: "history_wf (cc_versions c)"
    using findCard_wf [OF assms(1) c0] history_wf_promote [OF _ h] c by (simp add: card_wf_def)
  obtain v where "getCurrentCardVersion (cc_versions c) = Some v"
    using current_resolves [OF wf] promote_sel(3) [OF h] c by auto
  then obtain e where e: "toCardCatalogEntry c = Some e" by (simp add: toCardCatalogEntry_def)
  have "checkCatalogSnapshotLimits (filter (\<lambda>x. ce_cardId x \<noteq> k) (approvedEntries db) @ [e]) = []"
    using size e entry_cardId [OF e] k by (auto simp: refuseOversizedCatalog_def Let_def split: if_splits)
  then show ?thesis
    using checkCatalogSnapshotLimits_mset [of "approvedEntries db'"
        "filter (\<lambda>x. ce_cardId x \<noteq> k) (approvedEntries db) @ [e]"] catalog_replaced [OF assms(1) r k] e
    by simp
qed

theorem approval_respects_catalog_limits_witness:
  "\<exists>c db sp. approveCardVersion sqlite_card_store sample_env sample_supplies sample_db ''c'' ''v3'' sample_decision
     = Inr (c, db, sp) \<and> checkCatalogSnapshotLimits (approvedEntries db) = []"
proof -
  obtain c db sp where ok: "approveCardVersion sqlite_card_store sample_env sample_supplies sample_db ''c'' ''v3'' sample_decision
      = Inr (c, db, sp)"
    using sample_approve [of "''v3''"] by auto
  show ?thesis using approval_respects_catalog_limits [OF sample_db_inv ok] ok by auto
qed

section \<open>The audit trail of a decision\<close>

lemma readLifecycleEvents_inv:
  assumes "db_inv db"
  shows "readLifecycleEvents db k = filter (\<lambda>e. le_cardId e = k) (map er_event (events_table db))"
  by (simp add: readLifecycleEvents_def sort_key_strict [OF db_invD(7) [OF assms]] filter_map comp_def)

lemma decision_event:
  assumes inv: "db_inv db" and c0: "findCard db k = Some c0" and wf: "card_wf c" "cc_id c = k"
    and vs: "vh_versions (cc_versions c) = vh_versions (cc_versions c0)"
    and save: "saveCard db c [e] = Inr db'" and e: "le_cardId e = k"
    and fresh: "le_id e \<notin> event_key ` set (events_table db)"
  shows "readLifecycleEvents db' j = readLifecycleEvents db j @ (if j = k then [e] else [])"
proof -
  have w: "writable (findCard db (cc_id c)) (version_ids db) c"
    using c0 wf vs by (simp add: writable_same_versions)
  have "map er_event (events_table db') = map er_event (events_table db) @ [e]"
    using saveCard_spec(8) [OF inv w save] fresh by simp
  then show ?thesis
    using readLifecycleEvents_inv [OF inv] readLifecycleEvents_inv [OF saveCard_spec(1) [OF inv w save]] e
    by simp
qed

text \<open>
  An approval that succeeds makes exactly that version of that Card serve, keeps the
  history, leaves every other Card and its events alone, takes the words of the version as
  the Card's words when the version has them, and appends the promotion, naming who decided
  and what served before, to the Card's events.
\<close>

theorem approve_effect_on_registry:
  assumes "db_inv db" and "approveCardVersion sqlite_card_store env sp db k i d = Inr (c, db', sp')"
    and "id_source env (ids_drawn sp) \<notin> event_key ` set (events_table db)"
  shows "current_of db' k = Some i \<and> history_of db' k = history_of db k \<and>
    (\<exists>v \<in> set (history_of db k). cv_id v = i \<and> cv_validationState v = Validated \<and>
       (\<forall>m. cv_meaning v = Some m \<longrightarrow> cc_meaning c = m)) \<and>
    findCard db' k = Some c \<and> (\<forall>j. j \<noteq> k \<longrightarrow> findCard db' j = findCard db j) \<and>
    (\<forall>j. readLifecycleEvents db' j = readLifecycleEvents db j @
       (if j = k then [\<lparr>le_id = id_source env (ids_drawn sp), le_cardId = k,
            le_occurredAt = clock_source env (clock_reads sp),
            le_body = CardVersionPromoted i (current_of db k) (od_decidedBy d) (od_note d)\<rparr>] else []))"
proof -
  obtain c0 h where c0: "findCard db k = Some c0" and h: "promoteCardVersion (cc_versions c0) i = Inr h"
    and c: "c = promotedCard c0 h i" and r: "replaced db k c db'"
    and save: "saveCard db c [\<lparr>le_id = id_source env (ids_drawn sp), le_cardId = k,
       le_occurredAt = clock_source env (clock_reads sp),
       le_body = CardVersionPromoted i (current_of db k) (od_decidedBy d) (od_note d)\<rparr>] = Inr db'"
    using approve_effect [OF assms(1,2)] by blast
  have wf: "card_wf c" "cc_id c = k"
    using findCard_wf [OF assms(1) c0] history_wf_promote [OF _ h] promote_sel [OF h] c by (auto simp: card_wf_def)
  have vs: "vh_versions (cc_versions c) = vh_versions (cc_versions c0)" using promote_sel [OF h] c by simp
  obtain v where v: "List.find (\<lambda>v. cv_id v = i) (vh_versions (cc_versions c0)) = Some v" "cv_validationState v = Validated"
    using h by (auto simp: promoteCardVersion_eq_Inr)
  have "\<forall>m. cv_meaning v = Some m \<longrightarrow> cc_meaning c = m"
    using v(1) c promote_sel [OF h] by (simp add: promotedCard_def Let_def withCardMeaning_def)
  then have "\<exists>v \<in> set (history_of db k). cv_id v = i \<and> cv_validationState v = Validated \<and>
       (\<forall>m. cv_meaning v = Some m \<longrightarrow> cc_meaning c = m)"
    using v c0 find_Some_set [OF v(1)] by auto
  moreover have "current_of db' k = Some i" "history_of db' k = history_of db k"
    using r c0 vs c promote_sel [OF h] by (simp_all add: replaced_current replaced_history)
  ultimately show ?thesis
    using r decision_event [OF assms(1) c0 wf vs save] assms(3) by (simp add: replaced_def)
qed

theorem approve_effect_on_registry_witness:
  "\<exists>c db sp. approveCardVersion sqlite_card_store sample_env sample_supplies sample_db ''c'' ''v3'' sample_decision
     = Inr (c, db, sp) \<and> current_of db ''c'' = Some ''v3''"
proof -
  obtain c db sp where ok: "approveCardVersion sqlite_card_store sample_env sample_supplies sample_db ''c'' ''v3'' sample_decision
      = Inr (c, db, sp)"
    using sample_approve [of "''v3''"] by auto
  show ?thesis using approve_effect_on_registry [OF sample_db_inv ok] ok sample_no_events by auto
qed

text \<open>
  An approval succeeds exactly when the Card is stored, the version is in its history
  and validated, and the catalog with the promoted Card is within the limits; no other
  state makes it fail.
\<close>

theorem approve_succeeds_iff:
  assumes "db_inv db"
  shows "(\<exists>c db' sp'. approveCardVersion sqlite_card_store env sp db k i d = Inr (c, db', sp')) \<longleftrightarrow>
    (\<exists>c0 h. findCard db k = Some c0 \<and>
       (\<exists>v \<in> set (history_of db k). cv_id v = i \<and> cv_validationState v = Validated) \<and>
       h = (cc_versions c0)\<lparr>vh_currentVersionId := Some i\<rparr> \<and>
       refuseOversizedCatalog sqlite_card_store db (promotedCard c0 h i) = Inr ())"
proof -
  have promote: "promoteCardVersion (cc_versions c0) i = Inr h \<longleftrightarrow>
      (\<exists>v \<in> set (history_of db k). cv_id v = i \<and> cv_validationState v = Validated) \<and>
      h = (cc_versions c0)\<lparr>vh_currentVersionId := Some i\<rparr>" if c0: "findCard db k = Some c0" for c0 h
  proof -
    have "distinct (map cv_id (vh_versions (cc_versions c0)))"
      using findCard_wf [OF assms c0] by (simp add: card_wf_def history_wf_def)
    then have "List.find (\<lambda>v. cv_id v = i) (vh_versions (cc_versions c0)) = Some v \<longleftrightarrow>
        v \<in> set (vh_versions (cc_versions c0)) \<and> cv_id v = i" for v
      by (rule find_key_iff)
    then show ?thesis using c0 by (auto simp: promoteCardVersion_eq_Inr)
  qed
  show ?thesis
  proof
    assume "\<exists>c db' sp'. approveCardVersion sqlite_card_store env sp db k i d = Inr (c, db', sp')"
    then show "\<exists>c0 h. findCard db k = Some c0 \<and>
       (\<exists>v \<in> set (history_of db k). cv_id v = i \<and> cv_validationState v = Validated) \<and>
       h = (cc_versions c0)\<lparr>vh_currentVersionId := Some i\<rparr> \<and>
       refuseOversizedCatalog sqlite_card_store db (promotedCard c0 h i) = Inr ()"
      using approve_sqlite [OF assms] promote by metis
  next
    assume "\<exists>c0 h. findCard db k = Some c0 \<and>
       (\<exists>v \<in> set (history_of db k). cv_id v = i \<and> cv_validationState v = Validated) \<and>
       h = (cc_versions c0)\<lparr>vh_currentVersionId := Some i\<rparr> \<and>
       refuseOversizedCatalog sqlite_card_store db (promotedCard c0 h i) = Inr ()"
    then obtain c0 h where c0: "findCard db k = Some c0"
      and h: "promoteCardVersion (cc_versions c0) i = Inr h"
      and size: "refuseOversizedCatalog sqlite_card_store db (promotedCard c0 h i) = Inr ()"
      using promote by metis
    show "\<exists>c db' sp'. approveCardVersion sqlite_card_store env sp db k i d = Inr (c, db', sp')"
      using sqlite.approve_succeeds [OF assms _ h size, of k env sp d] c0 by auto
  qed
qed

theorem approve_succeeds_iff_witness:
  "\<not> (\<exists>c db sp. approveCardVersion sqlite_card_store sample_env sample_supplies sample_db ''c'' ''v9'' sample_decision
     = Inr (c, db, sp))"
  using approve_succeeds_iff [OF sample_db_inv, of sample_env sample_supplies "''c''" "''v9''" sample_decision] sample_found
  by (simp add: sample_stored_def)

text \<open>
  C11: a rollback only goes back, and only to what passed validation: the version it makes serving is
  validated and stands strictly before the one that was serving in the Card's history.
\<close>

theorem rollback_goes_back:
  assumes "db_inv db" and "rollbackCardVersion sqlite_card_store env sp db k i d = Inr (c, db', sp')"
  shows "current_of db' k = Some i \<and>
    (\<exists>m n. m < n \<and> n < length (history_of db k) \<and> cv_id (history_of db k ! m) = i \<and>
       cv_validationState (history_of db k ! m) = Validated \<and>
       current_of db k = Some (cv_id (history_of db k ! n)))"
proof -
  obtain c0 where ok: "approveCardVersion sqlite_card_store env sp db k i d = Inr (c, db', sp')"
    and c0: "findCard db k = Some c0" and before: "precedesCurrentCardVersion (cc_versions c0) i"
    using rollback_sqlite [OF assms] by blast
  obtain h where h: "promoteCardVersion (cc_versions c0) i = Inr h" and r: "c = promotedCard c0 h i" "replaced db k c db'"
    using approve_sqlite [OF assms(1) ok] c0 by auto
  have serving: "current_of db' k = Some i" using h r by (simp add: replaced_current promote_sel)
  obtain m n cur where cur: "vh_currentVersionId (cc_versions c0) = Some cur"
      "find_index (\<lambda>v. cv_id v = i) (vh_versions (cc_versions c0)) = Some m"
      "find_index (\<lambda>v. cv_id v = cur) (vh_versions (cc_versions c0)) = Some n" "m < n"
    using before by (auto simp: precedesCurrentCardVersion_def split: option.splits)
  obtain v where v: "v \<in> set (vh_versions (cc_versions c0))" "cv_id v = i" "cv_validationState v = Validated"
    using h by (auto simp: promoteCardVersion_eq_Inr dest: find_Some_set)
  have "distinct (map cv_id (vh_versions (cc_versions c0)))"
    using findCard_wf [OF assms(1) c0] by (simp add: card_wf_def history_wf_def)
  then have "v = vh_versions (cc_versions c0) ! m"
    using v cur(2) unfolding find_index_Some by (metis eq_key_imp_eq_value distinct_map inj_onD nth_mem)
  then show ?thesis using serving c0 cur v(3) unfolding find_index_Some by auto
qed

theorem rollback_goes_back_witness:
  "\<exists>c db sp. rollbackCardVersion sqlite_card_store sample_env sample_supplies sample_db ''c'' ''v1'' sample_decision
     = Inr (c, db, sp) \<and> current_of db ''c'' = Some ''v1''"
proof -
  obtain c db sp where ok: "approveCardVersion sqlite_card_store sample_env sample_supplies sample_db ''c'' ''v1'' sample_decision
      = Inr (c, db, sp)"
    using sample_approve [of "''v1''"] by auto
  have "rollbackCardVersion sqlite_card_store sample_env sample_supplies sample_db ''c'' ''v1'' sample_decision = Inr (c, db, sp)"
    using ok by (simp add: rollbackCardVersion_def loadCard_def sample_found precedesCurrentCardVersion_def sample_stored_def)
  then show ?thesis using rollback_goes_back [OF sample_db_inv] by blast
qed

text \<open>
  Disabling a Card takes its entry out of the catalog and no other, keeps its history
  and words, and records which version was withdrawn and by whom.
\<close>

theorem disable_effect_on_registry:
  assumes "db_inv db" and "disableCard sqlite_card_store env sp db k d = Inr (c, db', sp')"
    and "id_source env (ids_drawn sp) \<notin> event_key ` set (events_table db)"
  shows "current_of db' k = None \<and> (\<forall>j. history_of db' j = history_of db j) \<and>
    mset (approvedEntries db') = mset (filter (\<lambda>e. ce_cardId e \<noteq> k) (approvedEntries db)) \<and>
    readLifecycleEvents db' k = readLifecycleEvents db k @
      [\<lparr>le_id = id_source env (ids_drawn sp), le_cardId = k, le_occurredAt = clock_source env (clock_reads sp),
        le_body = CardWithdrawn (current_of db k) (od_decidedBy d) (od_note d)\<rparr>]"
proof -
  obtain c0 where c0: "findCard db k = Some c0" and c: "c = withCardVersions c0 (withdrawCurrentVersion (cc_versions c0))"
    and r: "replaced db k c db'"
    using disable_sqlite [OF assms(1,2)] by blast
  have wf: "card_wf c" "cc_id c = k" using findCard_wf [OF assms(1) c0] card_wf_withdraw [of c0] c by auto
  have hwf: "history_wf (cc_versions c0)" using findCard_wf [OF assms(1) c0] by (simp add: card_wf_def)
  have was: "map_option cv_id (getCurrentCardVersion (cc_versions c0)) = current_of db k"
    using current_resolves [OF hwf] c0 by (cases "vh_currentVersionId (cc_versions c0)") auto
  have save: "saveCard db c [\<lparr>le_id = id_source env (ids_drawn sp), le_cardId = k,
      le_occurredAt = clock_source env (clock_reads sp),
      le_body = CardWithdrawn (current_of db k) (od_decidedBy d) (od_note d)\<rparr>] = Inr db'"
    using disable_saves [OF assms(2)] c0 was by auto
  have "toCardCatalogEntry c = None" by (simp add: c toCardCatalogEntry_def)
  then have "mset (approvedEntries db') = mset (filter (\<lambda>e. ce_cardId e \<noteq> k) (approvedEntries db))"
    using catalog_replaced [OF assms(1) r wf(2)] by simp
  moreover have "current_of db' k = None" "\<forall>j. history_of db' j = history_of db j"
    using r c c0 by (simp_all add: replaced_current replaced_history)
  ultimately show ?thesis
    using decision_event [OF assms(1) c0 wf _ save, of k] c assms(3) by simp
qed

theorem disable_effect_on_registry_witness:
  "\<exists>c db sp. disableCard sqlite_card_store sample_env sample_supplies sample_db ''c'' sample_decision
     = Inr (c, db, sp) \<and> approvedEntries db = []"
proof -
  let ?c = "withCardVersions sample_stored (withdrawCurrentVersion (cc_versions sample_stored))"
  have wf: "card_wf sample_stored" "cc_id sample_stored = ''c''"
    using findCard_wf [OF sample_db_inv sample_found] by auto
  have "writable (findCard_port sqlite_card_store sample_db (cc_id ?c)) (version_ids sample_db) ?c"
    using card_wf_withdraw [OF wf(1)] wf(2) sample_found by (simp add: writable_same_versions)
  then have "\<exists>db. saveCard sample_db ?c es = Inr db" for es
    using sqlite.save_succeeds [OF sample_db_inv] by simp
  then obtain c db sp where ok: "disableCard sqlite_card_store sample_env sample_supplies sample_db ''c'' sample_decision
      = Inr (c, db, sp)"
    by (simp add: disableCard_def loadCard_def sample_found Let_def nextId_def now_def saveDecision_def)
      (metis res_bind_Inr)
  show ?thesis
    using disable_effect_on_registry [OF sample_db_inv ok] ok sample_no_events sample_entries by auto
qed

lemma approve_card:
  assumes "db_inv db" and "approveCardVersion sqlite_card_store env sp db k i d = Inr (c, db', sp')"
  shows "\<exists>c0. findCard db k = Some c0 \<and> card_wf c \<and> cc_id c = k \<and>
    vh_versions (cc_versions c) = vh_versions (cc_versions c0)"
proof -
  obtain c0 h where c0: "findCard db k = Some c0" and h: "promoteCardVersion (cc_versions c0) i = Inr h"
    and c: "c = promotedCard c0 h i"
    using approve_effect [OF assms] by blast
  then show ?thesis
    using findCard_wf [OF assms(1) c0] history_wf_promote [OF _ h] promote_sel [OF h] by (auto simp: card_wf_def)
qed

text \<open>
  A version that was approved or refused is not in the review queue any more, whatever
  was decided before.
\<close>

theorem decided_versions_leave_the_queue:
  assumes "db_inv db" and "id_source env (ids_drawn sp) \<notin> event_key ` set (events_table db)"
    and "approveCardVersion sqlite_card_store env sp db k i d = Inr (c, db', sp') \<or>
         rejectCardVersion sqlite_card_store env sp db k i d = Inr (c, db', sp')"
  shows "i \<notin> set (pendingReviewCardVersionIds (cc_versions c) (readLifecycleEvents db' k))"
proof -
  have "card_wf c \<and> cc_id c = k \<and>
      (promoted_in (cc_versions c) (readLifecycleEvents db' k) i \<or> refused_in (cc_versions c) (readLifecycleEvents db' k) i)"
    using assms(3)
  proof
    assume ok: "approveCardVersion sqlite_card_store env sp db k i d = Inr (c, db', sp')"
    obtain c0 where c0: "findCard db k = Some c0" and wf: "card_wf c" "cc_id c = k"
      and vs: "vh_versions (cc_versions c) = vh_versions (cc_versions c0)"
      using approve_card [OF assms(1) ok] by blast
    have save: "saveCard db c [\<lparr>le_id = id_source env (ids_drawn sp), le_cardId = k,
         le_occurredAt = clock_source env (clock_reads sp),
         le_body = CardVersionPromoted i (current_of db k) (od_decidedBy d) (od_note d)\<rparr>] = Inr db'"
      using approve_effect [OF assms(1) ok] by blast
    show ?thesis
      using decision_event [OF assms(1) c0 wf vs save, of k] assms(2) wf
      by (simp add: promoted_in_def card_wf_def)
  next
    assume ok: "rejectCardVersion sqlite_card_store env sp db k i d = Inr (c, db', sp')"
    have c: "findCard db k = Some c" using reject_sqlite [OF assms(1) ok] by blast
    have wf: "card_wf c" "cc_id c = k" using findCard_wf [OF assms(1) c] by auto
    show ?thesis
      using decision_event [OF assms(1) c wf refl reject_saves [OF ok, simplified look_sqlite], of k] assms(2) wf
      by (simp add: refused_in_def card_wf_def)
  qed
  then show ?thesis using pending_characterised by (auto simp: card_wf_def)
qed

theorem decided_versions_leave_the_queue_witness:
  "\<exists>c db sp. approveCardVersion sqlite_card_store sample_env sample_supplies sample_db ''c'' ''v3'' sample_decision
     = Inr (c, db, sp) \<and> ''v3'' \<notin> set (pendingReviewCardVersionIds (cc_versions c) (readLifecycleEvents db ''c''))"
proof -
  obtain c db sp where ok: "approveCardVersion sqlite_card_store sample_env sample_supplies sample_db ''c'' ''v3'' sample_decision
      = Inr (c, db, sp)"
    using sample_approve [of "''v3''"] by auto
  show ?thesis using decided_versions_leave_the_queue [OF sample_db_inv _ disjI1 [OF ok]] ok sample_no_events by auto
qed

section \<open>The snapshot version\<close>

text \<open>
  The version of the catalog snapshot is a function of the catalog as a set: it does not
  depend on the order in which the store lists the entries.
\<close>

theorem snapshot_version_ignores_order:
  assumes "db_inv db" and "db_inv db'" and "set (approvedEntries db) = set (approvedEntries db')"
  shows "cs_catalogSnapshotVersion (listApprovedCards sha256 db) = cs_catalogSnapshotVersion (listApprovedCards sha256 db')"
proof -
  have d: "distinct (map ce_cardId (approvedEntries db))" "distinct (map ce_cardId (approvedEntries db'))"
    using approvedEntries_distinct assms(1,2) by auto
  then have "mset (approvedEntries db) = mset (approvedEntries db')"
    using set_eq_iff_mset_eq_distinct [OF distinct_map_elems [OF d(1)] distinct_map_elems [OF d(2)]] assms(3)
    by blast
  then have "sort_key ce_cardId (approvedEntries db) = sort_key ce_cardId (approvedEntries db')"
    using d(1) by (rule sort_key_perm_unique)
  then show ?thesis
    by (simp add: listApprovedCards_def toApprovedCardCatalogSnapshot_def computeCatalogSnapshotVersion_def)
qed

theorem snapshot_version_ignores_order_witness:
  "cs_catalogSnapshotVersion (listApprovedCards id sample_db) = cs_catalogSnapshotVersion (listApprovedCards id sample_twin)"
proof -
  have "db_inv sample_twin"
    using sample_db_inv by (simp add: db_inv_def sample_twin_def sample_db_def empty_db_def)
  moreover have "approvedEntries sample_db = approvedEntries sample_twin"
    by (simp add: approvedEntries_def current_rows_def versions_in_order_def sample_twin_def)
  ultimately show ?thesis using snapshot_version_ignores_order [OF sample_db_inv, of sample_twin id] by simp
qed

end
