(* ===== verification/Select_Context.thy ===== *)
theory Select_Context
  imports Candidate_Store Plan_Verification
begin

text \<open>
  \<open>application/select-context.ts\<close>: from a query to a verified read plan. The catalog, the candidate index store
  and the embedding provider are ports: what they answer is a field of the ports. The caches keyed on a catalog
  generation return what is computed here for that generation.
\<close>

record selection_environment =
  ev_sha256 :: "string \<Rightarrow> string"
  ev_lexicon :: lexicon
  ev_words :: facet_words
  ev_render :: "js_number \<Rightarrow> string"
  ev_msqrt :: "rat \<Rightarrow> rat"

record semantic_ports =
  sc_provider :: embed_port
  sc_acquire :: "index_request \<Rightarrow> request_error + candidate_index"
  sc_profile :: card_selection_profile

record select_ports =
  sl_catalog :: "request_error + approved_card list"
  sl_semantic :: "semantic_ports option"

record semantic_policy =
  sd_allowLexicalDegraded :: "bool option"
  sd_lexicalTopK :: "nat option"
  sd_semanticTopK :: "nat option"

record select_options =
  sx_thresholds :: "selection_thresholds option"
  sx_chunkLimitPerScope :: "nat option"
  sx_semantic :: "semantic_policy option"
  sx_policy :: "policy_context option"

definition or_default :: "'a \<Rightarrow> 'a option \<Rightarrow> 'a" where
  "or_default d x = (case x of None \<Rightarrow> d | Some v \<Rightarrow> v)"

definition DEFAULT_CHUNK_LIMIT_PER_SCOPE :: nat where
  "DEFAULT_CHUNK_LIMIT_PER_SCOPE = SELECTION_PLANNING_LIMITS ChunksPerTarget"

definition DEFAULT_LEXICAL_TOP_K :: nat where "DEFAULT_LEXICAL_TOP_K = 32"
definition DEFAULT_SEMANTIC_TOP_K :: nat where "DEFAULT_SEMANTIC_TOP_K = 32"

definition no_semantic_policy :: semantic_policy where
  "no_semantic_policy = \<lparr>sd_allowLexicalDegraded = None, sd_lexicalTopK = None, sd_semanticTopK = None\<rparr>"

section \<open>Scoring with both signals\<close>

type_synonym scored_candidates = "selection_mode \<times> candidate_score list"

definition degrade :: "semantic_policy \<Rightarrow> candidate_score list \<Rightarrow> string \<Rightarrow> request_error + scored_candidates" where
  "degrade policy lexical why =
     (if or_default True (sd_allowLexicalDegraded policy) then Inr (LexicalDegraded, lexical)
      else Inl (Resolve (CardEmbeddingUnavailableError why)))"

fun describeEmbeddingFailure :: "request_error \<Rightarrow> string" where
  "describeEmbeddingFailure (CardEmbeddingFault code _) = ''the Card embedding provider failed with '' @ card_fault_text code"
| "describeEmbeddingFailure _ = ''the Card embedding provider failed''"

fun never_degraded :: "request_error \<Rightarrow> bool" where
  "never_degraded (Resolve _) = True"
| "never_degraded (Domain (CardSelectionInputLimitError _)) = True"
| "never_degraded (Domain (CardSelectionProfileInvariantError _)) = True"
| "never_degraded (Domain (CardCandidateIndexInvariantError _)) = True"
| "never_degraded _ = False"

definition embedQuery :: "selection_environment \<Rightarrow> semantic_ports \<Rightarrow> string \<Rightarrow> request_error + js_number list" where
  "embedQuery ev semantic queryText =
     (let t = normalizeSelectionText (lx_nfkc (ev_lexicon ev)) queryText;
          limits = cn_admissionLimits (sc_profile semantic);
          units = measureTextUnits t in
      if js_less (al_maxQueryUnits limits) (whole units)
      then Inl (Resolve (QueryInputLimitExceededError (''the query measures '' @ show_nat units @ '' '' @
             al_textMeasureProfileVersion limits @ '' units, above the '' @ ev_render ev (al_maxQueryUnits limits) @ '' profile '' @
             cn_id (sc_profile semantic) @ '' admits'')))
      else res_bind (sc_provider semantic (sc_profile semantic) [(''query'', t)]) (\<lambda>outputs.
        case outputs of
          [] \<Rightarrow> Inl (CardEmbeddingFault InvalidResponse False)
        | (_, vector) # _ \<Rightarrow>
            if length_number vector \<noteq> cn_dimensions (sc_profile semantic) then Inl (CardEmbeddingFault InvalidResponse False)
            else Inr vector))"

definition prepareSemanticCatalog :: "selection_environment \<Rightarrow> approved_card list \<Rightarrow> card_selection_entry list" where
  "prepareSemanticCatalog ev catalog = map (buildCardSelectionEntry (ev_sha256 ev) (lx_nfkc (ev_lexicon ev))) catalog"

definition eligibleVersionIds :: "approved_card list \<Rightarrow> string list" where
  "eligibleVersionIds eligible = js_set (map ce_versionId eligible)"

text \<open>The body of the \<open>try\<close> block.\<close>

definition rank_semantically ::
    "selection_environment \<Rightarrow> semantic_ports \<Rightarrow> semantic_policy \<Rightarrow> string \<Rightarrow> approved_card list \<Rightarrow> policy_application \<Rightarrow>
     candidate_score list \<Rightarrow> request_error + scored_candidates" where
  "rank_semantically ev semantic policy queryText catalog application lexical =
     res_bind (lift_domain (assertValidCardSelectionProfile (ev_render ev) (sc_profile semantic))) (\<lambda>_.
     let entries = prepareSemanticCatalog ev catalog in
     res_bind (lift_domain (catalogSnapshotVersion (ev_sha256 ev) (ev_render ev) entries (sc_profile semantic))) (\<lambda>snapshotVersion.
     res_bind (sc_acquire semantic \<lparr>ir_entries = entries, ir_catalogSnapshotVersion = snapshotVersion, ir_profile = sc_profile semantic\<rparr>) (\<lambda>index.
     let uncovered = length (filter (\<lambda>e. \<not> index_covers index (en_cardVersionId e) (en_selectionTextDigest e)) entries) in
     if 0 < uncovered
     then degrade policy lexical (''the candidate index does not cover '' @ show_nat uncovered @
            '' approved Card version(s) of this snapshot'')
     else
     res_bind (embedQuery ev semantic queryText) (\<lambda>queryVector.
     res_bind (lift_domain (topK (ev_msqrt ev) (ev_render ev) index queryVector (or_default DEFAULT_SEMANTIC_TOP_K (sd_semanticTopK policy))
                 (Some (eligibleVersionIds (pa_eligible application))))) (\<lambda>closest.
       Inr (Hybrid, rankHybridCandidateScores \<lparr>hy_lexical = lexical, hy_semantic = closest,
         hy_lexicalTopK = or_default DEFAULT_LEXICAL_TOP_K (sd_lexicalTopK policy)\<rparr>))))))"

definition scoreWithSemantics ::
    "selection_environment \<Rightarrow> select_ports \<Rightarrow> select_options \<Rightarrow> string \<Rightarrow> approved_card list \<Rightarrow> policy_application \<Rightarrow>
     candidate_score list \<Rightarrow> request_error + scored_candidates" where
  "scoreWithSemantics ev ports options queryText catalog application lexical =
     (let policy = or_default no_semantic_policy (sx_semantic options) in
      case sl_semantic ports of
        None \<Rightarrow> degrade policy lexical ''no Card embedding provider is bound to this deployment''
      | Some semantic \<Rightarrow>
          if length catalog = 0
          then degrade policy lexical ''the catalog holds no approved Card to build an index from''
          else if length (pa_eligible application) = 0 then Inr (Hybrid, [])
          else (case rank_semantically ev semantic policy queryText catalog application lexical of
              Inr scored \<Rightarrow> Inr scored
            | Inl cause \<Rightarrow> if never_degraded cause then Inl cause
                else degrade policy lexical (describeEmbeddingFailure cause)))"

section \<open>The plan\<close>

definition scored_of :: "candidate_score \<Rightarrow> scored_candidate" where
  "scored_of s = \<lparr>sn_cardId = qs_cardId s, sn_versionId = qs_versionId s, sn_score = qs_score s\<rparr>"

definition collectAdmittedCards :: "selection_result \<Rightarrow> approved_card list \<Rightarrow> approved_card list" where
  "collectAdmittedCards selection cards =
     (let byVersionId = js_map (map (\<lambda>c. (ce_versionId c, c)) cards) in
      List.map_filter (\<lambda>x. map_of byVersionId (oc_versionId x)) (filter (\<lambda>x. oc_verdict x = Admit) (rs_outcomes selection)))"

text \<open>Everything up to the last check.\<close>

definition draft_plan ::
    "selection_environment \<Rightarrow> select_ports \<Rightarrow> string \<Rightarrow> select_options \<Rightarrow> request_error + selection_plan" where
  "draft_plan ev ports queryText options =
     (if trim queryText = [] then Inl (Resolve EmptyQueryError)
      else
      res_bind (sl_catalog ports) (\<lambda>cards.
      res_bind (lift_domain (applyPolicyContext cards (or_default DEFAULT_POLICY_CONTEXT (sx_policy options)))) (\<lambda>policy.
      let lexical = scoreCardsAgainstQuery (ev_lexicon ev) queryText (pa_eligible policy) in
      res_bind (scoreWithSemantics ev ports options queryText cards policy lexical) (\<lambda>(mode, candidates).
      res_bind (lift_domain (judgeCandidates (ev_render ev) (map scored_of candidates)
                  (or_default DEFAULT_SELECTION_THRESHOLDS (sx_thresholds options)))) (\<lambda>independentSelection.
      let chunkLimit = or_default DEFAULT_CHUNK_LIMIT_PER_SCOPE (sx_chunkLimitPerScope options) in
      res_bind (lift_domain (planMinimumSufficientCardSet (ev_sha256 ev) (ev_lexicon ev) (ev_words ev)
                  \<lparr>mn_query = queryText, mn_eligibleCards = pa_eligible policy, mn_lexicalScores = lexical, mn_rankedScores = candidates,
                   mn_initialSelection = independentSelection, mn_mode = mode, mn_chunkLimitPerScope = chunkLimit\<rparr>)) (\<lambda>setPlan.
      res_bind (lift_domain (auditDigest (ev_sha256 ev) (ev_render ev) (mr_audit setPlan))) (\<lambda>digest.
      res_bind (lift_domain (applySetPlanningDecision independentSelection (js_set (map ce_versionId (mr_selectedCards setPlan))))) (\<lambda>selection.
      let admitted = collectAdmittedCards selection cards in
      res_bind (lift_domain (planSelectedScopes (ev_sha256 ev) admitted chunkLimit)) (\<lambda>planned.
      let violations = planningLimitViolations (length admitted) planned in
      if 0 < length violations then Inl (Resolve (SelectionPlanLimitExceededError violations))
      else Inr \<lparr>sp_query = queryText,
        sp_summary = \<lparr>sm_candidates = candidates, sm_selection = selection, sm_planning = mr_audit setPlan, sm_auditDigest = digest,
          sm_mode = mode, sm_policyContext = pa_context policy, sm_excluded = pa_excluded policy\<rparr>,
        sp_items = rd_items planned, sp_managedTargets = rd_managedTargets planned\<rparr>)))))))))"

definition selectContext ::
    "selection_environment \<Rightarrow> select_ports \<Rightarrow> string \<Rightarrow> select_options \<Rightarrow> request_error + selection_plan" where
  "selectContext ev ports queryText options =
     res_bind (draft_plan ev ports queryText options) (\<lambda>plan.
     res_bind (lift_domain (verifySelectionPlan (ev_sha256 ev) (ev_render ev) plan (Some queryText))) (\<lambda>_. Inr plan))"

end
