(* ===== verification/Select_Laws.thy ===== *)
theory Select_Laws
  imports Select_Context Plan_Verification_Laws Planner_Properties
begin

text \<open>
  A plan that Selection drafts passes its own verification: the lemmas that turn what the planner and the merge of
  scopes are known to produce into what the verification asks for.
\<close>

section \<open>Keys of Card references\<close>

definition without_nul :: "string \<Rightarrow> bool" where
  "without_nul t \<longleftrightarrow> CHR 0x00 \<notin> set t"

lemma cardRefKey_inj:
  assumes "without_nul a" and "without_nul c"
  shows "cardRefKey a b = cardRefKey c d \<longleftrightarrow> a = c \<and> b = d"
proof
  assume eq: "cardRefKey a b = cardRefKey c d"
  have "takeWhile (\<lambda>x. x \<noteq> CHR 0x00) (cardRefKey x y) = x" if "without_nul x" for x y
    using that by (auto simp: cardRefKey_def without_nul_def takeWhile_append)
  then have "a = c" using eq assms by metis
  then show "a = c \<and> b = d" using eq by (simp add: cardRefKey_def)
qed simp

lemma distinct_ref_keys:
  assumes "distinct rs" and "\<forall>r \<in> set rs. without_nul (cf_cardId r)"
  shows "distinct (map ref_key rs)"
proof -
  have "inj_on ref_key (set rs)"
  proof (rule inj_onI)
    fix q r :: card_ref
    assume qr: "q \<in> set rs" "r \<in> set rs" and "ref_key q = ref_key r"
    moreover have "without_nul (cf_cardId q)" "without_nul (cf_cardId r)" using assms(2) qr by blast+
    ultimately show "q = r" using cardRefKey_inj by (intro card_ref.equality) auto
  qed
  then show ?thesis using assms(1) by (simp add: distinct_map)
qed

section \<open>Reads\<close>

lemma guideTargetKey_managed [simp]: "guideTargetKey sha256 (ManagedDocumentGuide r i s l) = managedTargetKey sha256 r l"
  by (simp add: guideTargetKey_def managedTargetKey_def)

lemma find_distinct_key:
  assumes "distinct (map f xs)" and "x \<in> set xs"
  shows "List.find (\<lambda>y. f y = f x) xs = Some x"
proof -
  obtain y where y: "List.find (\<lambda>y. f y = f x) xs = Some y" using assms(2) by (cases "List.find (\<lambda>y. f y = f x) xs") (auto simp: find_None_iff)
  then have "y \<in> set xs" "f y = f x" by (auto simp: find_Some_iff)
  then show ?thesis using assms y by (metis distinct_map inj_onD)
qed

lemma plan_reads_sound:
  assumes inj: "inj sha256" and con: "consistent limit cards" and plan: "plan_of sha256 limit cards rp"
    and nul: "\<forall>c \<in> set cards. without_nul (ce_cardId c)" and p: "sp_items p = rd_items rp" "sp_managedTargets p = rd_managedTargets rp"
  shows "reads_sound sha256 p"
proof -
  note pl = plan [unfolded plan_of_def]
  have gs: "pl_guide ` set (rd_items rp) = guides limit cards" using pl by blast
  have "map pl_itemKey (rd_items rp) = map (retrievalGuideKey sha256) (map pl_guide (rd_items rp))" using pl by simp
  moreover have "inj_on (retrievalGuideKey sha256) A" for A using guide_key_inj [OF inj] by (auto simp: inj_on_def)
  ultimately have keys: "distinct (map pl_itemKey (rd_items rp))" using pl by (metis distinct_map)
  have "map item_scope (rd_items rp) = map guide_scope_key (map pl_guide (rd_items rp))" by simp
  moreover have "inj_on guide_scope_key (set (map pl_guide (rd_items rp)))" using con gs unfolding consistent_def by simp
  ultimately have scopes: "distinct (map item_scope (rd_items rp))" using pl by (metis distinct_map)
  have target: "\<exists>g \<in> guides limit cards. read_target sha256 g = Some t" if "t \<in> set (rd_managedTargets rp)" for t
    using pl that by (simp add: read_targets_def)
  have sound: "target_sound sha256 t" if "read_target sha256 g = Some t" for g t
    using that by (cases g) (auto simp: target_sound_def)
  have "inj_on mt_targetKey (set (rd_managedTargets rp))"
  proof (rule inj_onI)
    fix t u assume "t \<in> set (rd_managedTargets rp)" "u \<in> set (rd_managedTargets rp)" "mt_targetKey t = mt_targetKey u"
    moreover from this obtain g h where "read_target sha256 g = Some t" "read_target sha256 h = Some u" using target by blast
    ultimately show "t = u" using target_key_inj [OF inj] by (cases g; cases h) auto
  qed
  then have tkeys: "distinct (map mt_targetKey (rd_managedTargets rp))" using pl by (simp add: distinct_map)
  have item: "item_sound sha256 (rd_managedTargets rp) i" if i: "i \<in> set (rd_items rp)" for i
  proof -
    have it: "pl_itemKey i = retrievalGuideKey sha256 (pl_guide i)" "distinct (pl_selectedBy i)"
      "set (pl_selectedBy i) = selectors limit cards (pl_guide i)"
      "pl_execution i = (case read_target sha256 (pl_guide i) of None \<Rightarrow> Delegated | Some t \<Rightarrow> Managed (mt_targetKey t))"
      using pl i by blast+
    have g: "pl_guide i \<in> guides limit cards" using gs i by blast
    then have "selectors limit cards (pl_guide i) \<noteq> {}" by (auto simp: guides_def selectors_def)
    then have some: "pl_selectedBy i \<noteq> []" using it(3) by auto
    have "\<forall>r \<in> set (pl_selectedBy i). without_nul (cf_cardId r)" unfolding it(3) using nul by (auto simp: selectors_def ref_of_card_def)
    then have refs: "distinct (ref_keys i)" by (rule distinct_ref_keys [OF it(2)])
    have "reads_target sha256 (rd_managedTargets rp) i"
    proof (cases "read_target sha256 (pl_guide i)")
      case None
      then show ?thesis using it(4) by (simp add: reads_target_def)
    next
      case (Some t)
      then have "t \<in> set (rd_managedTargets rp)" using pl g by (auto simp: read_targets_def)
      then have "List.find (\<lambda>u. mt_targetKey u = mt_targetKey t) (rd_managedTargets rp) = Some t" by (rule find_distinct_key [OF tkeys])
      then show ?thesis using Some it(4) by (cases "pl_guide i") (auto simp: reads_target_def same_target_def)
    qed
    then show ?thesis using it(1) some refs by (simp add: item_sound_def)
  qed
  have "\<exists>i \<in> set (rd_items rp). pl_execution i = Managed (mt_targetKey t)" if t: "t \<in> set (rd_managedTargets rp)" for t
  proof -
    obtain g where g: "g \<in> guides limit cards" "read_target sha256 g = Some t" using target [OF t] by blast
    then obtain i where "i \<in> set (rd_items rp)" "pl_guide i = g" using gs by (metis imageE)
    moreover from this have "pl_execution i = Managed (mt_targetKey t)" using pl g(2) by auto
    ultimately show ?thesis by blast
  qed
  then have refd: "mt_targetKey ` set (rd_managedTargets rp) \<subseteq> {k. \<exists>i \<in> set (rd_items rp). pl_execution i = Managed k}" by blast
  have "list_all (target_sound sha256) (rd_managedTargets rp)" using target sound unfolding list_all_iff by blast
  then show ?thesis using item keys scopes tkeys refd by (simp add: reads_sound_def p list_all_iff)
qed

lemma plan_selecting_keys:
  assumes "plan_of sha256 limit cards rp" and "sp_items p = rd_items rp" and "\<forall>c \<in> set cards. ce_scopes c \<noteq> []"
  shows "selecting_keys p = (\<lambda>c. cardRefKey (ce_cardId c) (ce_versionId c)) ` set cards"
proof -
  have gs: "pl_guide ` set (rd_items rp) = guides limit cards"
    and sel: "\<And>i. i \<in> set (rd_items rp) \<Longrightarrow> set (pl_selectedBy i) = selectors limit cards (pl_guide i)"
    using assms(1) unfolding plan_of_def by blast+
  have "selecting_keys p = (\<Union>i \<in> set (rd_items rp). ref_key ` selectors limit cards (pl_guide i))"
    unfolding selecting_keys_def assms(2) by (rule SUP_cong [OF refl]) (simp only: set_map sel)
  also have "\<dots> = (\<Union>g \<in> guides limit cards. ref_key ` selectors limit cards g)" unfolding gs [symmetric] by simp
  also have "\<dots> = (\<lambda>c. cardRefKey (ce_cardId c) (ce_versionId c)) ` set cards"
  proof -
    have ref: "ref_key (ref_of_card c) = cardRefKey (ce_cardId c) (ce_versionId c)" for c by (simp add: ref_of_card_def)
    have "\<exists>g \<in> guides limit cards. c \<in> {c \<in> set cards. g \<in> card_guides limit c}" if "c \<in> set cards" for c
    proof -
      have "ce_scopes c \<noteq> []" using assms(3) that by blast
      then obtain x xs where "ce_scopes c = x # xs" by (meson neq_Nil_conv)
      then have "buildRetrievalGuide x limit \<in> card_guides limit c" by (simp add: card_guides_def)
      then show ?thesis using that unfolding guides_def by blast
    qed
    then have "(\<Union>g \<in> guides limit cards. {c \<in> set cards. g \<in> card_guides limit c}) = set cards" by blast
    then show ?thesis unfolding selectors_def image_image ref [symmetric] by (metis (no_types) image_UN)
  qed
  finally show ?thesis .
qed

section \<open>What the planner's input check establishes\<close>

lemma uniqueReferences_map:
  "uniqueReferences label vid xs m = Inr m' \<Longrightarrow> m' = m @ map (\<lambda>x. (vid x, x)) xs \<and> distinct (map vid xs)"
proof (induction label vid xs m rule: uniqueReferences.induct)
  case (2 label vid x xs m)
  then have none: "map_of m (vid x) = None" by (auto split: if_splits)
  then have u: "AList.update (vid x) x m = m @ [(vid x, x)]" by (intro update_fresh) (simp add: map_of_eq_None_iff)
  have r: "uniqueReferences label vid xs (AList.update (vid x) x m) = Inr m'" using 2(2) none by simp
  have "m' = m @ map (\<lambda>x. (vid x, x)) (x # xs)" using 2(1) [OF _ r] none u by simp
  moreover have "distinct (map vid (x # xs))" using uniqueReferences_distinct [OF 2(2)] by blast
  ultimately show ?case by blast
qed simp

lemma map_of_pairs: "distinct (map f xs) \<Longrightarrow> map_of (map (\<lambda>x. (f x, x)) xs) k = Some x \<longleftrightarrow> x \<in> set xs \<and> f x = k"
  by (subst map_of_eq_Some_iff) (auto simp: comp_def)

lemma same_keys:
  assumes "sameKeys (map (\<lambda>x. (f x, x)) xs) (map (\<lambda>y. (g y, y)) ys)" and "distinct (map f xs)" and "distinct (map g ys)"
  shows "f ` set xs = g ` set ys"
proof -
  have sub: "f ` set xs \<subseteq> g ` set ys"
    using assms(1) by (auto simp: sameKeys_def list_all_iff map_of_eq_None_iff image_image)
  have "card (f ` set xs) = card (g ` set ys)"
    using assms by (metis (no_types, lifting) distinct_card length_map list.set_map sameKeys_def)
  then show ?thesis using sub by (metis card_subset_eq finite_imageI finite_set)
qed

lemma planner_cards:
  assumes "assertPlannerInput input = Inr cards"
  shows "x \<in> set (rs_outcomes (mn_initialSelection input)) \<Longrightarrow>
      \<exists>c \<in> set (mn_eligibleCards input). map_of cards (oc_versionId x) = Some c \<and> ce_versionId c = oc_versionId x \<and> ce_cardId c = oc_cardId x"
    and "y \<in> set (mn_rankedScores input) \<Longrightarrow> \<exists>c \<in> set (mn_eligibleCards input). ce_versionId c = qs_versionId y \<and> ce_cardId c = qs_cardId y"
proof -
  let ?ranked = "map (\<lambda>x. (qs_versionId x, x)) (mn_rankedScores input)"
  let ?outcomes = "map (\<lambda>x. (oc_versionId x, x)) (rs_outcomes (mn_initialSelection input))"
  obtain provenance where h: "distinct (map qs_versionId (mn_rankedScores input))"
      "distinct (map oc_versionId (rs_outcomes (mn_initialSelection input)))" "sameKeys ?ranked ?outcomes"
      "List.find (\<lambda>entry. \<not> ranked_consistent cards ?outcomes provenance entry) ?ranked = None"
  proof -
    obtain ranked outcomes provenance where r: "uniqueReferences ''ranked score'' qs_versionId (mn_rankedScores input) [] = Inr ranked"
      "uniqueReferences ''selection outcome'' oc_versionId (rs_outcomes (mn_initialSelection input)) [] = Inr outcomes"
      "sameKeys ranked outcomes" "List.find (\<lambda>entry. \<not> ranked_consistent cards outcomes provenance entry) ranked = None"
      using assms by (auto simp: assertPlannerInput_def res_bind_eq_Inr split: if_splits option.splits)
    have "ranked = ?ranked" "outcomes = ?outcomes" "distinct (map qs_versionId (mn_rankedScores input))"
      "distinct (map oc_versionId (rs_outcomes (mn_initialSelection input)))"
      using uniqueReferences_map [OF r(1)] uniqueReferences_map [OF r(2)] by simp_all
    then show thesis using r(3,4) that by blast
  qed
  have good: "ranked_consistent cards ?outcomes provenance (qs_versionId y, y)" if "y \<in> set (mn_rankedScores input)" for y
    using h(4) that unfolding find_None_iff by auto
  have keys: "qs_versionId ` set (mn_rankedScores input) = oc_versionId ` set (rs_outcomes (mn_initialSelection input))"
    by (rule same_keys [OF h(3,1,2)])
  have card: "\<exists>c \<in> set (mn_eligibleCards input). map_of cards (qs_versionId y) = Some c \<and> ce_versionId c = qs_versionId y \<and> ce_cardId c = qs_cardId y"
    if "y \<in> set (mn_rankedScores input)" for y
    using good [OF that] assertPlannerInput_facts(3) [OF assms] by (fastforce simp: ranked_consistent_def split: option.splits)
  then show "y \<in> set (mn_rankedScores input) \<Longrightarrow> \<exists>c \<in> set (mn_eligibleCards input). ce_versionId c = qs_versionId y \<and> ce_cardId c = qs_cardId y"
    by blast
  assume x: "x \<in> set (rs_outcomes (mn_initialSelection input))"
  then obtain y where y: "y \<in> set (mn_rankedScores input)" "qs_versionId y = oc_versionId x" using keys by (metis imageE imageI)
  have "map_of ?outcomes (oc_versionId x) = Some x" using x map_of_pairs [OF h(2)] by blast
  then have "oc_cardId x = qs_cardId y" using good [OF y(1)] y(2) by (auto simp: ranked_consistent_def split: option.splits)
  then show "\<exists>c \<in> set (mn_eligibleCards input). map_of cards (oc_versionId x) = Some c \<and> ce_versionId c = oc_versionId x \<and> ce_cardId c = oc_cardId x"
    using card [OF y(1)] y(2) by simp
qed

section \<open>What the planner answers\<close>

lemma decision_for_ids: "decision_for sha256 pn selected cost c = Inr d \<Longrightarrow> pd_cardId d = ce_cardId c"
  by (auto simp: decision_for_def Let_def res_bind_eq_Inr split: if_splits option.splits)

lemma decisions_for_all: "decisions_for f cs = Inr ds \<Longrightarrow> list_all2 (\<lambda>c d. f c = Inr d) cs ds"
  by (induction cs arbitrary: ds) (auto simp: res_bind_eq_Inr)

lemma planner_card_ids:
  assumes "planMinimumSufficientCardSet sha256 lx fw input = Inr res" and "planning_context sha256 lx fw input = Inr (strong, pn)"
  shows "list_all2 (\<lambda>c d. pd_cardId d = ce_cardId c) strong (ma_decisions (mr_audit res))"
proof -
  obtain selected where "decisionsFor sha256 pn strong selected = Inr (ma_decisions (mr_audit res))"
    using assms unfolding planner_steps by (auto simp: res_bind_eq_Inr Let_def)
  then obtain cost where "decisions_for (decision_for sha256 pn selected cost) strong = Inr (ma_decisions (mr_audit res))"
    by (auto simp: decisionsFor_def res_bind_eq_Inr)
  from decisions_for_all [OF this] show ?thesis by (rule list_all2_mono) (rule decision_for_ids)
qed

lemma filter_by_ids:
  assumes "distinct (map f xs)" and "ys = filter P xs"
  shows "ys = filter (\<lambda>x. f x \<in> f ` set ys) xs"
proof -
  have "P x \<longleftrightarrow> f x \<in> f ` set (filter P xs)" if "x \<in> set xs" for x
    using assms(1) that by (auto simp: distinct_map dest: inj_onD)
  then show ?thesis unfolding assms(2) by (rule filter_cong [OF refl])
qed

section \<open>The draft\<close>

definition planner_input ::
    "string \<Rightarrow> policy_application \<Rightarrow> candidate_score list \<Rightarrow> candidate_score list \<Rightarrow> selection_result \<Rightarrow> selection_mode \<Rightarrow> nat \<Rightarrow>
     minimum_set_input" where
  "planner_input queryText policy lexical candidates selection mode limit =
     \<lparr>mn_query = queryText, mn_eligibleCards = pa_eligible policy, mn_lexicalScores = lexical, mn_rankedScores = candidates,
      mn_initialSelection = selection, mn_mode = mode, mn_chunkLimitPerScope = limit\<rparr>"

abbreviation chunk_limit :: "select_options \<Rightarrow> nat" where
  "chunk_limit options \<equiv> or_default DEFAULT_CHUNK_LIMIT_PER_SCOPE (sx_chunkLimitPerScope options)"

definition drafted ::
    "selection_environment \<Rightarrow> approved_card list \<Rightarrow> string \<Rightarrow> select_options \<Rightarrow> policy_application \<Rightarrow> selection_result \<Rightarrow>
     minimum_set_result \<Rightarrow> read_plan \<Rightarrow> selection_plan \<Rightarrow> bool" where
  "drafted ev cards queryText options policy first setPlan planned plan \<longleftrightarrow>
     applyPolicyContext cards (or_default DEFAULT_POLICY_CONTEXT (sx_policy options)) = Inr policy \<and>
     judgeCandidates (ev_render ev) (map scored_of (sm_candidates (sp_summary plan)))
       (or_default DEFAULT_SELECTION_THRESHOLDS (sx_thresholds options)) = Inr first \<and>
     planMinimumSufficientCardSet (ev_sha256 ev) (ev_lexicon ev) (ev_words ev)
       (planner_input queryText policy (scoreCardsAgainstQuery (ev_lexicon ev) queryText (pa_eligible policy))
          (sm_candidates (sp_summary plan)) first (sm_mode (sp_summary plan)) (chunk_limit options)) = Inr setPlan \<and>
     auditDigest (ev_sha256 ev) (ev_render ev) (mr_audit setPlan) = Inr (sm_auditDigest (sp_summary plan)) \<and>
     applySetPlanningDecision first (js_set (map ce_versionId (mr_selectedCards setPlan))) = Inr (sm_selection (sp_summary plan)) \<and>
     planSelectedScopes (ev_sha256 ev) (collectAdmittedCards (sm_selection (sp_summary plan)) cards) (chunk_limit options) = Inr planned \<and>
     planningLimitViolations (length (collectAdmittedCards (sm_selection (sp_summary plan)) cards)) planned = [] \<and>
     sp_query plan = queryText \<and> sm_planning (sp_summary plan) = mr_audit setPlan \<and>
     sm_policyContext (sp_summary plan) = pa_context policy \<and> sm_excluded (sp_summary plan) = pa_excluded policy \<and>
     sp_items plan = rd_items planned \<and> sp_managedTargets plan = rd_managedTargets planned"

lemma draft_parts:
  assumes "draft_plan ev ports queryText options = Inr plan"
  shows "\<exists>cards policy first setPlan planned. sl_catalog ports = Inr cards \<and> drafted ev cards queryText options policy first setPlan planned plan"
proof -
  obtain cards policy mode candidates first setPlan digest selection planned where
    "sl_catalog ports = Inr cards" "applyPolicyContext cards (or_default DEFAULT_POLICY_CONTEXT (sx_policy options)) = Inr policy"
    "judgeCandidates (ev_render ev) (map scored_of candidates) (or_default DEFAULT_SELECTION_THRESHOLDS (sx_thresholds options)) = Inr first"
    "planMinimumSufficientCardSet (ev_sha256 ev) (ev_lexicon ev) (ev_words ev)
       (planner_input queryText policy (scoreCardsAgainstQuery (ev_lexicon ev) queryText (pa_eligible policy))
          candidates first mode (chunk_limit options)) = Inr setPlan"
    "auditDigest (ev_sha256 ev) (ev_render ev) (mr_audit setPlan) = Inr digest"
    "applySetPlanningDecision first (js_set (map ce_versionId (mr_selectedCards setPlan))) = Inr selection"
    "planSelectedScopes (ev_sha256 ev) (collectAdmittedCards selection cards) (chunk_limit options) = Inr planned"
    "planningLimitViolations (length (collectAdmittedCards selection cards)) planned = []"
    "plan = \<lparr>sp_query = queryText,
        sp_summary = \<lparr>sm_candidates = candidates, sm_selection = selection, sm_planning = mr_audit setPlan, sm_auditDigest = digest,
          sm_mode = mode, sm_policyContext = pa_context policy, sm_excluded = pa_excluded policy\<rparr>,
        sp_items = rd_items planned, sp_managedTargets = rd_managedTargets planned\<rparr>"
    using assms unfolding draft_plan_def planner_input_def Let_def
    by (auto simp: res_bind_eq_Inr lift_domain_Inr split: if_splits prod.splits)
  then show ?thesis by (intro exI [of _ cards] exI [of _ policy] exI [of _ first] exI [of _ setPlan] exI [of _ planned]) (simp add: drafted_def)
qed

text \<open>The catalogs Registry hands over: one Card per version, no NUL in a Card id, and at least one scope per Card.\<close>

definition selectable_catalog :: "approved_card list \<Rightarrow> bool" where
  "selectable_catalog cards \<longleftrightarrow> distinct (map ce_versionId cards) \<and> (\<forall>c \<in> set cards. without_nul (ce_cardId c) \<and> ce_scopes c \<noteq> [])"

abbreviation card_key :: "approved_card \<Rightarrow> string" where
  "card_key c \<equiv> cardRefKey (ce_cardId c) (ce_versionId c)"

lemma map_filter_map:
  "(\<And>x. x \<in> set xs \<Longrightarrow> f x = Some (g x)) \<Longrightarrow> List.map_filter f xs = map g xs"
  by (induction xs) (simp_all add: map_filter_simps)

text \<open>One record of what a draft is made of; each part of the verification reads off one of its facts.\<close>

lemma planned_cards:
  assumes inj: "inj (ev_sha256 ev)" and cat: "distinct (map ce_versionId cards)"
    and policy: "applyPolicyContext cards context = Inr policy"
    and run: "planMinimumSufficientCardSet (ev_sha256 ev) (ev_lexicon ev) (ev_words ev)
      (planner_input queryText policy lexical candidates first mode limit) = Inr setPlan"
    and proj: "applySetPlanningDecision first (js_set (map ce_versionId (mr_selectedCards setPlan))) = Inr sel"
  shows "\<exists>card strong. set strong \<subseteq> set (pa_eligible policy) \<and>
    (\<forall>x \<in> set (rs_outcomes first). card x \<in> set (pa_eligible policy) \<and> ce_versionId (card x) = oc_versionId x \<and> ce_cardId (card x) = oc_cardId x) \<and>
    strong = map card (filter (\<lambda>x. oc_verdict x = Admit) (rs_outcomes first)) \<and> distinct (map ce_versionId strong) \<and>
    distinct (map oc_versionId (rs_outcomes first)) \<and>
    mr_selectedCards setPlan = filter (\<lambda>c. ce_versionId c \<in> ce_versionId ` set (mr_selectedCards setPlan)) strong \<and>
    collectAdmittedCards sel cards = mr_selectedCards setPlan \<and>
    list_all2 (\<lambda>c k. pd_cardId k = ce_cardId c \<and> pd_versionId k = ce_versionId c \<and>
      (pd_decision k = NotPlanned \<longleftrightarrow> ce_versionId c \<notin> ce_versionId ` set (mr_selectedCards setPlan))) strong (ma_decisions (mr_audit setPlan)) \<and>
    ma_removalCount (mr_audit setPlan) = length strong - length (mr_selectedCards setPlan) \<and>
    measurePlanCost (ev_sha256 ev) strong limit = Inr (ma_costBefore (mr_audit setPlan)) \<and>
    measurePlanCost (ev_sha256 ev) (mr_selectedCards setPlan) limit = Inr (ma_costAfter (mr_audit setPlan)) \<and>
    map outcome_key (filter (\<lambda>x. oc_verdict x = Admit) (rs_outcomes sel)) = map card_key (mr_selectedCards setPlan) \<and>
    rs_outcomes sel = map (project_outcome (js_set (map ce_versionId (mr_selectedCards setPlan)))) (rs_outcomes first) \<and>
    (\<forall>y \<in> set candidates. \<exists>c \<in> set (pa_eligible policy). ce_versionId c = qs_versionId y \<and> ce_cardId c = qs_cardId y)"
proof -
  let ?sel = sel and ?chosen = "mr_selectedCards setPlan" and ?audit = "mr_audit setPlan"
  let ?in = "planner_input queryText policy lexical candidates first mode limit"
  have sels: "mn_eligibleCards ?in = pa_eligible policy" "mn_initialSelection ?in = first" "mn_chunkLimitPerScope ?in = limit"
    "mn_rankedScores ?in = candidates"
    by (simp_all add: planner_input_def)
  obtain strong pn where r: "planning_context (ev_sha256 ev) (ev_lexicon ev) (ev_words ev) ?in = Inr (strong, pn)"
    "reduced (ev_sha256 ev) pn strong (ma_costBefore ?audit) ?chosen (ma_costAfter ?audit)"
    "measurePlanCost (ev_sha256 ev) strong limit = Inr (ma_costBefore ?audit)"
    "ma_removalCount ?audit = length strong - length ?chosen"
    "list_all2 (\<lambda>c k. pd_versionId k = ce_versionId c \<and>
      (pd_decision k = NotPlanned \<longleftrightarrow> ce_versionId c \<notin> ce_versionId ` set ?chosen)) strong (ma_decisions ?audit)"
    using planner_result [OF inj run] unfolding sels by (elim exE conjE) (rule that)
  note ctx = context_facts [OF inj r(1), unfolded sels]
  obtain byv where byv: "assertPlannerInput ?in = Inr byv" "strong = initial_strong first byv" using ctx(4) by blast
  note pc = planner_cards(1) [OF byv(1), unfolded sels]
  define card where "card x = the (map_of byv (oc_versionId x))" for x :: selection_outcome
  have card: "card x \<in> set (pa_eligible policy)" "ce_versionId (card x) = oc_versionId x" "ce_cardId (card x) = oc_cardId x"
    "map_of byv (oc_versionId x) = Some (card x)" if "x \<in> set (rs_outcomes first)" for x
    using pc [OF that] by (auto simp: card_def)
  have strong: "strong = map card (filter (\<lambda>x. oc_verdict x = Admit) (rs_outcomes first))"
    unfolding byv(2) initial_strong_def by (rule map_filter_map) (simp add: card)
  have sub: "set strong \<subseteq> set (pa_eligible policy)" using card(1) by (auto simp: strong)
  have dist: "distinct (map oc_versionId (rs_outcomes first))" using assertPlannerInput_facts(1) [OF byv(1)] unfolding sels .
  obtain P where "?chosen = filter P strong" using r(2) unfolding reduced_def by blast
  then have chosen: "?chosen = filter (\<lambda>c. ce_versionId c \<in> ce_versionId ` set ?chosen) strong" by (rule filter_by_ids [OF ctx(1)])
  have costAfter: "measurePlanCost (ev_sha256 ev) ?chosen limit = Inr (ma_costAfter ?audit)"
    using r(2) ctx(2) unfolding reduced_def by simp
  have ids: "list_all2 (\<lambda>c k. pd_cardId k = ce_cardId c) strong (ma_decisions ?audit)" by (rule planner_card_ids [OF run r(1)])
  have decisions: "list_all2 (\<lambda>c k. pd_cardId k = ce_cardId c \<and> pd_versionId k = ce_versionId c \<and>
      (pd_decision k = NotPlanned \<longleftrightarrow> ce_versionId c \<notin> ce_versionId ` set ?chosen)) strong (ma_decisions ?audit)"
    using ids r(5) by (auto simp: list_all2_conv_all_nth)
  have outs: "rs_outcomes ?sel = map (project_outcome (js_set (map ce_versionId ?chosen))) (rs_outcomes first)"
  proof -
    have "?sel = first\<lparr>rs_outcomes := map (project_outcome (js_set (map ce_versionId ?chosen))) (rs_outcomes first)\<rparr>"
      using proj unfolding applySetPlanningDecision_def Let_def by (simp split: option.splits if_splits)
    then show ?thesis by simp
  qed
  have adm: "filter (\<lambda>x. oc_verdict x = Admit) (rs_outcomes ?sel) =
      filter (\<lambda>x. oc_versionId x \<in> ce_versionId ` set ?chosen) (filter (\<lambda>x. oc_verdict x = Admit) (rs_outcomes first))"
  proof -
    have "filter (\<lambda>x. oc_verdict x = Admit) (map (project_outcome (js_set (map ce_versionId ?chosen))) xs) =
        filter (\<lambda>x. oc_versionId x \<in> ce_versionId ` set ?chosen) (filter (\<lambda>x. oc_verdict x = Admit) xs)" for xs
      by (induction xs) (auto simp: project_outcome_def)
    then show ?thesis unfolding outs by blast
  qed
  have elig: "pa_eligible policy = filter (\<lambda>c. exclusionReason c context = None) cards"
    using policy by (simp add: applyPolicyContext_ok)
  have look: "map_of (js_map (map (\<lambda>c. (ce_versionId c, c)) cards)) (oc_versionId x) = Some (card x)" if "x \<in> set (rs_outcomes first)" for x
  proof -
    have "map_of (js_map (map (\<lambda>c. (ce_versionId c, c)) cards)) = map_of (map (\<lambda>c. (ce_versionId c, c)) cards)"
      using cat by (simp add: map_of_js_map map_of_rev_distinct comp_def)
    then show ?thesis using map_of_pairs [OF cat, of "oc_versionId x" "card x"] card [OF that] elig by simp
  qed
  have "collectAdmittedCards ?sel cards =
      map card (filter (\<lambda>x. oc_versionId x \<in> ce_versionId ` set ?chosen) (filter (\<lambda>x. oc_verdict x = Admit) (rs_outcomes first)))"
    unfolding collectAdmittedCards_def Let_def adm by (rule map_filter_map) (simp add: look)
  moreover have chain: "map card (filter (\<lambda>x. oc_versionId x \<in> ce_versionId ` set ?chosen) (filter (\<lambda>x. oc_verdict x = Admit) (rs_outcomes first))) =
      filter (\<lambda>c. ce_versionId c \<in> ce_versionId ` set ?chosen) strong"
    unfolding strong filter_map by (rule arg_cong [of _ _ "map card"], rule filter_cong [OF refl]) (simp add: card)
  ultimately have col: "collectAdmittedCards ?sel cards = ?chosen" unfolding chosen [symmetric] by (rule trans)
  have "map outcome_key (filter (\<lambda>x. oc_verdict x = Admit) (rs_outcomes ?sel)) = map card_key (map card
      (filter (\<lambda>x. oc_versionId x \<in> ce_versionId ` set ?chosen) (filter (\<lambda>x. oc_verdict x = Admit) (rs_outcomes first))))"
    unfolding adm by (simp add: outcome_key_def card)
  then have keys: "map outcome_key (filter (\<lambda>x. oc_verdict x = Admit) (rs_outcomes ?sel)) = map card_key ?chosen"
    unfolding chain chosen [symmetric] .
  have ranked: "\<exists>c \<in> set (pa_eligible policy). ce_versionId c = qs_versionId y \<and> ce_cardId c = qs_cardId y"
    if "y \<in> set candidates" for y
    using planner_cards(2) [OF byv(1), unfolded sels] that .
  show ?thesis
    using sub card strong ctx(1) dist chosen col decisions r(3,4) costAfter keys outs ranked by (intro exI [of _ card] exI [of _ strong] conjI) auto
qed

lemma card_key_inj:
  assumes "selectable_catalog cards" and "c \<in> set cards" "d \<in> set cards" and "card_key c = card_key d"
  shows "c = d"
proof -
  have "ce_versionId c = ce_versionId d"
    using assms cardRefKey_inj unfolding selectable_catalog_def by blast
  then show ?thesis using assms unfolding selectable_catalog_def distinct_map by (meson inj_onD)
qed

lemma list_all2_filter_length: "list_all2 (\<lambda>c d. P c \<longleftrightarrow> Q d) cs ds \<Longrightarrow> length (filter P cs) = length (filter Q ds)"
  by (induction cs ds rule: list_all2_induct) auto

lemma draft_verifies:
  assumes inj: "inj (ev_sha256 ev)" and cat: "selectable_catalog cards"
    and d: "drafted ev cards queryText options policy first setPlan planned plan"
  shows "verifySelectionPlan (ev_sha256 ev) (ev_render ev) plan (Some queryText) = Inr ()"
proof -
  let ?sel = "sm_selection (sp_summary plan)" and ?chosen = "mr_selectedCards setPlan" and ?audit = "mr_audit setPlan"
  let ?V = "ce_versionId ` set ?chosen"
  have D: "distinct (map ce_versionId cards)" using cat by (simp add: selectable_catalog_def)
  have run: "applyPolicyContext cards (or_default DEFAULT_POLICY_CONTEXT (sx_policy options)) = Inr policy"
    "planMinimumSufficientCardSet (ev_sha256 ev) (ev_lexicon ev) (ev_words ev)
      (planner_input queryText policy (scoreCardsAgainstQuery (ev_lexicon ev) queryText (pa_eligible policy))
        (sm_candidates (sp_summary plan)) first (sm_mode (sp_summary plan)) (chunk_limit options)) = Inr setPlan"
    "applySetPlanningDecision first (js_set (map ce_versionId ?chosen)) = Inr ?sel"
    using d unfolding drafted_def by blast+
  from planned_cards [OF inj D run] obtain card strong where F:
    "set strong \<subseteq> set (pa_eligible policy)"
    "\<forall>x \<in> set (rs_outcomes first). card x \<in> set (pa_eligible policy) \<and> ce_versionId (card x) = oc_versionId x \<and> ce_cardId (card x) = oc_cardId x"
    "strong = map card (filter (\<lambda>x. oc_verdict x = Admit) (rs_outcomes first))" "distinct (map ce_versionId strong)"
    "distinct (map oc_versionId (rs_outcomes first))"
    "?chosen = filter (\<lambda>c. ce_versionId c \<in> ?V) strong" "collectAdmittedCards ?sel cards = ?chosen"
    "list_all2 (\<lambda>c k. pd_cardId k = ce_cardId c \<and> pd_versionId k = ce_versionId c \<and>
      (pd_decision k = NotPlanned \<longleftrightarrow> ce_versionId c \<notin> ?V)) strong (ma_decisions ?audit)"
    "ma_removalCount ?audit = length strong - length ?chosen"
    "measurePlanCost (ev_sha256 ev) strong (chunk_limit options) = Inr (ma_costBefore ?audit)"
    "measurePlanCost (ev_sha256 ev) ?chosen (chunk_limit options) = Inr (ma_costAfter ?audit)"
    "map outcome_key (filter (\<lambda>x. oc_verdict x = Admit) (rs_outcomes ?sel)) = map card_key ?chosen"
    "rs_outcomes ?sel = map (project_outcome (js_set (map ce_versionId ?chosen))) (rs_outcomes first)"
    "\<forall>y \<in> set (sm_candidates (sp_summary plan)). \<exists>c \<in> set (pa_eligible policy). ce_versionId c = qs_versionId y \<and> ce_cardId c = qs_cardId y"
    by (elim exE conjE) (rule that)
  have P: "applyPolicyContext cards (or_default DEFAULT_POLICY_CONTEXT (sx_policy options)) = Inr policy"
    "auditDigest (ev_sha256 ev) (ev_render ev) ?audit = Inr (sm_auditDigest (sp_summary plan))"
    "planSelectedScopes (ev_sha256 ev) ?chosen (chunk_limit options) = Inr planned"
    "sp_query plan = queryText" "sm_planning (sp_summary plan) = ?audit" "sm_policyContext (sp_summary plan) = pa_context policy"
    "sm_excluded (sp_summary plan) = pa_excluded policy" "sp_items plan = rd_items planned" "sp_managedTargets plan = rd_managedTargets planned"
    using d F(7) unfolding drafted_def by simp_all
  have elig: "set (pa_eligible policy) \<subseteq> set cards" using P(1) by (auto simp: applyPolicyContext_ok)
  have chosen: "set ?chosen \<subseteq> set strong" using F(6) by (metis filter_is_subset)
  have all: "set ?chosen \<subseteq> set cards" "set strong \<subseteq> set cards" using F(1) elig chosen by blast+
  have wf: "\<forall>c \<in> set ?chosen. without_nul (ce_cardId c)" "\<forall>c \<in> set ?chosen. ce_scopes c \<noteq> []"
    using cat all(1) unfolding selectable_catalog_def by blast+
  note plan = planSelectedScopes_ok [OF inj P(3)]
  have reads: "reads_sound (ev_sha256 ev) plan" by (rule plan_reads_sound [OF inj plan wf(1) P(8,9)])
  have keys: "selecting_keys plan = card_key ` set ?chosen" by (rule plan_selecting_keys [OF plan(2) P(8) wf(2)])
  have inj_key: "c = d" if "c \<in> set cards" "d \<in> set cards" "card_key c = card_key d" for c d
    using card_key_inj [OF cat] that by blast
  have dist: "distinct (map card_key xs)" if "distinct (map ce_versionId xs)" "set xs \<subseteq> set cards" for xs
    using that inj_key by (auto simp: distinct_map intro!: inj_onI dest: subsetD)
  have "distinct (map ce_versionId ?chosen)" using F(4) F(6) by (metis distinct_map_filter)
  then have admitted: "admitted_keys ?sel = map card_key ?chosen"
    unfolding admitted_keys_def F(12) using js_set_distinct dist all(1) by blast
  have outcome: "outcome_key x = card_key (card x)" if "x \<in> set (rs_outcomes first)" for x using F(2) that by (simp add: outcome_key_def)
  have projected: "outcome_key (project_outcome vs x) = outcome_key x" for vs x by (simp add: project_outcome_def outcome_key_def)
  have okeys: "map outcome_key (rs_outcomes ?sel) = map card_key (map card (rs_outcomes first))"
    unfolding F(13) by (simp add: projected outcome)
  have "map ce_versionId (map card (rs_outcomes first)) = map oc_versionId (rs_outcomes first)" using F(2) by simp
  then have "distinct (map ce_versionId (map card (rs_outcomes first)))" using F(5) by (simp only:)
  moreover have "set (map card (rs_outcomes first)) \<subseteq> set cards" using F(2) elig by auto
  ultimately have "distinct (map card_key (map card (rs_outcomes first)))" by (rule dist)
  then have odist: "distinct (map outcome_key (rs_outcomes ?sel))" unfolding okeys .
  have look: "List.find (\<lambda>x. outcome_key x = outcome_key y) (rs_outcomes ?sel) = Some y" if "y \<in> set (rs_outcomes ?sel)" for y
    by (rule find_distinct_key [OF odist that])
  have ds: "length (ma_decisions ?audit) = length strong" using F(8) by (simp add: list_all2_lengthD)
  have nth: "pd_cardId (ma_decisions ?audit ! i) = ce_cardId (strong ! i)" "pd_versionId (ma_decisions ?audit ! i) = ce_versionId (strong ! i)"
    "pd_decision (ma_decisions ?audit ! i) = NotPlanned \<longleftrightarrow> ce_versionId (strong ! i) \<notin> ?V" if "i < length strong" for i
    using F(8) that by (auto simp: list_all2_conv_all_nth)
  have dkeys: "map decision_key (ma_decisions ?audit) = map card_key strong"
    by (rule nth_equalityI) (simp_all add: ds nth)
  have member: "c \<in> set ?chosen \<longleftrightarrow> c \<in> set strong \<and> ce_versionId c \<in> ?V" for c
    using arg_cong [OF F(6), of "\<lambda>xs. c \<in> set xs"] by simp
  have sound: "decision_sound ?sel (map card_key ?chosen) k" if k: "k \<in> set (ma_decisions ?audit)" for k
  proof -
    obtain i where i: "i < length strong" "k = ma_decisions ?audit ! i" using k ds by (metis in_set_conv_nth)
    define c where "c = strong ! i"
    have c: "c \<in> set strong" "decision_key k = card_key c" "pd_decision k = NotPlanned \<longleftrightarrow> ce_versionId c \<notin> ?V"
      using i nth [OF i(1)] by (simp_all add: c_def)
    have "inj_on card_key (set cards)" by (rule inj_onI) (rule inj_key)
    then have in_key: "card_key c \<in> card_key ` set ?chosen \<longleftrightarrow> c \<in> set ?chosen"
      by (rule inj_on_image_mem_iff) (use c(1) all in blast)+
    have key: "decision_key k \<in> set (map card_key ?chosen) \<longleftrightarrow> pd_decision k \<noteq> NotPlanned"
      unfolding c(2) set_map in_key unfolding member [of c] using c(1,3) by argo
    show ?thesis
    proof (cases "pd_decision k = NotPlanned")
      case False
      then show ?thesis using key unfolding decision_sound_def by argo
    next
      case True
      obtain x where x: "x \<in> set (rs_outcomes first)" "oc_verdict x = Admit" "c = card x" using c(1) F(3) by auto
      let ?y = "project_outcome (js_set (map ce_versionId ?chosen)) x"
      have "oc_versionId x \<notin> ?V" using True c(3) x F(2) by metis
      then have y: "oc_verdict ?y = Defer" "oc_findings ?y = COVERED_BY_SELECTED_SET_FINDINGS" using x(2) by (simp_all add: project_outcome_def)
      have "?y \<in> set (rs_outcomes ?sel)" unfolding F(13) using x(1) by simp
      moreover have "outcome_key ?y = decision_key k" using projected outcome x(1,3) c(2) by simp
      ultimately have "List.find (\<lambda>x. outcome_key x = decision_key k) (rs_outcomes ?sel) = Some ?y" using look [of ?y] by (simp only:)
      moreover have "covered_defer (Some ?y)" unfolding covered_defer_def using y by (simp add: COVERED_BY_SELECTED_SET_FINDINGS_def)
      ultimately have "covered_defer (List.find (\<lambda>x. outcome_key x = decision_key k) (rs_outcomes ?sel))" by (simp only:)
      moreover have "decision_key k \<notin> set (map card_key ?chosen)" using key True by blast
      ultimately show ?thesis unfolding decision_sound_def if_P [OF True] by blast
    qed
  qed
  have retained: "card_key c \<in> decision_key ` {k \<in> set (ma_decisions ?audit). pd_decision k \<noteq> NotPlanned}" if c: "c \<in> set ?chosen" for c
  proof -
    obtain i where i: "i < length strong" "c = strong ! i" using c chosen by (metis in_set_conv_nth subsetD)
    let ?k = "ma_decisions ?audit ! i"
    have "?k \<in> set (ma_decisions ?audit)" "pd_decision ?k \<noteq> NotPlanned" "decision_key ?k = card_key c"
      using i ds nth [OF i(1)] member c by (metis nth_mem)+
    then show ?thesis by (metis (mono_tags, lifting) image_eqI mem_Collect_eq)
  qed
  have "list_all2 (\<lambda>c k. ce_versionId c \<notin> ?V \<longleftrightarrow> pd_decision k = NotPlanned) strong (ma_decisions ?audit)"
    using F(8) by (rule list_all2_mono) blast
  then have "length (filter (\<lambda>k. pd_decision k = NotPlanned) (ma_decisions ?audit)) = length (filter (\<lambda>c. ce_versionId c \<notin> ?V) strong)"
    by (simp add: list_all2_filter_length)
  also have "\<dots> = length strong - length ?chosen"
    using sum_length_filter_compl [of "\<lambda>c. ce_versionId c \<in> ?V" strong] F(6) by (metis add_diff_cancel_left')
  finally have removed: "ma_removalCount ?audit = length (filter (\<lambda>k. pd_decision k = NotPlanned) (ma_decisions ?audit))" using F(9) by simp
  have before: "pc_cardCount (ma_costBefore ?audit) = int (length (ma_decisions ?audit))"
    using F(10) ds by (auto simp: cost_Inr [OF inj] measurePreparedPlanCost_def)
  have after: "actual_cost plan (map card_key ?chosen) = ma_costAfter ?audit"
    using F(11) P(3) by (auto simp: cost_Inr [OF inj] measurePreparedPlanCost_def actual_cost_def P(8,9))
  have "distinct (map decision_key (ma_decisions ?audit))" unfolding dkeys by (rule dist [OF F(4) all(2)])
  then have audit: "audit_sound (ev_sha256 ev) (ev_render ev) plan"
    unfolding audit_sound_def Let_def P(5) admitted using P(2) sound retained removed before after by (auto simp: list_all_iff)
  have out: "k \<notin> set (excluded_keys (sp_summary plan))" if c: "c \<in> set (pa_eligible policy)" and k: "k = card_key c" for c k
  proof
    assume "k \<in> set (excluded_keys (sp_summary plan))"
    then obtain e where e: "e \<in> set cards" "exclusionReason e (or_default DEFAULT_POLICY_CONTEXT (sx_policy options)) \<noteq> None" "card_key e = card_key c"
      using P(1) k unfolding excluded_keys_def P(7) by (auto simp: applyPolicyContext_ok)
    then have "e = c" using inj_key c elig by blast
    then show False using P(1) c e(2) by (auto simp: applyPolicyContext_ok)
  qed
  have "policy_sound plan"
    unfolding policy_sound_def Let_def
  proof (intro conjI ballI)
    show "assertValidPolicyContext (sm_policyContext (sp_summary plan)) = Inr ()" using P(1) unfolding P(6) by (auto simp: applyPolicyContext_ok)
    show "cardRefKey (qs_cardId y) (qs_versionId y) \<notin> set (excluded_keys (sp_summary plan))" if "y \<in> set (sm_candidates (sp_summary plan))" for y
      using F(14) that out by metis
    show "outcome_key x \<notin> set (excluded_keys (sp_summary plan))" if "x \<in> set (rs_outcomes ?sel)" for x
    proof -
      have "outcome_key x \<in> set (map outcome_key (rs_outcomes ?sel))" using that by simp
      then obtain z where "z \<in> set (rs_outcomes first)" "outcome_key x = card_key (card z)" unfolding okeys by auto
      then show ?thesis using F(2) out by blast
    qed
    show "selecting_keys plan \<inter> set (excluded_keys (sp_summary plan)) = {}" unfolding keys using out chosen F(1) by blast
  qed
  then show ?thesis unfolding verifySelectionPlan_ok admitted using reads keys audit P(4) by simp
qed

end
