(* ===== verification/Select_Answers.thy ===== *)
theory Select_Answers
  imports Select_Laws Selection_Properties
begin

text \<open>
  On the lexical path Selection has an answer: what scoring, the policy and the verdicts hand to the set planner passes
  its input check, and nothing after it can fail but the ceilings of a plan.
\<close>

section \<open>What the planner is handed\<close>

lemma uniqueReferences_ok:
  "distinct (map vid xs) \<Longrightarrow> (\<forall>x \<in> set xs. map_of m (vid x) = None) \<Longrightarrow>
     uniqueReferences label vid xs m = Inr (m @ map (\<lambda>x. (vid x, x)) xs)"
proof (induction xs arbitrary: m)
  case (Cons x xs)
  have "AList.update (vid x) x m = m @ [(vid x, x)]" using Cons.prems(2) by (intro update_fresh) (simp add: map_of_eq_None_iff)
  moreover have "\<forall>y \<in> set xs. map_of (m @ [(vid x, x)]) (vid y) = None" using Cons.prems by (simp add: map_add_def) (metis imageI)
  ultimately show ?case using Cons by simp
qed simp

lemma eligible_unique_ok:
  "distinct (map ce_versionId cs) \<Longrightarrow> ce_versionId ` set cs \<inter> set seen = {} \<Longrightarrow> eligible_unique seen cs = Inr ()"
  by (induction seen cs rule: eligible_unique.induct) auto

definition same_identity :: "approved_card \<Rightarrow> candidate_score \<Rightarrow> bool" where
  "same_identity c s \<longleftrightarrow> qs_cardId s = ce_cardId c \<and> qs_versionId s = ce_versionId c"

lemma ranked_cards_ok:
  "list_all2 same_identity cs ss \<Longrightarrow> (\<forall>c \<in> set cs. map_of ranked (ce_versionId c) \<noteq> None) \<Longrightarrow>
     distinct (map ce_versionId cs) \<Longrightarrow> (\<forall>c \<in> set cs. map_of m (ce_versionId c) = None) \<Longrightarrow>
     ranked_cards ranked cs ss m = Inr (m @ map (\<lambda>c. (ce_versionId c, c)) cs)"
proof (induction cs ss arbitrary: m rule: list_all2_induct)
  case (Cons c cs s ss)
  have "AList.update (ce_versionId c) c m = m @ [(ce_versionId c, c)]"
    using Cons.prems(3) by (intro update_fresh) (simp add: map_of_eq_None_iff)
  moreover have "\<forall>d \<in> set cs. map_of (m @ [(ce_versionId c, c)]) (ce_versionId d) = None" using Cons.prems by (simp add: map_add_def) (metis imageI)
  ultimately show ?case using Cons by (simp add: same_identity_def)
qed simp

lemma scores_identity: "list_all2 same_identity cards (scoreCardsAgainstQuery lx t cards)"
proof -
  have "list_all2 (index_ok n) cs ixs \<Longrightarrow> list_all2 same_identity cs (map (\<lambda>ix. fst (scoreCard lx q st l ix)) ixs)" for n cs ixs q st l
  proof (induction rule: list_all2_induct)
    case (Cons c cs ix ixs)
    then show ?case using scoreCard_spec [OF Cons.hyps(1) refl, of lx q st l] by (simp add: same_identity_def)
  qed simp
  from this [OF catalog_cards] show ?thesis by (simp add: run_scores)
qed

lemma planner_input_ok:
  assumes q: "trim queryText \<noteq> []" and d: "distinct (map ce_versionId (pa_eligible policy))"
    and ids: "list_all2 same_identity (pa_eligible policy) ss" and fin: "\<forall>s \<in> set ss. is_finite (qs_score s)"
    and judge: "judgeCandidates render (map scored_of ss) t = Inr first"
  shows "assertPlannerInput (planner_input queryText policy ss ss first mode limit) =
     Inr (map (\<lambda>c. (ce_versionId c, c)) (pa_eligible policy))"
proof -
  let ?cs = "pa_eligible policy" and ?ranked = "rank_candidates (map scored_of ss)"
  have versions: "map qs_versionId ss = map ce_versionId ?cs"
    using ids by (auto simp: list_all2_conv_all_nth same_identity_def intro!: nth_equalityI)
  then have ds: "distinct (map qs_versionId ss)" using d by simp
  have first: "rs_outcomes first = map (judgeOrdinaryCandidate render t) ?ranked" "rp_ranked (rs_provenance first) = ?ranked"
    "rp_consideredCount (rs_provenance first) = length ss"
    using judge by (auto simp: judgeCandidates_eq res_bind_eq_Inr)
  have rset: "set ?ranked = scored_of ` set ss" by simp
  have len: "length ?ranked = length ss" by (metis length_map mset_rank size_mset)
  have sv [simp]: "sn_versionId (scored_of s) = qs_versionId s" "sn_cardId (scored_of s) = qs_cardId s" "sn_score (scored_of s) = qs_score s" for s
    by (simp_all add: scored_of_def)
  have "mset (map sn_versionId ?ranked) = mset (map sn_versionId (map scored_of ss))" by (simp only: mset_map mset_rank)
  then have "distinct (map sn_versionId ?ranked) = distinct (map sn_versionId (map scored_of ss))" by (rule mset_eq_imp_distinct_iff)
  then have dr: "distinct (map sn_versionId ?ranked)" using ds by (simp add: comp_def)
  then have dout: "distinct (map oc_versionId (rs_outcomes first))" unfolding first by (simp add: comp_def)
  let ?R = "map (\<lambda>s. (qs_versionId s, s)) ss" and ?O = "map (\<lambda>x. (oc_versionId x, x)) (rs_outcomes first)"
    and ?P = "map (\<lambda>p. (sn_versionId p, p)) ?ranked" and ?C = "map (\<lambda>c. (ce_versionId c, c)) ?cs"
  have ranked: "map_of ?R (ce_versionId c) \<noteq> None" if "c \<in> set ?cs" for c
  proof -
    have "ce_versionId c \<in> set (map ce_versionId ?cs)" using that by simp
    then have "ce_versionId c \<in> qs_versionId ` set ss" unfolding versions [symmetric] by simp
    then show ?thesis by (auto simp: map_of_eq_None_iff image_image)
  qed
  have found: "map_of ?O (qs_versionId s) = Some (judgeOrdinaryCandidate render t (scored_of s))" "map_of ?P (qs_versionId s) = Some (scored_of s)"
    "\<exists>c. map_of ?C (qs_versionId s) = Some c \<and> ce_cardId c = qs_cardId s" if s: "s \<in> set ss" for s
  proof -
    show "map_of ?O (qs_versionId s) = Some (judgeOrdinaryCandidate render t (scored_of s))"
      by (subst map_of_pairs [OF dout]) (use s rset in \<open>auto simp: first(1)\<close>)
    show "map_of ?P (qs_versionId s) = Some (scored_of s)" unfolding map_of_pairs [OF dr] using s rset by auto
    obtain i where "i < length ss" "s = ss ! i" using s by (metis in_set_conv_nth)
    then have "?cs ! i \<in> set ?cs" "same_identity (?cs ! i) s" using ids by (auto simp: list_all2_conv_all_nth)
    then show "\<exists>c. map_of ?C (qs_versionId s) = Some c \<and> ce_cardId c = qs_cardId s"
      unfolding map_of_pairs [OF d] by (intro exI [of _ "?cs ! i"]) (simp add: same_identity_def)
  qed
  have same: "sameKeys ?R ?O" "sameKeys ?R ?P"
    using found(1,2) len by (auto simp: sameKeys_def list_all_iff first)
  have good: "ranked_consistent ?C ?O ?P (qs_versionId s, s)" if s: "s \<in> set ss" for s
  proof -
    obtain c where "map_of ?C (qs_versionId s) = Some c" "ce_cardId c = qs_cardId s" using found(3) [OF s] by blast
    moreover obtain x where "qs_score s = Finite x" using fin s finiteE by blast
    ultimately show ?thesis using found(1,2) [OF s] by (simp add: ranked_consistent_def)
  qed
  have none: "List.find (\<lambda>entry. \<not> ranked_consistent ?C ?O ?P entry) ?R = None" using good by (auto simp: find_None_iff)
  have u: "uniqueReferences label qs_versionId ss [] = Inr ?R" "uniqueReferences label oc_versionId (rs_outcomes first) [] = Inr ?O"
    "uniqueReferences label sn_versionId ?ranked [] = Inr ?P" for label
    using ds dout dr by (simp_all add: uniqueReferences_ok)
  have e: "eligible_unique [] ?cs = Inr ()" using d by (simp add: eligible_unique_ok)
  have rc: "ranked_cards ?R ?cs ss [] = Inr ?C" using ranked_cards_ok [OF ids _ d, of ?R "[]"] ranked by simp
  have l: "length ?cs = length ss" using ids by (rule list_all2_lengthD)
  show ?thesis
    unfolding assertPlannerInput_def planner_input_def minimum_set_input.simps first(2,3) u e rc res_bind_Inr
    using q l same none by simp
qed

section \<open>What the planner hands on\<close>

lemma judging_answers: "usable t \<Longrightarrow> distinct (map sn_versionId cs) \<Longrightarrow> \<exists>r. judgeCandidates render cs t = Inr r"
  using assertUsableThresholds_ok [of render t] assertUniqueVersionIds_ok [of cs] by (simp add: judgeCandidates_eq)

lemma planner_coverage_finite:
  assumes "inj sha256" and "planMinimumSufficientCardSet sha256 lx fw input = Inr res"
  shows "\<forall>v \<in> set (ma_baselineCoverage (mr_audit res) @ ma_selectedCoverage (mr_audit res)). is_finite (fv_bestLexicalScore v)"
proof -
  let ?facets = "extractQueryFacets sha256 lx fw (mn_query input)"
  obtain cards supports selected where c: "assertPlannerInput input = Inr cards"
    "buildFacetSupports lx (initial_strong (mn_initialSelection input) cards) (mn_eligibleCards input) (fr_facets ?facets) = Inr supports"
    "ma_baselineCoverage (mr_audit res) = coverageForCards (initial_strong (mn_initialSelection input) cards) supports (fr_facets ?facets)"
    "ma_selectedCoverage (mr_audit res) = coverageForCards selected supports (fr_facets ?facets)"
    using assms(2) by (auto simp: planMinimumSufficientCardSet_def Let_def res_bind_eq_Inr)
  have "supports_finite supports"
    using buildFacetSupports_ok [OF assertPlannerInput_facts(2) [OF c(1)] initial_strong_facts [OF c(1)], of lx "fr_facets ?facets"] c(2) by auto
  then show ?thesis unfolding c(3,4) by (auto simp: coverageForCards_def facet_cover_finite)
qed

lemma projection_ok:
  assumes run: "assertPlannerInput input = Inr byv" and strong: "strong = initial_strong (mn_initialSelection input) byv"
    and red: "\<exists>P. chosen = filter P strong" "strong \<noteq> [] \<longrightarrow> chosen \<noteq> []"
    and known: "\<forall>x \<in> set (rs_outcomes (mn_initialSelection input)). map_of byv (oc_versionId x) \<noteq> None"
  shows "\<exists>sel. applySetPlanningDecision (mn_initialSelection input) (js_set (map ce_versionId chosen)) = Inr sel"
proof -
  let ?first = "mn_initialSelection input"
  note f = assertPlannerInput_facts(3) [OF run]
  have "ce_versionId c \<in> set (admitted_ids ?first)" if "c \<in> set strong" for c
    using that f by (force simp: strong initial_strong_def set_map_filter admitted_ids_def)
  then have none: "List.find (\<lambda>i. i \<notin> set (js_set (admitted_ids ?first))) (js_set (map ce_versionId chosen)) = None"
    using red(1) by (auto simp: find_None_iff)
  have "chosen \<noteq> []" if some: "admitted_ids ?first \<noteq> []"
  proof -
    obtain x where x: "x \<in> set (rs_outcomes ?first)" "oc_verdict x = Admit"
      using some by (auto simp: admitted_ids_def filter_empty_conv)
    then obtain c where "map_of byv (oc_versionId x) = Some c" using known by blast
    then have "c \<in> set strong" using x by (auto simp: strong initial_strong_def set_map_filter)
    then show ?thesis using red(2) by auto
  qed
  then have "\<not> (0 < length (js_set (admitted_ids ?first)) \<and> length (js_set (map ce_versionId chosen)) = 0)"
    using js_set_length_0 [of "admitted_ids ?first"] js_set_length_0 [of "map ce_versionId chosen"] by auto
  then show ?thesis unfolding applySetPlanningDecision_def Let_def none by auto
qed

section \<open>The lexical path\<close>

definition answerable :: "selection_environment \<Rightarrow> approved_card list \<Rightarrow> string \<Rightarrow> select_options \<Rightarrow> bool" where
  "answerable ev cards queryText options \<longleftrightarrow>
     trim queryText \<noteq> [] \<and> selectable_catalog cards \<and> consistent (chunk_limit options) cards \<and>
     (\<forall>c \<in> set cards. readable (ce_policy c)) \<and>
     assertValidPolicyContext (or_default DEFAULT_POLICY_CONTEXT (sx_policy options)) = Inr () \<and>
     usable (or_default DEFAULT_SELECTION_THRESHOLDS (sx_thresholds options))"

lemma lexical_run:
  assumes inj: "inj (ev_sha256 ev)" and cat: "sl_catalog ports = Inr cards" and lexical: "sl_semantic ports = None"
    and degraded: "or_default True (sd_allowLexicalDegraded (or_default no_semantic_policy (sx_semantic options)))"
    and ok: "answerable ev cards queryText options"
  shows "\<exists>policy first (setPlan :: minimum_set_result) sel planned plan.
    applyPolicyContext cards (or_default DEFAULT_POLICY_CONTEXT (sx_policy options)) = Inr policy \<and>
    judgeCandidates (ev_render ev) (map scored_of (scoreCardsAgainstQuery (ev_lexicon ev) queryText (pa_eligible policy)))
       (or_default DEFAULT_SELECTION_THRESHOLDS (sx_thresholds options)) = Inr first \<and>
    applySetPlanningDecision first (js_set (map ce_versionId (mr_selectedCards setPlan))) = Inr sel \<and>
    (filter (\<lambda>x. oc_verdict x = Admit) (rs_outcomes first) \<noteq> [] \<longrightarrow> mr_selectedCards setPlan \<noteq> []) \<and>
    set (mr_selectedCards setPlan) \<subseteq> set (pa_eligible policy) \<and> distinct (map ce_versionId (mr_selectedCards setPlan)) \<and>
    planSelectedScopes (ev_sha256 ev) (mr_selectedCards setPlan) (chunk_limit options) = Inr planned \<and>
    sp_items plan = rd_items planned \<and> sp_managedTargets plan = rd_managedTargets planned \<and>
    draft_plan ev ports queryText options =
      (if 0 < length (planningLimitViolations (length (mr_selectedCards setPlan)) planned)
       then Inl (Resolve (SelectionPlanLimitExceededError (planningLimitViolations (length (mr_selectedCards setPlan)) planned)))
       else Inr plan)"
proof -
  let ?lx = "ev_lexicon ev" and ?sha = "ev_sha256 ev" and ?limit = "chunk_limit options"
  let ?pol = "or_default DEFAULT_POLICY_CONTEXT (sx_policy options)" and ?t = "or_default DEFAULT_SELECTION_THRESHOLDS (sx_thresholds options)"
  have q: "trim queryText \<noteq> []" and D: "distinct (map ce_versionId cards)" and con: "consistent ?limit cards" and usable: "usable ?t"
    using ok by (auto simp: answerable_def selectable_catalog_def)
  obtain policy where policy: "applyPolicyContext cards ?pol = Inr policy"
    using ok by (simp add: applyPolicyContext_ok answerable_def)
  let ?ss = "scoreCardsAgainstQuery ?lx queryText (pa_eligible policy)"
  have elig: "pa_eligible policy = filter (\<lambda>c. exclusionReason c ?pol = None) cards" using policy by (simp add: applyPolicyContext_ok)
  then have de: "distinct (map ce_versionId (pa_eligible policy))" and sub: "set (pa_eligible policy) \<subseteq> set cards"
    using D by (simp_all add: distinct_map_filter)
  have "map qs_versionId ?ss = map ce_versionId (pa_eligible policy)"
    using scores_identity [of "pa_eligible policy"] by (auto simp: list_all2_conv_all_nth same_identity_def intro!: nth_equalityI)
  then have "distinct (map sn_versionId (map scored_of ?ss))" using de by (simp add: comp_def scored_of_def)
  then obtain first where judge: "judgeCandidates (ev_render ev) (map scored_of ?ss) ?t = Inr first"
    using judging_answers [OF usable] by blast
  let ?in = "planner_input queryText policy ?ss ?ss first LexicalDegraded ?limit"
  let ?byv = "map (\<lambda>c. (ce_versionId c, c)) (pa_eligible policy)"
  have input: "assertPlannerInput ?in = Inr ?byv"
    by (rule planner_input_ok [OF q de scores_identity _ judge]) (simp add: scores_unit)
  have sels: "mn_eligibleCards ?in = pa_eligible policy" "mn_initialSelection ?in = first" "mn_chunkLimitPerScope ?in = ?limit"
    by (simp_all add: planner_input_def)
  let ?strong = "initial_strong first ?byv"
  have strong: "set ?strong \<subseteq> set (pa_eligible policy)" using initial_strong_facts(2) [OF input] unfolding sels .
  then have "consistent ?limit ?strong" using consistent_subset [OF con] sub by blast
  then obtain setPlan where run: "planMinimumSufficientCardSet ?sha ?lx (ev_words ev) ?in = Inr setPlan"
    using planner_answers [OF inj, of ?lx "ev_words ev" ?in] input unfolding sels by blast
  let ?chosen = "mr_selectedCards setPlan" and ?audit = "mr_audit setPlan"
  obtain st pn where r: "planning_context ?sha ?lx (ev_words ev) ?in = Inr (st, pn)"
    "reduced ?sha pn st (ma_costBefore ?audit) ?chosen (ma_costAfter ?audit)"
    using planner_result [OF inj run] by (elim exE conjE) (rule that)
  have st: "st = ?strong" using context_facts(4) [OF inj r(1)] input unfolding sels by auto
  have red: "\<exists>P. ?chosen = filter P ?strong" "?strong \<noteq> [] \<longrightarrow> ?chosen \<noteq> []" using r(2) unfolding reduced_def st by blast+
  have known: "map_of ?byv (oc_versionId x) \<noteq> None" if "x \<in> set (rs_outcomes first)" for x
    using planner_cards(1) [OF input, unfolded sels, OF that] by auto
  then obtain sel where sel: "applySetPlanningDecision first (js_set (map ce_versionId ?chosen)) = Inr sel"
    using projection_ok [OF input refl, unfolded sels, OF red] by blast
  obtain digest where digest: "auditDigest ?sha (ev_render ev) ?audit = Inr digest"
  proof -
    have "List.find (\<lambda>v. \<not> is_finite (fv_bestLexicalScore v)) (ma_baselineCoverage ?audit @ ma_selectedCoverage ?audit) = None"
      using planner_coverage_finite [OF inj run] by (auto simp: find_None_iff)
    then show thesis using that by (simp add: auditDigest_def)
  qed
  have col: "collectAdmittedCards sel cards = ?chosen" and cost: "measurePlanCost ?sha ?chosen ?limit = Inr (ma_costAfter ?audit)"
    and sub': "set ?chosen \<subseteq> set (pa_eligible policy)" and d': "distinct (map ce_versionId ?chosen)"
  proof -
    obtain card strong where F: "set strong \<subseteq> set (pa_eligible policy)" "distinct (map ce_versionId strong)"
      "?chosen = filter (\<lambda>c. ce_versionId c \<in> ce_versionId ` set ?chosen) strong" "collectAdmittedCards sel cards = ?chosen"
      "measurePlanCost ?sha ?chosen ?limit = Inr (ma_costAfter ?audit)"
      using planned_cards [OF inj D policy run sel] by (elim exE conjE) (rule that)
    show "collectAdmittedCards sel cards = ?chosen" "measurePlanCost ?sha ?chosen ?limit = Inr (ma_costAfter ?audit)" by (fact F)+
    show "set ?chosen \<subseteq> set (pa_eligible policy)" using F(1,3) by (metis filter_is_subset order_trans)
    show "distinct (map ce_versionId ?chosen)" using F(2,3) by (metis distinct_map_filter)
  qed
  have adm: "?strong \<noteq> []" if some: "filter (\<lambda>x. oc_verdict x = Admit) (rs_outcomes first) \<noteq> []"
  proof -
    obtain x where x: "x \<in> set (rs_outcomes first)" "oc_verdict x = Admit" using some by (auto simp: filter_empty_conv)
    then obtain c where "map_of ?byv (oc_versionId x) = Some c" using known by blast
    then have "c \<in> set ?strong" using x unfolding initial_strong_def set_map_filter by auto
    then show ?thesis by auto
  qed
  obtain planned where planned: "planSelectedScopes ?sha ?chosen ?limit = Inr planned" using cost cost_Inr [OF inj] by blast
  let ?plan = "\<lparr>sp_query = queryText, sp_summary = \<lparr>sm_candidates = ?ss, sm_selection = sel, sm_planning = ?audit, sm_auditDigest = digest,
      sm_mode = LexicalDegraded, sm_policyContext = pa_context policy, sm_excluded = pa_excluded policy\<rparr>,
    sp_items = rd_items planned, sp_managedTargets = rd_managedTargets planned\<rparr>"
  have scored: "scoreWithSemantics ev ports options queryText cards policy ?ss = Inr (LexicalDegraded, ?ss)"
    using degraded by (simp add: scoreWithSemantics_def lexical degrade_def Let_def)
  have answer: "draft_plan ev ports queryText options =
      (if 0 < length (planningLimitViolations (length ?chosen) planned)
       then Inl (Resolve (SelectionPlanLimitExceededError (planningLimitViolations (length ?chosen) planned))) else Inr ?plan)"
    unfolding draft_plan_def Let_def using q cat policy scored judge run digest sel planned
    by (simp add: lift_domain_def planner_input_def col)
  have some: "filter (\<lambda>x. oc_verdict x = Admit) (rs_outcomes first) \<noteq> [] \<longrightarrow> ?chosen \<noteq> []" using adm red(2) by blast
  show ?thesis
    by (rule exI [of _ policy], rule exI [of _ first], rule exI [of _ setPlan], rule exI [of _ sel], rule exI [of _ planned], rule exI [of _ ?plan],
      intro conjI, rule policy, rule judge, rule sel, rule some, rule sub', rule d', rule planned, simp, simp, rule answer)
qed

end
