(* ===== verification/Select_Properties.thy ===== *)
theory Select_Properties
  imports Select_Answers
begin

text \<open>
  The properties of a run of Selection, from a query to the plan of reads it authorises: the composition of the
  policy, scoring, the verdicts, the set planner, the merge of scopes and the verification.
\<close>

section \<open>A sample run\<close>

definition sample_environment :: selection_environment where
  "sample_environment = \<lparr>ev_sha256 = (\<lambda>t. t), ev_lexicon = latin_lexicon, ev_words = no_words, ev_render = (\<lambda>_. ''1''), ev_msqrt = (\<lambda>x. x)\<rparr>"

definition sample_options :: select_options where
  "sample_options = \<lparr>sx_thresholds = Some \<lparr>th_admit = Finite (1 / 5), th_reject = Finite (1 / 10)\<rparr>, sx_chunkLimitPerScope = None,
     sx_semantic = None, sx_policy = None\<rparr>"

definition orders_card :: approved_card where
  "orders_card = (plain_card ''a'' ''x'')\<lparr>ce_policy := \<lparr>cp_sensitive = False, cp_allowedUsage = [''retrieval'']\<rparr>,
     ce_scopes := [SqlSourceScope \<lparr>scopeId = ''s'', scopeVersion = ''1''\<rparr> ''c'' ''p'' ''t'' [''k'']]\<rparr>"

definition selection_ports :: select_ports where
  "selection_ports = \<lparr>sl_catalog = Inr [orders_card], sl_semantic = None\<rparr>"

lemma sample_ev [simp]: "ev_sha256 sample_environment = (\<lambda>t. t)" "ev_lexicon sample_environment = latin_lexicon"
  by (simp_all add: sample_environment_def)

lemma sample_inj: "inj (ev_sha256 sample_environment)"
  using inj_on_id2 by simp

lemma sample_catalog: "sl_catalog selection_ports = Inr [orders_card]" "sl_semantic selection_ports = None"
  by (simp_all add: selection_ports_def)

lemma sample_selectable: "selectable_catalog [orders_card]"
  by (simp add: selectable_catalog_def orders_card_def plain_card_def without_nul_def)

lemma usable_finite: "usable \<lparr>th_admit = Finite a, th_reject = Finite r\<rparr> \<longleftrightarrow> r < a"
  by (auto simp: usable_def)

lemma sample_answerable: "answerable sample_environment [orders_card] ''x'' sample_options"
  by (simp add: answerable_def sample_selectable consistent_def guides_def card_guides_def sample_options_def or_default_def
      usable_finite trim_def is_space_char_def readable_def DEFAULT_POLICY_CONTEXT_def assertValidPolicyContext_def)
    (simp add: orders_card_def trim_def is_space_char_def)

lemma sample_admits:
  "case judgeCandidates (ev_render sample_environment) (map scored_of (scoreCardsAgainstQuery latin_lexicon ''x'' [orders_card]))
     (or_default DEFAULT_SELECTION_THRESHOLDS (sx_thresholds sample_options)) of
     Inl _ \<Rightarrow> False | Inr first \<Rightarrow> filter (\<lambda>x. oc_verdict x = Admit) (rs_outcomes first) \<noteq> []"
  by code_simp

lemma sample_planned:
  "case planSelectedScopes (\<lambda>t. t) [orders_card] 8 of
     Inl _ \<Rightarrow> False | Inr planned \<Rightarrow> planningLimitViolations 1 planned = [] \<and> rd_items planned \<noteq> []"
  by code_simp

lemma selectContext_draft:
  assumes "inj (ev_sha256 ev)" and "sl_catalog ports = Inr cards" and "selectable_catalog cards"
  shows "selectContext ev ports queryText options = draft_plan ev ports queryText options"
proof (cases "draft_plan ev ports queryText options")
  case (Inl e)
  then show ?thesis by (simp add: selectContext_def)
next
  case (Inr plan)
  obtain cards' policy first setPlan planned where "sl_catalog ports = Inr cards'" "drafted ev cards' queryText options policy first setPlan planned plan"
    using draft_parts [OF Inr] by blast
  then have "verifySelectionPlan (ev_sha256 ev) (ev_render ev) plan (Some queryText) = Inr ()"
    using draft_verifies [OF assms(1,3)] assms(2) by simp
  then show ?thesis using Inr by (simp add: selectContext_def lift_domain_def)
qed

lemma single_draft:
  assumes ok: "answerable sample_environment [c] ''x'' sample_options" and "exclusionReason c DEFAULT_POLICY_CONTEXT = None"
    and admits: "case judgeCandidates (ev_render sample_environment) (map scored_of (scoreCardsAgainstQuery latin_lexicon ''x'' [c]))
      (or_default DEFAULT_SELECTION_THRESHOLDS (sx_thresholds sample_options)) of
      Inl _ \<Rightarrow> False | Inr first \<Rightarrow> filter (\<lambda>x. oc_verdict x = Admit) (rs_outcomes first) \<noteq> []"
    and reads: "planSelectedScopes (\<lambda>t. t) [c] 8 = Inr reads" "planningLimitViolations 1 reads = []"
  shows "\<exists>plan. draft_plan sample_environment \<lparr>sl_catalog = Inr [c], sl_semantic = None\<rparr> ''x'' sample_options = Inr plan \<and> sp_items plan = rd_items reads"
proof -
  let ?ports = "\<lparr>sl_catalog = Inr [c], sl_semantic = None\<rparr>"
  have limit: "chunk_limit sample_options = 8" by (simp add: sample_options_def or_default_def DEFAULT_CHUNK_LIMIT_PER_SCOPE_def)
  have allowed: "or_default True (sd_allowLexicalDegraded (or_default no_semantic_policy (sx_semantic sample_options)))"
    by (simp add: sample_options_def or_default_def no_semantic_policy_def)
  have ports: "sl_catalog ?ports = Inr [c]" "sl_semantic ?ports = None" by simp_all
  obtain policy first planned and setPlan :: minimum_set_result and plan where r:
    "applyPolicyContext [c] (or_default DEFAULT_POLICY_CONTEXT (sx_policy sample_options)) = Inr policy"
    "judgeCandidates (ev_render sample_environment) (map scored_of (scoreCardsAgainstQuery latin_lexicon ''x'' (pa_eligible policy)))
       (or_default DEFAULT_SELECTION_THRESHOLDS (sx_thresholds sample_options)) = Inr first"
    "filter (\<lambda>x. oc_verdict x = Admit) (rs_outcomes first) \<noteq> [] \<longrightarrow> mr_selectedCards setPlan \<noteq> []"
    "set (mr_selectedCards setPlan) \<subseteq> set (pa_eligible policy)" "distinct (map ce_versionId (mr_selectedCards setPlan))"
    "planSelectedScopes (\<lambda>t. t) (mr_selectedCards setPlan) 8 = Inr planned" "sp_items plan = rd_items planned"
    "draft_plan sample_environment ?ports ''x'' sample_options =
      (if 0 < length (planningLimitViolations (length (mr_selectedCards setPlan)) planned)
       then Inl (Resolve (SelectionPlanLimitExceededError (planningLimitViolations (length (mr_selectedCards setPlan)) planned)))
       else Inr plan)"
    using lexical_run [OF sample_inj ports allowed ok] unfolding limit sample_ev by (elim exE conjE) (rule that)
  have elig: "pa_eligible policy = [c]"
    using r(1) assms(2) by (auto simp: applyPolicyContext_ok sample_options_def or_default_def)
  have "mr_selectedCards setPlan \<noteq> []" using admits r(2,3) unfolding elig by simp
  then have one: "mr_selectedCards setPlan = [c]"
    using r(4,5) unfolding elig by (cases "mr_selectedCards setPlan"; cases "tl (mr_selectedCards setPlan)") auto
  have "planned = reads" using r(6) reads(1) unfolding one by simp
  then show ?thesis using r(7,8) reads(2) unfolding one by simp
qed

lemma sample_draft: "\<exists>plan. draft_plan sample_environment selection_ports ''x'' sample_options = Inr plan \<and> sp_items plan \<noteq> []"
proof -
  obtain reads where "planSelectedScopes (\<lambda>t. t) [orders_card] 8 = Inr reads" "planningLimitViolations 1 reads = []" "rd_items reads \<noteq> []"
    using sample_planned by (auto split: sum.splits)
  moreover have "exclusionReason orders_card DEFAULT_POLICY_CONTEXT = None"
    by (simp add: exclusionReason_def orders_card_def DEFAULT_POLICY_CONTEXT_def)
  ultimately show ?thesis using single_draft [OF sample_answerable _ sample_admits] unfolding selection_ports_def by fastforce
qed

section \<open>A query has an answer, and the answer passes its own check\<close>

text \<open>
  C15: with a hash that does not collide and a catalog as Registry hands it over (one Card per version, no NUL in a
  Card id, at least one scope per Card), Selection never refuses a plan it drew up itself: the
  verification at its end, which recomputes every key, every correspondence, the audit and the
  costs, changes no answer.
\<close>
theorem selection_verifies_its_own_plan:
  assumes "inj (ev_sha256 ev)" and "sl_catalog ports = Inr cards" and "selectable_catalog cards"
  shows "selectContext ev ports queryText options = draft_plan ev ports queryText options"
  by (rule selectContext_draft [OF assms])

theorem selection_verifies_its_own_plan_witness:
  "\<exists>plan. selectContext sample_environment selection_ports ''x'' sample_options = Inr plan \<and> sp_items plan \<noteq> []"
  unfolding selection_verifies_its_own_plan [OF sample_inj sample_catalog(1) sample_selectable] by (rule sample_draft)

text \<open>
  C17: a deployment without embeddings that allows lexical answers answers every query that is not blank, over a catalog as
  Registry hands it over whose policies are readable and whose scopes agree, under a valid policy context and usable
  thresholds (\<open>answerable\<close>): no check of the planner, of the audit, of the merge or of the
  verification stops a run; only a ceiling on the size of the plan can, and then at least one is exceeded.
\<close>
theorem lexical_selection_answers:
  assumes "inj (ev_sha256 ev)" and "sl_catalog ports = Inr cards" and "sl_semantic ports = None"
    and "or_default True (sd_allowLexicalDegraded (or_default no_semantic_policy (sx_semantic options)))"
    and "answerable ev cards queryText options"
  shows "(\<exists>plan. selectContext ev ports queryText options = Inr plan) \<or>
    (\<exists>v vs. selectContext ev ports queryText options = Inl (Resolve (SelectionPlanLimitExceededError (v # vs))) \<and>
       lv_allowed v < lv_actual v)"
proof -
  have cat: "selectable_catalog cards" using assms(5) by (simp add: answerable_def)
  obtain setPlan :: minimum_set_result and planned and plan where r: "draft_plan ev ports queryText options =
      (if 0 < length (planningLimitViolations (length (mr_selectedCards setPlan)) planned)
       then Inl (Resolve (SelectionPlanLimitExceededError (planningLimitViolations (length (mr_selectedCards setPlan)) planned)))
       else Inr plan)"
    using lexical_run [OF assms] by (elim exE conjE) (rule that)
  have over: "lv_allowed v < lv_actual v" if "planningLimitViolations n p = v # vs" for n p v vs
  proof -
    have "v \<in> set (planningLimitViolations n p)" using that by simp
    then show ?thesis by (auto simp: planningLimitViolations_def)
  qed
  show ?thesis
  proof (cases "planningLimitViolations (length (mr_selectedCards setPlan)) planned")
    case Nil
    then show ?thesis unfolding selectContext_draft [OF assms(1,2) cat] r by simp
  next
    case (Cons v vs)
    then show ?thesis unfolding selectContext_draft [OF assms(1,2) cat] r using over [OF Cons] by simp
  qed
qed

theorem lexical_selection_answers_witness:
  "(\<exists>plan. selectContext sample_environment selection_ports ''x'' sample_options = Inr plan) \<or>
    (\<exists>v vs. selectContext sample_environment selection_ports ''x'' sample_options =
       Inl (Resolve (SelectionPlanLimitExceededError (v # vs))) \<and> lv_allowed v < lv_actual v)"
  by (rule lexical_selection_answers [OF sample_inj sample_catalog _ sample_answerable])
    (simp add: sample_options_def or_default_def no_semantic_policy_def)

section \<open>What a plan may read\<close>

lemma drafted_selectors:
  assumes inj: "inj (ev_sha256 ev)" and cat: "selectable_catalog cards"
    and d: "drafted ev cards queryText options policy first setPlan planned plan" and item: "item \<in> set (sp_items plan)"
    and r: "r \<in> set (pl_selectedBy item)"
  shows "\<exists>c \<in> set (pa_eligible policy). r = ref_of_card c \<and> pl_guide item \<in> card_guides (chunk_limit options) c \<and>
    card_key c \<in> set (map outcome_key (filter (\<lambda>x. oc_verdict x = Admit) (rs_outcomes (sm_selection (sp_summary plan)))))"
proof -
  let ?sel = "sm_selection (sp_summary plan)" and ?chosen = "mr_selectedCards setPlan"
  have D: "distinct (map ce_versionId cards)" using cat by (simp add: selectable_catalog_def)
  have run: "applyPolicyContext cards (or_default DEFAULT_POLICY_CONTEXT (sx_policy options)) = Inr policy"
    "planMinimumSufficientCardSet (ev_sha256 ev) (ev_lexicon ev) (ev_words ev)
      (planner_input queryText policy (scoreCardsAgainstQuery (ev_lexicon ev) queryText (pa_eligible policy))
        (sm_candidates (sp_summary plan)) first (sm_mode (sp_summary plan)) (chunk_limit options)) = Inr setPlan"
    "applySetPlanningDecision first (js_set (map ce_versionId ?chosen)) = Inr ?sel"
    and items: "sp_items plan = rd_items planned"
    and merged: "planSelectedScopes (ev_sha256 ev) (collectAdmittedCards ?sel cards) (chunk_limit options) = Inr planned"
    using d unfolding drafted_def by blast+
  obtain strong where F: "set strong \<subseteq> set (pa_eligible policy)" "?chosen = filter (\<lambda>c. ce_versionId c \<in> ce_versionId ` set ?chosen) strong"
    "collectAdmittedCards ?sel cards = ?chosen"
    "map outcome_key (filter (\<lambda>x. oc_verdict x = Admit) (rs_outcomes ?sel)) = map card_key ?chosen"
    using planned_cards [OF inj D run] by (elim exE conjE) (rule that)
  have "plan_of (ev_sha256 ev) (chunk_limit options) ?chosen planned" using planSelectedScopes_ok(2) [OF inj merged] unfolding F(3) .
  then have "set (pl_selectedBy item) = selectors (chunk_limit options) ?chosen (pl_guide item)" using item unfolding items plan_of_def by blast
  then obtain c where c: "c \<in> set ?chosen" "pl_guide item \<in> card_guides (chunk_limit options) c" "r = ref_of_card c"
    using r by (auto simp: selectors_def)
  have "set ?chosen \<subseteq> set strong" using F(2) by (metis filter_is_subset)
  then have "c \<in> set (pa_eligible policy)" using c(1) F(1) by blast
  then show ?thesis unfolding F(4) using c by (intro bexI [of _ c]) simp_all
qed

text \<open>
  C16: every read of a plan is authorised. An item is selected by at least one Card, and each Card that selects it is in
  the catalog, may be used for retrieval, is not sensitive unless the deployment allows sensitive
  sources, was admitted by the verdicts, and declares the very scope the item reads.
\<close>
theorem selected_reads_are_authorised:
  assumes "inj (ev_sha256 ev)" and "sl_catalog ports = Inr cards" and "selectable_catalog cards"
    and "selectContext ev ports queryText options = Inr plan" and "item \<in> set (sp_items plan)"
  shows "pl_selectedBy item \<noteq> [] \<and> (\<forall>r \<in> set (pl_selectedBy item). \<exists>c \<in> set cards.
    cf_cardId r = ce_cardId c \<and> cf_versionId r = ce_versionId c \<and>
    ''retrieval'' \<in> set (cp_allowedUsage (ce_policy c)) \<and>
    (cp_sensitive (ce_policy c) \<longrightarrow> po_sensitiveAccess (or_default DEFAULT_POLICY_CONTEXT (sx_policy options)) = ''allow'') \<and>
    (\<exists>x \<in> set (ce_scopes c). pl_guide item = buildRetrievalGuide x (or_default DEFAULT_CHUNK_LIMIT_PER_SCOPE (sx_chunkLimitPerScope options))) \<and>
    (\<exists>x \<in> set (rs_outcomes (sm_selection (sp_summary plan))). oc_verdict x = Admit \<and> outcome_key x = cardRefKey (ce_cardId c) (ce_versionId c)))"
proof -
  have draft: "draft_plan ev ports queryText options = Inr plan" using assms(4) unfolding selectContext_draft [OF assms(1-3)] .
  obtain policy first setPlan planned where d: "drafted ev cards queryText options policy first setPlan planned plan"
    using draft_parts [OF draft] assms(2) by auto
  then have "verifySelectionPlan (ev_sha256 ev) (ev_render ev) plan (Some queryText) = Inr ()" by (rule draft_verifies [OF assms(1,3)])
  then have some: "pl_selectedBy item \<noteq> []"
    using assms(5) unfolding verifySelectionPlan_ok reads_sound_def item_sound_def list_all_iff by blast
  have policy: "applyPolicyContext cards (or_default DEFAULT_POLICY_CONTEXT (sx_policy options)) = Inr policy"
    using d unfolding drafted_def by blast
  show ?thesis
  proof (intro conjI some ballI)
    fix r assume "r \<in> set (pl_selectedBy item)"
    from drafted_selectors [OF assms(1,3) d assms(5) this] obtain c where c: "c \<in> set (pa_eligible policy)" "r = ref_of_card c"
      "pl_guide item \<in> card_guides (chunk_limit options) c"
      "card_key c \<in> set (map outcome_key (filter (\<lambda>x. oc_verdict x = Admit) (rs_outcomes (sm_selection (sp_summary plan)))))" by blast
    note e = eligible_iff [OF policy, of c, THEN iffD1, OF c(1)]
    have "\<exists>x \<in> set (rs_outcomes (sm_selection (sp_summary plan))). oc_verdict x = Admit \<and> outcome_key x = card_key c"
      using c(4) by (simp add: image_iff) metis
    moreover have "\<exists>x \<in> set (ce_scopes c). pl_guide item = buildRetrievalGuide x (chunk_limit options)"
      using c(3) by (auto simp: card_guides_def)
    ultimately show "\<exists>c \<in> set cards. cf_cardId r = ce_cardId c \<and> cf_versionId r = ce_versionId c \<and>
      ''retrieval'' \<in> set (cp_allowedUsage (ce_policy c)) \<and>
      (cp_sensitive (ce_policy c) \<longrightarrow> po_sensitiveAccess (or_default DEFAULT_POLICY_CONTEXT (sx_policy options)) = ''allow'') \<and>
      (\<exists>x \<in> set (ce_scopes c). pl_guide item = buildRetrievalGuide x (chunk_limit options)) \<and>
      (\<exists>x \<in> set (rs_outcomes (sm_selection (sp_summary plan))). oc_verdict x = Admit \<and> outcome_key x = card_key c)"
      using e c(2) by (intro bexI [of _ c] conjI) (simp_all add: ref_of_card_def)
  qed
qed

theorem selected_reads_are_authorised_witness:
  "\<exists>plan item. selectContext sample_environment selection_ports ''x'' sample_options = Inr plan \<and> item \<in> set (sp_items plan) \<and> pl_selectedBy item \<noteq> []"
proof -
  obtain plan where plan: "selectContext sample_environment selection_ports ''x'' sample_options = Inr plan" "sp_items plan \<noteq> []"
    using sample_draft unfolding selectContext_draft [OF sample_inj sample_catalog(1) sample_selectable] by blast
  then obtain item where item: "item \<in> set (sp_items plan)" by (cases "sp_items plan") auto
  have "pl_selectedBy item \<noteq> []"
    using selected_reads_are_authorised [OF sample_inj sample_catalog(1) sample_selectable plan(1) item] by (rule conjunct1)
  then show ?thesis using plan(1) item by blast
qed

text \<open>
  C18: whatever the ports answer, a plan that leaves Selection is well formed: it echoes the query, the key of every item and target is the digest of what it stands
  for, no scope and no target appears twice, every managed item points at a listed target of its
  scope and bound, the Cards that select items are exactly the admitted ones, the audit digests to
  what is stated and accounts for every decision and cost, and nothing the policy excluded was scored, judged or read.
\<close>
theorem selected_plans_are_well_formed:
  assumes "selectContext ev ports queryText options = Inr plan"
  shows "sp_query plan = queryText \<and> reads_sound (ev_sha256 ev) plan \<and>
    selecting_keys plan = set (admitted_keys (sm_selection (sp_summary plan))) \<and>
    audit_sound (ev_sha256 ev) (ev_render ev) plan \<and> policy_sound plan"
proof -
  have "verifySelectionPlan (ev_sha256 ev) (ev_render ev) plan (Some queryText) = Inr ()"
    using assms by (auto simp: selectContext_def res_bind_eq_Inr lift_domain_Inr)
  then show ?thesis unfolding verifySelectionPlan_ok by simp
qed

theorem selected_plans_are_well_formed_witness:
  "\<exists>plan. selectContext sample_environment selection_ports ''x'' sample_options = Inr plan \<and> reads_sound (ev_sha256 sample_environment) plan"
proof -
  obtain plan where plan: "selectContext sample_environment selection_ports ''x'' sample_options = Inr plan"
    using sample_draft unfolding selectContext_draft [OF sample_inj sample_catalog(1) sample_selectable] by blast
  from selected_plans_are_well_formed [OF this] show ?thesis using plan by blast
qed

section \<open>Degradation\<close>

lemma degrade_Inr: "degrade policy lexical why = Inr (m, cs) \<longleftrightarrow>
    or_default True (sd_allowLexicalDegraded policy) \<and> m = LexicalDegraded \<and> cs = lexical"
  by (auto simp: degrade_def)

lemma rank_semantically_degraded:
  "rank_semantically ev semantic policy queryText catalog application lexical = Inr (LexicalDegraded, cs) \<Longrightarrow>
     or_default True (sd_allowLexicalDegraded policy) \<and> cs = lexical"
  by (auto simp: rank_semantically_def Let_def res_bind_eq_Inr degrade_Inr split: if_splits)

lemma scoreWithSemantics_degraded:
  assumes "scoreWithSemantics ev ports options queryText catalog application lexical = Inr (LexicalDegraded, cs)"
  shows "or_default True (sd_allowLexicalDegraded (or_default no_semantic_policy (sx_semantic options))) \<and> cs = lexical"
  using assms rank_semantically_degraded
  by (auto simp: scoreWithSemantics_def Let_def degrade_Inr split: option.splits sum.splits if_splits)

text \<open>A deployment with a valid profile whose index cannot be built because the provider is down.\<close>

definition broken_semantics :: semantic_ports where
  "broken_semantics = \<lparr>sc_provider = (\<lambda>_ _. Inl (CardEmbeddingFault InvalidResponse False)),
     sc_acquire = (\<lambda>_. Inl (CardEmbeddingFault InvalidResponse False)), sc_profile = DETERMINISTIC_CARD_SELECTION_PROFILE\<rparr>"

definition broken_ports :: select_ports where
  "broken_ports = \<lparr>sl_catalog = Inr [orders_card], sl_semantic = Some broken_semantics\<rparr>"

lemma broken_catalog: "sl_catalog broken_ports = Inr [orders_card]"
  by (simp add: broken_ports_def)

lemma deterministic_profile_valid: "assertValidCardSelectionProfile render DETERMINISTIC_CARD_SELECTION_PROFILE = Inr ()"
  by (simp add: assertValidCardSelectionProfile_def DETERMINISTIC_CARD_SELECTION_PROFILE_def DEFAULT_CARD_ADMISSION_LIMITS_def
      positive_integer_def isSafeInteger_def whole_def trim_Nil_iff is_space_char_def)

lemma broken_scores:
  assumes "pa_eligible policy \<noteq> []"
  shows "scoreWithSemantics sample_environment broken_ports sample_options ''x'' [orders_card] policy lexical =
     scoreWithSemantics sample_environment selection_ports sample_options ''x'' [orders_card] policy lexical"
proof -
  have finite: "is_finite (cn_dimensions DETERMINISTIC_CARD_SELECTION_PROFILE)"
    by (simp add: DETERMINISTIC_CARD_SELECTION_PROFILE_def whole_def is_finite_def)
  have "rank_semantically sample_environment broken_semantics no_semantic_policy ''x'' [orders_card] policy lexical =
      Inl (CardEmbeddingFault InvalidResponse False)"
    by (simp add: rank_semantically_def broken_semantics_def deterministic_profile_valid catalogSnapshotVersion_def finite lift_domain_simps)
  then show ?thesis using assms
    by (simp add: scoreWithSemantics_def broken_ports_def sample_catalog sample_options_def or_default_def Let_def
        degrade_def no_semantic_policy_def)
qed

lemma broken_draft:
  "draft_plan sample_environment broken_ports ''x'' sample_options = draft_plan sample_environment selection_ports ''x'' sample_options"
proof -
  have "pa_eligible policy \<noteq> []" if "applyPolicyContext [orders_card] DEFAULT_POLICY_CONTEXT = Inr policy" for policy
    using that by (auto simp: applyPolicyContext_ok exclusionReason_def orders_card_def DEFAULT_POLICY_CONTEXT_def split: if_splits)
  moreover have "or_default DEFAULT_POLICY_CONTEXT (sx_policy sample_options) = DEFAULT_POLICY_CONTEXT"
    by (simp add: sample_options_def or_default_def)
  ultimately show ?thesis
    by (cases "applyPolicyContext [orders_card] DEFAULT_POLICY_CONTEXT")
      (simp_all add: draft_plan_def sample_catalog broken_catalog broken_scores)
qed

text \<open>
  C19: degradation removes a signal and nothing else: a run that reports the degraded mode was allowed to, and the same run
  without any embedding deployment gives the same plan. An index that lags behind, a provider that
  fails or answers nonsense cannot add or remove a single read.
\<close>
theorem degraded_plan_is_the_lexical_plan:
  assumes "selectContext ev ports queryText options = Inr plan" and "sm_mode (sp_summary plan) = LexicalDegraded"
  shows "or_default True (sd_allowLexicalDegraded (or_default no_semantic_policy (sx_semantic options))) \<and>
    selectContext ev (ports\<lparr>sl_semantic := None\<rparr>) queryText options = Inr plan"
proof -
  have draft: "draft_plan ev ports queryText options = Inr plan"
    and verified: "verifySelectionPlan (ev_sha256 ev) (ev_render ev) plan (Some queryText) = Inr ()"
    using assms(1) by (auto simp: selectContext_def res_bind_eq_Inr lift_domain_Inr)
  obtain cards policy candidates where r: "trim queryText \<noteq> []" "sl_catalog ports = Inr cards"
    "applyPolicyContext cards (or_default DEFAULT_POLICY_CONTEXT (sx_policy options)) = Inr policy"
    "scoreWithSemantics ev ports options queryText cards policy (scoreCardsAgainstQuery (ev_lexicon ev) queryText (pa_eligible policy)) =
       Inr (LexicalDegraded, candidates)"
    using draft assms(2) unfolding draft_plan_def Let_def by (auto simp: res_bind_eq_Inr lift_domain_Inr split: if_splits prod.splits)
  note deg = scoreWithSemantics_degraded [OF r(4)]
  then have "scoreWithSemantics ev (ports\<lparr>sl_semantic := None\<rparr>) options queryText cards policy
      (scoreCardsAgainstQuery (ev_lexicon ev) queryText (pa_eligible policy)) = Inr (LexicalDegraded, candidates)"
    by (simp add: scoreWithSemantics_def Let_def degrade_Inr)
  then have "draft_plan ev (ports\<lparr>sl_semantic := None\<rparr>) queryText options = draft_plan ev ports queryText options"
    unfolding draft_plan_def Let_def by (simp add: r)
  then show ?thesis using deg draft verified by (simp add: selectContext_def)
qed

theorem degraded_plan_is_the_lexical_plan_witness:
  "\<exists>plan. selectContext sample_environment broken_ports ''x'' sample_options = Inr plan \<and>
     selectContext sample_environment (broken_ports\<lparr>sl_semantic := None\<rparr>) ''x'' sample_options = Inr plan \<and> sp_items plan \<noteq> []"
proof -
  obtain plan where lexical: "draft_plan sample_environment selection_ports ''x'' sample_options = Inr plan" "sp_items plan \<noteq> []"
    using sample_draft by blast
  have plan: "selectContext sample_environment broken_ports ''x'' sample_options = Inr plan"
    unfolding selectContext_draft [OF sample_inj broken_catalog sample_selectable] broken_draft by (rule lexical(1))
  have "sm_mode (sp_summary plan) = LexicalDegraded"
    using lexical(1) unfolding draft_plan_def Let_def
    by (auto simp: res_bind_eq_Inr lift_domain_Inr scoreWithSemantics_def sample_catalog degrade_Inr Let_def split: if_splits prod.splits)
  from degraded_plan_is_the_lexical_plan [OF plan this] show ?thesis using plan lexical(2) by blast
qed

end
