(* ===== verification/Delivery_Properties.thy ===== *)
theory Delivery_Properties
  imports Assemble_Laws Select_Properties
begin

text \<open>
  The properties of Delivery: what evidence an answer carries, which reads it trusts, and how it accounts for every read
  and every occurrence of a chunk.
\<close>

section \<open>A sample answer\<close>

definition policy_card :: approved_card where
  "policy_card = (plain_card ''a'' ''x'')\<lparr>ce_policy := \<lparr>cp_sensitive = False, cp_allowedUsage = [''retrieval'']\<rparr>, ce_scopes := [shared_scope]\<rparr>"

definition policy_target :: string where
  "policy_target = managedTargetKey (\<lambda>t. t) \<lparr>scopeId = ''d'', scopeVersion = ''1''\<rparr> 8"

definition policy_outcome :: resolution_outcome where
  "policy_outcome = \<lparr>ro_targetKey = policy_target, ro_status = FulfilledRead
     [\<lparr>rv_rank = Finite 1, rv_chunkId = ''c'', rv_chunkRevisionId = ''r'', rv_semanticUnitId = ''u'', rv_documentId = ''d'',
       rv_text = ''refunds take three days'', rv_contentDigest = ''h''\<rparr>]\<rparr>"

lemma policy_answerable: "answerable sample_environment [policy_card] ''x'' sample_options"
  by (simp add: answerable_def selectable_catalog_def consistent_def guides_def card_guides_def sample_options_def or_default_def
      usable_finite trim_def is_space_char_def readable_def DEFAULT_POLICY_CONTEXT_def assertValidPolicyContext_def)
    (simp add: policy_card_def plain_card_def without_nul_def trim_def is_space_char_def)

lemma policy_admits:
  "case judgeCandidates (ev_render sample_environment) (map scored_of (scoreCardsAgainstQuery latin_lexicon ''x'' [policy_card]))
     (or_default DEFAULT_SELECTION_THRESHOLDS (sx_thresholds sample_options)) of
     Inl _ \<Rightarrow> False | Inr first \<Rightarrow> filter (\<lambda>x. oc_verdict x = Admit) (rs_outcomes first) \<noteq> []"
  by code_simp

lemma policy_planned:
  "case planSelectedScopes (\<lambda>t. t) [policy_card] 8 of
     Inl _ \<Rightarrow> False | Inr planned \<Rightarrow> planningLimitViolations 1 planned = [] \<and> map pl_execution (rd_items planned) = [Managed policy_target]"
  by code_simp

lemma policy_plan:
  "\<exists>plan. verifySelectionPlan (\<lambda>t. t) (\<lambda>_. ''1'') plan None = Inr () \<and> map pl_execution (sp_items plan) = [Managed policy_target]"
proof -
  obtain reads where r: "planSelectedScopes (\<lambda>t. t) [policy_card] 8 = Inr reads" "planningLimitViolations 1 reads = []"
    "map pl_execution (rd_items reads) = [Managed policy_target]"
    using policy_planned by (auto split: sum.splits)
  have "exclusionReason policy_card DEFAULT_POLICY_CONTEXT = None" by (simp add: exclusionReason_def policy_card_def DEFAULT_POLICY_CONTEXT_def)
  from single_draft [OF policy_answerable this policy_admits r(1,2)] obtain plan where
    plan: "draft_plan sample_environment \<lparr>sl_catalog = Inr [policy_card], sl_semantic = None\<rparr> ''x'' sample_options = Inr plan"
    "sp_items plan = rd_items reads" by blast
  obtain cards policy first setPlan planned where
    d: "drafted sample_environment cards ''x'' sample_options policy first setPlan planned plan" "cards = [policy_card]"
    using draft_parts [OF plan(1)] by auto
  have "selectable_catalog cards" using policy_answerable d(2) by (simp add: answerable_def)
  from draft_verifies [OF sample_inj this d(1)] have "verifySelectionPlan (\<lambda>t. t) (\<lambda>_. ''1'') plan (Some ''x'') = Inr ()"
    by (simp add: sample_environment_def)
  then show ?thesis using plan(2) r(3) by (auto simp: verifySelectionPlan_ok)
qed

lemma policy_accounted:
  assumes "map pl_execution (sp_items plan) = [Managed policy_target]"
  shows "accounted plan [policy_outcome]"
  using assms by (auto simp: accounted_def opaque_outcome_def honest_outcome_def policy_outcome_def)

lemma default_usable: "usable_budget (budget_given None)"
  unfolding usable_budget_def budget_given_def DEFAULT_CONTEXT_BUDGET_def
  by (intro exI [of _ 8000] exI [of _ 12]) (simp add: whole_def)

lemma policy_answer:
  assumes "verifySelectionPlan (\<lambda>t. t) (\<lambda>_. ''1'') plan None = Inr ()" and "map pl_execution (sp_items plan) = [Managed policy_target]"
  shows "\<exists>r. assembleContext (\<lambda>t. t) (\<lambda>_. ''1'') plan [policy_outcome] None = Inr r"
  unfolding assembleContext_ok using assms(1) policy_accounted [OF assms(2)] assembly_answers [OF default_usable answer_positions] by blast

section \<open>When there is an answer\<close>

text \<open>
  C23: what refuses a whole answer is the plan, the bookkeeping or the budget, and nothing else: the plan must verify, every failure
  must be an opaque token and a deadline must say so, each outcome must belong to a planned read and be the only one for it, and
  the ceilings must be positive integers. No content of a read, however broken, refuses an answer.
\<close>
theorem assembly_answers_exactly:
  "(\<exists>r. assembleContext sha256 render plan outcomes given = Inr r) \<longleftrightarrow>
     verifySelectionPlan sha256 render plan None = Inr () \<and>
     list_all opaque_outcome outcomes \<and> list_all honest_outcome outcomes \<and> distinct (map ro_targetKey outcomes) \<and>
     ro_targetKey ` set outcomes \<subseteq> {k. \<exists>item \<in> set (sp_items plan). pl_execution item = Managed k} \<and>
     (\<exists>m n. 0 < m \<and> 0 < n \<and> cb_maxTotalCharacters (budget_given given) = whole m \<and> cb_maxChunks (budget_given given) = whole n)"
proof -
  have "(\<exists>a. assembleDocumentContext render (answer_candidates outcomes plan) (budget_given given) = Inr a) \<longleftrightarrow> usable_budget (budget_given given)"
    using assembly_answers [OF _ answer_positions] assembly_ok by blast
  then show ?thesis unfolding assembleContext_ok accounted_def usable_budget_def by auto
qed

section \<open>One broken read costs one item\<close>

lemma verdict_target: "verdict_on outcomes item k = FulfilledVerdict k' chunks \<Longrightarrow> k' = k"
  by (auto simp: verdict_on_def split: option.splits outcome_status.splits if_splits)

lemma filed_under:
  assumes keys: "distinct (map pl_itemKey (sp_items plan))" and item: "item \<in> set (sp_items plan)"
    and x: "x \<in> set (answer_candidates outcomes plan)" "cx_itemKey x = pl_itemKey item"
  shows "\<exists>k chunks. pl_execution item = Managed k \<and> verdict_on outcomes item k = FulfilledVerdict k chunks \<and> x \<in> candidate_of item k ` set chunks"
proof -
  obtain item' where i: "item' \<in> set (sp_items plan)" "x \<in> set (item_candidates outcomes item')"
    using x(1) by (auto simp: answer_candidates_def)
  obtain k where m: "pl_execution item' = Managed k" using i(2) by (cases "pl_execution item'") (auto simp: item_candidates_def)
  obtain k' chunks where v: "verdict_on outcomes item' k = FulfilledVerdict k' chunks"
    using i(2) m by (cases "verdict_on outcomes item' k") (auto simp: item_candidates_def)
  have k: "pl_execution item' = Managed k" "verdict_on outcomes item' k = FulfilledVerdict k chunks" "x \<in> candidate_of item' k ` set chunks"
    using i(2) m v verdict_target [OF v] by (simp_all add: item_candidates_def)
  then have "pl_itemKey item' = pl_itemKey item" using x(2) by (auto simp: candidate_of_def)
  then have "item' = item" using keys i(1) item by (meson distinct_map inj_onD)
  then show ?thesis using k by blast
qed

lemma assembled_occurrence:
  assumes "assembleDocumentContext render xs b = Inr a" and "c \<in> set (ab_chunks a)"
  shows "hk_occurrence c \<in> set xs \<and> cx_targetKey (hk_occurrence c) \<notin> contradicted (set xs)"
proof -
  have "hk_occurrence c \<in># mset (map hk_occurrence (ab_chunks a)) + mset (map od_chunk (ab_omitted a))" using assms(2) by simp
  then have "hk_occurrence c \<in># mset (trusted xs)" using assembly_ok [OF assms(1)] by (simp only:)
  then show ?thesis by (simp add: trusted_def)
qed

text \<open>What an item of the answer says of the read it was planned for.\<close>

definition reported :: "resolution_outcome list \<Rightarrow> selection_plan \<Rightarrow> planned_item \<Rightarrow> resolution_item \<Rightarrow> bool" where
  "reported outcomes plan item i \<longleftrightarrow>
     ri_guide i = pl_guide item \<and> ri_selectedBy i = pl_selectedBy item \<and>
     (case pl_execution item of
        Delegated \<Rightarrow> ri_fulfillment i = DelegatedItem
      | Managed k \<Rightarrow>
          (case verdict_on outcomes item k of
             FailedVerdict f \<Rightarrow> ri_fulfillment i = FailedItem f
           | FulfilledVerdict _ chunks \<Rightarrow>
               if k \<in> contradicted (set (answer_candidates outcomes plan)) then ri_fulfillment i = FailedItem ASSEMBLY_FAILURE
               else (\<exists>x. ri_fulfillment i = FulfilledItem x \<and> rx_contentTrust x = ''untrusted'' \<and>
                 (\<forall>c \<in> set (rx_chunks x). \<exists>d \<in> set chunks. re_chunkRevisionId c = rv_chunkRevisionId d \<and> re_chunkId c = rv_chunkId d \<and>
                    re_documentId c = rv_documentId d \<and> re_text c = rv_text d \<and> re_contentDigest c = rv_contentDigest d))))"

text \<open>
  C20: an answer has one item per planned read, in the order of the plan, and what it reports depends on that read alone, except for a
  contradiction: no outcome, a failed one, or one that breaks its bound, its ranks or its identifiers
  fails this item with its reason; a read that contradicts another read is set aside; every other
  read is fulfilled, its text marked as untrusted, and each of its chunks is one that this very read returned.
\<close>
theorem one_broken_read_costs_one_item:
  assumes "assembleContext sha256 render plan outcomes given = Inr r"
  shows "list_all2 (reported outcomes plan) (sp_items plan) (cr_items r)"
proof -
  obtain a where a: "assembleDocumentContext render (answer_candidates outcomes plan) (budget_given given) = Inr a"
    "r = answer_of plan outcomes (budget_given given) a" and verified: "verifySelectionPlan sha256 render plan None = Inr ()"
    using assms unfolding assembleContext_ok by blast
  have keys: "distinct (map pl_itemKey (sp_items plan))" using verified unfolding verifySelectionPlan_ok reads_sound_def by blast
  have failed: "set (ab_failedTargetKeys a) = contradicted (set (answer_candidates outcomes plan))" using assembly_ok [OF a(1)] by blast
  have "reported outcomes plan item (answer_item outcomes a item)" if item: "item \<in> set (sp_items plan)" for item
  proof (cases "pl_execution item")
    case Delegated
    then show ?thesis by (simp add: reported_def answer_item_def fulfillment_of_def)
  next
    case (Managed k)
    show ?thesis
    proof (cases "verdict_on outcomes item k")
      case (FailedVerdict f)
      then show ?thesis using Managed by (simp add: reported_def answer_item_def fulfillment_of_def fail_conflicted_def)
    next
      case (FulfilledVerdict k' chunks)
      then have k': "k' = k" by (rule verdict_target)
      have chunk: "\<exists>d \<in> set chunks. re_chunkRevisionId c = rv_chunkRevisionId d \<and> re_chunkId c = rv_chunkId d \<and>
          re_documentId c = rv_documentId d \<and> re_text c = rv_text d \<and> re_contentDigest c = rv_contentDigest d"
        if c: "c \<in> set (rx_chunks (evidence_for a (pl_itemKey item)))" for c
      proof -
        obtain e where e: "e \<in> set (rankContext (ab_chunks a))" "fst e = pl_itemKey item" "c = snd e"
          using c by (auto simp: evidence_for_def contextFor_def)
        then obtain i h where h: "h \<in> set (ab_chunks a)" "e = rank_chunk i h"
          by (auto simp: rankContext_def dest: set_zip_rightD)
        then have x: "hk_occurrence h \<in> set (answer_candidates outcomes plan)" "cx_itemKey (hk_occurrence h) = pl_itemKey item"
          using assembled_occurrence [OF a(1)] e(2) by (auto simp: rank_chunk_def Let_def)
        obtain d where "d \<in> set chunks" "hk_occurrence h = candidate_of item k d"
          using filed_under [OF keys item x] Managed FulfilledVerdict k' by auto
        then show ?thesis using e(3) h(2) by (auto simp: rank_chunk_def Let_def candidate_of_def)
      qed
      show ?thesis
        using Managed FulfilledVerdict k' chunk failed
        by (auto simp: reported_def answer_item_def fulfillment_of_def fail_conflicted_def evidence_for_def contextFor_def)
    qed
  qed
  then show ?thesis unfolding a(2) answer_of_def by (simp add: list_all2_conv_all_nth)
qed

theorem one_broken_read_costs_one_item_witness:
  "\<exists>plan r. assembleContext (\<lambda>t. t) (\<lambda>_. ''1'') plan [policy_outcome] None = Inr r \<and>
     list_all2 (reported [policy_outcome] plan) (sp_items plan) (cr_items r) \<and> map pl_execution (sp_items plan) = [Managed policy_target]"
proof -
  obtain plan where plan: "verifySelectionPlan (\<lambda>t. t) (\<lambda>_. ''1'') plan None = Inr ()" "map pl_execution (sp_items plan) = [Managed policy_target]"
    using policy_plan by (elim exE conjE) (rule that)
  obtain r where r: "assembleContext (\<lambda>t. t) (\<lambda>_. ''1'') plan [policy_outcome] None = Inr r" using policy_answer [OF plan] by (rule exE)
  show ?thesis using one_broken_read_costs_one_item [OF r] r plan(2) by (intro exI [of _ plan] exI [of _ r] conjI)
qed

section \<open>Ranks and ceilings of an answer\<close>

lemma items_chunks:
  assumes keys: "distinct (map pl_itemKey (sp_items plan))" and a: "assembleDocumentContext render (answer_candidates outcomes plan) b = Inr a"
  shows "mset (concat (map (item_chunks \<circ> answer_item outcomes a) (sp_items plan))) = mset (map snd (rankContext (ab_chunks a)))"
proof -
  let ?es = "rankContext (ab_chunks a)"
  have entry: "\<exists>h \<in> set (ab_chunks a). fst e = cx_itemKey (hk_occurrence h)" if "e \<in> set ?es" for e
    using that by (auto simp: rankContext_def rank_chunk_def Let_def dest: set_zip_rightD)
  have failed: "set (ab_failedTargetKeys a) = contradicted (set (answer_candidates outcomes plan))" using assembly_ok [OF a] by blast
  have filed: "item_chunks (answer_item outcomes a item) = map snd (filter (\<lambda>e. fst e = pl_itemKey item) ?es)" if item: "item \<in> set (sp_items plan)" for item
  proof (cases "filter (\<lambda>e. fst e = pl_itemKey item) ?es")
    case Nil
    then show ?thesis by (auto simp: item_chunks_def answer_item_def fulfillment_of_def evidence_for_def contextFor_def
        split: fulfillment.split execution.split item_verdict.split)
  next
    case (Cons e es)
    then have "e \<in> set (filter (\<lambda>e. fst e = pl_itemKey item) ?es)" by simp
    then have "e \<in> set ?es" "fst e = pl_itemKey item" by simp_all
    then obtain h where h: "h \<in> set (ab_chunks a)" "cx_itemKey (hk_occurrence h) = pl_itemKey item" using entry by metis
    note o = assembled_occurrence [OF a h(1)]
    obtain k chunks where k: "pl_execution item = Managed k" "verdict_on outcomes item k = FulfilledVerdict k chunks"
      "hk_occurrence h \<in> candidate_of item k ` set chunks"
      using filed_under [OF keys item conjunct1 [OF o] h(2)] by blast
    then have "cx_targetKey (hk_occurrence h) = k" by (auto simp: candidate_of_def)
    then have "k \<notin> set (ab_failedTargetKeys a)" using o failed by simp
    then show ?thesis using k(1,2)
      by (simp add: item_chunks_def answer_item_def fulfillment_of_def fail_conflicted_def evidence_for_def contextFor_def)
  qed
  have "fst ` set ?es \<subseteq> set (map pl_itemKey (sp_items plan))"
  proof
    fix key assume "key \<in> fst ` set ?es"
    then obtain h where h: "h \<in> set (ab_chunks a)" "key = cx_itemKey (hk_occurrence h)" using entry by auto
    then have "hk_occurrence h \<in> set (answer_candidates outcomes plan)" using assembled_occurrence [OF a] by blast
    then show "key \<in> set (map pl_itemKey (sp_items plan))" unfolding h(2)
      by (auto simp: answer_candidates_def item_candidates_def candidate_of_def split: execution.splits item_verdict.splits)
  qed
  from file_by_key [OF keys this] have "mset (map snd (concat (map (\<lambda>k. filter (\<lambda>e. fst e = k) ?es) (map pl_itemKey (sp_items plan))))) = mset (map snd ?es)"
    by (simp only: mset_map)
  moreover have "map (item_chunks \<circ> answer_item outcomes a) (sp_items plan) =
      map (map snd) (map (\<lambda>k. filter (\<lambda>e. fst e = k) ?es) (map pl_itemKey (sp_items plan)))"
    using filed by simp
  ultimately show ?thesis by (simp only: map_concat)
qed

text \<open>
  C24: the ranks of an answer are one ranking across all of its items: every position from 1 to the number of chunks occurs exactly once, and the
  whole answer stays within both ceilings of the budget it was given, to the character.
\<close>
theorem context_ranks_are_gap_free:
  assumes "assembleContext sha256 render plan outcomes given = Inr r"
  shows "\<exists>n m k. mset (map re_contextRank (concat (map item_chunks (cr_items r)))) = mset [Suc 0..<Suc n] \<and>
    cb_maxChunks (budget_given given) = whole m \<and> n \<le> m \<and>
    cb_maxTotalCharacters (budget_given given) = whole k \<and>
    sum_list (map (\<lambda>c. length (re_text c)) (concat (map item_chunks (cr_items r)))) \<le> k"
proof -
  obtain a where a: "assembleDocumentContext render (answer_candidates outcomes plan) (budget_given given) = Inr a"
    "r = answer_of plan outcomes (budget_given given) a" and verified: "verifySelectionPlan sha256 render plan None = Inr ()"
    using assms unfolding assembleContext_ok by blast
  have keys: "distinct (map pl_itemKey (sp_items plan))" using verified unfolding verifySelectionPlan_ok reads_sound_def by blast
  have all: "mset (concat (map item_chunks (cr_items r))) = mset (map snd (rankContext (ab_chunks a)))"
    using items_chunks [OF keys a(1)] unfolding a(2) answer_of_def by simp
  have ranks: "mset (map re_contextRank (concat (map item_chunks (cr_items r)))) = mset [Suc 0..<Suc (length (ab_chunks a))]"
    unfolding mset_map all using rank_numbers [of "ab_chunks a"] by (metis map_map mset_map)
  have texts: "map (\<lambda>c. length (re_text c)) (map snd (rankContext (ab_chunks a))) = map (\<lambda>c. length (cx_text (hk_occurrence c))) (ab_chunks a)"
    by (rule nth_equalityI) (simp_all add: rankContext_def rank_chunk_def Let_def)
  have "mset (map (\<lambda>c. length (re_text c)) (concat (map item_chunks (cr_items r)))) = mset (map (\<lambda>c. length (cx_text (hk_occurrence c))) (ab_chunks a))"
    unfolding texts [symmetric] mset_map all ..
  then have chars: "sum_list (map (\<lambda>c. length (re_text c)) (concat (map item_chunks (cr_items r)))) = characters (ab_chunks a)"
    unfolding characters_def by (metis sum_mset_sum_list)
  obtain m k where b: "cb_maxTotalCharacters (budget_given given) = whole k" "cb_maxChunks (budget_given given) = whole m"
    "fits (budget_given given) (ab_chunks a)"
    using assembly_ok [OF a(1)] unfolding usable_budget_def by blast
  then have "length (ab_chunks a) \<le> m" "characters (ab_chunks a) \<le> k" by (auto simp: fits_def whole_def)
  then show ?thesis using ranks chars b(1,2) by (intro exI [of _ "length (ab_chunks a)"] exI [of _ m] exI [of _ k]) simp
qed

theorem context_ranks_are_gap_free_witness:
  "\<exists>plan r n. assembleContext (\<lambda>t. t) (\<lambda>_. ''1'') plan [policy_outcome] None = Inr r \<and>
     mset (map re_contextRank (concat (map item_chunks (cr_items r)))) = mset [Suc 0..<Suc n]"
proof -
  obtain plan where plan: "verifySelectionPlan (\<lambda>t. t) (\<lambda>_. ''1'') plan None = Inr ()" "map pl_execution (sp_items plan) = [Managed policy_target]"
    using policy_plan by (elim exE conjE) (rule that)
  obtain r where r: "assembleContext (\<lambda>t. t) (\<lambda>_. ''1'') plan [policy_outcome] None = Inr r" using policy_answer [OF plan] by (rule exE)
  obtain n where "mset (map re_contextRank (concat (map item_chunks (cr_items r)))) = mset [Suc 0..<Suc n]"
    using context_ranks_are_gap_free [OF r] by (elim exE conjE) (rule that)
  then show ?thesis using r by (intro exI [of _ plan] exI [of _ r] exI [of _ n] conjI)
qed

section \<open>The evidence\<close>

text \<open>
  C22: the evidence is a prefix of one ranking, as long as the budget allows: the ranking holds one chunk per content of the reads that are
  trusted, by falling score, where the score of a revision is exactly the sum of \<open>1 / (60 + rank)\<close> over its
  occurrences and the chunk is attributed to the read that ranked it best; the next chunk of the ranking would cross a ceiling.
\<close>
theorem evidence_is_a_budgeted_prefix:
  assumes "assembleDocumentContext render xs b = Inr a"
  shows "\<exists>ranking n. ab_chunks a = take n ranking \<and> fits b (ab_chunks a) \<and>
    (n < length ranking \<longrightarrow> \<not> fits b (ab_chunks a @ [ranking ! n])) \<and>
    sorted (map chunk_key ranking) \<and> distinct (map digest_of ranking) \<and>
    digest_of ` set ranking = cx_contentDigest ` set (trusted xs) \<and>
    (\<forall>c \<in> set ranking. hk_occurrence c \<in> set (trusted xs) \<and>
       hk_score c = sum_list (map (\<lambda>x. 1 / (60 + rank_value x)) (occurrences (cx_chunkRevisionId (hk_occurrence c)) (trusted xs))) \<and>
       (\<forall>x \<in> set (occurrences (cx_chunkRevisionId (hk_occurrence c)) (trusted xs)). rank_value (hk_occurrence c) \<le> rank_value x))"
proof -
  let ?ys = "trusted xs" and ?R = "first_contents {} (fused_order (trusted xs))"
  have fused: "hk_occurrence c \<in> set ?ys \<and>
      hk_score c = sum_list (map (\<lambda>x. 1 / (60 + rank_value x)) (occurrences (cx_chunkRevisionId (hk_occurrence c)) ?ys)) \<and>
      (\<forall>x \<in> set (occurrences (cx_chunkRevisionId (hk_occurrence c)) ?ys). rank_value (hk_occurrence c) \<le> rank_value x)"
    if "c \<in> set (fused_order ?ys)" for c
  proof -
    obtain v where v: "v \<in> cx_chunkRevisionId ` set ?ys" "c = fused_chunk ?ys v" using \<open>c \<in> _\<close> by (auto simp: fused_order_def)
    then have r: "cx_chunkRevisionId (hk_occurrence c) = v" using fused_revision by blast
    have ne: "occurrences v ?ys \<noteq> []" using v(1) by (auto simp: filter_empty_conv)
    have le: "rank_value (hk_occurrence c) \<le> rank_value x" if "x \<in> set (occurrences v ?ys)" for x
      using hd_sorted_occurrence(2) [OF ne that] unfolding v(2) fused_chunk_def occurrence_key_def rank_value_def
      by (auto simp: less_eq_prod_def split: js_number.splits)
    show ?thesis unfolding r using hd_sorted_occurrence(1) [OF ne] le
      by (auto simp: v(2) fused_chunk_def reciprocal_def [abs_def])
  qed
  have cover: "digest_of ` set (fused_order ?ys) = cx_contentDigest ` set ?ys"
  proof
    show "digest_of ` set (fused_order ?ys) \<subseteq> cx_contentDigest ` set ?ys" using fused by blast
    show "cx_contentDigest ` set ?ys \<subseteq> digest_of ` set (fused_order ?ys)"
    proof
      fix t assume "t \<in> cx_contentDigest ` set ?ys"
      then obtain x where x: "x \<in> set ?ys" "t = cx_contentDigest x" by blast
      let ?c = "fused_chunk ?ys (cx_chunkRevisionId x)"
      have c: "?c \<in> set (fused_order ?ys)" using x(1) by (auto simp: fused_order_def)
      have "cx_chunkRevisionId (hk_occurrence ?c) = cx_chunkRevisionId x" using fused_revision x(1) by blast
      moreover have "hk_occurrence ?c \<in> set ?ys" using fused [OF c] by blast
      ultimately have "revision_content (hk_occurrence ?c) = revision_content x" using trusted_agree [OF _ x(1)] by blast
      then have "t = digest_of ?c" using x(2) by (simp add: revision_content_def)
      then show "t \<in> digest_of ` set (fused_order ?ys)" using c by blast
    qed
  qed
  obtain n where n: "ab_chunks a = take n ?R" "fits b (ab_chunks a)" "n < length ?R \<longrightarrow> \<not> fits b (ab_chunks a @ [?R ! n])"
    using assembly_ok [OF assms] by blast
  have "sorted (map chunk_key (fused_order ?ys))" by (simp add: fused_order_def)
  then have sorted: "sorted (map chunk_key ?R)" by (rule first_contents_sorted)
  show ?thesis
    using n sorted first_contents_digests [of "{}" "fused_order ?ys"] cover fused first_contents_sub [of "{}" "fused_order ?ys"]
    by (intro exI [of _ ?R] exI [of _ n] conjI) auto
qed

text \<open>
  C21: a read is set aside exactly when it takes part in a contradiction, that is when one of its occurrences shares a chunk revision with one that
  describes it differently, or a digest with one of a different text; what is left agrees with itself, and nothing of it
  is lost: every occurrence is in the evidence or listed as omitted, once.
\<close>
theorem assembly_loses_nothing:
  assumes "assembleDocumentContext render xs b = Inr a"
  shows "set (ab_failedTargetKeys a) = contradicted (set xs) \<and>
    mset (map hk_occurrence (ab_chunks a)) + mset (map od_chunk (ab_omitted a)) =
      mset (filter (\<lambda>x. cx_targetKey x \<notin> set (ab_failedTargetKeys a)) xs) \<and>
    contradicted {x \<in> set xs. cx_targetKey x \<notin> set (ab_failedTargetKeys a)} = {}"
  using assembly_ok [OF assms] survivors_agree [of "set xs"] by (simp add: trusted_def)

definition sample_occurrence :: "string \<Rightarrow> string \<Rightarrow> context_candidate" where
  "sample_occurrence target content = \<lparr>cx_itemKey = target, cx_targetKey = target, cx_scopeRef = \<lparr>scopeId = ''d'', scopeVersion = ''1''\<rparr>,
     cx_rank = Finite 1, cx_chunkId = ''c'', cx_chunkRevisionId = ''r'', cx_semanticUnitId = ''u'', cx_documentId = ''d'',
     cx_contentDigest = content, cx_text = content\<rparr>"

lemma sample_assembly:
  "\<exists>a. assembleDocumentContext (\<lambda>_. ''1'') [sample_occurrence ''a'' ''x'', sample_occurrence ''b'' ''x''] DEFAULT_CONTEXT_BUDGET = Inr a"
proof -
  have "list_all position (trusted [sample_occurrence ''a'' ''x'', sample_occurrence ''b'' ''x''])"
    by (auto simp: list_all_iff trusted_def position_def sample_occurrence_def safe_at_least_def isSafeInteger_def)
  then show ?thesis using assembly_answers [OF default_usable] by (simp add: budget_given_def)
qed

theorem evidence_is_a_budgeted_prefix_witness:
  "\<exists>a ranking n. assembleDocumentContext (\<lambda>_. ''1'') [sample_occurrence ''a'' ''x'', sample_occurrence ''b'' ''x''] DEFAULT_CONTEXT_BUDGET = Inr a \<and>
     ab_chunks a = take n ranking"
proof -
  obtain a where a: "assembleDocumentContext (\<lambda>_. ''1'') [sample_occurrence ''a'' ''x'', sample_occurrence ''b'' ''x''] DEFAULT_CONTEXT_BUDGET = Inr a"
    using sample_assembly by (rule exE)
  from evidence_is_a_budgeted_prefix [OF a] obtain ranking n where "ab_chunks a = take n ranking" by (elim exE conjE) (rule that)
  then show ?thesis using a by blast
qed

theorem assembly_loses_nothing_witness:
  "\<exists>a. assembleDocumentContext (\<lambda>_. ''1'') [sample_occurrence ''a'' ''x'', sample_occurrence ''b'' ''x''] DEFAULT_CONTEXT_BUDGET = Inr a \<and>
     set (ab_failedTargetKeys a) = contradicted {sample_occurrence ''a'' ''x'', sample_occurrence ''b'' ''x''}"
proof -
  obtain a where a: "assembleDocumentContext (\<lambda>_. ''1'') [sample_occurrence ''a'' ''x'', sample_occurrence ''b'' ''x''] DEFAULT_CONTEXT_BUDGET = Inr a"
    using sample_assembly by (rule exE)
  have "set (ab_failedTargetKeys a) = contradicted (set [sample_occurrence ''a'' ''x'', sample_occurrence ''b'' ''x''])"
    using assembly_loses_nothing [OF a] by (rule conjunct1)
  then show ?thesis using a by auto
qed

end
