(* ===== verification/Runtime_Profile.thy ===== *)
theory Runtime_Profile
  imports Js_Numbers Admission_Lane
begin

text \<open>
  The versioned operating limits of the daemon: apps/contextctl-daemon/src/runtime/profile.ts. The numbers of
  a profile are JavaScript numbers until the profile is accepted; a lane then reads its
  capacity from it as naturals.
\<close>

section \<open>The profile\<close>

record capacity_setting =
  cs_concurrency :: js_number
  cs_queueDepth :: js_number

record lane_profile =
  lp_resolve :: capacity_setting
  lp_registryConsume :: capacity_setting
  lp_selectionAssets :: capacity_setting
  lp_ingestion :: capacity_setting
  lp_ingestionEmbedding :: capacity_setting

record deadline_profile =
  dp_totalMs :: js_number
  dp_selectionMs :: js_number
  dp_assemblyReserveMs :: js_number
  dp_managedSearchCeilingMs :: js_number

record runtime_profile =
  rp_version :: string
  rp_lanes :: lane_profile
  rp_deadlines :: deadline_profile

definition INGESTION_EMBEDDING_BATCH_LIMIT :: nat where
  "INGESTION_EMBEDDING_BATCH_LIMIT = 2"

definition DAEMON_RUNTIME_PROFILE_VERSION :: string where
  "DAEMON_RUNTIME_PROFILE_VERSION = ''daemon-runtime-profile-v1''"

definition capacity :: "nat \<Rightarrow> nat \<Rightarrow> capacity_setting" where
  "capacity c d = \<lparr>cs_concurrency = whole c, cs_queueDepth = whole d\<rparr>"

definition DAEMON_RUNTIME_PROFILE_V1 :: runtime_profile where
  "DAEMON_RUNTIME_PROFILE_V1 =
     \<lparr>rp_version = DAEMON_RUNTIME_PROFILE_VERSION,
      rp_lanes = \<lparr>lp_resolve = capacity 8 32, lp_registryConsume = capacity 1 8, lp_selectionAssets = capacity 1 1,
        lp_ingestion = capacity 1 4, lp_ingestionEmbedding = capacity INGESTION_EMBEDDING_BATCH_LIMIT 0\<rparr>,
      rp_deadlines = \<lparr>dp_totalMs = whole 3000, dp_selectionMs = whole 750, dp_assemblyReserveMs = whole 500,
        dp_managedSearchCeilingMs = whole 1750\<rparr>\<rparr>"

datatype profile_problem =
    Version_missing | Concurrency_invalid | Queue_depth_invalid | Deadline_invalid
  | Stages_exceed_total | Search_ceiling_exceeds_budget

datatype profile_error = DaemonRuntimeProfileError profile_problem string

section \<open>Validation\<close>

definition check_lane :: "string \<times> capacity_setting \<Rightarrow> unit \<Rightarrow> profile_error + unit" where
  "check_lane entry _ =
     (let name = fst entry; lane = snd entry in
      if \<not> safe_at_least 1 (cs_concurrency lane)
      then Inl (DaemonRuntimeProfileError Concurrency_invalid (''lanes.'' @ name @ ''.concurrency''))
      else if \<not> safe_at_least 0 (cs_queueDepth lane)
      then Inl (DaemonRuntimeProfileError Queue_depth_invalid (''lanes.'' @ name @ ''.queueDepth''))
      else Inr ())"

definition check_duration :: "string \<times> js_number \<Rightarrow> unit \<Rightarrow> profile_error + unit" where
  "check_duration entry _ =
     (if safe_at_least 1 (snd entry) then Inr ()
      else Inl (DaemonRuntimeProfileError Deadline_invalid (''deadlines.'' @ fst entry)))"

definition lane_entries :: "lane_profile \<Rightarrow> (string \<times> capacity_setting) list" where
  "lane_entries l =
     [(''resolve'', lp_resolve l), (''registryConsume'', lp_registryConsume l),
      (''selectionAssets'', lp_selectionAssets l), (''ingestion'', lp_ingestion l),
      (''ingestionEmbedding'', lp_ingestionEmbedding l)]"

definition duration_entries :: "deadline_profile \<Rightarrow> (string \<times> js_number) list" where
  "duration_entries d =
     [(''totalMs'', dp_totalMs d), (''selectionMs'', dp_selectionMs d),
      (''assemblyReserveMs'', dp_assemblyReserveMs d), (''managedSearchCeilingMs'', dp_managedSearchCeilingMs d)]"

text \<open>The last two checks add and subtract numbers the loop before them has found to be naturals.\<close>

definition assertDaemonRuntimeProfile :: "runtime_profile \<Rightarrow> profile_error + unit" where
  "assertDaemonRuntimeProfile p =
     (if trim (rp_version p) = [] then Inl (DaemonRuntimeProfileError Version_missing ''version'')
      else res_bind (res_fold check_lane (lane_entries (rp_lanes p)) ()) (\<lambda>_.
        res_bind (res_fold check_duration (duration_entries (rp_deadlines p)) ()) (\<lambda>_.
          let d = rp_deadlines p;
              totalMs = nat_of_number (dp_totalMs d);
              selectionMs = nat_of_number (dp_selectionMs d);
              assemblyReserveMs = nat_of_number (dp_assemblyReserveMs d);
              ceiling = nat_of_number (dp_managedSearchCeilingMs d) in
          if totalMs \<le> selectionMs + assemblyReserveMs
          then Inl (DaemonRuntimeProfileError Stages_exceed_total ''deadlines.selectionMs + deadlines.assemblyReserveMs'')
          else if int totalMs - int assemblyReserveMs < int ceiling
          then Inl (DaemonRuntimeProfileError Search_ceiling_exceeds_budget ''deadlines.managedSearchCeilingMs'')
          else Inr ())))"

record profile_overrides =
  po_version :: string
  po_resolve :: "capacity_setting option"
  po_registryConsume :: "capacity_setting option"
  po_selectionAssets :: "capacity_setting option"
  po_ingestion :: "capacity_setting option"
  po_ingestionEmbedding :: "capacity_setting option"
  po_totalMs :: "js_number option"
  po_selectionMs :: "js_number option"
  po_assemblyReserveMs :: "js_number option"
  po_managedSearchCeilingMs :: "js_number option"

definition or_else :: "'a option \<Rightarrow> 'a \<Rightarrow> 'a" where
  "or_else x y = (case x of None \<Rightarrow> y | Some v \<Rightarrow> v)"

definition defineDaemonRuntimeProfile :: "profile_overrides \<Rightarrow> profile_error + runtime_profile" where
  "defineDaemonRuntimeProfile ov =
     (if trim (po_version ov) = [] then Inl (DaemonRuntimeProfileError Version_missing ''version'')
      else
        let l = rp_lanes DAEMON_RUNTIME_PROFILE_V1; d = rp_deadlines DAEMON_RUNTIME_PROFILE_V1;
            profile =
              \<lparr>rp_version = po_version ov,
               rp_lanes = \<lparr>lp_resolve = or_else (po_resolve ov) (lp_resolve l),
                 lp_registryConsume = or_else (po_registryConsume ov) (lp_registryConsume l),
                 lp_selectionAssets = or_else (po_selectionAssets ov) (lp_selectionAssets l),
                 lp_ingestion = or_else (po_ingestion ov) (lp_ingestion l),
                 lp_ingestionEmbedding = or_else (po_ingestionEmbedding ov) (lp_ingestionEmbedding l)\<rparr>,
               rp_deadlines = \<lparr>dp_totalMs = or_else (po_totalMs ov) (dp_totalMs d),
                 dp_selectionMs = or_else (po_selectionMs ov) (dp_selectionMs d),
                 dp_assemblyReserveMs = or_else (po_assemblyReserveMs ov) (dp_assemblyReserveMs d),
                 dp_managedSearchCeilingMs = or_else (po_managedSearchCeilingMs ov) (dp_managedSearchCeilingMs d)\<rparr>\<rparr>
        in res_bind (assertDaemonRuntimeProfile profile) (\<lambda>_. Inr profile))"

definition lane_capacity_of :: "capacity_setting \<Rightarrow> lane_capacity" where
  "lane_capacity_of c = \<lparr>lc_concurrency = nat_of_number (cs_concurrency c), lc_queueDepth = nat_of_number (cs_queueDepth c)\<rparr>"

section \<open>What an accepted profile promises\<close>

lemma check_lane_ok: "check_lane e u = Inr v \<longleftrightarrow> safe_at_least 1 (cs_concurrency (snd e)) \<and> safe_at_least 0 (cs_queueDepth (snd e))"
  by (simp add: check_lane_def Let_def)

lemma check_duration_ok: "check_duration e u = Inr v \<longleftrightarrow> safe_at_least 1 (snd e)"
  by (simp add: check_duration_def)

lemma res_fold_unit:
  assumes "\<And>e u v. f e u = Inr (v :: unit) \<longleftrightarrow> P e"
  shows "res_fold f es u = Inr v \<longleftrightarrow> (\<forall>e \<in> set es. P e)"
  using assms by (induction es arbitrary: u) (auto simp: res_bind_eq_Inr)

lemmas check_lanes_ok = res_fold_unit [of check_lane, OF check_lane_ok]
lemmas check_durations_ok = res_fold_unit [of check_duration, OF check_duration_ok]

lemma accepted_lanes:
  assumes "assertDaemonRuntimeProfile p = Inr u" and "(name, c) \<in> set (lane_entries (rp_lanes p))"
  shows "0 < lc_concurrency (lane_capacity_of c)"
proof -
  have "safe_at_least 1 (cs_concurrency c)"
    using assms by (auto simp: assertDaemonRuntimeProfile_def res_bind_eq_Inr check_lanes_ok split: if_splits)
  then obtain n where "cs_concurrency c = whole n" "1 \<le> int n" by (rule safe_at_leastE) simp
  then show ?thesis by (simp add: lane_capacity_of_def)
qed

lemma accepted_deadlines:
  assumes "assertDaemonRuntimeProfile p = Inr u"
  obtains total selection reserve ceiling where
    "rp_deadlines p = \<lparr>dp_totalMs = whole total, dp_selectionMs = whole selection, dp_assemblyReserveMs = whole reserve,
       dp_managedSearchCeilingMs = whole ceiling\<rparr>"
    "0 < selection" "0 < reserve" "0 < ceiling" "selection + reserve < total" "ceiling + reserve \<le> total"
proof -
  let ?d = "rp_deadlines p"
  have ok: "\<forall>e \<in> set (duration_entries ?d). safe_at_least 1 (snd e)"
    using assms by (auto simp: assertDaemonRuntimeProfile_def res_bind_eq_Inr check_durations_ok split: if_splits)
  then obtain total where t: "dp_totalMs ?d = whole total" by (auto simp: duration_entries_def elim: safe_at_leastE)
  from ok obtain selection where s: "dp_selectionMs ?d = whole selection" "1 \<le> int selection"
    by (auto simp: duration_entries_def elim: safe_at_leastE [of 1 "dp_selectionMs ?d"])
  from ok obtain reserve where r: "dp_assemblyReserveMs ?d = whole reserve" "1 \<le> int reserve"
    by (auto simp: duration_entries_def elim: safe_at_leastE [of 1 "dp_assemblyReserveMs ?d"])
  from ok obtain ceiling where c: "dp_managedSearchCeilingMs ?d = whole ceiling" "1 \<le> int ceiling"
    by (auto simp: duration_entries_def elim: safe_at_leastE [of 1 "dp_managedSearchCeilingMs ?d"])
  have "selection + reserve < total" "ceiling + reserve \<le> total"
    using assms t s r c by (auto simp: assertDaemonRuntimeProfile_def res_bind_eq_Inr Let_def split: if_splits)
  moreover have "?d = \<lparr>dp_totalMs = whole total, dp_selectionMs = whole selection, dp_assemblyReserveMs = whole reserve,
       dp_managedSearchCeilingMs = whole ceiling\<rparr>"
    using t s r c by (cases ?d) simp
  ultimately show thesis using that s r c by simp
qed

lemma profile_v1_accepted: "assertDaemonRuntimeProfile DAEMON_RUNTIME_PROFILE_V1 = Inr ()"
  by (simp add: assertDaemonRuntimeProfile_def DAEMON_RUNTIME_PROFILE_V1_def DAEMON_RUNTIME_PROFILE_VERSION_def
      INGESTION_EMBEDDING_BATCH_LIMIT_def lane_entries_def duration_entries_def check_lane_def check_duration_def
      safe_at_least_def isSafeInteger_def capacity_def whole_def nat_of_number_def trim_def is_space_char_def Let_def)

end
