(* ===== verification/Embedding_Scheduler.thy ===== *)
theory Embedding_Scheduler
  imports Runtime_Profile
begin

text \<open>
  The arbiter of the one shared inference session: apps/contextctl-daemon/src/runtime/embedding-runtime-scheduler.ts.
  As in Admission_Lane a call and an AbortSignal are numbers, and the state holds what the closures of
  the class hold. A step is one turn of the event loop: a call, the end of a call, an abort, one of the two
  timers, the opening or the closing of a Resolve scope, the stop. The reader of the resident set
  size and the clock are the environment's, so a step carries what they said.
\<close>

section \<open>Profile\<close>

record scheduler_profile =
  sp_version :: string
  sp_concurrency :: js_number
  sp_resolveQueueDepth :: js_number
  sp_backgroundQueueDepth :: js_number
  sp_backgroundBatchSize :: js_number
  sp_resolveQuietPeriodMs :: js_number
  sp_backgroundYieldMs :: js_number
  sp_eventLoopSampleMs :: js_number
  sp_eventLoopWarningMs :: js_number
  sp_rssLimitBytes :: js_number

definition EMBEDDING_RUNTIME_SCHEDULER_V1 :: scheduler_profile where
  "EMBEDDING_RUNTIME_SCHEDULER_V1 =
     \<lparr>sp_version = ''embedding-runtime-scheduler-v1'', sp_concurrency = whole 1, sp_resolveQueueDepth = whole 32,
      sp_backgroundQueueDepth = whole 32, sp_backgroundBatchSize = whole 1, sp_resolveQuietPeriodMs = whole 50,
      sp_backgroundYieldMs = whole 1, sp_eventLoopSampleMs = whole 250, sp_eventLoopWarningMs = whole 100,
      sp_rssLimitBytes = whole (1536 * 1024 * 1024)\<rparr>"

datatype scheduler_problem = Scheduler_version_missing | Limit_invalid | Event_loop_threshold_invalid

datatype scheduler_profile_error = EmbeddingRuntimeSchedulerProfileError scheduler_problem string

definition scheduler_limits :: "scheduler_profile \<Rightarrow> (string \<times> js_number) list" where
  "scheduler_limits p =
     [(''concurrency'', sp_concurrency p), (''resolveQueueDepth'', sp_resolveQueueDepth p),
      (''backgroundQueueDepth'', sp_backgroundQueueDepth p), (''backgroundBatchSize'', sp_backgroundBatchSize p),
      (''resolveQuietPeriodMs'', sp_resolveQuietPeriodMs p), (''backgroundYieldMs'', sp_backgroundYieldMs p),
      (''eventLoopSampleMs'', sp_eventLoopSampleMs p), (''eventLoopWarningMs'', sp_eventLoopWarningMs p),
      (''rssLimitBytes'', sp_rssLimitBytes p)]"

definition assertEmbeddingRuntimeSchedulerProfile :: "scheduler_profile \<Rightarrow> scheduler_profile_error + unit" where
  "assertEmbeddingRuntimeSchedulerProfile p =
     (if trim (sp_version p) = [] then Inl (EmbeddingRuntimeSchedulerProfileError Scheduler_version_missing ''version'')
      else case List.find (\<lambda>(field, v). \<not> safe_at_least 1 v) (scheduler_limits p) of
        Some (field, v) \<Rightarrow> Inl (EmbeddingRuntimeSchedulerProfileError Limit_invalid field)
      | None \<Rightarrow>
          if nat_of_number (sp_eventLoopSampleMs p) \<le> nat_of_number (sp_eventLoopWarningMs p)
          then Inl (EmbeddingRuntimeSchedulerProfileError Event_loop_threshold_invalid ''eventLoopWarningMs'')
          else Inr ())"

section \<open>State\<close>

datatype embedding_priority = Priority_resolve | Priority_background

datatype embedding_error =
    EmbeddingRuntimeOverloadedError embedding_priority nat
  | EmbeddingRuntimeClosedError
  | EmbeddingRuntimeCancelledError "string option"

record scheduled_entry =
  se_priority :: embedding_priority
  se_run :: nat
  se_signal :: "nat option"

datatype 'v call_answer = Call_settled 'v | Call_refused embedding_error

record 'v scheduler =
  es_profile :: scheduler_profile
  es_resolveQueue :: "scheduled_entry list"
  es_backgroundQueue :: "scheduled_entry list"
  es_active :: nat
  es_resolveStarts :: nat
  es_backgroundStarts :: nat
  es_resolveReservations :: nat
  es_accepting :: bool
  es_eventLoopLagMs :: rat
  es_rssBytes :: nat
  es_cancelSample :: "rat option"
  es_cancelBackgroundPromotion :: "nat option"
  es_aborted :: "nat \<Rightarrow> string option option"
  es_settled :: "nat list"
  es_waiting :: "(nat \<times> nat) list"
  es_running :: "(nat \<times> embedding_priority) list"
  es_scopes :: "nat list"
  es_submitted :: "nat list"
  es_answers :: "(nat \<times> 'v call_answer) list"

record scheduler_snapshot =
  sn_profileVersion :: string
  sn_accepting :: bool
  sn_active :: nat
  sn_resolveStarts :: nat
  sn_backgroundStarts :: nat
  sn_resolveReservations :: nat
  sn_resolveQueued :: nat
  sn_backgroundQueued :: nat
  sn_eventLoopLagMs :: rat
  sn_eventLoopDelayed :: bool
  sn_rssBytes :: nat
  sn_rssLimitBytes :: nat
  sn_memoryLimited :: bool
  sn_backgroundStartsSuppressed :: bool

definition concurrency :: "'v scheduler \<Rightarrow> nat" where
  "concurrency s = nat_of_number (sp_concurrency (es_profile s))"

definition new_scheduler :: "scheduler_profile \<Rightarrow> nat \<Rightarrow> scheduler_profile_error + 'v scheduler" where
  "new_scheduler profile rss =
     res_bind (assertEmbeddingRuntimeSchedulerProfile profile) (\<lambda>_. Inr
       \<lparr>es_profile = profile, es_resolveQueue = [], es_backgroundQueue = [], es_active = 0, es_resolveStarts = 0,
        es_backgroundStarts = 0, es_resolveReservations = 0, es_accepting = True, es_eventLoopLagMs = 0,
        es_rssBytes = rss, es_cancelSample = None, es_cancelBackgroundPromotion = None, es_aborted = Map.empty,
        es_settled = [], es_waiting = [], es_running = [], es_scopes = [], es_submitted = [], es_answers = []\<rparr>)"

definition scheduler_idle :: "'v scheduler \<Rightarrow> bool" where
  "scheduler_idle s \<longleftrightarrow> es_active s = 0 \<and> es_resolveQueue s = [] \<and> es_backgroundQueue s = []"

definition suppressed :: "'v scheduler \<Rightarrow> bool" where
  "suppressed s \<longleftrightarrow> of_nat (nat_of_number (sp_eventLoopWarningMs (es_profile s))) < es_eventLoopLagMs s"

definition snapshot :: "'v scheduler \<Rightarrow> scheduler_snapshot" where
  "snapshot s =
     \<lparr>sn_profileVersion = sp_version (es_profile s), sn_accepting = es_accepting s, sn_active = es_active s,
      sn_resolveStarts = es_resolveStarts s, sn_backgroundStarts = es_backgroundStarts s,
      sn_resolveReservations = es_resolveReservations s, sn_resolveQueued = length (es_resolveQueue s),
      sn_backgroundQueued = length (es_backgroundQueue s), sn_eventLoopLagMs = es_eventLoopLagMs s,
      sn_eventLoopDelayed = suppressed s, sn_rssBytes = es_rssBytes s,
      sn_rssLimitBytes = nat_of_number (sp_rssLimitBytes (es_profile s)),
      sn_memoryLimited = (nat_of_number (sp_rssLimitBytes (es_profile s)) < es_rssBytes s),
      sn_backgroundStartsSuppressed = suppressed s\<rparr>"

section \<open>Operations\<close>

definition call_answered :: "nat \<Rightarrow> 'v call_answer \<Rightarrow> 'v scheduler \<Rightarrow> 'v scheduler" where
  "call_answered t a s = s\<lparr>es_answers := es_answers s @ [(t, a)]\<rparr>"

definition settle_call :: "nat \<Rightarrow> 'v scheduler \<Rightarrow> 'v scheduler" where
  "settle_call t s = s\<lparr>es_settled := t # es_settled s, es_waiting := filter (\<lambda>(c, u). u \<noteq> t) (es_waiting s)\<rparr>"

fun call_aborted :: "'v scheduler \<Rightarrow> nat option \<Rightarrow> bool" where
  "call_aborted s None = False"
| "call_aborted s (Some c) = (es_aborted s c \<noteq> None)"

fun call_reason :: "'v scheduler \<Rightarrow> nat option \<Rightarrow> string option" where
  "call_reason s None = None"
| "call_reason s (Some c) = (case es_aborted s c of None \<Rightarrow> None | Some r \<Rightarrow> r)"

definition cancelScheduledBackgroundPromotion :: "'v scheduler \<Rightarrow> 'v scheduler" where
  "cancelScheduledBackgroundPromotion s = s\<lparr>es_cancelBackgroundPromotion := None\<rparr>"

definition scheduleBackgroundPromotion :: "js_number \<Rightarrow> 'v scheduler \<Rightarrow> 'v scheduler" where
  "scheduleBackgroundPromotion delayMs s =
     (if \<not> es_accepting s \<or> length (es_backgroundQueue s) = 0 \<or> es_cancelBackgroundPromotion s \<noteq> None then s
      else s\<lparr>es_cancelBackgroundPromotion := Some (nat_of_number delayMs)\<rparr>)"

definition mayStartResolve :: "'v scheduler \<Rightarrow> bool" where
  "mayStartResolve s \<longleftrightarrow> es_active s < concurrency s"

text \<open>What happens before the operation is called.\<close>

definition call_start :: "embedding_priority \<Rightarrow> nat \<Rightarrow> 'v scheduler \<Rightarrow> 'v scheduler" where
  "call_start p t s =
     (let s1 = (if p = Priority_resolve then s\<lparr>es_resolveStarts := es_resolveStarts s + 1\<rparr>
                else s\<lparr>es_backgroundStarts := es_backgroundStarts s + 1\<rparr>) in
      s1\<lparr>es_active := es_active s1 + 1, es_running := es_running s1 @ [(t, p)]\<rparr>)"

text \<open>The entry the drain takes next, out of its queue.\<close>

definition take_entry :: "'v scheduler \<Rightarrow> (scheduled_entry \<times> 'v scheduler) option" where
  "take_entry s =
     (case es_resolveQueue s of
        e # rest \<Rightarrow> Some (e, s\<lparr>es_resolveQueue := rest\<rparr>)
      | [] \<Rightarrow>
          if 0 < es_resolveReservations s \<or> es_cancelBackgroundPromotion s \<noteq> None \<or> suppressed s then None
          else (case es_backgroundQueue s of
              e # rest \<Rightarrow> Some (e, s\<lparr>es_backgroundQueue := rest\<rparr>)
            | [] \<Rightarrow> None))"

lemma take_entry_shorter:
  "take_entry s = Some (e, s1) \<Longrightarrow>
     length (es_resolveQueue s1) + length (es_backgroundQueue s1) < length (es_resolveQueue s) + length (es_backgroundQueue s)"
  by (auto simp: take_entry_def split: list.splits if_splits)

function drain_loop :: "'v scheduler \<Rightarrow> 'v scheduler" where
  "drain_loop s =
     (if \<not> es_active s < concurrency s then s
      else case take_entry s of
        None \<Rightarrow> s
      | Some (e, s1) \<Rightarrow>
          if se_run e \<in> set (es_settled s1) then drain_loop s1
          else if call_aborted s1 (se_signal e)
          then drain_loop (call_answered (se_run e)
                 (Call_refused (EmbeddingRuntimeCancelledError (call_reason s1 (se_signal e)))) (settle_call (se_run e) s1))
          else drain_loop (call_start (se_priority e) (se_run e) (settle_call (se_run e) s1)))"
  by pat_completeness auto
termination
  by (relation "measure (\<lambda>s. length (es_resolveQueue s) + length (es_backgroundQueue s))")
    (auto dest!: take_entry_shorter simp: call_answered_def settle_call_def call_start_def Let_def)

declare drain_loop.simps [simp del]

definition drain :: "'v scheduler \<Rightarrow> 'v scheduler" where
  "drain s = (if \<not> es_accepting s then s else drain_loop s)"

definition remove_call :: "nat \<Rightarrow> 'v scheduler \<Rightarrow> 'v scheduler" where
  "remove_call t s = s\<lparr>es_resolveQueue := filter (\<lambda>e. se_run e \<noteq> t) (es_resolveQueue s),
     es_backgroundQueue := filter (\<lambda>e. se_run e \<noteq> t) (es_backgroundQueue s)\<rparr>"

definition call_onAbort :: "nat option \<Rightarrow> nat \<Rightarrow> 'v scheduler \<Rightarrow> 'v scheduler" where
  "call_onAbort c t s =
     (if t \<in> set (es_settled s) then s
      else call_answered t (Call_refused (EmbeddingRuntimeCancelledError (call_reason s c)))
        (remove_call t (settle_call t s)))"

definition push_call :: "embedding_priority \<Rightarrow> nat \<Rightarrow> nat option \<Rightarrow> 'v scheduler \<Rightarrow> 'v scheduler" where
  "push_call p t c s =
     (let e = \<lparr>se_priority = p, se_run = t, se_signal = c\<rparr> in
      case p of
        Priority_resolve \<Rightarrow> s\<lparr>es_resolveQueue := es_resolveQueue s @ [e]\<rparr>
      | Priority_background \<Rightarrow>
          scheduleBackgroundPromotion (sp_backgroundYieldMs (es_profile s)) (s\<lparr>es_backgroundQueue := es_backgroundQueue s @ [e]\<rparr>))"

definition queue_call :: "embedding_priority \<Rightarrow> nat \<Rightarrow> nat option \<Rightarrow> 'v scheduler \<Rightarrow> 'v scheduler" where
  "queue_call p t c s =
     (let queued = length (if p = Priority_resolve then es_resolveQueue s else es_backgroundQueue s);
          limit = nat_of_number (if p = Priority_resolve then sp_resolveQueueDepth (es_profile s)
            else sp_backgroundQueueDepth (es_profile s)) in
      if limit \<le> queued then call_answered t (Call_refused (EmbeddingRuntimeOverloadedError p queued)) s
      else
        let s1 = (case c of None \<Rightarrow> s | Some a \<Rightarrow> s\<lparr>es_waiting := es_waiting s @ [(a, t)]\<rparr>) in
        if call_aborted s1 c then call_onAbort c t s1 else push_call p t c s1)"

definition run_call :: "embedding_priority \<Rightarrow> nat \<Rightarrow> nat option \<Rightarrow> 'v scheduler \<Rightarrow> 'v scheduler" where
  "run_call p t c s0 =
     (let s = s0\<lparr>es_submitted := es_submitted s0 @ [t]\<rparr> in
      if \<not> es_accepting s then call_answered t (Call_refused EmbeddingRuntimeClosedError) s
      else if call_aborted s c
      then call_answered t (Call_refused (EmbeddingRuntimeCancelledError (call_reason s c))) s
      else if p = Priority_resolve then
        let s1 = cancelScheduledBackgroundPromotion s in
        if mayStartResolve s1 then call_start p t s1 else queue_call p t c s1
      else queue_call p t c s)"

text \<open>The finally block of a call that settled; the resident set is read again.\<close>

definition call_finish :: "nat \<Rightarrow> embedding_priority \<Rightarrow> 'v \<Rightarrow> nat \<Rightarrow> 'v scheduler \<Rightarrow> 'v scheduler" where
  "call_finish t p v rss s =
     (let s1 = s\<lparr>es_active := es_active s - 1, es_running := filter (\<lambda>(u, q). u \<noteq> t) (es_running s), es_rssBytes := rss\<rparr>;
          s2 = (if 0 < length (es_resolveQueue s1) then drain s1
                else if 0 < length (es_backgroundQueue s1)
                then scheduleBackgroundPromotion (if p = Priority_resolve then sp_resolveQuietPeriodMs (es_profile s1)
                       else sp_backgroundYieldMs (es_profile s1)) s1
                else s1) in
      call_answered t (Call_settled v) s2)"

definition open_scope :: "nat \<Rightarrow> 'v scheduler \<Rightarrow> 'v scheduler" where
  "open_scope k s =
     (let s1 = cancelScheduledBackgroundPromotion s in
      s1\<lparr>es_resolveReservations := es_resolveReservations s1 + 1, es_scopes := k # es_scopes s1\<rparr>)"

definition close_scope :: "nat \<Rightarrow> 'v scheduler \<Rightarrow> 'v scheduler" where
  "close_scope k s =
     (let s1 = s\<lparr>es_resolveReservations := es_resolveReservations s - 1, es_scopes := remove1 k (es_scopes s)\<rparr> in
      if es_resolveReservations s1 = 0
      then scheduleBackgroundPromotion (sp_resolveQuietPeriodMs (es_profile s1)) (cancelScheduledBackgroundPromotion s1)
      else s1)"

definition scheduleSample :: "rat \<Rightarrow> 'v scheduler \<Rightarrow> 'v scheduler" where
  "scheduleSample now s = s\<lparr>es_cancelSample := Some (now + of_nat (nat_of_number (sp_eventLoopSampleMs (es_profile s))))\<rparr>"

definition startMonitoring :: "rat \<Rightarrow> 'v scheduler \<Rightarrow> 'v scheduler" where
  "startMonitoring now s = (if \<not> es_accepting s \<or> es_cancelSample s \<noteq> None then s else scheduleSample now s)"

text \<open>\<open>now\<close> is the clock when the lag is read, \<open>later\<close> the clock when the next sample is scheduled, after the drain.\<close>

definition sample :: "rat \<Rightarrow> nat \<Rightarrow> rat \<Rightarrow> rat \<Rightarrow> 'v scheduler \<Rightarrow> 'v scheduler" where
  "sample expectedAt rss now later s =
     (let s1 = s\<lparr>es_cancelSample := None\<rparr> in
      if \<not> es_accepting s1 then s1
      else scheduleSample later (drain (s1\<lparr>es_eventLoopLagMs := max 0 (now - expectedAt), es_rssBytes := rss\<rparr>)))"

definition promote :: "'v scheduler \<Rightarrow> 'v scheduler" where
  "promote s = drain (s\<lparr>es_cancelBackgroundPromotion := None\<rparr>)"

definition reject_call_closed :: "scheduled_entry \<Rightarrow> 'v scheduler \<Rightarrow> 'v scheduler" where
  "reject_call_closed e s =
     (if se_run e \<in> set (es_settled s) then s
      else call_answered (se_run e) (Call_refused EmbeddingRuntimeClosedError) (settle_call (se_run e) s))"

definition stop_scheduler :: "'v scheduler \<Rightarrow> 'v scheduler" where
  "stop_scheduler s =
     (if \<not> es_accepting s then s
      else fold reject_call_closed (es_resolveQueue s @ es_backgroundQueue s)
        (s\<lparr>es_accepting := False, es_cancelSample := None, es_cancelBackgroundPromotion := None,
           es_resolveQueue := [], es_backgroundQueue := []\<rparr>))"

definition abort_call_signal :: "nat \<Rightarrow> string option \<Rightarrow> 'v scheduler \<Rightarrow> 'v scheduler" where
  "abort_call_signal c r s =
     fold (call_onAbort (Some c)) (map snd (filter (\<lambda>(a, u). a = c) (es_waiting s)))
       (s\<lparr>es_aborted := (es_aborted s)(c \<mapsto> r)\<rparr>)"

section \<open>Steps\<close>

inductive scheduler_step :: "'v scheduler \<Rightarrow> 'v scheduler \<Rightarrow> bool" where
  run: "t \<notin> set (es_submitted s) \<Longrightarrow> scheduler_step s (run_call p t c s)"
| finish: "(t, p) \<in> set (es_running s) \<Longrightarrow> scheduler_step s (call_finish t p v rss s)"
| abort: "es_aborted s c = None \<Longrightarrow> scheduler_step s (abort_call_signal c r s)"
| open_scope: "k \<notin> set (es_scopes s) \<Longrightarrow> scheduler_step s (open_scope k s)"
| close_scope: "k \<in> set (es_scopes s) \<Longrightarrow> scheduler_step s (close_scope k s)"
| monitor: "scheduler_step s (startMonitoring now s)"
| sample: "es_cancelSample s = Some expectedAt \<Longrightarrow> scheduler_step s (sample expectedAt rss now later s)"
| promote: "es_cancelBackgroundPromotion s = Some d \<Longrightarrow> scheduler_step s (promote s)"
| stop: "scheduler_step s (stop_scheduler s)"

section \<open>Batches\<close>

text \<open>The calls a request is cut into; the loop over the offsets, one call after the other.\<close>

function run_batches_from :: "nat \<Rightarrow> ('i list \<Rightarrow> 'e + 'o list) \<Rightarrow> 'i list \<Rightarrow> 'e + 'o list" where
  "run_batches_from n run inputs =
     (if inputs = [] \<or> n = 0 then Inr []
      else res_bind (run (take n inputs)) (\<lambda>out.
        res_bind (run_batches_from n run (drop n inputs)) (\<lambda>rest. Inr (out @ rest))))"
  by pat_completeness auto
termination
  by (relation "measure (\<lambda>(n, run, inputs). length inputs)") auto

declare run_batches_from.simps [simp del]

definition runBatches :: "'i list \<Rightarrow> nat \<Rightarrow> ('i list \<Rightarrow> 'e + 'o list) \<Rightarrow> 'e + 'o list" where
  "runBatches inputs requestedSize run =
     (if length inputs = 0 then Inr [] else run_batches_from (max 1 requestedSize) run inputs)"

datatype embedding_fault = Rate_limited | Provider_unavailable | Caller_reason_of "string option" | Inner_cause string

datatype call_cause = Scheduler_cause embedding_error | Provider_cause string

definition embed_fault :: "call_cause \<Rightarrow> embedding_fault" where
  "embed_fault cause = (case cause of
     Scheduler_cause (EmbeddingRuntimeOverloadedError p n) \<Rightarrow> Rate_limited
   | Scheduler_cause EmbeddingRuntimeClosedError \<Rightarrow> Provider_unavailable
   | Scheduler_cause (EmbeddingRuntimeCancelledError r) \<Rightarrow> Caller_reason_of r
   | Provider_cause c \<Rightarrow> Inner_cause c)"

definition scheduled_embed ::
    "scheduler_profile \<Rightarrow> embedding_priority \<Rightarrow> ('i list \<Rightarrow> call_cause + 'o list) \<Rightarrow> 'i list \<Rightarrow> embedding_fault + 'o list" where
  "scheduled_embed profile p run inputs =
     (case runBatches inputs (if p = Priority_background then nat_of_number (sp_backgroundBatchSize profile)
        else length inputs) run of
        Inl cause \<Rightarrow> Inl (embed_fault cause)
      | Inr outputs \<Rightarrow> Inr outputs)"

end
