(* ===== verification/Scope_Reachability.thy ===== *)
theory Scope_Reachability
  imports Registry_Store
begin

text \<open>
  \<open>domain/processing-lag.ts\<close>, \<open>domain/scope-reachability.ts\<close>,
  \<open>application/build-reachability-report.ts\<close> and
  \<open>infrastructure/sqlite/sqlite-scope-reachability-store.ts\<close>: can a query reach each
  published scope version, and how far behind is consumption. \<open>Date.parse\<close> is a parameter
  \<open>parse_date\<close> (\<open>None\<close> for \<open>NaN\<close>).
\<close>

section \<open>Processing lag\<close>

record source_lag =
  sl_sourceId :: string
  sl_processedPublicationId :: "string option"
  sl_latestReadyPublicationId :: "string option"
  sl_behind :: bool
  sl_freshnessLagMs :: "int option"

record consumption_sighting =
  sg_sourceId :: string
  sg_processed :: "(string \<times> string option) option"
  sg_latestReady :: "(string \<times> string) option"

definition elapsedMs :: "(string \<Rightarrow> int option) \<Rightarrow> string \<Rightarrow> string \<Rightarrow> int option" where
  "elapsedMs parse_date from_time to_time =
     (case (parse_date from_time, parse_date to_time) of
        (Some start, Some finish) \<Rightarrow> (if finish < start then None else Some (finish - start))
      | _ \<Rightarrow> None)"

definition judgeSourceProcessingLag :: "(string \<Rightarrow> int option) \<Rightarrow> consumption_sighting \<Rightarrow> source_lag" where
  "judgeSourceProcessingLag parse_date sighting =
     (case sg_latestReady sighting of
        None \<Rightarrow>
          \<lparr>sl_sourceId = sg_sourceId sighting,
           sl_processedPublicationId = map_option fst (sg_processed sighting),
           sl_latestReadyPublicationId = None, sl_behind = False, sl_freshnessLagMs = None\<rparr>
      | Some (latestId, latestAt) \<Rightarrow>
          \<lparr>sl_sourceId = sg_sourceId sighting,
           sl_processedPublicationId = map_option fst (sg_processed sighting),
           sl_latestReadyPublicationId = Some latestId,
           sl_behind = (map_option fst (sg_processed sighting) \<noteq> Some latestId),
           sl_freshnessLagMs =
             (case Option.bind (sg_processed sighting) snd of
                None \<Rightarrow> None | Some producedAt \<Rightarrow> elapsedMs parse_date producedAt latestAt)\<rparr>)"

record source_checkpoint =
  sc_sourceId :: string
  sc_processedPublicationId :: "string option"
  sc_latestReadyPublicationId :: "string option"

record freshness_lag =
  fl_sourceId :: string
  fl_behind :: bool
  fl_freshnessLagMs :: "int option"

definition toSourceCheckpoint :: "source_lag \<Rightarrow> source_checkpoint" where
  "toSourceCheckpoint lag =
     \<lparr>sc_sourceId = sl_sourceId lag, sc_processedPublicationId = sl_processedPublicationId lag,
      sc_latestReadyPublicationId = sl_latestReadyPublicationId lag\<rparr>"

definition toSourceFreshnessLag :: "source_lag \<Rightarrow> freshness_lag" where
  "toSourceFreshnessLag lag =
     \<lparr>fl_sourceId = sl_sourceId lag, fl_behind = sl_behind lag, fl_freshnessLagMs = sl_freshnessLagMs lag\<rparr>"

section \<open>Observations of scope versions\<close>

datatype reachability_state =
    PendingRegistry | Broken | Reachable | PendingApproval | IntentionallyUnexposed | Orphaned

record scope_carrier =
  sk_cardId :: string
  sk_versionId :: string
  sk_scope :: retrieval_scope
  sk_validationState :: validation_state
  sk_isCurrent :: bool
  sk_createdAt :: string

datatype decision_kind = PromotedKind | RefusedKind | WithdrawnKind

record scope_decision =
  sd_kind :: decision_kind
  sd_eventId :: string
  sd_cardId :: string
  sd_versionId :: "string option"
  sd_occurredAt :: string
  sd_note :: "string option"

record scope_observation =
  so_reference :: scope_ref
  so_introducedByPublicationId :: string
  so_lastSeenPublicationId :: string
  so_processed :: bool
  so_readySince :: "string option"
  so_sourceId :: string
  so_carriers :: "scope_carrier list"
  so_decisions :: "scope_decision list"

record scope_sighting =
  ss_carrier :: scope_carrier
  ss_publicationId :: string
  ss_sourceId :: string

fun toDecision :: "lifecycle_event \<Rightarrow> scope_decision option" where
  "toDecision e = (case le_body e of
     CardVersionPromoted versionId _ _ note \<Rightarrow> Some
       \<lparr>sd_kind = PromotedKind, sd_eventId = le_id e, sd_cardId = le_cardId e,
        sd_versionId = Some versionId, sd_occurredAt = le_occurredAt e, sd_note = note\<rparr>
   | CardVersionRefused versionId _ note \<Rightarrow> Some
       \<lparr>sd_kind = RefusedKind, sd_eventId = le_id e, sd_cardId = le_cardId e,
        sd_versionId = Some versionId, sd_occurredAt = le_occurredAt e, sd_note = note\<rparr>
   | CardWithdrawn withdrawnVersionId _ note \<Rightarrow> Some
       \<lparr>sd_kind = WithdrawnKind, sd_eventId = le_id e, sd_cardId = le_cardId e,
        sd_versionId = withdrawnVersionId, sd_occurredAt = le_occurredAt e, sd_note = note\<rparr>
   | _ \<Rightarrow> None)"

definition toScopeDecisions :: "lifecycle_event list \<Rightarrow> scope_decision list" where
  "toScopeDecisions events = List.map_filter toDecision events"

definition decisions_of_card :: "scope_decision list \<Rightarrow> string \<Rightarrow> scope_decision list" where
  "decisions_of_card decisions cardId = filter (\<lambda>d. sd_cardId d = cardId) decisions"

text \<open>
  One observation per scope version. The code compares decisions by object identity; audit
  entries have distinct ids, so equality of the values is the same test.
\<close>

definition carrier_reference :: "scope_carrier \<Rightarrow> scope_ref" where
  "carrier_reference c = rs_reference (sk_scope c)"

definition observe_sighting ::
    "scope_decision list \<Rightarrow> scope_sighting \<Rightarrow> (string \<times> scope_observation) list \<Rightarrow> (string \<times> scope_observation) list" where
  "observe_sighting decisions sighting observations =
     (let c = ss_carrier sighting; reference = carrier_reference c; key = scope_key reference in
      case map_of observations key of
        None \<Rightarrow> AList.update key
          \<lparr>so_reference = reference, so_introducedByPublicationId = ss_publicationId sighting,
           so_lastSeenPublicationId = ss_publicationId sighting, so_processed = True,
           so_readySince = None, so_sourceId = ss_sourceId sighting, so_carriers = [c],
           so_decisions = decisions_of_card decisions (sk_cardId c)\<rparr> observations
      | Some existing \<Rightarrow> AList.update key
          (existing\<lparr>so_lastSeenPublicationId := ss_publicationId sighting,
            so_carriers := so_carriers existing @ [c],
            so_decisions := so_decisions existing @
              filter (\<lambda>d. d \<notin> set (so_decisions existing)) (decisions_of_card decisions (sk_cardId c))\<rparr>) observations)"

definition collectScopeObservations :: "scope_sighting list \<Rightarrow> scope_decision list \<Rightarrow> scope_observation list" where
  "collectScopeObservations sightings decisions =
     map snd (fold (observe_sighting decisions) sightings [])"

section \<open>The verdict on one scope version\<close>

record scope_reachability =
  sr_reference :: scope_ref
  sr_sourceId :: string
  sr_introducedByPublicationId :: string
  sr_lastSeenPublicationId :: string
  sr_state :: reachability_state
  sr_stateSince :: "string option"
  sr_cardVersionIds :: "string list"
  sr_lifecycleEventId :: "string option"
  sr_reason :: "string option"

definition verdict ::
    "scope_observation \<Rightarrow> reachability_state \<Rightarrow> string option \<Rightarrow> scope_carrier list \<Rightarrow> string option \<Rightarrow>
     string option \<Rightarrow> scope_reachability" where
  "verdict observation state stateSince deciding why lifecycleEventId =
     \<lparr>sr_reference = so_reference observation, sr_sourceId = so_sourceId observation,
      sr_introducedByPublicationId = so_introducedByPublicationId observation,
      sr_lastSeenPublicationId = so_lastSeenPublicationId observation,
      sr_state = state, sr_stateSince = stateSince, sr_cardVersionIds = map sk_versionId deciding,
      sr_lifecycleEventId = lifecycleEventId, sr_reason = why\<rparr>"

definition parameter_shape :: "http_parameter_ref \<Rightarrow> string" where
  "parameter_shape p = join '':'' [param_location_text (hp_location p), hp_name p,
     (if hp_required p then ''true'' else ''false'')]"

fun scopeShape :: "retrieval_scope \<Rightarrow> string" where
  "scopeShape (ManagedDocumentScope _ index selection) =
     join ''|'' [''managed_document'', di_documentIndexId index, di_sourceId index, di_documentId index,
       di_indexVersion index,
       (case selection of WholeDocument \<Rightarrow> ''document'' | SemanticUnits ids \<Rightarrow> join '','' (sort ids))]"
| "scopeShape (SqlSourceScope _ connector schema table columns) =
     join ''|'' [''sql_source'', connector, schema, table, join '','' (sort columns)]"
| "scopeShape (HttpSourceScope _ connector meth path operationId parameters) =
     join ''|'' [''http_source'', connector, meth, path,
       (case operationId of None \<Rightarrow> [] | Some i \<Rightarrow> i),
       join '','' (sort (map parameter_shape parameters))]"

definition findScopeDisagreement :: "scope_carrier list \<Rightarrow> scope_carrier option" where
  "findScopeDisagreement carriers =
     (case carriers of
        [] \<Rightarrow> None
      | c # rest \<Rightarrow> List.find (\<lambda>d. scopeShape (sk_scope d) \<noteq> scopeShape (sk_scope c)) rest)"

text \<open>The reduction to the latest decision; on equal times the earlier element stays.\<close>

definition later :: "scope_decision option \<Rightarrow> scope_decision \<Rightarrow> scope_decision option" where
  "later latest decision =
     (case latest of
        None \<Rightarrow> Some decision
      | Some l \<Rightarrow> if sd_occurredAt l < sd_occurredAt decision then Some decision else Some l)"

definition latestOf :: "scope_decision list \<Rightarrow> scope_decision option" where
  "latestOf decisions = foldl later None decisions"

definition latestDecision :: "scope_decision list \<Rightarrow> decision_kind \<Rightarrow> scope_carrier list \<Rightarrow> scope_decision option" where
  "latestDecision decisions kind carriers =
     (let cardIds = js_set (map sk_cardId carriers) in
      latestOf (filter (\<lambda>d. sd_kind d = kind \<and> sd_cardId d \<in> set cardIds) decisions))"

definition earliestCreatedAt :: "scope_carrier list \<Rightarrow> string option" where
  "earliestCreatedAt carriers =
     (case sort (map sk_createdAt carriers) of [] \<Rightarrow> None | t # _ \<Rightarrow> Some t)"

definition trimmed_note :: "scope_decision \<Rightarrow> string" where
  "trimmed_note d = (case sd_note d of None \<Rightarrow> [] | Some n \<Rightarrow> trim n)"

definition explainedDecision :: "scope_decision list \<Rightarrow> scope_decision option" where
  "explainedDecision decisions =
     latestOf (filter (\<lambda>d. sd_kind d \<noteq> PromotedKind \<and> trimmed_note d \<noteq> []) decisions)"

definition latestUnexplainedDecision :: "scope_decision list \<Rightarrow> scope_decision option" where
  "latestUnexplainedDecision decisions = latestOf (filter (\<lambda>d. sd_kind d \<noteq> PromotedKind) decisions)"

definition decidedAgainst :: "scope_decision list \<Rightarrow> string option list" where
  "decidedAgainst decisions = js_set (map sd_versionId (filter (\<lambda>d. sd_kind d \<noteq> PromotedKind) decisions))"

definition awaitingCarriers :: "scope_observation \<Rightarrow> scope_carrier list" where
  "awaitingCarriers observation =
     filter (\<lambda>c. sk_validationState c \<noteq> Rejected \<and>
         Some (sk_versionId c) \<notin> set (decidedAgainst (so_decisions observation)))
       (so_carriers observation)"

definition ref_text :: "scope_ref \<Rightarrow> string" where
  "ref_text r = scopeId r @ ''@'' @ scopeVersion r"

definition judgeScopeReachability :: "scope_observation \<Rightarrow> registry_error + scope_reachability" where
  "judgeScopeReachability observation =
     (let reference = so_reference observation; carriers = so_carriers observation;
          decisions = so_decisions observation
      in case List.find (\<lambda>c. scopeId (carrier_reference c) \<noteq> scopeId reference \<or>
                  scopeVersion (carrier_reference c) \<noteq> scopeVersion reference) carriers of
        Some c \<Rightarrow> Inl (ScopeReachabilityInvariantError
          (''card version '' @ sk_versionId c @ '' carries scope '' @ ref_text (carrier_reference c) @
           '', not '' @ ref_text reference))
      | None \<Rightarrow>
        if \<not> so_processed observation
        then Inr (verdict observation PendingRegistry (so_readySince observation) [] None None)
        else
          (let serving = filter sk_isCurrent carriers in
           if serving \<noteq> [] then
             (case findScopeDisagreement carriers of
                Some _ \<Rightarrow> Inr (verdict observation Broken None serving None None)
              | None \<Rightarrow>
                  (let promotion = latestDecision decisions PromotedKind serving in
                   Inr (verdict observation Reachable
                     (case promotion of Some d \<Rightarrow> Some (sd_occurredAt d) | None \<Rightarrow> earliestCreatedAt serving)
                     serving None (map_option sd_eventId promotion))))
           else
             (let awaiting = awaitingCarriers observation in
              if awaiting \<noteq> []
              then Inr (verdict observation PendingApproval (earliestCreatedAt awaiting) awaiting None None)
              else (case explainedDecision decisions of
                  Some d \<Rightarrow> Inr (verdict observation IntentionallyUnexposed (Some (sd_occurredAt d)) carriers
                     (Some (trimmed_note d)) (Some (sd_eventId d)))
                | None \<Rightarrow>
                    (let unexplained = latestUnexplainedDecision decisions in
                     Inr (verdict observation Orphaned (map_option sd_occurredAt unexplained) carriers None
                       (map_option sd_eventId unexplained)))))))"

section \<open>The report\<close>

record reachability_report =
  rr_generatedAt :: string
  rr_sourceCheckpoints :: "source_checkpoint list"
  rr_sourceFreshnessLags :: "freshness_lag list"
  rr_counts :: "reachability_state \<Rightarrow> nat"
  rr_currentReachabilityCoverage :: rat
  rr_oldestStateAgeMs :: "int option"
  rr_scopes :: "scope_reachability list"

definition count_state :: "scope_reachability list \<Rightarrow> reachability_state \<Rightarrow> nat" where
  "count_state verdicts state = length (filter (\<lambda>v. sr_state v = state) verdicts)"

definition age_step ::
    "(string \<Rightarrow> int option) \<Rightarrow> int \<Rightarrow> int option \<Rightarrow> scope_reachability \<Rightarrow> int option" where
  "age_step parse_date now_ms oldest v =
     (case Option.bind (sr_stateSince v) parse_date of
        None \<Rightarrow> oldest
      | Some since \<Rightarrow>
          (if now_ms < since then oldest
           else (let age = now_ms - since in
             case oldest of None \<Rightarrow> Some age | Some o' \<Rightarrow> (if o' < age then Some age else oldest))))"

definition oldestStateAge :: "(string \<Rightarrow> int option) \<Rightarrow> string \<Rightarrow> scope_reachability list \<Rightarrow> int option" where
  "oldestStateAge parse_date generatedAt verdicts =
     (case parse_date generatedAt of
        None \<Rightarrow> None
      | Some now_ms \<Rightarrow> foldl (age_step parse_date now_ms) None verdicts)"

definition exposable :: "scope_reachability list \<Rightarrow> int" where
  "exposable verdicts =
     int (length verdicts) - int (count_state verdicts PendingRegistry) - int (count_state verdicts IntentionallyUnexposed)"

definition summarizeScopeReachability ::
    "(string \<Rightarrow> int option) \<Rightarrow> string \<Rightarrow> scope_reachability list \<Rightarrow> source_lag list \<Rightarrow> reachability_report" where
  "summarizeScopeReachability parse_date generatedAt verdicts sourceLags =
     (let sorted_lags = sort_key sl_sourceId sourceLags in
      \<lparr>rr_generatedAt = generatedAt,
       rr_sourceCheckpoints = map toSourceCheckpoint sorted_lags,
       rr_sourceFreshnessLags = map toSourceFreshnessLag sorted_lags,
       rr_counts = count_state verdicts,
       rr_currentReachabilityCoverage =
         (if exposable verdicts = 0 then 1
          else of_nat (count_state verdicts Reachable) / of_int (exposable verdicts)),
       rr_oldestStateAgeMs = oldestStateAge parse_date generatedAt verdicts,
       rr_scopes = verdicts\<rparr>)"

record gate_violation =
  gv_rule :: string
  gv_message :: string

definition reachabilityGateViolations :: "reachability_report \<Rightarrow> gate_violation list" where
  "reachabilityGateViolations report =
     (if 0 < rr_counts report Broken
      then [\<lparr>gv_rule = ''reachability.broken'', gv_message = show_nat (rr_counts report Broken) @
              '' scope version(s) are referenced by an approved Card that no longer resolves''\<rparr>] else []) @
     (if 0 < rr_counts report Orphaned
      then [\<lparr>gv_rule = ''reachability.orphaned_without_reason'', gv_message = show_nat (rr_counts report Orphaned) @
              '' scope version(s) are unreachable with no recorded reason''\<rparr>] else [])"

definition STALE_PENDING_REGISTRY_MS :: int where
  "STALE_PENDING_REGISTRY_MS = 5 * 60 * 1000"

definition stalePendingRegistryScopes ::
    "(string \<Rightarrow> int option) \<Rightarrow> reachability_report \<Rightarrow> int \<Rightarrow> scope_reachability list" where
  "stalePendingRegistryScopes parse_date report thresholdMs =
     filter (\<lambda>scope. sr_state scope = PendingRegistry \<and>
       (case sr_stateSince scope of
          None \<Rightarrow> False
        | Some since \<Rightarrow>
            (case elapsedMs parse_date since (rr_generatedAt report) of
               None \<Rightarrow> False | Some waited \<Rightarrow> thresholdMs < waited))) (rr_scopes report)"

section \<open>Reading the registry\<close>

text \<open>
  \<open>listScopeSightings\<close>: every version of every card, in append order, with the current
  pointer of its card and the Source of its claim record (a left join).
\<close>

definition version_sightings :: "registry_db \<Rightarrow> card_row \<times> card_version \<Rightarrow> scope_sighting list" where
  "version_sightings db = (\<lambda>(c, v).
     let publicationId = ln_publicationId (cv_lineage v);
         source = (case List.find (\<lambda>k. kr_publicationId k = publicationId) (checkpoints_table db) of
                     None \<Rightarrow> publicationId | Some k \<Rightarrow> kr_sourceId k)
     in map (\<lambda>scope.
          \<lparr>ss_carrier =
             \<lparr>sk_cardId = cv_cardId v, sk_versionId = cv_id v, sk_scope = scope,
              sk_validationState = cv_validationState v,
              sk_isCurrent = (cr_currentVersionId c = Some (cv_id v)), sk_createdAt = cv_createdAt v\<rparr>,
           ss_publicationId = publicationId, ss_sourceId = source\<rparr>) (cv_scopes v))"

definition listScopeSightings :: "registry_db \<Rightarrow> scope_sighting list" where
  "listScopeSightings db =
     concat (map (version_sightings db)
       (concat (map (\<lambda>r. map (\<lambda>c. (c, vr_version r))
            (filter (\<lambda>c. cr_cardId c = cv_cardId (vr_version r)) (cards_table db)))
          (versions_in_order db))))"

definition is_decision_kind :: "lifecycle_event \<Rightarrow> bool" where
  "is_decision_kind e = (case le_body e of
     CardVersionPromoted _ _ _ _ \<Rightarrow> True | CardVersionRefused _ _ _ \<Rightarrow> True | CardWithdrawn _ _ _ \<Rightarrow> True | _ \<Rightarrow> False)"

definition listOperatorDecisions :: "registry_db \<Rightarrow> lifecycle_event list" where
  "listOperatorDecisions db =
     map er_event (filter (\<lambda>r. is_decision_kind (er_event r)) (sort_key er_appendOrder (events_table db)))"

section \<open>Building the report\<close>

text \<open>\<open>latestForSource\<close> and \<open>findById\<close> read Ingestion's store: parameters.\<close>

definition sight ::
    "(string \<Rightarrow> publication option) \<Rightarrow> (string \<Rightarrow> publication option) \<Rightarrow> chain_cursor \<Rightarrow> consumption_sighting" where
  "sight latestForSource findById cursor =
     \<lparr>sg_sourceId = cur_sourceId cursor,
      sg_processed = Some (cur_publicationId cursor,
        map_option pub_producedAt (findById (cur_publicationId cursor))),
      sg_latestReady = map_option (\<lambda>p. (pub_publicationId p, pub_producedAt p))
        (latestForSource (cur_sourceId cursor))\<rparr>"

definition waiting_observation :: "string \<Rightarrow> publication \<Rightarrow> scope_ref \<Rightarrow> scope_observation" where
  "waiting_observation sourceId p reference =
     \<lparr>so_reference = \<lparr>scopeId = scopeId reference, scopeVersion = scopeVersion reference\<rparr>,
      so_introducedByPublicationId = pub_publicationId p, so_lastSeenPublicationId = pub_publicationId p,
      so_processed = False, so_readySince = Some (pub_producedAt p), so_sourceId = sourceId,
      so_carriers = [], so_decisions = []\<rparr>"

definition await_scope ::
    "string \<Rightarrow> publication \<Rightarrow> published_scope \<Rightarrow> string list \<times> scope_observation list \<Rightarrow> string list \<times> scope_observation list" where
  "await_scope sourceId p scope = (\<lambda>(seen, waiting).
     let key = scope_key (ps_reference scope) in
     if key \<in> set seen then (seen, waiting)
     else (set_add key seen, waiting @ [waiting_observation sourceId p (ps_reference scope)]))"

definition await_source ::
    "(string \<Rightarrow> publication option) \<Rightarrow> source_lag \<Rightarrow> string list \<times> scope_observation list \<Rightarrow> string list \<times> scope_observation list" where
  "await_source latestForSource lag acc =
     (case latestForSource (sl_sourceId lag) of
        None \<Rightarrow> acc
      | Some p \<Rightarrow> fold (await_scope (sl_sourceId lag) p) (concat (map ku_scopes (pub_knowledgeUnits p))) acc)"

definition awaitingRegistry ::
    "(string \<Rightarrow> publication option) \<Rightarrow> source_lag list \<Rightarrow> scope_observation list \<Rightarrow> scope_observation list" where
  "awaitingRegistry latestForSource lags observed =
     snd (fold (await_source latestForSource) (filter sl_behind lags)
       (js_set (map (scope_key \<circ> so_reference) observed), []))"

fun judge_all :: "scope_observation list \<Rightarrow> registry_error + scope_reachability list" where
  "judge_all [] = Inr []"
| "judge_all (x # xs) =
     res_bind (judgeScopeReachability x) (\<lambda>v. res_bind (judge_all xs) (\<lambda>vs. Inr (v # vs)))"

definition buildReachabilityReport ::
    "(string \<Rightarrow> int option) \<Rightarrow> (string \<Rightarrow> publication option) \<Rightarrow> (string \<Rightarrow> publication option) \<Rightarrow>
     string \<Rightarrow> registry_db \<Rightarrow> registry_error + reachability_report" where
  "buildReachabilityReport parse_date latestForSource findById generatedAt db =
     (let observations = collectScopeObservations (listScopeSightings db)
            (toScopeDecisions (listOperatorDecisions db));
          lags = map (judgeSourceProcessingLag parse_date)
            (map (sight latestForSource findById) (listCursors db));
          waiting = awaitingRegistry latestForSource lags observations
      in res_bind (judge_all (observations @ waiting))
           (\<lambda>verdicts. Inr (summarizeScopeReachability parse_date generatedAt verdicts lags)))"

end
