(* ===== verification/Reachability_Properties.thy ===== *)
theory Reachability_Properties
  imports Scope_Reachability Decision_Properties
begin

text \<open>
  What the reachability report says: that it always comes out, with one verdict per
  published scope version, that its verdict on a scope agrees with the approved catalog, and
  what its numbers and its gate mean.
\<close>

section \<open>Grouping sightings\<close>

abbreviation carrier_key :: "scope_carrier \<Rightarrow> string" where
  "carrier_key c \<equiv> scope_key (carrier_reference c)"

definition observed_as :: "scope_sighting list \<Rightarrow> string \<Rightarrow> scope_observation \<Rightarrow> bool" where
  "observed_as sightings key obsv \<longleftrightarrow>
     so_carriers obsv = filter (\<lambda>c. carrier_key c = key) (map ss_carrier sightings) \<and>
     so_carriers obsv \<noteq> [] \<and> so_reference obsv = carrier_reference (hd (so_carriers obsv)) \<and> so_processed obsv"

definition grouped :: "scope_sighting list \<Rightarrow> (string \<times> scope_observation) list \<Rightarrow> bool" where
  "grouped sightings obs \<longleftrightarrow> distinct (map fst obs) \<and>
     (\<forall>key. (map_of obs key = None \<longleftrightarrow> (\<forall>s \<in> set sightings. carrier_key (ss_carrier s) \<noteq> key))) \<and>
     (\<forall>key obsv. map_of obs key = Some obsv \<longrightarrow> observed_as sightings key obsv)"

lemma observe_map_of:
  "\<exists>obsv. map_of (observe_sighting decisions s obs) = (map_of obs)(carrier_key (ss_carrier s) \<mapsto> obsv) \<and>
     so_processed obsv = (case map_of obs (carrier_key (ss_carrier s)) of None \<Rightarrow> True | Some e \<Rightarrow> so_processed e) \<and>
     so_carriers obsv =
       (case map_of obs (carrier_key (ss_carrier s)) of None \<Rightarrow> [] | Some e \<Rightarrow> so_carriers e) @ [ss_carrier s] \<and>
     so_reference obsv = (case map_of obs (carrier_key (ss_carrier s)) of
        None \<Rightarrow> carrier_reference (ss_carrier s) | Some e \<Rightarrow> so_reference e)"
  by (cases "map_of obs (carrier_key (ss_carrier s))") (simp add: observe_sighting_def Let_def update_conv', rule exI, rule conjI, rule refl, simp)+

lemma observe_distinct:
  "distinct (map fst obs) \<Longrightarrow> distinct (map fst (observe_sighting decisions s obs))"
  by (simp add: observe_sighting_def Let_def distinct_update split: option.split)

lemma grouped_step:
  assumes g: "grouped sightings obs"
  shows "grouped (sightings @ [s]) (observe_sighting decisions s obs)"
proof -
  let ?key = "carrier_key (ss_carrier s)"
  let ?cs = "\<lambda>key. filter (\<lambda>c. carrier_key c = key) (map ss_carrier sightings)"
  obtain new where m: "map_of (observe_sighting decisions s obs) = (map_of obs)(?key \<mapsto> new)"
    and new: "so_processed new = (case map_of obs ?key of None \<Rightarrow> True | Some e \<Rightarrow> so_processed e)"
      "so_carriers new = (case map_of obs ?key of None \<Rightarrow> [] | Some e \<Rightarrow> so_carriers e) @ [ss_carrier s]"
      "so_reference new = (case map_of obs ?key of None \<Rightarrow> carrier_reference (ss_carrier s) | Some e \<Rightarrow> so_reference e)"
    using observe_map_of [of decisions s obs] by (elim exE conjE) (rule that)
  have d: "distinct (map fst obs)"
    and none: "\<And>key. map_of obs key = None \<longleftrightarrow> (\<forall>t \<in> set sightings. carrier_key (ss_carrier t) \<noteq> key)"
    and some: "\<And>key e. map_of obs key = Some e \<Longrightarrow> observed_as sightings key e"
    using g unfolding grouped_def by blast+
  have new': "observed_as (sightings @ [s]) ?key new"
  proof (cases "map_of obs ?key")
    case None
    then have "?cs ?key = []" using none [of ?key] by (auto simp: filter_empty_conv)
    then show ?thesis using None new by (simp add: observed_as_def)
  next
    case (Some e)
    then show ?thesis using some [OF Some] new by (auto simp: observed_as_def hd_append)
  qed
  have old': "observed_as (sightings @ [s]) key e"
    if "key \<noteq> ?key" "map_of obs key = Some e" for key e
    using some [OF that(2)] that(1) by (auto simp: observed_as_def)
  have "((map_of obs)(?key \<mapsto> new)) key = None \<longleftrightarrow>
      (\<forall>t \<in> set (sightings @ [s]). carrier_key (ss_carrier t) \<noteq> key)" for key
    using none [of key] by auto
  moreover have "observed_as (sightings @ [s]) key e" if "((map_of obs)(?key \<mapsto> new)) key = Some e" for key e
    using that new' old' by (cases "key = ?key") auto
  ultimately show ?thesis
    using observe_distinct [OF d] unfolding grouped_def m by blast
qed

lemma grouped_fold: "grouped sightings (fold (observe_sighting decisions) sightings [])"
proof (induction sightings rule: rev_induct)
  case Nil
  then show ?case by (simp add: grouped_def)
next
  case (snoc s sightings)
  then show ?case using grouped_step by simp
qed

lemma observed_key:
  assumes "observed_as sightings key obsv"
  shows "scope_key (so_reference obsv) = key"
proof -
  have cs: "so_carriers obsv = filter (\<lambda>c. carrier_key c = key) (map ss_carrier sightings)"
    and ne: "so_carriers obsv \<noteq> []" and r: "so_reference obsv = carrier_reference (hd (so_carriers obsv))"
    using assms unfolding observed_as_def by blast+
  from hd_in_set [OF ne] have "carrier_key (hd (so_carriers obsv)) = key" by (subst (asm) (2) cs) simp
  then show ?thesis by (simp only: r)
qed

lemma collected_mem:
  "obsv \<in> set (collectScopeObservations sightings decisions) \<longleftrightarrow>
     (\<exists>key. map_of (fold (observe_sighting decisions) sightings []) key = Some obsv)"
  using grouped_fold [of sightings decisions] unfolding grouped_def collectScopeObservations_def
  by (metis (no_types, lifting) image_iff list.set_map map_of_is_SomeI map_of_SomeD prod.collapse snd_conv)

text \<open>A scope reference whose id holds no NUL is determined by its key.\<close>

lemma scope_key_inj:
  assumes "scope_key r = scope_key q" and "CHR 0x00 \<notin> set (scopeId r)" and "CHR 0x00 \<notin> set (scopeId q)"
  shows "scopeId r = scopeId q \<and> scopeVersion r = scopeVersion q"
proof -
  have "takeWhile (\<lambda>c. c \<noteq> CHR 0x00) (scope_key r) = scopeId r"
    "takeWhile (\<lambda>c. c \<noteq> CHR 0x00) (scope_key q) = scopeId q"
    using assms(2,3) by (auto simp: scope_key_def takeWhile_append2 takeWhile_tail)
  then have "scopeId r = scopeId q" using assms(1) by simp
  then show ?thesis using assms(1) by (simp add: scope_key_def)
qed

lemma collected_observed:
  assumes "obsv \<in> set (collectScopeObservations sightings decisions)"
  shows "observed_as sightings (scope_key (so_reference obsv)) obsv"
proof -
  obtain key where "map_of (fold (observe_sighting decisions) sightings []) key = Some obsv"
    using assms collected_mem by blast
  then have "observed_as sightings key obsv" using grouped_fold [of sightings decisions] unfolding grouped_def by blast
  then show ?thesis using observed_key by blast
qed

lemma collected_complete:
  assumes "s \<in> set sightings"
  shows "\<exists>obsv \<in> set (collectScopeObservations sightings decisions).
    scope_key (so_reference obsv) = carrier_key (ss_carrier s)"
proof -
  let ?obs = "fold (observe_sighting decisions) sightings []" and ?key = "carrier_key (ss_carrier s)"
  have "map_of ?obs ?key \<noteq> None" using grouped_fold [of sightings decisions] assms unfolding grouped_def by blast
  then obtain obsv where k: "map_of ?obs ?key = Some obsv" by blast
  then have "observed_as sightings ?key obsv" using grouped_fold [of sightings decisions] unfolding grouped_def by blast
  then show ?thesis using observed_key collected_mem k by blast
qed

lemma collected_distinct: "distinct (map (scope_key \<circ> so_reference) (collectScopeObservations sightings decisions))"
proof -
  let ?obs = "fold (observe_sighting decisions) sightings []"
  have d: "distinct (map fst ?obs)" using grouped_fold unfolding grouped_def by blast
  have "scope_key (so_reference obsv) = key" if "(key, obsv) \<in> set ?obs" for key obsv
    using map_of_is_SomeI [OF d that] grouped_fold [of sightings decisions] observed_key
    unfolding grouped_def by blast
  then have eq: "map (scope_key \<circ> so_reference \<circ> snd) ?obs = map fst ?obs" by auto
  show ?thesis unfolding collectScopeObservations_def map_map eq by (rule d)
qed

section \<open>The report always comes out\<close>

definition nul_free :: "scope_ref \<Rightarrow> bool" where
  "nul_free r \<longleftrightarrow> CHR 0x00 \<notin> set (scopeId r)"

lemma judge_ok:
  assumes "\<forall>c \<in> set (so_carriers obsv). scopeId (carrier_reference c) = scopeId (so_reference obsv) \<and>
      scopeVersion (carrier_reference c) = scopeVersion (so_reference obsv)"
  shows "\<exists>v. judgeScopeReachability obsv = Inr v \<and> sr_reference v = so_reference obsv"
proof -
  have "List.find (\<lambda>c. scopeId (carrier_reference c) \<noteq> scopeId (so_reference obsv) \<or>
      scopeVersion (carrier_reference c) \<noteq> scopeVersion (so_reference obsv)) (so_carriers obsv) = None"
    using assms by (auto simp: find_None_iff)
  then show ?thesis
    by (auto simp: judgeScopeReachability_def Let_def verdict_def split: option.split)
qed

lemma collected_judged:
  assumes obsv: "obsv \<in> set (collectScopeObservations sightings decisions)"
    and nul: "\<forall>s \<in> set sightings. nul_free (carrier_reference (ss_carrier s))"
  shows "\<exists>v. judgeScopeReachability obsv = Inr v \<and> sr_reference v = so_reference obsv"
proof (rule judge_ok, intro ballI)
  fix c assume c: "c \<in> set (so_carriers obsv)"
  have cs: "so_carriers obsv = filter (\<lambda>c. carrier_key c = scope_key (so_reference obsv)) (map ss_carrier sightings)"
    and r: "so_reference obsv = carrier_reference (hd (so_carriers obsv))"
    using collected_observed [OF obsv] unfolding observed_as_def by blast+
  have mem: "d \<in> set (so_carriers obsv) \<longleftrightarrow> d \<in> ss_carrier ` set sightings \<and> carrier_key d = scope_key (so_reference obsv)" for d
    by (subst cs) auto
  have free: "nul_free (carrier_reference d)" if "d \<in> set (so_carriers obsv)" for d
    using that mem [of d] nul by blast
  have "hd (so_carriers obsv) \<in> set (so_carriers obsv)" using c by (cases "so_carriers obsv") auto
  then have "nul_free (so_reference obsv)" using free r by metis
  moreover have "carrier_key c = scope_key (so_reference obsv)" using c mem [of c] by blast
  ultimately show "scopeId (carrier_reference c) = scopeId (so_reference obsv) \<and>
      scopeVersion (carrier_reference c) = scopeVersion (so_reference obsv)"
    using scope_key_inj free [OF c] unfolding nul_free_def by blast
qed

lemma waiting_facts:
  "\<forall>w \<in> set (awaitingRegistry latest lags observed). so_carriers w = [] \<and> \<not> so_processed w"
  "distinct (map (scope_key \<circ> so_reference) (awaitingRegistry latest lags observed))"
  "(scope_key \<circ> so_reference) ` set (awaitingRegistry latest lags observed) \<inter> (scope_key \<circ> so_reference) ` set observed = {}"
proof -
  define K where "K = (scope_key \<circ> so_reference) ` set observed"
  define ok where "ok = (\<lambda>(seen :: string list, waiting :: scope_observation list).
     (\<forall>w \<in> set waiting. so_carriers w = [] \<and> \<not> so_processed w) \<and>
     distinct (map (scope_key \<circ> so_reference) waiting) \<and> (scope_key \<circ> so_reference) ` set waiting \<inter> K = {} \<and>
     set seen = K \<union> (scope_key \<circ> so_reference) ` set waiting)"
  have one: "ok (await_scope src p s acc)" if "ok acc" for src p s acc
    using that by (cases acc) (auto simp: ok_def await_scope_def Let_def waiting_observation_def scope_key_def)
  have "ok (fold (await_scope src p) ss acc)" if "ok acc" for src p ss acc
    using that one by (induction ss arbitrary: acc) auto
  then have source: "ok (await_source latest lag acc)" if "ok acc" for lag acc
    using that by (simp add: await_source_def split: option.split)
  have "ok (fold (await_source latest) ls acc)" if "ok acc" for ls acc
    using that source by (induction ls arbitrary: acc) auto
  moreover have "ok (js_set (map (scope_key \<circ> so_reference) observed), [])" by (simp add: ok_def K_def)
  ultimately have "ok (fold (await_source latest) (filter sl_behind lags)
      (js_set (map (scope_key \<circ> so_reference) observed), []))" by blast
  then show "\<forall>w \<in> set (awaitingRegistry latest lags observed). so_carriers w = [] \<and> \<not> so_processed w"
    "distinct (map (scope_key \<circ> so_reference) (awaitingRegistry latest lags observed))"
    "(scope_key \<circ> so_reference) ` set (awaitingRegistry latest lags observed) \<inter> (scope_key \<circ> so_reference) ` set observed = {}"
    by (auto simp: ok_def awaitingRegistry_def K_def split: prod.splits)
qed

lemma judge_all_ok:
  assumes "\<forall>w \<in> set obs. \<exists>v. judgeScopeReachability w = Inr v \<and> sr_reference v = so_reference w"
  shows "\<exists>vs. judge_all obs = Inr vs \<and> list_all2 (\<lambda>w v. judgeScopeReachability w = Inr v \<and> sr_reference v = so_reference w) obs vs"
  using assms
proof (induction obs)
  case Nil
  then show ?case by simp
next
  case (Cons a obs)
  then obtain v vs where "judgeScopeReachability a = Inr v" "sr_reference v = so_reference a" "judge_all obs = Inr vs"
    "list_all2 (\<lambda>w v. judgeScopeReachability w = Inr v \<and> sr_reference v = so_reference w) obs vs"
    by auto
  then show ?case by (intro exI [of _ "v # vs"]) simp
qed

definition scopes_nul_free :: "registry_db \<Rightarrow> bool" where
  "scopes_nul_free db \<longleftrightarrow>
     (\<forall>r \<in> set (versions_table db). \<forall>scope \<in> set (cv_scopes (vr_version r)). nul_free (rs_reference scope))"

lemma sightings_mem:
  assumes "db_inv db"
  shows "s \<in> set (listScopeSightings db) \<longleftrightarrow>
    (\<exists>row \<in> set (cards_table db). \<exists>v \<in> set (card_versions db (cr_cardId row)). s \<in> set (version_sightings db (row, v)))"
proof
  assume "s \<in> set (listScopeSightings db)"
  then obtain row r where row: "row \<in> set (cards_table db)" and r: "r \<in> set (versions_table db)"
      "cr_cardId row = cv_cardId (vr_version r)" "s \<in> set (version_sightings db (row, vr_version r))"
    unfolding listScopeSightings_def versions_in_order_id [OF assms] by auto
  have "vr_version r \<in> set (card_versions db (cr_cardId row))" using r by (auto simp: card_versions_mem)
  then show "\<exists>row \<in> set (cards_table db). \<exists>v \<in> set (card_versions db (cr_cardId row)). s \<in> set (version_sightings db (row, v))"
    using row r(3) by (intro bexI)
next
  assume "\<exists>row \<in> set (cards_table db). \<exists>v \<in> set (card_versions db (cr_cardId row)). s \<in> set (version_sightings db (row, v))"
  then obtain row r where "row \<in> set (cards_table db)" "r \<in> set (versions_table db)"
    "cv_cardId (vr_version r) = cr_cardId row" "s \<in> set (version_sightings db (row, vr_version r))"
    by (auto simp: card_versions_mem)
  then have "(row, vr_version r) \<in> set (concat (map (\<lambda>r. map (\<lambda>c. (c, vr_version r))
      (filter (\<lambda>c. cr_cardId c = cv_cardId (vr_version r)) (cards_table db))) (versions_table db)))"
    by (auto intro!: bexI [of _ r])
  with \<open>s \<in> set (version_sightings db (row, vr_version r))\<close> show "s \<in> set (listScopeSightings db)"
    unfolding listScopeSightings_def versions_in_order_id [OF assms]
    by (subst set_concat, subst set_map) (rule UN_I [OF imageI])
qed

lemma sighting_of_scope:
  "s \<in> set (version_sightings db (row, v)) \<Longrightarrow>
     sk_scope (ss_carrier s) \<in> set (cv_scopes v) \<and>
     sk_isCurrent (ss_carrier s) = (cr_currentVersionId row = Some (cv_id v))"
  by (auto simp: version_sightings_def Let_def)

lemma scope_has_sighting:
  "scope \<in> set (cv_scopes v) \<Longrightarrow> \<exists>s \<in> set (version_sightings db (row, v)).
     sk_scope (ss_carrier s) = scope \<and> sk_isCurrent (ss_carrier s) = (cr_currentVersionId row = Some (cv_id v))"
  by (auto simp: version_sightings_def Let_def)

lemma sightings_nul_free:
  assumes inv: "db_inv db" and nul: "scopes_nul_free db"
  shows "\<forall>s \<in> set (listScopeSightings db). nul_free (carrier_reference (ss_carrier s))"
proof
  fix s assume "s \<in> set (listScopeSightings db)"
  then obtain row v where v: "v \<in> set (card_versions db (cr_cardId row))" and s: "s \<in> set (version_sightings db (row, v))"
    using sightings_mem [OF inv] by blast
  obtain r where "r \<in> set (versions_table db)" "vr_version r = v" using v by (auto simp: card_versions_mem)
  then show "nul_free (carrier_reference (ss_carrier s))"
    using nul sighting_of_scope [OF s] by (auto simp: scopes_nul_free_def carrier_reference_def)
qed

text \<open>The report of a registry, with the observations its verdicts were given on.\<close>

lemma report_verdicts:
  assumes inv: "db_inv db" and nul: "scopes_nul_free db"
  shows "\<exists>report waiting.
    buildReachabilityReport parse_date latest findById t db = Inr report \<and>
    list_all2 (\<lambda>w v. judgeScopeReachability w = Inr v \<and> sr_reference v = so_reference w)
      (collectScopeObservations (listScopeSightings db) (toScopeDecisions (listOperatorDecisions db)) @ waiting)
      (rr_scopes report) \<and>
    (\<forall>w \<in> set waiting. so_carriers w = [] \<and> \<not> so_processed w) \<and>
    distinct (map (scope_key \<circ> so_reference) waiting) \<and>
    (scope_key \<circ> so_reference) ` set waiting \<inter> (scope_key \<circ> so_reference) `
      set (collectScopeObservations (listScopeSightings db) (toScopeDecisions (listOperatorDecisions db))) = {} \<and>
    rr_counts report = count_state (rr_scopes report) \<and>
    rr_currentReachabilityCoverage report =
      (if exposable (rr_scopes report) = 0 then 1
       else of_nat (count_state (rr_scopes report) Reachable) / of_int (exposable (rr_scopes report)))"
proof -
  define obs where "obs = collectScopeObservations (listScopeSightings db) (toScopeDecisions (listOperatorDecisions db))"
  define lags where "lags = map (judgeSourceProcessingLag parse_date) (map (sight latest findById) (listCursors db))"
  define waiting where "waiting = awaitingRegistry latest lags obs"
  note w = waiting_facts [of latest lags obs, folded waiting_def]
  have "\<forall>x \<in> set (obs @ waiting). \<exists>v. judgeScopeReachability x = Inr v \<and> sr_reference v = so_reference x"
  proof
    fix x assume "x \<in> set (obs @ waiting)"
    then consider "x \<in> set obs" | "so_carriers x = []" using w(1) by auto
    then show "\<exists>v. judgeScopeReachability x = Inr v \<and> sr_reference v = so_reference x"
    proof cases
      case 1
      then show ?thesis using collected_judged sightings_nul_free [OF inv nul] unfolding obs_def by blast
    next
      case 2
      then show ?thesis by (intro judge_ok) simp
    qed
  qed
  then obtain vs where vs: "judge_all (obs @ waiting) = Inr vs"
    "list_all2 (\<lambda>w v. judgeScopeReachability w = Inr v \<and> sr_reference v = so_reference w) (obs @ waiting) vs"
    using judge_all_ok by blast
  have "buildReachabilityReport parse_date latest findById t db =
      Inr (summarizeScopeReachability parse_date t vs lags)"
    using vs(1) by (simp add: buildReachabilityReport_def Let_def obs_def lags_def waiting_def)
  then show ?thesis
    using vs(2) w
    by (intro exI [of _ "summarizeScopeReachability parse_date t vs lags"] exI [of _ waiting] conjI)
      (simp_all add: summarizeScopeReachability_def Let_def obs_def)
qed

text \<open>
  C10: whatever the registry holds (with scope ids free of the NUL that separates a key), the
  reachability report comes out, never throwing: with exactly one verdict per scope version,
  and one for every scope of every stored version.
\<close>

theorem report_total_one_verdict_per_scope:
  assumes "db_inv db" and "scopes_nul_free db"
  shows "\<exists>report. buildReachabilityReport parse_date latest findById t db = Inr report \<and>
    distinct (map (scope_key \<circ> sr_reference) (rr_scopes report)) \<and>
    (\<forall>k. \<forall>v \<in> set (history_of db k). \<forall>scope \<in> set (cv_scopes v).
       \<exists>verdict \<in> set (rr_scopes report). scope_key (sr_reference verdict) = scope_key (rs_reference scope))"
proof -
  define obs where "obs = collectScopeObservations (listScopeSightings db) (toScopeDecisions (listOperatorDecisions db))"
  obtain report waiting where r: "buildReachabilityReport parse_date latest findById t db = Inr report"
    and all: "list_all2 (\<lambda>w v. judgeScopeReachability w = Inr v \<and> sr_reference v = so_reference w) (obs @ waiting) (rr_scopes report)"
    and w: "distinct (map (scope_key \<circ> so_reference) waiting)"
      "(scope_key \<circ> so_reference) ` set waiting \<inter> (scope_key \<circ> so_reference) ` set obs = {}"
    using report_verdicts [OF assms, of parse_date latest findById t, folded obs_def]
    by (elim exE conjE) (rule that)
  have keys: "map (scope_key \<circ> sr_reference) (rr_scopes report) = map (scope_key \<circ> so_reference) (obs @ waiting)"
    using all by (induction rule: list_all2_induct) simp_all
  have "distinct (map (scope_key \<circ> so_reference) (obs @ waiting))"
    using collected_distinct [folded obs_def] w by (auto simp: obs_def)
  moreover have "\<exists>verdict \<in> set (rr_scopes report). scope_key (sr_reference verdict) = scope_key (rs_reference scope)"
    if v: "v \<in> set (history_of db k)" and scope: "scope \<in> set (cv_scopes v)" for k v scope
  proof -
    have mem: "v \<in> set (card_versions db k)" using v by (simp only: history_eq_card_versions [OF assms(1)])
    then obtain r where "r \<in> set (versions_table db)" "vr_version r = v" "cv_cardId v = k"
      by (auto simp: card_versions_mem)
    then have "k \<in> cr_cardId ` set (cards_table db)" using db_invD(4) [OF assms(1)] by blast
    then obtain row where row: "row \<in> set (cards_table db)" "cr_cardId row = k" by blast
    with mem obtain s where s: "s \<in> set (listScopeSightings db)" "sk_scope (ss_carrier s) = scope"
      using scope_has_sighting [OF scope] sightings_mem [OF assms(1)] by blast
    then obtain x where "x \<in> set obs" "scope_key (so_reference x) = scope_key (rs_reference scope)"
      using collected_complete [OF s(1)] unfolding obs_def carrier_reference_def by blast
    then have "scope_key (rs_reference scope) \<in> set (map (scope_key \<circ> so_reference) (obs @ waiting))" by force
    then show ?thesis unfolding keys [symmetric] by auto
  qed
  ultimately show ?thesis using r keys by metis
qed

text \<open>Witness: the registry of one Card whose serving version carries one SQL scope.\<close>

definition scoped_version :: "string \<Rightarrow> retrieval_scope list \<Rightarrow> card_version" where
  "scoped_version i scopes = (sample_version i ''c'' Validated)\<lparr>cv_scopes := scopes\<rparr>"

definition table_scope :: retrieval_scope where
  "table_scope = SqlSourceScope \<lparr>scopeId = ''s'', scopeVersion = ''1''\<rparr> ''pg'' ''public'' ''t'' [''a'']"

definition scoped_db :: registry_db where
  "scoped_db = empty_db\<lparr>
     cards_table := [\<lparr>cr_cardId = ''c'', cr_meaning = sample_meaning, cr_policy = sample_policy,
                      cr_currentVersionId = Some ''v1''\<rparr>],
     versions_table := [\<lparr>vr_version = scoped_version ''v1'' [table_scope], vr_appendOrder = 1\<rparr>]\<rparr>"

lemma scoped_version_sel [simp]:
  "cv_id (scoped_version i scopes) = i" "cv_cardId (scoped_version i scopes) = ''c''"
  "cv_scopes (scoped_version i scopes) = scopes" "cv_validationState (scoped_version i scopes) = Validated"
  by (simp_all add: scoped_version_def sample_version_def)

lemma scoped_db_inv: "db_inv scoped_db"
  by (simp add: db_inv_def scoped_db_def empty_db_def version_key_def pointer_ok_def)

lemma scoped_db_nul_free: "scopes_nul_free scoped_db"
  by (simp add: scopes_nul_free_def scoped_db_def nul_free_def table_scope_def)

lemma scoped_history: "history_of scoped_db ''c'' = [scoped_version ''v1'' [table_scope]]"
  unfolding history_eq_card_versions [OF scoped_db_inv] by (simp add: card_versions_def scoped_db_def)

theorem report_total_one_verdict_per_scope_witness:
  "\<exists>report. buildReachabilityReport (\<lambda>_. None) (\<lambda>_. None) (\<lambda>_. None) ''now'' scoped_db = Inr report \<and>
    (\<exists>verdict \<in> set (rr_scopes report). scope_key (sr_reference verdict) = scope_key (rs_reference table_scope))"
proof -
  obtain report where "buildReachabilityReport (\<lambda>_. None) (\<lambda>_. None) (\<lambda>_. None) ''now'' scoped_db = Inr report"
    and "\<forall>k. \<forall>v \<in> set (history_of scoped_db k). \<forall>scope \<in> set (cv_scopes v).
       \<exists>verdict \<in> set (rr_scopes report). scope_key (sr_reference verdict) = scope_key (rs_reference scope)"
    using report_total_one_verdict_per_scope
      [OF scoped_db_inv scoped_db_nul_free, of "\<lambda>_. None" "\<lambda>_. None" "\<lambda>_. None" "''now''"]
    by (elim exE conjE) (rule that)
  then show ?thesis
    by (intro exI [of _ report] conjI) (assumption, erule allE [of _ "''c''"], simp add: scoped_history)
qed

section \<open>What a verdict means\<close>

abbreviation serving_carriers :: "scope_observation \<Rightarrow> scope_carrier list" where
  "serving_carriers w \<equiv> filter sk_isCurrent (so_carriers w)"

abbreviation decided_against :: "scope_observation \<Rightarrow> scope_carrier \<Rightarrow> bool" where
  "decided_against w c \<equiv> sk_validationState c = Rejected \<or>
     (\<exists>d \<in> set (so_decisions w). sd_kind d \<noteq> PromotedKind \<and> sd_versionId d = Some (sk_versionId c))"

lemma latestOf_None: "latestOf ds = None \<longleftrightarrow> ds = []"
proof (induction ds rule: rev_induct)
  case Nil
  then show ?case by (simp add: latestOf_def)
next
  case (snoc d ds)
  then show ?case by (auto simp: latestOf_def later_def split: option.split)
qed

lemma explainedDecision_None:
  "explainedDecision ds = None \<longleftrightarrow> (\<forall>d \<in> set ds. sd_kind d \<noteq> PromotedKind \<longrightarrow> trimmed_note d = [])"
  by (auto simp: explainedDecision_def latestOf_None filter_empty_conv)

lemma decidedAgainst_mem:
  "Some i \<in> set (decidedAgainst ds) \<longleftrightarrow> (\<exists>d \<in> set ds. sd_kind d \<noteq> PromotedKind \<and> sd_versionId d = Some i)"
  unfolding decidedAgainst_def set_js_set set_map set_filter image_iff by (metis (mono_tags, lifting) mem_Collect_eq)

lemma awaitingCarriers_empty:
  "awaitingCarriers w = [] \<longleftrightarrow> (\<forall>c \<in> set (so_carriers w). decided_against w c)"
  unfolding awaitingCarriers_def filter_empty_conv decidedAgainst_mem by blast

lemma findScopeDisagreement_None:
  "findScopeDisagreement cs = None \<longleftrightarrow>
     (\<forall>c \<in> set cs. \<forall>d \<in> set cs. scopeShape (sk_scope c) = scopeShape (sk_scope d))"
proof (cases cs)
  case Nil
  then show ?thesis by (simp add: findScopeDisagreement_def)
next
  case (Cons a as)
  then show ?thesis by (auto simp: findScopeDisagreement_def find_None_iff)
qed

lemma judge_reference_ok:
  "judgeScopeReachability w = Inr v \<Longrightarrow> List.find (\<lambda>c. scopeId (carrier_reference c) \<noteq> scopeId (so_reference w) \<or>
      scopeVersion (carrier_reference c) \<noteq> scopeVersion (so_reference w)) (so_carriers w) = None"
  by (auto simp: judgeScopeReachability_def Let_def split: option.splits)

lemma judge_state_table:
  assumes v: "judgeScopeReachability w = Inr v"
  shows "sr_state v =
    (if \<not> so_processed w then PendingRegistry
     else if serving_carriers w \<noteq> [] then
       (if findScopeDisagreement (so_carriers w) = None then Reachable else Broken)
     else if awaitingCarriers w \<noteq> [] then PendingApproval
     else if explainedDecision (so_decisions w) \<noteq> None then IntentionallyUnexposed
     else Orphaned)"
  using v by (auto simp: judgeScopeReachability_def judge_reference_ok [OF v] Let_def verdict_def
      split: if_splits option.splits)

text \<open>
  The verdict on a scope version the registry has processed, for each of its states: broken
  or reachable exactly when some carrier is serving, by whether the carriers describe one
  range; otherwise pending approval when a carrier is neither rejected nor decided against,
  intentionally unexposed when all are and a decision says why, orphaned when none does.
\<close>

theorem verdict_on_processed_scope:
  assumes "judgeScopeReachability w = Inr v" and "so_processed w"
  shows "case sr_state v of
      PendingRegistry \<Rightarrow> False
    | Broken \<Rightarrow> (\<exists>c \<in> set (so_carriers w). sk_isCurrent c) \<and>
        (\<exists>c \<in> set (so_carriers w). \<exists>d \<in> set (so_carriers w). scopeShape (sk_scope c) \<noteq> scopeShape (sk_scope d))
    | Reachable \<Rightarrow> (\<exists>c \<in> set (so_carriers w). sk_isCurrent c) \<and>
        (\<forall>c \<in> set (so_carriers w). \<forall>d \<in> set (so_carriers w). scopeShape (sk_scope c) = scopeShape (sk_scope d))
    | PendingApproval \<Rightarrow> (\<forall>c \<in> set (so_carriers w). \<not> sk_isCurrent c) \<and>
        (\<exists>c \<in> set (so_carriers w). \<not> decided_against w c)
    | IntentionallyUnexposed \<Rightarrow> (\<forall>c \<in> set (so_carriers w). \<not> sk_isCurrent c \<and> decided_against w c) \<and>
        (\<exists>d \<in> set (so_decisions w). sd_kind d \<noteq> PromotedKind \<and> trimmed_note d \<noteq> [])
    | Orphaned \<Rightarrow> (\<forall>c \<in> set (so_carriers w). \<not> sk_isCurrent c \<and> decided_against w c) \<and>
        (\<forall>d \<in> set (so_decisions w). sd_kind d \<noteq> PromotedKind \<longrightarrow> trimmed_note d = [])"
proof -
  note st = judge_state_table [OF assms(1)]
  note facts = filter_empty_conv awaitingCarriers_empty explainedDecision_None findScopeDisagreement_None
  consider "serving_carriers w \<noteq> []" "findScopeDisagreement (so_carriers w) = None"
    | "serving_carriers w \<noteq> []" "findScopeDisagreement (so_carriers w) \<noteq> None"
    | "serving_carriers w = []" "awaitingCarriers w \<noteq> []"
    | "serving_carriers w = []" "awaitingCarriers w = []" "explainedDecision (so_decisions w) \<noteq> None"
    | "serving_carriers w = []" "awaitingCarriers w = []" "explainedDecision (so_decisions w) = None"
    by blast
  then show ?thesis
  proof cases
    case 1
    have "sr_state v = Reachable" unfolding st using 1 assms(2) by simp
    then show ?thesis using 1 by (simp only: facts reachability_state.case) blast
  next
    case 2
    have "sr_state v = Broken" unfolding st using 2 assms(2) by simp
    then show ?thesis using 2 by (simp only: facts reachability_state.case) blast
  next
    case 3
    have "sr_state v = PendingApproval" unfolding st using 3 assms(2) by simp
    then show ?thesis using 3 by (simp only: facts reachability_state.case) blast
  next
    case 4
    have "sr_state v = IntentionallyUnexposed" unfolding st using 4 assms(2) by simp
    then show ?thesis using 4 by (simp only: facts reachability_state.case) blast
  next
    case 5
    have "sr_state v = Orphaned" unfolding st using 5 assms(2) by simp
    then show ?thesis using 5 by (simp only: facts reachability_state.case) blast
  qed
qed

definition sample_carrier :: scope_carrier where
  "sample_carrier = \<lparr>sk_cardId = ''c'', sk_versionId = ''v1'', sk_scope = table_scope,
     sk_validationState = Validated, sk_isCurrent = False, sk_createdAt = ''t0''\<rparr>"

definition sample_withdrawal :: scope_decision where
  "sample_withdrawal = \<lparr>sd_kind = WithdrawnKind, sd_eventId = ''e1'', sd_cardId = ''c'',
     sd_versionId = Some ''v1'', sd_occurredAt = ''t1'', sd_note = Some '' retired ''\<rparr>"

definition sample_observation :: scope_observation where
  "sample_observation = \<lparr>so_reference = rs_reference table_scope, so_introducedByPublicationId = ''p1'',
     so_lastSeenPublicationId = ''p1'', so_processed = True, so_readySince = None, so_sourceId = ''s'',
     so_carriers = [sample_carrier], so_decisions = [sample_withdrawal]\<rparr>"

theorem verdict_on_processed_scope_witness:
  "\<exists>v. judgeScopeReachability sample_observation = Inr v \<and> sr_state v = IntentionallyUnexposed \<and>
     decided_against sample_observation sample_carrier"
proof -
  have "\<exists>v. judgeScopeReachability sample_observation = Inr v \<and> sr_reference v = so_reference sample_observation"
    by (rule judge_ok) (simp add: sample_observation_def sample_carrier_def carrier_reference_def)
  then obtain v where v: "judgeScopeReachability sample_observation = Inr v" by blast
  have said: "trimmed_note sample_withdrawal \<noteq> []" by code_simp
  have state: "sr_state v = IntentionallyUnexposed"
    using said by (simp add: judge_state_table [OF v] awaitingCarriers_empty explainedDecision_None,
      simp add: sample_observation_def sample_carrier_def sample_withdrawal_def)
  have members: "so_carriers sample_observation = [sample_carrier]" "so_processed sample_observation"
    by (simp_all add: sample_observation_def)
  show ?thesis
    using verdict_on_processed_scope [OF v members(2)] v state members(1) by simp
qed

section \<open>The report and the catalog\<close>

lemma entry_scope_stored:
  assumes inv: "db_inv db"
  shows "(\<exists>e \<in> set (approvedEntries db). scope \<in> set (ce_scopes e)) \<longleftrightarrow>
    (\<exists>s \<in> set (listScopeSightings db). sk_scope (ss_carrier s) = scope \<and> sk_isCurrent (ss_carrier s))"
proof
  assume "\<exists>e \<in> set (approvedEntries db). scope \<in> set (ce_scopes e)"
  then obtain row v where "(row, v) \<in> set (current_rows db)" and scope: "scope \<in> set (cv_scopes v)"
    by (auto simp: approvedEntries_def entry_of_row_def)
  then have row: "row \<in> set (cards_table db)"
    and v: "v \<in> set (card_versions db (cr_cardId row))" "cr_currentVersionId row = Some (cv_id v)"
    using getCurrentCardVersion_eq_Some [of "cc_versions (stored_card db row)" v] stored_card_wf [OF inv]
    by (auto simp: current_rows_mem [OF inv] card_wf_def)
  obtain s where s: "s \<in> set (version_sightings db (row, v))" "sk_scope (ss_carrier s) = scope"
      "sk_isCurrent (ss_carrier s)"
    using scope_has_sighting [OF scope, of db row] v(2) by auto
  then have "s \<in> set (listScopeSightings db)" using row v(1) sightings_mem [OF inv] by blast
  then show "\<exists>s \<in> set (listScopeSightings db). sk_scope (ss_carrier s) = scope \<and> sk_isCurrent (ss_carrier s)"
    using s by blast
next
  assume "\<exists>s \<in> set (listScopeSightings db). sk_scope (ss_carrier s) = scope \<and> sk_isCurrent (ss_carrier s)"
  then obtain s row v where s: "sk_scope (ss_carrier s) = scope" "sk_isCurrent (ss_carrier s)"
      "s \<in> set (version_sightings db (row, v))" and row: "row \<in> set (cards_table db)"
      and v: "v \<in> set (card_versions db (cr_cardId row))"
    unfolding Bex_def sightings_mem [OF inv] by blast
  have "cr_currentVersionId row = Some (cv_id v)" and scope: "scope \<in> set (cv_scopes v)"
    using sighting_of_scope [OF s(3)] s(1,2) by auto
  then have "(row, v) \<in> set (current_rows db)"
    using row v getCurrentCardVersion_eq_Some [of "cc_versions (stored_card db row)" v] stored_card_wf [OF inv row]
    by (simp add: current_rows_mem [OF inv] card_wf_def)
  then have "entry_of_row (row, v) \<in> set (approvedEntries db)" by (simp add: approvedEntries_def)
  then show "\<exists>e \<in> set (approvedEntries db). scope \<in> set (ce_scopes e)"
    using scope by (intro bexI) (auto simp: entry_of_row_def)
qed

text \<open>The carriers of a collected observation are those of the sightings with its key.\<close>

lemma collected_carriers:
  assumes "w \<in> set (collectScopeObservations sightings decisions)"
  shows "set (so_carriers w) = {ss_carrier s | s. s \<in> set sightings \<and> carrier_key (ss_carrier s) = scope_key (so_reference w)}"
    and "so_processed w"
proof -
  have w: "so_carriers w = filter (\<lambda>c. carrier_key c = scope_key (so_reference w)) (map ss_carrier sightings)"
    and "so_processed w"
    using collected_observed [OF assms] unfolding observed_as_def by blast+
  show "so_processed w" by fact
  show "set (so_carriers w) = {ss_carrier s | s. s \<in> set sightings \<and> carrier_key (ss_carrier s) = scope_key (so_reference w)}"
    by (subst w) auto
qed

lemma exposed_iff_serving:
  assumes "judgeScopeReachability w = Inr v" and "so_processed w \<or> so_carriers w = []"
  shows "sr_state v \<in> {Reachable, Broken} \<longleftrightarrow> (\<exists>c \<in> set (so_carriers w). sk_isCurrent c)"
  using assms(2) by (auto simp: judge_state_table [OF assms(1)] filter_empty_conv)

text \<open>
  C9: the report agrees with the catalog that serves queries: a scope version reads as
  reachable or broken exactly when some approved entry of the catalog carries it.
\<close>

theorem report_agrees_with_catalog:
  assumes inv: "db_inv db" and nul: "scopes_nul_free db"
    and report: "buildReachabilityReport parse_date latest findById t db = Inr report"
    and v: "v \<in> set (rr_scopes report)"
  shows "sr_state v \<in> {Reachable, Broken} \<longleftrightarrow>
    (\<exists>e \<in> set (approvedEntries db). \<exists>scope \<in> set (ce_scopes e).
       scope_key (rs_reference scope) = scope_key (sr_reference v))"
proof -
  define obs where "obs = collectScopeObservations (listScopeSightings db) (toScopeDecisions (listOperatorDecisions db))"
  obtain report' waiting where r: "buildReachabilityReport parse_date latest findById t db = Inr report'"
    and all: "list_all2 (\<lambda>w v. judgeScopeReachability w = Inr v \<and> sr_reference v = so_reference w) (obs @ waiting) (rr_scopes report')"
    and w: "\<forall>w \<in> set waiting. so_carriers w = [] \<and> \<not> so_processed w"
      "(scope_key \<circ> so_reference) ` set waiting \<inter> (scope_key \<circ> so_reference) ` set obs = {}"
    using report_verdicts [OF inv nul, of parse_date latest findById t, folded obs_def]
    by (elim exE conjE) (rule that)
  have "report' = report" using r report by simp
  then obtain x where x: "x \<in> set (obs @ waiting)" "judgeScopeReachability x = Inr v" "sr_reference v = so_reference x"
    using all v unfolding list_all2_conv_all_nth in_set_conv_nth by metis
  have carrier: "(\<exists>c \<in> set (so_carriers x). sk_isCurrent c) \<longleftrightarrow>
      (\<exists>s \<in> set (listScopeSightings db). carrier_key (ss_carrier s) = scope_key (so_reference x) \<and> sk_isCurrent (ss_carrier s))"
  proof (cases "x \<in> set obs")
    case True
    then show ?thesis using collected_carriers(1) [of x "listScopeSightings db"] unfolding obs_def by auto
  next
    case False
    then have "x \<in> set waiting" using x(1) by simp
    moreover have "\<not> (\<exists>s \<in> set (listScopeSightings db). carrier_key (ss_carrier s) = scope_key (so_reference x))"
    proof
      assume "\<exists>s \<in> set (listScopeSightings db). carrier_key (ss_carrier s) = scope_key (so_reference x)"
      then obtain y where "y \<in> set obs" "scope_key (so_reference y) = scope_key (so_reference x)"
        using collected_complete unfolding obs_def by metis
      then have "scope_key (so_reference x) \<in> (scope_key \<circ> so_reference) ` set obs"
        by (metis comp_apply image_eqI)
      moreover have "scope_key (so_reference x) \<in> (scope_key \<circ> so_reference) ` set waiting"
        using \<open>x \<in> set waiting\<close> by (metis comp_apply image_eqI)
      ultimately show False using w(2) by blast
    qed
    ultimately show ?thesis using w(1) by auto
  qed
  have "so_processed x \<or> so_carriers x = []"
    using x(1) w(1) collected_carriers(2) [of x] unfolding obs_def by auto
  then have "sr_state v \<in> {Reachable, Broken} \<longleftrightarrow>
      (\<exists>s \<in> set (listScopeSightings db). carrier_key (ss_carrier s) = scope_key (so_reference x) \<and> sk_isCurrent (ss_carrier s))"
    using exposed_iff_serving [OF x(2)] carrier by simp
  also have "\<dots> \<longleftrightarrow> (\<exists>e \<in> set (approvedEntries db). \<exists>scope \<in> set (ce_scopes e).
       scope_key (rs_reference scope) = scope_key (so_reference x))"
    using entry_scope_stored [OF inv] unfolding carrier_reference_def by metis
  finally show ?thesis by (simp only: x(3))
qed

theorem report_agrees_with_catalog_witness:
  "\<exists>report. buildReachabilityReport (\<lambda>_. None) (\<lambda>_. None) (\<lambda>_. None) ''now'' scoped_db = Inr report \<and>
    (\<forall>v \<in> set (rr_scopes report). sr_state v \<in> {Reachable, Broken} \<longleftrightarrow>
       scope_key (rs_reference table_scope) = scope_key (sr_reference v))"
proof -
  obtain report where r: "buildReachabilityReport (\<lambda>_. None) (\<lambda>_. None) (\<lambda>_. None) ''now'' scoped_db = Inr report"
    using report_verdicts [OF scoped_db_inv scoped_db_nul_free, of "\<lambda>_. None" "\<lambda>_. None" "\<lambda>_. None" "''now''"]
    by (elim exE conjE) (rule that)
  have "approvedEntries scoped_db = [\<lparr>ce_cardId = ''c'', ce_versionId = ''v1'', ce_meaning = sample_meaning,
      ce_policy = sample_policy, ce_scopes = [table_scope]\<rparr>]"
    by (simp add: approvedEntries_def current_rows_def versions_in_order_def scoped_db_def version_key_def entry_of_row_def)
  then show ?thesis
    using report_agrees_with_catalog [OF scoped_db_inv scoped_db_nul_free r] r by simp
qed

section \<open>The numbers of the report\<close>

lemma length_by_state: "length vs = count_state vs PendingRegistry + count_state vs Broken +
    count_state vs Reachable + count_state vs PendingApproval + count_state vs IntentionallyUnexposed +
    count_state vs Orphaned"
proof (induction vs)
  case Nil
  then show ?case by (simp add: count_state_def)
next
  case (Cons v vs)
  then show ?case by (cases "sr_state v") (simp_all add: count_state_def)
qed

lemma exposable_eq: "exposable vs =
    int (count_state vs Broken + count_state vs Reachable + count_state vs PendingApproval + count_state vs Orphaned)"
  using length_by_state [of vs] by (simp add: exposable_def)

lemma count_state_pos: "0 < count_state vs st \<longleftrightarrow> (\<exists>v \<in> set vs. sr_state v = st)"
  by (auto simp: count_state_def filter_empty_conv)

lemma share_bounds:
  fixes n m :: nat
  shows "0 \<le> (of_nat n :: rat) / of_nat (n + m)" and "(of_nat n :: rat) / of_nat (n + m) \<le> 1"
    and "0 < n + m \<Longrightarrow> ((of_nat n :: rat) / of_nat (n + m) = 1) \<longleftrightarrow> m = 0"
proof -
  have pos: "0 < (of_nat (n + m) :: rat)" if "0 < n + m" using that by (simp only: of_nat_0_less_iff)
  show "0 \<le> (of_nat n :: rat) / of_nat (n + m)" by simp
  show "(of_nat n :: rat) / of_nat (n + m) \<le> 1"
    using pos divide_le_eq_1_pos [of "of_nat (n + m) :: rat" "of_nat n"] by (cases "n + m = 0") auto
  show "((of_nat n :: rat) / of_nat (n + m) = 1) \<longleftrightarrow> m = 0" if "0 < n + m"
    using pos [OF that] by (simp add: divide_eq_1_iff)
qed

text \<open>
  The numbers of the report are consistent: the counts of the six states add up to the
  number of scope versions, coverage is a share between 0 and 1, it is 1 exactly when every
  scope version is reachable, waiting for the registry or left out on purpose, and the release
  gate passes exactly when no scope version is broken or orphaned.
\<close>

theorem report_numbers:
  "let report = summarizeScopeReachability parse_date t verdicts lags;
       coverage = rr_currentReachabilityCoverage report in
   rr_counts report PendingRegistry + rr_counts report Broken + rr_counts report Reachable +
     rr_counts report PendingApproval + rr_counts report IntentionallyUnexposed +
     rr_counts report Orphaned = length verdicts \<and>
   0 \<le> coverage \<and> coverage \<le> 1 \<and>
   (coverage = 1 \<longleftrightarrow> {sr_state v | v. v \<in> set verdicts} \<subseteq> {Reachable, PendingRegistry, IntentionallyUnexposed}) \<and>
   (reachabilityGateViolations report = [] \<longleftrightarrow>
      {sr_state v | v. v \<in> set verdicts} \<inter> {Broken, Orphaned} = {})"
proof -
  let ?r = "summarizeScopeReachability parse_date t verdicts lags"
  define n where "n = count_state verdicts Reachable"
  define m where "m = count_state verdicts Broken + count_state verdicts PendingApproval + count_state verdicts Orphaned"
  have counts: "rr_counts ?r = count_state verdicts"
    by (simp add: summarizeScopeReachability_def Let_def)
  have e: "exposable verdicts = int (n + m)" by (simp add: exposable_eq n_def m_def)
  have cov: "rr_currentReachabilityCoverage ?r = (if n + m = 0 then 1 else of_nat n / of_nat (n + m))"
    by (simp add: summarizeScopeReachability_def Let_def e n_def [symmetric])
  have none: "count_state verdicts st = 0 \<longleftrightarrow> st \<notin> {sr_state v | v. v \<in> set verdicts}" for st
    using count_state_pos [of verdicts st] by auto
  have "m = 0 \<longleftrightarrow> {sr_state v | v. v \<in> set verdicts} \<subseteq> {Reachable, PendingRegistry, IntentionallyUnexposed}"
    unfolding m_def add_is_0 none by (auto, metis reachability_state.exhaust)
  then have c1: "rr_currentReachabilityCoverage ?r = 1 \<longleftrightarrow>
      {sr_state v | v. v \<in> set verdicts} \<subseteq> {Reachable, PendingRegistry, IntentionallyUnexposed}"
    using share_bounds(3) [of n m] by (simp add: cov)
  have c2: "0 \<le> rr_currentReachabilityCoverage ?r \<and> rr_currentReachabilityCoverage ?r \<le> 1"
    using share_bounds(1,2) [of n m] by (simp add: cov)
  have gate: "reachabilityGateViolations ?r = [] \<longleftrightarrow> {sr_state v | v. v \<in> set verdicts} \<inter> {Broken, Orphaned} = {}"
  proof -
    have two: "S \<inter> {a, b} = {} \<longleftrightarrow> a \<notin> S \<and> b \<notin> S" for S :: "reachability_state set" and a b
      by blast
    have "reachabilityGateViolations ?r = [] \<longleftrightarrow>
        count_state verdicts Broken = 0 \<and> count_state verdicts Orphaned = 0"
      by (simp add: reachabilityGateViolations_def counts)
    also have "\<dots> \<longleftrightarrow> {sr_state v | v. v \<in> set verdicts} \<inter> {Broken, Orphaned} = {}"
      unfolding none two ..
    finally show ?thesis .
  qed
  show ?thesis
    unfolding Let_def using c1 c2 gate by (simp add: counts length_by_state)
qed

section \<open>A scope nobody serves or reviews\<close>

text \<open>
  The comment in \<open>judgeScopeReachability\<close> says a withdrawn version must not read as waiting
  for a review \<open>that is not happening\<close>. Only decisions against a version are looked at: a
  version that a later promotion replaced stays validated and undecided, so a scope that only
  it carries reads as pending approval, although the review queue of its Card is empty.
\<close>

definition replaced_db :: registry_db where
  "replaced_db = empty_db\<lparr>
     cards_table := [\<lparr>cr_cardId = ''c'', cr_meaning = sample_meaning, cr_policy = sample_policy,
                      cr_currentVersionId = Some ''v2''\<rparr>],
     versions_table := [\<lparr>vr_version = scoped_version ''v1'' [table_scope], vr_appendOrder = 1\<rparr>,
                        \<lparr>vr_version = scoped_version ''v2'' [], vr_appendOrder = 2\<rparr>],
     events_table :=
       [\<lparr>er_event = \<lparr>le_id = ''e1'', le_cardId = ''c'', le_occurredAt = ''t1'',
          le_body = CardVersionPromoted ''v1'' None ''op'' None\<rparr>, er_appendOrder = 1\<rparr>,
        \<lparr>er_event = \<lparr>le_id = ''e2'', le_cardId = ''c'', le_occurredAt = ''t2'',
          le_body = CardVersionPromoted ''v2'' (Some ''v1'') ''op'' None\<rparr>, er_appendOrder = 2\<rparr>]\<rparr>"

lemma replaced_scope_reads_as_waiting:
  "(case buildReachabilityReport (\<lambda>_. None) (\<lambda>_. None) (\<lambda>_. None) ''now'' replaced_db of
      Inl _ \<Rightarrow> False | Inr report \<Rightarrow> map sr_state (rr_scopes report) = [PendingApproval]) \<and>
   (case findCard replaced_db ''c'' of
      None \<Rightarrow> False
    | Some crd \<Rightarrow> pendingReviewCardVersionIds (cc_versions crd) (readLifecycleEvents replaced_db ''c'') = [])"
  by code_simp

end
