(* ===== verification/Registry_Database.thy ===== *)
theory Registry_Database
  imports Prelude
begin

text \<open>
  The ownership protocol of registry.db:
  \<open>packages/registry-lifecycle/src/infrastructure/sqlite/registry-database.ts\<close>. A SQLite file
  is what the protocol reads and writes of it: the two header numbers, the tables with
  their columns as \<open>PRAGMA table_info\<close> lists them, the index names, the identity row, the
  journal mode, and what the two integrity pragmas would answer.
\<close>

section \<open>Files\<close>

datatype identity_code = IdentityMismatch | UnidentifiedSchema | SchemaInvalid | SchemaNewer

datatype database_error =
    RegistryDatabaseIdentityError identity_code
  | DatabaseTypeError string
  | SqliteError string

record column =
  col_name :: string
  col_type :: string
  col_notnull :: nat
  col_pk :: nat

record db_file =
  df_applicationId :: "int option"
  df_userVersion :: "int option"
  df_tables :: "(string \<times> column list) list"
  df_objects :: "string list"
  df_metadata :: "(string \<times> string) option"
  df_wal :: bool
  df_walAvailable :: bool
  df_quickCheckOk :: bool
  df_foreignKeysOk :: bool

record open_options =
  oo_location :: string
  oo_stateNamespaceId :: string
  oo_securityDomain :: string

definition REGISTRY_DATABASE_APPLICATION_ID :: int where
  "REGISTRY_DATABASE_APPLICATION_ID = 0x43545852"

definition REGISTRY_DATABASE_SCHEMA_VERSION :: int where
  "REGISTRY_DATABASE_SCHEMA_VERSION = 1"

definition text_column :: "string \<Rightarrow> nat \<Rightarrow> column" where
  "text_column name notnull = \<lparr>col_name = name, col_type = ''TEXT'', col_notnull = notnull, col_pk = 0\<rparr>"

definition integer_column :: "string \<Rightarrow> nat \<Rightarrow> column" where
  "integer_column name notnull = \<lparr>col_name = name, col_type = ''INTEGER'', col_notnull = notnull, col_pk = 0\<rparr>"

definition text_key :: "string \<Rightarrow> column" where
  "text_key name = \<lparr>col_name = name, col_type = ''TEXT'', col_notnull = 0, col_pk = 1\<rparr>"

definition EXPECTED_SCHEMA :: "(string \<times> column list) list" where
  "EXPECTED_SCHEMA =
     [(''registry_metadata'',
        [\<lparr>col_name = ''singleton'', col_type = ''INTEGER'', col_notnull = 0, col_pk = 1\<rparr>,
         text_column ''state_namespace_id'' 1, text_column ''security_domain'' 1]),
      (''cards'',
        [text_key ''card_id'', text_column ''description'' 1, text_column ''representative_questions'' 1,
         text_column ''aliases'' 1, text_column ''keywords'' 1, integer_column ''sensitive'' 1,
         text_column ''allowed_usage'' 1, text_column ''current_version_id'' 0]),
      (''card_versions'',
        [text_key ''version_id'', text_column ''card_id'' 1, text_column ''publication_id'' 1,
         text_column ''observation_id'' 1, text_column ''knowledge_unit_id'' 1, text_column ''scopes'' 1,
         text_column ''validation_state'' 1, text_column ''created_at'' 1, integer_column ''append_order'' 1,
         text_column ''meaning'' 0, text_column ''grounding'' 0, text_column ''change_from_previous'' 0]),
      (''lifecycle_events'',
        [text_key ''event_id'', text_column ''card_id'' 1, text_column ''kind'' 1,
         text_column ''occurred_at'' 1, text_column ''payload'' 1, integer_column ''append_order'' 1]),
      (''consumer_checkpoints'',
        [text_key ''publication_id'', text_column ''source_id'' 1, text_column ''processed_at'' 1]),
      (''consumer_source_cursors'',
        [text_key ''source_id'', text_column ''publication_id'' 1, text_column ''processed_at'' 1])]"

section \<open>The checks\<close>

datatype claimable_state = EmptyFile | RegistryFile

definition validateRegistryDatabaseOptions :: "open_options \<Rightarrow> database_error + unit" where
  "validateRegistryDatabaseOptions options =
     (if trim (oo_location options) = []
      then Inl (DatabaseTypeError ''Registry database location is invalid'')
      else if trim (oo_stateNamespaceId options) = [] \<or> trim (oo_securityDomain options) = []
      then Inl (DatabaseTypeError ''Registry database identity is invalid'')
      else Inr ())"

definition readApplicationId :: "db_file \<Rightarrow> database_error + int" where
  "readApplicationId f = (case df_applicationId f of
     None \<Rightarrow> Inl (RegistryDatabaseIdentityError SchemaInvalid) | Some n \<Rightarrow> Inr n)"

definition readSchemaVersion :: "db_file \<Rightarrow> database_error + int" where
  "readSchemaVersion f = (case df_userVersion f of
     None \<Rightarrow> Inl (RegistryDatabaseIdentityError SchemaInvalid)
   | Some n \<Rightarrow> if n < 0 then Inl (RegistryDatabaseIdentityError SchemaInvalid) else Inr n)"

text \<open>
  \<open>SELECT ... FROM sqlite_schema WHERE name NOT LIKE 'sqlite_%'\<close>: in a \<open>LIKE\<close> pattern the
  underscore stands for any one character and letters match in either case.
\<close>

definition like_sqlite_prefix :: "string \<Rightarrow> bool" where
  "like_sqlite_prefix name \<longleftrightarrow> to_lower (take 6 name) = ''sqlite'' \<and> 7 \<le> length name"

definition schema_objects :: "db_file \<Rightarrow> string list" where
  "schema_objects f = filter (\<lambda>name. \<not> like_sqlite_prefix name) (map fst (df_tables f) @ df_objects f)"

definition assertDatabaseClaimable :: "db_file \<Rightarrow> database_error + claimable_state" where
  "assertDatabaseClaimable f =
     res_bind (readApplicationId f) (\<lambda>applicationId.
     if applicationId = REGISTRY_DATABASE_APPLICATION_ID then Inr RegistryFile
     else if applicationId \<noteq> 0 then Inl (RegistryDatabaseIdentityError IdentityMismatch)
     else if schema_objects f \<noteq> [] then Inl (RegistryDatabaseIdentityError UnidentifiedSchema)
     else Inr EmptyFile)"

definition assertSchemaNotNewer :: "db_file \<Rightarrow> database_error + unit" where
  "assertSchemaNotNewer f =
     res_bind (readSchemaVersion f) (\<lambda>v.
     if REGISTRY_DATABASE_SCHEMA_VERSION < v then Inl (RegistryDatabaseIdentityError SchemaNewer) else Inr ())"

definition table_info :: "db_file \<Rightarrow> string \<Rightarrow> column list" where
  "table_info f table = (case map_of (df_tables f) table of None \<Rightarrow> [] | Some cols \<Rightarrow> cols)"

definition assertRecordedIdentity :: "db_file \<Rightarrow> string \<Rightarrow> string \<Rightarrow> database_error + unit" where
  "assertRecordedIdentity f stateNamespaceId securityDomain =
     (let columns = map col_name (table_info f ''registry_metadata'') in
      if \<not> (''singleton'' \<in> set columns \<and> ''state_namespace_id'' \<in> set columns \<and> ''security_domain'' \<in> set columns)
      then Inl (RegistryDatabaseIdentityError SchemaInvalid)
      else (case df_metadata f of
         None \<Rightarrow> Inl (RegistryDatabaseIdentityError SchemaInvalid)
       | Some (namespace, domain) \<Rightarrow>
           (if namespace \<noteq> stateNamespaceId \<or> domain \<noteq> securityDomain
            then Inl (RegistryDatabaseIdentityError IdentityMismatch) else Inr ())))"

text \<open>\<open>toUpperCase\<close> on the ASCII letters a column type is written with.\<close>

definition to_upper_ascii :: "string \<Rightarrow> string" where
  "to_upper_ascii s = map (\<lambda>c. if is_lower_char c then char_of (code_unit c - 32) else c) s"

definition normalized_column :: "column \<Rightarrow> column" where
  "normalized_column c = c\<lparr>col_type := to_upper_ascii (col_type c)\<rparr>"

definition assertExpectedSchema :: "db_file \<Rightarrow> database_error + unit" where
  "assertExpectedSchema f =
     (if list_all (\<lambda>(table, expected). map normalized_column (table_info f table) = expected) EXPECTED_SCHEMA
      then Inr () else Inl (RegistryDatabaseIdentityError SchemaInvalid))"

definition assertHealthy :: "db_file \<Rightarrow> database_error + unit" where
  "assertHealthy f =
     (if \<not> df_quickCheckOk f \<or> \<not> df_foreignKeysOk f
      then Inl (RegistryDatabaseIdentityError SchemaInvalid) else Inr ())"

section \<open>Writing the header, the schema and the identity\<close>

definition configureDurability :: "db_file \<Rightarrow> database_error + db_file" where
  "configureDurability f =
     (if df_walAvailable f then Inr (f\<lparr>df_wal := True\<rparr>)
      else Inl (RegistryDatabaseIdentityError SchemaInvalid))"

definition add_missing_column :: "string \<Rightarrow> column list \<Rightarrow> column list" where
  "add_missing_column name cols =
     (if name \<in> set (map col_name cols) then cols else cols @ [text_column name 0])"

definition ensureGroundingColumns :: "db_file \<Rightarrow> db_file" where
  "ensureGroundingColumns f =
     (case map_of (df_tables f) ''card_versions'' of
        None \<Rightarrow> f
      | Some cols \<Rightarrow>
          (let present = map col_name cols;
               added = filter (\<lambda>name. name \<notin> set present) [''meaning'', ''grounding'', ''change_from_previous'']
           in f\<lparr>df_tables := AList.update ''card_versions'' (fold add_missing_column added cols) (df_tables f)\<rparr>))"

definition create_table_if_missing :: "string \<times> column list \<Rightarrow> db_file \<Rightarrow> db_file" where
  "create_table_if_missing = (\<lambda>(name, cols) f.
     if map_of (df_tables f) name = None then f\<lparr>df_tables := df_tables f @ [(name, cols)]\<rparr> else f)"

definition create_index_if_missing :: "string \<Rightarrow> string \<Rightarrow> string list \<Rightarrow> db_file \<Rightarrow> database_error + db_file" where
  "create_index_if_missing name table cols f =
     (if name \<in> set (df_objects f) then Inr f
      else if set cols \<subseteq> set (map col_name (table_info f table))
      then Inr (f\<lparr>df_objects := df_objects f @ [name]\<rparr>)
      else Inl (SqliteError (''table '' @ table @ '' has no such column'')))"

definition migrate :: "db_file \<Rightarrow> database_error + db_file" where
  "migrate f =
     (let f1 = fold create_table_if_missing (take 3 EXPECTED_SCHEMA) (ensureGroundingColumns f) in
      res_bind (create_index_if_missing ''card_versions_by_card'' ''card_versions'' [''card_id'', ''append_order''] f1) (\<lambda>f2.
      let f3 = create_table_if_missing (EXPECTED_SCHEMA ! 3) f2 in
      res_bind (create_index_if_missing ''lifecycle_events_by_card'' ''lifecycle_events'' [''card_id'', ''append_order''] f3) (\<lambda>f4.
      Inr (fold create_table_if_missing (drop 4 EXPECTED_SCHEMA) f4))))"

text \<open>\<open>INSERT ... ON CONFLICT (singleton) DO NOTHING\<close>\<close>

definition recordIdentity :: "string \<Rightarrow> string \<Rightarrow> db_file \<Rightarrow> db_file" where
  "recordIdentity stateNamespaceId securityDomain f =
     (case df_metadata f of
        None \<Rightarrow> f\<lparr>df_metadata := Some (stateNamespaceId, securityDomain)\<rparr>
      | Some _ \<Rightarrow> f)"

definition claimSchemaVersion :: "db_file \<Rightarrow> database_error + db_file" where
  "claimSchemaVersion f =
     res_bind (readSchemaVersion f) (\<lambda>v.
     Inr (if v \<noteq> REGISTRY_DATABASE_SCHEMA_VERSION
          then f\<lparr>df_userVersion := Some REGISTRY_DATABASE_SCHEMA_VERSION\<rparr> else f))"

definition claimDatabaseApplicationId :: "db_file \<Rightarrow> database_error + db_file" where
  "claimDatabaseApplicationId f =
     res_bind (readApplicationId f) (\<lambda>a.
     let f' = (if a = 0 then f\<lparr>df_applicationId := Some REGISTRY_DATABASE_APPLICATION_ID\<rparr> else f) in
     res_bind (readApplicationId f') (\<lambda>a'.
     if a' \<noteq> REGISTRY_DATABASE_APPLICATION_ID
     then Inl (RegistryDatabaseIdentityError IdentityMismatch) else Inr f'))"

text \<open>The body of the transaction; an error rolls the file back to what it was before.\<close>

definition claimTransaction :: "claimable_state \<Rightarrow> open_options \<Rightarrow> db_file \<Rightarrow> database_error + db_file" where
  "claimTransaction state options f =
     res_bind (migrate f) (\<lambda>f1.
     let f2 = (if state = EmptyFile
               then recordIdentity (oo_stateNamespaceId options) (oo_securityDomain options) f1 else f1) in
     res_bind (claimSchemaVersion f2) (\<lambda>f3.
     res_bind (claimDatabaseApplicationId f3) (\<lambda>f4.
     res_bind (assertExpectedSchema f4) (\<lambda>_. Inr f4))))"

section \<open>Opening and inspecting\<close>

text \<open>The checks before the first write.\<close>

definition openPrechecks :: "open_options \<Rightarrow> db_file \<Rightarrow> database_error + claimable_state" where
  "openPrechecks options f =
     res_bind (validateRegistryDatabaseOptions options) (\<lambda>_.
     res_bind (assertDatabaseClaimable f) (\<lambda>state.
     res_bind (assertSchemaNotNewer f) (\<lambda>_.
     res_bind (if state = RegistryFile
               then assertRecordedIdentity f (oo_stateNamespaceId options) (oo_securityDomain options)
               else Inr ()) (\<lambda>_. Inr state))))"

text \<open>The outcome, and the file as the call leaves it.\<close>

definition openRegistryDatabase :: "open_options \<Rightarrow> db_file \<Rightarrow> (database_error + unit) \<times> db_file" where
  "openRegistryDatabase options f =
     (case openPrechecks options f of
        Inl e \<Rightarrow> (Inl e, f)
      | Inr state \<Rightarrow>
          (case (if oo_location options \<noteq> '':memory:'' then configureDurability f else Inr f) of
             Inl e \<Rightarrow> (Inl e, f)
           | Inr f0 \<Rightarrow>
               (case claimTransaction state options f0 of
                  Inl e \<Rightarrow> (Inl e, f0)
                | Inr f1 \<Rightarrow> (assertHealthy f1, f1))))"

datatype inspection_problem = Problem identity_code | SchemaOlder

datatype inspection =
    Missing
  | Compatible int
  | Incompatible inspection_problem
  | Unreadable string

definition inspection_checks :: "open_options \<Rightarrow> db_file \<Rightarrow> database_error + inspection" where
  "inspection_checks options f =
     res_bind (assertDatabaseClaimable f) (\<lambda>state.
     if state \<noteq> RegistryFile then Inl (RegistryDatabaseIdentityError UnidentifiedSchema) else
     res_bind (readSchemaVersion f) (\<lambda>schemaVersion.
     if REGISTRY_DATABASE_SCHEMA_VERSION < schemaVersion then Inl (RegistryDatabaseIdentityError SchemaNewer)
     else if schemaVersion < REGISTRY_DATABASE_SCHEMA_VERSION then Inr (Incompatible SchemaOlder) else
     res_bind (assertExpectedSchema f) (\<lambda>_.
     res_bind (assertRecordedIdentity f (oo_stateNamespaceId options) (oo_securityDomain options)) (\<lambda>_.
     res_bind (assertHealthy f) (\<lambda>_. Inr (Compatible REGISTRY_DATABASE_SCHEMA_VERSION))))))"

definition inspectRegistryDatabase :: "open_options \<Rightarrow> db_file option \<Rightarrow> database_error + inspection" where
  "inspectRegistryDatabase options file =
     res_bind (validateRegistryDatabaseOptions options) (\<lambda>_.
     case file of
       None \<Rightarrow> Inr Missing
     | Some f \<Rightarrow>
         (if oo_location options = '':memory:'' then Inr Missing
          else (case inspection_checks options f of
             Inr r \<Rightarrow> Inr r
           | Inl (RegistryDatabaseIdentityError code) \<Rightarrow> Inr (Incompatible (Problem code))
           | Inl (SqliteError detail) \<Rightarrow> Inr (Unreadable detail)
           | Inl (DatabaseTypeError detail) \<Rightarrow> Inr (Unreadable detail))))"

end
