(* ===== verification/Registry_Overlap.thy ===== *)
theory Registry_Overlap
  imports Registry_Safety
begin

text \<open>
  Registry_Safety makes a use case one step: what happens when no other use case interleaves with it. In the source a use case
  reads through several awaits (an intake even waits for the meaning generator after it looked for the claim) and
  writes in one transaction at its end, and \<open>registry-database.ts\<close> says that the CLI and a running daemon both open the
  file. Here the intake and the approval are cut between their reads and their write, and the write meets a database other than
  the one that was read. What was stored stays stored; the pointer and the claim are not protected.
\<close>

section \<open>A use case as its reads and one write\<close>

definition intake_reads ::
    "'s intake_ports \<Rightarrow> env \<Rightarrow> supplies \<Rightarrow> 's \<Rightarrow> string \<Rightarrow> card_policy \<Rightarrow>
     registry_error + (claim_result \<times> (publication_intake \<times> string) option \<times> supplies)" where
  "intake_reads ports env sp s publicationId policy =
     res_bind (claimPublication ports env sp s publicationId) (\<lambda>(claimed, sp1).
     case claimed of
       Claimed _ cursor cardVersions \<Rightarrow>
         (case findById_port ports publicationId of
            None \<Rightarrow> Inl (PublicationNotFoundError (''publication '' @ publicationId @ '' was not found''))
          | Some p \<Rightarrow>
              res_bind (addClaimedVersions ports env s policy cardVersions ([], sp1)) (\<lambda>draft1.
              let (draft, sp2) = applyImpacts ports env s p draft1;
                  (processedAt, sp3) = now env sp2
              in Inr (claimed, Some (\<lparr>pi_cards = draft_entries draft, pi_cursor = cursor\<rparr>, processedAt), sp3)))
     | _ \<Rightarrow> Inr (claimed, None, sp1))"

definition intake_write ::
    "'s intake_ports \<Rightarrow> 's \<Rightarrow> claim_result \<times> (publication_intake \<times> string) option \<times> supplies \<Rightarrow>
     registry_error + (claim_result \<times> 's \<times> supplies)" where
  "intake_write ports s = (\<lambda>(claimed, written, sp). case written of
     None \<Rightarrow> Inr (claimed, s, sp)
   | Some (intake, processedAt) \<Rightarrow>
       res_bind (commit_port ports s intake processedAt) (\<lambda>s'. Inr (claimed, s', sp)))"

lemma intake_is_reads_then_write:
  "intakePublication ports env sp s pid policy =
     res_bind (intake_reads ports env sp s pid policy) (intake_write ports s)"
proof (cases "claimPublication ports env sp s pid")
  case (Inl e)
  then show ?thesis by (simp add: intakePublication_def intake_reads_def)
next
  case (Inr r)
  obtain claimed sp1 where r: "r = (claimed, sp1)" by (metis prod.exhaust)
  show ?thesis
  proof (cases claimed)
    case (Claimed q cursor cvs)
    show ?thesis
    proof (cases "findById_port ports pid")
      case None
      then show ?thesis by (simp add: intakePublication_def intake_reads_def Inr r Claimed)
    next
      case (Some p)
      then show ?thesis
        by (cases "addClaimedVersions ports env s policy cvs ([], sp1)")
          (simp_all add: intakePublication_def intake_reads_def intake_write_def Inr r Claimed Let_def case_prod_beta)
    qed
  qed (simp_all add: intakePublication_def intake_reads_def intake_write_def Inr r)
qed

definition approve_reads ::
    "'s card_store \<Rightarrow> env \<Rightarrow> supplies \<Rightarrow> 's \<Rightarrow> string \<Rightarrow> string \<Rightarrow> operator_decision \<Rightarrow>
     registry_error + (context_card \<times> lifecycle_event \<times> supplies)" where
  "approve_reads cards env sp s cardId versionId decision =
     res_bind (loadCard cards s cardId) (\<lambda>c.
     let previousVersionId = vh_currentVersionId (cc_versions c) in
     res_bind (promoteCardVersion (cc_versions c) versionId) (\<lambda>versions.
     let promoted = promotedCard c versions versionId in
     res_bind (refuseOversizedCatalog cards s promoted) (\<lambda>_.
     let (eventId, sp1) = nextId env sp;
         (occurredAt, sp2) = now env sp1
     in Inr (promoted,
          \<lparr>le_id = eventId, le_cardId = cardId, le_occurredAt = occurredAt,
           le_body = CardVersionPromoted versionId previousVersionId (od_decidedBy decision) (od_note decision)\<rparr>, sp2))))"

lemma approve_is_reads_then_save:
  "approveCardVersion cards env sp s k i d =
     res_bind (approve_reads cards env sp s k i d) (\<lambda>(c, event, sp'). saveDecision cards s c event sp')"
proof (cases "loadCard cards s k")
  case (Inr c)
  show ?thesis
  proof (cases "promoteCardVersion (cc_versions c) i")
    case (Inr h)
    then show ?thesis
      by (cases "refuseOversizedCatalog cards s (promotedCard c h i)")
        (simp_all add: approveCardVersion_def approve_reads_def \<open>loadCard cards s k = Inr c\<close> Let_def nextId_def now_def)
  qed (simp add: approveCardVersion_def approve_reads_def Inr Let_def)
qed (simp add: approveCardVersion_def approve_reads_def)

section \<open>A write on a database that has moved on\<close>

text \<open>
  The Card is written as it was read and changed: its history is what is stored now and then the versions that are not stored
  yet, so nothing is lost, but the pointer is the one of the Card written, whatever the stored one is.
\<close>

lemma late_write:
  assumes inv: "db_inv db" and wf: "card_wf c" and stored: "writeCard db c es = Inr db'"
  shows "history_of db' (cc_id c) = history_of db (cc_id c) @
      filter (\<lambda>v. cv_id v \<notin> version_ids db) (vh_versions (cc_versions c))"
    and "current_of db' (cc_id c) = vh_currentVersionId (cc_versions c)"
proof -
  let ?vs = "vh_versions (cc_versions c)" and ?cards = "upsert_row cr_cardId (card_row_of c) (cards_table db)"
  let ?db1 = "db\<lparr>cards_table := ?cards\<rparr>"
  have w: "vh_cardId (cc_versions c) = cc_id c" "distinct (map cv_id ?vs)" "\<forall>v \<in> set ?vs. cv_cardId v = cc_id c"
    using wf by (auto simp: card_wf_def history_wf_def)
  have keys: "cr_cardId ` set ?cards = insert (cc_id c) (cr_cardId ` set (cards_table db))"
    by (simp add: upsert_keys card_row_of_def)
  obtain rows where rows:
    "insert_versions ?vs (nextAppendOrder (map vr_appendOrder (versions_table ?db1))) ?db1 =
       Inr (?db1\<lparr>versions_table := versions_table ?db1 @ rows\<rparr>)"
    "map vr_version rows = filter (\<lambda>v. cv_id v \<notin> version_ids ?db1) ?vs"
    "sorted_wrt (<) (map vr_appendOrder (versions_table ?db1 @ rows))"
    using insert_versions_spec [of ?vs ?db1 "nextAppendOrder (map vr_appendOrder (versions_table ?db1))"]
      w keys nextAppendOrder_greater [of _ "map vr_appendOrder (versions_table db)"] db_invD(3) [OF inv]
    by auto
  have tables: "cards_table db' = ?cards" "versions_table db' = versions_table db @ rows"
    using stored rows(1) by (auto simp: writeCard_def Let_def appendLifecycleEvents_def)
  have new: "map vr_version rows = filter (\<lambda>v. cv_id v \<notin> version_ids db) ?vs"
    using rows(2) by (simp add: version_ids_def)
  have "\<forall>v \<in> set (map vr_version rows). cv_cardId v = cc_id c" unfolding new using w(3) by simp
  then have own: "filter (\<lambda>r. cv_cardId (vr_version r) = cc_id c) rows = rows" by (auto intro: filter_True)
  have order: "versions_in_order db' = versions_table db @ rows"
    using rows(3) by (simp add: versions_in_order_def tables sort_key_strict)
  have found: "findCard db' (cc_id c) = Some \<lparr>cc_id = cc_id c, cc_meaning = cc_meaning c, cc_policy = cc_policy c,
      cc_versions = \<lparr>vh_cardId = cc_id c, vh_versions = card_versions db (cc_id c) @ map vr_version rows,
        vh_currentVersionId = vh_currentVersionId (cc_versions c)\<rparr>\<rparr>"
    by (simp add: findCard_def tables find_upsert card_row_of_def order own card_versions_def)
  have "history_of db (cc_id c) = card_versions db (cc_id c)"
    by (simp add: history_of_def stored_versions_findCard [OF inv])
  then show "history_of db' (cc_id c) = history_of db (cc_id c) @ filter (\<lambda>v. cv_id v \<notin> version_ids db) ?vs"
    and "current_of db' (cc_id c) = vh_currentVersionId (cc_versions c)"
    using found by (simp_all add: new)
qed

lemma late_commit:
  assumes "db_inv db" and "card_wf c"
    and "commitIntake db \<lparr>pi_cards = [\<lparr>ik_card = c, ik_events = es\<rparr>], pi_cursor = cursor\<rparr> t = Inr db'"
  shows "history_of db' (cc_id c) = history_of db (cc_id c) @
      filter (\<lambda>v. cv_id v \<notin> version_ids db) (vh_versions (cc_versions c))"
    and "current_of db' (cc_id c) = vh_currentVersionId (cc_versions c)"
proof -
  obtain d where d: "writeCard db c es = Inr d" and db': "db' = writeConsumption d cursor t"
    using assms(3) by (auto simp: commitIntake_def elim!: res_bindE)
  have order: "versions_in_order (writeConsumption d cursor t) = versions_in_order d"
    and cards: "cards_table (writeConsumption d cursor t) = cards_table d"
    by (simp_all add: versions_in_order_def writeConsumption_def)
  have same: "findCard db' k = findCard d k" for k by (simp add: db' findCard_def order cards split: option.split)
  show "history_of db' (cc_id c) = history_of db (cc_id c) @
      filter (\<lambda>v. cv_id v \<notin> version_ids db) (vh_versions (cc_versions c))"
    and "current_of db' (cc_id c) = vh_currentVersionId (cc_versions c)"
    using late_write [OF assms(1,2) d] by (simp_all add: history_of_def current_of_def same)
qed

section \<open>What an overlap can undo\<close>

text \<open>
  An operator disables a Card while an intake of one of its units, which read the Card before, has not committed: the
  commit puts the Card back into service. \<open>extended\<close> is the Card the intake drafts.
\<close>

lemma overtaken_withdrawal:
  assumes inv: "db_inv db" and card: "findCard db (cv_cardId v) = Some c" and fresh: "cv_id v \<notin> version_ids db"
    and off: "disableCard sqlite_card_store env sp db (cv_cardId v) d = Inr (c1, db1, sp1)"
    and late: "commitIntake db1 \<lparr>pi_cards = [\<lparr>ik_card = extended sqlite_card_store db policy v, ik_events = es\<rparr>],
        pi_cursor = cursor\<rparr> t = Inr db2"
  shows "current_of db1 (cv_cardId v) = None \<and> current_of db2 (cv_cardId v) = current_of db (cv_cardId v)"
proof -
  obtain c0 where "findCard db (cv_cardId v) = Some c0"
    and c1: "c1 = withCardVersions c0 (withdrawCurrentVersion (cc_versions c0))" and r: "replaced db (cv_cardId v) c1 db1"
    using disable_sqlite [OF inv off] by blast
  have gone: "current_of db1 (cv_cardId v) = None"
    using replaced_current [OF r, of "cv_cardId v"] by (simp add: c1 withdrawCurrentVersion_def)
  have "cc_id (extended sqlite_card_store db policy v) = cv_cardId v" "card_wf (extended sqlite_card_store db policy v)"
    using intake.extended_facts [where s = db and v = v and policy = policy, simplified look_sqlite, OF inv fresh] by (auto simp: writable_def)
  then show ?thesis
    using late_commit(2) [OF _ _ late] r gone extended_current [of db policy v] by (simp add: replaced_def)
qed

text \<open>
  Two intakes of the same Publication that both read before either commits both claim it: the claim record keeps the
  second row out, but the history of the Card gains a version from each.
\<close>

lemma overlapping_intakes:
  assumes inv: "db_inv db" and same: "cv_cardId w = cv_cardId v" and differ: "cv_id w \<noteq> cv_id v"
    and fresh: "cv_id v \<notin> version_ids db" "cv_id w \<notin> version_ids db"
    and one: "commitIntake db \<lparr>pi_cards = [\<lparr>ik_card = extended sqlite_card_store db policy v, ik_events = es\<rparr>],
        pi_cursor = cursor\<rparr> t = Inr db1"
    and two: "commitIntake db1 \<lparr>pi_cards = [\<lparr>ik_card = extended sqlite_card_store db policy w, ik_events = es'\<rparr>],
        pi_cursor = cursor\<rparr> t' = Inr db2"
  shows "map cv_id (history_of db2 (cv_cardId v)) = map cv_id (history_of db (cv_cardId v)) @ [cv_id v, cv_id w]"
proof -
  let ?a = "extended sqlite_card_store db policy v" and ?b = "extended sqlite_card_store db policy w"
  note fa = intake.extended_facts [where s = db and v = v and policy = policy, simplified look_sqlite, OF inv fresh(1)]
  note fb = intake.extended_facts [where s = db and v = w and policy = policy, simplified look_sqlite, OF inv fresh(2)]
  have wf: "card_wf ?a" "card_wf ?b" using fa(2) fb(2) by (auto simp: writable_def)
  obtain d where save: "saveCard db ?a es = Inr d" and db1: "db1 = writeConsumption d cursor t"
    using one by (auto simp: commitIntake_def saveCard_def elim!: res_bindE)
  have w: "writable (findCard db (cc_id ?a)) (version_ids db) ?a" using fa(1,2) by simp
  have inv1: "db_inv db1" unfolding db1 by (rule db_inv_writeConsumption) (rule saveCard_spec(1) [OF inv w save])
  have ids1: "version_ids db1 = version_ids db \<union> cv_id ` set (vh_versions (cc_versions ?a))"
    using saveCard_spec(3) [OF inv w save] by (simp add: db1 version_ids_def writeConsumption_def)
  have stored: "\<forall>x \<in> set (stored_versions (findCard db (cv_cardId v))). cv_id x \<in> version_ids db"
    using card_ids_known [of db "cv_cardId v"] by (auto simp: stored_versions_findCard [OF inv])
  have h1: "history_of db1 (cv_cardId v) = history_of db (cv_cardId v) @
      [withChangeComparison (base_card sqlite_card_store db policy v) v]"
    using late_commit(1) [OF inv wf(1) one] stored fresh(1) by (simp add: fa(1,3) filter_empty_conv)
  have "history_of db2 (cv_cardId v) = history_of db1 (cv_cardId v) @
      [withChangeComparison (base_card sqlite_card_store db policy w) w]"
    using late_commit(1) [OF inv1 wf(2) two] stored fresh differ
    by (simp add: fa(3) fb(1,3) same ids1 filter_empty_conv image_Un) (auto simp: filter_empty_conv)
  then show ?thesis by (simp add: h1)
qed

end
