(* ===== verification/Request_Deadline.thy ===== *)
theory Request_Deadline
  imports Runtime_Profile
begin

text \<open>
  One request's time budget: apps/contextctl-daemon/src/runtime/deadline.ts. A method that reads the
  clock takes the instant it reads, in milliseconds; whether the caller gave up is an argument
  too. The stages of a race and the signals of a stage are folded over the events that reach
  them: the timer, the caller's abort, the end of the work, the disposal.
\<close>

datatype deadline_error = StageDeadlineExceededError string | RequestDeadlineExceededError

record request_budget =
  rb_profile :: deadline_profile
  rb_startedAt :: rat

text \<open>The numbers of an accepted profile are finite.\<close>

definition millis :: "js_number \<Rightarrow> rat" where
  "millis x = (case x of Finite q \<Rightarrow> q | _ \<Rightarrow> 0)"

definition open_budget :: "deadline_profile \<Rightarrow> rat \<Rightarrow> rat option \<Rightarrow> request_budget" where
  "open_budget profile now startedAt = \<lparr>rb_profile = profile, rb_startedAt = or_else startedAt now\<rparr>"

section \<open>How much time is left\<close>

definition budget_elapsedMs :: "request_budget \<Rightarrow> rat \<Rightarrow> rat" where
  "budget_elapsedMs b now = max 0 (now - rb_startedAt b)"

definition remainingMs :: "request_budget \<Rightarrow> rat \<Rightarrow> rat" where
  "remainingMs b now = max 0 (millis (dp_totalMs (rb_profile b)) - budget_elapsedMs b now)"

definition workableMs :: "request_budget \<Rightarrow> rat \<Rightarrow> rat" where
  "workableMs b now = max 0 (remainingMs b now - millis (dp_assemblyReserveMs (rb_profile b)))"

definition selectionMs :: "request_budget \<Rightarrow> rat \<Rightarrow> rat" where
  "selectionMs b now = min (millis (dp_selectionMs (rb_profile b))) (workableMs b now)"

definition managedSearchMs :: "request_budget \<Rightarrow> rat \<Rightarrow> rat" where
  "managedSearchMs b now = min (millis (dp_managedSearchCeilingMs (rb_profile b))) (workableMs b now)"

definition assertCanAssemble :: "request_budget \<Rightarrow> rat \<Rightarrow> bool \<Rightarrow> deadline_error + unit" where
  "assertCanAssemble b now cancelled =
     (if cancelled \<or> remainingMs b now \<le> 0 then Inl RequestDeadlineExceededError else Inr ())"

definition assertWorkable :: "request_budget \<Rightarrow> rat \<Rightarrow> bool \<Rightarrow> string \<Rightarrow> deadline_error + unit" where
  "assertWorkable b now cancelled stage =
     (if cancelled then Inl RequestDeadlineExceededError
      else if workableMs b now \<le> 0 then Inl (StageDeadlineExceededError stage)
      else Inr ())"

section \<open>Racing a stage\<close>

text \<open>A stage ends with its own result, with the rejection of its work, or with a deadline.\<close>

datatype ('v, 'e) stage_end = Stage_value 'v | Stage_rejected 'e | Stage_failed deadline_error

datatype ('v, 'e) race_event = Timer_fires | Caller_aborts | Work_resolves 'v | Work_rejects 'e

record ('v, 'e) race =
  rc_settled :: "('v, 'e) stage_end option"
  rc_timer :: "rat option"
  rc_listening :: bool

definition race_settle :: "('v, 'e) stage_end \<Rightarrow> ('v, 'e) race \<Rightarrow> ('v, 'e) race" where
  "race_settle r st =
     (if rc_settled st \<noteq> None then st
      else \<lparr>rc_settled = Some r, rc_timer = None, rc_listening = False\<rparr>)"

fun race_step :: "string \<Rightarrow> ('v, 'e) race_event \<Rightarrow> ('v, 'e) race \<Rightarrow> ('v, 'e) race" where
  "race_step stage Timer_fires st =
     (if rc_timer st = None then st else race_settle (Stage_failed (StageDeadlineExceededError stage)) st)"
| "race_step stage Caller_aborts st =
     (if rc_listening st then race_settle (Stage_failed RequestDeadlineExceededError) st else st)"
| "race_step stage (Work_resolves v) st = race_settle (Stage_value v) st"
| "race_step stage (Work_rejects e) st = race_settle (Stage_rejected e) st"

text \<open>
  The caller is asked three times: when the stage starts, when its listener has been attached, and by
  the listener afterwards.
\<close>

definition raceStage :: "string \<Rightarrow> rat \<Rightarrow> bool \<Rightarrow> bool \<Rightarrow> ('v, 'e) race" where
  "raceStage stage limitMs cancelled abortedMeanwhile =
     (if cancelled
      then \<lparr>rc_settled = Some (Stage_failed RequestDeadlineExceededError), rc_timer = None, rc_listening = False\<rparr>
      else if limitMs \<le> 0
      then \<lparr>rc_settled = Some (Stage_failed (StageDeadlineExceededError stage)), rc_timer = None, rc_listening = False\<rparr>
      else
        let st = \<lparr>rc_settled = None, rc_timer = Some limitMs, rc_listening = True\<rparr> in
        if abortedMeanwhile then race_step stage Caller_aborts st else st)"

definition race_run :: "string \<Rightarrow> ('v, 'e) race_event list \<Rightarrow> ('v, 'e) race \<Rightarrow> ('v, 'e) race" where
  "race_run stage events st = fold (race_step stage) events st"

section \<open>Signals\<close>

record stage_signal =
  sg_aborted :: "deadline_error option"
  sg_timer :: "rat option"
  sg_listening :: bool
  sg_disposed :: bool

datatype signal_event = Signal_timer deadline_error | Signal_caller | Signal_dispose

definition signal_abort :: "deadline_error \<Rightarrow> stage_signal \<Rightarrow> stage_signal" where
  "signal_abort e s = (if sg_aborted s \<noteq> None then s else s\<lparr>sg_aborted := Some e\<rparr>)"

fun signal_step :: "signal_event \<Rightarrow> stage_signal \<Rightarrow> stage_signal" where
  "signal_step (Signal_timer e) s = (if sg_timer s = None then s else signal_abort e (s\<lparr>sg_timer := None\<rparr>))"
| "signal_step Signal_caller s =
     (if sg_listening s then signal_abort RequestDeadlineExceededError (s\<lparr>sg_listening := False\<rparr>) else s)"
| "signal_step Signal_dispose s =
     (if sg_disposed s then s else s\<lparr>sg_disposed := True, sg_timer := None, sg_listening := False\<rparr>)"

definition spent_signal :: "deadline_error \<Rightarrow> stage_signal" where
  "spent_signal e = \<lparr>sg_aborted = Some e, sg_timer = None, sg_listening = False, sg_disposed = True\<rparr>"

definition armed_signal :: "rat \<Rightarrow> bool \<Rightarrow> stage_signal" where
  "armed_signal delay abortedMeanwhile =
     (let s = \<lparr>sg_aborted = None, sg_timer = Some delay, sg_listening = True, sg_disposed = False\<rparr> in
      if abortedMeanwhile then signal_abort RequestDeadlineExceededError s else s)"

definition totalSignal :: "request_budget \<Rightarrow> rat \<Rightarrow> bool \<Rightarrow> bool \<Rightarrow> stage_signal" where
  "totalSignal b now cancelled abortedMeanwhile =
     (if cancelled \<or> remainingMs b now \<le> 0 then spent_signal RequestDeadlineExceededError
      else armed_signal (remainingMs b now) abortedMeanwhile)"

definition stageSignal :: "rat \<Rightarrow> bool \<Rightarrow> stage_signal" where
  "stageSignal limitMs abortedMeanwhile =
     (if limitMs \<le> 0 then spent_signal (StageDeadlineExceededError ''managed_search'')
      else armed_signal limitMs abortedMeanwhile)"

section \<open>Laws\<close>

lemma race_settled_stays:
  "rc_settled st = Some r \<Longrightarrow> race_run stage events st = st"
proof (induction events arbitrary: st)
  case (Cons e es)
  then have "race_step stage e st = st" by (cases e) (simp_all add: race_settle_def)
  then show ?case using Cons by (simp add: race_run_def)
qed (simp add: race_run_def)

text \<open>The first event decides; a result that comes after it is dropped.\<close>

lemma race_first_event:
  assumes "0 < limitMs"
  shows "rc_settled (race_run stage (e # es) (raceStage stage limitMs False False)) =
    Some (case e of Timer_fires \<Rightarrow> Stage_failed (StageDeadlineExceededError stage)
      | Caller_aborts \<Rightarrow> Stage_failed RequestDeadlineExceededError
      | Work_resolves v \<Rightarrow> Stage_value v | Work_rejects x \<Rightarrow> Stage_rejected x)"
proof -
  let ?st = "raceStage stage limitMs False False :: ('a, 'b) race"
  obtain r where "rc_settled (race_step stage e ?st) = Some r" and
    "r = (case e of Timer_fires \<Rightarrow> Stage_failed (StageDeadlineExceededError stage)
      | Caller_aborts \<Rightarrow> Stage_failed RequestDeadlineExceededError
      | Work_resolves v \<Rightarrow> Stage_value v | Work_rejects x \<Rightarrow> Stage_rejected x)"
    using assms by (cases e) (simp_all add: raceStage_def race_settle_def)
  then show ?thesis using race_settled_stays [of "race_step stage e ?st" r stage es] by (simp add: race_run_def)
qed

lemma signal_reason_stays:
  "sg_aborted s = Some r \<Longrightarrow> sg_aborted (fold signal_step es s) = Some r"
proof (induction es arbitrary: s)
  case (Cons e es)
  have "sg_aborted (signal_step e s) = Some r"
    using Cons.prems by (cases e) (simp_all add: signal_abort_def)
  then show ?case using Cons.IH by simp
qed simp

section \<open>Budgets under an accepted profile\<close>

lemma workable_within:
  assumes "assertDaemonRuntimeProfile p = Inr u" and "rb_profile b = rp_deadlines p" and "rb_startedAt b \<le> now"
  shows "workableMs b now = max 0 (millis (dp_totalMs (rp_deadlines p)) - millis (dp_assemblyReserveMs (rp_deadlines p))
    - (now - rb_startedAt b))"
proof -
  obtain total selection reserve ceiling where d:
    "rp_deadlines p = \<lparr>dp_totalMs = whole total, dp_selectionMs = whole selection, dp_assemblyReserveMs = whole reserve,
       dp_managedSearchCeilingMs = whole ceiling\<rparr>"
    using accepted_deadlines [OF assms(1)] by metis
  have "(0 :: rat) \<le> of_nat reserve" by simp
  then show ?thesis using assms(2,3)
    by (auto simp: workableMs_def remainingMs_def budget_elapsedMs_def d millis_def whole_def max_def)
qed

text \<open>
  Spending a whole allowance leaves the reserve: a stage that starts with time to work and uses
  all it is allowed ends with at least the reserve left, and the answer can be assembled.
\<close>

lemma allowance_leaves_reserve:
  assumes "assertDaemonRuntimeProfile p = Inr u" and "rb_profile b = rp_deadlines p" and "rb_startedAt b \<le> now"
    and "assertWorkable b now False stage = Inr ()" and "0 \<le> used" and "used \<le> max (selectionMs b now) (managedSearchMs b now)"
  shows "millis (dp_assemblyReserveMs (rp_deadlines p)) \<le> remainingMs b (now + used) \<and>
    assertCanAssemble b (now + used) False = Inr ()"
proof -
  obtain total selection reserve ceiling where d:
    "rp_deadlines p = \<lparr>dp_totalMs = whole total, dp_selectionMs = whole selection, dp_assemblyReserveMs = whole reserve,
       dp_managedSearchCeilingMs = whole ceiling\<rparr>" and pos: "0 < reserve"
    using accepted_deadlines [OF assms(1)] by metis
  have w: "0 < workableMs b now" using assms(4) by (auto simp: assertWorkable_def split: if_splits)
  then have eq: "workableMs b now = of_nat total - of_nat reserve - (now - rb_startedAt b)"
    using workable_within [OF assms(1-3)] by (simp add: d millis_def whole_def max_def split: if_splits)
  have "used \<le> workableMs b now" using assms(6) by (auto simp: selectionMs_def managedSearchMs_def)
  then have "(of_nat reserve :: rat) \<le> of_nat total - (now + used - rb_startedAt b)" using eq by linarith
  moreover have "(0 :: rat) < of_nat reserve" using pos by simp
  ultimately show ?thesis using assms(2,3,5)
    by (auto simp: assertCanAssemble_def remainingMs_def budget_elapsedMs_def d millis_def whole_def max_def)
qed

text \<open>A fresh request may spend its whole selection stage and still search.\<close>

lemma selection_leaves_search:
  assumes "assertDaemonRuntimeProfile p = Inr u" and "rb_profile b = rp_deadlines p"
  shows "selectionMs b (rb_startedAt b) = millis (dp_selectionMs (rp_deadlines p)) \<and>
    0 < managedSearchMs b (rb_startedAt b + selectionMs b (rb_startedAt b))"
proof -
  obtain total selection reserve ceiling where d:
    "rp_deadlines p = \<lparr>dp_totalMs = whole total, dp_selectionMs = whole selection, dp_assemblyReserveMs = whole reserve,
       dp_managedSearchCeilingMs = whole ceiling\<rparr>" and pos: "0 < selection" "0 < ceiling" "selection + reserve < total"
    using accepted_deadlines [OF assms(1)] by metis
  have "(of_nat selection :: rat) + of_nat reserve < of_nat total"
    using pos(3) by (simp only: of_nat_add [symmetric] of_nat_less_iff)
  then have s: "selectionMs b (rb_startedAt b) = of_nat selection"
    using workable_within [OF assms, of "rb_startedAt b"] assms(2)
    by (simp add: selectionMs_def d millis_def whole_def)
  moreover have "workableMs b (rb_startedAt b + of_nat selection) = of_nat total - of_nat reserve - of_nat selection"
    using workable_within [OF assms, of "rb_startedAt b + of_nat selection"] \<open>of_nat selection + of_nat reserve < of_nat total\<close>
    by (simp add: d millis_def whole_def)
  ultimately show ?thesis using assms(2) pos \<open>of_nat selection + of_nat reserve < of_nat total\<close>
    by (simp add: managedSearchMs_def d millis_def whole_def)
qed

end
