(* ===== verification/Scheduler_Laws.thy ===== *)
theory Scheduler_Laws
  imports Embedding_Scheduler "HOL-Library.Multiset"
begin

text \<open>
  The invariant of the steps of Embedding_Scheduler: the counts stay within their limits, no call is lost or
  answered twice, and accepted background work always has something that will promote it.
\<close>

section \<open>The invariant\<close>

definition call_ids :: "'v scheduler \<Rightarrow> nat list" where
  "call_ids s = map se_run (es_resolveQueue s @ es_backgroundQueue s)"

definition scheduler_bounds :: "'v scheduler \<Rightarrow> bool" where
  "scheduler_bounds s \<longleftrightarrow> 0 < concurrency s \<and> es_active s = length (es_running s) \<and> es_active s \<le> concurrency s \<and>
     length (es_resolveQueue s) \<le> nat_of_number (sp_resolveQueueDepth (es_profile s)) \<and>
     length (es_backgroundQueue s) \<le> nat_of_number (sp_backgroundQueueDepth (es_profile s)) \<and>
     es_resolveReservations s = length (es_scopes s) \<and>
     (\<forall>e \<in> set (es_resolveQueue s). se_priority e = Priority_resolve) \<and>
     (\<not> es_accepting s \<longrightarrow> es_resolveQueue s = [] \<and> es_backgroundQueue s = [])"

text \<open>Every call is running, queued or answered, or is the one that is about to be answered.\<close>

definition accounts_of :: "nat list \<Rightarrow> 'v scheduler \<Rightarrow> bool" where
  "accounts_of ts s \<longleftrightarrow> distinct (es_submitted s) \<and>
     mset (es_submitted s) = mset ts + mset (map fst (es_running s)) + mset (call_ids s) + mset (map fst (es_answers s)) \<and>
     set (es_settled s) \<inter> set (call_ids s) = {} \<and> set (es_settled s) \<subseteq> set (es_submitted s) \<and>
     distinct (map snd (es_waiting s)) \<and> snd ` set (es_waiting s) \<subseteq> set (call_ids s)"

abbreviation scheduler_accounts :: "'v scheduler \<Rightarrow> bool" where
  "scheduler_accounts s \<equiv> accounts_of [] s"

text \<open>
  Waiting background work is woken by the promotion timer, by the end of a running call, by the end of the
  last Resolve scope, or, while the event loop is delayed, by the sampler. Resolve work waits
  for a slot only.
\<close>

definition scheduler_wakes :: "'v scheduler \<Rightarrow> bool" where
  "scheduler_wakes s \<longleftrightarrow>
     (es_resolveQueue s \<noteq> [] \<longrightarrow> es_active s = concurrency s) \<and>
     (es_backgroundQueue s \<noteq> [] \<longrightarrow>
        es_cancelBackgroundPromotion s \<noteq> None \<or> 0 < es_active s \<or> 0 < es_resolveReservations s \<or> suppressed s) \<and>
     (es_accepting s \<and> suppressed s \<longrightarrow> es_cancelSample s \<noteq> None)"

definition scheduler_inv :: "'v scheduler \<Rightarrow> bool" where
  "scheduler_inv s \<longleftrightarrow> scheduler_bounds s \<and> scheduler_accounts s \<and> scheduler_wakes s"

lemmas scheduler_parts = scheduler_inv_def scheduler_bounds_def accounts_of_def scheduler_wakes_def

lemma find_limit:
  "assertEmbeddingRuntimeSchedulerProfile p = Inr u \<Longrightarrow> (field, v) \<in> set (scheduler_limits p) \<Longrightarrow> safe_at_least 1 v"
  by (auto simp: assertEmbeddingRuntimeSchedulerProfile_def find_None_iff split: if_splits option.splits)

lemma accepted_limit:
  assumes "assertEmbeddingRuntimeSchedulerProfile p = Inr u" and "(field, v) \<in> set (scheduler_limits p)"
  shows "0 < nat_of_number v"
  using find_limit [OF assms] by (auto elim: safe_at_leastE)

lemma scheduler_inv_new:
  assumes "new_scheduler profile rss = Inr s"
  shows "scheduler_inv s"
proof -
  have ok: "assertEmbeddingRuntimeSchedulerProfile profile = Inr ()"
    using assms by (auto simp: new_scheduler_def res_bind_eq_Inr)
  have "0 < nat_of_number (sp_concurrency profile)"
    by (rule accepted_limit [OF ok, of "''concurrency''"]) (simp add: scheduler_limits_def)
  then show ?thesis using assms
    by (auto simp: new_scheduler_def res_bind_eq_Inr scheduler_parts concurrency_def call_ids_def suppressed_def)
qed

section \<open>One call leaves the queues\<close>

lemma call_ids_unique:
  assumes "accounts_of ts s"
  shows "distinct (call_ids s)" "set (call_ids s) \<subseteq> set (es_submitted s)" "distinct (map fst (es_running s))"
    "distinct ts"
proof -
  have m: "mset (es_submitted s) = mset (ts @ map fst (es_running s) @ call_ids s @ map fst (es_answers s))"
    using assms by (simp add: accounts_of_def)
  have "distinct (ts @ map fst (es_running s) @ call_ids s @ map fst (es_answers s))"
    using assms mset_eq_imp_distinct_iff [OF m] by (simp add: accounts_of_def)
  then show "distinct (call_ids s)" "distinct (map fst (es_running s))" "distinct ts" by auto
  show "set (call_ids s) \<subseteq> set (es_submitted s)" using mset_eq_setD [OF m] by auto
qed

lemma filter_away:
  assumes "distinct xs" and "t \<in> set xs"
  shows "add_mset t (mset (filter (\<lambda>u. u \<noteq> t) xs)) = mset xs"
  using assms
proof (induction xs)
  case (Cons x xs)
  show ?case
  proof (cases "x = t")
    case True
    then have "filter (\<lambda>u. u \<noteq> t) xs = xs" using Cons.prems by (auto simp: filter_id_conv)
    then have "filter (\<lambda>u. u \<noteq> t) (x # xs) = xs" using True by simp
    then show ?thesis using True by (simp only: mset.simps)
  qed (use Cons in auto)
qed simp

lemma call_ids_remove: "call_ids (remove_call t s) = filter (\<lambda>u. u \<noteq> t) (call_ids s)"
  by (simp add: call_ids_def remove_call_def filter_map comp_def)

lemma onAbort_accounts:
  assumes acc: "scheduler_accounts s" and t: "t \<in> set (call_ids s)"
  shows "scheduler_accounts (call_onAbort c t s)"
    and "call_ids (call_onAbort c t s) = filter (\<lambda>u. u \<noteq> t) (call_ids s)"
proof -
  have new: "t \<notin> set (es_settled s)" using assms by (auto simp: accounts_of_def)
  then have ids: "call_ids (call_onAbort c t s) = filter (\<lambda>u. u \<noteq> t) (call_ids s)"
    by (simp add: call_onAbort_def call_answered_def call_ids_def remove_call_def settle_call_def filter_map comp_def)
  then show "call_ids (call_onAbort c t s) = filter (\<lambda>u. u \<noteq> t) (call_ids s)" .
  have m: "add_mset t (mset (filter (\<lambda>u. u \<noteq> t) (call_ids s))) = mset (call_ids s)"
    using filter_away [OF call_ids_unique(1) [OF acc] t] .
  have w: "snd ` set (filter (\<lambda>(c, u). u \<noteq> t) (es_waiting s)) \<subseteq> set (filter (\<lambda>u. u \<noteq> t) (call_ids s))"
      "distinct (map snd (filter (\<lambda>(c, u). u \<noteq> t) (es_waiting s)))"
    using acc by (auto simp: accounts_of_def distinct_map_filter)
  have fields: "es_submitted (call_onAbort c t s) = es_submitted s" "es_running (call_onAbort c t s) = es_running s"
    "es_settled (call_onAbort c t s) = t # es_settled s" "map fst (es_answers (call_onAbort c t s)) = map fst (es_answers s) @ [t]"
    "es_waiting (call_onAbort c t s) = filter (\<lambda>(c, u). u \<noteq> t) (es_waiting s)"
    using new by (simp_all add: call_onAbort_def call_answered_def remove_call_def settle_call_def)
  show "scheduler_accounts (call_onAbort c t s)"
    unfolding accounts_of_def ids fields
    using acc w call_ids_unique(2) [OF acc] t m by (auto simp: accounts_of_def)
qed

section \<open>The drain\<close>

lemma take_entry_fields:
  assumes "take_entry s = Some (e, s1)"
  shows "mset (call_ids s) = add_mset (se_run e) (mset (call_ids s1))"
    and "s1 = s\<lparr>es_resolveQueue := es_resolveQueue s1, es_backgroundQueue := es_backgroundQueue s1\<rparr>"
    and "set (es_resolveQueue s1) \<subseteq> set (es_resolveQueue s)"
    and "length (es_resolveQueue s1) \<le> length (es_resolveQueue s)" "length (es_backgroundQueue s1) \<le> length (es_backgroundQueue s)"
  using assms by (auto simp: take_entry_def call_ids_def split: list.splits if_splits)

text \<open>What the loop keeps: everything of the invariant that does not speak of who wakes whom.\<close>

definition drainable :: "nat list \<Rightarrow> 'v scheduler \<Rightarrow> bool" where
  "drainable ts s \<longleftrightarrow> es_accepting s \<and> scheduler_bounds s \<and> accounts_of ts s"

lemma drain_cancelled:
  assumes "drainable ts s" and "take_entry s = Some (e, s1)"
  shows "drainable ts (call_answered (se_run e) a (settle_call (se_run e) s1))"
proof -
  note f = take_entry_fields [OF assms(2)]
  have acc: "accounts_of ts s" using assms(1) by (simp add: drainable_def)
  let ?t = "se_run e" and ?s = "call_answered (se_run e) a (settle_call (se_run e) s1)"
  have ids: "set (call_ids s) = insert ?t (set (call_ids s1))" using mset_eq_setD [of "call_ids s" "?t # call_ids s1"] f(1) by simp
  have "distinct (?t # call_ids s1)"
    using call_ids_unique(1) [OF acc] mset_eq_imp_distinct_iff [of "call_ids s" "?t # call_ids s1"] f(1) by simp
  then have t: "?t \<notin> set (call_ids s1)" by simp
  have same: "es_submitted s1 = es_submitted s" "es_running s1 = es_running s" "es_answers s1 = es_answers s"
    "es_settled s1 = es_settled s" "es_waiting s1 = es_waiting s"
    by (subst f(2), simp)+
  have new: "call_ids ?s = call_ids s1" by (simp add: call_ids_def call_answered_def settle_call_def)
  have "accounts_of ts ?s"
    unfolding accounts_of_def new
    using acc ids t f(1) call_ids_unique(2) [OF acc] same
    by (auto simp: accounts_of_def call_answered_def settle_call_def distinct_map_filter)
  moreover have "es_accepting ?s \<and> scheduler_bounds ?s"
  proof -
    have "es_accepting s1 = es_accepting s" "concurrency s1 = concurrency s" "es_active s1 = es_active s"
      "es_profile s1 = es_profile s" "es_resolveReservations s1 = es_resolveReservations s" "es_scopes s1 = es_scopes s"
      unfolding concurrency_def by (subst f(2), simp)+
    then show ?thesis using assms(1) same f(3-5)
      by (auto simp: drainable_def scheduler_bounds_def call_answered_def settle_call_def concurrency_def)
  qed
  ultimately show ?thesis by (simp add: drainable_def)
qed

lemma drain_started:
  assumes "drainable ts s" and "take_entry s = Some (e, s1)" and "es_active s < concurrency s"
  shows "drainable ts (call_start (se_priority e) (se_run e) (settle_call (se_run e) s1))"
proof -
  note f = take_entry_fields [OF assms(2)]
  have acc: "accounts_of ts s" using assms(1) by (simp add: drainable_def)
  let ?t = "se_run e" and ?s = "call_start (se_priority e) (se_run e) (settle_call (se_run e) s1)"
  have ids: "set (call_ids s) = insert ?t (set (call_ids s1))" using mset_eq_setD [of "call_ids s" "?t # call_ids s1"] f(1) by simp
  have "distinct (?t # call_ids s1)"
    using call_ids_unique(1) [OF acc] mset_eq_imp_distinct_iff [of "call_ids s" "?t # call_ids s1"] f(1) by simp
  then have t: "?t \<notin> set (call_ids s1)" by simp
  have same: "es_submitted s1 = es_submitted s" "es_running s1 = es_running s" "es_answers s1 = es_answers s"
    "es_settled s1 = es_settled s" "es_waiting s1 = es_waiting s"
    by (subst f(2), simp)+
  have new: "call_ids ?s = call_ids s1" by (simp add: call_ids_def call_start_def settle_call_def Let_def)
  have "accounts_of ts ?s"
    unfolding accounts_of_def new
    using acc ids t f(1) call_ids_unique(2) [OF acc] same
    by (auto simp: accounts_of_def call_start_def settle_call_def distinct_map_filter Let_def)
  moreover have "es_accepting ?s \<and> scheduler_bounds ?s"
  proof -
    have "es_accepting s1 = es_accepting s" "concurrency s1 = concurrency s" "es_active s1 = es_active s"
      "es_profile s1 = es_profile s" "es_resolveReservations s1 = es_resolveReservations s" "es_scopes s1 = es_scopes s"
      unfolding concurrency_def by (subst f(2), simp)+
    then show ?thesis using assms(1,3) same f(3-5)
      by (auto simp: drainable_def scheduler_bounds_def call_start_def settle_call_def concurrency_def Let_def)
  qed
  ultimately show ?thesis by (simp add: drainable_def)
qed

text \<open>The fields a drain never touches.\<close>

definition frame :: "'v scheduler \<Rightarrow> 'v scheduler \<Rightarrow> bool" where
  "frame s r \<longleftrightarrow> es_profile r = es_profile s \<and> es_resolveReservations r = es_resolveReservations s \<and>
     es_cancelBackgroundPromotion r = es_cancelBackgroundPromotion s \<and> es_eventLoopLagMs r = es_eventLoopLagMs s \<and>
     es_cancelSample r = es_cancelSample s \<and> es_scopes r = es_scopes s \<and> es_accepting r = es_accepting s \<and>
     length (es_resolveQueue r) \<le> length (es_resolveQueue s)"

lemma frame_trans: "frame s r \<Longrightarrow> frame r u \<Longrightarrow> frame s u"
  by (auto simp: frame_def)

lemma frame_suppressed: "frame s r \<Longrightarrow> suppressed r = suppressed s"
  by (simp add: frame_def suppressed_def)

lemma take_entry_frame:
  assumes "take_entry s = Some (e, s1)"
  shows "frame s (call_answered t a (settle_call u s1))" "frame s (call_start p t (settle_call u s1))"
  using assms by (auto simp: take_entry_def frame_def call_answered_def settle_call_def call_start_def Let_def
      split: list.splits if_splits)

lemma take_entry_unsettled:
  assumes "drainable ts s" and "take_entry s = Some (e, s1)"
  shows "se_run e \<notin> set (es_settled s1)" "es_settled s1 = es_settled s"
proof -
  have "set (call_ids s) = set (se_run e # call_ids s1)"
    using take_entry_fields(1) [OF assms(2)] by (intro mset_eq_setD) simp
  moreover show same: "es_settled s1 = es_settled s" by (subst take_entry_fields(2) [OF assms(2)], simp)
  ultimately show "se_run e \<notin> set (es_settled s1)"
    using assms(1) by (auto simp: drainable_def accounts_of_def)
qed

definition drain_post :: "nat list \<Rightarrow> 'v scheduler \<Rightarrow> 'v scheduler \<Rightarrow> bool" where
  "drain_post ts s r \<longleftrightarrow> drainable ts r \<and> frame s r \<and> (es_active r < concurrency r \<longrightarrow> take_entry r = None) \<and>
     (es_backgroundStarts r \<noteq> es_backgroundStarts s \<longrightarrow>
        es_resolveQueue r = [] \<and> es_resolveReservations r = 0 \<and> es_cancelBackgroundPromotion r = None \<and> \<not> suppressed r)"

lemma drain_post_step:
  assumes "drain_post ts n r" and "frame s n"
    and "es_backgroundStarts n \<noteq> es_backgroundStarts s \<Longrightarrow>
      es_resolveQueue n = [] \<and> es_resolveReservations n = 0 \<and> es_cancelBackgroundPromotion n = None \<and> \<not> suppressed n"
  shows "drain_post ts s r"
proof -
  have fr: "frame n r" using assms(1) by (simp add: drain_post_def)
  have "es_resolveQueue n = [] \<Longrightarrow> es_resolveQueue r = []" using fr by (simp add: frame_def)
  then show ?thesis
    using assms(1,3) fr frame_trans [OF assms(2) fr] frame_suppressed [OF fr]
    by (cases "es_backgroundStarts r = es_backgroundStarts n") (auto simp: drain_post_def frame_def)
qed

lemma take_entry_background:
  assumes "drainable ts s" and "take_entry s = Some (e, s1)"
  shows "es_backgroundStarts s1 = es_backgroundStarts s"
    and "se_priority e \<noteq> Priority_resolve \<Longrightarrow> es_resolveQueue s1 = [] \<and> es_resolveReservations s1 = 0 \<and>
      es_cancelBackgroundPromotion s1 = None \<and> \<not> suppressed s1"
  using assms by (auto simp: take_entry_def drainable_def scheduler_bounds_def suppressed_def split: list.splits if_splits)

lemma drain_loop_stops: "\<not> es_active s < concurrency s \<or> take_entry s = None \<Longrightarrow> drain_loop s = s"
  by (subst drain_loop.simps) auto

lemma drain_loop_post: "drainable ts s \<Longrightarrow> drain_post ts s (drain_loop s)"
proof (induction s rule: drain_loop.induct)
  case (1 s)
  show ?case
  proof (cases "\<not> es_active s < concurrency s \<or> take_entry s = None")
    case True
    then show ?thesis using drain_loop_stops [OF True] 1(4) by (auto simp: frame_def drain_post_def)
  next
    case False
    then obtain e s1 where take: "take_entry s = Some (e, s1)" and free: "es_active s < concurrency s" by auto
    note new = take_entry_unsettled [OF 1(4) take] and fr = take_entry_frame [OF take]
      and bg = take_entry_background [OF 1(4) take]
    show ?thesis
    proof (cases "call_aborted s1 (se_signal e)")
      case True
      let ?n = "call_answered (se_run e) (Call_refused (EmbeddingRuntimeCancelledError (call_reason s1 (se_signal e))))
        (settle_call (se_run e) s1)"
      have eq: "drain_loop s = drain_loop ?n" using free take new True by (subst drain_loop.simps) simp
      have "drain_post ts ?n (drain_loop ?n)"
        using 1(2) [of "(e, s1)" e s1] free take new True drain_cancelled [OF 1(4) take] by blast
      then show ?thesis unfolding eq
        by (rule drain_post_step [OF _ fr(1)]) (use bg(1) in \<open>simp add: call_answered_def settle_call_def\<close>)
    next
      case False
      let ?n = "call_start (se_priority e) (se_run e) (settle_call (se_run e) s1)"
      have eq: "drain_loop s = drain_loop ?n" using free take new False by (subst drain_loop.simps) simp
      have "drain_post ts ?n (drain_loop ?n)"
        using 1(3) [of "(e, s1)" e s1] free take new False drain_started [OF 1(4) take free] by blast
      then show ?thesis unfolding eq
        by (rule drain_post_step [OF _ fr(2)])
          (use bg in \<open>cases "se_priority e"; simp add: call_start_def settle_call_def suppressed_def Let_def\<close>)
    qed
  qed
qed

text \<open>After a drain nobody waits unwoken.\<close>

lemma sampler_frame:
  "scheduler_bounds (s\<lparr>es_cancelSample := x\<rparr>) = scheduler_bounds s"
  "accounts_of ts (s\<lparr>es_cancelSample := x\<rparr>) = accounts_of ts s"
  "concurrency (s\<lparr>es_cancelSample := x\<rparr>) = concurrency s"
  "suppressed (s\<lparr>es_cancelSample := x\<rparr>) = suppressed s"
  by (simp_all add: scheduler_bounds_def accounts_of_def concurrency_def call_ids_def suppressed_def)

lemma drain_wakes_with:
  assumes "drainable ts s" and "suppressed s \<Longrightarrow> x \<noteq> None"
  defines "r \<equiv> (drain s)\<lparr>es_cancelSample := x\<rparr>"
  shows "scheduler_bounds r \<and> accounts_of ts r \<and> scheduler_wakes r"
proof -
  let ?r = "drain_loop s"
  have post: "drain_post ts s ?r" using assms(1) by (rule drain_loop_post)
  then have "es_accepting s" "drainable ts ?r" using assms(1) by (simp_all add: drainable_def drain_post_def)
  moreover have "es_resolveQueue ?r \<noteq> [] \<Longrightarrow> es_active ?r = concurrency ?r"
    using post by (auto simp: drain_post_def drainable_def scheduler_bounds_def take_entry_def split: list.splits)
  moreover have "es_cancelBackgroundPromotion ?r \<noteq> None \<or> 0 < es_active ?r \<or> 0 < es_resolveReservations ?r \<or> suppressed ?r"
    if "es_backgroundQueue ?r \<noteq> []"
  proof (cases "es_active ?r < concurrency ?r")
    case True
    then have "take_entry ?r = None" using post by (simp add: drain_post_def)
    then show ?thesis using that by (auto simp: take_entry_def split: list.splits if_splits)
  next
    case False
    moreover have "0 < concurrency ?r" using \<open>drainable ts ?r\<close> by (simp add: drainable_def scheduler_bounds_def)
    ultimately have "0 < es_active ?r" by linarith
    then show ?thesis by simp
  qed
  moreover have "suppressed ?r \<Longrightarrow> x \<noteq> None"
    using post assms(2) frame_suppressed [of s ?r] by (auto simp: drain_post_def)
  ultimately show ?thesis
    by (auto simp: r_def drain_def scheduler_wakes_def drainable_def sampler_frame)
qed

lemma drain_wakes:
  assumes "drainable ts s" and "suppressed s \<Longrightarrow> es_cancelSample s \<noteq> None"
  shows "scheduler_bounds (drain s) \<and> accounts_of ts (drain s) \<and> scheduler_wakes (drain s)"
proof -
  have "es_cancelSample (drain s) = es_cancelSample s"
    using drain_loop_post [OF assms(1)] assms(1) by (simp add: drain_post_def frame_def drain_def drainable_def)
  then have "(drain s)\<lparr>es_cancelSample := es_cancelSample s\<rparr> = drain s" by simp
  then show ?thesis using drain_wakes_with [OF assms] by simp
qed

section \<open>Preservation\<close>

lemma schedule_fields:
  "\<exists>d. scheduleBackgroundPromotion delay s = s\<lparr>es_cancelBackgroundPromotion := d\<rparr> \<and>
     (es_accepting s \<and> es_backgroundQueue s \<noteq> [] \<longrightarrow> d \<noteq> None)"
  by (cases "es_cancelBackgroundPromotion s") (auto simp: scheduleBackgroundPromotion_def intro: exI [of _ "es_cancelBackgroundPromotion s"])

lemma timer_frame:
  "scheduler_bounds (s\<lparr>es_cancelBackgroundPromotion := d\<rparr>) = scheduler_bounds s"
  "accounts_of ts (s\<lparr>es_cancelBackgroundPromotion := d\<rparr>) = accounts_of ts s"
  by (simp_all add: scheduler_bounds_def accounts_of_def concurrency_def call_ids_def)

lemma refuse_call_inv:
  assumes "scheduler_inv s" and "t \<notin> set (es_submitted s)"
  shows "scheduler_inv (call_answered t a (s\<lparr>es_submitted := es_submitted s @ [t]\<rparr>))"
  using assms by (auto simp: scheduler_parts call_answered_def call_ids_def concurrency_def suppressed_def)

lemma start_call_inv:
  assumes "scheduler_inv s" and "t \<notin> set (es_submitted s)" and "es_active s < concurrency s"
  shows "scheduler_inv (call_start p t ((s\<lparr>es_submitted := es_submitted s @ [t]\<rparr>)\<lparr>es_cancelBackgroundPromotion := None\<rparr>))"
  using assms by (auto simp: scheduler_parts call_start_def call_ids_def concurrency_def suppressed_def Let_def)

lemma queue_call_inv:
  assumes inv: "scheduler_inv s" and new: "t \<notin> set (es_submitted s)" and "\<not> call_aborted s c" and "es_accepting s"
    and busy: "p = Priority_resolve \<Longrightarrow> \<not> es_active s < concurrency s"
    and d: "d = es_cancelBackgroundPromotion s \<or> p = Priority_resolve"
  shows "scheduler_inv (queue_call p t c (s\<lparr>es_submitted := es_submitted s @ [t], es_cancelBackgroundPromotion := d\<rparr>))"
proof -
  let ?s = "s\<lparr>es_submitted := es_submitted s @ [t], es_cancelBackgroundPromotion := d\<rparr>"
  let ?w = "?s\<lparr>es_waiting := es_waiting s @ (case c of None \<Rightarrow> [] | Some a \<Rightarrow> [(a, t)])\<rparr>"
  have act: "p = Priority_resolve \<Longrightarrow> 0 < es_active s" "p = Priority_resolve \<Longrightarrow> es_active s = concurrency s"
    using inv busy by (auto simp: scheduler_inv_def scheduler_bounds_def)
  have t: "t \<notin> set (call_ids s)" "t \<notin> set (es_settled s)"
    using inv new call_ids_unique(2) [of "[]" s] by (auto simp: scheduler_inv_def accounts_of_def)
  have w: "(case c of None \<Rightarrow> ?s | Some a \<Rightarrow> ?s\<lparr>es_waiting := es_waiting ?s @ [(a, t)]\<rparr>) = ?w"
    by (cases c) simp_all
  have na: "\<not> call_aborted ?w c" using assms(3) by (cases c) simp_all
  let ?full = "nat_of_number (if p = Priority_resolve then sp_resolveQueueDepth (es_profile ?s) else sp_backgroundQueueDepth (es_profile ?s))
    \<le> length (if p = Priority_resolve then es_resolveQueue ?s else es_backgroundQueue ?s)"
  show ?thesis
  proof (cases ?full)
    case True
    have "scheduler_inv (call_answered t a ?s)" for a
      using inv new act d by (auto simp: scheduler_parts call_answered_def call_ids_def concurrency_def suppressed_def)
    then show ?thesis using True by (simp add: queue_call_def Let_def)
  next
    case False
    have eq: "queue_call p t c ?s = push_call p t c ?w" using False na by (simp add: queue_call_def Let_def w)
    have waits: "distinct (map snd (es_waiting ?w))" "snd ` set (es_waiting ?w) \<subseteq> insert t (set (call_ids s))"
      using inv t by (cases c; auto simp: scheduler_inv_def accounts_of_def)+
    show ?thesis
    proof (cases p)
      case Priority_resolve
      have "call_ids (push_call p t c ?w) = map se_run (es_resolveQueue s) @ t # map se_run (es_backgroundQueue s)"
        by (simp add: Priority_resolve push_call_def call_ids_def)
      moreover have "mset (map se_run (es_resolveQueue s) @ t # map se_run (es_backgroundQueue s)) = add_mset t (mset (call_ids s))"
        by (simp add: call_ids_def)
      ultimately have "scheduler_accounts (push_call p t c ?w)"
        using inv new t waits unfolding scheduler_inv_def accounts_of_def
        by (simp add: Priority_resolve push_call_def) (auto simp: call_ids_def)
      then show ?thesis unfolding eq
        using inv False act assms(4) by (auto simp: Priority_resolve push_call_def scheduler_inv_def scheduler_bounds_def
            scheduler_wakes_def concurrency_def suppressed_def)
    next
      case Priority_background
      let ?q = "?w\<lparr>es_backgroundQueue := es_backgroundQueue s @ [\<lparr>se_priority = p, se_run = t, se_signal = c\<rparr>]\<rparr>"
      obtain d' where push: "push_call p t c ?w = ?q\<lparr>es_cancelBackgroundPromotion := d'\<rparr>" and "d' \<noteq> None"
        using schedule_fields [of "sp_backgroundYieldMs (es_profile s)" ?q] assms(4)
        by (auto simp: push_call_def Priority_background)
      have "scheduler_accounts ?q"
        using inv new t waits by (auto simp: scheduler_inv_def accounts_of_def call_ids_def)
      moreover have "scheduler_bounds ?q"
        using inv False assms(4) by (auto simp: Priority_background scheduler_inv_def scheduler_bounds_def concurrency_def)
      moreover have "scheduler_wakes (?q\<lparr>es_cancelBackgroundPromotion := d'\<rparr>)"
        using inv \<open>d' \<noteq> None\<close> by (simp add: scheduler_inv_def scheduler_wakes_def concurrency_def suppressed_def)
      ultimately show ?thesis unfolding eq push scheduler_inv_def timer_frame by blast
    qed
  qed
qed

lemma run_call_inv:
  assumes "scheduler_inv s" and "t \<notin> set (es_submitted s)"
  shows "scheduler_inv (run_call p t c s)"
proof -
  let ?s = "s\<lparr>es_submitted := es_submitted s @ [t]\<rparr>"
  have c: "call_aborted ?s c = call_aborted s c" "concurrency ?s = concurrency s" by (cases c) (simp_all add: concurrency_def)
  have [simp]: "concurrency (?s\<lparr>es_cancelBackgroundPromotion := None\<rparr>) = concurrency s" by (simp add: concurrency_def)
  have same: "?s = ?s\<lparr>es_cancelBackgroundPromotion := es_cancelBackgroundPromotion s\<rparr>" by simp
  show ?thesis
  proof (cases "\<not> es_accepting s \<or> call_aborted s c")
    case True
    then show ?thesis using refuse_call_inv [OF assms] c by (auto simp: run_call_def Let_def)
  next
    case False
    then show ?thesis
      using start_call_inv [OF assms, of p] queue_call_inv [OF assms, of c p None]
        queue_call_inv [OF assms, of c p "es_cancelBackgroundPromotion s"] c
      by (auto simp: run_call_def Let_def cancelScheduledBackgroundPromotion_def mayStartResolve_def)
  qed
qed

lemma running_call_out:
  assumes "distinct (map fst rs)" and "(t, p) \<in> set rs"
  shows "add_mset t (mset (map fst (filter (\<lambda>(u, q). u \<noteq> t) rs))) = mset (map fst rs)"
    and "Suc (length (filter (\<lambda>(u, q). u \<noteq> t) rs)) = length rs"
proof -
  have "t \<in> set (map fst rs)" using assms(2) by force
  then have m: "add_mset t (mset (filter (\<lambda>u. u \<noteq> t) (map fst rs))) = mset (map fst rs)"
    using filter_away [OF assms(1)] by blast
  have e: "filter (\<lambda>u. u \<noteq> t) (map fst rs) = map fst (filter (\<lambda>(u, q). u \<noteq> t) rs)"
    by (induction rs) auto
  show "add_mset t (mset (map fst (filter (\<lambda>(u, q). u \<noteq> t) rs))) = mset (map fst rs)" using m unfolding e .
  have "mset (t # map fst (filter (\<lambda>(u, q). u \<noteq> t) rs)) = mset (map fst rs)" using m unfolding e by simp
  from mset_eq_length [OF this] show "Suc (length (filter (\<lambda>(u, q). u \<noteq> t) rs)) = length rs" by simp
qed

definition ended_call :: "nat \<Rightarrow> nat \<Rightarrow> 'v scheduler \<Rightarrow> 'v scheduler" where
  "ended_call t rss s = s\<lparr>es_active := es_active s - 1, es_running := filter (\<lambda>(u, q). u \<noteq> t) (es_running s), es_rssBytes := rss\<rparr>"

lemma ended_call_parts:
  assumes inv: "scheduler_inv s" and t: "(t, p) \<in> set (es_running s)"
  shows "scheduler_bounds (ended_call t rss s)" "accounts_of [t] (ended_call t rss s)"
proof -
  have acc: "scheduler_accounts s" using inv by (simp add: scheduler_inv_def)
  note out = running_call_out [OF call_ids_unique(3) [OF acc] t]
  show "scheduler_bounds (ended_call t rss s)"
    using inv out(2) by (auto simp: scheduler_inv_def scheduler_bounds_def ended_call_def concurrency_def)
  have "call_ids (ended_call t rss s) = call_ids s" by (simp add: ended_call_def call_ids_def)
  then show "accounts_of [t] (ended_call t rss s)"
    using acc out(1) by (auto simp: accounts_of_def ended_call_def)
qed

lemma answer_ended:
  assumes "scheduler_bounds s" and "accounts_of [t] s" and "scheduler_wakes s"
  shows "scheduler_inv (call_answered t a s)"
  using assms by (auto simp: scheduler_parts accounts_of_def call_answered_def call_ids_def concurrency_def suppressed_def)

lemma call_finish_inv:
  assumes inv: "scheduler_inv s" and t: "(t, p) \<in> set (es_running s)"
  shows "scheduler_inv (call_finish t p v rss s)"
proof -
  let ?s = "ended_call t rss s"
  note parts = ended_call_parts [OF inv t, of rss]
  have fields: "es_accepting ?s = es_accepting s" "es_resolveQueue ?s = es_resolveQueue s" "es_backgroundQueue ?s = es_backgroundQueue s"
    "suppressed ?s = suppressed s" "es_cancelSample ?s = es_cancelSample s" "concurrency ?s = concurrency s"
    by (simp_all add: ended_call_def suppressed_def concurrency_def)
  consider (resolve) "es_resolveQueue s \<noteq> []"
    | (background) "es_resolveQueue s = []" "es_backgroundQueue s \<noteq> []"
    | (none) "es_resolveQueue s = []" "es_backgroundQueue s = []" by blast
  then show ?thesis
  proof cases
    case resolve
    then have "es_accepting s" using inv by (auto simp: scheduler_inv_def scheduler_bounds_def)
    then have "drainable [t] ?s" using parts fields by (simp add: drainable_def)
    then have "scheduler_inv (call_answered t (Call_settled v) (drain ?s))"
      using drain_wakes [of "[t]" ?s] fields inv \<open>es_accepting s\<close>
      by (intro answer_ended) (auto simp: scheduler_inv_def scheduler_wakes_def)
    then show ?thesis using resolve by (simp add: call_finish_def ended_call_def)
  next
    case background
    define delay where "delay = (if p = Priority_resolve then sp_resolveQuietPeriodMs (es_profile s) else sp_backgroundYieldMs (es_profile s))"
    have acc: "es_accepting s" using inv background by (auto simp: scheduler_inv_def scheduler_bounds_def)
    obtain d where d: "scheduleBackgroundPromotion delay ?s = ?s\<lparr>es_cancelBackgroundPromotion := d\<rparr>" "d \<noteq> None"
      using schedule_fields [of delay ?s] acc background fields by auto
    have "scheduler_wakes (?s\<lparr>es_cancelBackgroundPromotion := d\<rparr>)"
      using inv background d(2) by (simp add: scheduler_inv_def scheduler_wakes_def suppressed_def concurrency_def ended_call_def)
    then have "scheduler_inv (call_answered t (Call_settled v) (scheduleBackgroundPromotion delay ?s))"
      using parts unfolding d(1) by (intro answer_ended) (simp_all add: timer_frame)
    then show ?thesis using background by (auto simp: call_finish_def ended_call_def delay_def Let_def split: if_splits)
  next
    case none
    have "scheduler_wakes ?s" using inv none
      by (simp add: scheduler_inv_def scheduler_wakes_def suppressed_def concurrency_def ended_call_def)
    then have "scheduler_inv (call_answered t (Call_settled v) ?s)" using parts by (intro answer_ended)
    then show ?thesis using none by (simp add: call_finish_def ended_call_def)
  qed
qed

lemma promote_inv:
  assumes inv: "scheduler_inv s"
  shows "scheduler_inv (promote s)"
proof (cases "es_accepting s")
  case True
  let ?s = "s\<lparr>es_cancelBackgroundPromotion := None\<rparr>"
  have "drainable [] ?s" using inv True by (simp add: drainable_def scheduler_inv_def timer_frame)
  then show ?thesis using drain_wakes [of "[]" ?s] inv True
    by (simp add: promote_def scheduler_inv_def scheduler_wakes_def suppressed_def)
next
  case False
  then show ?thesis using inv
    by (simp add: promote_def drain_def scheduler_inv_def timer_frame scheduler_wakes_def scheduler_bounds_def concurrency_def)
qed

lemma sample_inv:
  assumes inv: "scheduler_inv s"
  shows "scheduler_inv (sample expectedAt rss now later s)"
proof (cases "es_accepting s")
  case True
  let ?s = "s\<lparr>es_cancelSample := None, es_eventLoopLagMs := max 0 (now - expectedAt), es_rssBytes := rss\<rparr>"
  have d: "drainable [] ?s" using inv True
    by (simp add: drainable_def scheduler_inv_def scheduler_bounds_def accounts_of_def concurrency_def call_ids_def)
  have "scheduler_inv (scheduleSample later (drain ?s))"
    unfolding scheduleSample_def scheduler_inv_def by (rule drain_wakes_with [OF d]) simp
  then show ?thesis using True by (simp add: sample_def)
next
  case False
  then show ?thesis using inv
    by (simp add: sample_def scheduler_inv_def sampler_frame scheduler_wakes_def scheduler_bounds_def)
qed

lemma fold_reject_accounts:
  assumes "accounts_of (map se_run es) (s\<lparr>es_waiting := []\<rparr>)" and "set (es_settled s) \<inter> se_run ` set es = {}"
    and "call_ids s = []" and "snd ` set (es_waiting s) \<subseteq> se_run ` set es"
  shows "accounts_of [] (fold reject_call_closed es s)"
  using assms
proof (induction es arbitrary: s)
  case Nil
  then have "es_waiting s = []" by simp
  then show ?case using Nil by (auto simp: accounts_of_def call_ids_def)
next
  case (Cons e es)
  have new: "se_run e \<notin> set (es_settled s)" using Cons.prems(2) by auto
  have apart: "se_run e \<notin> se_run ` set es" using call_ids_unique(4) [OF Cons.prems(1)] by simp
  have "mset (es_submitted s) = mset (se_run e # map se_run es @ map fst (es_running s) @ map fst (es_answers s))"
    using Cons.prems(1,3) by (simp add: accounts_of_def call_ids_def)
  from mset_eq_setD [OF this] have sub: "se_run e \<in> set (es_submitted s)" by simp
  have "accounts_of (map se_run es) ((reject_call_closed e s)\<lparr>es_waiting := []\<rparr>)"
    using Cons.prems new sub by (auto simp: accounts_of_def reject_call_closed_def call_answered_def settle_call_def call_ids_def)
  moreover have "set (es_settled (reject_call_closed e s)) \<inter> se_run ` set es = {}"
    using Cons.prems(2) new apart by (auto simp: reject_call_closed_def call_answered_def settle_call_def)
  moreover have "call_ids (reject_call_closed e s) = []"
    using Cons.prems(3) by (simp add: reject_call_closed_def call_answered_def settle_call_def call_ids_def)
  moreover have "snd ` set (es_waiting (reject_call_closed e s)) \<subseteq> se_run ` set es"
    using Cons.prems(4) new by (auto simp: reject_call_closed_def call_answered_def settle_call_def)
  ultimately show ?case using Cons.IH by simp
qed

lemma reject_fields:
  "es_profile (reject_call_closed e s) = es_profile s" "es_active (reject_call_closed e s) = es_active s"
  "es_running (reject_call_closed e s) = es_running s" "es_scopes (reject_call_closed e s) = es_scopes s"
  "es_resolveReservations (reject_call_closed e s) = es_resolveReservations s"
  "es_accepting (reject_call_closed e s) = es_accepting s"
  "es_resolveQueue (reject_call_closed e s) = es_resolveQueue s" "es_backgroundQueue (reject_call_closed e s) = es_backgroundQueue s"
  by (simp_all add: reject_call_closed_def call_answered_def settle_call_def)

lemma fold_reject_fields:
  "es_profile (fold reject_call_closed es s) = es_profile s"
  "es_active (fold reject_call_closed es s) = es_active s"
  "es_running (fold reject_call_closed es s) = es_running s"
  "es_scopes (fold reject_call_closed es s) = es_scopes s"
  "es_resolveReservations (fold reject_call_closed es s) = es_resolveReservations s"
  "es_accepting (fold reject_call_closed es s) = es_accepting s"
  "es_resolveQueue (fold reject_call_closed es s) = es_resolveQueue s"
  "es_backgroundQueue (fold reject_call_closed es s) = es_backgroundQueue s"
  by (induction es arbitrary: s; simp add: reject_fields)+

lemma stop_scheduler_inv:
  assumes inv: "scheduler_inv s"
  shows "scheduler_inv (stop_scheduler s)"
proof (cases "es_accepting s")
  case True
  let ?es = "es_resolveQueue s @ es_backgroundQueue s"
  let ?c = "s\<lparr>es_accepting := False, es_cancelSample := None, es_cancelBackgroundPromotion := None,
      es_resolveQueue := [], es_backgroundQueue := []\<rparr>"
  let ?r = "fold reject_call_closed ?es ?c"
  have acc: "scheduler_accounts s" using inv by (simp add: scheduler_inv_def)
  have "accounts_of (map se_run ?es) (?c\<lparr>es_waiting := []\<rparr>)" "set (es_settled ?c) \<inter> se_run ` set ?es = {}"
    "call_ids ?c = []" "snd ` set (es_waiting ?c) \<subseteq> se_run ` set ?es"
    using acc by (auto simp: accounts_of_def call_ids_def)
  then have accr: "scheduler_accounts ?r" by (rule fold_reject_accounts)
  have "scheduler_bounds ?r" "scheduler_wakes ?r"
    using inv by (simp_all add: scheduler_inv_def scheduler_bounds_def scheduler_wakes_def concurrency_def fold_reject_fields)
  with accr show ?thesis using True by (simp add: stop_scheduler_def scheduler_inv_def)
next
  case False
  then show ?thesis using inv by (simp add: stop_scheduler_def)
qed

lemma abort_call_inv:
  assumes inv: "scheduler_inv s" and fresh: "es_aborted s c = None"
  shows "scheduler_inv (abort_call_signal c r s)"
proof -
  have one: "scheduler_inv (call_onAbort a t u)" if u: "scheduler_inv u" and t: "t \<in> set (call_ids u)" for a t and u :: "'a scheduler"
  proof -
    have acc: "scheduler_accounts u" using u by (simp add: scheduler_inv_def)
    have new: "t \<notin> set (es_settled u)" using acc t by (auto simp: accounts_of_def)
    have "length (filter (\<lambda>e. se_run e \<noteq> t) xs) \<le> n" if "length xs \<le> n" for xs n
      using that length_filter_le order.trans by blast
    then have "scheduler_bounds (call_onAbort a t u)"
      using u new by (auto simp: scheduler_inv_def scheduler_bounds_def call_onAbort_def call_answered_def remove_call_def
          settle_call_def concurrency_def)
    moreover have "scheduler_wakes (call_onAbort a t u)"
      using u new by (auto simp: scheduler_inv_def scheduler_wakes_def call_onAbort_def call_answered_def remove_call_def
          settle_call_def concurrency_def suppressed_def)
    ultimately show ?thesis using onAbort_accounts(1) [OF acc t] by (simp add: scheduler_inv_def)
  qed
  have "scheduler_inv (fold (call_onAbort a) ts u)"
    if "scheduler_inv u" and "distinct ts" and "set ts \<subseteq> set (call_ids u)" for ts a and u :: "'a scheduler"
    using that
  proof (induction ts arbitrary: u)
    case (Cons t ts)
    have t: "t \<in> set (call_ids u)" using Cons.prems(3) by simp
    have acc: "scheduler_accounts u" using Cons.prems(1) by (simp add: scheduler_inv_def)
    have "set ts \<subseteq> set (call_ids (call_onAbort a t u))" using Cons.prems(2,3) onAbort_accounts(2) [OF acc t] by auto
    then show ?case using Cons.IH [OF one [OF Cons.prems(1) t]] Cons.prems(2) by simp
  qed simp
  moreover have "scheduler_inv (s\<lparr>es_aborted := (es_aborted s)(c \<mapsto> r)\<rparr>)"
  proof -
    have "scheduler_bounds (s\<lparr>es_aborted := x\<rparr>) = scheduler_bounds s" "scheduler_accounts (s\<lparr>es_aborted := x\<rparr>) = scheduler_accounts s"
      "scheduler_wakes (s\<lparr>es_aborted := x\<rparr>) = scheduler_wakes s" for x
      by (simp_all add: scheduler_bounds_def accounts_of_def scheduler_wakes_def call_ids_def concurrency_def suppressed_def)
    then show ?thesis using inv by (simp add: scheduler_inv_def)
  qed
  moreover have "distinct (map snd (filter (\<lambda>(a, u). a = c) (es_waiting s)))"
    using inv by (simp add: scheduler_inv_def accounts_of_def distinct_map_filter)
  moreover have "set (map snd (filter (\<lambda>(a, u). a = c) (es_waiting s))) \<subseteq> set (call_ids (s\<lparr>es_aborted := (es_aborted s)(c \<mapsto> r)\<rparr>))"
    using inv by (auto simp: scheduler_inv_def accounts_of_def call_ids_def)
  ultimately show ?thesis by (simp add: abort_call_signal_def)
qed

lemma scope_inv:
  assumes inv: "scheduler_inv s"
  shows "k \<notin> set (es_scopes s) \<Longrightarrow> scheduler_inv (open_scope k s)"
    and "k \<in> set (es_scopes s) \<Longrightarrow> scheduler_inv (close_scope k s)"
proof -
  show "scheduler_inv (open_scope k s)"
    using inv by (auto simp: open_scope_def cancelScheduledBackgroundPromotion_def scheduler_parts accounts_of_def
        concurrency_def call_ids_def suppressed_def)
next
  assume k: "k \<in> set (es_scopes s)"
  let ?s = "s\<lparr>es_resolveReservations := es_resolveReservations s - 1, es_scopes := remove1 k (es_scopes s)\<rparr>"
  have parts: "scheduler_bounds ?s" "scheduler_accounts ?s"
    using inv k by (simp_all add: scheduler_parts accounts_of_def concurrency_def call_ids_def length_remove1)
  show "scheduler_inv (close_scope k s)"
  proof (cases "es_resolveReservations ?s = 0")
    case True
    let ?c = "?s\<lparr>es_cancelBackgroundPromotion := None\<rparr>"
    obtain d where d: "scheduleBackgroundPromotion (sp_resolveQuietPeriodMs (es_profile ?s)) ?c = ?c\<lparr>es_cancelBackgroundPromotion := d\<rparr>"
        "es_accepting ?c \<and> es_backgroundQueue ?c \<noteq> [] \<longrightarrow> d \<noteq> None"
      using schedule_fields [of "sp_resolveQuietPeriodMs (es_profile ?s)" ?c] by blast
    have "es_backgroundQueue s \<noteq> [] \<Longrightarrow> d \<noteq> None"
      using d(2) inv by (auto simp: scheduler_inv_def scheduler_bounds_def)
    then have "scheduler_wakes (?c\<lparr>es_cancelBackgroundPromotion := d\<rparr>)"
      using inv by (simp add: scheduler_inv_def scheduler_wakes_def suppressed_def concurrency_def)
    then have "scheduler_inv (?c\<lparr>es_cancelBackgroundPromotion := d\<rparr>)"
      using parts unfolding scheduler_inv_def by (simp only: timer_frame)
    moreover have "close_scope k s = ?c\<lparr>es_cancelBackgroundPromotion := d\<rparr>"
      using True d(1) by (simp add: close_scope_def cancelScheduledBackgroundPromotion_def Let_def)
    ultimately show ?thesis by simp
  next
    case False
    then have "close_scope k s = ?s" by (simp add: close_scope_def Let_def)
    moreover have "scheduler_wakes ?s"
      using inv False by (simp add: scheduler_inv_def scheduler_wakes_def suppressed_def concurrency_def)
    ultimately show ?thesis using parts by (simp add: scheduler_inv_def)
  qed
qed

lemma monitor_inv: "scheduler_inv s \<Longrightarrow> scheduler_inv (startMonitoring now s)"
  by (auto simp: startMonitoring_def scheduleSample_def scheduler_inv_def sampler_frame scheduler_wakes_def)

lemma scheduler_step_inv: "scheduler_step s r \<Longrightarrow> scheduler_inv s \<Longrightarrow> scheduler_inv r"
  by (induction rule: scheduler_step.induct)
    (auto intro: run_call_inv call_finish_inv abort_call_inv scope_inv monitor_inv sample_inv promote_inv stop_scheduler_inv)

lemma scheduler_reachable_inv:
  assumes "scheduler_step\<^sup>*\<^sup>* s r" and "new_scheduler profile rss = Inr s"
  shows "scheduler_inv r"
  using assms(1) by (induction rule: rtranclp_induct) (use scheduler_inv_new [OF assms(2)] scheduler_step_inv in auto)

end
