(* ===== verification/Runtime_Properties.thy ===== *)
theory Runtime_Properties
  imports Daemon_Lifecycle Request_Deadline Scheduler_Laws
begin

text \<open>
  The properties of the daemon's runtime: its admission lanes, its request budgets, the scheduler of the shared
  inference session and the shutdown.
\<close>

section \<open>Admission lanes\<close>

text \<open>
  C37: however submissions, aborts, ends of tasks and a stop interleave, a lane never runs more
  than its concurrency nor holds more than its queue depth, its count is the number of tasks that run,
  no slot is free while work waits, nothing waits in a stopped lane, and nobody waits whose
  signal has been aborted.
\<close>
theorem lane_keeps_its_limits:
  assumes "lane_steps (new_lane name cap) es w"
  shows "let l = lw_lane w in
    ln_active l = length (lw_running w) \<and> ln_active l \<le> lc_concurrency (ln_capacity l) \<and>
    length (ln_queue l) \<le> lc_queueDepth (ln_capacity l) \<and>
    (ln_queue l \<noteq> [] \<longrightarrow> ln_accepting l \<and> ln_active l = lc_concurrency (ln_capacity l)) \<and>
    (\<forall>e \<in> set (ln_queue l). \<forall>c. qe_signal e = Some c \<longrightarrow> lw_aborted w c = None)"
  using lane_reachable_inv [OF assms] by (auto simp: lane_inv_def lane_bounds_def lane_signals_def Let_def)

theorem lane_keeps_its_limits_witness:
  "\<exists>w :: nat lane_world. lane_steps (new_lane Lane_resolve \<lparr>lc_concurrency = 1, lc_queueDepth = 1\<rparr>)
     [Submit 0 None, Submit 1 (Some 7), Submit 2 None] w \<and>
     ln_active (lw_lane w) = length (lw_running w) \<and> length (lw_running w) = 1 \<and> length (ln_queue (lw_lane w)) = 1"
proof -
  obtain w :: "nat lane_world" where w: "lane_steps (new_lane Lane_resolve \<lparr>lc_concurrency = 1, lc_queueDepth = 1\<rparr>)
      [Submit 0 None, Submit 1 (Some 7), Submit 2 None] w"
    and n: "length (lw_running w) = 1" "length (ln_queue (lw_lane w)) = 1"
    by (auto simp: new_lane_def lane_run_def lane_start_def enqueue_def answered_def Let_def)
  from lane_keeps_its_limits [OF w] n w show ?thesis by (auto simp: Let_def)
qed

text \<open>
  C38: every submission is at each moment in exactly one place, running, waiting or answered, and is
  answered at most once; tasks start in the order of their submission, whoever waited among them.
\<close>
theorem lane_answers_once_in_order:
  assumes "lane_steps (new_lane name cap) es w"
  shows "distinct (map fst (lw_running w) @ queued_ids w @ map fst (lw_answers w)) \<and>
    set (lw_submitted w) = set (map fst (lw_running w) @ queued_ids w @ map fst (lw_answers w)) \<and>
    subseq (lw_started w @ queued_ids w) (lw_submitted w)"
proof -
  have inv: "lane_inv w" using assms by (rule lane_reachable_inv)
  then have m: "mset (lw_submitted w) = mset (map fst (lw_running w) @ queued_ids w @ map fst (lw_answers w))"
    and d: "distinct (lw_submitted w)" by (simp_all add: lane_inv_def lane_accounts_def)
  show ?thesis using mset_eq_setD [OF m] d mset_eq_imp_distinct_iff [OF m] inv
    by (simp add: lane_inv_def lane_order_def)
qed

theorem lane_answers_once_in_order_witness:
  "\<exists>w :: nat lane_world. lane_steps (new_lane Lane_resolve \<lparr>lc_concurrency = 1, lc_queueDepth = 1\<rparr>)
     [Submit 0 None, Submit 1 None, Settles 0 5] w \<and> subseq (lw_started w @ queued_ids w) (lw_submitted w) \<and>
     lw_started w = [0, 1]"
proof -
  obtain w :: "nat lane_world" where w: "lane_steps (new_lane Lane_resolve \<lparr>lc_concurrency = 1, lc_queueDepth = 1\<rparr>)
      [Submit 0 None, Submit 1 None, Settles 0 5] w" and s: "lw_started w = [0, 1]"
    by (auto simp: new_lane_def lane_run_def lane_start_def enqueue_def finish_def drainOne.simps settle_entry_def
        detached_def answered_def Let_def)
  from lane_answers_once_in_order [OF w] w s show ?thesis by blast
qed

text \<open>
  A lane that nothing is submitted to runs out. As many ends of tasks as it has work, running or
  waiting, leave it idle, never sooner and never later, and such a sequence exists: in it everything that
  waited runs and is answered by its own task.
\<close>
theorem lane_runs_out:
  assumes "lane_steps (new_lane name cap) es w" and "0 < lc_concurrency (ln_capacity (lw_lane w))"
  shows "(\<forall>ts w'. lane_steps w (map (\<lambda>t. Settles t v) ts) w' \<longrightarrow>
      (lane_idle (lw_lane w') \<longleftrightarrow> length ts = length (lw_running w) + length (queued_ids w))) \<and>
    (\<exists>ts w'. lane_steps w (map (\<lambda>t. Settles t v) ts) w' \<and> lane_idle (lw_lane w') \<and>
      set ts = fst ` set (lw_running w) \<union> set (queued_ids w) \<and>
      lw_answers w' = lw_answers w @ map (\<lambda>t. (t, Task_settled v)) ts)"
proof
  have inv: "lane_inv w" using assms(1) by (rule lane_reachable_inv)
  have p: "pending w = length (lw_running w) + length (queued_ids w)"
    using inv by (simp add: lane_inv_def lane_bounds_def pending_def queued_ids_def Let_def)
  show "\<forall>ts w'. lane_steps w (map (\<lambda>t. Settles t v) ts) w' \<longrightarrow>
      (lane_idle (lw_lane w') \<longleftrightarrow> length ts = length (lw_running w) + length (queued_ids w))"
    using drain_length [OF _ inv, of v] by (auto simp: idle_pending p [symmetric]) fastforce+
  obtain ts w' where run: "lane_steps w (map (\<lambda>t. Settles t v) ts) w'" "pending w' = 0"
      "lw_answers w' = lw_answers w @ map (\<lambda>t. (t, Task_settled v)) ts"
    using drain_exists [OF inv assms(2), of v] by blast
  then show "\<exists>ts w'. lane_steps w (map (\<lambda>t. Settles t v) ts) w' \<and> lane_idle (lw_lane w') \<and>
      set ts = fst ` set (lw_running w) \<union> set (queued_ids w) \<and>
      lw_answers w' = lw_answers w @ map (\<lambda>t. (t, Task_settled v)) ts"
    using drained_all [OF inv run] by (auto simp: idle_pending)
qed

theorem lane_runs_out_witness:
  "\<exists>ts w'. lane_steps (new_lane Lane_resolve \<lparr>lc_concurrency = 2, lc_queueDepth = 1\<rparr>) (map (\<lambda>t. Settles t (5 :: nat)) ts) w' \<and>
     lane_idle (lw_lane w')"
  using lane_runs_out [OF lane_steps.none, of Lane_resolve "\<lparr>lc_concurrency = 2, lc_queueDepth = 1\<rparr>" 5]
  by (auto simp: new_lane_def)

section \<open>Request budgets\<close>

text \<open>
  C39: under a profile the daemon accepts, a stage that starts while there is time to work and spends its
  whole allowance, for selection or for search, leaves the assembly reserve untouched, so that the answer can be assembled;
  and a fresh request that spends its whole selection stage still has time to search.
\<close>
theorem stages_leave_the_reserve:
  assumes "assertDaemonRuntimeProfile p = Inr u" and "rb_profile b = rp_deadlines p" and "rb_startedAt b \<le> now"
    and "assertWorkable b now False stage = Inr ()" and "0 \<le> used" and "used \<le> max (selectionMs b now) (managedSearchMs b now)"
  shows "millis (dp_assemblyReserveMs (rp_deadlines p)) \<le> remainingMs b (now + used) \<and>
    assertCanAssemble b (now + used) False = Inr () \<and>
    0 < managedSearchMs b (rb_startedAt b + selectionMs b (rb_startedAt b))"
  using allowance_leaves_reserve [OF assms] selection_leaves_search [OF assms(1,2)] by blast

theorem stages_leave_the_reserve_witness:
  "assertCanAssemble (open_budget (rp_deadlines DAEMON_RUNTIME_PROFILE_V1) 10 None) (20 + 1750) False = Inr ()"
proof -
  let ?b = "open_budget (rp_deadlines DAEMON_RUNTIME_PROFILE_V1) 10 None"
  have v: "millis (dp_totalMs (rp_deadlines DAEMON_RUNTIME_PROFILE_V1)) = 3000"
    "millis (dp_assemblyReserveMs (rp_deadlines DAEMON_RUNTIME_PROFILE_V1)) = 500"
    "millis (dp_managedSearchCeilingMs (rp_deadlines DAEMON_RUNTIME_PROFILE_V1)) = 1750"
    by (simp_all add: DAEMON_RUNTIME_PROFILE_V1_def millis_def whole_def)
  have b: "rb_profile ?b = rp_deadlines DAEMON_RUNTIME_PROFILE_V1" "rb_startedAt ?b \<le> 20"
    by (simp_all add: open_budget_def or_else_def)
  have w: "assertWorkable ?b 20 False ''search'' = Inr ()" "1750 \<le> managedSearchMs ?b 20"
    using v by (simp_all add: assertWorkable_def managedSearchMs_def workableMs_def remainingMs_def budget_elapsedMs_def
        open_budget_def or_else_def)
  show ?thesis
    using stages_leave_the_reserve [OF profile_v1_accepted b w(1), of 1750] w(2) by simp
qed

section \<open>The shared inference session\<close>

lemma drain_background:
  assumes "drainable ts s" and "es_backgroundStarts (drain s) \<noteq> es_backgroundStarts s"
  shows "es_resolveQueue (drain s) = [] \<and> es_resolveReservations (drain s) = 0 \<and> \<not> suppressed (drain s)"
  using drain_loop_post [OF assms(1)] assms by (simp add: drain_def drain_post_def drainable_def)

lemma schedule_keeps:
  "es_backgroundStarts (scheduleBackgroundPromotion d s) = es_backgroundStarts s"
  by (simp add: scheduleBackgroundPromotion_def)

lemma onAbort_keeps: "es_backgroundStarts (call_onAbort c t s) = es_backgroundStarts s"
  by (simp add: call_onAbort_def call_answered_def remove_call_def settle_call_def)

lemma run_keeps: "es_backgroundStarts (run_call p t c s) = es_backgroundStarts s"
  by (auto simp: run_call_def queue_call_def push_call_def call_start_def call_answered_def schedule_keeps onAbort_keeps
      cancelScheduledBackgroundPromotion_def Let_def split: embedding_priority.split option.split)

lemma stop_keeps: "es_backgroundStarts (stop_scheduler s) = es_backgroundStarts s"
proof -
  have "es_backgroundStarts (fold reject_call_closed es u) = es_backgroundStarts u" for es and u :: "'a scheduler"
    by (induction es arbitrary: u) (simp_all add: reject_call_closed_def call_answered_def settle_call_def)
  then show ?thesis by (simp add: stop_scheduler_def del: fold_append)
qed

lemma abort_keeps: "es_backgroundStarts (abort_call_signal c r s) = es_backgroundStarts s"
proof -
  have "es_backgroundStarts (fold (call_onAbort a) ts u) = es_backgroundStarts u" for a ts and u :: "'a scheduler"
    by (induction ts arbitrary: u) (simp_all add: onAbort_keeps)
  then show ?thesis by (simp add: abort_call_signal_def)
qed

lemma background_start:
  assumes "scheduler_step s r" and inv: "scheduler_inv s" and "es_backgroundStarts r \<noteq> es_backgroundStarts s"
  shows "es_resolveQueue r = [] \<and> es_resolveReservations r = 0 \<and> \<not> suppressed r"
  using assms
proof (cases rule: scheduler_step.cases)
  case (finish t p v rss)
  let ?s = "ended_call t rss s"
  have d: "es_resolveQueue s \<noteq> [] \<Longrightarrow> drainable [t] ?s"
    using ended_call_parts [OF inv finish(2), of rss] inv
    by (auto simp: drainable_def ended_call_def scheduler_inv_def scheduler_bounds_def)
  have "es_resolveQueue s \<noteq> [] \<and> r = call_answered t (Call_settled v) (drain ?s)"
    using assms(3) finish(1)
    by (auto simp: call_finish_def ended_call_def call_answered_def schedule_keeps Let_def split: if_splits)
  then show ?thesis using drain_background [OF d] assms(3)
    by (auto simp: call_answered_def suppressed_def ended_call_def)
next
  case (sample expectedAt rss now later)
  let ?s = "s\<lparr>es_cancelSample := None, es_eventLoopLagMs := max 0 (now - expectedAt), es_rssBytes := rss\<rparr>"
  have "es_accepting s" using assms(3) sample(1) by (auto simp: sample_def Let_def split: if_splits)
  then have d: "drainable [] ?s" and r: "r = scheduleSample later (drain ?s)"
    using inv sample(1) by (simp_all add: drainable_def scheduler_inv_def scheduler_bounds_def accounts_of_def concurrency_def
        call_ids_def sample_def Let_def)
  then show ?thesis using drain_background [OF d] assms(3) by (auto simp: scheduleSample_def suppressed_def)
next
  case (promote d)
  let ?s = "s\<lparr>es_cancelBackgroundPromotion := None\<rparr>"
  have "es_accepting s" using assms(3) promote(1) by (auto simp: promote_def drain_def split: if_splits)
  then have d: "drainable [] ?s" using inv by (simp add: drainable_def scheduler_inv_def timer_frame)
  then show ?thesis using drain_background [OF d] assms(3) promote(1) by (simp add: promote_def)
qed (auto simp: run_keeps stop_keeps abort_keeps open_scope_def close_scope_def cancelScheduledBackgroundPromotion_def
    schedule_keeps startMonitoring_def scheduleSample_def Let_def split: if_splits)

text \<open>
  C40: background work never takes the session from Resolve work: whatever step starts a background call, after
  it no Resolve call waits, no Resolve request holds the session and the event loop is not
  delayed; and the session never runs more calls than it may, its queues stay within their depths.
\<close>
theorem resolve_goes_first:
  assumes "new_scheduler profile rss = Inr s0" and "scheduler_step\<^sup>*\<^sup>* s0 s" and "scheduler_step s r"
  shows "(es_backgroundStarts r \<noteq> es_backgroundStarts s \<longrightarrow>
      es_resolveQueue r = [] \<and> es_resolveReservations r = 0 \<and> \<not> suppressed r) \<and>
    es_active r = length (es_running r) \<and> es_active r \<le> concurrency r \<and>
    length (es_resolveQueue r) \<le> nat_of_number (sp_resolveQueueDepth (es_profile r)) \<and>
    length (es_backgroundQueue r) \<le> nat_of_number (sp_backgroundQueueDepth (es_profile r))"
proof -
  have inv: "scheduler_inv s" using assms(2,1) by (rule scheduler_reachable_inv)
  have "scheduler_bounds r" using scheduler_step_inv [OF assms(3) inv] by (simp add: scheduler_inv_def)
  then show ?thesis using background_start [OF assms(3) inv] by (auto simp: scheduler_bounds_def)
qed

definition idle_scheduler :: "nat \<Rightarrow> nat scheduler" where
  "idle_scheduler rss =
     \<lparr>es_profile = EMBEDDING_RUNTIME_SCHEDULER_V1, es_resolveQueue = [], es_backgroundQueue = [], es_active = 0, es_resolveStarts = 0,
      es_backgroundStarts = 0, es_resolveReservations = 0, es_accepting = True, es_eventLoopLagMs = 0,
      es_rssBytes = rss, es_cancelSample = None, es_cancelBackgroundPromotion = None, es_aborted = Map.empty,
      es_settled = [], es_waiting = [], es_running = [], es_scopes = [], es_submitted = [], es_answers = []\<rparr>"

lemma scheduler_v1_accepted: "new_scheduler EMBEDDING_RUNTIME_SCHEDULER_V1 rss = Inr (idle_scheduler rss)"
  by (simp add: idle_scheduler_def new_scheduler_def assertEmbeddingRuntimeSchedulerProfile_def EMBEDDING_RUNTIME_SCHEDULER_V1_def
      scheduler_limits_def safe_at_least_def isSafeInteger_def whole_def nat_of_number_def trim_def is_space_char_def)

theorem resolve_goes_first_witness:
  "\<exists>s0 r :: nat scheduler. new_scheduler EMBEDDING_RUNTIME_SCHEDULER_V1 0 = Inr s0 \<and>
     scheduler_step s0 r \<and> es_active r \<le> concurrency r"
proof -
  obtain s0 :: "nat scheduler" where s0: "new_scheduler EMBEDDING_RUNTIME_SCHEDULER_V1 0 = Inr s0"
    using scheduler_v1_accepted by blast
  have "scheduler_step s0 (startMonitoring 0 s0)" by (rule scheduler_step.monitor)
  with resolve_goes_first [OF s0 rtranclp.rtrancl_refl this] s0 show ?thesis by blast
qed

text \<open>
  Accepted background work is never forgotten: while the session is idle, no Resolve request
  holds it and the event loop is not delayed, waiting background work has the promotion
  timer armed, and when the timer fires the session runs a call or nothing is left waiting. While the
  loop is delayed the sampler that will look again is armed.
\<close>
theorem background_is_woken:
  assumes "new_scheduler profile rss = Inr s0" and "scheduler_step\<^sup>*\<^sup>* s0 s" and "es_accepting s"
  shows "(es_backgroundQueue s \<noteq> [] \<and> es_active s = 0 \<and> es_scopes s = [] \<and> \<not> suppressed s \<longrightarrow>
      es_cancelBackgroundPromotion s \<noteq> None \<and> scheduler_step s (promote s) \<and>
      (0 < es_active (promote s) \<or> es_backgroundQueue (promote s) = [])) \<and>
    (suppressed s \<longrightarrow> es_cancelSample s \<noteq> None)"
proof -
  have inv: "scheduler_inv s" using assms(2,1) by (rule scheduler_reachable_inv)
  have res: "es_resolveReservations s = length (es_scopes s)" using inv by (simp add: scheduler_inv_def scheduler_bounds_def)
  let ?s = "s\<lparr>es_cancelBackgroundPromotion := None\<rparr>"
  have "drainable [] ?s" using inv assms(3) by (simp add: drainable_def scheduler_inv_def timer_frame)
  from drain_loop_post [OF this] have fr: "frame ?s (promote s)" using assms(3) by (simp add: drain_post_def promote_def drain_def)
  have woken: "0 < es_active (promote s) \<or> es_backgroundQueue (promote s) = []"
    if "es_scopes s = []" "\<not> suppressed s"
    using promote_inv [OF inv] that res fr frame_suppressed [OF fr]
    by (auto simp: scheduler_inv_def scheduler_wakes_def frame_def suppressed_def)
  have armed: "es_cancelBackgroundPromotion s \<noteq> None"
    if "es_backgroundQueue s \<noteq> []" "es_active s = 0" "es_scopes s = []" "\<not> suppressed s"
    using inv that res by (simp add: scheduler_inv_def scheduler_wakes_def)
  moreover have "suppressed s \<Longrightarrow> es_cancelSample s \<noteq> None"
    using inv assms(3) by (simp add: scheduler_inv_def scheduler_wakes_def)
  ultimately show ?thesis using woken by (auto intro: scheduler_step.promote)
qed

theorem background_is_woken_witness:
  "es_cancelBackgroundPromotion (run_call Priority_background 1 None (idle_scheduler 0)) \<noteq> None"
proof -
  let ?s = "run_call Priority_background 1 None (idle_scheduler 0)"
  have step: "scheduler_step (idle_scheduler 0) ?s" by (rule scheduler_step.run) (simp add: idle_scheduler_def)
  have depth: "nat_of_number (sp_backgroundQueueDepth EMBEDDING_RUNTIME_SCHEDULER_V1) = 32"
    by (simp add: EMBEDDING_RUNTIME_SCHEDULER_V1_def)
  have "es_accepting ?s" "es_backgroundQueue ?s \<noteq> []" "es_active ?s = 0" "es_scopes ?s = []" "\<not> suppressed ?s"
    using depth by (simp_all add: idle_scheduler_def run_call_def queue_call_def push_call_def scheduleBackgroundPromotion_def
        suppressed_def Let_def)
  then show ?thesis
    using background_is_woken [OF scheduler_v1_accepted r_into_rtranclp [of scheduler_step, OF step]] by blast
qed

section \<open>Shutdown\<close>

text \<open>
  Shutting down refuses first and releases last: as soon as the daemon no longer accepts, no lane accepts and
  no drain hook is pending, and it never accepts again; nothing is closed before; every
  closeable is closed at most once, the last registered first; and the shutdown that has settled reports exactly
  the failures there were.
\<close>
theorem shutdown_releases_in_order:
  assumes "lifecycle_step\<^sup>*\<^sup>* (new_lifecycle lanes timeout) d"
  shows "(lf_state d \<noteq> Accepting \<longrightarrow> lf_drainHooks d = [] \<and> (\<forall>w \<in> set (lf_lanes d). \<not> ln_accepting (lw_lane w))) \<and>
    (lf_log d \<noteq> [] \<longrightarrow> lf_state d \<noteq> Accepting) \<and>
    (\<forall>r. lifecycle_step d r \<and> lf_state d \<noteq> Accepting \<longrightarrow> lf_state r \<noteq> Accepting) \<and>
    (\<exists>n ks. lf_log d @ ks = rev (take n (map cl_id (lf_closeables d)))) \<and> distinct (lf_log d) \<and>
    (\<forall>c \<in> set (lf_closeables d). cl_closed c \<longleftrightarrow> cl_id c \<in> set (lf_log d)) \<and>
    (\<forall>fs. lf_shutdown d = Settled fs \<longrightarrow> lf_state d = Closed \<and> fs = lf_failures d)"
proof -
  have inv: "lifecycle_inv d" using assms by (rule lifecycle_reachable_inv)
  have "\<exists>n ks. lf_log d @ ks = rev (take n (map cl_id (lf_closeables d)))"
  proof (cases "lf_log d = []")
    case True
    then have "lf_log d @ [] = rev (take 0 (map cl_id (lf_closeables d)))" by simp
    then show ?thesis by blast
  next
    case False
    then show ?thesis using inv by (auto simp: lifecycle_inv_def split: shutdown_progress.splits)
  qed
  moreover from this have "distinct (lf_log d)"
  proof (elim exE)
    fix n ks assume e: "lf_log d @ ks = rev (take n (map cl_id (lf_closeables d)))"
    have "distinct (rev (take n (map cl_id (lf_closeables d))))"
      using inv by (simp add: lifecycle_inv_def distinct_take del: take_map)
    then show ?thesis unfolding e [symmetric] by simp
  qed
  moreover have "lf_log d \<noteq> [] \<longrightarrow> lf_state d \<noteq> Accepting"
    using inv by (auto simp: lifecycle_inv_def split: shutdown_progress.splits)
  moreover have "\<forall>r. lifecycle_step d r \<and> lf_state d \<noteq> Accepting \<longrightarrow> lf_state r \<noteq> Accepting"
    by (auto elim!: lifecycle_step.cases simp: registerCloseable_def registerDrainHook_def beginDraining_def shutdown_def
        poll_lanes_def closeAll_def close_one_def split: shutdown_progress.splits list.splits option.splits if_splits)
  ultimately show ?thesis using inv unfolding lifecycle_inv_def by blast
qed

theorem shutdown_releases_in_order_witness:
  "\<exists>d :: nat lifecycle. lifecycle_step\<^sup>*\<^sup>* (new_lifecycle [new_lane Lane_resolve \<lparr>lc_concurrency = 1, lc_queueDepth = 1\<rparr>] 3000) d \<and>
     lf_state d = Draining \<and> (\<forall>w \<in> set (lf_lanes d). \<not> ln_accepting (lw_lane w))"
proof -
  let ?s = "new_lifecycle [new_lane Lane_resolve \<lparr>lc_concurrency = 1, lc_queueDepth = 1\<rparr>] 3000 :: nat lifecycle"
  let ?d = "shutdown 0 ?s"
  have r: "lifecycle_step\<^sup>*\<^sup>* ?s ?d" by (rule r_into_rtranclp) (rule lifecycle_step.shut)
  moreover have "lf_state ?d = Draining" by (simp add: shutdown_def beginDraining_def new_lifecycle_def)
  ultimately show ?thesis using shutdown_releases_in_order [OF r] by (intro exI [of _ ?d]) simp
qed

end
