(* ===== verification/Spec2Isabelle.thy ===== *)
theory Spec2Isabelle
  imports Admission_Lane Admission_Laws Assemble_Context Assemble_Laws Assembly_Laws
    Bounded_Ranking Candidate_Index Candidate_Laws Candidate_Properties Candidate_Store
    Canonical_Json Card_Decisions Card_Impact Card_Selection Card_Store_Contract Card_Version
    Context_Assembly Contract_Properties Contracts Daemon_Lifecycle Decision_Properties
    Delivery_Properties Embedding_Scheduler Facet_Support Fact_Grounding Hybrid_Laws
    Hybrid_Properties Hybrid_Ranking Intake Intake_Contract Intake_Laws Js_Numbers Minimum_Set
    Minimum_Set_Laws Minimum_Set_Properties Plan_Cost Plan_Cost_Laws Plan_Verification
    Plan_Verification_Laws Planner_Properties Policy_Context Prelude Publication_Chain
    Query_Facet Query_Scoring Reachability_Properties Registry_Database Registry_Overlap
    Registry_Properties Registry_Safety Registry_Samples Registry_Store Registry_Store_Laws
    Removal_Savings Request_Deadline Request_Errors Retrieval_Scope Runtime_Profile
    Runtime_Properties Scheduler_Laws Scope_Reachability Scoring_Laws Scoring_Properties
    Select_Answers Select_Context Select_Laws Select_Properties Selection_Plan
    Selection_Plan_Laws Selection_Properties Selection_Types Selection_Verdict
begin

text \<open>
  A verification library for contextctl: a daemon that publishes knowledge sources, keeps a registry of Cards that
  describe them, selects the Cards a query needs, and assembles an answer from the reads those Cards authorise.

  \<^bold>\<open>The program and this model of it.\<close> Four packages and a daemon, from upstream to downstream.
  packages/contracts holds the types one side hands to the next. packages/ingestion-indexing turns documents into
  Publications and vector indexes. packages/registry-lifecycle takes Publications in, drafts versions of Cards,
  lets an operator approve them, and exports the approved catalog. packages/selection-delivery turns a query and the
  catalog into a plan of reads, and the outcomes of the reads into an answer. apps/contextctl-daemon composes
  them and bounds their work by lanes, deadlines and an orderly shutdown. Source paths below are relative to src/.

  Conventions. A record models an interface or a class, a datatype an enum or a union, one definition one function or
  method, under the source's name where Isabelle allows it. A throw is the left side of a sum, whose datatypes list
  the error classes with their messages: \<open>selection_error\<close> and \<open>request_error\<close> of Selection, the errors of the
  contracts and of the registry in their own theories. State that the source mutates is passed and returned. Loops over lists are
  structural recursions or folds; loops without such a bound are functions with a proof of termination (the removal
  loop of the set planner, the quarantine of contradicting reads, the drain of a queue, the binary search); no fuel is used
  anywhere. Asynchronous code that shares state while it waits (lanes, scheduler, lifecycle,
  the store of candidate indexes) is a step relation, one step per turn of the event loop, and a property of it holds
  in every state the steps reach, whatever their order. The use cases of the registry are coarser: one step is a whole use case,
  its awaited reads and its transaction together, so Registry_Safety and the properties over it speak of use cases that do not
  overlap. Registry_Overlap cuts the intake and the approval between reads and write and shows what an overlap, which two
  processes on one registry.db can produce, keeps (everything stored) and what it can undo (a withdrawal, the single claim). An error
  carries no state: a use case that throws leaves the store as it was because its transaction, if it opened one, rolled back. Maps keep the insertion order of JavaScript (association
  lists), sets likewise; a string is a list of code units U+0000 to U+00FF (see Prelude); a JavaScript number that may
  be fractional is a \<open>js_number\<close>: an exact rational, an infinity or NaN, so rounding of doubles is not modelled.
  What is not under src/ is a parameter: SHA-256 (properties that need it assume it does not collide), NFKC and
  the Korean word lists of a lexicon, logarithm and square root, String(number), Date.parse, the clock, the SQLite
  engine below its tables, embedding models, and the vector store. Every such assumption has a witness that instantiates it.

  \<^bold>\<open>Shared.\<close> Prelude has results, JavaScript containers and strings; Js_Numbers arithmetic and comparison of numbers;
  Canonical_Json that the canonical text of a JSON value determines its content; Bounded_Ranking the bounded, sorted
  list two rankings use, proved equal to the prefix of a stable sort inside the locale \<open>keyed_comparison\<close>, which
  Hybrid_Laws and Candidate_Laws interpret on the code's comparators.

  \<^bold>\<open>Contracts\<close> (packages/contracts/src). Contracts: publications, units, facts, scopes, their cross-field
  validation, digests and the delta between two Publications. Contract_Properties: the canonical text is the
  content, digests detect every change, an accepted delta rebuilds the Publication.

  \<^bold>\<open>Registry\<close> (packages/registry-lifecycle/src). Retrieval_Scope, Card_Version, Fact_Grounding, Card_Impact,
  Publication_Chain and Scope_Reachability model domain/; Card_Decisions, Intake and the second half of Scope_Reachability model
  application/; Registry_Store and Registry_Database model infrastructure/sqlite/: tables are lists of rows in
  insertion order, a transaction is one function whose error leaves the tables as they were. The ports are locales: Card_Store_Contract
  (\<open>card_store\<close>) states what the operator's decisions rely on and Registry_Store_Laws interprets it on the
  SQLite store; Intake_Contract states what the intake relies on and Intake_Laws interprets it. Registry_Safety makes decisions
  and intakes the steps of one state machine over registry.db; Registry_Overlap says what happens when two of them overlap. Registry_Properties, Decision_Properties and
  Reachability_Properties hold the properties, Registry_Samples the concrete registry of their witnesses.

  \<^bold>\<open>Selection\<close> (packages/selection-delivery/src/domain and application/select-context.ts). Selection_Types, Selection_Verdict,
  Selection_Plan, Plan_Cost, Query_Scoring, Query_Facet, Facet_Support, Hybrid_Ranking, Minimum_Set, Policy_Context,
  Card_Selection (selection texts and embedding profiles), Candidate_Index and Candidate_Store (the prepared vectors
  and the store that builds and swaps them), Plan_Verification, Request_Errors and Select_Context (the whole run) each
  model the file their first text names. Laws and properties: Selection_Plan_Laws and Plan_Cost_Laws with
  Removal_Savings (reads are merged without loss, savings are exact), Scoring_Laws and Scoring_Properties (bands,
  unrelated Cards change nothing), Hybrid_Laws and Hybrid_Properties, Minimum_Set_Laws, Minimum_Set_Properties and
  Planner_Properties (the set planner answers, keeps coverage, is locally minimal), Candidate_Laws and
  Candidate_Properties (exact search, one index per snapshot), Plan_Verification_Laws (verification without its
  loops), Select_Laws, Select_Answers and Select_Properties: a run on a catalog as Registry hands it over produces a
  plan that passes its own verification, reads only what the policy allows, and has an answer whenever the
  ceilings allow one; what semantic search adds can fail without changing a read.

  \<^bold>\<open>Delivery\<close> (domain/context-assembly.ts, application/assemble-context.ts, domain/managed-resolution.ts and
  domain/context-resolution.ts). Context_Assembly and Assemble_Context model them; Assembly_Laws and Assemble_Laws
  give every loop a closed form; Delivery_Properties: contradicting reads are set aside exactly, nothing else is lost, the
  evidence is the longest affordable prefix of one ranking, one broken read costs one item.

  \<^bold>\<open>Runtime\<close> (apps/contextctl-daemon/src/runtime). Admission_Lane, Runtime_Profile, Request_Deadline,
  Embedding_Scheduler and Daemon_Lifecycle, with the invariants of their steps in Admission_Laws and Scheduler_Laws and the
  properties in Runtime_Properties.

  \<^bold>\<open>Bounds.\<close> Limits are the source's own constants (planning ceilings, catalog limits, lane capacities, the
  budget of an answer); a property about a limit states it for the limit that is configured. Nothing is bounded for the
  sake of the model.

  \<^bold>\<open>Not modelled.\<close> packages/ingestion-indexing, but for what it hands over through the contracts: capture of
  documents, block model, segmentation, embedding, vector index and the publication of index versions stand on remark,
  Intl.Segmenter, tokenizers, ONNX and Qdrant, and the parts of it that do not are left for a later extension. The
  transports (HTTP, MCP, stdio), the command line and its rendering, configuration and
  asset installation, backup of state: parsing and I/O around the modelled operations. Adapters of embedding models,
  of LLMs and of Qdrant: network clients whose behaviour is a parameter here. The audit of selections (a log no operation reads back)
  and the worker threads that carry it. Within modelled parts: zod's field grammars in the contracts (a library), WAL
  side files and integrity pragmas of SQLite (inputs of Registry_Database), UTF-16 beyond U+00FF, the rounding of doubles,
  and NaN or fractional limits of the two rankings topK and topLexical, whose limit is a natural number.
\<close>

end
